(* ===== verification/Prelude.thy ===== *)
theory Prelude
  imports Main "HOL-Library.Sublist"
begin

text \<open>
  Shared vocabulary of the development.

  \<^item> \<open>json\<close> is the value type of \<open>orjson.loads\<close> / \<open>json.loads\<close>; an object is an
    association list in file order whose first binding of a key is the one that
    \<open>dict.get\<close> answers with.
  \<^item> A Python exception is the left injection of a sum; \<open>py_error\<close> holds the
    exception classes the modelled code can raise.
  \<^item> Python's \<open>bytes\<close> are \<open>string\<close>, one character per byte, and a Python \<open>str\<close> is the
    \<open>string\<close> of its UTF-8 bytes; \<open>utf8_chars\<close> cuts it into its characters, so lengths,
    slices and whitespace tests count code points as Python does.
  \<^item> \<open>py_simps\<close> collects the rewrite rules for these basic operations,
    \<open>step_intros\<close> the facts that invariants are preserved by single operations.
\<close>

named_theorems py_simps
named_theorems step_intros

subsection \<open>Exceptions\<close>

datatype py_error =
    AttributeError | KeyError | IndexError | TypeError | OSError
  | UnicodeDecodeError | JSONDecodeError | OverflowError | RuntimeError | ValueError string

type_synonym 'a py = "py_error + 'a"

definition py_bind :: "'e + 'a \<Rightarrow> ('a \<Rightarrow> 'e + 'b) \<Rightarrow> 'e + 'b" where
  "py_bind r f = (case r of Inl e \<Rightarrow> Inl e | Inr a \<Rightarrow> f a)"

lemma py_bind_simps [simp]:
  "py_bind (Inl e) f = Inl e" "py_bind (Inr a) f = f a"
  by (simp_all add: py_bind_def)

lemma py_bind_Inr_iff:
  "py_bind r f = Inr b \<longleftrightarrow> (\<exists>a. r = Inr a \<and> f a = Inr b)"
  by (cases r) auto

lemma py_bind_Inl_iff:
  "py_bind r f = Inl e \<longleftrightarrow> r = Inl e \<or> (\<exists>a. r = Inr a \<and> f a = Inl e)"
  by (cases r) auto

text \<open>The list comprehension \<open>[f(x) for x in xs]\<close>: the first exception ends it.\<close>

fun py_map :: "('a \<Rightarrow> 'e + 'b) \<Rightarrow> 'a list \<Rightarrow> 'e + 'b list" where
  "py_map f [] = Inr []"
| "py_map f (x # xs) = py_bind (f x) (\<lambda>y. py_bind (py_map f xs) (\<lambda>ys. Inr (y # ys)))"

lemma py_map_total: "(\<And>x. x \<in> set xs \<Longrightarrow> f x = Inr (g x)) \<Longrightarrow> py_map f xs = Inr (map g xs)"
  by (induction xs) auto

lemma py_map_append:
  "py_map f (xs @ ys) = py_bind (py_map f xs) (\<lambda>a. py_bind (py_map f ys) (\<lambda>b. Inr (a @ b)))"
  by (induction xs) (auto simp: py_bind_def split: sum.splits)

lemma py_map_length: "py_map f xs = Inr ys \<Longrightarrow> length ys = length xs"
  by (induction xs arbitrary: ys) (auto simp: py_bind_Inr_iff)

subsection \<open>JSON values\<close>

datatype json =
    JNull | JBool bool | JInt int | JFloat int int
  | JStr string | JArr "json list" | JObj "(string \<times> json) list"

type_synonym dict = "(string \<times> json) list"

text \<open>\<open>d.get(k)\<close>: a missing key and a null value are both \<open>None\<close>.\<close>

definition dget :: "dict \<Rightarrow> string \<Rightarrow> json" where
  "dget d k = (case map_of d k of None \<Rightarrow> JNull | Some v \<Rightarrow> v)"

text \<open>
  \<open>d.get(k, v)\<close> answers the default for a missing key only; \<open>k in d\<close>; \<open>d[k]\<close> raises on a
  missing key.
\<close>

definition dget_or :: "dict \<Rightarrow> string \<Rightarrow> json \<Rightarrow> json" where
  "dget_or d k v = (case map_of d k of None \<Rightarrow> v | Some w \<Rightarrow> w)"

definition dhas :: "dict \<Rightarrow> string \<Rightarrow> bool" where
  "dhas d k = (map_of d k \<noteq> None)"

definition dindex :: "dict \<Rightarrow> string \<Rightarrow> json py" where
  "dindex d k = (case map_of d k of None \<Rightarrow> Inl KeyError | Some v \<Rightarrow> Inr v)"

text \<open>\<open>e.get(k)\<close> on a value of unknown shape: only an object has \<open>get\<close>.\<close>

fun jget :: "json \<Rightarrow> string \<Rightarrow> json py" where
  "jget (JObj d) k = Inr (dget d k)"
| "jget _ k = Inl AttributeError"

text \<open>\<open>bool(v)\<close>; a float is \<open>m * 10 ^ e\<close>.\<close>

fun jtruthy :: "json \<Rightarrow> bool" where
  "jtruthy JNull = False"
| "jtruthy (JBool b) = b"
| "jtruthy (JInt i) = (i \<noteq> 0)"
| "jtruthy (JFloat m e) = (m \<noteq> 0)"
| "jtruthy (JStr s) = (s \<noteq> [])"
| "jtruthy (JArr xs) = (xs \<noteq> [])"
| "jtruthy (JObj d) = (d \<noteq> [])"

text \<open>\<open>x in (None, False)\<close>: zero is equal to \<open>False\<close>.\<close>

definition none_or_false :: "json \<Rightarrow> bool" where
  "none_or_false v = (case v of JNull \<Rightarrow> True | JBool b \<Rightarrow> \<not> b | JInt i \<Rightarrow> i = 0 | JFloat m e \<Rightarrow> m = 0 | _ \<Rightarrow> False)"

lemma dget_Cons [py_simps, simp]: "dget ((k', v) # d) k = (if k' = k then v else dget d k)"
  by (simp add: dget_def)

lemma dget_Nil [py_simps, simp]: "dget [] k = JNull"
  by (simp add: dget_def)

text \<open>\<open>d[k] = v\<close>: an existing key keeps its place, a new one goes to the end.\<close>

fun dict_put :: "dict \<Rightarrow> string \<Rightarrow> json \<Rightarrow> dict" where
  "dict_put [] k v = [(k, v)]"
| "dict_put ((k', v') # d) k v = (if k' = k then (k, v) # d else (k', v') # dict_put d k v)"

lemma map_of_dict_put: "map_of (dict_put d k v) = (map_of d)(k \<mapsto> v)"
  by (induction d k v rule: dict_put.induct) auto

lemma dget_dict_put [simp]: "dget (dict_put d k v) k' = (if k' = k then v else dget d k')"
  by (simp add: dget_def map_of_dict_put)

lemma dhas_dict_put: "dhas (dict_put d k v) k' \<longleftrightarrow> k' = k \<or> dhas d k'"
  by (auto simp: dhas_def map_of_dict_put)

text \<open>\<open>d.pop(k, None)\<close>: the dict that is left.\<close>

definition dict_del :: "dict \<Rightarrow> string \<Rightarrow> dict" where
  "dict_del d k = filter (\<lambda>e. fst e \<noteq> k) d"

subsection \<open>Whitespace and lines\<close>

definition is_cont :: "char \<Rightarrow> bool" where
  "is_cont c = (let n = (of_char c :: nat) in 0x80 \<le> n \<and> n \<le> 0xBF)"

function utf8_chars :: "string \<Rightarrow> string list" where
  "utf8_chars [] = []"
| "utf8_chars (b # bs) = (b # takeWhile is_cont bs) # utf8_chars (dropWhile is_cont bs)"
  by pat_completeness auto
termination
  by (relation "measure length") (auto simp: less_Suc_eq_le length_dropWhile_le)

definition str_len :: "string \<Rightarrow> nat" where
  "str_len s = length (utf8_chars s)"

definition str_take :: "nat \<Rightarrow> string \<Rightarrow> string" where
  "str_take n s = concat (take n (utf8_chars s))"

lemma concat_utf8_chars [simp]: "concat (utf8_chars s) = s"
  by (induction s rule: utf8_chars.induct) auto

text \<open>The characters of \<open>str.isspace\<close>, as UTF-8; and \<open>bytes.isspace\<close>.\<close>

definition ws_char :: "string \<Rightarrow> bool" where
  "ws_char c =
     (case map of_char c of
        [n :: nat] \<Rightarrow> (9 \<le> n \<and> n \<le> 13) \<or> (28 \<le> n \<and> n \<le> 32)
      | [n, m] \<Rightarrow> n = 0xC2 \<and> (m = 0x85 \<or> m = 0xA0)
      | [n, m, k] \<Rightarrow>
          (n = 0xE1 \<and> m = 0x9A \<and> k = 0x80) \<or> (n = 0xE3 \<and> m = 0x80 \<and> k = 0x80) \<or>
          (n = 0xE2 \<and> m = 0x81 \<and> k = 0x9F) \<or>
          (n = 0xE2 \<and> m = 0x80 \<and> ((0x80 \<le> k \<and> k \<le> 0x8A) \<or> k = 0xA8 \<or> k = 0xA9 \<or> k = 0xAF))
      | _ \<Rightarrow> False)"

definition ws_byte :: "char \<Rightarrow> bool" where
  "ws_byte c = (let n = (of_char c :: nat) in (9 \<le> n \<and> n \<le> 13) \<or> n = 32)"

definition strip_by :: "('a \<Rightarrow> bool) \<Rightarrow> 'a list \<Rightarrow> 'a list" where
  "strip_by p xs = rev (dropWhile p (rev (dropWhile p xs)))"

text \<open>\<open>s.strip()\<close>, \<open>s.rstrip()\<close> and \<open>s.split()\<close>.\<close>

definition str_strip :: "string \<Rightarrow> string" where
  "str_strip s = concat (strip_by ws_char (utf8_chars s))"

definition str_rstrip :: "string \<Rightarrow> string" where
  "str_rstrip s = concat (rev (dropWhile ws_char (rev (utf8_chars s))))"

function split_ws_chars :: "string list \<Rightarrow> string list" where
  "split_ws_chars cs =
     (case dropWhile ws_char cs of
        [] \<Rightarrow> []
      | c # rest \<Rightarrow>
          concat (c # takeWhile (\<lambda>x. \<not> ws_char x) rest) #
          split_ws_chars (dropWhile (\<lambda>x. \<not> ws_char x) rest))"
  by pat_completeness auto
termination
proof (relation "measure length")
  fix cs c rest
  assume "dropWhile ws_char cs = c # rest"
  then have "length (c # rest) \<le> length cs" by (metis length_dropWhile_le)
  then show "(dropWhile (\<lambda>x. \<not> ws_char x) rest, cs) \<in> measure length"
    using length_dropWhile_le [of "\<lambda>x. \<not> ws_char x" rest] by simp
qed simp

declare split_ws_chars.simps [simp del]

definition str_split :: "string \<Rightarrow> string list" where
  "str_split s = split_ws_chars (utf8_chars s)"

text \<open>\<open>p in s\<close> for strings.\<close>

fun contains :: "'a list \<Rightarrow> 'a list \<Rightarrow> bool" where
  "contains p [] = (p = [])"
| "contains p (x # xs) = (prefix p (x # xs) \<or> contains p xs)"

lemma contains_iff: "contains p s \<longleftrightarrow> (\<exists>a b. s = a @ p @ b)"
proof (induction s)
  case (Cons x xs)
  note IH = Cons.IH
  show ?case
  proof
    assume "contains p (x # xs)"
    then consider "prefix p (x # xs)" | "\<exists>a b. xs = a @ p @ b" using Cons by auto
    then show "\<exists>a b. x # xs = a @ p @ b"
      by cases (metis append_Nil prefix_def, metis append_Cons)
  next
    assume "\<exists>a b. x # xs = a @ p @ b"
    then obtain a b where ab: "x # xs = a @ p @ b" by blast
    then have "prefix p (x # xs) \<or> contains p xs"
    proof (cases a)
      case Nil
      then show ?thesis using ab by (simp add: prefix_def)
    next
      case (Cons y a')
      then have "xs = a' @ p @ b" using ab by simp
      then show ?thesis using IH by blast
    qed
    then show "contains p (x # xs)" by (simp only: contains.simps)
  qed
qed auto

text \<open>\<open>str.splitlines()\<close> on the characters: \<open>\r\n\<close> is one break, no empty last line.\<close>

definition line_break :: "string \<Rightarrow> bool" where
  "line_break c =
     (case map of_char c of
        [n :: nat] \<Rightarrow> (10 \<le> n \<and> n \<le> 13) \<or> (28 \<le> n \<and> n \<le> 30)
      | [n, m] \<Rightarrow> n = 0xC2 \<and> m = 0x85
      | [n, m, k] \<Rightarrow> n = 0xE2 \<and> m = 0x80 \<and> (k = 0xA8 \<or> k = 0xA9)
      | _ \<Rightarrow> False)"

fun splitlines_chars :: "string \<Rightarrow> string list \<Rightarrow> string list" where
  "splitlines_chars cur [] = (if cur = [] then [] else [cur])"
| "splitlines_chars cur (c # cs) =
     (if line_break c then
        (case cs of
           [] \<Rightarrow> [cur]
         | d # ds \<Rightarrow> if c = [CHR 13] \<and> d = [CHR 10] then cur # splitlines_chars [] ds
                    else cur # splitlines_chars [] cs)
      else splitlines_chars (cur @ c) cs)"

definition str_splitlines :: "string \<Rightarrow> string list" where
  "str_splitlines s = splitlines_chars [] (utf8_chars s)"

text \<open>\<open>v[k]\<close> for a string \<open>k\<close>, and \<open>for x in v\<close>.\<close>

fun jindex :: "json \<Rightarrow> string \<Rightarrow> json py" where
  "jindex (JObj d) k = dindex d k"
| "jindex _ k = Inl TypeError"

fun jiter :: "json \<Rightarrow> json list py" where
  "jiter (JArr xs) = Inr xs"
| "jiter (JObj d) = Inr (map (\<lambda>e. JStr (fst e)) d)"
| "jiter (JStr s) = Inr (map JStr (utf8_chars s))"
| "jiter _ = Inl TypeError"

text \<open>\<open>str(n)\<close> of an integer; \<open>str\<close> of other values, given how containers and floats print.\<close>

fun digits_of :: "nat \<Rightarrow> string" where
  "digits_of n = (if n < 10 then [char_of (n + 48)] else digits_of (n div 10) @ [char_of (n mod 10 + 48)])"

declare digits_of.simps [simp del]

definition int_str :: "int \<Rightarrow> string" where
  "int_str i = (if i < 0 then ''-'' @ digits_of (nat (- i)) else digits_of (nat i))"

fun py_str :: "(json \<Rightarrow> string) \<Rightarrow> json \<Rightarrow> string" where
  "py_str other (JStr s) = s"
| "py_str other JNull = ''None''"
| "py_str other (JBool b) = (if b then ''True'' else ''False'')"
| "py_str other (JInt i) = int_str i"
| "py_str other v = other v"

subsection \<open>Times\<close>

text \<open>A \<open>datetime\<close>, in microseconds since the epoch.\<close>

datatype stamp = Naive int | Aware int   \<comment> \<open>wall time without a zone; an instant\<close>

text \<open>A \<open>datetime\<close> lies between the years 1 and 9999; outside, arithmetic on it raises.\<close>

definition datetime_min :: int where "datetime_min = -62135596800000000"
definition datetime_max :: int where "datetime_max = 253402300799999999"

definition to_utc :: "int \<Rightarrow> int py" where
  "to_utc t = (if datetime_min \<le> t \<and> t \<le> datetime_max then Inr t else Inl OverflowError)"

subsection \<open>Lemmas on stripping, splitting and joining\<close>

lemma strip_by_all: "(\<And>x. x \<in> set xs \<Longrightarrow> p x) \<Longrightarrow> strip_by p xs = []"
  by (auto simp: strip_by_def dropWhile_eq_Nil_conv dest: set_dropWhileD)

lemma strip_by_Nil_iff: "strip_by p xs = [] \<longleftrightarrow> (\<forall>x \<in> set xs. p x)"
proof
  assume "strip_by p xs = []"
  then have all: "\<forall>x \<in> set (dropWhile p xs). p x"
    by (simp add: strip_by_def dropWhile_eq_Nil_conv)
  have "dropWhile p xs = []"
  proof (rule ccontr)
    assume ne: "dropWhile p xs \<noteq> []"
    then have "\<not> p (hd (dropWhile p xs))" by (rule hd_dropWhile)
    with all ne show False by simp
  qed
  then show "\<forall>x \<in> set xs. p x" by (simp add: dropWhile_eq_Nil_conv)
qed (auto intro: strip_by_all)

lemma strip_by_factor: "\<exists>a b. xs = a @ strip_by p xs @ b \<and> list_all p a \<and> list_all p b"
proof -
  let ?d = "dropWhile p xs"
  have "xs = takeWhile p xs @ ?d" by simp
  moreover have "?d = strip_by p xs @ rev (takeWhile p (rev ?d))"
    unfolding strip_by_def by (metis rev_append rev_rev_ident takeWhile_dropWhile_id)
  moreover have "list_all p (takeWhile p xs)" "list_all p (rev (takeWhile p (rev ?d)))"
    by (auto simp: list_all_iff dest: set_takeWhileD)
  ultimately show ?thesis by metis
qed

lemma strip_by_same_length:
  assumes "length (strip_by p xs) = length xs" shows "strip_by p xs = xs"
proof -
  obtain a b where xs: "xs = a @ strip_by p xs @ b" using strip_by_factor by blast
  then have "length xs = length a + length (strip_by p xs) + length b"
    by (metis add.assoc length_append)
  then have "a = []" "b = []" using assms by simp_all
  then show ?thesis using xs by simp
qed

lemma length_strip_by: "length (strip_by p xs) \<le> length xs"
  by (metis strip_by_def length_rev length_dropWhile_le le_trans)

text \<open>
  \<open>split_on c xs\<close> is \<open>xs.split(c)\<close> for a one-element separator: never empty, and the
  pieces hold no separator.
\<close>

fun split_on :: "'a \<Rightarrow> 'a list \<Rightarrow> 'a list list" where
  "split_on c [] = [[]]"
| "split_on c (x # xs) =
     (if x = c then [] # split_on c xs
      else (case split_on c xs of [] \<Rightarrow> [[x]] | l # ls \<Rightarrow> (x # l) # ls))"

lemma split_on_ne [simp]: "split_on c xs \<noteq> []"
  by (induction xs) (auto split: list.splits)

lemma split_on_free: "c \<notin> set xs \<Longrightarrow> split_on c xs = [xs]"
  by (induction xs) auto

lemma split_on_pieces_free: "l \<in> set (split_on c xs) \<Longrightarrow> c \<notin> set l"
  by (induction xs arbitrary: l) (auto split: list.splits if_splits)

lemma split_on_sep: "split_on c (xs @ c # ys) = split_on c xs @ split_on c ys"
  by (induction xs) (auto split: list.splits)

lemma split_on_append:
  "split_on c ys = y # rest \<Longrightarrow> split_on c (xs @ ys) = split_on c (xs @ y) @ rest"
proof (induction xs)
  case Nil
  then have "c \<notin> set y" using split_on_pieces_free [of y c ys] by simp
  then show ?case using Nil by (simp add: split_on_free)
next
  case (Cons x xs)
  then show ?case by (auto split: list.splits)
qed

text \<open>\<open>sep.join(parts)\<close>.\<close>

fun py_join :: "'a list \<Rightarrow> 'a list list \<Rightarrow> 'a list" where
  "py_join sep [] = []"
| "py_join sep [x] = x"
| "py_join sep (x # y # xs) = x @ sep @ py_join sep (y # xs)"

lemma py_join_split_on: "py_join [c] (split_on c xs) = xs"
proof (induction xs)
  case (Cons x xs)
  then show ?case
    by (cases "split_on c xs"; cases "tl (split_on c xs)") auto
qed simp

subsection \<open>Suffixes of lists\<close>

text \<open>\<open>xs[-n:]\<close> for \<open>n \<ge> 0\<close> (Python's \<open>xs[-0:]\<close> is all of \<open>xs\<close>).\<close>

definition py_last :: "nat \<Rightarrow> 'a list \<Rightarrow> 'a list" where
  "py_last n xs = (if n = 0 then xs else drop (length xs - n) xs)"

definition last_n :: "nat \<Rightarrow> 'a list \<Rightarrow> 'a list" where
  "last_n n xs = drop (length xs - n) xs"

lemma py_last_pos: "0 < n \<Longrightarrow> py_last n xs = last_n n xs"
  by (simp add: py_last_def last_n_def)

lemma last_n_append: "n \<le> length ys \<Longrightarrow> last_n n (xs @ ys) = last_n n ys"
  by (simp add: last_n_def)

lemma rev_take_rev: "rev (take n (rev xs)) = last_n n xs"
  by (simp add: last_n_def take_rev)

lemma last_n_all: "length xs \<le> n \<Longrightarrow> last_n n xs = xs"
  by (simp add: last_n_def)

subsection \<open>First match\<close>

lemma find_rev_last:
  "find p (rev (xs @ [x])) = (if p x then Some x else find p (rev xs))"
  by simp

lemma find_append: "find p (xs @ ys) = (case find p xs of Some x \<Rightarrow> Some x | None \<Rightarrow> find p ys)"
  by (induction xs) auto

lemma find_None_iff_set: "find p xs = None \<longleftrightarrow> (\<forall>x \<in> set xs. \<not> p x)"
  by (induction xs) auto

lemma find_Some_in: "find p xs = Some x \<Longrightarrow> x \<in> set xs \<and> p x"
  by (induction xs) (auto split: if_splits)


lemma no_Some_pair [simp]: "(\<forall>a b. x \<noteq> Some (a, b)) \<longleftrightarrow> x = None"
  by (cases x) auto

text \<open>The bytes of an em dash, which the messages to the master use.\<close>

abbreviation (input) newline :: char where "newline \<equiv> CHR 0x0A"

text \<open>The \<open>$\<close> of a regular expression also matches before one final newline.\<close>

definition drop_final_newline :: "string \<Rightarrow> string" where
  "drop_final_newline s = (if s \<noteq> [] \<and> last s = CHR 0x0A then butlast s else s)"

definition em_dash :: string where "em_dash = [CHR 0xE2, CHR 0x80, CHR 0x94]"

subsection \<open>repr\<close>

text \<open>\<open>repr\<close> of a string of printable characters, and of None.\<close>

definition py_repr :: "string option \<Rightarrow> string" where
  "py_repr s = (case s of
       None \<Rightarrow> ''None''
     | Some v \<Rightarrow>
         let q = (if CHR 0x27 \<in> set v \<and> CHR 0x22 \<notin> set v then CHR 0x22 else CHR 0x27)
         in [q] @ concat (map (\<lambda>c. if c = q \<or> c = CHR 0x5C then [CHR 0x5C, c] else [c]) v) @ [q])"

end
