(* ===== verification/Memo.thy ===== *)
theory Memo
  imports Prelude
begin

text \<open>
  \<open>src/core/memo.py\<close>: the bounded LRU map \<open>BoundedMemo\<close> and the stat-signed memo
  \<open>StatSignatureMemo\<close>. The \<open>OrderedDict\<close> is a list of key/value pairs, least recently
  used first. Every operation holds the lock for its whole body, so one operation is one
  step.
\<close>

record ('k, 'v) bounded_memo =
  memo_limit :: nat
  memo_entries :: "('k \<times> 'v) list"

definition memo_new :: "nat \<Rightarrow> ('k, 'v) bounded_memo" where
  "memo_new limit = \<lparr>memo_limit = limit, memo_entries = []\<rparr>"

definition without_key :: "'k \<Rightarrow> ('k \<times> 'v) list \<Rightarrow> ('k \<times> 'v) list" where
  "without_key k es = filter (\<lambda>e. fst e \<noteq> k) es"

definition memo_get :: "'k \<Rightarrow> ('k, 'v) bounded_memo \<Rightarrow> 'v option \<times> ('k, 'v) bounded_memo" where
  "memo_get k m =
     (case map_of (memo_entries m) k of
        None \<Rightarrow> (None, m)
      | Some v \<Rightarrow> (Some v, m\<lparr>memo_entries := without_key k (memo_entries m) @ [(k, v)]\<rparr>))"

text \<open>The \<open>while len(self._entries) > self._limit: popitem(last=False)\<close> loop.\<close>

fun memo_evict :: "nat \<Rightarrow> ('k \<times> 'v) list \<Rightarrow> ('k \<times> 'v) list" where
  "memo_evict limit [] = []"
| "memo_evict limit (e # es) =
     (if length (e # es) > limit then memo_evict limit es else e # es)"

definition memo_store :: "'k \<Rightarrow> 'v \<Rightarrow> ('k, 'v) bounded_memo \<Rightarrow> ('k, 'v) bounded_memo" where
  "memo_store k v m =
     m\<lparr>memo_entries := memo_evict (memo_limit m) (without_key k (memo_entries m) @ [(k, v)])\<rparr>"

definition memo_drop_where :: "('k \<Rightarrow> bool) \<Rightarrow> ('k, 'v) bounded_memo \<Rightarrow> ('k, 'v) bounded_memo" where
  "memo_drop_where p m = m\<lparr>memo_entries := filter (\<lambda>e. \<not> p (fst e)) (memo_entries m)\<rparr>"

definition memo_drop :: "'k \<Rightarrow> ('k, 'v) bounded_memo \<Rightarrow> ('k, 'v) bounded_memo" where
  "memo_drop k m = m\<lparr>memo_entries := without_key k (memo_entries m)\<rparr>"

definition memo_clear :: "('k, 'v) bounded_memo \<Rightarrow> ('k, 'v) bounded_memo" where
  "memo_clear m = m\<lparr>memo_entries := []\<rparr>"

definition memo_contains :: "'k \<Rightarrow> ('k, 'v) bounded_memo \<Rightarrow> bool" where
  "memo_contains k m = (k \<in> set (map fst (memo_entries m)))"

definition memo_len :: "('k, 'v) bounded_memo \<Rightarrow> nat" where
  "memo_len m = length (memo_entries m)"

subsection \<open>Well-formedness\<close>

definition memo_ok :: "('k, 'v) bounded_memo \<Rightarrow> bool" where
  "memo_ok m = (distinct (map fst (memo_entries m)) \<and> length (memo_entries m) \<le> memo_limit m)"

lemma memo_evict_drop: "memo_evict n es = drop (length es - n) es"
  by (induction n es rule: memo_evict.induct) (auto simp: Suc_diff_le)

lemma set_without_key: "set (without_key k es) = {e \<in> set es. fst e \<noteq> k}"
  by (auto simp: without_key_def)

lemma distinct_without_key:
  "distinct (map fst es) \<Longrightarrow> distinct (map fst (without_key k es @ [(k, v)]))"
  by (induction es) (auto simp: without_key_def)

lemma length_without_key:
  "distinct (map fst es) \<Longrightarrow> map_of es k \<noteq> None \<Longrightarrow> length (without_key k es) < length es"
  unfolding without_key_def
  by (rule length_filter_less [where x = "(k, the (map_of es k))"]) (auto dest: map_of_SomeD)

lemma map_of_without_key: "map_of (without_key k es) j = (if j = k then None else map_of es j)"
  by (induction es) (auto simp: without_key_def)

lemma map_of_refreshed:
  "map_of (without_key k es @ [(k, v)]) j = (if j = k then Some v else map_of es j)"
  by (auto simp: map_of_without_key map_add_def split: option.splits)

lemma map_of_drop_sub:
  assumes "distinct (map fst es)" and "map_of (drop n es) k = Some v"
  shows "map_of es k = Some v"
proof -
  have "(k, v) \<in> set es" using assms(2) by (meson in_set_dropD map_of_SomeD)
  then show ?thesis using assms(1) by simp
qed

lemma memo_ok_new [step_intros]: "memo_ok (memo_new n)"
  by (simp add: memo_ok_def memo_new_def)

lemma memo_ok_get [step_intros]:
  assumes "memo_ok m" shows "memo_ok (snd (memo_get k m))"
proof (cases "map_of (memo_entries m) k")
  case None
  then show ?thesis using assms by (simp add: memo_get_def)
next
  case (Some v)
  then have "length (without_key k (memo_entries m)) < length (memo_entries m)"
    using assms by (intro length_without_key) (auto simp: memo_ok_def)
  then show ?thesis using assms Some distinct_without_key [of "memo_entries m" k v]
    by (simp add: memo_get_def memo_ok_def)
qed

lemma memo_ok_store [step_intros]: "memo_ok m \<Longrightarrow> memo_ok (memo_store k v m)"
  unfolding memo_ok_def memo_store_def
  using distinct_without_key [of "memo_entries m" k v]
  by (simp add: memo_evict_drop drop_map [symmetric] distinct_drop del: drop_append map_append)

lemma memo_ok_drop_where [step_intros]: "memo_ok m \<Longrightarrow> memo_ok (memo_drop_where p m)"
  unfolding memo_ok_def memo_drop_where_def
  by (auto intro: distinct_map_filter le_trans [OF length_filter_le])

lemma memo_ok_drop [step_intros]: "memo_ok m \<Longrightarrow> memo_ok (memo_drop k m)"
  unfolding memo_ok_def memo_drop_def without_key_def
  by (auto intro: distinct_map_filter le_trans [OF length_filter_le])

lemma memo_ok_clear [step_intros]: "memo_ok (memo_clear m)"
  by (simp add: memo_ok_def memo_clear_def)

lemma memo_get_value: "fst (memo_get k m) = map_of (memo_entries m) k"
  by (simp add: memo_get_def split: option.splits)

lemma memo_get_lookup: "map_of (memo_entries (snd (memo_get k m))) = map_of (memo_entries m)"
proof (cases "map_of (memo_entries m) k")
  case (Some v)
  then show ?thesis
    by (auto simp: memo_get_def fun_eq_iff map_of_refreshed simp del: map_of_append)
qed (simp add: memo_get_def)

lemma memo_store_same:
  assumes "0 < memo_limit m"
  shows "map_of (memo_entries (memo_store k v m)) k = Some v"
proof -
  let ?es = "without_key k (memo_entries m)"
  have "length (?es @ [(k, v)]) - memo_limit m \<le> length ?es" using assms by simp
  then have *: "memo_entries (memo_store k v m) = drop (length ?es + 1 - memo_limit m) ?es @ [(k, v)]"
    by (simp add: memo_store_def memo_evict_drop)
  have "map_of (drop n ?es) k = None" for n
    by (auto simp: map_of_eq_None_iff set_without_key dest!: in_set_dropD)
  with * show ?thesis by (simp add: map_add_def)
qed

lemma memo_store_sub:
  assumes ok: "memo_ok m" and look: "map_of (memo_entries (memo_store k v m)) j = Some w"
  shows "(j = k \<and> w = v) \<or> (j \<noteq> k \<and> map_of (memo_entries m) j = Some w)"
proof -
  have "distinct (map fst (without_key k (memo_entries m) @ [(k, v)]))"
    using ok by (intro distinct_without_key) (simp add: memo_ok_def)
  moreover have "map_of (drop (length (without_key k (memo_entries m) @ [(k, v)]) - memo_limit m)
      (without_key k (memo_entries m) @ [(k, v)])) j = Some w"
    using look by (simp add: memo_store_def memo_evict_drop del: drop_append map_of_append)
  ultimately have "map_of (without_key k (memo_entries m) @ [(k, v)]) j = Some w"
    by (rule map_of_drop_sub)
  then show ?thesis by (auto simp: map_of_refreshed simp del: map_of_append split: if_splits)
qed

text \<open>All the laws of a memo operation that clients rely on.\<close>

lemmas memo_laws = memo_get_value memo_get_lookup memo_store_same memo_store_sub

subsection \<open>Recency: what survives eviction\<close>

datatype ('k, 'v) memo_op =
  OGet 'k | OStore 'k 'v | ODrop 'k | ODropWhere "'k \<Rightarrow> bool" | OClear

fun memo_step :: "('k, 'v) memo_op \<Rightarrow> ('k, 'v) bounded_memo \<Rightarrow> ('k, 'v) bounded_memo" where
  "memo_step (OGet k) m = snd (memo_get k m)"
| "memo_step (OStore k v) m = memo_store k v m"
| "memo_step (ODrop k) m = memo_drop k m"
| "memo_step (ODropWhere p) m = memo_drop_where p m"
| "memo_step OClear m = memo_clear m"

fun memo_run :: "('k, 'v) memo_op list \<Rightarrow> ('k, 'v) bounded_memo \<Rightarrow> ('k, 'v) bounded_memo" where
  "memo_run [] m = m"
| "memo_run (c # cs) m = memo_run cs (memo_step c m)"

text \<open>The keys an operation makes recent, and the operations that leave \<open>k\<close>'s entry alone.\<close>

fun op_touches :: "('k, 'v) memo_op \<Rightarrow> 'k set" where
  "op_touches (OGet k) = {k}"
| "op_touches (OStore k v) = {k}"
| "op_touches _ = {}"

fun op_spares :: "'k \<Rightarrow> ('k, 'v) memo_op \<Rightarrow> bool" where
  "op_spares k (OGet j) = True"
| "op_spares k (OStore j v) = (j \<noteq> k)"
| "op_spares k (ODrop j) = (j \<noteq> k)"
| "op_spares k (ODropWhere p) = (\<not> p k)"
| "op_spares k OClear = False"

lemma memo_ok_step [step_intros]: "memo_ok m \<Longrightarrow> memo_ok (memo_step c m)"
  by (cases c) (simp_all add: step_intros)

lemma memo_ok_run: "memo_ok m \<Longrightarrow> memo_ok (memo_run cs m)"
  by (induction cs arbitrary: m) (simp_all add: memo_ok_step)

lemma memo_limit_step [simp]: "memo_limit (memo_step c m) = memo_limit m"
  by (cases c) (simp_all add: memo_get_def memo_store_def memo_drop_def memo_drop_where_def
      memo_clear_def split: option.splits)

lemma memo_limit_store [simp]: "memo_limit (memo_store k v m) = memo_limit m"
  by (simp add: memo_store_def)

text \<open>
  \<open>kept k v T m\<close>: \<open>k\<close> is resident with value \<open>v\<close>, and every entry more recent than it
  has a key in \<open>T\<close>.
\<close>

definition kept :: "'k \<Rightarrow> 'v \<Rightarrow> 'k set \<Rightarrow> ('k, 'v) bounded_memo \<Rightarrow> bool" where
  "kept k v T m =
     (\<exists>pre post. memo_entries m = pre @ (k, v) # post \<and> fst ` set post \<subseteq> T)"

lemma kept_lookup: "memo_ok m \<Longrightarrow> kept k v T m \<Longrightarrow> map_of (memo_entries m) k = Some v"
  by (auto simp: kept_def memo_ok_def)

lemma kept_filter:
  "kept k v T m \<Longrightarrow> p (k, v) \<Longrightarrow> kept k v T (m\<lparr>memo_entries := filter p (memo_entries m)\<rparr>)"
  unfolding kept_def by (fastforce intro: exI [of _ "filter p _"])

lemma kept_get:
  assumes ok: "memo_ok m" and kept: "kept k v T m" and T: "j \<noteq> k \<Longrightarrow> j \<in> T"
  shows "kept k v T (snd (memo_get j m))"
proof (cases "map_of (memo_entries m) j")
  case None
  then show ?thesis using kept by (simp add: memo_get_def)
next
  case (Some w)
  obtain pre post where es: "memo_entries m = pre @ (k, v) # post" "fst ` set post \<subseteq> T"
    using kept by (auto simp: kept_def)
  show ?thesis
  proof (cases "j = k")
    case True
    then have "w = v" using kept_lookup [OF ok kept] Some by simp
    then have "memo_entries (snd (memo_get j m)) = without_key k (memo_entries m) @ (k, v) # []"
      using True Some by (simp add: memo_get_def)
    then show ?thesis unfolding kept_def by (intro exI conjI) (assumption, simp)
  next
    case False
    then have "memo_entries (snd (memo_get j m)) =
      without_key j pre @ (k, v) # (without_key j post @ [(j, w)])"
      using Some es by (simp add: memo_get_def without_key_def)
    moreover have "fst ` set (without_key j post @ [(j, w)]) \<subseteq> T"
      using es(2) T [OF False] by (auto simp: set_without_key)
    ultimately show ?thesis unfolding kept_def by blast
  qed
qed

lemma kept_store:
  assumes ok: "memo_ok m" and kept: "kept k v T m" and T: "j \<noteq> k" "j \<in> T"
    and fin: "finite T" and room: "card T < memo_limit m"
  shows "kept k v T (memo_store j w m)"
proof -
  obtain pre post where es: "memo_entries m = pre @ (k, v) # post" "fst ` set post \<subseteq> T"
    using kept by (auto simp: kept_def)
  let ?post = "without_key j post @ [(j, w)]"
  let ?pre = "without_key j pre"
  let ?n = "length ?pre + 1 + length ?post - memo_limit m"
  have dist: "distinct (map fst ?post)"
    using ok es by (intro distinct_without_key) (simp add: memo_ok_def)
  have sub: "fst ` set ?post \<subseteq> T" using es(2) T(2) by (auto simp: set_without_key)
  have "length ?post = card (fst ` set ?post)"
    using distinct_card [OF dist] by (simp del: distinct_append)
  also have "\<dots> \<le> card T" by (rule card_mono [OF fin sub])
  finally have "?n \<le> length ?pre" using room by simp
  moreover have "without_key j (memo_entries m) @ [(j, w)] = ?pre @ (k, v) # ?post"
    using es(1) T(1) by (simp add: without_key_def)
  ultimately have "memo_entries (memo_store j w m) = drop ?n ?pre @ (k, v) # ?post"
    by (simp add: memo_store_def memo_evict_drop)
  with sub show ?thesis unfolding kept_def by blast
qed

lemma kept_step:
  assumes "memo_ok m" "kept k v T m" "op_spares k c" "op_touches c \<subseteq> insert k T"
    "finite T" "card T < memo_limit m"
  shows "kept k v T (memo_step c m)"
proof (cases c)
  case (OGet j) then show ?thesis using assms by (auto intro: kept_get)
next
  case (OStore j w) then show ?thesis using assms by (auto intro: kept_store)
next
  case (ODrop j) then show ?thesis
    using assms by (auto simp: memo_drop_def without_key_def intro: kept_filter)
next
  case (ODropWhere p) then show ?thesis
    using assms by (auto simp: memo_drop_where_def intro: kept_filter)
next
  case OClear then show ?thesis using assms by simp
qed

lemma kept_run:
  "memo_ok m \<Longrightarrow> kept k v T m \<Longrightarrow> list_all (op_spares k) cs \<Longrightarrow>
   (\<Union>c \<in> set cs. op_touches c) \<subseteq> insert k T \<Longrightarrow> finite T \<Longrightarrow> card T < memo_limit m \<Longrightarrow>
   kept k v T (memo_run cs m)"
  by (induction cs arbitrary: m) (auto simp: memo_ok_step kept_step)

lemma kept_fresh_store:
  assumes "0 < memo_limit m" shows "kept k v {} (memo_store k v m)"
proof -
  let ?es = "without_key k (memo_entries m)"
  have "length (?es @ [(k, v)]) - memo_limit m \<le> length ?es" using assms by simp
  then have "memo_entries (memo_store k v m) = drop (length ?es + 1 - memo_limit m) ?es @ [(k, v)]"
    by (simp add: memo_store_def memo_evict_drop)
  then show ?thesis unfolding kept_def by auto
qed

lemma kept_mono: "kept k v T m \<Longrightarrow> T \<subseteq> U \<Longrightarrow> kept k v U m"
  unfolding kept_def by blast

text \<open>
  The LRU guarantee: after \<open>store(k, v)\<close> on a well-formed memo, as long as the later
  operations neither store, drop nor clear \<open>k\<close> and touch fewer than \<open>limit\<close> distinct
  other keys (however often), \<open>get(k)\<close> answers \<open>v\<close>: eviction never reaches a key more
  recent than the cap.
\<close>

theorem lru_retention:
  assumes "memo_ok m" and "list_all (op_spares k) cs"
    and "card ((\<Union>c \<in> set cs. op_touches c) - {k}) < memo_limit m"
  shows "fst (memo_get k (memo_run cs (memo_store k v m))) = Some v"
proof -
  let ?T = "(\<Union>c \<in> set cs. op_touches c) - {k}"
  have "finite (op_touches c)" for c :: "('a, 'b) memo_op" by (cases c) simp_all
  then have "finite ?T" by simp
  moreover have "0 < memo_limit m" using assms(3) by (metis gr_implies_not0 neq0_conv)
  ultimately have "kept k v ?T (memo_run cs (memo_store k v m))"
    using assms memo_ok_store [OF assms(1)]
    by (intro kept_run kept_mono [OF kept_fresh_store]) auto
  then show ?thesis
    using kept_lookup [OF memo_ok_run [OF memo_ok_store [OF assms(1)]]] memo_get_value by metis
qed

theorem lru_retention_witness:
  "fst (memo_get (1::nat) (memo_run [OStore 2 ''b'', OGet 1, OStore 3 ''c'', OStore 3 ''d'']
     (memo_store 1 ''a'' (memo_new 3)))) = Some ''a''"
  by (rule lru_retention [OF memo_ok_new]) (simp_all add: memo_new_def insert_Diff_if)

subsection \<open>Entries signed with a file's stat\<close>

type_synonym stat_sig = "int \<times> int"   \<comment> \<open>(st_mtime_ns, st_size)\<close>
type_synonym ('k, 's) stat_memo = "('k, int \<times> int \<times> 's) bounded_memo"

definition stat_fresh :: "'k \<Rightarrow> stat_sig \<Rightarrow> ('k, 's) stat_memo \<Rightarrow> 's option \<times> ('k, 's) stat_memo" where
  "stat_fresh k st m =
     (let (entry, m') = memo_get k m in
        ((case entry of
            None \<Rightarrow> None
          | Some (mt, sz, v) \<Rightarrow> if mt = fst st \<and> sz = snd st then Some v else None), m'))"

definition stat_record :: "'k \<Rightarrow> stat_sig \<Rightarrow> 's \<Rightarrow> ('k, 's) stat_memo \<Rightarrow> ('k, 's) stat_memo" where
  "stat_record k st v m = memo_store k (fst st, snd st, v) m"

text \<open>What the memo holds, as a set of signed facts.\<close>

definition stat_holds :: "('k, 's) stat_memo \<Rightarrow> ('k \<times> stat_sig \<times> 's) set" where
  "stat_holds m = {(k, st, v). map_of (memo_entries m) k = Some (fst st, snd st, v)}"

text \<open>
  The interface a stat-signed cache offers its readers: \<open>look\<close> answers only with facts it
  holds under exactly the signature asked for, and only \<open>put\<close> adds a fact.
\<close>

locale stat_cache =
  fixes look :: "'k \<Rightarrow> stat_sig \<Rightarrow> 'm \<Rightarrow> 's option \<times> 'm"
    and put :: "'k \<Rightarrow> stat_sig \<Rightarrow> 's \<Rightarrow> 'm \<Rightarrow> 'm"
    and holds :: "'m \<Rightarrow> ('k \<times> stat_sig \<times> 's) set"
    and valid :: "'m \<Rightarrow> bool"
  assumes look_held: "valid m \<Longrightarrow> fst (look k st m) = Some v \<Longrightarrow> (k, st, v) \<in> holds m"
    and look_holds: "valid m \<Longrightarrow> holds (snd (look k st m)) = holds m"
    and look_valid: "valid m \<Longrightarrow> valid (snd (look k st m))"
    and put_holds: "valid m \<Longrightarrow> holds (put k st v m) \<subseteq> insert (k, st, v) (holds m)"
    and put_valid: "valid m \<Longrightarrow> valid (put k st v m)"
begin

text \<open>
  \<open>sound truth m\<close>: every held fact is licensed by \<open>truth\<close>. Looking up keeps it, and so does
  recording a licensed fact; a served value is licensed.
\<close>

definition sound :: "('k \<Rightarrow> stat_sig \<Rightarrow> 's \<Rightarrow> bool) \<Rightarrow> 'm \<Rightarrow> bool" where
  "sound truth m = (valid m \<and> (\<forall>(k, st, v) \<in> holds m. truth k st v))"

lemma sound_look: "sound truth m \<Longrightarrow> sound truth (snd (look k st m))"
  by (auto simp: sound_def look_holds look_valid)

lemma sound_put: "sound truth m \<Longrightarrow> truth k st v \<Longrightarrow> sound truth (put k st v m)"
  using put_holds put_valid unfolding sound_def by fast

lemma sound_served: "sound truth m \<Longrightarrow> fst (look k st m) = Some v \<Longrightarrow> truth k st v"
  using look_held unfolding sound_def by fast

lemma sound_weaken: "sound truth m \<Longrightarrow> (\<And>k st v. truth k st v \<Longrightarrow> truth' k st v) \<Longrightarrow> sound truth' m"
  unfolding sound_def by fast

text \<open>A reader that serves the memo, else computes and records, answers a licensed value.\<close>

lemma read_through:
  assumes "sound truth m" and "truth k st (f ())"
  shows "truth k st (case fst (look k st m) of Some v \<Rightarrow> v | None \<Rightarrow> f ())"
  using assms sound_served [OF assms(1)] by (cases "fst (look k st m)") auto

end

lemma stat_fresh_simps:
  "fst (stat_fresh k st m) =
     (case map_of (memo_entries m) k of None \<Rightarrow> None
      | Some (mt, sz, v) \<Rightarrow> if (mt, sz) = st then Some v else None)"
  "snd (stat_fresh k st m) = snd (memo_get k m)"
  by (cases st; auto simp: stat_fresh_def memo_get_value split_beta split: option.splits)+

interpretation stat_memo: stat_cache stat_fresh stat_record stat_holds memo_ok
proof
  fix m :: "('k, 's) stat_memo" and k st v
  assume ok: "memo_ok m"
  show "(k, st, v) \<in> stat_holds m" if "fst (stat_fresh k st m) = Some v"
    using that by (auto simp: stat_fresh_simps stat_holds_def split: option.splits if_splits)
  show "stat_holds (snd (stat_fresh k st m)) = stat_holds m"
    by (simp add: stat_holds_def stat_fresh_simps memo_get_lookup)
  show "memo_ok (snd (stat_fresh k st m))" using ok by (simp add: stat_fresh_simps step_intros)
  show "stat_holds (stat_record k st v m) \<subseteq> insert (k, st, v) (stat_holds m)"
    unfolding stat_holds_def stat_record_def
    by (auto simp: prod_eq_iff dest!: memo_store_sub [OF ok])
  show "memo_ok (stat_record k st v m)" using ok by (simp add: stat_record_def step_intros)
qed

subsection \<open>A file, its writers and its memoised readers\<close>

text \<open>
  The world of a memoised reader. A file goes through versions; \<open>sig_of k n\<close> is the stat
  of version \<open>n\<close> of file \<open>k\<close> and \<open>parse k n\<close> what reading its bytes yields. A reader first
  stats, then looks up, and on a miss reads and records under the stat it took before
  the read: writers may run between the two, which is why a miss is two steps with the
  pending stat kept in \<open>rw_pending\<close>.
\<close>

record ('k, 's) reader_world =
  rw_version :: "'k \<Rightarrow> nat"
  rw_memo :: "('k, 's) stat_memo"
  rw_pending :: "('k \<times> stat_sig) list"

definition reader_start :: "nat \<Rightarrow> ('k, 's) reader_world" where
  "reader_start limit = \<lparr>rw_version = (\<lambda>_. 0), rw_memo = memo_new limit, rw_pending = []\<rparr>"

inductive reader_step ::
  "('k \<Rightarrow> nat \<Rightarrow> stat_sig) \<Rightarrow> ('k \<Rightarrow> nat \<Rightarrow> 's) \<Rightarrow>
   ('k, 's) reader_world \<Rightarrow> ('k, 's) reader_world \<Rightarrow> bool"
  for sig_of and parse where
  file_write: "reader_step sig_of parse w
     (w\<lparr>rw_version := (rw_version w)(k := Suc (rw_version w k))\<rparr>)"
| read_hit: "fst (stat_fresh k (sig_of k (rw_version w k)) (rw_memo w)) = Some v \<Longrightarrow>
     reader_step sig_of parse w
       (w\<lparr>rw_memo := snd (stat_fresh k (sig_of k (rw_version w k)) (rw_memo w))\<rparr>)"
| read_miss: "fst (stat_fresh k (sig_of k (rw_version w k)) (rw_memo w)) = None \<Longrightarrow>
     reader_step sig_of parse w
       (w\<lparr>rw_memo := snd (stat_fresh k (sig_of k (rw_version w k)) (rw_memo w)),
          rw_pending := (k, sig_of k (rw_version w k)) # rw_pending w\<rparr>)"
| read_done: "(k, st) \<in> set (rw_pending w) \<Longrightarrow>
     reader_step sig_of parse w
       (w\<lparr>rw_memo := stat_record k st (parse k (rw_version w k)) (rw_memo w),
          rw_pending := remove1 (k, st) (rw_pending w)\<rparr>)"

inductive reader_reachable ::
  "('k \<Rightarrow> nat \<Rightarrow> stat_sig) \<Rightarrow> ('k \<Rightarrow> nat \<Rightarrow> 's) \<Rightarrow> nat \<Rightarrow> ('k, 's) reader_world \<Rightarrow> bool"
  for sig_of parse limit where
  reader_init: "reader_reachable sig_of parse limit (reader_start limit)"
| reader_next: "reader_reachable sig_of parse limit w \<Longrightarrow> reader_step sig_of parse w w' \<Longrightarrow>
     reader_reachable sig_of parse limit w'"

text \<open>
  A recorded fact is licensed when it is signed by some version up to the current one and
  is either that version's content or signed by a version already overwritten.
\<close>

definition timely ::
  "('k \<Rightarrow> nat \<Rightarrow> stat_sig) \<Rightarrow> ('k \<Rightarrow> nat \<Rightarrow> 's) \<Rightarrow> ('k \<Rightarrow> nat) \<Rightarrow> 'k \<Rightarrow> stat_sig \<Rightarrow> 's \<Rightarrow> bool" where
  "timely sig_of parse ver k st v =
     (\<exists>n \<le> ver k. st = sig_of k n \<and> (n < ver k \<or> v = parse k n))"

definition reader_inv ::
  "('k \<Rightarrow> nat \<Rightarrow> stat_sig) \<Rightarrow> ('k \<Rightarrow> nat \<Rightarrow> 's) \<Rightarrow> ('k, 's) reader_world \<Rightarrow> bool" where
  "reader_inv sig_of parse w =
     (stat_memo.sound (timely sig_of parse (rw_version w)) (rw_memo w) \<and>
      (\<forall>(k, st) \<in> set (rw_pending w). \<exists>n \<le> rw_version w k. st = sig_of k n))"

lemma timely_newer: "timely sig_of parse ver k st v \<Longrightarrow> timely sig_of parse (ver(j := Suc (ver j))) k st v"
  unfolding timely_def by (auto intro: le_SucI)

lemma reader_inv_start: "reader_inv sig_of parse (reader_start limit)"
  using memo_ok_new [of limit]
  by (simp add: reader_inv_def reader_start_def stat_memo.sound_def stat_holds_def memo_new_def)

lemma reader_inv_step:
  "reader_step sig_of parse w w' \<Longrightarrow> reader_inv sig_of parse w \<Longrightarrow> reader_inv sig_of parse w'"
proof (induction rule: reader_step.induct)
  case (file_write w k)
  have "\<exists>n \<le> ((rw_version w)(k := Suc (rw_version w k))) j. st = sig_of j n"
    if "(j, st) \<in> set (rw_pending w)" for j st
  proof -
    have "\<exists>n \<le> rw_version w j. st = sig_of j n" using file_write that by (auto simp: reader_inv_def)
    then show ?thesis by (auto intro: le_SucI)
  qed
  then show ?case using file_write
    by (auto simp: reader_inv_def elim!: stat_memo.sound_weaken intro: timely_newer)
next
  case (read_hit k w v)
  then show ?case by (auto simp: reader_inv_def stat_memo.sound_look)
next
  case (read_miss k w)
  then show ?case by (auto simp: reader_inv_def stat_memo.sound_look)
next
  case (read_done k st w)
  then obtain n where n: "n \<le> rw_version w k" "st = sig_of k n"
    by (auto simp: reader_inv_def)
  then have "timely sig_of parse (rw_version w) k st (parse k (rw_version w k))"
    unfolding timely_def by (metis le_neq_implies_less)
  then show ?case using read_done
    by (auto simp: reader_inv_def stat_memo.sound_put dest: notin_set_remove1 set_remove1_subset [THEN subsetD])
qed

lemma reader_inv_reachable: "reader_reachable sig_of parse limit w \<Longrightarrow> reader_inv sig_of parse w"
  by (induction rule: reader_reachable.induct) (auto intro: reader_inv_start reader_inv_step)

text \<open>
  C32. A hit is never stale. In every reachable state, with any interleaving of writes,
  hits, misses and in-flight reads whose file changed under them, a value served for a
  file's current stat is what reading the file now would give. The one assumption is the
  writers' (atomic replace moves \<open>mtime_ns\<close>): no two versions share a signature.
\<close>

theorem memo_hit_is_current:
  assumes "\<And>k. inj (sig_of k)" and "reader_reachable sig_of parse limit w"
    and "fst (stat_fresh k (sig_of k (rw_version w k)) (rw_memo w)) = Some v"
  shows "v = parse k (rw_version w k)"
proof -
  have "timely sig_of parse (rw_version w) k (sig_of k (rw_version w k)) v"
    using reader_inv_reachable [OF assms(2)] assms(3)
    by (auto simp: reader_inv_def intro: stat_memo.sound_served)
  then show ?thesis unfolding timely_def using injD [OF assms(1)] by blast
qed

text \<open>The witness reads, while a write lands between the stat and the read, and reads again.\<close>

definition demo_sig :: "nat \<Rightarrow> nat \<Rightarrow> stat_sig" where
  "demo_sig k n = (int n, 7)"

lemma demo_reachable:
  "reader_reachable demo_sig (\<lambda>k n. n) 4
     \<lparr>rw_version = (\<lambda>_. 0)(5 := 1),
      rw_memo = stat_record 5 (1, 7) 1 (stat_record 5 (0, 7) 1 (memo_new 4)),
      rw_pending = []\<rparr>"
proof -
  let ?R = "reader_reachable demo_sig (\<lambda>k n. n) 4"
  define w0 :: "(nat, nat) reader_world" where "w0 = reader_start 4"
  define w1 where "w1 = w0\<lparr>rw_pending := [(5, (0, 7))]\<rparr>"
  define w2 where "w2 = w1\<lparr>rw_version := (\<lambda>_. 0)(5 := 1)\<rparr>"
  define w3 where "w3 = w2\<lparr>rw_memo := stat_record 5 (0, 7) 1 (memo_new 4), rw_pending := []\<rparr>"
  define w4 where "w4 = w3\<lparr>rw_memo := snd (stat_fresh 5 (1, 7) (rw_memo w3)), rw_pending := [(5, (1, 7))]\<rparr>"
  note defs = w0_def w1_def w2_def w3_def w4_def reader_start_def demo_sig_def
    stat_fresh_def stat_record_def memo_get_def memo_store_def memo_new_def without_key_def
  have "?R w0" unfolding w0_def by (rule reader_init)
  then have "?R w1"
    using read_miss [of 5 demo_sig w0 "\<lambda>k n. n"] by (auto simp: defs intro: reader_next)
  then have "?R w2"
    using file_write [of demo_sig "\<lambda>k n. n" w1 5] by (auto simp: defs intro: reader_next)
  then have "?R w3"
    using read_done [of 5 "(0, 7)" w2 demo_sig "\<lambda>k n. n"] by (auto simp: defs intro: reader_next)
  then have "?R w4"
    using read_miss [of 5 demo_sig w3 "\<lambda>k n. n"] by (auto simp: defs intro: reader_next)
  then show ?thesis
    using read_done [of 5 "(1, 7)" w4 demo_sig "\<lambda>k n. n"] by (auto simp: defs intro: reader_next)
qed

theorem memo_hit_is_current_witness:
  "fst (stat_fresh (5::nat) (demo_sig 5 1) (stat_record 5 (1, 7) 1 (stat_record 5 (0, 7) 1 (memo_new 4))))
     = Some (1::nat) \<and> (1::nat) = (\<lambda>k n. n) 5 1"
proof -
  have hit: "fst (stat_fresh (5::nat) (demo_sig 5 1)
      (stat_record 5 (1, 7) 1 (stat_record 5 (0, 7) 1 (memo_new 4)))) = Some (1::nat)"
    by (simp add: demo_sig_def stat_fresh_def stat_record_def memo_get_def memo_store_def
        memo_new_def without_key_def)
  moreover have "inj (demo_sig k)" for k by (rule injI) (simp add: demo_sig_def)
  ultimately show ?thesis using memo_hit_is_current [OF _ demo_reachable, of 5 1] by simp
qed

end
