(* ===== verification/Ndjson.thy ===== *)
theory Ndjson
  imports Memo
begin

text \<open>
  \<open>src/core/ndjson.py\<close>: line counting, the parse-and-skip contract, the window readers
  from the end of a file, and the append path. \<open>orjson.loads\<close> is not part of the
  repository: it is the parameter \<open>parser\<close>, whose two fields are \<open>loads\<close> on the raw
  bytes and \<open>loads\<close> on the \<open>errors="replace"\<close> decoding of them; \<open>None\<close> is the
  \<open>ValueError\<close>. A file is its bytes, a missing file is \<open>None\<close>.
\<close>

record parser =
  loads_strict :: "string \<Rightarrow> json option"
  loads_replace :: "string \<Rightarrow> json option"

abbreviation NL :: char where "NL \<equiv> CHR 0x0A"
abbreviation CR :: char where "CR \<equiv> CHR 0x0D"

subsection \<open>One line\<close>

text \<open>\<open>return orjson.loads(line)\<close> where the caller tests \<open>is not None\<close>: a \<open>null\<close> line skips.\<close>

fun not_none :: "json \<Rightarrow> json option" where
  "not_none JNull = None"
| "not_none v = Some v"

definition parse_ndjson_line :: "parser \<Rightarrow> string \<Rightarrow> json option" where
  "parse_ndjson_line P line =
     (if line = [] \<or> list_all ws_byte line then None
      else (case loads_strict P line of
              Some v \<Rightarrow> not_none v
            | None \<Rightarrow> (case loads_replace P line of Some v \<Rightarrow> not_none v | None \<Rightarrow> None)))"

text \<open>
  The same function on a \<open>str\<close>, given as its UTF-8 bytes: \<open>str.isspace\<close> also takes the
  control characters 28 to 31 and the Unicode spaces, and there is no second attempt.
\<close>

fun utf8_isspace :: "nat list \<Rightarrow> bool" where
  "utf8_isspace [] = True"
| "utf8_isspace (b # bs) =
     (if (9 \<le> b \<and> b \<le> 13) \<or> (28 \<le> b \<and> b \<le> 32) then utf8_isspace bs
      else if b = 0xC2 then (case bs of c # r \<Rightarrow> (c = 0x85 \<or> c = 0xA0) \<and> utf8_isspace r | _ \<Rightarrow> False)
      else if b = 0xE1 then (case bs of c # d # r \<Rightarrow> c = 0x9A \<and> d = 0x80 \<and> utf8_isspace r | _ \<Rightarrow> False)
      else if b = 0xE2 then
        (case bs of c # d # r \<Rightarrow>
           ((c = 0x80 \<and> ((0x80 \<le> d \<and> d \<le> 0x8A) \<or> d = 0xA8 \<or> d = 0xA9 \<or> d = 0xAF)) \<or>
            (c = 0x81 \<and> d = 0x9F)) \<and> utf8_isspace r
         | _ \<Rightarrow> False)
      else if b = 0xE3 then (case bs of c # d # r \<Rightarrow> c = 0x80 \<and> d = 0x80 \<and> utf8_isspace r | _ \<Rightarrow> False)
      else False)"

definition parse_ndjson_line_str :: "parser \<Rightarrow> string \<Rightarrow> json option" where
  "parse_ndjson_line_str P line =
     (if utf8_isspace (map of_char line) then None
      else (case loads_strict P line of Some v \<Rightarrow> not_none v | None \<Rightarrow> None))"

definition iter_ndjson_events :: "parser \<Rightarrow> string list \<Rightarrow> json list" where
  "iter_ndjson_events P lines = List.map_filter (parse_ndjson_line P) lines"

definition iter_ndjson_events_str :: "parser \<Rightarrow> string list \<Rightarrow> json list" where
  "iter_ndjson_events_str P lines = List.map_filter (parse_ndjson_line_str P) lines"

subsection \<open>Lines of a file\<close>

text \<open>Iterating a binary file, terminators left out; the last line may lack one.\<close>

definition binary_lines :: "string \<Rightarrow> string list" where
  "binary_lines s = (let ps = split_on NL s in if last ps = [] then butlast ps else ps)"

text \<open>Text mode: universal newlines on top, and the bytes must be valid UTF-8.\<close>

fun universal_newlines :: "string \<Rightarrow> string" where
  "universal_newlines [] = []"
| "universal_newlines (c # cs) =
     (if c = CR then
        (case cs of
           [] \<Rightarrow> [NL]
         | d # ds \<Rightarrow> if d = NL then NL # universal_newlines ds else NL # universal_newlines cs)
      else c # universal_newlines cs)"

text \<open>
  The UTF-8 decoder's acceptance: after a lead byte, the ranges the next bytes must lie in
  (no overlong forms, no surrogates, nothing above U+10FFFF).
\<close>

definition utf8_lead :: "nat \<Rightarrow> (nat \<times> nat) list option" where
  "utf8_lead b =
     (let c = (0x80, 0xBF) in
      if b < 0x80 then Some []
      else if 0xC2 \<le> b \<and> b \<le> 0xDF then Some [c]
      else if b = 0xE0 then Some [(0xA0, 0xBF), c]
      else if b = 0xED then Some [(0x80, 0x9F), c]
      else if 0xE1 \<le> b \<and> b \<le> 0xEF then Some [c, c]
      else if b = 0xF0 then Some [(0x90, 0xBF), c, c]
      else if 0xF1 \<le> b \<and> b \<le> 0xF3 then Some [c, c, c]
      else if b = 0xF4 then Some [(0x80, 0x8F), c, c]
      else None)"

fun utf8_run :: "(nat \<times> nat) list \<Rightarrow> nat list \<Rightarrow> bool" where
  "utf8_run expected [] = (expected = [])"
| "utf8_run ((lo, hi) # expected) (b # bs) = (lo \<le> b \<and> b \<le> hi \<and> utf8_run expected bs)"
| "utf8_run [] (b # bs) = (case utf8_lead b of None \<Rightarrow> False | Some expected \<Rightarrow> utf8_run expected bs)"

definition utf8_valid :: "string \<Rightarrow> bool" where
  "utf8_valid s = utf8_run [] (map of_char s)"

definition text_lines :: "string \<Rightarrow> string list py" where
  "text_lines s =
     (if utf8_valid s then Inr (binary_lines (universal_newlines s)) else Inl UnicodeDecodeError)"

definition parse_ndjson_file :: "parser \<Rightarrow> string option \<Rightarrow> json list py" where
  "parse_ndjson_file P file =
     (case file of
        None \<Rightarrow> Inr []
      | Some s \<Rightarrow> py_bind (text_lines s) (\<lambda>ls. Inr (iter_ndjson_events_str P ls)))"

text \<open>\<open>islice(f, start, end)\<close> over the text lines.\<close>

definition parse_ndjson_range ::
  "parser \<Rightarrow> string option \<Rightarrow> nat \<Rightarrow> nat \<Rightarrow> (json list \<times> bool) py" where
  "parse_ndjson_range P file start stop =
     (case file of
        None \<Rightarrow> Inr ([], False)
      | Some s \<Rightarrow> py_bind (text_lines s)
          (\<lambda>ls. Inr (iter_ndjson_events_str P (drop start (take stop ls)), start > 0)))"

subsection \<open>Counting\<close>

text \<open>
  \<open>_count_lines\<close>: chunks of \<open>n\<close> bytes; the walrus loop ends on an empty read. The state is
  the unread rest, the total and the last chunk's last byte.
\<close>

function count_chunks :: "nat \<Rightarrow> string \<Rightarrow> nat \<Rightarrow> char option \<Rightarrow> nat" where
  "count_chunks n rest tot last_byte =
     (if take n rest = [] then
        (case last_byte of Some b \<Rightarrow> if b \<noteq> NL then tot + 1 else tot | None \<Rightarrow> tot)
      else count_chunks n (drop n rest) (tot + count_list (take n rest) NL)
             (Some (last (take n rest))))"
  by pat_completeness auto
termination
  by (relation "measure (\<lambda>(n, rest, _, _). length rest)") auto

declare count_chunks.simps [simp del]

definition count_chunk_size :: nat where "count_chunk_size = 1024 * 1024"
definition tail_window_size :: nat where "tail_window_size = 512 * 1024"

definition count_lines :: "nat \<Rightarrow> string \<Rightarrow> nat" where
  "count_lines n s = count_chunks n s 0 None"

type_synonym 'k count_memo = "('k, nat) stat_memo"

definition count_ndjson_lines ::
  "nat \<Rightarrow> 'k \<Rightarrow> (stat_sig \<times> string) option \<Rightarrow> 'k count_memo \<Rightarrow> nat \<times> 'k count_memo" where
  "count_ndjson_lines chunk k file cm =
     (case file of
        None \<Rightarrow> (0, cm)
      | Some (st, s) \<Rightarrow>
          (case stat_fresh k st cm of
             (Some tot, cm') \<Rightarrow> (tot, cm')
           | (None, cm') \<Rightarrow> (let tot = count_lines chunk s in (tot, stat_record k st tot cm'))))"

subsection \<open>The tail page\<close>

definition nonblank_lines :: "string list \<Rightarrow> string list" where
  "nonblank_lines ls = filter (\<lambda>l. strip_by ws_byte l \<noteq> []) ls"

text \<open>The lines the tail reader parses: the last window when it holds enough, else the file.\<close>

definition tail_lines :: "nat \<Rightarrow> string \<Rightarrow> nat \<Rightarrow> string list" where
  "tail_lines w s n =
     (let whole = py_last n (nonblank_lines (split_on NL s)) in
      if length s > w then
        (let split_lines = split_on NL (drop (length s - w) s);
             complete = tl split_lines;
             complete = (if complete \<noteq> [] \<and> last complete = [] then butlast complete else complete);
             window_lines = nonblank_lines complete
         in if length window_lines \<ge> n then py_last n window_lines else whole)
      else whole)"

type_synonym tail_page = "json list \<times> nat \<times> bool"

definition parse_ndjson_tail ::
  "parser \<Rightarrow> nat \<Rightarrow> nat \<Rightarrow> 'k \<Rightarrow> nat \<Rightarrow> (stat_sig \<times> string) option \<Rightarrow>
   'k count_memo \<times> ('k \<times> nat, tail_page) stat_memo \<Rightarrow>
   tail_page \<times> 'k count_memo \<times> ('k \<times> nat, tail_page) stat_memo" where
  "parse_ndjson_tail P chunk w k limit file memos =
     (case memos of (cm, tm) \<Rightarrow>
      (case file of
         None \<Rightarrow> (([], 0, False), cm, tm)
       | Some (st, s) \<Rightarrow>
           (case stat_fresh (k, limit) st tm of
              (Some page, tm') \<Rightarrow> (page, cm, tm')
            | (None, tm') \<Rightarrow>
                (case count_ndjson_lines chunk k file cm of (tot, cm') \<Rightarrow>
                 if tot = 0 then (([], 0, False), cm', tm')
                 else
                   (let has_more = tot > limit; n = min limit tot in
                    if n = 0 then (([], tot, has_more), cm', tm')
                    else
                      (let page = (iter_ndjson_events P (tail_lines w s n), tot, has_more) in
                       (page, cm', stat_record (k, limit) st page tm')))))))"

subsection \<open>From the end\<close>

text \<open>
  \<open>iter_ndjson_events_from_end\<close>, as the list of byte lines in the order they reach the
  parser: \<open>pos\<close> and \<open>pending\<close> are the loop's variables, \<open>w\<close> the window. With a window of
  0 the loop would make no progress; the constant is 524288, and the guard only makes the
  definition total.
\<close>

definition rfind_nl :: "string \<Rightarrow> nat option" where
  "rfind_nl s = (if NL \<in> set s then Some (length s - 1 - length (takeWhile (\<lambda>c. c \<noteq> NL) (rev s))) else None)"

function walk_from_end :: "nat \<Rightarrow> string \<Rightarrow> nat \<Rightarrow> string list \<Rightarrow> string list" where
  "walk_from_end w s pos pending =
     (if pos = 0 \<or> w = 0 then []
      else
        (let start = pos - w;
             window = take (pos - start) (drop start s)
         in (case rfind_nl window of
               None \<Rightarrow>
                 (let pending' = window # pending in
                  (if start = 0 then [concat pending'] else []) @ walk_from_end w s start pending')
             | Some nl \<Rightarrow>
                 (let lines = split_on NL (take nl window);
                      spanning = drop (nl + 1) window;
                      lines = (if pending \<noteq> [] then lines @ [concat (spanning # pending)]
                               else if spanning \<noteq> [] then lines @ [spanning] else lines);
                      pending' = (if start > 0 then [hd lines] else []);
                      lines = (if start > 0 then tl lines else lines)
                  in rev lines @ walk_from_end w s start pending'))))"
  by pat_completeness auto
termination
  by (relation "measure (\<lambda>(w, s, pos, _). pos)") auto

declare walk_from_end.simps [simp del]

definition iter_from_end :: "parser \<Rightarrow> nat \<Rightarrow> string \<Rightarrow> json list" where
  "iter_from_end P w s = iter_ndjson_events P (walk_from_end w s (length s) [])"

definition iter_ndjson_events_from_end :: "parser \<Rightarrow> string option \<Rightarrow> json list" where
  "iter_ndjson_events_from_end P file =
     (case file of None \<Rightarrow> [] | Some s \<Rightarrow> iter_from_end P tail_window_size s)"

definition parse_ndjson_tail_parseable :: "parser \<Rightarrow> string option \<Rightarrow> int \<Rightarrow> json list" where
  "parse_ndjson_tail_parseable P file limit =
     (if limit \<le> 0 then []
      else rev (take (nat limit) (iter_ndjson_events_from_end P file)))"

subsection \<open>Appending\<close>

text \<open>
  \<open>write_all\<close> against a kernel that accepts \<open>n\<close> bytes in each call: \<open>sched\<close> lists the
  amounts. The result is what the file gained so far and what is left unwritten when the
  schedule ends (an exception raised by \<open>os.write\<close>).
\<close>

fun write_all :: "nat list \<Rightarrow> string \<Rightarrow> string \<Rightarrow> string \<times> string" where
  "write_all sched fd [] = (fd, [])"
| "write_all [] fd view = (fd, view)"
| "write_all (n # sched) fd view = write_all sched (fd @ take n view) (drop n view)"

definition append_ndjson :: "(json \<Rightarrow> string) \<Rightarrow> nat list \<Rightarrow> string option \<Rightarrow> json \<Rightarrow> string \<times> string" where
  "append_ndjson dumps sched file data =
     write_all sched (case file of None \<Rightarrow> [] | Some s \<Rightarrow> s) (dumps data @ [NL])"

subsection \<open>The walk from the end visits every line\<close>

lemma rfind_nl_None: "rfind_nl s = None \<longleftrightarrow> NL \<notin> set s"
  by (simp add: rfind_nl_def)

lemma rfind_nl_Some:
  assumes "rfind_nl s = Some n"
  shows "s = take n s @ NL # drop (n + 1) s" and "NL \<notin> set (drop (n + 1) s)"
proof -
  have "NL \<in> set (rev s)" using assms by (auto simp: rfind_nl_def split: if_splits)
  then obtain t u where tu: "rev s = t @ NL # u" "NL \<notin> set t" by (meson split_list_first)
  then have s: "s = rev u @ NL # rev t" by (simp add: rev_swap)
  have "takeWhile (\<lambda>c. c \<noteq> NL) (rev s) = t"
    unfolding tu(1) using tu(2) by (subst takeWhile_append2) auto
  then have "n = length u" using assms s by (auto simp: rfind_nl_def split: if_splits)
  then show "s = take n s @ NL # drop (n + 1) s" and "NL \<notin> set (drop (n + 1) s)"
    using s tu(2) by simp_all
qed

abbreviation nonempty_lines :: "string list \<Rightarrow> string list" where
  "nonempty_lines \<equiv> filter (\<lambda>l. l \<noteq> [])"

lemma walk_zero [simp]: "walk_from_end w s 0 pending = []"
  by (simp add: walk_from_end.simps)

lemma split_on_hd_free: "NL \<notin> set (hd (split_on NL s))"
  by (metis hd_in_set split_on_ne split_on_pieces_free)

lemma walk_from_end_lines:
  "0 < w \<Longrightarrow> 0 < pos \<Longrightarrow> pos \<le> length s \<Longrightarrow> NL \<notin> set (concat pending) \<Longrightarrow>
   nonempty_lines (walk_from_end w s pos pending) =
     rev (nonempty_lines (split_on NL (take pos s @ concat pending)))"
proof (induction w s pos pending rule: walk_from_end.induct)
  case (1 w s pos pending)
  define start where "start = pos - w"
  define window where "window = take (pos - start) (drop start s)"
  have pos: "take pos s = take start s @ window" and lt: "start < pos" "start \<le> length s"
    using "1.prems" by (auto simp: start_def window_def take_add [symmetric])
  note unf = walk_from_end.simps [of w s pos pending]
  show ?case
  proof (cases "rfind_nl window")
    case None
    let ?p = "window # pending"
    have free: "NL \<notin> set (concat ?p)" using None "1.prems" by (auto simp: rfind_nl_None)
    have walk: "walk_from_end w s pos pending =
        (if start = 0 then [concat ?p] else []) @ walk_from_end w s start ?p"
      using "1.prems" None unf by (simp add: start_def window_def Let_def)
    show ?thesis
    proof (cases "start = 0")
      case True
      then show ?thesis using walk free pos by (simp add: split_on_free)
    next
      case False
      have "nonempty_lines (walk_from_end w s start ?p) =
          rev (nonempty_lines (split_on NL (take start s @ concat ?p)))"
        using "1.IH"(1) [OF _ start_def window_def None] "1.prems" False lt free by simp
      then show ?thesis using walk False pos by simp
    qed
  next
    case (Some nl)
    let ?w1 = "take nl window" and ?span = "drop (nl + 1) window"
    let ?X = "?span @ concat pending"
    let ?l0 = "split_on NL ?w1"
    let ?l1 = "if pending \<noteq> [] then ?l0 @ [concat (?span # pending)]
               else if ?span \<noteq> [] then ?l0 @ [?span] else ?l0"
    have X: "NL \<notin> set ?X" using rfind_nl_Some(2) [OF Some] "1.prems" by auto
    have hd1: "hd ?l1 = hd ?l0" and tl1: "nonempty_lines (tl ?l1) = nonempty_lines (tl ?l0 @ [?X])"
      and l1: "nonempty_lines ?l1 = nonempty_lines (?l0 @ [?X])" by auto
    have whole: "take pos s @ concat pending = (take start s @ ?w1) @ NL # ?X"
      using pos rfind_nl_Some(1) [OF Some] by simp
    have l0: "?l0 = hd ?l0 # tl ?l0" by simp
    have lines: "split_on NL (take pos s @ concat pending) =
        split_on NL (take start s @ hd ?l0) @ tl ?l0 @ [?X]"
      unfolding whole split_on_sep split_on_append [OF l0] using X by (simp add: split_on_free)
    have walk: "walk_from_end w s pos pending =
        rev (if start > 0 then tl ?l1 else ?l1) @
        walk_from_end w s start (if start > 0 then [hd ?l1] else [])"
      using "1.prems" Some unf by (simp add: start_def window_def Let_def)
    show ?thesis
    proof (cases "start = 0")
      case True
      then have "split_on NL (take start s @ hd ?l0) @ tl ?l0 = ?l0"
        by (simp add: split_on_free split_on_hd_free)
      then have "split_on NL (take pos s @ concat pending) = ?l0 @ [?X]"
        using lines by (metis append_assoc)
      moreover have "walk_from_end w s pos pending = rev ?l1"
        using walk True by simp
      ultimately show ?thesis using l1 by (simp only: rev_filter [symmetric])
    next
      case False
      have "nonempty_lines (walk_from_end w s start [hd ?l0]) =
          rev (nonempty_lines (split_on NL (take start s @ hd ?l0)))"
        using "1.IH"(2) [OF _ start_def window_def Some refl refl refl refl refl] "1.prems"
          False lt split_on_hd_free hd1 by simp
      then show ?thesis using walk False lines tl1 hd1 by (simp add: rev_filter [symmetric])
    qed
  qed
qed

text \<open>Empty lines never reach the result, so skipping them early is invisible.\<close>

lemma parse_empty [simp]: "parse_ndjson_line P [] = None" "parse_ndjson_line_str P [] = None"
  by (simp_all add: parse_ndjson_line_def parse_ndjson_line_str_def)

lemma map_filter_nonempty:
  "f [] = None \<Longrightarrow> List.map_filter f (nonempty_lines ls) = List.map_filter f ls"
  by (induction ls) (auto simp: List.map_filter_simps split: option.splits)

lemma map_filter_rev: "List.map_filter f (rev xs) = rev (List.map_filter f xs)"
  by (simp add: List.map_filter_def rev_filter [symmetric] rev_map)

text \<open>The events of a file, read whole: every line of the bytes, in file order.\<close>

definition file_events :: "parser \<Rightarrow> string \<Rightarrow> json list" where
  "file_events P s = iter_ndjson_events P (split_on NL s)"

theorem iter_from_end_rev:
  assumes "0 < w" shows "iter_from_end P w s = rev (file_events P s)"
proof (cases "s = []")
  case True
  then show ?thesis
    by (simp add: iter_from_end_def file_events_def iter_ndjson_events_def List.map_filter_simps)
next
  case False
  have "nonempty_lines (walk_from_end w s (length s) []) = rev (nonempty_lines (split_on NL s))"
    using walk_from_end_lines [OF assms, of "length s" s "[]"] False by simp
  then have "List.map_filter (parse_ndjson_line P) (nonempty_lines (walk_from_end w s (length s) [])) =
      rev (List.map_filter (parse_ndjson_line P) (nonempty_lines (split_on NL s)))"
    by (simp only: map_filter_rev)
  then show ?thesis
    by (simp add: iter_from_end_def file_events_def iter_ndjson_events_def map_filter_nonempty)
qed

text \<open>
  The contract of a newest-first reader, for the readers built on it: the walk is the
  reversal of what a whole read yields, so early-stopping consumers answer as they would
  over the whole file.
\<close>

locale newest_first =
  fixes walk :: "'c \<Rightarrow> 'e list" and whole :: "'c \<Rightarrow> 'e list"
  assumes walk_rev: "walk c = rev (whole c)"
begin

lemma last_of_walk: "rev (take n (walk c)) = last_n n (whole c)"
  by (simp add: walk_rev rev_take_rev)

lemma find_walk: "find p (walk c) = find p (rev (whole c))"
  by (simp add: walk_rev)

lemma walk_of_append: "whole c' = whole c @ xs \<Longrightarrow> walk c' = rev xs @ walk c"
  by (simp add: walk_rev)

end

interpretation ndjson_tail: newest_first
  "iter_ndjson_events_from_end P" "\<lambda>file. case file of None \<Rightarrow> [] | Some s \<Rightarrow> file_events P s" for P
  by unfold_locales
    (simp add: iter_ndjson_events_from_end_def iter_from_end_rev tail_window_size_def split: option.splits)

subsection \<open>Counting lines\<close>

lemma count_chunks_eq:
  "0 < n \<Longrightarrow> count_chunks n rest tot lb =
     tot + count_list rest NL +
     (case (if rest = [] then lb else Some (last rest)) of
        Some b \<Rightarrow> if b \<noteq> NL then 1 else 0 | None \<Rightarrow> 0)"
proof (induction n rest tot lb rule: count_chunks.induct)
  case (1 n rest tot lb)
  show ?case
  proof (cases "rest = []")
    case True
    then show ?thesis by (simp add: count_chunks.simps [of n] split: option.splits)
  next
    case False
    then have ne: "take n rest \<noteq> []" using "1.prems" by simp
    have last: "last (take n rest) = last rest" if "drop n rest = []"
      using that by simp
    have "count_list (take n rest) NL + count_list (drop n rest) NL = count_list rest NL"
      by (metis append_take_drop_id count_list_append)
    then show ?thesis using "1.IH" [OF ne "1.prems"] ne False last
      by (simp add: count_chunks.simps [of n rest] last_drop)
  qed
qed

lemma length_split_on: "length (split_on c s) = count_list s c + 1"
  by (induction s) (auto split: list.splits)

lemma last_split_on: "last (split_on c s) = [] \<longleftrightarrow> s = [] \<or> last s = c"
proof (induction s)
  case (Cons x s)
  then show ?case using py_join_split_on [of c s]
    by (cases "split_on c s") (auto split: list.splits if_splits)
qed simp

lemma length_binary_lines:
  "length (binary_lines s) = count_list s NL + (if s = [] \<or> last s = NL then 0 else 1)"
  by (simp add: binary_lines_def Let_def last_split_on length_split_on)

lemma binary_lines_empty: "length (binary_lines s) = 0 \<Longrightarrow> s = []"
proof (rule ccontr)
  assume len: "length (binary_lines s) = 0" and "s \<noteq> []"
  then have "last s \<in> set s" by simp
  moreover have "count_list s NL = 0" and "last s = NL"
    using len \<open>s \<noteq> []\<close> by (auto simp: length_binary_lines split: if_splits)
  ultimately show False by (auto simp: count_list_0_iff)
qed

text \<open>
  Counting by chunks of any positive size is counting the lines that iterating the file
  yields, a last line without newline included: the ordinals built on the count are exact.
\<close>

theorem count_lines_correct: "count_lines (Suc n) s = length (binary_lines s)"
  unfolding count_lines_def count_chunks_eq [OF zero_less_Suc] length_binary_lines by simp

subsection \<open>The tail page reads what the whole file would give\<close>

lemma strip_blank: "strip_by ws_byte l = [] \<longleftrightarrow> list_all ws_byte l"
  by (simp add: strip_by_Nil_iff list_all_iff)

lemma nonblank_append: "nonblank_lines (xs @ ys) = nonblank_lines xs @ nonblank_lines ys"
  by (simp add: nonblank_lines_def)

lemma nonblank_drop_last_empty:
  "nonblank_lines (if ls \<noteq> [] \<and> last ls = [] then butlast ls else ls) = nonblank_lines ls"
proof (cases "ls \<noteq> [] \<and> last ls = []")
  case True
  then have "ls = butlast ls @ [[]]" by (metis append_butlast_last_id)
  then have "nonblank_lines ls = nonblank_lines (butlast ls) @ nonblank_lines [[]]"
    by (metis nonblank_append)
  then show ?thesis using True by (simp add: nonblank_lines_def strip_by_def)
next
  case False
  then show ?thesis by (simp only: if_False)
qed

lemma tail_lines_correct:
  assumes "0 < n"
  shows "tail_lines w s n = last_n n (nonblank_lines (split_on NL s))"
proof -
  obtain y rest where yr: "split_on NL (drop (length s - w) s) = y # rest"
    by (cases "split_on NL (drop (length s - w) s)") auto
  have "split_on NL s = split_on NL (take (length s - w) s @ y) @ rest"
    using split_on_append [OF yr, of "take (length s - w) s"] by simp
  then have "nonblank_lines (split_on NL s) =
      nonblank_lines (split_on NL (take (length s - w) s @ y)) @ nonblank_lines rest"
    by (simp add: nonblank_append)
  then show ?thesis
    unfolding tail_lines_def Let_def yr list.sel nonblank_drop_last_empty
    using assms by (simp add: py_last_pos last_n_append)
qed

definition tail_page_of :: "parser \<Rightarrow> string \<Rightarrow> nat \<Rightarrow> tail_page" where
  "tail_page_of P s limit =
     (let tot = length (binary_lines s) in
      (iter_ndjson_events P (last_n (min limit tot) (nonblank_lines (split_on NL s))), tot, tot > limit))"

text \<open>
  What a memo entry may hold, when \<open>content k st\<close> is the bytes of file \<open>k\<close> at signature \<open>st\<close>.
\<close>

definition count_truth :: "('k \<Rightarrow> stat_sig \<Rightarrow> string) \<Rightarrow> 'k \<Rightarrow> stat_sig \<Rightarrow> nat \<Rightarrow> bool" where
  "count_truth content k st v = (v = length (binary_lines (content k st)))"

definition page_truth ::
  "parser \<Rightarrow> ('k \<Rightarrow> stat_sig \<Rightarrow> string) \<Rightarrow> 'k \<times> nat \<Rightarrow> stat_sig \<Rightarrow> tail_page \<Rightarrow> bool" where
  "page_truth P content kl st v = (v = tail_page_of P (content (fst kl) st) (snd kl))"

abbreviation "memo_sound \<equiv> stat_memo.sound"

lemma count_ndjson_lines_sound:
  assumes "memo_sound (count_truth content) cm"
    and "count_ndjson_lines (Suc n) k (Some (st, content k st)) cm = (tot, cm')"
  shows "tot = length (binary_lines (content k st))" and "memo_sound (count_truth content) cm'"
proof -
  obtain r cm1 where r: "stat_fresh k st cm = (r, cm1)" by (cases "stat_fresh k st cm")
  have cm1: "memo_sound (count_truth content) cm1"
    using stat_memo.sound_look [OF assms(1), of k st] r by simp
  have served: "count_truth content k st v" if "r = Some v" for v
    using stat_memo.sound_served [OF assms(1), of k st v] r that by simp
  show "tot = length (binary_lines (content k st))"
    using assms(2) r served
    by (cases r) (auto simp: count_ndjson_lines_def count_lines_correct count_truth_def Let_def)
  show "memo_sound (count_truth content) cm'"
    using assms(2) r cm1
    by (cases r) (auto simp: count_ndjson_lines_def count_lines_correct count_truth_def Let_def
        intro!: stat_memo.sound_put)
qed

text \<open>
  The tail page: through any sound pair of memos (cold ones included), the reader
  answers the last \<open>limit\<close> non-blank lines of the file, parsed, with the exact line count
  and \<open>has_more\<close> flag, whether it took the 512 KiB window or the whole-file fallback; and
  it leaves both memos sound.
\<close>

theorem parse_ndjson_tail_correct:
  assumes cm: "memo_sound (count_truth content) cm" and tm: "memo_sound (page_truth P content) tm"
    and run: "parse_ndjson_tail P (Suc n) w k limit (Some (st, content k st)) (cm, tm) = (page, cm', tm')"
  shows "page = tail_page_of P (content k st) limit \<and>
    memo_sound (count_truth content) cm' \<and> memo_sound (page_truth P content) tm'"
proof -
  let ?s = "content k st"
  obtain r tm1 where r: "stat_fresh (k, limit) st tm = (r, tm1)" by (cases "stat_fresh (k, limit) st tm")
  have tm1: "memo_sound (page_truth P content) tm1"
    using stat_memo.sound_look [OF tm, of "(k, limit)" st] r by simp
  show ?thesis
  proof (cases r)
    case (Some v)
    then have "page_truth P content (k, limit) st v"
      using stat_memo.sound_served [OF tm, of "(k, limit)" st v] r by simp
    then show ?thesis using run r Some cm tm1
      by (simp add: parse_ndjson_tail_def page_truth_def)
  next
    case None
    obtain tot cm1 where c: "count_ndjson_lines (Suc n) k (Some (st, ?s)) cm = (tot, cm1)"
      by (cases "count_ndjson_lines (Suc n) k (Some (st, ?s)) cm")
    note tot = count_ndjson_lines_sound [OF cm c]
    have empty: "nonblank_lines (split_on NL ?s) = []" if "tot = 0"
    proof -
      have "?s = []" using that tot(1) by (intro binary_lines_empty) simp
      then show ?thesis by (simp add: nonblank_lines_def strip_by_def)
    qed
    let ?page = "(iter_ndjson_events P (last_n (min limit tot) (nonblank_lines (split_on NL ?s))), tot, tot > limit)"
    have page: "?page = tail_page_of P ?s limit" by (simp add: tail_page_of_def tot(1) Let_def)
    from page have put: "memo_sound (page_truth P content) (stat_record (k, limit) st ?page tm1)"
      using tm1 by (intro stat_memo.sound_put) (simp_all add: page_truth_def page)
    show ?thesis
    proof (cases "min limit tot = 0")
      case True
      then have "iter_ndjson_events P (last_n (min limit tot) (nonblank_lines (split_on NL ?s))) = []"
        by (simp add: last_n_def iter_ndjson_events_def List.map_filter_simps)
      then have "page = ?page" and "cm' = cm1" and "tm' = tm1"
        using True run r None c by (auto simp: parse_ndjson_tail_def Let_def split: if_splits)
      then show ?thesis using page tot(2) tm1 by simp
    next
      case False
      then have "page = ?page" and "cm' = cm1" and "tm' = stat_record (k, limit) st ?page tm1"
        using run r None c by (auto simp: parse_ndjson_tail_def Let_def tail_lines_correct split: if_splits)
      then show ?thesis using page tot(2) put by simp
    qed
  qed
qed

text \<open>Here a file of two lines is read twice, cold and then from the memo.\<close>

definition demo_parser :: parser where
  "demo_parser = \<lparr>loads_strict = (\<lambda>s. if s = ''1'' then Some (JInt 1) else if s = ''22'' then Some (JInt 22) else None),
                  loads_replace = (\<lambda>s. None)\<rparr>"

theorem parse_ndjson_tail_correct_witness:
  "\<exists>cm' tm'. parse_ndjson_tail demo_parser (Suc 9) 2 (0::nat) 1 (Some ((3, 5), ''1'' @ NL # ''22''))
       (memo_new 4, memo_new 4) = (([JInt 22], 2, True), cm', tm') \<and>
     memo_sound (count_truth (\<lambda>_ _. ''1'' @ NL # ''22'')) cm'"
proof -
  let ?c = "\<lambda>_ _. ''1'' @ NL # ''22''"
  obtain page cm' tm' where run: "parse_ndjson_tail demo_parser (Suc 9) 2 (0::nat) 1 (Some ((3, 5), ?c 0 (3, 5)))
      (memo_new 4, memo_new 4) = (page, cm', tm')"
    by (cases "parse_ndjson_tail demo_parser (Suc 9) 2 (0::nat) 1 (Some ((3, 5), ?c 0 (3, 5))) (memo_new 4, memo_new 4)")
  have cold: "memo_sound truth (memo_new 4)" for truth :: "'a \<Rightarrow> stat_sig \<Rightarrow> 'b \<Rightarrow> bool"
    using memo_ok_new [of 4] by (simp add: stat_memo.sound_def stat_holds_def memo_new_def)
  have "page = tail_page_of demo_parser (?c 0 (3, 5)) 1 \<and> memo_sound (count_truth ?c) cm' \<and>
      memo_sound (page_truth demo_parser ?c) tm'"
    by (rule parse_ndjson_tail_correct [OF cold cold run])
  moreover have "tail_page_of demo_parser (?c 0 (3, 5)) 1 = ([JInt 22], 2, True)"
    by (simp add: tail_page_of_def binary_lines_def nonblank_lines_def strip_by_def ws_byte_def last_n_def
        iter_ndjson_events_def List.map_filter_simps parse_ndjson_line_def demo_parser_def)
  ultimately show ?thesis using run by auto
qed

subsection \<open>The last events that parse\<close>

text \<open>What the code relies on in \<open>orjson\<close> and the UTF-8 decoder.\<close>

definition parser_ok :: "parser \<Rightarrow> bool" where
  "parser_ok P \<longleftrightarrow>
     (\<forall>b. utf8_valid b \<longrightarrow> loads_replace P b = loads_strict P b) \<and>
     (\<forall>b. utf8_isspace (map of_char b) \<longrightarrow> loads_strict P b = None)"

lemma utf8_lead_high: "utf8_lead b = Some ex \<Longrightarrow> (lo, hi) \<in> set ex \<Longrightarrow> 10 < lo"
  by (auto simp: utf8_lead_def Let_def split: if_splits)

lemma utf8_run_newline:
  "(\<And>lo hi. (lo, hi) \<in> set ex \<Longrightarrow> 10 < lo) \<Longrightarrow>
   utf8_run ex (xs @ 10 # ys) \<longleftrightarrow> utf8_run ex xs \<and> utf8_run [] ys"
proof (induction ex xs rule: utf8_run.induct)
  case (1 ex)
  show ?case
  proof (cases ex)
    case Nil
    have "utf8_lead 10 = Some []" by (simp add: utf8_lead_def)
    then show ?thesis using Nil by simp
  next
    case (Cons e rest)
    obtain lo hi where e: "e = (lo, hi)" by (cases e)
    have "(lo, hi) \<in> set ex" using Cons e by (simp only: list.set_intros)
    then have "10 < lo" by (rule "1.prems")
    then have "(lo \<le> 10) = False" by (simp only: not_le [symmetric])
    then show ?thesis
      by (simp only: Cons e append.simps utf8_run.simps simp_thms list.distinct)
  qed
next
  case (2 lo hi ex b bs)
  have "utf8_run ex (bs @ 10 # ys) \<longleftrightarrow> utf8_run ex bs \<and> utf8_run [] ys"
    using "2.prems" by (intro "2.IH") (meson list.set_intros(2))
  then show ?case by auto
next
  case (3 b bs)
  show ?case
  proof (cases "utf8_lead b")
    case (Some ex)
    then show ?thesis using "3.IH" [OF Some] utf8_lead_high [OF Some] by simp
  qed simp
qed

lemma utf8_valid_pieces: "utf8_valid s \<Longrightarrow> l \<in> set (split_on NL s) \<Longrightarrow> utf8_valid l"
proof (induction "length s" arbitrary: s rule: less_induct)
  case less
  show ?case
  proof (cases "NL \<in> set s")
    case False
    then show ?thesis using less.prems by (simp add: split_on_free)
  next
    case True
    then obtain xs ys where s: "s = xs @ NL # ys" by (meson split_list)
    have "utf8_valid xs" and "utf8_valid ys"
      using less.prems(1) utf8_run_newline [of "[]" "map of_char xs" "map of_char ys"]
      by (simp_all add: utf8_valid_def s)
    then show ?thesis using less.hyps [of xs] less.hyps [of ys] less.prems(2)
      by (auto simp: s split_on_sep)
  qed
qed

lemma utf8_isspace_bytes: "list_all ws_byte l \<Longrightarrow> utf8_isspace (map of_char l)"
  by (induction l) (auto simp: ws_byte_def Let_def)

lemma parse_line_str_eq:
  assumes "parser_ok P" and "utf8_valid l"
  shows "parse_ndjson_line_str P l = parse_ndjson_line P l"
  using assms utf8_isspace_bytes [of l]
  by (auto simp: parse_ndjson_line_str_def parse_ndjson_line_def parser_ok_def split: option.splits)

lemma universal_newlines_id: "CR \<notin> set s \<Longrightarrow> universal_newlines s = s"
  by (induction s) auto

lemma map_filter_app: "List.map_filter f (xs @ ys) = List.map_filter f xs @ List.map_filter f ys"
  by (simp add: List.map_filter_def)

lemma map_filter_binary_lines:
  "f [] = None \<Longrightarrow> List.map_filter f (binary_lines s) = List.map_filter f (split_on NL s)"
proof -
  assume f: "f [] = None"
  have "List.map_filter f (butlast ls) = List.map_filter f ls" if "ls \<noteq> []" "last ls = []" for ls
  proof -
    have "List.map_filter f (butlast ls @ [[]]) = List.map_filter f (butlast ls)"
      using f by (simp add: map_filter_app List.map_filter_simps)
    then show ?thesis using that by (metis append_butlast_last_id)
  qed
  then show ?thesis by (simp add: binary_lines_def Let_def)
qed

theorem parse_ndjson_file_events:
  assumes "parser_ok P" and "utf8_valid s" and "CR \<notin> set s"
  shows "parse_ndjson_file P (Some s) = Inr (file_events P s)"
proof -
  have "List.map_filter (parse_ndjson_line_str P) (split_on NL s) =
      List.map_filter (parse_ndjson_line P) (split_on NL s)"
    using assms utf8_valid_pieces [OF assms(2)]
    by (simp add: List.map_filter_def parse_line_str_eq cong: filter_cong map_cong)
  then show ?thesis
    using assms by (simp add: parse_ndjson_file_def text_lines_def universal_newlines_id
        iter_ndjson_events_str_def iter_ndjson_events_def file_events_def map_filter_binary_lines)
qed

text \<open>
  C33. \<open>parse_ndjson_tail_parseable(path, limit)\<close> is \<open>parse_ndjson_file(path)[-limit:]\<close>
  for every positive limit: the backward walk by 512 KiB windows, stopped by the limit,
  loses and repeats no line across window seams, whatever the line lengths. The docstring
  claims it for every file; it needs valid UTF-8 without carriage returns (see the finding).
\<close>

theorem tail_parseable_is_file_suffix:
  assumes "parser_ok P" and "utf8_valid s" and "CR \<notin> set s" and "0 < limit"
  shows "Inr (parse_ndjson_tail_parseable P (Some s) limit) =
    py_bind (parse_ndjson_file P (Some s)) (\<lambda>events. Inr (py_last (nat limit) events))"
  using assms ndjson_tail.last_of_walk [of "nat limit" P "Some s"]
  by (simp add: parse_ndjson_tail_parseable_def parse_ndjson_file_events py_last_pos)

definition demo_ok_parser :: parser where
  "demo_ok_parser =
     (let p = (\<lambda>s. if s = ''1'' then Some (JInt 1) else if s = ''2'' then Some (JInt 2) else None)
      in \<lparr>loads_strict = p, loads_replace = p\<rparr>)"

lemma demo_ok_parser_ok: "parser_ok demo_ok_parser"
  by (auto simp: parser_ok_def demo_ok_parser_def Let_def)

theorem tail_parseable_is_file_suffix_witness:
  "Inr (parse_ndjson_tail_parseable demo_ok_parser (Some (''1'' @ NL # ''x'' @ NL # ''2'')) 1) =
    py_bind (parse_ndjson_file demo_ok_parser (Some (''1'' @ NL # ''x'' @ NL # ''2'')))
      (\<lambda>events. Inr (py_last (nat 1) events))"
  by (rule tail_parseable_is_file_suffix [OF demo_ok_parser_ok])
    (simp_all add: utf8_valid_def utf8_lead_def Let_def)

text \<open>
  Where the two readers part: a file holding a torn multi-byte character makes the
  text-mode reader raise \<open>UnicodeDecodeError\<close> while the tail reader still returns events,
  so the documented equality fails there.
\<close>

theorem torn_utf8_splits_the_readers:
  "parse_ndjson_file P (Some (''1'' @ NL # CHR 0xE4 # [NL])) = Inl UnicodeDecodeError \<and>
   parse_ndjson_tail_parseable demo_ok_parser (Some (''1'' @ NL # CHR 0xE4 # [NL])) 5 = [JInt 1]"
proof
  show "parse_ndjson_file P (Some (''1'' @ NL # CHR 0xE4 # [NL])) = Inl UnicodeDecodeError"
    by (simp add: parse_ndjson_file_def text_lines_def utf8_valid_def utf8_lead_def Let_def)
  have "file_events demo_ok_parser (''1'' @ NL # CHR 0xE4 # [NL]) = [JInt 1]"
    by (simp add: file_events_def iter_ndjson_events_def List.map_filter_simps
        parse_ndjson_line_def demo_ok_parser_def ws_byte_def Let_def)
  then show "parse_ndjson_tail_parseable demo_ok_parser (Some (''1'' @ NL # CHR 0xE4 # [NL])) 5 = [JInt 1]"
    using ndjson_tail.last_of_walk [of "nat 5" demo_ok_parser "Some (''1'' @ NL # CHR 0xE4 # [NL])"]
    by (simp add: parse_ndjson_tail_parseable_def last_n_def)
qed

subsection \<open>Appending a line\<close>

lemma write_all_conserves: "fst (write_all sched fd view) @ snd (write_all sched fd view) = fd @ view"
  by (induction sched fd view rule: write_all.induct) auto

lemma write_all_prefix: "\<exists>n. fst (write_all sched fd view) = fd @ take n view"
proof -
  have "prefix fd (fst (write_all sched fd view))"
    by (induction sched fd view rule: write_all.induct) (auto intro: prefix_order.trans prefixI)
  then obtain zs where "fst (write_all sched fd view) = fd @ zs" by (auto elim: prefixE)
  moreover from this have "zs = take (length zs) view"
    using write_all_conserves [of sched fd view] by (metis append_assoc append_eq_conv_conj same_append_eq)
  ultimately show ?thesis by metis
qed

lemma write_all_done:
  "list_all (\<lambda>n. 0 < n) sched \<Longrightarrow> length view \<le> length sched \<Longrightarrow>
   write_all sched fd view = (fd @ view, [])"
  by (induction sched fd view rule: write_all.induct) auto

text \<open>A file whose lines are all ended: missing, empty, or with a newline last.\<close>

definition lines_ended :: "string option \<Rightarrow> bool" where
  "lines_ended file = (case file of None \<Rightarrow> True | Some s \<Rightarrow> s = [] \<or> last s = NL)"

lemma split_append_line:
  assumes "s = [] \<or> last s = NL" and "NL \<notin> set line"
  shows "split_on NL (s @ line @ [NL]) = butlast (split_on NL s) @ [line, []]"
    "split_on NL s = butlast (split_on NL s) @ [[]]"
proof -
  have "split_on NL (line @ [NL]) = [line, []]" using assms(2) split_on_sep [of NL line "[]"]
    by (simp add: split_on_free)
  then have "split_on NL (s @ line @ [NL]) = split_on NL (s @ line) @ [[]]"
    using split_on_append [of NL "line @ [NL]" line "[[]]" s] by simp
  moreover have "split_on NL (s @ line) = butlast (split_on NL s) @ [line]"
  proof (cases "s = []")
    case True
    then show ?thesis using assms(2) by (simp add: split_on_free)
  next
    case False
    then obtain t where "s = t @ [NL]" using assms(1) by (metis append_butlast_last_id)
    then show ?thesis using assms(2) split_on_sep [of NL t line] split_on_sep [of NL t "[]"]
      by (simp add: split_on_free)
  qed
  ultimately show "split_on NL (s @ line @ [NL]) = butlast (split_on NL s) @ [line, []]" by simp
  show "split_on NL s = butlast (split_on NL s) @ [[]]"
    using assms(1) by (metis append_butlast_last_id last_split_on split_on_ne)
qed

lemma file_events_append_line:
  assumes "s = [] \<or> last s = NL" and "NL \<notin> set line"
  shows "file_events P (s @ line @ [NL]) = file_events P s @ iter_ndjson_events P [line]"
proof -
  have "iter_ndjson_events P [line, []] = iter_ndjson_events P [line]"
    by (simp add: iter_ndjson_events_def List.map_filter_def)
  moreover have "file_events P s = iter_ndjson_events P (butlast (split_on NL s))"
    unfolding file_events_def by (subst split_append_line(2) [OF assms])
      (simp add: iter_ndjson_events_def map_filter_app List.map_filter_simps)
  ultimately show ?thesis
    unfolding file_events_def split_append_line(1) [OF assms] by (simp add: iter_ndjson_events_def map_filter_app)
qed

lemma binary_lines_append_line:
  assumes "s = [] \<or> last s = NL" and "NL \<notin> set line"
  shows "binary_lines (s @ line @ [NL]) = binary_lines s @ [line]"
proof -
  have "last (split_on NL s) = []" "binary_lines s = butlast (split_on NL s)"
    using split_append_line(2) [OF assms] by (metis last_snoc, metis binary_lines_def last_snoc)
  then show ?thesis unfolding binary_lines_def split_append_line(1) [OF assms] by (simp add: butlast_append)
qed

lemma universal_newlines_empty: "universal_newlines s = [] \<longleftrightarrow> s = []"
  by (cases s) (auto split: list.split)

lemma universal_newlines_append:
  "s = [] \<or> last s = NL \<Longrightarrow> CR \<notin> set t \<Longrightarrow>
     universal_newlines (s @ t) = universal_newlines s @ t \<and>
     (universal_newlines s = [] \<or> last (universal_newlines s) = NL)"
proof (induction s rule: universal_newlines.induct)
  case (2 c cs)
  consider (plain) "c \<noteq> CR" | (pair) ds where "c = CR" "cs = NL # ds" | (alone) d ds where "c = CR" "cs = d # ds" "d \<noteq> NL"
    using 2(4) by (cases cs) auto
  then show ?case
  proof cases
    case pair
    then show ?thesis using 2 by (cases "ds = []") (auto simp: universal_newlines_id)
  next
    case alone
    have step: "universal_newlines (CR # d # xs) = NL # universal_newlines (d # xs)" for xs using alone by simp
    have "d # ds = [] \<or> last (d # ds) = NL" using 2(4) alone by simp
    then have "universal_newlines (d # ds @ t) = universal_newlines (d # ds) @ t \<and>
        (universal_newlines (d # ds) = [] \<or> last (universal_newlines (d # ds)) = NL)"
      using 2(2) [OF alone] 2(4,5) alone(1,2) by (simp del: universal_newlines.simps)
    then show ?thesis unfolding alone append_Cons step by (auto simp del: universal_newlines.simps)
  next
    case plain
    then show ?thesis using 2 by (cases "cs = []") (auto simp: universal_newlines_id universal_newlines_empty)
  qed
qed (simp add: universal_newlines_id)

lemma utf8_valid_append_line:
  assumes "s = [] \<or> last s = NL" and "utf8_valid line"
  shows "utf8_valid (s @ line @ [NL]) = utf8_valid s"
proof -
  have l: "utf8_run [] (map of_char line @ [10])"
    using assms(2) utf8_run_newline [of "[]" "map of_char line" "[]"] by (simp add: utf8_valid_def)
  show ?thesis
  proof (cases "s = []")
    case True
    then show ?thesis using l by (simp add: utf8_valid_def)
  next
    case False
    then obtain t where "s = t @ [NL]" using assms(1) by (metis append_butlast_last_id)
    then show ?thesis
      using l utf8_run_newline [of "[]" "map of_char t" "map of_char line @ [10]"] utf8_run_newline [of "[]" "map of_char t" "[]"]
      by (simp add: utf8_valid_def)
  qed
qed

lemma parse_file_append_line:
  assumes "s = [] \<or> last s = NL" "NL \<notin> set line" "CR \<notin> set line" "utf8_valid line" "parse_ndjson_line_str P line = Some v"
  shows "parse_ndjson_file P (Some (s @ line @ [NL])) = py_bind (parse_ndjson_file P (Some s)) (\<lambda>events. Inr (events @ [v]))"
proof -
  have "CR \<notin> set (line @ [NL])" using assms(3) by simp
  note u = universal_newlines_append [OF assms(1) this]
  have "text_lines (s @ line @ [NL]) = py_bind (text_lines s) (\<lambda>ls. Inr (ls @ [line]))"
    using u binary_lines_append_line [of "universal_newlines s" line] assms(2) utf8_valid_append_line [OF assms(1,4)]
    by (auto simp: text_lines_def)
  then show ?thesis
    using assms(5) by (cases "text_lines s")
      (simp_all add: parse_ndjson_file_def iter_ndjson_events_str_def map_filter_app List.map_filter_simps)
qed

text \<open>
  C34. Append then read: on a log that is missing, empty, or ends in a newline, appending a record (in
  however many short writes the kernel makes of it) leaves no byte unwritten; \<open>parse_ndjson_file\<close>
  then answers what it answered before with the new event last, and raises if it raised before;
  the reader from the end answers the new event first. (A line left unended by a torn write
  swallows the next one.)
\<close>

theorem append_then_read:
  assumes "parser_ok P" and "loads_strict P (dumps v) = Some v" and "v \<noteq> JNull"
    and "NL \<notin> set (dumps v)" and "CR \<notin> set (dumps v)" and "utf8_valid (dumps v)"
    and "lines_ended f"
    and "list_all (\<lambda>n. 0 < n) sched" and "length (dumps v) < length sched"
  shows "\<exists>s'. append_ndjson dumps sched f v = (s', []) \<and>
    parse_ndjson_file P (Some s') = py_bind (parse_ndjson_file P f) (\<lambda>events. Inr (events @ [v])) \<and>
    iter_ndjson_events_from_end P (Some s') = v # iter_ndjson_events_from_end P f"
proof (intro exI conjI)
  let ?s = "case f of None \<Rightarrow> [] | Some s \<Rightarrow> s"
  let ?s' = "?s @ dumps v @ [NL]"
  have ended: "?s = [] \<or> last ?s = NL" using assms(7) by (simp add: lines_ended_def split: option.splits)
  show "append_ndjson dumps sched f v = (?s', [])"
    using assms(8,9) by (simp add: append_ndjson_def write_all_done)
  have sp: "\<not> utf8_isspace (map of_char (dumps v))" using assms(1,2) unfolding parser_ok_def by fastforce
  have v: "not_none v = Some v" using assms(3) by (cases v) simp_all
  have "parse_ndjson_line_str P (dumps v) = Some v" using sp v assms(2) by (simp add: parse_ndjson_line_str_def)
  note new = parse_file_append_line [OF ended assms(4-6) this]
  show "parse_ndjson_file P (Some ?s') = py_bind (parse_ndjson_file P f) (\<lambda>events. Inr (events @ [v]))"
  proof (cases "f = None")
    case True
    have "parse_ndjson_file P (Some []) = parse_ndjson_file P None"
      by (simp add: parse_ndjson_file_def text_lines_def utf8_valid_def binary_lines_def iter_ndjson_events_str_def
          List.map_filter_simps)
    then show ?thesis using new True by simp
  qed (use new in auto)
  have "dumps v \<noteq> [] \<and> \<not> list_all ws_byte (dumps v)" using sp utf8_isspace_bytes [of "dumps v"] by auto
  then have "iter_ndjson_events P [dumps v] = [v]"
    using v assms(2) by (simp add: iter_ndjson_events_def parse_ndjson_line_def List.map_filter_simps)
  then have "file_events P ?s' = file_events P ?s @ [v]" using file_events_append_line [OF ended assms(4)] by simp
  then show "iter_ndjson_events_from_end P (Some ?s') = v # iter_ndjson_events_from_end P f"
    using ndjson_tail.walk_of_append [of P "Some ?s'" f "[v]"]
    by (cases "f = None") (auto simp: file_events_def iter_ndjson_events_def List.map_filter_simps)
qed

theorem append_then_read_witness:
  "\<exists>s'. append_ndjson (\<lambda>_. ''2'') [1, 1, 1] (Some (''1'' @ [NL])) (JInt 2) = (s', []) \<and>
    parse_ndjson_file demo_ok_parser (Some s') =
      py_bind (parse_ndjson_file demo_ok_parser (Some (''1'' @ [NL]))) (\<lambda>events. Inr (events @ [JInt 2])) \<and>
    iter_ndjson_events_from_end demo_ok_parser (Some s') =
      JInt 2 # iter_ndjson_events_from_end demo_ok_parser (Some (''1'' @ [NL]))"
  by (rule append_then_read [OF demo_ok_parser_ok])
    (simp_all add: demo_ok_parser_def utf8_valid_def utf8_lead_def lines_ended_def Let_def)

end
