(* ===== verification/Event_Types.thy ===== *)
theory Event_Types
  imports Prelude
begin

text \<open>
  The wire names of \<open>src/core/event_types.py\<close> that the modelled code reads or writes, and
  the text of content blocks (\<open>extract_text_from_message\<close> and its kin of
  \<open>src/core/message_aggregator.py\<close>).
\<close>

abbreviation ET_ASSISTANT :: string where "ET_ASSISTANT \<equiv> ''assistant''"
abbreviation ET_USER :: string where "ET_USER \<equiv> ''user''"
abbreviation ET_ERROR :: string where "ET_ERROR \<equiv> ''error''"
abbreviation ET_RESULT :: string where "ET_RESULT \<equiv> ''result''"
abbreviation ET_SYSTEM :: string where "ET_SYSTEM \<equiv> ''system''"
abbreviation ET_TOOL_USE :: string where "ET_TOOL_USE \<equiv> ''tool_use''"
abbreviation ET_TOOL_RESULT :: string where "ET_TOOL_RESULT \<equiv> ''tool_result''"
abbreviation ET_MASTER_DONE :: string where "ET_MASTER_DONE \<equiv> ''master_done''"
abbreviation ET_ASSISTANT_ERROR :: string where "ET_ASSISTANT_ERROR \<equiv> ''assistant_error''"
abbreviation ET_STILL_THINKING :: string where "ET_STILL_THINKING \<equiv> ''still_thinking''"
abbreviation ET_THINKING_SECONDS :: string where "ET_THINKING_SECONDS \<equiv> ''thinking_seconds''"
abbreviation ET_TASK_DELEGATED :: string where "ET_TASK_DELEGATED \<equiv> ''task_delegated''"
abbreviation ET_WORKER_SUMMARY :: string where "ET_WORKER_SUMMARY \<equiv> ''worker_summary''"
abbreviation ET_SCHEDULED_TRIGGER :: string where "ET_SCHEDULED_TRIGGER \<equiv> ''scheduled_trigger''"
abbreviation ET_AGENT_MESSAGE :: string where "ET_AGENT_MESSAGE \<equiv> ''agent_message''"
abbreviation ET_SLACK_REPLY :: string where "ET_SLACK_REPLY \<equiv> ''slack_reply''"
abbreviation ET_CLONE_START :: string where "ET_CLONE_START \<equiv> ''clone_start''"
abbreviation ET_THINKING :: string where "ET_THINKING \<equiv> ''thinking''"

subsection \<open>Text of content blocks\<close>

text \<open>\<open>"".join(parts)\<close> raises on a part that is not a string.\<close>

fun as_str :: "json \<Rightarrow> string py" where
  "as_str (JStr s) = Inr s"
| "as_str _ = Inl TypeError"

definition str_join_parts :: "string \<Rightarrow> json list \<Rightarrow> string py" where
  "str_join_parts sep vs = py_bind (py_map as_str vs) (\<lambda>ss. Inr (py_join sep ss))"

definition block_field :: "string \<Rightarrow> string \<Rightarrow> json \<Rightarrow> json option" where
  "block_field typ field b =
     (case b of
        JObj d \<Rightarrow> if dget d ''type'' = JStr typ then Some (dget_or d field (JStr [])) else None
      | _ \<Rightarrow> None)"

definition join_blocks :: "json \<Rightarrow> string \<Rightarrow> string py" where
  "join_blocks msg block_type =
     py_bind (if jtruthy msg then jget msg ''content'' else Inr JNull)
       (\<lambda>blocks. case blocks of
          JArr bs \<Rightarrow> str_join_parts [] (List.map_filter (block_field block_type block_type) bs)
        | _ \<Rightarrow> Inr [])"

definition extract_text_from_message :: "json \<Rightarrow> string py" where
  "extract_text_from_message msg = join_blocks msg ''text''"

definition extract_thinking_from_message :: "json \<Rightarrow> string py" where
  "extract_thinking_from_message msg = join_blocks msg ''thinking''"

lemma py_join_empty_sep: "py_join [] xs = concat xs"
  by (induction "[] :: 'a list" xs rule: py_join.induct) auto

end
