(* ===== verification/Verify_Trailer.thy ===== *)
theory Verify_Trailer
  imports Event_Types Ndjson
begin

text \<open>
  \<open>src/core/verify_trailer.py\<close>: reading a verifier's final report with one early-stopping
  walk from the end of its event log, and judging the \<open>RESULT:\<close> trailer line.
\<close>

subsection \<open>The final report\<close>

text \<open>
  \<open>_resolve_final_report\<close>: the events arrive newest first; \<open>assistant_text\<close> and
  \<open>seen_result\<close> are the loop's variables. An event that is not an object raises.
\<close>

definition assistant_event_text :: "json \<Rightarrow> string py" where
  "assistant_event_text e =
     py_bind (jget e ''message'')
       (\<lambda>m. extract_text_from_message (case m of JObj d \<Rightarrow> JObj d | _ \<Rightarrow> JNull))"

fun usable_result :: "json \<Rightarrow> string option" where
  "usable_result (JStr s) = (if str_strip s \<noteq> [] then Some s else None)"
| "usable_result _ = None"

fun resolve_final_report :: "json list \<Rightarrow> string option \<Rightarrow> bool \<Rightarrow> string py" where
  "resolve_final_report [] assistant_text seen_result =
     Inr (case assistant_text of Some t \<Rightarrow> t | None \<Rightarrow> [])"
| "resolve_final_report (e # es) assistant_text seen_result =
     py_bind (jget e ''type'') (\<lambda>event_type.
     py_bind (if assistant_text = None \<and> event_type = JStr ET_ASSISTANT
              then py_bind (assistant_event_text e)
                     (\<lambda>txt. Inr (if str_strip txt \<noteq> [] then Some txt else None))
              else Inr assistant_text) (\<lambda>assistant_text.
     if \<not> seen_result \<and> event_type = JStr ET_RESULT then
       py_bind (jget e ''result'') (\<lambda>r.
         case usable_result r of
           Some s \<Rightarrow> Inr s
         | None \<Rightarrow> resolve_final_report es assistant_text True)
     else if seen_result \<and> assistant_text \<noteq> None then Inr (the assistant_text)
     else resolve_final_report es assistant_text seen_result))"

definition read_verify_final_report :: "parser \<Rightarrow> string option \<Rightarrow> string py" where
  "read_verify_final_report P file =
     resolve_final_report (iter_ndjson_events_from_end P file) None False"

text \<open>
  The reference: over the whole log in file order, the last \<open>result\<close> event's payload when
  it is text that is not blank, else the last assistant event's text that is not blank,
  else the empty report.
\<close>

definition is_type :: "string \<Rightarrow> json \<Rightarrow> bool" where
  "is_type t e = (jget e ''type'' = Inr (JStr t))"

definition event_text :: "json \<Rightarrow> string" where
  "event_text e = (case assistant_event_text e of Inr t \<Rightarrow> t | Inl _ \<Rightarrow> [])"

definition has_text :: "json \<Rightarrow> bool" where
  "has_text e = (is_type ET_ASSISTANT e \<and> str_strip (event_text e) \<noteq> [])"

definition last_text :: "json list \<Rightarrow> string" where
  "last_text evs = (case find has_text (rev evs) of Some e \<Rightarrow> event_text e | None \<Rightarrow> [])"

definition result_payload :: "json \<Rightarrow> string option" where
  "result_payload e = (case jget e ''result'' of Inr r \<Rightarrow> usable_result r | Inl _ \<Rightarrow> None)"

definition final_report_of :: "json list \<Rightarrow> string" where
  "final_report_of evs =
     (case find (is_type ET_RESULT) (rev evs) of
        Some e \<Rightarrow> (case result_payload e of Some s \<Rightarrow> s | None \<Rightarrow> last_text evs)
      | None \<Rightarrow> last_text evs)"

text \<open>Events that are objects and whose assistant text extracts without raising.\<close>

definition report_event_ok :: "json \<Rightarrow> bool" where
  "report_event_ok e =
     ((\<exists>d. e = JObj d) \<and> (is_type ET_ASSISTANT e \<longrightarrow> (\<exists>t. assistant_event_text e = Inr t)))"

lemma report_event_cases:
  assumes "report_event_ok e"
  obtains (result) "is_type ET_RESULT e" "jget e ''type'' = Inr (JStr ET_RESULT)" "\<not> has_text e"
      "\<exists>r. jget e ''result'' = Inr r \<and> usable_result r = result_payload e"
  | (assistant) "is_type ET_ASSISTANT e" "jget e ''type'' = Inr (JStr ET_ASSISTANT)"
      "\<not> is_type ET_RESULT e" "assistant_event_text e = Inr (event_text e)"
      "has_text e = (str_strip (event_text e) \<noteq> [])"
  | (other) t where "jget e ''type'' = Inr t" "t \<noteq> JStr ET_RESULT" "t \<noteq> JStr ET_ASSISTANT"
      "\<not> is_type ET_RESULT e" "\<not> has_text e"
proof -
  obtain d where d: "e = JObj d" using assms by (auto simp: report_event_ok_def)
  then have t: "jget e ''type'' = Inr (dget d ''type'')" by simp
  consider "dget d ''type'' = JStr ET_RESULT" | "dget d ''type'' = JStr ET_ASSISTANT"
    | "dget d ''type'' \<noteq> JStr ET_RESULT" "dget d ''type'' \<noteq> JStr ET_ASSISTANT" by blast
  then show ?thesis
  proof cases
    case 1
    then show ?thesis using d t by (intro result) (auto simp: is_type_def has_text_def result_payload_def)
  next
    case 2
    then have a: "is_type ET_ASSISTANT e" using t by (simp add: is_type_def)
    then obtain x where "assistant_event_text e = Inr x" using assms by (auto simp: report_event_ok_def)
    then show ?thesis using a t 2 by (intro assistant) (auto simp: is_type_def has_text_def event_text_def)
  next
    case 3
    then show ?thesis using t by (intro other) (auto simp: is_type_def has_text_def)
  qed
qed

text \<open>What is left to decide from a loop state, over the events not yet visited (newest first).\<close>

definition walk_answer :: "json list \<Rightarrow> string option \<Rightarrow> bool \<Rightarrow> string" where
  "walk_answer es at seen =
     (let txt = (case at of Some t \<Rightarrow> t
                 | None \<Rightarrow> (case find has_text es of Some e \<Rightarrow> event_text e | None \<Rightarrow> []))
      in if seen then txt
         else (case find (is_type ET_RESULT) es of
                 Some e \<Rightarrow> (case result_payload e of Some s \<Rightarrow> s | None \<Rightarrow> txt)
               | None \<Rightarrow> txt))"

lemma resolve_final_report_answer:
  "list_all report_event_ok es \<Longrightarrow> \<not> (seen \<and> at \<noteq> None) \<Longrightarrow>
   resolve_final_report es at seen = Inr (walk_answer es at seen)"
proof (induction es arbitrary: at seen)
  case Nil
  then show ?case by (simp add: walk_answer_def Let_def split: option.splits)
next
  case (Cons e es)
  from Cons.prems have ok: "report_event_ok e" "list_all report_event_ok es" by simp_all
  show ?case using ok(1)
  proof (cases rule: report_event_cases)
    case result
    then obtain r where r: "jget e ''result'' = Inr r" "usable_result r = result_payload e" by blast
    show ?thesis
    proof (cases "seen \<or> result_payload e \<noteq> None")
      case True
      then show ?thesis using Cons result r ok
        by (auto simp: walk_answer_def Let_def split: option.splits)
    next
      case False
      have "walk_answer es at True = walk_answer (e # es) at False"
        using result False by (simp add: walk_answer_def Let_def split: option.splits)
      moreover have "resolve_final_report (e # es) at False = resolve_final_report es at True"
        using result r False by simp
      moreover have "resolve_final_report es at True = Inr (walk_answer es at True)"
      proof (cases at)
        case None
        then show ?thesis using Cons.IH [OF ok(2), of True at] by simp
      next
        case (Some x)
        then show ?thesis using ok(2)
          by (cases es) (auto simp: walk_answer_def elim: report_event_cases)
      qed
      ultimately show ?thesis using False by simp
    qed
  next
    case assistant
    then show ?thesis using Cons ok
      by (auto simp: walk_answer_def Let_def split: option.splits)
  next
    case (other t)
    then show ?thesis using Cons ok
      by (auto simp: walk_answer_def Let_def split: option.splits)
  qed
qed

text \<open>
  The early-stopping walk decides what the whole log decides: on a log whose events are
  objects with well-formed assistant blocks, \<open>read_verify_final_report\<close> is the last
  result's payload, or else the last assistant text, of the complete file.
\<close>

theorem verify_report_is_last_word:
  assumes "list_all report_event_ok (file_events P s)"
  shows "read_verify_final_report P (Some s) = Inr (final_report_of (file_events P s))"
proof -
  have "list_all report_event_ok (rev (file_events P s))" using assms by simp
  then have "resolve_final_report (rev (file_events P s)) None False =
      Inr (walk_answer (rev (file_events P s)) None False)"
    by (rule resolve_final_report_answer) simp
  then show ?thesis
    using ndjson_tail.walk_rev [of P "Some s"]
    unfolding read_verify_final_report_def walk_answer_def final_report_of_def last_text_def
    by (simp add: Let_def)
qed

definition demo_log_parser :: parser where
  "demo_log_parser =
     (let p = (\<lambda>s. if s = ''a'' then Some (JObj [(''type'', JStr ''assistant''), (''message'',
                     JObj [(''content'', JArr [JObj [(''type'', JStr ''text''), (''text'', JStr ''done'')]])])])
                  else if s = ''r'' then Some (JObj [(''type'', JStr ''result''), (''result'', JStr '' '')])
                  else None)
      in \<lparr>loads_strict = p, loads_replace = p\<rparr>)"

lemma demo_log_events:
  "file_events demo_log_parser (''a'' @ NL # ''r'') =
     [JObj [(''type'', JStr ''assistant''), (''message'',
        JObj [(''content'', JArr [JObj [(''type'', JStr ''text''), (''text'', JStr ''done'')]])])],
      JObj [(''type'', JStr ''result''), (''result'', JStr '' '')]]"
  by (simp add: file_events_def iter_ndjson_events_def List.map_filter_simps parse_ndjson_line_def
      demo_log_parser_def ws_byte_def Let_def)

lemmas report_eval = assistant_event_text_def extract_text_from_message_def join_blocks_def
  block_field_def str_join_parts_def List.map_filter_simps dget_or_def is_type_def

theorem verify_report_is_last_word_witness:
  "read_verify_final_report demo_log_parser (Some (''a'' @ NL # ''r'')) = Inr ''done''"
proof -
  have ok: "list_all report_event_ok (file_events demo_log_parser (''a'' @ NL # ''r''))"
    unfolding demo_log_events by (simp add: report_event_ok_def report_eval)
  have "final_report_of (file_events demo_log_parser (''a'' @ NL # ''r'')) = ''done''"
    unfolding demo_log_events
    by (simp add: final_report_of_def last_text_def result_payload_def has_text_def
        event_text_def report_eval str_strip_def strip_by_def ws_char_def is_cont_def)
  then show ?thesis using verify_report_is_last_word [OF ok] by simp
qed

subsection \<open>Normalising a line\<close>

definition strip_markers :: "string \<Rightarrow> string" where
  "strip_markers s = strip_by (\<lambda>c. c = CHR 0x60 \<or> c = CHR ''*'') s"

lemma length_str_strip: "length (str_strip s) \<le> length s"
proof -
  obtain a b where "utf8_chars s = a @ strip_by ws_char (utf8_chars s) @ b"
    using strip_by_factor by blast
  then have "s = concat a @ str_strip s @ concat b"
    unfolding str_strip_def by (metis concat_append concat_utf8_chars)
  then show ?thesis by (metis le_add1 le_add2 le_trans length_append)
qed

lemma str_strip_factor: "\<exists>a b. s = concat a @ str_strip s @ concat b \<and> list_all ws_char a \<and> list_all ws_char b"
  using strip_by_factor [of "utf8_chars s" ws_char] unfolding str_strip_def
  by (metis concat_append concat_utf8_chars)

text \<open>The \<open>while True\<close> loop of \<open>_normalize_line\<close>; it stops because a round that changes the
  line shortens it.\<close>

function normalize_loop :: "string \<Rightarrow> string" where
  "normalize_loop normalized =
     (let stripped = str_strip (strip_markers normalized)
      in if stripped = normalized then normalized else normalize_loop stripped)"
  by pat_completeness auto
termination
proof (relation "measure length")
  fix normalized stripped :: string
  assume s: "stripped = str_strip (strip_markers normalized)" and ne: "stripped \<noteq> normalized"
  have "length stripped \<le> length (strip_markers normalized)" using s length_str_strip by simp
  moreover have "length (strip_markers normalized) \<le> length normalized"
    by (simp add: strip_markers_def length_strip_by)
  moreover have "length stripped \<noteq> length normalized"
  proof
    assume eq: "length stripped = length normalized"
    then have "strip_markers normalized = normalized"
      using calculation strip_by_same_length unfolding strip_markers_def by (metis le_antisym)
    then obtain a b where ab: "normalized = concat a @ stripped @ concat b"
      using str_strip_factor [of normalized] s by metis
    then have "length normalized = length (concat a) + length stripped + length (concat b)"
      by (metis add.assoc length_append)
    then have "concat a = []" "concat b = []" using eq by simp_all
    then show False using ab ne by (metis append_Nil append.right_neutral)
  qed
  ultimately show "(stripped, normalized) \<in> measure length" by simp
qed simp

declare normalize_loop.simps [simp del]

definition normalize_line :: "string \<Rightarrow> string" where
  "normalize_line line = normalize_loop (str_strip line)"

text \<open>The result is a fixed point of both strips.\<close>

lemma normalize_loop_fixed:
  "str_strip (strip_markers (normalize_loop s)) = normalize_loop s"
proof (induction s rule: normalize_loop.induct)
  case (1 s)
  then show ?case by (simp add: normalize_loop.simps [of s] Let_def)
qed

lemma strip_by_fixed_ends:
  assumes "strip_by p xs = xs" and "xs \<noteq> []" shows "\<not> p (hd xs) \<and> \<not> p (last xs)"
proof -
  let ?d = "dropWhile p xs"
  have "length xs \<le> length ?d"
    using assms(1) unfolding strip_by_def by (metis length_dropWhile_le length_rev)
  then have d: "?d = xs" by (metis append_Nil append_eq_append_conv le_antisym length_dropWhile_le takeWhile_dropWhile_id)
  then have "dropWhile p (rev xs) = rev xs" using assms(1) unfolding strip_by_def by (metis rev_swap)
  then show ?thesis using d assms(2)
    by (metis hd_dropWhile hd_rev rev_is_Nil_conv)
qed

lemma strip_by_core:
  assumes "t \<noteq> []" and "\<not> p (hd t)" and "\<not> p (last t)"
  shows "\<exists>a' b'. strip_by p (a @ t @ b) = a' @ t @ b' \<and> set a' \<subseteq> set a \<and> set b' \<subseteq> set b"
proof -
  have 1: "dropWhile p (a @ t @ b) = dropWhile p a @ t @ b" for a b
  proof (cases "dropWhile p a = []")
    case True
    then show ?thesis using assms(1,2) by (cases t) (auto simp: dropWhile_append)
  next
    case False
    then show ?thesis by (auto simp: dropWhile_append dropWhile_eq_Nil_conv)
  qed
  have "rev t \<noteq> []" "\<not> p (hd (rev t))" using assms by (simp_all add: hd_rev)
  then have 2: "dropWhile p (rev b @ rev t @ c) = dropWhile p (rev b) @ rev t @ c" for c
    by (cases "rev t"; cases "dropWhile p (rev b) = []") (auto simp: dropWhile_append dropWhile_eq_Nil_conv)
  have "strip_by p (a @ t @ b) = dropWhile p a @ t @ rev (dropWhile p (rev b))"
    unfolding strip_by_def 1 by (simp add: 2)
  moreover have "set (dropWhile p a) \<subseteq> set a" "set (rev (dropWhile p (rev b))) \<subseteq> set b"
    by (auto dest: set_dropWhileD)
  ultimately show ?thesis by blast
qed

text \<open>Text without multi-byte characters is cut into single bytes.\<close>

lemma utf8_chars_ascii: "list_all (\<lambda>c. \<not> is_cont c) s \<Longrightarrow> utf8_chars s = map (\<lambda>c. [c]) s"
proof (induction s)
  case (Cons c s)
  then have "takeWhile is_cont s = []" "dropWhile is_cont s = s" by (cases s; simp)+
  then show ?case using Cons by simp
qed simp

lemma strip_by_map: "strip_by p (map f xs) = map f (strip_by (\<lambda>x. p (f x)) xs)"
  by (simp add: strip_by_def dropWhile_map rev_map comp_def)

lemma str_strip_ascii:
  "list_all (\<lambda>c. \<not> is_cont c) s \<Longrightarrow> str_strip s = strip_by (\<lambda>c. ws_char [c]) s"
  by (simp add: str_strip_def utf8_chars_ascii strip_by_map)

definition wrapper :: "char \<Rightarrow> bool" where
  "wrapper c = (c = CHR 0x60 \<or> c = CHR ''*'' \<or> ws_char [c])"

definition wrapped :: "string \<Rightarrow> string \<Rightarrow> bool" where
  "wrapped t s = (\<exists>a b. s = a @ t @ b \<and> list_all wrapper a \<and> list_all wrapper b \<and>
     list_all (\<lambda>c. \<not> is_cont c) s)"

lemma wrapped_str_strip: "wrapped t s \<Longrightarrow> str_strip s = strip_by (\<lambda>c. ws_char [c]) s"
  unfolding wrapped_def using str_strip_ascii by blast

lemma wrapped_strip:
  assumes "wrapped t s" and "t \<noteq> []" and "\<not> p (hd t)" "\<not> p (last t)"
  shows "wrapped t (strip_by p s)"
proof -
  obtain a b where s: "s = a @ t @ b" "list_all wrapper a" "list_all wrapper b"
    "list_all (\<lambda>c. \<not> is_cont c) s" using assms(1) by (auto simp: wrapped_def)
  obtain a' b' where "strip_by p s = a' @ t @ b'" "set a' \<subseteq> set a" "set b' \<subseteq> set b"
    using strip_by_core [of t p a b] assms(2-) s(1) by auto
  then show ?thesis using s unfolding wrapped_def list_all_iff by fastforce
qed

lemma wrapped_round:
  assumes "wrapped t s" and "t \<noteq> []" and "\<not> wrapper (hd t)" "\<not> wrapper (last t)"
  shows "wrapped t (strip_markers s)" and "wrapped t (str_strip s)"
proof -
  show "wrapped t (strip_markers s)" using assms
    unfolding strip_markers_def by (intro wrapped_strip) (auto simp: wrapper_def)
  have "wrapped t (strip_by (\<lambda>c. ws_char [c]) s)" using assms
    by (intro wrapped_strip) (auto simp: wrapper_def)
  then show "wrapped t (str_strip s)" using assms(1) by (simp add: wrapped_str_strip)
qed

lemma normalize_loop_wrapped:
  "wrapped t s \<Longrightarrow> t \<noteq> [] \<Longrightarrow> \<not> wrapper (hd t) \<Longrightarrow> \<not> wrapper (last t) \<Longrightarrow>
   wrapped t (normalize_loop s)"
proof (induction s rule: normalize_loop.induct)
  case (1 s)
  then show ?case by (auto simp: normalize_loop.simps [of s] Let_def wrapped_round)
qed

lemma wrapped_fixed:
  assumes r: "wrapped t r" "str_strip (strip_markers r) = r"
    and t: "t \<noteq> []" "\<not> wrapper (hd t)" "\<not> wrapper (last t)"
  shows "r = t"
proof -
  have len: "length (strip_markers r) \<le> length r" by (simp add: strip_markers_def length_strip_by)
  then have m: "strip_markers r = r"
    using r(2) length_str_strip [of "strip_markers r"] strip_by_same_length
    unfolding strip_markers_def by (metis le_antisym)
  then have w: "strip_by (\<lambda>c. ws_char [c]) r = r"
    using r wrapped_str_strip [OF r(1)] by simp
  obtain a b where ab: "r = a @ t @ b" "list_all wrapper a" "list_all wrapper b"
    using r(1) by (auto simp: wrapped_def)
  then have ne: "r \<noteq> []" using t by simp
  have "\<not> wrapper (hd r)" "\<not> wrapper (last r)"
    using strip_by_fixed_ends [OF m [unfolded strip_markers_def] ne] strip_by_fixed_ends [OF w ne]
    by (auto simp: wrapper_def)
  then have "a = []" "b = []" using ab t
    by (cases a; cases b rule: rev_cases; auto)+
  then show ?thesis using ab by simp
qed

text \<open>
  Markdown around a trailer does not hide it: a line made of any mix of blanks,
  backticks and asterisks around a text whose ends are none of these normalises to exactly
  that text, however deep the nesting.
\<close>

theorem normalize_unwraps:
  assumes "wrapped t line" and "t \<noteq> []" and "\<not> wrapper (hd t)" and "\<not> wrapper (last t)"
  shows "normalize_line line = t"
  unfolding normalize_line_def
  by (rule wrapped_fixed [OF normalize_loop_wrapped normalize_loop_fixed])
    (use assms wrapped_round(2) in auto)

theorem normalize_unwraps_witness:
  "normalize_line (''**'' @ [CHR 0x60] @ '' RESULT: clean'' @ [CHR 0x60] @ ''** '') = ''RESULT: clean''"
proof (rule normalize_unwraps)
  show "wrapped ''RESULT: clean'' (''**'' @ [CHR 0x60] @ '' RESULT: clean'' @ [CHR 0x60] @ ''** '')"
    unfolding wrapped_def
    by (rule exI [of _ "''**'' @ [CHR 0x60] @ '' ''"], rule exI [of _ "[CHR 0x60] @ ''** ''"])
      (simp add: wrapper_def ws_char_def is_cont_def)
qed (simp_all add: wrapper_def ws_char_def)

subsection \<open>The trailer line\<close>

definition ascii_digit :: "char \<Rightarrow> bool" where
  "ascii_digit c = (let n = (of_char c :: nat) in 48 \<le> n \<and> n \<le> 57)"

definition after :: "string \<Rightarrow> string \<Rightarrow> string option" where
  "after p s = (if prefix p s then Some (drop (length p) s) else None)"

lemma after_Some: "after p s = Some r \<longleftrightarrow> s = p @ r"
  by (auto simp: after_def prefix_def)

text \<open>
  \<open>VERIFY_RESULT_TRAILER_RE.fullmatch\<close>, the pattern
  \<open>RESULT: (?:clean|[1-9][0-9]* mismatch(?:es)? \([0-9]+ approval\))\<close> as a scanner.
\<close>

definition trailer_match :: "string \<Rightarrow> bool" where
  "trailer_match s =
     (s = ''RESULT: clean'' \<or>
      (case after ''RESULT: '' s of
         None \<Rightarrow> False
       | Some r \<Rightarrow>
           (case r of [] \<Rightarrow> False | c # _ \<Rightarrow> ascii_digit c \<and> c \<noteq> CHR ''0'') \<and>
           (case after '' mismatch'' (dropWhile ascii_digit r) of
              None \<Rightarrow> False
            | Some r2 \<Rightarrow>
                (case after '' ('' (case after ''es'' r2 of Some x \<Rightarrow> x | None \<Rightarrow> r2) of
                   None \<Rightarrow> False
                 | Some r4 \<Rightarrow>
                     (case r4 of [] \<Rightarrow> False | c # _ \<Rightarrow> ascii_digit c) \<and>
                     dropWhile ascii_digit r4 = '' approval)''))))"

text \<open>The language of the pattern.\<close>

definition trailer_lang :: "string \<Rightarrow> bool" where
  "trailer_lang s \<longleftrightarrow>
     s = ''RESULT: clean'' \<or>
     (\<exists>d ds es m. s = ''RESULT: '' @ (d # ds) @ '' mismatch'' @ es @ '' ('' @ m @ '' approval)'' \<and>
        ascii_digit d \<and> d \<noteq> CHR ''0'' \<and> list_all ascii_digit ds \<and> (es = [] \<or> es = ''es'') \<and>
        m \<noteq> [] \<and> list_all ascii_digit m)"

lemma dropWhile_digits:
  "list_all p ds \<Longrightarrow> r \<noteq> [] \<Longrightarrow> \<not> p (hd r) \<Longrightarrow> dropWhile p (ds @ r) = r"
  by (cases r) (auto simp: dropWhile_append list_all_iff dropWhile_eq_Nil_conv)

lemma span_digits: "\<exists>ds. r = ds @ dropWhile p r \<and> list_all p ds"
  by (metis list_all_iff set_takeWhileD takeWhile_dropWhile_id)

lemma not_digit_space [simp]: "\<not> ascii_digit (CHR '' '')"
  by (simp add: ascii_digit_def)

lemma trailer_match_lang: "trailer_match s \<longleftrightarrow> trailer_lang s"
proof
  assume m: "trailer_match s"
  show "trailer_lang s"
  proof (cases "s = ''RESULT: clean''")
    case False
    with m obtain r r2 r4 where
        s: "s = ''RESULT: '' @ r" and
        r: "(case r of [] \<Rightarrow> False | c # _ \<Rightarrow> ascii_digit c \<and> c \<noteq> CHR ''0'')" and
        r2: "dropWhile ascii_digit r = '' mismatch'' @ r2" and
        r4: "(case after ''es'' r2 of Some x \<Rightarrow> x | None \<Rightarrow> r2) = '' ('' @ r4" and
        d4: "(case r4 of [] \<Rightarrow> False | c # _ \<Rightarrow> ascii_digit c)" and
        e: "dropWhile ascii_digit r4 = '' approval)''"
      unfolding trailer_match_def by (auto simp: after_Some split: option.splits)
    obtain d ds0 where r0: "r = d # ds0" "ascii_digit d" "d \<noteq> CHR ''0''" using r by (cases r) auto
    obtain ds where ds: "ds0 = ds @ '' mismatch'' @ r2" "list_all ascii_digit ds"
      using span_digits [of ds0 ascii_digit] r2 r0 by auto
    obtain m4 where m4: "r4 = m4 @ '' approval)''" "list_all ascii_digit m4"
      using span_digits [of r4 ascii_digit] e by auto
    have m4ne: "m4 \<noteq> []" using d4 m4 by (cases m4) auto
    obtain es where es: "r2 = es @ '' ('' @ r4" "es = [] \<or> es = ''es''"
      using r4 by (cases "after ''es'' r2") (auto simp: after_Some)
    show ?thesis unfolding trailer_lang_def
      using s r0 ds m4 m4ne es by auto
  qed (simp add: trailer_lang_def)
next
  assume "trailer_lang s"
  then consider "s = ''RESULT: clean''"
    | d ds es m where "s = ''RESULT: '' @ (d # ds) @ '' mismatch'' @ es @ '' ('' @ m @ '' approval)''"
      "ascii_digit d" "d \<noteq> CHR ''0''" "list_all ascii_digit ds" "es = [] \<or> es = ''es''"
      "m \<noteq> []" "list_all ascii_digit m"
    unfolding trailer_lang_def by blast
  then show "trailer_match s"
  proof cases
    case 2
    let ?r2 = "es @ '' ('' @ m @ '' approval)''"
    have a1: "after ''RESULT: '' s = Some ((d # ds) @ '' mismatch'' @ ?r2)"
      using 2(1) by (simp add: after_Some)
    have dw: "dropWhile ascii_digit ((d # ds) @ '' mismatch'' @ ?r2) = '' mismatch'' @ ?r2"
      using 2(2,4) by (intro dropWhile_digits) simp_all
    have a2: "after '' mismatch'' ('' mismatch'' @ ?r2) = Some ?r2" by (simp only: after_Some)
    have a3: "(case after ''es'' ?r2 of Some x \<Rightarrow> x | None \<Rightarrow> ?r2) = '' ('' @ m @ '' approval)''"
      using 2(5) by (auto simp: after_def)
    have a4: "after '' ('' ('' ('' @ m @ '' approval)'') = Some (m @ '' approval)'')"
      by (simp only: after_Some)
    have dm: "dropWhile ascii_digit (m @ '' approval)'') = '' approval)''"
      using 2(7) by (intro dropWhile_digits) simp_all
    have "case m @ '' approval)'' of [] \<Rightarrow> False | c # _ \<Rightarrow> ascii_digit c"
      using 2(6,7) by (cases m) auto
    then show ?thesis unfolding trailer_match_def a1 option.case dw a2 a3 a4 dm
      using 2(2,3) by simp
  qed (simp add: trailer_match_def)
qed

definition trailer_expected :: string where
  "trailer_expected =
     [CHR 0x60] @ ''RESULT: (?:clean|[1-9][0-9]* mismatch(?:es)? '' @ [CHR 0x5C] @ ''([0-9]+ approval'' @
     [CHR 0x5C] @ ''))'' @ [CHR 0x60]"

definition verify_result_trailer_error :: "string \<Rightarrow> string" where
  "verify_result_trailer_error report =
     (if str_strip report = [] then
        ''Verifier final report is empty; expected a final '' @ trailer_expected @ '' line.''
      else (case find (\<lambda>raw_line. trailer_match (normalize_line raw_line)) (rev (str_splitlines report)) of
              Some _ \<Rightarrow> []
            | None \<Rightarrow> ''Verifier final report has a missing or malformed '' @ [CHR 0x60] @ ''RESULT:'' @
                [CHR 0x60] @ '' trailer; expected a final '' @ trailer_expected @ '' line.''))"

text \<open>
  C35. The verdict: a report is accepted (no error) exactly when it is not blank and some
  line of it, stripped of its markdown, is in the trailer's language: \<open>RESULT: clean\<close>, or
  a positive mismatch count without leading zero and an approval count.
\<close>

theorem verdict_iff_trailer_line:
  "verify_result_trailer_error report = [] \<longleftrightarrow>
     str_strip report \<noteq> [] \<and> (\<exists>l. l \<in> set (str_splitlines report) \<and> trailer_lang (normalize_line l))"
  by (auto simp: verify_result_trailer_error_def find_None_iff_set trailer_match_lang
      split: option.splits dest!: find_Some_in)

end
