(* ===== verification/Takeoff_Gate.thy ===== *)
theory Takeoff_Gate
  imports Prelude Memo Event_Types
begin

text \<open>
  \<open>src/core/takeoff_gate.py\<close>: the authorisation gate before a worker is spawned. The two
  standard-library functions whose tables are not written out here, \<open>str.casefold\<close> and
  \<open>datetime.fromisoformat\<close>, are the fields of \<open>gate_env\<close>; every statement holds for all of
  them. Times are microseconds since the epoch (\<open>stamp\<close>, in the prelude).
\<close>

record gate_env =
  casefold :: "string \<Rightarrow> string"
  fromisoformat :: "string \<Rightarrow> stamp option"   \<comment> \<open>None: ValueError\<close>

definition takeoff_phrase :: string where "takeoff_phrase = ''take off''"
definition pre_takeoff_phrase :: string where "pre_takeoff_phrase = ''pre take off''"
definition pre_takeoff_window :: int where "pre_takeoff_window = 12 * 60 * 60 * 1000000"

definition is_real_user_message :: "dict \<Rightarrow> bool" where
  "is_real_user_message e =
     (dget e ''type'' = JStr ET_USER \<and> (case dget e ''content'' of JStr _ \<Rightarrow> True | _ \<Rightarrow> False))"

definition normalize_takeoff_content :: "gate_env \<Rightarrow> string \<Rightarrow> string" where
  "normalize_takeoff_content env content = py_join '' '' (str_split (casefold env content))"

definition parse_pre_takeoff_timestamp :: "gate_env \<Rightarrow> dict \<Rightarrow> int option py" where
  "parse_pre_takeoff_timestamp env e =
     (case dget e ''timestamp'' of
        JStr ts \<Rightarrow>
          (if ts = [] then Inr None
           else case fromisoformat env ts of
                  None \<Rightarrow> Inr None
                | Some (Naive _) \<Rightarrow> Inr None
                | Some (Aware t) \<Rightarrow> py_bind (to_utc t) (\<lambda>u. Inr (Some u)))
      | _ \<Rightarrow> Inr None)"

text \<open>\<open>event.get("content")\<close> of a real user message, normalised.\<close>

definition normalized_of :: "gate_env \<Rightarrow> dict \<Rightarrow> string" where
  "normalized_of env e =
     (case dget e ''content'' of JStr c \<Rightarrow> normalize_takeoff_content env c | _ \<Rightarrow> [])"

text \<open>
  The backward walk; the state is (latest_user_has_takeoff, latest_pre_takeoff_at,
  seen_latest_user), the list is already reversed.
\<close>

fun gate_walk ::
  "gate_env \<Rightarrow> dict list \<Rightarrow> bool \<times> int option \<times> bool \<Rightarrow> (bool \<times> int option \<times> bool) py"
where
  "gate_walk env [] st = Inr st"
| "gate_walk env (e # es) (has, pre, seen) =
     (if \<not> is_real_user_message e then gate_walk env es (has, pre, seen)
      else
        let n = normalized_of env e;
            has' = (if seen then has else contains takeoff_phrase n)
        in if pre = None \<and> contains pre_takeoff_phrase n
           then py_bind (parse_pre_takeoff_timestamp env e)
                  (\<lambda>issued_at. gate_walk env es (has', issued_at, True))
           else gate_walk env es (has', pre, True))"

definition backward_user_answers :: "gate_env \<Rightarrow> dict list \<Rightarrow> (bool \<times> int option \<times> bool) py" where
  "backward_user_answers env events = gate_walk env (rev events) (False, None, False)"

text \<open>
  The answers memo: session id to (identity of the event list, covered length, the two
  answers). \<open>settled_scan\<close> is \<open>_settled_user_answers\<close> up to its store: the answers, the memo
  after the lookup and the entry to be stored; the store is a step of its own because an
  append may land before it.
\<close>

type_synonym gate_answers = "bool \<times> int option"
type_synonym gate_entry = "nat \<times> nat \<times> gate_answers"
type_synonym gate_memo = "(string, gate_entry) bounded_memo"

definition fold_gate_suffix :: "gate_env \<Rightarrow> gate_answers \<Rightarrow> dict list \<Rightarrow> gate_answers py" where
  "fold_gate_suffix env a tail =
     (if tail = [] then Inr a
      else py_bind (backward_user_answers env tail) (\<lambda>(has, pre, seen).
             Inr (if seen then has else fst a, if pre \<noteq> None then pre else snd a)))"

definition settled_scan ::
  "gate_env \<Rightarrow> nat \<Rightarrow> dict list \<Rightarrow> string \<Rightarrow> gate_memo \<Rightarrow> (gate_answers \<times> gate_entry option) py \<times> gate_memo"
where
  "settled_scan env obj events sid m =
     (let (cached, m') = memo_get sid m in
      (case cached of
         Some (o', covered, a) \<Rightarrow>
           if o' = obj
           then let tail = drop covered events in
                py_bind (fold_gate_suffix env a tail) (\<lambda>b.
                  Inr (b, if tail = [] then None else Some (obj, covered + length tail, b)))
           else py_bind (backward_user_answers env events) (\<lambda>(has, pre, _).
                  Inr ((has, pre), Some (obj, length events, (has, pre))))
       | None \<Rightarrow> py_bind (backward_user_answers env events) (\<lambda>(has, pre, _).
                  Inr ((has, pre), Some (obj, length events, (has, pre)))),
       m'))"

definition settled_store :: "string \<Rightarrow> gate_entry option \<Rightarrow> gate_memo \<Rightarrow> gate_memo" where
  "settled_store sid entry m = (case entry of None \<Rightarrow> m | Some e \<Rightarrow> memo_store sid e m)"

datatype gate_error = DelegationBlocked | GateRaised py_error

text \<open>The decision \<open>check_takeoff_gate\<close> takes on the two answers.\<close>

definition gate_decision :: "int \<Rightarrow> gate_answers \<Rightarrow> (gate_error + unit)" where
  "gate_decision now a =
     (let (has_takeoff, pre) = a in
      case pre of
        None \<Rightarrow> if has_takeoff then Inr () else Inl DelegationBlocked
      | Some t \<Rightarrow>
          if t \<le> now then
            (if t + pre_takeoff_window > datetime_max then Inl (GateRaised OverflowError)
             else if has_takeoff \<or> now < t + pre_takeoff_window then Inr ()
             else Inl DelegationBlocked)
          else if has_takeoff then Inr () else Inl DelegationBlocked)"

definition as_gate :: "'a py \<Rightarrow> gate_error + 'a" where
  "as_gate r = (case r of Inl e \<Rightarrow> Inl (GateRaised e) | Inr a \<Rightarrow> Inr a)"

definition effective_now :: "int \<Rightarrow> stamp option \<Rightarrow> int py" where
  "effective_now clock now =
     (case now of
        None \<Rightarrow> to_utc clock
      | Some (Naive _) \<Rightarrow> Inl (ValueError ''authorization check time must be timezone-aware'')
      | Some (Aware t) \<Rightarrow> to_utc t)"

definition check_takeoff_gate ::
  "gate_env \<Rightarrow> int \<Rightarrow> nat \<Rightarrow> dict list \<Rightarrow> string \<Rightarrow> stamp option \<Rightarrow> gate_memo \<Rightarrow> (gate_error + unit) \<times> gate_memo"
where
  "check_takeoff_gate env clock obj events sid now m =
     (case effective_now clock now of
        Inl e \<Rightarrow> (Inl (GateRaised e), m)
      | Inr t \<Rightarrow>
          (case settled_scan env obj events sid m of
             (Inl e, m') \<Rightarrow> (Inl (GateRaised e), m')
           | (Inr (a, entry), m') \<Rightarrow> (gate_decision t a, settled_store sid entry m')))"

subsection \<open>Answers that extend over an appended suffix\<close>

text \<open>
  The contract of an incremental fold: extending the answer of a prefix by a suffix is the
  answer of the whole. An entry (object, covered, answer) \<open>covers\<close> the heap when its answer
  is that of the covered prefix of the object; then it serves the whole list, and it stays
  good while lists only grow in place.
\<close>

locale suffix_fold =
  fixes whole :: "'e list \<Rightarrow> 'x + 'a"
    and extend :: "'a \<Rightarrow> 'e list \<Rightarrow> 'x + 'a"
  assumes extend_whole: "whole xs = Inr a \<Longrightarrow> extend a ys = whole (xs @ ys)"
begin

definition covers :: "('o \<Rightarrow> 'e list) \<Rightarrow> 'o \<times> nat \<times> 'a \<Rightarrow> bool" where
  "covers heap entry =
     (case entry of (x, n, a) \<Rightarrow> n \<le> length (heap x) \<and> whole (take n (heap x)) = Inr a)"

lemma covers_served: "covers heap (x, n, a) \<Longrightarrow> extend a (drop n (heap x)) = whole (heap x)"
  using extend_whole [of "take n (heap x)" a "drop n (heap x)"] by (simp add: covers_def)

lemma covers_full: "whole (heap x) = Inr a \<Longrightarrow> covers heap (x, length (heap x), a)"
  by (simp add: covers_def)

lemma covers_grown:
  assumes "covers heap e" and "\<And>x. prefix (heap x) (heap' x)" shows "covers heap' e"
proof -
  obtain x n a where e: "e = (x, n, a)" by (cases e) auto
  obtain zs where "heap' x = heap x @ zs" using assms(2) [of x] by (auto simp: prefix_def)
  then show ?thesis using assms(1) by (simp add: covers_def e)
qed

end

text \<open>The full walk's two answers.\<close>

definition gate_answers_of :: "gate_env \<Rightarrow> dict list \<Rightarrow> gate_answers py" where
  "gate_answers_of env events =
     py_bind (backward_user_answers env events) (\<lambda>(has, pre, _). Inr (has, pre))"

text \<open>
  What the walk computes, one answer at a time: the stamp of the first pre-takeoff message
  whose timestamp parses, and the phrase test of the first real user message.
\<close>

fun first_stamp :: "gate_env \<Rightarrow> dict list \<Rightarrow> int option py" where
  "first_stamp env [] = Inr None"
| "first_stamp env (e # es) =
     (if is_real_user_message e \<and> contains pre_takeoff_phrase (normalized_of env e)
      then py_bind (parse_pre_takeoff_timestamp env e)
             (\<lambda>i. if i = None then first_stamp env es else Inr i)
      else first_stamp env es)"

definition says_takeoff :: "gate_env \<Rightarrow> dict option \<Rightarrow> bool" where
  "says_takeoff env e =
     (case e of None \<Rightarrow> False | Some e \<Rightarrow> contains takeoff_phrase (normalized_of env e))"

lemma gate_walk_answers:
  "gate_walk env es (has, pre, seen) =
     py_bind (if pre = None then first_stamp env es else Inr pre) (\<lambda>p.
       Inr (if seen \<or> find is_real_user_message es = None then has
            else says_takeoff env (find is_real_user_message es),
            p, seen \<or> find is_real_user_message es \<noteq> None))"
proof (induction es arbitrary: has pre seen)
  case (Cons e es)
  show ?case
    by (cases "parse_pre_takeoff_timestamp env e")
       (auto simp: Let_def Cons.IH says_takeoff_def py_bind_def split: sum.splits)
qed (simp add: py_bind_def)

lemma backward_answers:
  "backward_user_answers env events =
     py_bind (first_stamp env (rev events)) (\<lambda>p.
       Inr (says_takeoff env (find is_real_user_message (rev events)), p,
            find is_real_user_message (rev events) \<noteq> None))"
  by (auto simp: backward_user_answers_def gate_walk_answers says_takeoff_def py_bind_def
      split: sum.splits)

lemma gate_answers_of_eq:
  "gate_answers_of env events =
     py_bind (first_stamp env (rev events)) (\<lambda>p.
       Inr (says_takeoff env (find is_real_user_message (rev events)), p))"
  by (simp add: gate_answers_of_def backward_answers py_bind_def split: sum.splits)

lemma first_stamp_append:
  "first_stamp env (xs @ ys) =
     py_bind (first_stamp env xs) (\<lambda>i. if i = None then first_stamp env ys else Inr i)"
  by (induction xs) (auto simp: py_bind_def split: sum.splits)

lemma fold_gate_suffix_whole:
  assumes "gate_answers_of env xs = Inr a"
  shows "fold_gate_suffix env a ys = gate_answers_of env (xs @ ys)"
  using assms
  by (auto simp: fold_gate_suffix_def gate_answers_of_eq backward_answers first_stamp_append
      find_append says_takeoff_def py_bind_def split: sum.splits option.splits if_splits)

interpretation gate_fold: suffix_fold "gate_answers_of env" "fold_gate_suffix env" for env
  by unfold_locales (rule fold_gate_suffix_whole)

subsection \<open>The gate among the writers of the chat history\<close>

text \<open>
  Event lists are objects: an append grows the session's list in place, a wholesale
  replacement gives the session a new object. A call of the gate scans and later stores; in
  between anything may happen.
\<close>

record gate_world =
  gw_heap :: "nat \<Rightarrow> dict list"
  gw_chat :: "string \<Rightarrow> nat"
  gw_fresh :: nat
  gw_memo :: gate_memo
  gw_pending :: "(string \<times> gate_entry) list"

definition gate_start :: "nat \<Rightarrow> (string \<Rightarrow> nat) \<Rightarrow> nat \<Rightarrow> gate_world" where
  "gate_start limit chat fresh =
     \<lparr>gw_heap = (\<lambda>_. []), gw_chat = chat, gw_fresh = fresh, gw_memo = memo_new limit, gw_pending = []\<rparr>"

inductive gate_step :: "gate_env \<Rightarrow> gate_world \<Rightarrow> gate_world \<Rightarrow> bool" for env where
  append_event:
    "gw_chat w sid < gw_fresh w \<Longrightarrow>
     gate_step env w (w\<lparr>gw_heap := (gw_heap w)(gw_chat w sid := gw_heap w (gw_chat w sid) @ [e])\<rparr>)"
| replace_list:
    "gate_step env w (w\<lparr>gw_heap := (gw_heap w)(gw_fresh w := events),
       gw_chat := (gw_chat w)(sid := gw_fresh w), gw_fresh := Suc (gw_fresh w)\<rparr>)"
| scan:
    "settled_scan env (gw_chat w sid) (gw_heap w (gw_chat w sid)) sid (gw_memo w) = (r, m') \<Longrightarrow>
     gate_step env w (w\<lparr>gw_memo := m', gw_pending :=
       (case r of Inr (_, Some entry) \<Rightarrow> (sid, entry) # gw_pending w | _ \<Rightarrow> gw_pending w)\<rparr>)"
| store:
    "gw_pending w = ps @ (sid, entry) # qs \<Longrightarrow>
     gate_step env w (w\<lparr>gw_memo := settled_store sid (Some entry) (gw_memo w), gw_pending := ps @ qs\<rparr>)"

inductive gate_reachable :: "gate_env \<Rightarrow> nat \<Rightarrow> gate_world \<Rightarrow> bool" for env limit where
  init: "(\<And>sid. chat sid < fresh) \<Longrightarrow> gate_reachable env limit (gate_start limit chat fresh)"
| step: "gate_reachable env limit w \<Longrightarrow> gate_step env w w' \<Longrightarrow> gate_reachable env limit w'"

definition gate_inv :: "gate_env \<Rightarrow> gate_world \<Rightarrow> bool" where
  "gate_inv env w =
     (memo_ok (gw_memo w) \<and> (\<forall>x \<ge> gw_fresh w. gw_heap w x = []) \<and>
      (\<forall>sid entry. map_of (memo_entries (gw_memo w)) sid = Some entry \<longrightarrow> gate_fold.covers env (gw_heap w) entry) \<and>
      (\<forall>(sid, entry) \<in> set (gw_pending w). gate_fold.covers env (gw_heap w) entry))"

text \<open>A scan answers what the full walk answers, and its entry covers the heap.\<close>

lemma settled_scan_correct:
  assumes "memo_ok m"
    and inv: "\<And>sid entry. map_of (memo_entries m) sid = Some entry \<Longrightarrow> gate_fold.covers env heap entry"
    and scan: "settled_scan env obj (heap obj) sid m = (r, m')"
  shows "m' = snd (memo_get sid m)"
    and "py_bind r (\<lambda>(a, _). Inr a) = gate_answers_of env (heap obj)"
    and "r = Inr (a, Some entry) \<Longrightarrow> gate_fold.covers env heap entry"
proof -
  have get: "fst (memo_get sid m) = map_of (memo_entries m) sid" by (rule memo_get_value)
  show "m' = snd (memo_get sid m)" using scan by (auto simp: settled_scan_def split_beta)
  have full: "backward_user_answers env (heap obj) = Inr (has, pre, seen) \<Longrightarrow>
      gate_answers_of env (heap obj) = Inr (has, pre)" for has pre seen
    by (simp add: gate_answers_of_def)
  have hit: "fold_gate_suffix env a (drop n (heap obj)) = gate_answers_of env (heap obj)"
    "n \<le> length (heap obj)"
    if "map_of (memo_entries m) sid = Some (obj, n, a)" for n a
    using inv [OF that] gate_fold.covers_served [OF inv [OF that]]
    by (auto simp: gate_fold.covers_def)
  show "py_bind r (\<lambda>(a, _). Inr a) = gate_answers_of env (heap obj)"
    using scan hit
    by (auto simp: settled_scan_def split_beta get Let_def gate_answers_of_def py_bind_def
        split: option.splits if_splits sum.splits prod.splits)
  show "gate_fold.covers env heap entry" if "r = Inr (a, Some entry)"
    using scan that hit full
    by (auto simp: settled_scan_def split_beta get Let_def py_bind_def
        split: option.splits if_splits sum.splits prod.splits intro!: gate_fold.covers_full)
qed


lemma gate_inv_start: "gate_inv env (gate_start limit chat fresh)"
  by (simp add: gate_inv_def gate_start_def step_intros) (simp add: memo_new_def)

lemma gate_inv_grown:
  assumes "gate_inv env w" and grown: "\<And>x. prefix (gw_heap w x) (gw_heap w' x)"
    and "gw_memo w' = gw_memo w" and "gw_pending w' = gw_pending w"
    and "\<And>x. gw_fresh w' \<le> x \<Longrightarrow> gw_heap w' x = []"
  shows "gate_inv env w'"
proof -
  have "gate_fold.covers env (gw_heap w) e \<Longrightarrow> gate_fold.covers env (gw_heap w') e" for e
    by (rule gate_fold.covers_grown [OF _ grown])
  then show ?thesis using assms(1,3-5) unfolding gate_inv_def by fastforce
qed

lemma gate_inv_step:
  assumes "gate_step env w w'" and inv: "gate_inv env w"
  shows "gate_inv env w'"
  using assms(1)
proof cases
  case (append_event sid e)
  then show ?thesis using inv by (intro gate_inv_grown [OF inv]) (auto simp: gate_inv_def)
next
  case (replace_list events sid)
  then show ?thesis using inv by (intro gate_inv_grown [OF inv]) (auto simp: gate_inv_def)
next
  case (scan sid r m')
  have held: "\<And>sid entry. map_of (memo_entries (gw_memo w)) sid = Some entry \<Longrightarrow>
      gate_fold.covers env (gw_heap w) entry"
    and ok: "memo_ok (gw_memo w)" using inv unfolding gate_inv_def by blast+
  note s = settled_scan_correct [where heap = "gw_heap w", OF ok _ scan(2)]
  have "m' = snd (memo_get sid (gw_memo w))"
    and "\<And>a entry. r = Inr (a, Some entry) \<Longrightarrow> gate_fold.covers env (gw_heap w) entry"
    by (rule s(1), erule held) (rule s(3), erule held)
  then show ?thesis using inv scan(1)
    by (auto simp: gate_inv_def memo_get_lookup step_intros split: sum.splits option.splits)
next
  case (store ps sid entry qs)
  then have "gate_fold.covers env (gw_heap w) entry" using inv by (auto simp: gate_inv_def)
  then show ?thesis using inv store
    by (auto simp: gate_inv_def settled_store_def step_intros dest!: memo_store_sub [rotated])
qed

lemma gate_inv_reachable: "gate_reachable env limit w \<Longrightarrow> gate_inv env w"
  by (induction rule: gate_reachable.induct) (auto intro: gate_inv_start gate_inv_step)

text \<open>The decision with the memo is the decision on a full walk.\<close>

lemma check_takeoff_gate_full:
  assumes "gate_inv env w" and "events = gw_heap w (gw_chat w sid)"
  shows "fst (check_takeoff_gate env clock (gw_chat w sid) events sid now (gw_memo w)) =
    (case effective_now clock now of
       Inl e \<Rightarrow> Inl (GateRaised e)
     | Inr t \<Rightarrow> py_bind (as_gate (gate_answers_of env events)) (gate_decision t))"
proof -
  obtain r m' where sc: "settled_scan env (gw_chat w sid) events sid (gw_memo w) = (r, m')"
    by (cases "settled_scan env (gw_chat w sid) events sid (gw_memo w)") auto
  have "py_bind r (\<lambda>(a, _). Inr a) = gate_answers_of env events"
    using settled_scan_correct(2) [where heap = "gw_heap w", OF _ _ sc [unfolded assms(2)]] assms by (auto simp: gate_inv_def)
  then show ?thesis using sc
    by (cases r) (auto simp: check_takeoff_gate_def as_gate_def split: sum.splits)
qed

text \<open>Every pre-takeoff phrase is a takeoff phrase.\<close>

lemma pre_takeoff_is_takeoff: "contains pre_takeoff_phrase s \<Longrightarrow> contains takeoff_phrase s"
proof -
  assume "contains pre_takeoff_phrase s"
  then obtain a b where "s = a @ pre_takeoff_phrase @ b" by (auto simp: contains_iff)
  then have "s = (a @ ''pre '') @ takeoff_phrase @ b"
    by (simp add: pre_takeoff_phrase_def takeoff_phrase_def)
  then show ?thesis unfolding contains_iff by blast
qed

lemma first_stamp_needs_phrase:
  "(\<And>e. e \<in> set es \<Longrightarrow> is_real_user_message e \<Longrightarrow> \<not> contains takeoff_phrase (normalized_of env e)) \<Longrightarrow>
   first_stamp env es = Inr None"
  by (induction es) (auto dest: pre_takeoff_is_takeoff)

lemma says_takeoff_needs_phrase:
  "says_takeoff env (find is_real_user_message es) \<Longrightarrow>
   \<exists>e \<in> set es. is_real_user_message e \<and> contains takeoff_phrase (normalized_of env e)"
  by (auto simp: says_takeoff_def split: option.splits dest!: find_Some_in)

text \<open>
  C2. The gate's verdict is a function of the chat history alone: however the history was
  appended to or replaced, and whatever the memo evicted, stored late or served, a
  delegation is let through exactly when the latest real user message says "take off" or
  the latest pre-takeoff message with a valid zoned timestamp is at most twelve hours old
  (and not in the future). The one other outcome is the arithmetic of a stamp in the last
  twelve hours of the year 9999, which raises.
\<close>

theorem gate_verdict:
  assumes "gate_reachable env limit w" and "events = gw_heap w (gw_chat w sid)"
    and "first_stamp env (rev events) = Inr issued_at" and "effective_now clock now = Inr t"
  shows "fst (check_takeoff_gate env clock (gw_chat w sid) events sid now (gw_memo w)) = Inr () \<longleftrightarrow>
    (says_takeoff env (find is_real_user_message (rev events)) \<or>
     (\<exists>s. issued_at = Some s \<and> s \<le> t \<and> t < s + pre_takeoff_window)) \<and>
    \<not> (\<exists>s. issued_at = Some s \<and> s \<le> t \<and> datetime_max < s + pre_takeoff_window)"
  unfolding check_takeoff_gate_full [OF gate_inv_reachable [OF assms(1)] assms(2)]
  using assms(3,4)
  by (auto simp: gate_answers_of_eq as_gate_def gate_decision_def split: option.splits)

text \<open>
  The gate fails closed: while no real user message of the history says "take off",
  nothing is delegated. Tool results, triggers, assistant text and malformed timestamps
  cannot authorise.
\<close>

theorem gate_fails_closed:
  assumes "gate_reachable env limit w" and "events = gw_heap w (gw_chat w sid)"
    and "\<And>e. e \<in> set events \<Longrightarrow> is_real_user_message e \<Longrightarrow>
           \<not> contains takeoff_phrase (normalized_of env e)"
  shows "fst (check_takeoff_gate env clock (gw_chat w sid) events sid now (gw_memo w)) \<noteq> Inr ()"
proof -
  have "first_stamp env (rev events) = Inr None"
    using assms(3) by (intro first_stamp_needs_phrase) auto
  moreover have "\<not> says_takeoff env (find is_real_user_message (rev events))"
    using says_takeoff_needs_phrase [of env "rev events"] assms(3) by auto
  ultimately show ?thesis
    unfolding check_takeoff_gate_full [OF gate_inv_reachable [OF assms(1)] assms(2)]
    by (simp add: gate_answers_of_eq as_gate_def gate_decision_def split: sum.splits)
qed

subsection \<open>A concrete history\<close>

definition demo_gate_env :: gate_env where
  "demo_gate_env =
     \<lparr>casefold = map (\<lambda>c. if c = CHR ''P'' then CHR ''p'' else c),
      fromisoformat = (\<lambda>ts. if ts = ''T0'' then Some (Aware 0) else None)\<rparr>"

definition demo_user :: "string \<Rightarrow> dict" where
  "demo_user c = [(''type'', JStr ET_USER), (''content'', JStr c), (''timestamp'', JStr ''T0'')]"

text \<open>A pre-takeoff message, a scan whose store is still pending, and a later message.\<close>

definition demo_gate_world :: "gate_world" where
  "demo_gate_world =
     \<lparr>gw_heap = (\<lambda>_. [])(0 := [demo_user ''Pre  take off'', demo_user ''status'']),
      gw_chat = (\<lambda>_. 0), gw_fresh = 1,
      gw_memo = \<lparr>memo_limit = 64, memo_entries = [(''s'', (0, 1, (True, Some 0)))]\<rparr>, gw_pending = []\<rparr>"

lemma demo_gate_reachable: "gate_reachable demo_gate_env 64 demo_gate_world"
proof -
  let ?w0 = "gate_start 64 (\<lambda>_. 0) 1"
  let ?w1 = "?w0\<lparr>gw_heap := (gw_heap ?w0)(gw_chat ?w0 ''s'' :=
                gw_heap ?w0 (gw_chat ?w0 ''s'') @ [demo_user ''Pre  take off''])\<rparr>"
  let ?entry = "(0, 1, (True, Some 0)) :: gate_entry"
  let ?w2 = "?w1\<lparr>gw_pending := [(''s'', ?entry)]\<rparr>"
  let ?w3 = "?w2\<lparr>gw_heap := (gw_heap ?w2)(gw_chat ?w2 ''s'' :=
                gw_heap ?w2 (gw_chat ?w2 ''s'') @ [demo_user ''status''])\<rparr>"
  let ?w4 = "?w3\<lparr>gw_memo := settled_store ''s'' (Some ?entry) (gw_memo ?w3), gw_pending := []\<rparr>"
  have "gate_reachable demo_gate_env 64 ?w0" by (rule gate_reachable.init) simp
  moreover have "gate_step demo_gate_env ?w0 ?w1"
    by (rule append_event) (simp add: gate_start_def)
  moreover have "settled_scan demo_gate_env 0 [demo_user ''Pre  take off''] ''s'' (memo_new 64) =
      (Inr ((True, Some 0), Some ?entry), memo_new 64)"
    by code_simp
  then have "gate_step demo_gate_env ?w1 ?w2"
    using scan [of demo_gate_env ?w1 "''s''"] by (simp add: gate_start_def)
  moreover have "gate_step demo_gate_env ?w2 ?w3"
    by (rule append_event) (simp add: gate_start_def)
  moreover have "gate_step demo_gate_env ?w3 ?w4"
    using store [of ?w3 "[]" "''s''" ?entry "[]" demo_gate_env] by (simp add: gate_start_def)
  ultimately have "gate_reachable demo_gate_env 64 ?w4" by (meson gate_reachable.step)
  moreover have "?w4 = demo_gate_world"
    by (simp add: demo_gate_world_def gate_start_def settled_store_def memo_store_def memo_new_def
        without_key_def)
  ultimately show ?thesis by simp
qed

text \<open>One hour later the pre-takeoff still authorises.\<close>

theorem gate_verdict_witness:
  "fst (check_takeoff_gate demo_gate_env 3600000000 (gw_chat demo_gate_world ''s'')
      (gw_heap demo_gate_world (gw_chat demo_gate_world ''s'')) ''s'' None (gw_memo demo_gate_world)) = Inr ()"
proof -
  have a: "first_stamp demo_gate_env (rev (gw_heap demo_gate_world (gw_chat demo_gate_world ''s''))) =
      Inr (Some 0)" by code_simp
  have b: "effective_now 3600000000 None = Inr 3600000000" by code_simp
  show ?thesis
    unfolding gate_verdict [OF demo_gate_reachable refl a b]
    by (simp add: pre_takeoff_window_def datetime_max_def)
qed

theorem gate_fails_closed_witness:
  "fst (check_takeoff_gate demo_gate_env 0 0 [] ''s'' None (memo_new 8)) \<noteq> Inr ()"
proof -
  let ?w = "gate_start 8 (\<lambda>_. 0) 1"
  have "gate_reachable demo_gate_env 8 ?w" by (rule gate_reachable.init) simp
  from gate_fails_closed [OF this, of "[]" "''s''" 0 None] show ?thesis
    by (simp add: gate_start_def)
qed

end
