(* ===== verification/Plans.thy ===== *)
theory Plans
  imports Prelude Memo
begin

text \<open>
  \<open>src/core/plans.py\<close>: the plan registry of a session. The verbs read and rewrite
  \<open>plans.json\<close> under the session's lock, so one verb is one step on \<open>plan_world\<close>. They work
  on the raw JSON (whatever shape it has), so the model does too; the second half of the
  theory gives the typed registry that a file written by the verbs holds, and shows that
  the verbs implement transitions of it.

  Outside the model: resolving a path against the file system and the artifact assertion
  run are functions of \<open>plan_env\<close>; a file is its parsed content; numbers in JSON are exact
  decimals.
\<close>

subsection \<open>Errors and small Python operations\<close>

datatype plan_error =
    Raised py_error
  | BadShape string string           \<comment> \<open>"X must be ..., got <type>"\<close>
  | UnknownCloseAs json
  | NoVersions json
  | PlanNotFound int
  | OutsideSession string
  | FileNotFound string
  | AssertionsFail "(string \<times> string) list"
  | AlreadyBound string json json
  | PlanIsClosed int json
  | PlanAlreadyClosed int json
  | AlreadyApproved int
  | NoOpenLineage
  | ManyOpenLineages "json list"
  | NothingToApprove
  | ManyCandidates "json list"
  | BadTrigger string
  | EmptyNote
  | BadCloseMode string

type_synonym 'a pl = "plan_error + 'a"

definition raised :: "'a py \<Rightarrow> 'a pl" where
  "raised r = (case r of Inl e \<Rightarrow> Inl (Raised e) | Inr a \<Rightarrow> Inr a)"

text \<open>The plan errors are all \<open>ValueError\<close>s; of Python's own, these are.\<close>

fun is_value_error :: "plan_error \<Rightarrow> bool" where
  "is_value_error (Raised e) =
     (case e of ValueError _ \<Rightarrow> True | JSONDecodeError \<Rightarrow> True | UnicodeDecodeError \<Rightarrow> True | _ \<Rightarrow> False)"
| "is_value_error _ = True"

fun py_type_name :: "json \<Rightarrow> string" where
  "py_type_name JNull = ''NoneType''"
| "py_type_name (JBool _) = ''bool''"
| "py_type_name (JInt _) = ''int''"
| "py_type_name (JFloat _ _) = ''float''"
| "py_type_name (JStr _) = ''str''"
| "py_type_name (JArr _) = ''list''"
| "py_type_name (JObj _) = ''dict''"

text \<open>Numbers are \<open>m * 10 ^ e\<close>; \<open>True\<close> is 1.\<close>

fun jnum :: "json \<Rightarrow> (int \<times> int) option" where
  "jnum (JInt i) = Some (i, 0)"
| "jnum (JBool b) = Some (of_bool b, 0)"
| "jnum (JFloat m e) = Some (m, e)"
| "jnum _ = None"

definition scaled :: "int \<times> int \<Rightarrow> int \<times> int \<Rightarrow> int \<times> int" where
  "scaled a b = (let e = min (snd a) (snd b) in
     (fst a * 10 ^ nat (snd a - e), fst b * 10 ^ nat (snd b - e)))"

definition jeq_int :: "json \<Rightarrow> int \<Rightarrow> bool" where
  "jeq_int v i = (case jnum v of None \<Rightarrow> False | Some a \<Rightarrow> (let (x, y) = scaled a (i, 0) in x = y))"

text \<open>
  \<open>max(x[k] for x in xs)\<close>, always followed by \<open>+ 1\<close> here: a maximum that is a string, list
  or object ends in \<open>TypeError\<close> whichever element it is.
\<close>

definition jgreater :: "json \<Rightarrow> json \<Rightarrow> bool py" where
  "jgreater a b =
     (case (jnum a, jnum b) of
        (Some x, Some y) \<Rightarrow> Inr (let (p, q) = scaled x y in p > q)
      | _ \<Rightarrow> (case (a, b) of (JStr _, JStr _) \<Rightarrow> Inr False | _ \<Rightarrow> Inl TypeError))"

fun max_from :: "string \<Rightarrow> json \<Rightarrow> json list \<Rightarrow> json py" where
  "max_from k best [] = Inr best"
| "max_from k best (x # xs) =
     py_bind (jindex x k) (\<lambda>v. py_bind (jgreater v best) (\<lambda>g.
       max_from k (if g then v else best) xs))"

definition py_max_of :: "string \<Rightarrow> json option \<Rightarrow> json list \<Rightarrow> json py" where
  "py_max_of k dflt xs =
     (case xs of
        [] \<Rightarrow> (case dflt of None \<Rightarrow> Inl (ValueError ''max() iterable argument is empty'') | Some v \<Rightarrow> Inr v)
      | x # rest \<Rightarrow> py_bind (jindex x k) (\<lambda>v. max_from k v rest))"

fun add_one :: "json \<Rightarrow> json py" where
  "add_one (JInt i) = Inr (JInt (i + 1))"
| "add_one (JBool b) = Inr (JInt (of_bool b + 1))"
| "add_one (JFloat m e) =
     Inr (if 0 \<le> e then JFloat (m * 10 ^ nat e + 1) 0 else JFloat (m + 10 ^ nat (- e)) e)"
| "add_one _ = Inl TypeError"

text \<open>\<open>posixpath.normpath\<close>.\<close>

fun norm_comps :: "bool \<Rightarrow> string list \<Rightarrow> string list \<Rightarrow> string list" where
  "norm_comps slashes [] acc = acc"
| "norm_comps slashes (c # cs) acc =
     (if c = [] \<or> c = ''.'' then norm_comps slashes cs acc
      else if c \<noteq> ''..'' \<or> (\<not> slashes \<and> acc = []) \<or> (acc \<noteq> [] \<and> last acc = ''..'')
      then norm_comps slashes cs (acc @ [c])
      else norm_comps slashes cs (if acc \<noteq> [] then butlast acc else acc))"

definition normpath :: "string \<Rightarrow> string" where
  "normpath path =
     (if path = [] then ''.''
      else
        let slashes = (if prefix ''//'' path \<and> \<not> prefix ''///'' path then 2
                       else if prefix ''/'' path then 1 else (0::nat));
            comps = norm_comps (slashes \<noteq> 0) (split_on (CHR ''/'') path) [];
            res = replicate slashes (CHR ''/'') @ py_join ''/'' comps
        in if res = [] then ''.'' else res)"

definition jnormpath :: "json \<Rightarrow> string py" where
  "jnormpath v = (case v of JStr s \<Rightarrow> Inr (normpath s) | _ \<Rightarrow> Inl TypeError)"

subsection \<open>Derived state\<close>

datatype derived_state = UNKNOWN | AWAITING_APPROVAL | APPROVED | SUPERSEDED | ABANDONED | COMPLETED

fun state_value :: "derived_state \<Rightarrow> nat" where
  "state_value UNKNOWN = 0"
| "state_value AWAITING_APPROVAL = 1"
| "state_value APPROVED = 2"
| "state_value SUPERSEDED = 3"
| "state_value ABANDONED = 4"
| "state_value COMPLETED = 5"

lemma state_value_inj: "state_value a = state_value b \<Longrightarrow> a = b"
  by (cases a; cases b) auto

text \<open>An \<open>IntEnum\<close> is ordered by its value.\<close>

instantiation derived_state :: linorder
begin

definition less_eq_derived_state :: "derived_state \<Rightarrow> derived_state \<Rightarrow> bool" where
  "less_eq_derived_state a b = (state_value a \<le> state_value b)"

definition less_derived_state :: "derived_state \<Rightarrow> derived_state \<Rightarrow> bool" where
  "less_derived_state a b = (state_value a < state_value b)"

instance
  by standard (auto simp: less_eq_derived_state_def less_derived_state_def intro: state_value_inj)

end

fun derived_state_str :: "derived_state \<Rightarrow> string option" where
  "derived_state_str UNKNOWN = None"
| "derived_state_str AWAITING_APPROVAL = Some ''awaiting approval''"
| "derived_state_str APPROVED = Some ''approved''"
| "derived_state_str SUPERSEDED = Some ''superseded''"
| "derived_state_str ABANDONED = Some ''abandoned''"
| "derived_state_str COMPLETED = Some ''completed''"

definition derive_state :: "json \<Rightarrow> json \<Rightarrow> derived_state pl" where
  "derive_state closed takeoff =
     (if closed \<noteq> JNull then
        (case closed of
           JObj d \<Rightarrow>
             let close_as = dget d ''as'' in
             if close_as = JStr ''superseded'' then Inr SUPERSEDED
             else if close_as = JStr ''abandoned'' then Inr ABANDONED
             else if close_as = JStr ''completed'' then Inr COMPLETED
             else Inl (UnknownCloseAs close_as)
         | _ \<Rightarrow> Inl (BadShape ''closed'' (py_type_name closed)))
      else
        (case takeoff of
           JNull \<Rightarrow> Inr AWAITING_APPROVAL
         | JObj _ \<Rightarrow> Inr APPROVED
         | _ \<Rightarrow> Inl (BadShape ''takeoff'' (py_type_name takeoff))))"

definition derive_state_str :: "json \<Rightarrow> string pl" where
  "derive_state_str plan =
     (case plan of
        JObj d \<Rightarrow>
          if \<not> jtruthy (dget d ''versions'') then Inl (NoVersions (dget d ''id''))
          else py_bind (derive_state (dget d ''closed'') (dget d ''takeoff'')) (\<lambda>s.
                 case derived_state_str s of None \<Rightarrow> Inl (Raised KeyError) | Some t \<Rightarrow> Inr t)
      | _ \<Rightarrow> Inl (BadShape ''plan'' (py_type_name plan)))"


fun require_plan :: "nat \<Rightarrow> json list \<Rightarrow> int \<Rightarrow> (nat \<times> dict) pl" where
  "require_plan i [] plan_id = Inl (PlanNotFound plan_id)"
| "require_plan i (p # ps) plan_id =
     (case p of
        JObj d \<Rightarrow> if jeq_int (dget d ''id'') plan_id then Inr (i, d) else require_plan (Suc i) ps plan_id
      | _ \<Rightarrow> Inl (Raised AttributeError))"

subsection \<open>The canonical field set\<close>

definition plan_fields :: "string list" where
  "plan_fields = [''id'', ''title'', ''versions'', ''takeoff'', ''closed'']"

definition version_fields :: "string list" where
  "version_fields = [''v'', ''file'', ''created_at'', ''trigger'', ''base'', ''note'']"

definition project_version :: "json \<Rightarrow> json pl" where
  "project_version ver =
     (case ver of
        JObj d \<Rightarrow> Inr (JObj (map (\<lambda>k. (k, dget d k)) version_fields))
      | _ \<Rightarrow> Inl (BadShape ''version'' (py_type_name ver)))"

definition project_plan :: "json \<Rightarrow> json pl" where
  "project_plan plan =
     (case plan of
        JObj d \<Rightarrow>
          let projected = map (\<lambda>k. (k, dget d k)) plan_fields;
              versions = dget_or d ''versions'' (JArr [])
          in (case versions of
                JArr vs \<Rightarrow> py_bind (py_map project_version vs) (\<lambda>vs'.
                             Inr (JObj (dict_put projected ''versions'' (JArr vs'))))
              | _ \<Rightarrow> Inl (BadShape ''versions'' (py_type_name versions)))
      | _ \<Rightarrow> Inl (BadShape ''plan'' (py_type_name plan)))"

definition project_registry :: "dict \<Rightarrow> json pl" where
  "project_registry data =
     py_bind (raised (jiter (dget_or data ''plans'' (JArr [])))) (\<lambda>ps.
       py_bind (py_map project_plan ps) (\<lambda>ps'. Inr (JObj [(''plans'', JArr ps')])))"

subsection \<open>The tolerant read\<close>

text \<open>A file as the reader meets it: absent, unreadable, text that is not JSON, or a value.\<close>

datatype plans_file = NoFile | Unreadable | NotJson | Parsed json

record tolerant =
  tr_plans :: "json list"
  tr_errors :: "(json \<times> plan_error) list"   \<comment> \<open>(plan_id, error)\<close>

definition file_level_error :: "plan_error \<Rightarrow> tolerant" where
  "file_level_error e = \<lparr>tr_plans = [], tr_errors = [(JNull, e)]\<rparr>"

text \<open>One plan: project, derive, enrich.\<close>

definition enrich_plan :: "json \<Rightarrow> json pl" where
  "enrich_plan plan =
     py_bind (project_plan plan) (\<lambda>projected.
       py_bind (derive_state_str projected) (\<lambda>state.
         case projected of
           JObj d \<Rightarrow> Inr (JObj (dict_put d ''state'' (JStr state)))
         | _ \<Rightarrow> Inl (Raised TypeError)))"

fun read_each :: "json list \<Rightarrow> tolerant \<Rightarrow> py_error + tolerant" where
  "read_each [] acc = Inr acc"
| "read_each (plan # plans) acc =
     (case enrich_plan plan of
        Inr p \<Rightarrow> read_each plans (acc\<lparr>tr_plans := tr_plans acc @ [p]\<rparr>)
      | Inl e \<Rightarrow>
          (case e of
             Raised x \<Rightarrow>
               if is_value_error e \<or> x = OSError
               then read_each plans (acc\<lparr>tr_errors := tr_errors acc @
                      [(case plan of JObj d \<Rightarrow> dget d ''id'' | _ \<Rightarrow> JNull, e)]\<rparr>)
               else Inl x
           | _ \<Rightarrow> read_each plans (acc\<lparr>tr_errors := tr_errors acc @
                      [(case plan of JObj d \<Rightarrow> dget d ''id'' | _ \<Rightarrow> JNull, e)]\<rparr>)))"

text \<open>The flag says whether the outcome may be memoised.\<close>

definition read_plans_uncached :: "plans_file \<Rightarrow> (tolerant \<times> bool) py" where
  "read_plans_uncached file =
     (case file of
        NoFile \<Rightarrow> Inr (file_level_error (Raised OSError), False)
      | Unreadable \<Rightarrow> Inr (file_level_error (Raised OSError), False)
      | NotJson \<Rightarrow> Inr (file_level_error (Raised JSONDecodeError), True)
      | Parsed (JObj data) \<Rightarrow>
          py_bind (jiter (dget_or data ''plans'' (JArr []))) (\<lambda>plans.
            py_bind (read_each plans \<lparr>tr_plans = [], tr_errors = []\<rparr>) (\<lambda>r. Inr (r, True)))
      | Parsed data \<Rightarrow> Inr (file_level_error (BadShape ''registry top level'' (py_type_name data)), True))"

type_synonym tolerant_memo = "(string, tolerant) stat_memo"

text \<open>\<open>st\<close> is the outcome of \<open>stat\<close>; a failed one maps to the missing-file answer.\<close>

definition tolerant_memo_hit ::
  "string \<Rightarrow> stat_sig option \<Rightarrow> tolerant_memo \<Rightarrow> tolerant option \<times> tolerant_memo" where
  "tolerant_memo_hit path st m = (case st of None \<Rightarrow> (None, m) | Some s \<Rightarrow> stat_fresh path s m)"

definition read_plans_tolerant ::
  "string \<Rightarrow> stat_sig option \<Rightarrow> plans_file \<Rightarrow> tolerant_memo \<Rightarrow> tolerant py \<times> tolerant_memo" where
  "read_plans_tolerant path st file m =
     (case tolerant_memo_hit path st m of
        (Some hit, m') \<Rightarrow> (Inr hit, m')
      | (None, m') \<Rightarrow>
          (case st of
             None \<Rightarrow> (Inr \<lparr>tr_plans = [], tr_errors = []\<rparr>, m')
           | Some s \<Rightarrow>
               (case read_plans_uncached file of
                  Inl e \<Rightarrow> (Inl e, m')
                | Inr (r, cacheable) \<Rightarrow> (Inr r, if cacheable then stat_record path s r m' else m'))))"

definition list_plans ::
  "string \<Rightarrow> stat_sig option \<Rightarrow> plans_file \<Rightarrow> tolerant_memo \<Rightarrow> tolerant py \<times> tolerant_memo" where
  "list_plans path st file m =
     (case tolerant_memo_hit path st m of
        (Some hit, m') \<Rightarrow> (Inr hit, m')
      | (None, m') \<Rightarrow> read_plans_tolerant path st file m')"

subsection \<open>The verbs\<close>

text \<open>
  What lies outside: \<open>resolve_file\<close> answers (session-relative POSIX path if inside the
  session, whether the file exists); \<open>failed_assertions\<close> the failed outcomes (name, detail)
  of the assertion run; \<open>writable\<close> whether the atomic write succeeds.
\<close>

record plan_env =
  resolve_file :: "string \<Rightarrow> string option \<times> bool"
  failed_assertions :: "string \<Rightarrow> (string \<times> string) list"
  writable :: bool

record plan_world =
  pw_file :: plans_file
  pw_revision :: nat            \<comment> \<open>mark_sidebar_dirty calls\<close>
  pw_broadcasts :: "json list"  \<comment> \<open>plan_updated events, by plan id\<close>

record reply =
  re_plan :: json
  re_v :: "json option"
  re_state :: string

definition load_plans :: "plans_file \<Rightarrow> json pl" where
  "load_plans file =
     (case file of
        NoFile \<Rightarrow> Inr (JObj [(''plans'', JArr [])])
      | Unreadable \<Rightarrow> Inl (Raised OSError)
      | NotJson \<Rightarrow> Inl (Raised JSONDecodeError)
      | Parsed v \<Rightarrow> Inr v)"

definition save_plans :: "plan_env \<Rightarrow> dict \<Rightarrow> plan_world \<Rightarrow> (unit pl) \<times> plan_world" where
  "save_plans env data w =
     (case project_registry data of
        Inl e \<Rightarrow> (Inl e, w)
      | Inr v \<Rightarrow>
          if writable env
          then (Inr (), w\<lparr>pw_file := Parsed v, pw_revision := Suc (pw_revision w)\<rparr>)
          else (Inl (Raised OSError), w))"

definition broadcast :: "json \<Rightarrow> plan_world \<Rightarrow> plan_world" where
  "broadcast pid w = w\<lparr>pw_broadcasts := pw_broadcasts w @ [pid]\<rparr>"

definition validate_file_in_session_dir :: "plan_env \<Rightarrow> string \<Rightarrow> string pl" where
  "validate_file_in_session_dir env file =
     (case resolve_file env file of
        (None, _) \<Rightarrow> Inl (OutsideSession file)
      | (Some relative, found) \<Rightarrow> if found then Inr relative else Inl (FileNotFound file))"

fun find_in_versions :: "string \<Rightarrow> json list \<Rightarrow> json option pl" where
  "find_in_versions file [] = Inr None"
| "find_in_versions file (ver # vers) =
     py_bind (raised (jindex ver ''file'')) (\<lambda>f.
       py_bind (raised (jnormpath f)) (\<lambda>n.
         if n = file then Inr (Some ver) else find_in_versions file vers))"

fun find_binding_by_file :: "json list \<Rightarrow> string \<Rightarrow> (json \<times> json) option pl" where
  "find_binding_by_file [] file = Inr None"
| "find_binding_by_file (plan # plans) file =
     py_bind (raised (py_bind (jindex plan ''versions'') jiter)) (\<lambda>vers.
       py_bind (find_in_versions file vers) (\<lambda>found.
         case found of
           None \<Rightarrow> find_binding_by_file plans file
         | Some ver \<Rightarrow>
             py_bind (raised (jindex plan ''id'')) (\<lambda>i.
               py_bind (raised (jindex ver ''v'')) (\<lambda>v. Inr (Some (i, v))))))"

text \<open>\<open>for plan in data["plans"]\<close>.\<close>

definition plans_of :: "json \<Rightarrow> json list pl" where
  "plans_of data = raised (py_bind (jindex data ''plans'') jiter)"

definition validate_new_version_file :: "plan_env \<Rightarrow> string \<Rightarrow> json \<Rightarrow> string pl" where
  "validate_new_version_file env file0 data =
     (let file = normpath file0 in
      py_bind (validate_file_in_session_dir env file) (\<lambda>relative.
        let failures = failed_assertions env relative in
        if failures \<noteq> [] then Inl (AssertionsFail failures)
        else py_bind (plans_of data) (\<lambda>plans.
          py_bind (find_binding_by_file plans relative) (\<lambda>existing.
            case existing of
              Some (i, v) \<Rightarrow> Inl (AlreadyBound file i v)
            | None \<Rightarrow> Inr relative))))"

text \<open>\<open>plan['closed']['as']\<close> of the error message may itself raise.\<close>

definition refuse_closed :: "json \<Rightarrow> (json \<Rightarrow> plan_error) \<Rightarrow> 'a pl" where
  "refuse_closed closed err = py_bind (raised (jindex closed ''as'')) (\<lambda>a. Inl (err a))"

definition require_open_plan :: "json \<Rightarrow> int \<Rightarrow> (nat \<times> dict) pl" where
  "require_open_plan data plan_id =
     py_bind (plans_of data) (\<lambda>plans.
       py_bind (require_plan 0 plans plan_id) (\<lambda>(i, plan).
         if dget plan ''closed'' \<noteq> JNull then refuse_closed (dget plan ''closed'') (PlanIsClosed plan_id)
         else Inr (i, plan)))"

text \<open>The plans neither closed nor approved, with their places in the list.\<close>

fun open_candidates :: "nat \<Rightarrow> json list \<Rightarrow> (nat \<times> dict) list pl" where
  "open_candidates i [] = Inr []"
| "open_candidates i (p # ps) =
     (case p of
        JObj d \<Rightarrow> py_bind (open_candidates (Suc i) ps) (\<lambda>rest.
          Inr (if dget d ''closed'' = JNull \<and> dget d ''takeoff'' = JNull then (i, d) # rest else rest))
      | _ \<Rightarrow> Inl (Raised AttributeError))"

definition the_candidate :: "plan_error \<Rightarrow> (json list \<Rightarrow> plan_error) \<Rightarrow> json \<Rightarrow> (nat \<times> dict) pl" where
  "the_candidate none many data =
     py_bind (plans_of data) (\<lambda>plans.
       py_bind (open_candidates 0 plans) (\<lambda>cands.
         case cands of
           [] \<Rightarrow> Inl none
         | [c] \<Rightarrow> Inr c
         | _ \<Rightarrow> py_bind (raised (py_map (\<lambda>c. dindex (snd c) ''id'') cands)) (\<lambda>ids. Inl (many ids))))"

definition resolve_target_plan_for_amend :: "json \<Rightarrow> int option \<Rightarrow> (nat \<times> dict) pl" where
  "resolve_target_plan_for_amend data plan_id =
     (case plan_id of
        Some i \<Rightarrow> require_open_plan data i
      | None \<Rightarrow> the_candidate NoOpenLineage ManyOpenLineages data)"

definition resolve_target_plan_for_approve :: "json \<Rightarrow> int option \<Rightarrow> (nat \<times> dict) pl" where
  "resolve_target_plan_for_approve data plan_id =
     (case plan_id of
        Some i \<Rightarrow>
          py_bind (require_open_plan data i) (\<lambda>(j, plan).
            if dget plan ''takeoff'' \<noteq> JNull then Inl (AlreadyApproved i) else Inr (j, plan))
      | None \<Rightarrow> the_candidate NothingToApprove ManyCandidates data)"


text \<open>The mutated registry, when plan \<open>i\<close> of its list has become \<open>plan\<close>; and \<open>append\<close>.\<close>

definition put_plan :: "json \<Rightarrow> nat \<Rightarrow> dict \<Rightarrow> dict" where
  "put_plan data i plan =
     (case data of
        JObj d \<Rightarrow>
          (case dget d ''plans'' of
             JArr ps \<Rightarrow> dict_put d ''plans'' (JArr (ps[i := JObj plan]))
           | _ \<Rightarrow> d)
      | _ \<Rightarrow> [])"

definition append_plan :: "json \<Rightarrow> dict \<Rightarrow> dict pl" where
  "append_plan data plan =
     (case data of
        JObj d \<Rightarrow>
          (case dindex d ''plans'' of
             Inr (JArr ps) \<Rightarrow> Inr (dict_put d ''plans'' (JArr (ps @ [JObj plan])))
           | Inr _ \<Rightarrow> Inl (Raised AttributeError)
           | Inl e \<Rightarrow> Inl (Raised e))
      | _ \<Rightarrow> Inl (Raised TypeError))"

text \<open>The tail of every verb: save, then (outside the lock) broadcast, then the reply.\<close>

definition commit_plan ::
  "plan_env \<Rightarrow> dict \<Rightarrow> dict \<Rightarrow> json pl \<Rightarrow> json option \<Rightarrow> plan_world \<Rightarrow> reply pl \<times> plan_world" where
  "commit_plan env data plan plan_id v w =
     (case save_plans env data w of
        (Inl e, w') \<Rightarrow> (Inl e, w')
      | (Inr _, w') \<Rightarrow>
          (case plan_id of
             Inl e \<Rightarrow> (Inl e, w')
           | Inr i \<Rightarrow>
               (py_bind (derive_state_str (JObj plan)) (\<lambda>st.
                  Inr \<lparr>re_plan = i, re_v = v, re_state = st\<rparr>), broadcast i w')))"

definition version_dict :: "json \<Rightarrow> string \<Rightarrow> string \<Rightarrow> string \<Rightarrow> json \<Rightarrow> json \<Rightarrow> dict" where
  "version_dict v file now trigger base note =
     [(''v'', v), (''file'', JStr file), (''created_at'', JStr now), (''trigger'', JStr trigger),
      (''base'', base), (''note'', note)]"

definition present :: "plan_env \<Rightarrow> string \<Rightarrow> string \<Rightarrow> string \<Rightarrow> json \<Rightarrow> plan_world \<Rightarrow> reply pl \<times> plan_world" where
  "present env now file title base w =
     (case py_bind (load_plans (pw_file w)) (\<lambda>data.
             py_bind (validate_new_version_file env file data) (\<lambda>relative.
               py_bind (plans_of data) (\<lambda>plans.
                 py_bind (raised (py_bind (py_max_of ''id'' (Some (JInt 0)) plans) add_one)) (\<lambda>next_id.
                   let plan = [(''id'', next_id), (''title'', JStr title),
                               (''versions'', JArr [JObj (version_dict (JInt 1) relative now ''initial'' base JNull)]),
                               (''takeoff'', JNull), (''closed'', JNull)]
                   in py_bind (append_plan data plan) (\<lambda>data'. Inr (data', plan, next_id)))))) of
        Inl e \<Rightarrow> (Inl e, w)
      | Inr (data', plan, next_id) \<Rightarrow> commit_plan env data' plan (Inr next_id) (Some (JInt 1)) w)"

definition plan_amend_triggers :: "string list" where
  "plan_amend_triggers = [''auto_amend'', ''feedback'']"

definition amend ::
  "plan_env \<Rightarrow> string \<Rightarrow> string \<Rightarrow> int option \<Rightarrow> string \<Rightarrow> json \<Rightarrow> string option \<Rightarrow> plan_world \<Rightarrow> reply pl \<times> plan_world"
where
  "amend env now file plan_id trigger base note w =
     (if trigger \<notin> set plan_amend_triggers then (Inl (BadTrigger trigger), w)
      else case note of None \<Rightarrow> (Inl EmptyNote, w) | Some n \<Rightarrow>
      if str_strip n = [] then (Inl EmptyNote, w)
      else
       (case py_bind (load_plans (pw_file w)) (\<lambda>data.
               py_bind (validate_new_version_file env file data) (\<lambda>relative.
                 py_bind (resolve_target_plan_for_amend data plan_id) (\<lambda>(i, plan).
                   py_bind (raised (py_bind (dindex plan ''versions'') jiter)) (\<lambda>vers.
                     py_bind (raised (py_bind (py_max_of ''v'' None vers) add_one)) (\<lambda>new_v.
                       let ver = version_dict new_v relative now trigger base (JStr n);
                           plan' = dict_put (dict_put plan ''versions'' (JArr (vers @ [JObj ver]))) ''takeoff'' JNull
                       in Inr (put_plan data i plan', plan', new_v)))))) of
          Inl e \<Rightarrow> (Inl e, w)
        | Inr (data', plan', new_v) \<Rightarrow>
            commit_plan env data' plan' (raised (dindex plan' ''id'')) (Some new_v) w))"

text \<open>\<open>v[-1]\<close>.\<close>

definition jlast :: "json \<Rightarrow> json py" where
  "jlast v =
     (case v of
        JArr xs \<Rightarrow> if xs = [] then Inl IndexError else Inr (last xs)
      | JStr s \<Rightarrow> if s = [] then Inl IndexError else Inr (JStr (last (utf8_chars s)))
      | JObj _ \<Rightarrow> Inl KeyError
      | _ \<Rightarrow> Inl TypeError)"

definition approve :: "plan_env \<Rightarrow> string \<Rightarrow> int option \<Rightarrow> plan_world \<Rightarrow> reply pl \<times> plan_world" where
  "approve env now plan_id w =
     (case py_bind (load_plans (pw_file w)) (\<lambda>data.
             py_bind (resolve_target_plan_for_approve data plan_id) (\<lambda>(i, plan).
               py_bind (raised (py_bind (dindex plan ''versions'') (\<lambda>vs. py_bind (jlast vs) (\<lambda>l. jindex l ''v'')))) (\<lambda>v.
                 let plan' = dict_put plan ''takeoff'' (JObj [(''v'', v), (''at'', JStr now)])
                 in Inr (put_plan data i plan', plan', v)))) of
        Inl e \<Rightarrow> (Inl e, w)
      | Inr (data', plan', v) \<Rightarrow>
          commit_plan env data' plan' (raised (dindex plan' ''id'')) (Some v) w)"

definition plan_close_modes :: "string list" where
  "plan_close_modes = [''superseded'', ''abandoned'', ''completed'']"

definition close_plan :: "plan_env \<Rightarrow> string \<Rightarrow> int \<Rightarrow> string \<Rightarrow> plan_world \<Rightarrow> reply pl \<times> plan_world" where
  "close_plan env now plan_id close_as w =
     (if close_as \<notin> set plan_close_modes then (Inl (BadCloseMode close_as), w)
      else
       (case py_bind (load_plans (pw_file w)) (\<lambda>data.
               py_bind (plans_of data) (\<lambda>plans.
                 py_bind (require_plan 0 plans plan_id) (\<lambda>(i, plan).
                   if dget plan ''closed'' \<noteq> JNull
                   then refuse_closed (dget plan ''closed'') (PlanAlreadyClosed plan_id)
                   else
                     let plan' = dict_put plan ''closed'' (JObj [(''as'', JStr close_as), (''at'', JStr now)])
                     in Inr (put_plan data i plan', plan')))) of
          Inl e \<Rightarrow> (Inl e, w)
        | Inr (data', plan') \<Rightarrow> commit_plan env data' plan' (Inr (JInt plan_id)) None w))"

datatype verb =
    Present string string json
  | Amend string "int option" string json "string option"
  | Approve "int option"
  | Close int string

fun run_verb :: "plan_env \<Rightarrow> string \<Rightarrow> verb \<Rightarrow> plan_world \<Rightarrow> reply pl \<times> plan_world" where
  "run_verb env now (Present file title base) w = present env now file title base w"
| "run_verb env now (Amend file pid trigger base note) w = amend env now file pid trigger base note w"
| "run_verb env now (Approve pid) w = approve env now pid w"
| "run_verb env now (Close pid close_as) w = close_plan env now pid close_as w"


subsection \<open>What the tolerant read promises\<close>

lemma derive_state_str_errors:
  "derive_state_str p = Inl e \<Longrightarrow> \<nexists>x. e = Raised x"
  by (auto simp: derive_state_str_def derive_state_def py_bind_Inl_iff Let_def
      split: json.splits if_splits option.splits)

lemma py_map_errors:
  "py_map f xs = Inl e \<Longrightarrow> \<exists>x \<in> set xs. f x = Inl e"
  by (induction xs) (auto simp: py_bind_Inl_iff)

lemma project_plan_errors: "project_plan p = Inl e \<Longrightarrow> \<nexists>x. e = Raised x"
  by (auto simp: project_plan_def Let_def py_bind_Inl_iff project_version_def
      split: json.splits dest!: py_map_errors)

lemma project_plan_is_object: "project_plan p = Inr q \<Longrightarrow> \<exists>d. q = JObj d"
  by (auto simp: project_plan_def Let_def py_bind_Inr_iff split: json.splits)

lemma enrich_plan_errors: "enrich_plan p = Inl e \<Longrightarrow> \<nexists>x. e = Raised x"
  by (auto simp: enrich_plan_def py_bind_Inl_iff split: json.splits
      dest: derive_state_str_errors project_plan_errors project_plan_is_object)

definition plan_id_of :: "json \<Rightarrow> json" where
  "plan_id_of p = (case p of JObj d \<Rightarrow> dget d ''id'' | _ \<Rightarrow> JNull)"

lemma read_each_eq:
  "read_each ps acc =
     Inr \<lparr>tr_plans = tr_plans acc @ concat (map (\<lambda>p. case enrich_plan p of Inr q \<Rightarrow> [q] | Inl _ \<Rightarrow> []) ps),
          tr_errors = tr_errors acc @
            concat (map (\<lambda>p. case enrich_plan p of Inr _ \<Rightarrow> [] | Inl e \<Rightarrow> [(plan_id_of p, e)]) ps)\<rparr>"
proof (induction ps arbitrary: acc)
  case (Cons p ps)
  show ?case
  proof (cases "enrich_plan p")
    case (Inl e)
    then show ?thesis using enrich_plan_errors [OF Inl]
      by (cases e) (simp_all add: Cons.IH plan_id_of_def)
  qed (simp add: Cons.IH)
qed simp

text \<open>
  The tolerant read isolates corruption: of a registry whose \<open>plans\<close> is a list (or
  absent), each plan that projects and derives is returned enriched, in order, and each
  other one becomes exactly one error entry that carries its id; none aborts the listing.
\<close>

theorem tolerant_read_isolates:
  assumes "dget_or data ''plans'' (JArr []) = JArr ps"
  shows "read_plans_uncached (Parsed (JObj data)) =
    Inr (\<lparr>tr_plans = concat (map (\<lambda>p. case enrich_plan p of Inr q \<Rightarrow> [q] | Inl _ \<Rightarrow> []) ps),
          tr_errors = concat (map (\<lambda>p. case enrich_plan p of
                                          Inr _ \<Rightarrow> [] | Inl e \<Rightarrow> [(plan_id_of p, e)]) ps)\<rparr>, True)"
  using assms by (simp add: read_plans_uncached_def read_each_eq)

theorem tolerant_read_isolates_witness:
  "read_plans_uncached (Parsed (JObj [(''plans'', JArr [JInt 7, JObj [(''id'', JInt 1)]])])) =
     Inr (\<lparr>tr_plans = [], tr_errors = [(JNull, BadShape ''plan'' ''int''), (JInt 1, NoVersions (JInt 1))]\<rparr>, True)"
  by (subst tolerant_read_isolates [of _ "[JInt 7, JObj [(''id'', JInt 1)]]"])
     (simp add: dget_or_def, simp add: enrich_plan_def project_plan_def Let_def plan_fields_def
        dget_or_def derive_state_str_def plan_id_of_def)

text \<open>
  Where the tolerant read does raise: exactly on a registry object whose \<open>plans\<close> is
  null, a boolean or a number, which cannot be iterated. \<open>TypeError\<close> is not among the
  errors it catches, although its contract is never to raise for corruption.
\<close>

theorem tolerant_read_raises_iff:
  "read_plans_uncached pf = Inl e \<longleftrightarrow>
     e = TypeError \<and>
     (\<exists>data v. pf = Parsed (JObj data) \<and> map_of data ''plans'' = Some v \<and>
        (v = JNull \<or> (\<exists>b. v = JBool b) \<or> (\<exists>i. v = JInt i) \<or> (\<exists>m x. v = JFloat m x)))"
  (is "?l \<longleftrightarrow> ?r")
proof -
  have iter: "jiter v = Inl e \<longleftrightarrow>
      e = TypeError \<and> (v = JNull \<or> (\<exists>b. v = JBool b) \<or> (\<exists>i. v = JInt i) \<or> (\<exists>m x. v = JFloat m x))" for v e
    by (cases v) auto
  show ?thesis
    by (cases pf)
       (auto simp: read_plans_uncached_def read_each_eq py_bind_Inl_iff iter dget_or_def
         split: json.splits option.splits)
qed

text \<open>
  The memoised read answers what the file holds, while every held fact with the current
  signature is the reading of the current content; and it keeps the memo so.
\<close>

lemma read_plans_tolerant_memoised:
  fixes path :: string and st :: stat_sig and pf :: plans_file
    and truth :: "string \<Rightarrow> stat_sig \<Rightarrow> tolerant \<Rightarrow> bool"
  defines "truth \<equiv> \<lambda>k s r. k = path \<and> s = st \<longrightarrow> read_plans_uncached pf = Inr (r, True)"
  assumes sound: "stat_memo.sound truth m"
  shows "fst (read_plans_tolerant path (Some st) pf m) =
           py_bind (read_plans_uncached pf) (\<lambda>(r, _). Inr r)"
    and "stat_memo.sound truth (snd (read_plans_tolerant path (Some st) pf m))"
proof -
  note look = stat_memo.sound_look [OF sound, of path st]
  have hit: "fst (stat_fresh path st m) = Some r \<Longrightarrow> read_plans_uncached pf = Inr (r, True)" for r
    using stat_memo.sound_served [OF sound, of path st r] by (simp add: truth_def)
  show "fst (read_plans_tolerant path (Some st) pf m) =
      py_bind (read_plans_uncached pf) (\<lambda>(r, _). Inr r)"
    using hit by (auto simp: read_plans_tolerant_def tolerant_memo_hit_def py_bind_def
        split: option.splits sum.splits prod.splits)
  have put: "read_plans_uncached pf = Inr (r, True) \<Longrightarrow>
      stat_memo.sound truth (stat_record path st r (snd (stat_fresh path st m)))" for r
    by (rule stat_memo.sound_put [OF look]) (simp add: truth_def)
  show "stat_memo.sound truth (snd (read_plans_tolerant path (Some st) pf m))"
    using look put by (auto simp: read_plans_tolerant_def tolerant_memo_hit_def
        split: option.splits sum.splits prod.splits)
qed

subsection \<open>The typed registry\<close>

record version =
  ver_no :: int
  ver_file :: string
  ver_created :: string
  ver_trigger :: string
  ver_base :: json
  ver_note :: "string option"

record plan =
  p_id :: int
  p_title :: string
  p_versions :: "version list"
  p_takeoff :: "(int \<times> string) option"
  p_closed :: "(string \<times> string) option"

definition enc_version :: "version \<Rightarrow> json" where
  "enc_version r = JObj (version_dict (JInt (ver_no r)) (ver_file r) (ver_created r) (ver_trigger r)
     (ver_base r) (case ver_note r of None \<Rightarrow> JNull | Some n \<Rightarrow> JStr n))"

definition enc_takeoff :: "(int \<times> string) option \<Rightarrow> json" where
  "enc_takeoff t = (case t of None \<Rightarrow> JNull | Some (v, at) \<Rightarrow> JObj [(''v'', JInt v), (''at'', JStr at)])"

definition enc_closed :: "(string \<times> string) option \<Rightarrow> json" where
  "enc_closed c = (case c of None \<Rightarrow> JNull | Some (m, at) \<Rightarrow> JObj [(''as'', JStr m), (''at'', JStr at)])"

definition enc_plan :: "plan \<Rightarrow> dict" where
  "enc_plan p =
     [(''id'', JInt (p_id p)), (''title'', JStr (p_title p)),
      (''versions'', JArr (map enc_version (p_versions p))),
      (''takeoff'', enc_takeoff (p_takeoff p)), (''closed'', enc_closed (p_closed p))]"

abbreviation enc_plans :: "plan list \<Rightarrow> json list" where
  "enc_plans ps \<equiv> map (\<lambda>p. JObj (enc_plan p)) ps"

definition enc_registry :: "plan list \<Rightarrow> dict" where
  "enc_registry ps = [(''plans'', JArr (enc_plans ps))]"

text \<open>The registry as the verbs should change it.\<close>

definition pending :: "plan \<Rightarrow> bool" where
  "pending p = (p_closed p = None \<and> p_takeoff p = None)"

definition next_plan_id :: "plan list \<Rightarrow> int" where
  "next_plan_id ps = (case ps of [] \<Rightarrow> 0 | p # ps \<Rightarrow> foldl max (p_id p) (map p_id ps)) + 1"

definition next_version :: "version list \<Rightarrow> int" where
  "next_version vs = foldl max (ver_no (hd vs)) (map ver_no (tl vs)) + 1"

definition binding_of :: "plan list \<Rightarrow> string \<Rightarrow> (int \<times> int) option" where
  "binding_of ps file =
     map_option (\<lambda>(p, r). (p_id p, ver_no r))
       (find (\<lambda>(p, r). normpath (ver_file r) = file) (concat (map (\<lambda>p. map (Pair p) (p_versions p)) ps)))"

definition reg_validate :: "plan_env \<Rightarrow> string \<Rightarrow> plan list \<Rightarrow> string pl" where
  "reg_validate env file ps =
     py_bind (validate_file_in_session_dir env (normpath file)) (\<lambda>r.
       if failed_assertions env r \<noteq> [] then Inl (AssertionsFail (failed_assertions env r))
       else case binding_of ps r of
              None \<Rightarrow> Inr r
            | Some (i, v) \<Rightarrow> Inl (AlreadyBound (normpath file) (JInt i) (JInt v)))"

definition reg_find :: "plan list \<Rightarrow> int \<Rightarrow> (nat \<times> plan) pl" where
  "reg_find ps pid =
     (case find (\<lambda>(i, p). p_id p = pid) (enumerate 0 ps) of
        None \<Rightarrow> Inl (PlanNotFound pid) | Some r \<Rightarrow> Inr r)"

definition reg_open :: "plan list \<Rightarrow> int \<Rightarrow> (nat \<times> plan) pl" where
  "reg_open ps pid = py_bind (reg_find ps pid) (\<lambda>(i, p).
     case p_closed p of None \<Rightarrow> Inr (i, p) | Some (m, _) \<Rightarrow> Inl (PlanIsClosed pid (JStr m)))"

definition reg_candidate :: "plan_error \<Rightarrow> (json list \<Rightarrow> plan_error) \<Rightarrow> plan list \<Rightarrow> (nat \<times> plan) pl" where
  "reg_candidate none many ps =
     (case filter (\<lambda>(i, p). pending p) (enumerate 0 ps) of
        [] \<Rightarrow> Inl none | [c] \<Rightarrow> Inr c | cs \<Rightarrow> Inl (many (map (\<lambda>c. JInt (p_id (snd c))) cs)))"

fun reg_verb :: "plan_env \<Rightarrow> string \<Rightarrow> verb \<Rightarrow> plan list \<Rightarrow> (plan list \<times> plan \<times> int option) pl" where
  "reg_verb env now (Present file title base) ps =
     py_bind (reg_validate env file ps) (\<lambda>r.
       let p = \<lparr>p_id = next_plan_id ps, p_title = title,
                p_versions = [\<lparr>ver_no = 1, ver_file = r, ver_created = now, ver_trigger = ''initial'',
                               ver_base = base, ver_note = None\<rparr>],
                p_takeoff = None, p_closed = None\<rparr>
       in Inr (ps @ [p], p, Some 1))"
| "reg_verb env now (Amend file pid trigger base note) ps =
     (if trigger \<notin> set plan_amend_triggers then Inl (BadTrigger trigger)
      else case note of None \<Rightarrow> Inl EmptyNote | Some n \<Rightarrow>
      if str_strip n = [] then Inl EmptyNote
      else py_bind (reg_validate env file ps) (\<lambda>r.
        py_bind (case pid of Some i \<Rightarrow> reg_open ps i
                 | None \<Rightarrow> reg_candidate NoOpenLineage ManyOpenLineages ps) (\<lambda>(i, p).
          let v = next_version (p_versions p);
              p' = p\<lparr>p_versions := p_versions p @
                       [\<lparr>ver_no = v, ver_file = r, ver_created = now, ver_trigger = trigger,
                         ver_base = base, ver_note = Some n\<rparr>],
                     p_takeoff := None\<rparr>
          in Inr (ps[i := p'], p', Some v))))"
| "reg_verb env now (Approve pid) ps =
     py_bind (case pid of
                Some i \<Rightarrow> py_bind (reg_open ps i) (\<lambda>(j, p).
                  if p_takeoff p \<noteq> None then Inl (AlreadyApproved i) else Inr (j, p))
              | None \<Rightarrow> reg_candidate NothingToApprove ManyCandidates ps) (\<lambda>(i, p).
       let v = ver_no (last (p_versions p)); p' = p\<lparr>p_takeoff := Some (v, now)\<rparr>
       in Inr (ps[i := p'], p', Some v))"
| "reg_verb env now (Close pid close_as) ps =
     (if close_as \<notin> set plan_close_modes then Inl (BadCloseMode close_as)
      else py_bind (reg_find ps pid) (\<lambda>(i, p).
        case p_closed p of
          Some (m, _) \<Rightarrow> Inl (PlanAlreadyClosed pid (JStr m))
        | None \<Rightarrow> let p' = p\<lparr>p_closed := Some (close_as, now)\<rparr> in Inr (ps[i := p'], p', None)))"

definition state_name :: "plan \<Rightarrow> string" where
  "state_name p = (case p_closed p of Some (m, _) \<Rightarrow> m
     | None \<Rightarrow> if p_takeoff p = None then ''awaiting approval'' else ''approved'')"


subsection \<open>The verbs on an encoded registry\<close>

lemma enc_plan_fields [simp]:
  "dget (enc_plan p) ''id'' = JInt (p_id p)"
  "dget (enc_plan p) ''versions'' = JArr (map enc_version (p_versions p))"
  "dget (enc_plan p) ''takeoff'' = enc_takeoff (p_takeoff p)"
  "dget (enc_plan p) ''closed'' = enc_closed (p_closed p)"
  "dindex (enc_plan p) ''id'' = Inr (JInt (p_id p))"
  "dindex (enc_plan p) ''versions'' = Inr (JArr (map enc_version (p_versions p)))"
  by (simp_all add: enc_plan_def dindex_def)

lemma enc_version_fields [simp]:
  "jindex (enc_version r) ''file'' = Inr (JStr (ver_file r))"
  "jindex (enc_version r) ''v'' = Inr (JInt (ver_no r))"
  by (simp_all add: enc_version_def version_dict_def dindex_def)

lemma enc_null [simp]:
  "enc_takeoff t = JNull \<longleftrightarrow> t = None" "enc_closed c = JNull \<longleftrightarrow> c = None"
  by (auto simp: enc_takeoff_def enc_closed_def split: option.splits)

lemma raised_simps [simp]: "raised (Inr a) = Inr a" "raised (Inl e) = Inl (Raised e)"
  by (simp_all add: raised_def)

lemma jeq_int_JInt [simp]: "jeq_int (JInt a) b \<longleftrightarrow> a = b"
  by (simp add: jeq_int_def scaled_def)

lemma jnormpath_JStr [simp]: "jnormpath (JStr s) = Inr (normpath s)"
  by (simp add: jnormpath_def)

lemma project_version_enc: "project_version (enc_version r) = Inr (enc_version r)"
  by (simp add: project_version_def enc_version_def version_dict_def version_fields_def)

lemma project_plan_enc: "project_plan (JObj (enc_plan p)) = Inr (JObj (enc_plan p))"
proof -
  have "py_map project_version (map enc_version vs) = Inr (map enc_version vs)" for vs
    by (induction vs) (auto simp: project_version_enc)
  then show ?thesis
    by (simp add: project_plan_def enc_plan_def Let_def plan_fields_def dget_or_def)
qed

lemma project_registry_enc: "project_registry (enc_registry ps) = Inr (JObj (enc_registry ps))"
proof -
  have "py_map project_plan (enc_plans ps) = Inr (enc_plans ps)"
    by (induction ps) (auto simp: project_plan_enc)
  then show ?thesis by (simp add: project_registry_def enc_registry_def dget_or_def)
qed

lemma plans_of_enc [simp]: "plans_of (JObj (enc_registry ps)) = Inr (enc_plans ps)"
  by (simp add: plans_of_def enc_registry_def dindex_def)

lemma find_in_versions_enc:
  "find_in_versions f (map enc_version vs) =
     Inr (map_option enc_version (find (\<lambda>r. normpath (ver_file r) = f) vs))"
  by (induction vs) auto

lemma find_map: "find P (map f xs) = map_option f (find (P \<circ> f) xs)"
  by (induction xs) auto

lemma find_binding_enc:
  "find_binding_by_file (enc_plans ps) f =
     Inr (map_option (\<lambda>(i, v). (JInt i, JInt v)) (binding_of ps f))"
proof (induction ps)
  case Nil
  then show ?case by (simp add: binding_of_def)
next
  case (Cons p ps)
  have "binding_of (p # ps) f =
      (case find (\<lambda>r. normpath (ver_file r) = f) (p_versions p) of
         None \<Rightarrow> binding_of ps f | Some r \<Rightarrow> Some (p_id p, ver_no r))"
    by (simp add: binding_of_def find_append find_map comp_def split: option.splits)
  then show ?case using Cons
    by (simp add: find_in_versions_enc split: option.splits)
qed

lemma max_from_enc:
  assumes "\<And>x. x \<in> set xs \<Longrightarrow> jindex (f x) k = Inr (JInt (g x))"
  shows "max_from k (JInt b) (map f xs) = Inr (JInt (foldl max b (map g xs)))"
  using assms
  by (induction xs arbitrary: b) (auto simp: jgreater_def scaled_def max_def)

lemma next_plan_id_enc:
  "py_bind (py_max_of ''id'' (Some (JInt 0)) (enc_plans ps)) add_one = Inr (JInt (next_plan_id ps))"
  by (cases ps) (auto simp: py_max_of_def next_plan_id_def max_from_enc [where g = p_id])

lemma next_version_enc:
  "vs \<noteq> [] \<Longrightarrow>
   py_bind (py_max_of ''v'' None (map enc_version vs)) add_one = Inr (JInt (next_version vs))"
  by (cases vs) (auto simp: py_max_of_def next_version_def max_from_enc [where g = ver_no])

lemma require_plan_enc:
  "require_plan k (enc_plans ps) pid =
     (case find (\<lambda>(i, p). p_id p = pid) (enumerate k ps) of
        None \<Rightarrow> Inl (PlanNotFound pid) | Some (i, p) \<Rightarrow> Inr (i, enc_plan p))"
  by (induction ps arbitrary: k) auto

lemma open_candidates_enc:
  "open_candidates k (enc_plans ps) =
     Inr (map (\<lambda>(i, p). (i, enc_plan p)) (filter (\<lambda>(i, p). pending p) (enumerate k ps)))"
  by (induction ps arbitrary: k) (auto simp: pending_def)

definition enc_found :: "nat \<times> plan \<Rightarrow> nat \<times> dict" where
  "enc_found = (\<lambda>(i, p). (i, enc_plan p))"

lemma require_enc: "require_plan 0 (enc_plans ps) pid = map_sum id enc_found (reg_find ps pid)"
  by (auto simp: require_plan_enc reg_find_def enc_found_def split: option.splits)

lemma require_open_enc:
  "require_open_plan (JObj (enc_registry ps)) pid = map_sum id enc_found (reg_open ps pid)"
  by (cases "reg_find ps pid")
     (auto simp: require_open_plan_def require_enc reg_open_def enc_found_def refuse_closed_def
       enc_closed_def dindex_def split: option.splits)

lemma candidate_enc:
  "the_candidate none many (JObj (enc_registry ps)) = map_sum id enc_found (reg_candidate none many ps)"
proof -
  have ids: "py_map (\<lambda>c. dindex (snd c) ''id'') (map (\<lambda>(i, p). (i, enc_plan p)) cs) =
      Inr (map (\<lambda>c. JInt (p_id (snd c))) cs)" for cs
    by (induction cs) (auto simp: split_beta)
  show ?thesis
    by (auto simp: the_candidate_def open_candidates_enc reg_candidate_def enc_found_def ids [simplified]
        split: list.splits)
qed

lemma put_plan_enc: "put_plan (JObj (enc_registry ps)) i (enc_plan p) = enc_registry (ps[i := p])"
  by (simp add: put_plan_def enc_registry_def map_update)

lemma append_plan_enc:
  "append_plan (JObj (enc_registry ps)) (enc_plan p) = Inr (enc_registry (ps @ [p]))"
  by (simp add: append_plan_def enc_registry_def dindex_def)

lemma validate_enc:
  "validate_new_version_file env f (JObj (enc_registry ps)) = reg_validate env f ps"
  by (auto simp: validate_new_version_file_def reg_validate_def Let_def find_binding_enc
      py_bind_def split: sum.splits option.splits)



definition holds_registry :: "plan_world \<Rightarrow> plan list \<Rightarrow> bool" where
  "holds_registry w ps = (load_plans (pw_file w) = Inr (JObj (enc_registry ps)))"

definition plan_wf :: "plan \<Rightarrow> bool" where
  "plan_wf p = (p_versions p \<noteq> [] \<and>
     (case p_closed p of None \<Rightarrow> True | Some (m, _) \<Rightarrow> m \<in> set plan_close_modes))"

lemma derive_state_str_enc: "plan_wf p \<Longrightarrow> derive_state_str (JObj (enc_plan p)) = Inr (state_name p)"
  by (auto simp: derive_state_str_def plan_wf_def derive_state_def state_name_def enc_closed_def
      enc_takeoff_def plan_close_modes_def split: option.splits)

definition committed :: "plan list \<Rightarrow> plan \<Rightarrow> plan_world \<Rightarrow> plan_world" where
  "committed ps p w =
     \<lparr>pw_file = Parsed (JObj (enc_registry ps)), pw_revision = Suc (pw_revision w),
      pw_broadcasts = pw_broadcasts w @ [JInt (p_id p)]\<rparr>"

definition reply_for :: "plan \<Rightarrow> int option \<Rightarrow> reply" where
  "reply_for p v = \<lparr>re_plan = JInt (p_id p), re_v = map_option JInt v, re_state = state_name p\<rparr>"

lemma commit_enc:
  assumes "plan_wf p"
  shows "commit_plan env (enc_registry ps) (enc_plan p) (Inr (JInt (p_id p))) (map_option JInt v) w =
    (if writable env then (Inr (reply_for p v), committed ps p w) else (Inl (Raised OSError), w))"
  using assms
  by (simp add: commit_plan_def save_plans_def project_registry_enc derive_state_str_enc broadcast_def
      reply_for_def committed_def)

text \<open>How the typed verb's outcome shows in the world.\<close>

definition verb_outcome ::
  "plan_env \<Rightarrow> plan_world \<Rightarrow> (plan list \<times> plan \<times> int option) pl \<Rightarrow> reply pl \<times> plan_world" where
  "verb_outcome env w r =
     (case r of
        Inl e \<Rightarrow> (Inl e, w)
      | Inr (ps, p, v) \<Rightarrow>
          if writable env then (Inr (reply_for p v), committed ps p w) else (Inl (Raised OSError), w))"

lemma enc_plan_amended:
  "dict_put (dict_put (enc_plan p) ''versions'' (JArr (map enc_version (p_versions p) @ [JObj (version_dict (JInt v) r now t b (JStr n))])))
     ''takeoff'' JNull =
   enc_plan (p\<lparr>p_versions := p_versions p @ [\<lparr>ver_no = v, ver_file = r, ver_created = now,
     ver_trigger = t, ver_base = b, ver_note = Some n\<rparr>], p_takeoff := None\<rparr>)"
  by (simp add: enc_plan_def enc_version_def enc_takeoff_def)

lemma enc_plan_approved:
  "dict_put (enc_plan p) ''takeoff'' (JObj [(''v'', JInt v), (''at'', JStr now)]) =
   enc_plan (p\<lparr>p_takeoff := Some (v, now)\<rparr>)"
  by (simp add: enc_plan_def enc_takeoff_def)

lemma enc_plan_closed:
  "dict_put (enc_plan p) ''closed'' (JObj [(''as'', JStr m), (''at'', JStr now)]) =
   enc_plan (p\<lparr>p_closed := Some (m, now)\<rparr>)"
  by (simp add: enc_plan_def enc_closed_def)

lemma enc_plan_new:
  "[(''id'', JInt i), (''title'', JStr t), (''versions'', JArr [JObj (version_dict (JInt 1) r now trig b JNull)]),
    (''takeoff'', JNull), (''closed'', JNull)] =
   enc_plan \<lparr>p_id = i, p_title = t, p_versions = [\<lparr>ver_no = 1, ver_file = r, ver_created = now,
     ver_trigger = trig, ver_base = b, ver_note = None\<rparr>], p_takeoff = None, p_closed = None\<rparr>"
  by (simp add: enc_plan_def enc_version_def enc_takeoff_def enc_closed_def)

lemma reg_find_Some: "reg_find ps pid = Inr (i, p) \<Longrightarrow> i < length ps \<and> ps ! i = p \<and> p_id p = pid"
  by (auto simp: reg_find_def in_set_enumerate_eq split: option.splits dest!: find_Some_in)

lemma reg_open_Some:
  "reg_open ps pid = Inr (i, p) \<Longrightarrow> i < length ps \<and> ps ! i = p \<and> p_closed p = None \<and> p_id p = pid"
  by (cases "p_closed p")
     (auto simp: reg_open_def py_bind_Inr_iff split: option.splits dest!: reg_find_Some)

lemma reg_candidate_Some:
  assumes "reg_candidate none many ps = Inr (i, p)"
  shows "i < length ps \<and> ps ! i = p \<and> pending p"
proof -
  have "filter (\<lambda>(i, p). pending p) (enumerate 0 ps) = [(i, p)]"
    using assms by (auto simp: reg_candidate_def split: list.splits)
  then have "(i, p) \<in> set (filter (\<lambda>(i, p). pending p) (enumerate 0 ps))" by (metis list.set_intros(1))
  then show ?thesis by (auto simp: in_set_enumerate_eq)
qed

lemma present_refines:
  assumes "holds_registry w ps"
  shows "present env now f title base w = verb_outcome env w (reg_verb env now (Present f title base) ps)"
proof (cases "reg_validate env f ps")
  case (Inl e)
  then show ?thesis using assms
    by (simp add: present_def holds_registry_def validate_enc verb_outcome_def)
next
  case (Inr r)
  let ?p = "\<lparr>p_id = next_plan_id ps, p_title = title,
     p_versions = [\<lparr>ver_no = 1, ver_file = r, ver_created = now, ver_trigger = ''initial'',
                    ver_base = base, ver_note = None\<rparr>], p_takeoff = None, p_closed = None\<rparr>"
  have "plan_wf ?p" by (simp add: plan_wf_def)
  from commit_enc [OF this, of env "ps @ [?p]" "Some 1" w] Inr show ?thesis using assms
    by (simp add: present_def holds_registry_def validate_enc verb_outcome_def next_plan_id_enc Let_def
        enc_plan_new append_plan_enc del: enc_plan_fields)
qed


lemma amend_refines:
  assumes "holds_registry w ps" and wf: "\<And>p. p \<in> set ps \<Longrightarrow> plan_wf p"
  shows "amend env now f pid trigger base note w =
    verb_outcome env w (reg_verb env now (Amend f pid trigger base note) ps)"
proof (cases "trigger \<in> set plan_amend_triggers \<and> note \<noteq> None \<and> str_strip (the note) \<noteq> []")
  case False
  then show ?thesis by (auto simp: amend_def verb_outcome_def split: option.splits)
next
  case True
  then obtain n where nt: "note = Some n" "str_strip n \<noteq> []" by auto
  define target where "target = (case pid of Some i \<Rightarrow> reg_open ps i
                 | None \<Rightarrow> reg_candidate NoOpenLineage ManyOpenLineages ps)"
  have target: "resolve_target_plan_for_amend (JObj (enc_registry ps)) pid = map_sum id enc_found target"
    by (simp add: resolve_target_plan_for_amend_def require_open_enc candidate_enc target_def
        split: option.splits)
  show ?thesis
  proof (cases "reg_validate env f ps")
    case (Inl e)
    then show ?thesis using assms True nt
      by (simp add: amend_def holds_registry_def validate_enc verb_outcome_def)
  next
    case r: (Inr r)
    show ?thesis
    proof (cases target)
      case (Inl e)
      then show ?thesis using assms True nt r target
        by (simp add: amend_def holds_registry_def validate_enc verb_outcome_def target_def)
    next
      case (Inr ip)
      obtain i p where ip: "ip = (i, p)" by (cases ip)
      have "i < length ps \<and> ps ! i = p"
        using Inr ip by (auto simp: target_def split: option.splits dest: reg_open_Some reg_candidate_Some)
      then have "plan_wf p" using wf by auto
      then have ne: "p_versions p \<noteq> []" by (simp add: plan_wf_def)
      let ?v = "next_version (p_versions p)"
      let ?p' = "p\<lparr>p_versions := p_versions p @ [\<lparr>ver_no = ?v, ver_file = r, ver_created = now,
         ver_trigger = trigger, ver_base = base, ver_note = Some n\<rparr>], p_takeoff := None\<rparr>"
      have "plan_wf ?p'" using \<open>plan_wf p\<close> by (simp add: plan_wf_def)
      from commit_enc [OF this, of env "ps[i := ?p']" "Some ?v" w] show ?thesis
        using assms True nt r target Inr ip ne
        by (simp add: amend_def holds_registry_def validate_enc verb_outcome_def target_def enc_found_def
            next_version_enc enc_plan_amended put_plan_enc Let_def)
    qed
  qed
qed

lemma approve_refines:
  assumes "holds_registry w ps" and wf: "\<And>p. p \<in> set ps \<Longrightarrow> plan_wf p"
  shows "approve env now pid w = verb_outcome env w (reg_verb env now (Approve pid) ps)"
proof -
  define target where "target = (case pid of
                Some i \<Rightarrow> py_bind (reg_open ps i) (\<lambda>(j, p).
                  if p_takeoff p \<noteq> None then Inl (AlreadyApproved i) else Inr (j, p))
              | None \<Rightarrow> reg_candidate NothingToApprove ManyCandidates ps)"
  have target: "resolve_target_plan_for_approve (JObj (enc_registry ps)) pid = map_sum id enc_found target"
    by (auto simp: resolve_target_plan_for_approve_def require_open_enc candidate_enc target_def
        enc_found_def py_bind_def split: option.splits sum.splits)
  show ?thesis
  proof (cases target)
    case (Inl e)
    then show ?thesis using assms target
      by (simp add: approve_def holds_registry_def verb_outcome_def target_def)
  next
    case (Inr ip)
    obtain i p where ip: "ip = (i, p)" by (cases ip)
    have "i < length ps \<and> ps ! i = p"
      using Inr ip by (auto simp: target_def py_bind_Inr_iff split: option.splits if_splits
          dest: reg_open_Some reg_candidate_Some)
    then have "plan_wf p" using wf by auto
    then have ne: "p_versions p \<noteq> []" by (simp add: plan_wf_def)
    let ?v = "ver_no (last (p_versions p))"
    let ?p' = "p\<lparr>p_takeoff := Some (?v, now)\<rparr>"
    have "plan_wf ?p'" using \<open>plan_wf p\<close> by (simp add: plan_wf_def)
    from commit_enc [OF this, of env "ps[i := ?p']" "Some ?v" w] show ?thesis
      using assms target Inr ip ne
      by (simp add: approve_def holds_registry_def verb_outcome_def target_def enc_found_def
          enc_plan_approved put_plan_enc jlast_def last_map Let_def)
  qed
qed

lemma close_refines:
  assumes "holds_registry w ps" and wf: "\<And>p. p \<in> set ps \<Longrightarrow> plan_wf p"
  shows "close_plan env now pid close_as w = verb_outcome env w (reg_verb env now (Close pid close_as) ps)"
proof (cases "close_as \<in> set plan_close_modes")
  case False
  then show ?thesis by (simp add: close_plan_def verb_outcome_def)
next
  case mode: True
  show ?thesis
  proof (cases "reg_find ps pid")
    case (Inl e)
    then show ?thesis using assms mode
      by (simp add: close_plan_def holds_registry_def verb_outcome_def require_enc)
  next
    case (Inr ip)
    obtain i p where ip: "ip = (i, p)" by (cases ip)
    have at: "i < length ps" "ps ! i = p" "p_id p = pid" using reg_find_Some Inr ip by auto
    then have "plan_wf p" using wf by auto
    let ?p' = "p\<lparr>p_closed := Some (close_as, now)\<rparr>"
    have "plan_wf ?p'" using \<open>plan_wf p\<close> mode by (simp add: plan_wf_def)
    from commit_enc [OF this, of env "ps[i := ?p']" None w] show ?thesis
      using assms mode Inr ip at
      by (auto simp: close_plan_def holds_registry_def verb_outcome_def require_enc enc_found_def
          enc_plan_closed put_plan_enc Let_def refuse_closed_def enc_closed_def dindex_def
          split: option.splits)
  qed
qed

lemma verb_refines:
  assumes "holds_registry w ps" and "\<And>p. p \<in> set ps \<Longrightarrow> plan_wf p"
  shows "run_verb env now c w = verb_outcome env w (reg_verb env now c ps)"
  using assms
  by (cases c) (simp_all only: run_verb.simps present_refines amend_refines approve_refines close_refines)



subsection \<open>The registry's invariant\<close>

definition plan_ok :: "plan \<Rightarrow> bool" where
  "plan_ok p =
     (plan_wf p \<and> map ver_no (p_versions p) = [1..int (length (p_versions p))] \<and>
      (case p_takeoff p of None \<Rightarrow> True | Some (v, _) \<Rightarrow> v = int (length (p_versions p))))"

definition plan_files :: "plan list \<Rightarrow> string list" where
  "plan_files ps = concat (map (\<lambda>p. map (\<lambda>r. normpath (ver_file r)) (p_versions p)) ps)"

definition reg_ok :: "plan list \<Rightarrow> bool" where
  "reg_ok ps =
     (map p_id ps = [1..int (length ps)] \<and> list_all plan_ok ps \<and> distinct (plan_files ps))"

text \<open>A resolved session-relative path is in normal form.\<close>

definition canonical_env :: "plan_env \<Rightarrow> bool" where
  "canonical_env env = (\<forall>f r found. resolve_file env f = (Some r, found) \<longrightarrow> normpath r = r)"

lemma foldl_max_sorted: "sorted (a # xs) \<Longrightarrow> foldl max a xs = last (a # (xs :: int list))"
  by (induction xs arbitrary: a) (auto simp: max_def)

lemma last_upto: "1 \<le> n \<Longrightarrow> last [1..n] = (n :: int)"
  by (simp add: upto_rec2)

lemma foldl_max_upto: "a # xs = [1..n] \<Longrightarrow> foldl max a xs = (n :: int)"
proof -
  assume e: "a # xs = [1..n]"
  then have "1 \<le> n" by (cases "1 \<le> n") auto
  moreover have "sorted (a # xs)" using e sorted_upto [of 1 n] by simp
  ultimately show ?thesis using e foldl_max_sorted [of a xs] last_upto [of n] by simp
qed

lemma next_plan_id_ok: "map p_id ps = [1..int (length ps)] \<Longrightarrow> next_plan_id ps = int (length ps) + 1"
  by (cases ps) (auto simp: next_plan_id_def foldl_max_upto)

lemma next_version_ok:
  "vs \<noteq> [] \<Longrightarrow> map ver_no vs = [1..int (length vs)] \<Longrightarrow> next_version vs = int (length vs) + 1"
  by (cases vs) (auto simp: next_version_def foldl_max_upto)

lemma upto_snoc: "[1..int n] @ [int n + 1] = [1..int (Suc n)]"
  by (simp add: upto_rec2 [of 1 "1 + int n"])

lemma unbound_file: "binding_of ps f = None \<Longrightarrow> f \<notin> set (plan_files ps)"
  by (auto simp: binding_of_def find_None_iff_set plan_files_def)

lemma reg_validate_fresh:
  assumes "canonical_env env" and "reg_validate env f ps = Inr r"
  shows "normpath r = r \<and> r \<notin> set (plan_files ps)"
  using assms
  by (cases "binding_of ps r")
     (auto simp: reg_validate_def py_bind_Inr_iff validate_file_in_session_dir_def canonical_env_def
      unbound_file split: option.splits if_splits prod.splits)

lemma plan_files_update:
  assumes "i < length ps" and "ps ! i = p"
    and "map (\<lambda>r. normpath (ver_file r)) (p_versions p') = map (\<lambda>r. normpath (ver_file r)) (p_versions p) @ fs"
    and "distinct (plan_files ps)" and "distinct fs" and "set fs \<inter> set (plan_files ps) = {}"
  shows "distinct (plan_files (ps[i := p']))"
proof -
  have ps: "ps = take i ps @ p # drop (Suc i) ps" using assms(1,2) by (metis id_take_nth_drop)
  have ps': "ps[i := p'] = take i ps @ p' # drop (Suc i) ps"
    using assms(1) by (simp add: upd_conv_take_nth_drop)
  have a: "plan_files ps = plan_files (take i ps) @ map (\<lambda>r. normpath (ver_file r)) (p_versions p) @
      plan_files (drop (Suc i) ps)"
    by (subst ps) (simp add: plan_files_def)
  have b: "plan_files (ps[i := p']) = plan_files (take i ps) @ map (\<lambda>r. normpath (ver_file r)) (p_versions p) @ fs @
      plan_files (drop (Suc i) ps)"
    unfolding ps' by (simp add: plan_files_def assms(3))
  show ?thesis using assms(4-6) unfolding a b by auto
qed

lemma reg_ok_update:
  assumes "reg_ok ps" and "i < length ps" and "ps ! i = p" and "p_id p' = p_id p" and "plan_ok p'"
    and "map (\<lambda>r. normpath (ver_file r)) (p_versions p') = map (\<lambda>r. normpath (ver_file r)) (p_versions p) @ fs"
    and "distinct fs" and "set fs \<inter> set (plan_files ps) = {}"
  shows "reg_ok (ps[i := p'])"
proof -
  have "map p_id (ps[i := p']) = map p_id ps"
    using assms(2-4) by (simp add: map_update list_update_same_conv)
  moreover have "list_all plan_ok (ps[i := p'])"
    using assms(1,5) by (auto simp: reg_ok_def list_all_iff dest!: set_update_subset_insert [THEN subsetD])
  moreover have "distinct (plan_files (ps[i := p']))"
    using assms plan_files_update [of i ps p p' fs] by (simp add: reg_ok_def)
  ultimately show ?thesis using assms(1) by (simp add: reg_ok_def)
qed

lemma reg_ok_nth: "reg_ok ps \<Longrightarrow> i < length ps \<Longrightarrow> plan_ok (ps ! i)"
  by (simp add: reg_ok_def list_all_length)

lemma reg_verb_ok:
  assumes ok: "reg_ok ps" and env: "canonical_env env" and r: "reg_verb env now c ps = Inr (ps', p, v)"
  shows "reg_ok ps'"
proof (cases c)
  case (Present f title base)
  then obtain r where r': "reg_validate env f ps = Inr r"
    and ps': "ps' = ps @ [p]" and p: "p_id p = next_plan_id ps" "p_takeoff p = None" "p_closed p = None"
      "map ver_no (p_versions p) = [1]" "map ver_file (p_versions p) = [r]" "p_versions p \<noteq> []"
    using r by (auto simp: py_bind_Inr_iff Let_def)
  have "plan_ok p" using p by (auto simp: plan_ok_def plan_wf_def length_Suc_conv map_eq_Cons_conv)
  moreover have "plan_files ps' = plan_files ps @ [r]"
    using reg_validate_fresh [OF env r'] p by (auto simp: plan_files_def ps' map_eq_Cons_conv)
  ultimately show ?thesis
    using ok p reg_validate_fresh [OF env r'] upto_snoc [of "length ps"]
    by (simp add: reg_ok_def ps' next_plan_id_ok)
next
  case (Amend f pid trigger base nt)
  then obtain n r i q where r': "reg_validate env f ps = Inr r"
    and q: "(case pid of Some i \<Rightarrow> reg_open ps i
                 | None \<Rightarrow> reg_candidate NoOpenLineage ManyOpenLineages ps) = Inr (i, q)"
    and p: "p = q\<lparr>p_versions := p_versions q @ [\<lparr>ver_no = next_version (p_versions q), ver_file = r,
        ver_created = now, ver_trigger = trigger, ver_base = base, ver_note = Some n\<rparr>], p_takeoff := None\<rparr>"
    and ps': "ps' = ps[i := p]"
    using r by (auto simp: py_bind_Inr_iff Let_def split: option.splits if_splits)
  have i: "i < length ps" "ps ! i = q"
    using q by (auto split: option.splits dest: reg_open_Some reg_candidate_Some)
  then have "plan_ok q" using reg_ok_nth [OF ok] by auto
  then have "plan_ok p"
    using upto_snoc [of "length (p_versions q)"]
    by (simp add: plan_ok_def plan_wf_def p next_version_ok)
  then show ?thesis
    unfolding ps' using reg_validate_fresh [OF env r'] i ok
    by (intro reg_ok_update [where p = q and fs = "[r]"]) (simp_all add: p)
next
  case (Approve pid)
  then obtain i q where q: "i < length ps" "ps ! i = q"
    and p: "p = q\<lparr>p_takeoff := Some (ver_no (last (p_versions q)), now)\<rparr>" and ps': "ps' = ps[i := p]"
    using r by (auto simp: py_bind_Inr_iff Let_def split: option.splits if_splits
        dest: reg_open_Some reg_candidate_Some)
  have "plan_ok q" using q reg_ok_nth [OF ok] by auto
  moreover from this have "ver_no (last (p_versions q)) = int (length (p_versions q))"
    using last_upto [of "int (length (p_versions q))"]
    by (auto simp: plan_ok_def plan_wf_def last_map [symmetric] Suc_le_eq)
  ultimately have "plan_ok p" by (simp add: plan_ok_def plan_wf_def p)
  then show ?thesis unfolding ps' using q ok
    by (intro reg_ok_update [where p = q and fs = "[]"]) (simp_all add: p)
next
  case (Close pid close_as)
  then obtain i q where q: "i < length ps" "ps ! i = q" and m: "close_as \<in> set plan_close_modes"
    and p: "p = q\<lparr>p_closed := Some (close_as, now)\<rparr>" and ps': "ps' = ps[i := p]"
    using r by (auto simp: py_bind_Inr_iff Let_def split: option.splits if_splits dest!: reg_find_Some)
  have "plan_ok q" using q reg_ok_nth [OF ok] by auto
  then have "plan_ok p" using m by (cases "p_takeoff q") (auto simp: plan_ok_def plan_wf_def p)
  then show ?thesis unfolding ps' using q ok
    by (intro reg_ok_update [where p = q and fs = "[]"]) (simp_all add: p)
qed


inductive plan_reachable :: "plan_world \<Rightarrow> bool" where
  init: "plan_reachable \<lparr>pw_file = NoFile, pw_revision = 0, pw_broadcasts = []\<rparr>"
| verb: "plan_reachable w \<Longrightarrow> canonical_env env \<Longrightarrow> plan_reachable (snd (run_verb env now c w))"

lemma reg_ok_wf: "reg_ok ps \<Longrightarrow> p \<in> set ps \<Longrightarrow> plan_wf p"
  by (simp add: reg_ok_def list_all_iff plan_ok_def)

lemma committed_holds: "holds_registry (committed ps p w) ps"
  by (simp add: holds_registry_def committed_def load_plans_def)

lemma run_verb_registry:
  assumes "holds_registry w ps" and "reg_ok ps"
  obtains (refused) e where "run_verb env now c w = (Inl e, w)"
  | (accepted) ps' p v where "reg_verb env now c ps = Inr (ps', p, v)"
      and "run_verb env now c w = (Inr (reply_for p v), committed ps' p w)"
  using verb_refines [OF assms(1) reg_ok_wf [OF assms(2)], of env now c]
  by (cases "reg_verb env now c ps") (auto simp: verb_outcome_def split: if_splits)

lemma reachable_registry: "plan_reachable w \<Longrightarrow> \<exists>ps. holds_registry w ps \<and> reg_ok ps"
proof (induction rule: plan_reachable.induct)
  case init
  have "reg_ok []" by (simp add: reg_ok_def plan_files_def)
  then show ?case by (auto simp: holds_registry_def load_plans_def enc_registry_def intro!: exI [of _ "[]"])
next
  case (verb w env now c)
  then obtain ps where ps: "holds_registry w ps" "reg_ok ps" by blast
  then show ?case
  proof (cases rule: run_verb_registry [of w ps env now c])
    case (accepted ps' p v)
    then show ?thesis using reg_verb_ok [OF ps(2) verb(2)] by (auto intro: committed_holds)
  qed (use ps in auto)
qed

text \<open>How one plan may change under a verb.\<close>

definition plan_evolves :: "plan \<Rightarrow> plan \<Rightarrow> bool" where
  "plan_evolves p q =
     (p_id q = p_id p \<and> p_title q = p_title p \<and> prefix (p_versions p) (p_versions q) \<and>
      (p_closed p \<noteq> None \<longrightarrow> q = p) \<and>
      (p_takeoff p \<noteq> None \<longrightarrow> p_takeoff q = p_takeoff p \<and> p_versions q = p_versions p \<or>
         p_takeoff q = None \<and> p_versions q \<noteq> p_versions p))"

lemma plan_evolves_refl: "plan_evolves p p"
  by (simp add: plan_evolves_def)

lemma reg_verb_evolves:
  assumes "reg_verb env now c ps = Inr (ps', p, v)"
  shows "length ps \<le> length ps' \<and> (\<forall>i < length ps. plan_evolves (ps ! i) (ps' ! i))"
proof (cases c)
  case (Present f title base)
  then have "ps' = ps @ [p]" using assms by (auto simp: py_bind_Inr_iff Let_def)
  then show ?thesis by (simp add: nth_append plan_evolves_refl)
next
  case (Amend f pid trigger base nt)
  then obtain i q r where "i < length ps \<and> ps ! i = q \<and> p_closed q = None"
    and "p = q\<lparr>p_versions := p_versions q @ [r], p_takeoff := None\<rparr>" and "ps' = ps[i := p]"
    using assms by (fastforce simp: py_bind_Inr_iff Let_def pending_def split: option.splits if_splits
        dest: reg_open_Some reg_candidate_Some)
  then show ?thesis by (auto simp: nth_list_update plan_evolves_refl) (auto simp: plan_evolves_def)
next
  case (Approve pid)
  then obtain i q where t: "(case pid of
                Some i \<Rightarrow> py_bind (reg_open ps i) (\<lambda>(j, p).
                  if p_takeoff p \<noteq> None then Inl (AlreadyApproved i) else Inr (j, p))
              | None \<Rightarrow> reg_candidate NothingToApprove ManyCandidates ps) = Inr (i, q)"
    and p: "p = q\<lparr>p_takeoff := Some (ver_no (last (p_versions q)), now)\<rparr>" and ps': "ps' = ps[i := p]"
    using assms by (auto simp: py_bind_Inr_iff Let_def)
  have "i < length ps \<and> ps ! i = q \<and> p_closed q = None \<and> p_takeoff q = None"
  proof (cases pid)
    case None
    then show ?thesis using t reg_candidate_Some [of NothingToApprove ManyCandidates ps i q]
      by (simp add: pending_def)
  next
    case (Some j)
    then have "reg_open ps j = Inr (i, q) \<and> p_takeoff q = None"
      using t by (cases "p_takeoff q") (auto simp: py_bind_Inr_iff split: if_splits)
    then show ?thesis using reg_open_Some [of ps j i q] by simp
  qed
  then show ?thesis unfolding ps' p
    by (auto simp: nth_list_update plan_evolves_refl) (auto simp: plan_evolves_def)
next
  case (Close pid close_as)
  then obtain i q where q: "reg_find ps pid = Inr (i, q)" "p_closed q = None"
    and p: "p = q\<lparr>p_closed := Some (close_as, now)\<rparr>" and ps': "ps' = ps[i := p]"
    using assms by (auto simp: py_bind_Inr_iff Let_def split: option.splits if_splits)
  then have "i < length ps \<and> ps ! i = q" using reg_find_Some [of ps pid i q] by simp
  then show ?thesis unfolding ps' p using q(2)
    by (auto simp: nth_list_update plan_evolves_refl) (auto simp: plan_evolves_def)
qed

text \<open>
  C1. On a registry file the verbs wrote, each verb of the manager (present, amend,
  approve, close) does to the JSON exactly what the typed verb does to the registry: it
  refuses with the same error and leaves the file alone, or writes the encoding of the new
  registry, bumps the sidebar revision once, broadcasts the plan's id and replies with id,
  version and state; a failed write changes nothing.
\<close>

theorem verbs_refine_registry:
  assumes "holds_registry w ps" and "reg_ok ps"
  shows "run_verb env now c w = verb_outcome env w (reg_verb env now c ps)"
  by (rule verb_refines [OF assms(1) reg_ok_wf [OF assms(2)]])

text \<open>
  C28. The registry's invariant, from an absent file through any verbs in any environment:
  ids are 1..n, every plan's versions are numbered 1..m, an approval names the newest
  version, a close mode is one of the three, and no artifact backs two versions.
\<close>

theorem registry_invariant:
  assumes "plan_reachable w"
  shows "\<exists>ps. holds_registry w ps \<and> reg_ok ps"
  by (rule reachable_registry [OF assms])

text \<open>
  Lineages only grow: whatever verb runs next, every plan keeps its place, id and
  title, its versions are extended at most, a closed plan never changes again, and an
  approval is either kept with the same versions or dropped by an amendment.
\<close>

theorem lineages_only_grow:
  assumes "plan_reachable w" and "canonical_env env"
  shows "\<exists>ps ps'. holds_registry w ps \<and> reg_ok ps \<and>
    holds_registry (snd (run_verb env now c w)) ps' \<and> reg_ok ps' \<and> length ps \<le> length ps' \<and>
    (\<forall>i < length ps. plan_evolves (ps ! i) (ps' ! i))"
proof -
  obtain ps where ps: "holds_registry w ps" "reg_ok ps" using reachable_registry [OF assms(1)] by blast
  then show ?thesis
  proof (cases rule: run_verb_registry [of w ps env now c])
    case (refused e)
    then show ?thesis using ps by (auto simp: plan_evolves_refl intro!: exI [of _ ps])
  next
    case (accepted ps' p v)
    then have "holds_registry (snd (run_verb env now c w)) ps'" by (simp add: committed_holds)
    then show ?thesis using ps reg_verb_ok [OF ps(2) assms(2) accepted(1)] reg_verb_evolves [OF accepted(1)]
      by blast
  qed
qed

subsection \<open>A concrete session\<close>

definition demo_plan_env :: plan_env where
  "demo_plan_env =
     \<lparr>resolve_file = (\<lambda>f. if f = ''a.html'' then (Some ''a.html'', True) else (None, False)),
      failed_assertions = (\<lambda>_. []), writable = True\<rparr>"

lemma demo_plan_env_canonical: "canonical_env demo_plan_env"
proof -
  have "normpath ''a.html'' = ''a.html''" by code_simp
  then show ?thesis by (simp add: canonical_env_def demo_plan_env_def)
qed

definition demo_plan_start :: plan_world where
  "demo_plan_start = \<lparr>pw_file = NoFile, pw_revision = 0, pw_broadcasts = []\<rparr>"

definition demo_presented :: plan_world where
  "demo_presented = snd (run_verb demo_plan_env ''t0'' (Present ''./a.html'' ''T'' JNull) demo_plan_start)"

lemma demo_presented_reachable: "plan_reachable demo_presented"
  unfolding demo_presented_def demo_plan_start_def
  by (rule plan_reachable.verb [OF plan_reachable.init demo_plan_env_canonical])

theorem verbs_refine_registry_witness:
  "fst (run_verb demo_plan_env ''t0'' (Present ''./a.html'' ''T'' JNull) demo_plan_start) =
     Inr \<lparr>re_plan = JInt 1, re_v = Some (JInt 1), re_state = ''awaiting approval''\<rparr>"
proof -
  have h: "holds_registry demo_plan_start []"
    by (simp add: holds_registry_def demo_plan_start_def load_plans_def enc_registry_def)
  have ok: "reg_ok []" by (simp add: reg_ok_def plan_files_def)
  have n: "normpath ''./a.html'' = ''a.html''" by code_simp
  show ?thesis unfolding verbs_refine_registry [OF h ok]
    by (simp add: reg_validate_def validate_file_in_session_dir_def n demo_plan_env_def binding_of_def
        verb_outcome_def Let_def next_plan_id_def reply_for_def state_name_def)
qed

theorem registry_invariant_witness: "\<exists>ps. holds_registry demo_presented ps \<and> reg_ok ps"
  by (rule registry_invariant [OF demo_presented_reachable])

theorem lineages_only_grow_witness:
  "\<exists>ps ps'. holds_registry demo_presented ps \<and> reg_ok ps \<and>
    holds_registry (snd (run_verb demo_plan_env ''t1'' (Approve None) demo_presented)) ps' \<and> reg_ok ps' \<and>
    length ps \<le> length ps' \<and> (\<forall>i < length ps. plan_evolves (ps ! i) (ps' ! i))"
  by (rule lineages_only_grow [OF demo_presented_reachable demo_plan_env_canonical])


end
