(* ===== verification/Message_Events.thy ===== *)
theory Message_Events
  imports Prelude Event_Types "HOL-Library.Multiset"
begin

text \<open>
  \<open>src/core/message_events.py\<close>: shaping of raw chat events before aggregation. Upload
  references and the legacy attachment footer are normalised, and queued user messages are
  moved behind the run that was in progress when they arrived.
\<close>

definition attached_files_marker :: string where
  "attached_files_marker = [CHR 10, CHR 10] @ ''[Attached files]'' @ [CHR 10]"

definition rstrip_char :: "char \<Rightarrow> string \<Rightarrow> string" where
  "rstrip_char c s = rev (dropWhile (\<lambda>x. x = c) (rev s))"

definition filename_from_path :: "string \<Rightarrow> string" where
  "filename_from_path path =
     (let n = last (split_on (CHR ''/'')
                (rstrip_char (CHR ''/'') (map (\<lambda>c. if c = CHR 0x5C then CHR ''/'' else c) path)))
      in if n = [] then path else n)"

definition file_ref :: "string \<Rightarrow> json" where
  "file_ref path = JObj [(''filename'', JStr (filename_from_path path)), (''path'', JStr path)]"

definition serialize_uploaded_files :: "json \<Rightarrow> json list py" where
  "serialize_uploaded_files v =
     py_bind (if jtruthy v then jiter v else Inr [])
       (py_map (\<lambda>f. case f of JObj d \<Rightarrow> Inr (JObj d) | JStr s \<Rightarrow> Inr (file_ref s) | _ \<Rightarrow> Inl TypeError))"

text \<open>\<open>content.rpartition(marker)\<close> when the marker occurs: the parts around its last occurrence.\<close>

fun last_split :: "string \<Rightarrow> string \<Rightarrow> (string \<times> string) option" where
  "last_split p [] = (if p = [] then Some ([], []) else None)"
| "last_split p (c # cs) =
     (case last_split p cs of
        Some (a, b) \<Rightarrow> Some (c # a, b)
      | None \<Rightarrow> if prefix p (c # cs) then Some ([], drop (length p) (c # cs)) else None)"

text \<open>The lines of the footer; one that is not \<open>- path\<close> makes the whole content plain.\<close>

fun footer_files :: "string list \<Rightarrow> json list option" where
  "footer_files [] = Some []"
| "footer_files (l # ls) =
     (if \<not> prefix ''- '' l then None
      else let path = str_strip (drop 2 l) in
        if path = [] then None else map_option ((#) (file_ref path)) (footer_files ls))"

definition strip_attached_files_block :: "string \<Rightarrow> string \<times> json list" where
  "strip_attached_files_block content =
     (case last_split attached_files_marker content of
        None \<Rightarrow> (content, [])
      | Some (body, block) \<Rightarrow>
          (case footer_files (str_splitlines block) of
             None \<Rightarrow> (content, [])
           | Some files \<Rightarrow> (body, files)))"

text \<open>
  On content that is not a string: \<open>MARKER in content\<close> is a membership test on a list or
  object (a hit then fails on \<open>rpartition\<close>), and raises on the rest.
\<close>

definition strip_attached_value :: "json \<Rightarrow> (json \<times> json list) py" where
  "strip_attached_value content =
     (case content of
        JStr s \<Rightarrow> (let (body, files) = strip_attached_files_block s in Inr (JStr body, files))
      | JArr xs \<Rightarrow> if JStr attached_files_marker \<in> set xs then Inl AttributeError else Inr (content, [])
      | JObj d \<Rightarrow> if dhas d attached_files_marker then Inl AttributeError else Inr (content, [])
      | _ \<Rightarrow> Inl TypeError)"

definition normalize_user_message_event :: "dict \<Rightarrow> (json \<times> json list) py" where
  "normalize_user_message_event ev =
     (let content = dget_or ev ''content'' (JStr []) in
      py_bind (serialize_uploaded_files (dget ev ''uploaded_files'')) (\<lambda>files.
        if files \<noteq> [] then Inr (content, files) else strip_attached_value content))"

subsection \<open>The stable history order\<close>

definition opens_run :: "dict \<Rightarrow> bool" where
  "opens_run e = (dget e ''type'' = JNull \<and> jtruthy (dget e ''session_id''))"

definition is_event :: "string \<Rightarrow> dict \<Rightarrow> bool" where
  "is_event t e = (dget e ''type'' = JStr t)"

text \<open>The completed run intervals (start, end) of the events from index \<open>i\<close> on.\<close>

fun run_intervals :: "nat \<Rightarrow> nat option \<Rightarrow> dict list \<Rightarrow> (nat \<times> nat) list" where
  "run_intervals i start [] = []"
| "run_intervals i start (e # es) =
     (if opens_run e then run_intervals (Suc i) (Some i) es
      else if is_event ET_MASTER_DONE e then
        (case start of
           Some s \<Rightarrow> (s, i) # run_intervals (Suc i) None es
         | None \<Rightarrow> run_intervals (Suc i) None es)
      else run_intervals (Suc i) start es)"

text \<open>A tool-result carrier has \<open>message\<close> and no \<open>content\<close>; a slash command stays in place.\<close>

definition is_tool_carrier :: "dict \<Rightarrow> bool" where
  "is_tool_carrier e = (dhas e ''message'' \<and> \<not> dhas e ''content'')"

definition deferrable :: "dict \<Rightarrow> bool py" where
  "deferrable e =
     (if \<not> is_event ET_USER e \<or> is_tool_carrier e then Inr False
      else py_bind (normalize_user_message_event e) (\<lambda>(content, _).
             case content of JStr s \<Rightarrow> Inr (\<not> prefix ''/'' s) | _ \<Rightarrow> Inl AttributeError))"

fun deferred_in :: "(nat \<times> dict) list \<Rightarrow> (nat \<times> dict) list py" where
  "deferred_in [] = Inr []"
| "deferred_in (p # ps) =
     py_bind (deferrable (snd p)) (\<lambda>d. py_bind (deferred_in ps) (\<lambda>rest. Inr (if d then p # rest else rest)))"

definition between :: "dict list \<Rightarrow> nat \<times> nat \<Rightarrow> (nat \<times> dict) list" where
  "between events iv = drop (Suc (fst iv)) (take (snd iv) (enumerate 0 events))"

text \<open>\<open>deferred_by_end\<close>, one entry per completed interval.\<close>

definition deferred_by_end :: "dict list \<Rightarrow> (nat \<times> (nat \<times> dict) list) list py" where
  "deferred_by_end events =
     py_map (\<lambda>iv. py_bind (deferred_in (between events iv)) (\<lambda>d. Inr (snd iv, d)))
       (run_intervals 0 None events)"

definition project_order :: "(nat \<times> (nat \<times> dict) list) list \<Rightarrow> (nat \<times> dict) list \<Rightarrow> (nat \<times> dict) list" where
  "project_order by_end ps =
     concat (map (\<lambda>p.
       (if fst p \<in> set (concat (map (\<lambda>d. map fst (snd d)) by_end)) then [] else [p]) @
       (case map_of by_end (fst p) of None \<Rightarrow> [] | Some d \<Rightarrow> d)) ps)"

definition stable_history_projection :: "dict list \<Rightarrow> (nat \<times> dict) list py" where
  "stable_history_projection events =
     py_bind (deferred_by_end events) (\<lambda>by_end. Inr (project_order by_end (enumerate 0 events)))"

text \<open>The loop of \<open>stable_closed_prefix_len\<close>.\<close>

fun closed_prefix :: "nat \<Rightarrow> bool \<Rightarrow> nat \<Rightarrow> dict list \<Rightarrow> nat" where
  "closed_prefix idx is_open closed [] = closed"
| "closed_prefix idx is_open closed (e # es) =
     (let is_open' = (if opens_run e then True
                      else if is_event ET_MASTER_DONE e \<and> is_open then False else is_open)
      in closed_prefix (Suc idx) is_open' (if is_open' then closed else Suc idx) es)"

definition stable_closed_prefix_len :: "dict list \<Rightarrow> nat" where
  "stable_closed_prefix_len events = closed_prefix 0 False 0 events"


subsection \<open>Splitting at a closed prefix\<close>

text \<open>The interval still open after the events, if any.\<close>

fun run_open :: "nat \<Rightarrow> nat option \<Rightarrow> dict list \<Rightarrow> nat option" where
  "run_open i start [] = start"
| "run_open i start (e # es) =
     run_open (Suc i) (if opens_run e then Some i else if is_event ET_MASTER_DONE e then None else start) es"

abbreviation closed_events :: "dict list \<Rightarrow> bool" where
  "closed_events es \<equiv> run_open 0 None es = None"

definition shift :: "nat \<Rightarrow> nat \<times> 'a \<Rightarrow> nat \<times> 'a" where
  "shift k p = (k + fst p, snd p)"

lemma run_open_append: "run_open i st (xs @ ys) = run_open (i + length xs) (run_open i st xs) ys"
  by (induction xs arbitrary: i st) auto

lemma run_open_shift: "run_open (k + i) (map_option ((+) k) st) es = map_option ((+) k) (run_open i st es)"
proof (induction es arbitrary: i st)
  case (Cons e es)
  show ?case using Cons.IH [of "Suc i" "Some i"] Cons.IH [of "Suc i" None] Cons.IH [of "Suc i" st]
    by auto
qed simp

lemma closed_append: "closed_events xs \<Longrightarrow> closed_events ys \<Longrightarrow> closed_events (xs @ ys)"
  using run_open_shift [of "length xs" 0 None ys] by (simp add: run_open_append)

lemma run_intervals_append:
  "run_intervals i st (xs @ ys) =
     run_intervals i st xs @ run_intervals (i + length xs) (run_open i st xs) ys"
  by (induction xs arbitrary: i st) (auto split: option.splits)

lemma run_intervals_shift:
  "run_intervals (k + i) (map_option ((+) k) st) es = map (\<lambda>(s, e). (k + s, k + e)) (run_intervals i st es)"
proof (induction es arbitrary: i st)
  case (Cons e es)
  show ?case using Cons.IH [of "Suc i" "Some i"] Cons.IH [of "Suc i" None] Cons.IH [of "Suc i" st]
    by (cases st) auto
qed simp

lemma run_intervals_bounds:
  "iv \<in> set (run_intervals i st es) \<Longrightarrow> snd iv < i + length es"
  by (induction es arbitrary: i st) (fastforce split: if_splits option.splits)+

lemma enumerate_shift: "enumerate k xs = map (shift k) (enumerate 0 xs)"
  by (rule nth_equalityI) (auto simp: nth_enumerate_eq shift_def)

lemma between_left:
  assumes "snd iv < length xs" shows "between (xs @ ys) iv = between xs iv"
  using assms by (simp add: between_def enumerate_append_eq)

lemma between_right: "between (xs @ ys) (length xs + s, length xs + e) = map (shift (length xs)) (between ys (s, e))"
  by (simp add: between_def enumerate_append_eq enumerate_shift [of "length xs"] drop_map take_map)

lemma deferred_in_shift:
  "deferred_in (map (shift k) ps) = py_bind (deferred_in ps) (\<lambda>d. Inr (map (shift k) d))"
  by (induction ps) (auto simp: py_bind_def shift_def split: sum.splits)

lemma deferred_in_subset: "deferred_in ps = Inr d \<Longrightarrow> set d \<subseteq> set ps"
  by (induction ps arbitrary: d) (auto simp: py_bind_Inr_iff split: if_splits)

definition shift_entry :: "nat \<Rightarrow> nat \<times> (nat \<times> dict) list \<Rightarrow> nat \<times> (nat \<times> dict) list" where
  "shift_entry k d = (k + fst d, map (shift k) (snd d))"

lemma py_map_cong: "(\<And>x. x \<in> set xs \<Longrightarrow> f x = g x) \<Longrightarrow> py_map f xs = py_map g xs"
  by (induction xs) auto

lemma py_map_map: "py_map f (map g xs) = py_map (f \<circ> g) xs"
  by (induction xs) auto

lemma py_map_bind_Inr:
  "py_map (\<lambda>x. py_bind (f x) (\<lambda>y. Inr (h y))) xs = py_bind (py_map f xs) (\<lambda>ys. Inr (map h ys))"
  by (induction xs) (auto simp: py_bind_def split: sum.splits)

lemma deferred_by_end_append:
  assumes "closed_events xs"
  shows "deferred_by_end (xs @ ys) =
    py_bind (deferred_by_end xs) (\<lambda>a. py_bind (deferred_by_end ys) (\<lambda>b.
      Inr (a @ map (shift_entry (length xs)) b)))"
proof -
  let ?f = "\<lambda>es iv. py_bind (deferred_in (between es iv)) (\<lambda>d. Inr (snd iv, d)) :: (nat \<times> (nat \<times> dict) list) py"
  have ivs: "run_intervals 0 None (xs @ ys) =
      run_intervals 0 None xs @ map (\<lambda>(s, e). (length xs + s, length xs + e)) (run_intervals 0 None ys)"
    using assms run_intervals_shift [of "length xs" 0 None ys] by (simp add: run_intervals_append)
  have l: "py_map (?f (xs @ ys)) (run_intervals 0 None xs) = py_map (?f xs) (run_intervals 0 None xs)"
    by (rule py_map_cong) (auto dest: run_intervals_bounds simp: between_left)
  have r: "?f (xs @ ys) (case iv of (s, e) \<Rightarrow> (length xs + s, length xs + e)) =
      py_bind (?f ys iv) (\<lambda>d. Inr (shift_entry (length xs) d))" for iv
    by (cases iv) (auto simp: between_right deferred_in_shift shift_entry_def py_bind_def split: sum.splits)
  show ?thesis
    by (simp add: deferred_by_end_def ivs py_map_append l py_map_map comp_def r py_map_bind_Inr)
       (auto simp: py_bind_def split: sum.splits)
qed

lemma py_map_in: "py_map f xs = Inr ys \<Longrightarrow> y \<in> set ys \<Longrightarrow> \<exists>x \<in> set xs. f x = Inr y"
  by (induction xs arbitrary: ys) (auto simp: py_bind_Inr_iff)

lemma deferred_by_end_bounds:
  assumes "deferred_by_end xs = Inr by_end" and "d \<in> set by_end"
  shows "fst d < length xs" and "p \<in> set (snd d) \<Longrightarrow> fst p < length xs"
proof -
  obtain iv where iv: "iv \<in> set (run_intervals 0 None xs)" and d: "fst d = snd iv"
    and s: "deferred_in (between xs iv) = Inr (snd d)"
    using assms unfolding deferred_by_end_def by (fastforce simp: py_bind_Inr_iff dest: py_map_in)
  show "fst d < length xs" using run_intervals_bounds [OF iv] d by simp
  show "fst p < length xs" if "p \<in> set (snd d)"
  proof -
    have "p \<in> set (between xs iv)" using deferred_in_subset [OF s] that by blast
    then have "p \<in> set (enumerate 0 xs)" by (auto simp: between_def dest: in_set_dropD in_set_takeD)
    then show ?thesis by (simp add: in_set_enumerate_eq)
  qed
qed

lemma project_order_cong:
  assumes "\<And>p. p \<in> set ps \<Longrightarrow> fst p \<in> set (concat (map (\<lambda>d. map fst (snd d)) A)) \<longleftrightarrow>
      fst p \<in> set (concat (map (\<lambda>d. map fst (snd d)) B))"
    and "\<And>p. p \<in> set ps \<Longrightarrow> map_of A (fst p) = map_of B (fst p)"
  shows "project_order A ps = project_order B ps"
  unfolding project_order_def using assms
  by (intro arg_cong [where f = concat] map_cong) simp_all

lemma project_order_shift:
  "project_order (map (shift_entry k) B) (map (shift k) ps) = map (shift k) (project_order B ps)"
proof -
  have m: "map_of (map (shift_entry k) B) (k + i) = map_option (map (shift k)) (map_of B i)" for i
    by (induction B) (auto simp: shift_entry_def)
  have s: "k + i \<in> set (concat (map (\<lambda>d. map fst (snd d)) (map (shift_entry k) B))) \<longleftrightarrow>
      i \<in> set (concat (map (\<lambda>d. map fst (snd d)) B))" for i
    by (force simp: shift_entry_def shift_def image_iff)
  have step: "(if fst (shift k p) \<in> set (concat (map (\<lambda>d. map fst (snd d)) (map (shift_entry k) B))) then [] else [shift k p]) @
      (case map_of (map (shift_entry k) B) (fst (shift k p)) of None \<Rightarrow> [] | Some d \<Rightarrow> d) =
    map (shift k) ((if fst p \<in> set (concat (map (\<lambda>d. map fst (snd d)) B)) then [] else [p]) @
      (case map_of B (fst p) of None \<Rightarrow> [] | Some d \<Rightarrow> d))" for p
    using s [of "fst p"] m [of "fst p"] by (auto simp: shift_def split: option.splits)
  have cons: "project_order C (p # ps) =
      ((if fst p \<in> set (concat (map (\<lambda>d. map fst (snd d)) C)) then [] else [p]) @
       (case map_of C (fst p) of None \<Rightarrow> [] | Some d \<Rightarrow> d)) @ project_order C ps" for C p ps
    unfolding project_order_def list.map concat.simps ..
  show ?thesis
  proof (induction ps)
    case (Cons p ps)
    show ?case unfolding list.map cons step map_append Cons.IH ..
  qed (simp add: project_order_def)
qed

lemma project_order_append:
  assumes A: "\<And>d. d \<in> set A \<Longrightarrow> fst d < length xs" "\<And>d p. d \<in> set A \<Longrightarrow> p \<in> set (snd d) \<Longrightarrow> fst p < length xs"
  shows "project_order (A @ map (shift_entry (length xs)) B) (enumerate 0 (xs @ ys)) =
    project_order A (enumerate 0 xs) @ map (shift (length xs)) (project_order B (enumerate 0 ys))"
proof -
  let ?k = "length xs" and ?B = "map (shift_entry (length xs)) B"
  have en: "enumerate 0 (xs @ ys) = enumerate 0 xs @ map (shift ?k) (enumerate 0 ys)"
    by (simp add: enumerate_append_eq enumerate_shift [of ?k])
  have split: "project_order C (ps @ qs) = project_order C ps @ project_order C qs" for C ps qs
    by (simp add: project_order_def)
  have Bkey: "map_of ?B i = None" if "i < ?k" for i
    using that by (auto simp: map_of_eq_None_iff shift_entry_def)
  have Akey: "map_of A i = None" if "?k \<le> i" for i
    using that A(1) by (force simp: map_of_eq_None_iff)
  have 1: "project_order (A @ ?B) (enumerate 0 xs) = project_order A (enumerate 0 xs)"
    by (rule project_order_cong)
       (auto simp: in_set_enumerate_eq Bkey map_add_def shift_entry_def shift_def split: option.splits)
  have 2: "project_order (A @ ?B) (map (shift ?k) (enumerate 0 ys)) =
      project_order ?B (map (shift ?k) (enumerate 0 ys))"
  proof (rule project_order_cong)
    fix p assume "p \<in> set (map (shift ?k) (enumerate 0 ys))"
    then have p: "?k \<le> fst p" by (auto simp: shift_def)
    then show "fst p \<in> set (concat (map (\<lambda>d. map fst (snd d)) (A @ ?B))) \<longleftrightarrow>
        fst p \<in> set (concat (map (\<lambda>d. map fst (snd d)) ?B))"
      using A(2) by fastforce
    show "map_of (A @ ?B) (fst p) = map_of ?B (fst p)"
      using Akey [OF p] by (simp add: map_add_def split: option.splits)
  qed
  show ?thesis unfolding en split 1 2 project_order_shift ..
qed

text \<open>
  The order of a history that splits at a closed prefix is that of the prefix followed by
  that of the rest, its indices shifted.
\<close>

lemma stable_split:
  assumes "closed_events xs"
  shows "stable_history_projection (xs @ ys) =
    py_bind (stable_history_projection xs) (\<lambda>a. py_bind (stable_history_projection ys) (\<lambda>b.
      Inr (a @ map (shift (length xs)) b)))"
proof (cases "deferred_by_end xs")
  case (Inr A)
  note bd = deferred_by_end_bounds [OF Inr]
  show ?thesis
    using Inr project_order_append [of A xs _ ys] bd
    by (cases "deferred_by_end ys") (simp_all add: stable_history_projection_def deferred_by_end_append [OF assms])
qed (simp add: stable_history_projection_def deferred_by_end_append [OF assms])

text \<open>\<open>stable_closed_prefix_len\<close> finds the longest closed prefix.\<close>

definition closed_lengths :: "nat \<Rightarrow> nat option \<Rightarrow> dict list \<Rightarrow> nat list" where
  "closed_lengths idx st es = filter (\<lambda>j. run_open idx st (take j es) = None) [1..<Suc (length es)]"

lemma closed_lengths_Cons:
  "closed_lengths idx st (e # es) =
     (let st' = (if opens_run e then Some idx else if is_event ET_MASTER_DONE e then None else st)
      in (if st' = None then [1] else []) @ map Suc (closed_lengths (Suc idx) st' es))"
proof -
  have "[1..<Suc (length (e # es))] = 1 # map Suc [1..<Suc (length es)]"
    by (simp add: upt_conv_Cons map_Suc_upt del: upt_Suc)
  then show ?thesis
    by (simp add: closed_lengths_def Let_def filter_map comp_def del: upt_Suc)
qed

lemma closed_prefix_lengths:
  "is_open = (st \<noteq> None) \<Longrightarrow> closed_prefix idx is_open c es =
     (let js = closed_lengths idx st es in if js = [] then c else idx + last js)"
proof (induction es arbitrary: idx is_open st c)
  case Nil
  then show ?case by (simp add: closed_lengths_def)
next
  case (Cons e es)
  define st' where "st' = (if opens_run e then Some idx else if is_event ET_MASTER_DONE e then None else st)"
  have o': "(if opens_run e then True else if is_event ET_MASTER_DONE e \<and> is_open then False else is_open) = (st' \<noteq> None)"
    using Cons.prems by (auto simp: st'_def)
  have n: "closed_prefix idx is_open c (e # es) =
      closed_prefix (Suc idx) (st' \<noteq> None) (if st' \<noteq> None then c else Suc idx) es"
    by (simp only: closed_prefix.simps o' Let_def)
  have js: "closed_lengths idx st (e # es) =
      (if st' = None then [1] else []) @ map Suc (closed_lengths (Suc idx) st' es)"
    unfolding closed_lengths_Cons by (simp add: st'_def)
  show ?case unfolding n Cons.IH [OF refl] js
    by (cases "closed_lengths (Suc idx) st' es = []") (auto simp: Let_def last_map)
qed

lemma stable_closed_prefix:
  "stable_closed_prefix_len es =
     (let js = closed_lengths 0 None es in if js = [] then 0 else last js)"
  by (simp add: stable_closed_prefix_len_def closed_prefix_lengths [of False None] Let_def)

lemma stable_closed_prefix_closed:
  shows "stable_closed_prefix_len es \<le> length es"
    and "closed_events (take (stable_closed_prefix_len es) es)"
proof -
  let ?js = "closed_lengths 0 None es"
  have "?js \<noteq> [] \<Longrightarrow> last ?js \<in> set ?js" by simp
  then have *: "?js \<noteq> [] \<Longrightarrow> last ?js \<le> length es \<and> closed_events (take (last ?js) es)"
    unfolding closed_lengths_def by (auto simp del: upt_Suc)
  show "stable_closed_prefix_len es \<le> length es"
    using * by (simp add: stable_closed_prefix Let_def)
  show "closed_events (take (stable_closed_prefix_len es) es)"
    using * by (simp add: stable_closed_prefix Let_def)
qed

lemma closed_prefix_longest:
  assumes "stable_closed_prefix_len es < j" and "j \<le> length es"
  shows "\<not> closed_events (take j es)"
proof
  assume c: "closed_events (take j es)"
  let ?js = "closed_lengths 0 None es"
  have j: "j \<in> set ?js" using assms c by (simp add: closed_lengths_def del: upt_Suc)
  have "sorted ?js" by (simp add: closed_lengths_def sorted_wrt_filter del: upt_Suc)
  then have "j \<le> last ?js" using j by (metis in_set_conv_nth last_conv_nth length_pos_if_in_set
        list.size(3) less_Suc_eq_le not_less_zero Suc_pred' sorted_nth_mono diff_less zero_less_one)
  then show False using assms j by (auto simp: stable_closed_prefix Let_def split: if_splits)
qed


subsection \<open>The stable order is a permutation\<close>

lemma run_intervals_snd_ge: "iv \<in> set (run_intervals i st es) \<Longrightarrow> i \<le> snd iv"
  by (induction es arbitrary: i st) (fastforce split: if_splits option.splits)+

lemma run_intervals_ends: "distinct (map snd (run_intervals i st es))"
  by (induction es arbitrary: i st)
     (auto split: option.splits dest: run_intervals_snd_ge)

lemma between_subseq:
  assumes "es = drop i evs" and "i \<le> length evs" and "\<And>s. st = Some s \<Longrightarrow> s < i"
  shows "subseq (concat (map (between evs) (run_intervals i st es)))
    (drop (case st of None \<Rightarrow> i | Some s \<Rightarrow> Suc s) (enumerate 0 evs))"
  using assms
proof (induction es arbitrary: i st)
  case Nil
  then show ?case by simp
next
  case (Cons e es)
  let ?en = "enumerate 0 evs"
  have i: "i < length evs" using Cons.prems by (metis drop_all leI list.distinct(1))
  have es: "es = drop (Suc i) evs" using Cons.prems(1) by (metis drop_Suc list.sel(3) tl_drop)
  have mono: "j \<le> k \<Longrightarrow> subseq (drop k ?en) (drop j ?en)" for j k
    by (metis drop_drop le_add_diff_inverse2 suffix_drop suffix_imp_subseq)
  have IH: "subseq (concat (map (between evs) (run_intervals (Suc i) st' es)))
      (drop (case st' of None \<Rightarrow> Suc i | Some s \<Rightarrow> Suc s) ?en)" if "\<And>s. st' = Some s \<Longrightarrow> s < Suc i" for st'
    by (rule Cons.IH [OF es]) (use i that in auto)
  show ?case
  proof (cases "opens_run e")
    case True
    have "subseq (drop (Suc i) ?en) (drop (case st of None \<Rightarrow> i | Some s \<Rightarrow> Suc s) ?en)"
      using Cons.prems(3) by (cases st) (auto intro!: mono)
    then show ?thesis using True IH [of "Some i"] subseq_order.order_trans by auto
  next
    case nopen: False
    show ?thesis
    proof (cases "is_event ET_MASTER_DONE e")
      case True
      show ?thesis
      proof (cases st)
        case None
        then show ?thesis using nopen True IH [of None] mono [of i "Suc i"] subseq_order.order_trans by auto
      next
        case (Some s)
        have "drop (Suc s) ?en = drop (Suc s) (take i ?en) @ drop i ?en"
          using Cons.prems(3) [OF Some]
          by (metis Suc_leI append_take_drop_id drop_append diff_is_0_eq drop0 i length_enumerate length_take
              less_imp_le min.absorb2)
        moreover have "subseq (concat (map (between evs) (run_intervals (Suc i) None es))) (drop i ?en)"
          using IH [of None] mono [of i "Suc i"] subseq_order.order_trans by auto
        ultimately have "subseq (between evs (s, i) @ concat (map (between evs) (run_intervals (Suc i) None es)))
            (drop (Suc s) ?en)"
          by (simp only: between_def fst_conv snd_conv) (intro list_emb_append_mono; simp)
        then show ?thesis using nopen True Some by simp
      qed
    next
      case False
      have "subseq (drop (case st of None \<Rightarrow> Suc i | Some s \<Rightarrow> Suc s) ?en) (drop (case st of None \<Rightarrow> i | Some s \<Rightarrow> Suc s) ?en)"
        by (cases st) (auto intro!: mono)
      then show ?thesis using nopen False IH [of st] Cons.prems(3) subseq_order.order_trans
        by (auto simp: less_Suc_eq)
    qed
  qed
qed

lemma deferred_in_subseq: "deferred_in ps = Inr d \<Longrightarrow> subseq d ps"
  by (induction ps arbitrary: d) (auto simp: py_bind_Inr_iff split: if_splits)

lemma deferred_by_end_subseq:
  assumes "deferred_by_end evs = Inr by_end"
  shows "subseq (concat (map snd by_end)) (enumerate 0 evs)" and "map fst by_end = map snd (run_intervals 0 None evs)"
proof -
  have gen: "py_map (\<lambda>iv. py_bind (deferred_in (between evs iv)) (\<lambda>d. Inr (snd iv, d))) ivs = Inr b \<Longrightarrow>
      subseq (concat (map snd b)) (concat (map (between evs) ivs)) \<and> map fst b = map snd ivs" for ivs b
    by (induction ivs arbitrary: b) (auto simp: py_bind_Inr_iff deferred_in_subseq list_emb_append_mono)
  have "subseq (concat (map (between evs) (run_intervals 0 None evs))) (enumerate 0 evs)"
    using between_subseq [of evs 0 evs None] by simp
  then show "subseq (concat (map snd by_end)) (enumerate 0 evs)"
    using gen assms subseq_order.order_trans unfolding deferred_by_end_def by blast
  show "map fst by_end = map snd (run_intervals 0 None evs)"
    using gen assms unfolding deferred_by_end_def by blast
qed

lemma subseq_distinct: "subseq xs ys \<Longrightarrow> distinct ys \<Longrightarrow> distinct xs"
  by (induction rule: list_emb.induct) (auto dest: list_emb_set)

lemma mset_filter_in:
  assumes "distinct ys" and "distinct xs" and "set xs \<subseteq> set ys"
  shows "mset (filter (\<lambda>p. p \<in> set xs) ys) = mset xs"
proof -
  have "set (filter (\<lambda>p. p \<in> set xs) ys) = set xs" using assms(3) by auto
  then show ?thesis using assms(1,2) by (metis distinct_filter set_eq_iff_mset_eq_distinct)
qed

lemma index_in:
  assumes "set dl \<subseteq> set (enumerate 0 evs)" and "p \<in> set (enumerate 0 evs)"
  shows "fst p \<in> fst ` set dl \<longleftrightarrow> p \<in> set dl"
proof
  assume "fst p \<in> fst ` set dl"
  then obtain q where q: "q \<in> set dl" "fst q = fst p" by auto
  then have "q \<in> set (enumerate 0 evs)" using assms(1) by blast
  then have "snd q = snd p" using assms(2) q(2) by (simp add: in_set_enumerate_eq)
  then show "p \<in> set dl" using q by (metis prod_eq_iff)
qed simp

lemma mset_lookup_sum:
  assumes "distinct (map fst by_end)" and "distinct (map fst ps)" and "set (map fst by_end) \<subseteq> set (map fst ps)"
  shows "mset (concat (map (\<lambda>p. case map_of by_end (fst p) of None \<Rightarrow> [] | Some d \<Rightarrow> d) ps)) =
    mset (concat (map snd by_end))"
  using assms
proof (induction by_end)
  case Nil
  have "concat (map (\<lambda>p. []) ps) = []" by (induction ps) auto
  then show ?case by simp
next
  case (Cons kd b)
  obtain k d where kd: "kd = (k, d)" by (cases kd)
  let ?g = "\<lambda>p. case map_of b (fst p) of None \<Rightarrow> [] | Some d \<Rightarrow> d"
  have none: "map_of b k = None" using Cons.prems(1) kd by (auto simp: map_of_eq_None_iff)
  have ins: "distinct (map fst qs) \<Longrightarrow>
      mset (concat (map (\<lambda>p. case map_of (kd # b) (fst p) of None \<Rightarrow> [] | Some d \<Rightarrow> d) qs)) =
      (if k \<in> set (map fst qs) then mset d else {#}) + mset (concat (map ?g qs))" for qs
    by (induction qs) (auto simp: kd none)
  show ?case
    using Cons ins [OF Cons.prems(2)] kd by simp
qed

text \<open>
  The stable history order is a permutation of the history: every event keeps its
  original index and appears exactly once, whatever runs and queued users it holds.
\<close>

theorem stable_order_permutes:
  assumes "stable_history_projection evs = Inr ps"
  shows "mset ps = mset (enumerate 0 evs)"
proof -
  obtain b where b: "deferred_by_end evs = Inr b" and ps: "ps = project_order b (enumerate 0 evs)"
    using assms by (auto simp: stable_history_projection_def py_bind_Inr_iff)
  let ?en = "enumerate 0 evs" and ?dl = "concat (map snd b)"
  note sub = deferred_by_end_subseq [OF b]
  define D where "D = fst ` set ?dl"
  have idx: "set (concat (map (\<lambda>d. map fst (snd d)) b)) = D" unfolding D_def by force
  have dl: "set ?dl \<subseteq> set ?en" using list_emb_set [OF sub(1)] by auto
  have mem: "fst p \<in> D \<longleftrightarrow> p \<in> set ?dl" if "p \<in> set ?en" for p
    unfolding D_def by (rule index_in [OF dl that])
  have dist: "distinct ?dl" using subseq_distinct [OF sub(1)] by simp
  have po: "ps = concat (map (\<lambda>p. (if fst p \<in> D then [] else [p]) @
       (case map_of b (fst p) of None \<Rightarrow> [] | Some d \<Rightarrow> d)) ?en)"
    unfolding ps project_order_def idx ..
  have split: "mset (concat (map (\<lambda>p. (if fst p \<in> D then [] else [p]) @ f p) qs)) =
      mset (filter (\<lambda>p. fst p \<notin> D) qs) + mset (concat (map f qs))" for f :: "nat \<times> dict \<Rightarrow> (nat \<times> dict) list" and qs
    by (induction qs) auto
  have inserted: "mset (concat (map (\<lambda>p. case map_of b (fst p) of None \<Rightarrow> [] | Some d \<Rightarrow> d) ?en)) = mset ?dl"
  proof (rule mset_lookup_sum)
    show "distinct (map fst b)" using sub(2) run_intervals_ends by simp
    show "set (map fst b) \<subseteq> set (map fst ?en)"
      using deferred_by_end_bounds(1) [OF b] by auto
  qed simp
  have kept: "filter (\<lambda>p. fst p \<notin> D) ?en = filter (\<lambda>p. p \<notin> set ?dl) ?en"
    by (rule filter_cong [OF refl]) (simp only: mem)
  have moved: "mset (filter (\<lambda>p. p \<in> set ?dl) ?en) = mset ?dl"
    by (rule mset_filter_in [OF distinct_enumerate dist dl])
  have "mset ps = mset (filter (\<lambda>p. p \<notin> set ?dl) ?en) + mset (filter (\<lambda>p. p \<in> set ?dl) ?en)"
    unfolding po split inserted kept moved ..
  also have "\<dots> = mset ?en"
    using multiset_partition [of "mset ?en" "\<lambda>p. p \<in> set ?dl"] by (simp only: mset_filter union_commute)
  finally show ?thesis .
qed

definition queued_history :: "dict list" where
  "queued_history = [[(''session_id'', JStr ''run'')], [(''type'', JStr ''user''), (''content'', JStr ''queued'')],
     [(''type'', JStr ''master_done'')]]"

theorem stable_order_permutes_witness:
  "\<exists>ps. stable_history_projection queued_history = Inr ps \<and> map fst ps = [0, 2, 1] \<and>
     mset ps = mset (enumerate 0 queued_history)"
proof -
  have "case stable_history_projection queued_history of Inl _ \<Rightarrow> False | Inr ps \<Rightarrow> map fst ps = [0, 2, 1]"
    by code_simp
  then obtain ps where p: "stable_history_projection queued_history = Inr ps" "map fst ps = [0, 2, 1]"
    by (auto split: sum.splits)
  show ?thesis by (intro exI [of _ ps] conjI p stable_order_permutes [OF p(1)])
qed

end
