(* ===== verification/Message_Aggregator.thy ===== *)
theory Message_Aggregator
  imports Prelude Event_Types Message_Events
begin

text \<open>
  \<open>src/core/message_aggregator.py\<close>: the fold of raw chat events into message deltas (final)
  and stream deltas (the draft's snapshot). A tool row and a message are dictionaries, as in
  the code. An exception ends the fold; the state left behind by one is not modelled.

  \<open>render_env\<close> holds the standard-library text functions whose tables are not written out:
  \<open>str\<close> of a float, list or object, \<open>str.lower\<close>, \<open>str.capitalize\<close>, and \<open>round(x / 1000)\<close>
  of a float.
\<close>

record render_env =
  other_str :: "json \<Rightarrow> string"
  lower_str :: "string \<Rightarrow> string"
  capitalize_str :: "string \<Rightarrow> string"
  float_k :: "int \<Rightarrow> int \<Rightarrow> int"

abbreviation fstr :: "render_env \<Rightarrow> json \<Rightarrow> string" where
  "fstr env v \<equiv> py_str (other_str env) v"

text \<open>\<open>a or b\<close>; and \<open>d.get(k, v)\<close> on a value of unknown shape.\<close>

definition py_or :: "json \<Rightarrow> json \<Rightarrow> json" where
  "py_or a b = (if jtruthy a then a else b)"

fun jget_or :: "json \<Rightarrow> string \<Rightarrow> json \<Rightarrow> json py" where
  "jget_or (JObj d) k v = Inr (dget_or d k v)"
| "jget_or _ k v = Inl AttributeError"

subsection \<open>Tool previews\<close>

definition tool_preview_chars :: nat where "tool_preview_chars = 500"

definition over_cap :: "json \<Rightarrow> bool" where
  "over_cap v = (case v of JStr s \<Rightarrow> str_len s > tool_preview_chars | _ \<Rightarrow> False)"

definition cut :: "json \<Rightarrow> json" where
  "cut v = (case v of JStr s \<Rightarrow> JStr (str_take tool_preview_chars s) | _ \<Rightarrow> v)"

definition input_over_cap :: "json \<Rightarrow> bool" where
  "input_over_cap v = (case v of JObj d \<Rightarrow> list_ex (\<lambda>e. over_cap (snd e)) d | _ \<Rightarrow> False)"

definition cut_input :: "json \<Rightarrow> json" where
  "cut_input v = (case v of
     JObj d \<Rightarrow> JObj (map (\<lambda>e. (fst e, if over_cap (snd e) then cut (snd e) else snd e)) d) | _ \<Rightarrow> v)"

definition tool_preview :: "dict \<Rightarrow> dict" where
  "tool_preview tool =
     (let output = dget tool ''output'';
          inp = dget tool ''input'';
          p1 = (if over_cap output
                then dict_put (dict_put tool ''output'' (cut output)) ''output_truncated'' (JBool True)
                else tool)
      in if input_over_cap inp
         then dict_put (dict_put p1 ''input'' (cut_input inp)) ''input_truncated'' (JBool True)
         else p1)"

subsection \<open>One-line messages\<close>

definition right_arrow :: string where "right_arrow = [CHR 0xE2, CHR 0x86, CHR 0x92]"
definition check_mark :: string where "check_mark = [CHR 0xE2, CHR 0x9C, CHR 0x93]"
definition cross_mark :: string where "cross_mark = [CHR 0xE2, CHR 0x9C, CHR 0x97]"

definition extract_tool_result_text :: "render_env \<Rightarrow> dict \<Rightarrow> string py" where
  "extract_tool_result_text env block =
     (let raw = dget_or block ''content'' (JStr []) in
      case raw of
        JArr ps \<Rightarrow> str_join_parts [CHR 10] (List.map_filter (block_field ''text'' ''text'') ps)
      | _ \<Rightarrow> Inr (fstr env raw))"

definition system_line :: "string \<Rightarrow> dict" where
  "system_line content = [(''role'', JStr ''system''), (''content'', JStr content)]"

definition handler_result_msg :: "render_env \<Rightarrow> dict \<Rightarrow> dict" where
  "handler_result_msg env ev =
     system_line ((if dget ev ''status'' = JStr ''ok'' then check_mark else cross_mark) @ '' '' @
       fstr env (dget_or ev ''task'' (JStr [])) @ '': '' @ fstr env (dget_or ev ''message'' (JStr [])))"

definition compacting_model_note :: "render_env \<Rightarrow> dict \<Rightarrow> string" where
  "compacting_model_note env ev =
     (case dget ev ''model'' of
        JStr m \<Rightarrow>
          if m = [] then []
          else let parts = split_on (CHR ''-'') (lower_str env m);
                   family = (if length parts > 1 \<and> parts ! 0 = ''claude'' then parts ! 1 else parts ! 0)
               in ''by '' @ capitalize_str env family
      | _ \<Rightarrow> [])"

definition round_k :: "int \<Rightarrow> int" where
  "round_k n = (let q = n div 1000; r = n mod 1000 in
     if r < 500 \<or> (r = 500 \<and> even q) then q else q + 1)"

definition tokens_k :: "render_env \<Rightarrow> json \<Rightarrow> string py" where
  "tokens_k env v =
     (case v of
        JInt n \<Rightarrow> Inr (int_str (round_k n))
      | JBool b \<Rightarrow> Inr (int_str (round_k (of_bool b)))
      | JFloat m e \<Rightarrow> Inr (int_str (float_k env m e))
      | _ \<Rightarrow> Inl TypeError)"

definition context_compacted_msg :: "render_env \<Rightarrow> dict \<Rightarrow> dict py" where
  "context_compacted_msg env ev =
     (let qualifiers = filter jtruthy
            [dget_or ev ''trigger'' (JStr ''auto''), JStr (compacting_model_note env ev)];
          pre = dget ev ''pre_tokens''
      in py_bind (if qualifiers = [] then Inr []
                  else py_bind (str_join_parts '', '' qualifiers) (\<lambda>q. Inr ('' ('' @ q @ '')''))) (\<lambda>a.
         py_bind (if jtruthy pre
                  then py_bind (tokens_k env pre) (\<lambda>k. Inr ('' '' @ em_dash @ '' was '' @ k @ ''k tokens''))
                  else Inr []) (\<lambda>b.
           Inr (system_line (''Context compacted'' @ a @ b) @ [(''kind'', JStr ''context_compacted'')]))))"

definition context_compact_failed_msg :: "render_env \<Rightarrow> dict \<Rightarrow> dict" where
  "context_compact_failed_msg env ev =
     (let err = dget ev ''error'';
          note = compacting_model_note env ev;
          head = (if note \<noteq> [] then ''Compaction '' @ note @ '' failed'' else ''Compaction failed'')
      in [(''role'', JStr ''system''), (''kind'', JStr ''context_compact_failed''),
          (''content'', JStr (if \<not> jtruthy err then head
                            else head @ '' '' @ em_dash @ '' '' @ fstr env err))])"

definition claude_account_login_required_msg :: "dict \<Rightarrow> dict" where
  "claude_account_login_required_msg ev =
     [(''role'', JStr ''system''), (''kind'', JStr ''claude_account_login_required''),
      (''content'', JStr ''One account in the Claude pool needs a new login; see the usage panel.'')]"

definition resume_context_dropped_msg :: "dict \<Rightarrow> dict" where
  "resume_context_dropped_msg ev =
     (let reason = dget ev ''reason'';
          msg = (if reason = JStr ''anchor_missing''
                 then ''Context not resumed: no previous session anchor was found''
                 else if reason = JStr ''transcript_missing''
                 then ''Context not resumed: the previous session transcript is missing''
                 else ''Context not resumed'')
      in system_line (msg @ '' '' @ em_dash @ '' started a new conversation''))"

definition system_msg :: "dict \<Rightarrow> dict option" where
  "system_msg ev =
     (if dget ev ''subtype'' \<noteq> JStr ''tui_menu_dismissed'' then None
      else Some [(''role'', JStr ''system''), (''content'', dget_or ev ''content'' (JStr []))])"

definition backend_switched_msg :: "render_env \<Rightarrow> dict \<Rightarrow> dict" where
  "backend_switched_msg env ev =
     system_line (''Backend switched: '' @ fstr env (dget_or ev ''from'' (JStr [])) @ '' '' @ right_arrow @ '' '' @
       fstr env (dget_or ev ''to'' (JStr [])))"

definition backend_overlay_inactive_msg :: "render_env \<Rightarrow> dict \<Rightarrow> dict" where
  "backend_overlay_inactive_msg env ev =
     (if dget ev ''reason'' = JStr ''unreadable''
      then system_line (''Backend '' @ fstr env (dget_or ev ''backend'' (JStr [])) @ '': prompt_overlay '' @ [CHR 39] @
             fstr env (dget_or ev ''overlay'' (JStr [])) @ [CHR 39] @ '' could not be loaded ('' @
             fstr env (dget_or ev ''error'' (JStr [])) @ '') '' @ em_dash @ '' running without a fence'')
      else system_line (''Backend '' @ fstr env (dget_or ev ''backend'' (JStr [])) @
             '' declares no prompt_overlay '' @ em_dash @ '' running without a fence''))"

definition model_fallback_notice_msg :: "render_env \<Rightarrow> dict \<Rightarrow> dict py" where
  "model_fallback_notice_msg env ev =
     py_bind (jiter (py_or (dget ev ''served_models'') (JArr []))) (\<lambda>models.
       py_bind (str_join_parts '', '' models) (\<lambda>served.
         Inr (system_line (''Served by '' @ served @ '' (configured '' @
           fstr env (py_or (dget ev ''configured_model'') (JStr [])) @ '')''))))"

definition scheduled_run_skipped_msg :: "render_env \<Rightarrow> dict \<Rightarrow> dict" where
  "scheduled_run_skipped_msg env ev =
     system_line (''Scheduled run of '' @ [CHR 39] @ fstr env (dget_or ev ''task'' (JStr [])) @ [CHR 39] @
       '' skipped at '' @ fstr env (dget_or ev ''skipped_at'' (JStr [])) @ '': '' @
       fstr env (dget_or ev ''reason'' (JStr [])))"

definition task_delegated_msg :: "dict \<Rightarrow> dict" where
  "task_delegated_msg ev =
     [(''role'', JStr ET_TASK_DELEGATED), (''content'', JStr ''Task delegated''),
      (''thread_id'', dget_or ev ''thread_id'' (JStr [])),
      (''delegate_invocation'', dget ev ''delegate_invocation''),
      (''backend'', py_or (py_or (dget ev ''backend'') (dget ev ''resolved_backend'')) (JStr [])),
      (''model'', py_or (py_or (dget ev ''model'') (dget ev ''resolved_model'')) (JStr [])),
      (''timestamp'', py_or (dget ev ''timestamp'') (dget ev ''created_at''))]"

text \<open>The dispatch table: None for an event type without a handler.\<close>

definition simple_handler :: "render_env \<Rightarrow> string \<Rightarrow> dict \<Rightarrow> dict option py option" where
  "simple_handler env t ev =
     (if t = ET_MASTER_DONE then
        Some (Inr (if jtruthy (dget ev ET_STILL_THINKING) then None
                   else Some [(''role'', JStr ''separator''), (ET_THINKING_SECONDS, dget ev ET_THINKING_SECONDS)]))
      else if t = ET_ASSISTANT_ERROR then
        Some (Inr (Some (system_line (''Error: '' @ fstr env (dget_or ev ''content'' (JStr []))))))
      else if t = ET_ERROR then
        Some (Inr (Some (system_line (''Error: '' @ fstr env
          (py_or (py_or (dget ev ''content'') (dget ev ''message'')) (JStr ''Unknown error''))))))
      else if t = ET_TASK_DELEGATED then Some (Inr (Some (task_delegated_msg ev)))
      else if t = ET_WORKER_SUMMARY then
        Some (Inr (Some ([(''role'', JStr ET_WORKER_SUMMARY), (''content'', dget_or ev ''content'' (JStr [])),
          (''thread_id'', dget ev ''thread_id'')] @
          (if dget ev ''origin_session_id'' \<noteq> JNull
           then [(''origin_session_id'', dget ev ''origin_session_id'')] else []))))
      else if t = ''handler_result'' then Some (Inr (Some (handler_result_msg env ev)))
      else if t = ''context_compacted'' then Some (py_bind (context_compacted_msg env ev) (\<lambda>m. Inr (Some m)))
      else if t = ''context_compact_failed'' then Some (Inr (Some (context_compact_failed_msg env ev)))
      else if t = ''resume_context_dropped'' then Some (Inr (Some (resume_context_dropped_msg ev)))
      else if t = ''claude_account_login_required'' then Some (Inr (Some (claude_account_login_required_msg ev)))
      else if t = ET_SYSTEM then Some (Inr (system_msg ev))
      else if t = ET_CLONE_START then
        Some (Inr (Some [(''role'', JStr ET_CLONE_START),
          (''content'', dget_or ev ''parent_session_name'' (JStr ''Unknown session'')),
          (''parent_session_id'', dget_or ev ''parent_session_id'' (JStr []))]))
      else if t = ET_SCHEDULED_TRIGGER then
        Some (Inr (Some [(''role'', JStr ET_SCHEDULED_TRIGGER), (''content'', dget_or ev ''content'' (JStr []))]))
      else if t = ET_AGENT_MESSAGE then
        Some (Inr (Some [(''role'', JStr ET_AGENT_MESSAGE), (''content'', dget_or ev ''content'' (JStr [])),
          (''from_session'', dget_or ev ''from_session'' (JStr [])),
          (''from_session_name'', dget_or ev ''from_session_name'' (JStr []))]))
      else if t = ET_SLACK_REPLY then
        Some (Inr (Some (system_line (''Posted to Slack: '' @ fstr env (dget_or ev ''content'' (JStr []))))))
      else if t = ''backend_switched'' then Some (Inr (Some (backend_switched_msg env ev)))
      else if t = ''backend_overlay_inactive'' \<or> t = ''backend_overlay_undeclared''
        then Some (Inr (Some (backend_overlay_inactive_msg env ev)))
      else if t = ''model_fallback_notice'' then Some (py_bind (model_fallback_notice_msg env ev) (\<lambda>m. Inr (Some m)))
      else if t = ''scheduled_run_skipped'' then Some (Inr (Some (scheduled_run_skipped_msg env ev)))
      else None)"

subsection \<open>The aggregator\<close>

datatype delta = Message dict | Stream dict

record aggregator =
  ag_offset :: nat
  ag_processed :: nat
  ag_text :: string
  ag_thinking :: string
  ag_last_ts :: json
  ag_last_idx :: nat
  ag_last_id :: "string option"
  ag_tools :: "dict list"
  ag_emit :: bool

definition new_aggregator :: "nat \<Rightarrow> bool \<Rightarrow> aggregator" where
  "new_aggregator offset emit =
     \<lparr>ag_offset = offset, ag_processed = 0, ag_text = [], ag_thinking = [], ag_last_ts = JNull,
      ag_last_idx = 0, ag_last_id = None, ag_tools = [], ag_emit = emit\<rparr>"

type_synonym fed = "delta list \<times> aggregator"

definition nat_str :: "nat \<Rightarrow> string" where
  "nat_str n = int_str (int n)"

definition legacy_id :: "nat \<Rightarrow> string" where
  "legacy_id idx = ''legacy:'' @ nat_str idx"

definition pending_draft_message :: "aggregator \<Rightarrow> dict option" where
  "pending_draft_message a =
     (if ag_text a = [] \<and> ag_tools a = [] \<and> ag_thinking a = [] then None
      else Some
        ([(''role'', JStr ''assistant''), (''content'', JStr (ag_text a)),
          (''event_index'', JInt (int (ag_last_idx a))),
          (''id'', JStr (case ag_last_id a of None \<Rightarrow> legacy_id (ag_last_idx a)
                       | Some i \<Rightarrow> if i = [] then legacy_id (ag_last_idx a) else i)),
          (''timestamp'', ag_last_ts a)] @
         (if ag_tools a \<noteq> [] then [(''tools'', JArr (map JObj (ag_tools a)))] else []) @
         (if ag_thinking a \<noteq> [] then [(''thinking'', JStr (ag_thinking a))] else [])))"

definition flush_to_message_delta :: "aggregator \<Rightarrow> fed" where
  "flush_to_message_delta a =
     (case pending_draft_message a of
        None \<Rightarrow> ([], a)
      | Some m \<Rightarrow> ([Message m], a\<lparr>ag_text := [], ag_thinking := [], ag_last_ts := JNull,
                               ag_last_id := None, ag_tools := []\<rparr>))"

definition flush_pending :: "aggregator \<Rightarrow> fed" where
  "flush_pending a = flush_to_message_delta a"

definition buffer_tool :: "json \<Rightarrow> json \<Rightarrow> aggregator \<Rightarrow> aggregator" where
  "buffer_tool name inp a =
     a\<lparr>ag_tools := ag_tools a @
       [tool_preview [(''name'', name), (''input'', inp), (''output'', JStr []), (''is_error'', JBool False)]]\<rparr>"

text \<open>\<open>self._tools_buf[-1]\<close>; callers have checked that there is one.\<close>

definition attach_tool_output :: "json \<Rightarrow> json \<Rightarrow> aggregator \<Rightarrow> aggregator" where
  "attach_tool_output output is_error a =
     a\<lparr>ag_tools := butlast (ag_tools a) @
       [tool_preview (dict_put (dict_put (last (ag_tools a)) ''output'' output)
                      ''is_error'' (JBool (jtruthy is_error)))]\<rparr>"

text \<open>The stream delta; its tool rows go through \<open>tool_preview\<close> once more.\<close>

definition stream_delta :: "aggregator \<Rightarrow> delta list" where
  "stream_delta a =
     (if \<not> ag_emit a then []
      else case pending_draft_message a of
             None \<Rightarrow> []
           | Some m \<Rightarrow>
               [Stream (if ag_tools a \<noteq> []
                        then dict_put m ''tools'' (JArr (map (\<lambda>t. JObj (tool_preview t)) (ag_tools a)))
                        else m)])"

definition streamed :: "aggregator \<Rightarrow> fed" where
  "streamed a = (stream_delta a, a)"

definition event_id :: "render_env \<Rightarrow> dict \<Rightarrow> nat \<Rightarrow> string" where
  "event_id env ev idx = (if jtruthy (dget ev ''id'') then fstr env (dget ev ''id'') else legacy_id idx)"

text \<open>A user event that only carries tool results.\<close>

fun attach_results :: "render_env \<Rightarrow> json list \<Rightarrow> aggregator \<Rightarrow> aggregator py" where
  "attach_results env [] a = Inr a"
| "attach_results env (b # bs) a =
     (case b of
        JObj block \<Rightarrow>
          if dget block ''type'' = JStr ET_TOOL_RESULT \<and> ag_tools a \<noteq> []
          then py_bind (extract_tool_result_text env block) (\<lambda>out.
                 attach_results env bs
                   (attach_tool_output (JStr out) (dget_or block ''is_error'' (JBool False)) a))
          else attach_results env bs a
      | _ \<Rightarrow> attach_results env bs a)"

definition feed_user :: "render_env \<Rightarrow> dict \<Rightarrow> nat \<Rightarrow> aggregator \<Rightarrow> fed py" where
  "feed_user env ev idx a =
     (if dhas ev ''message'' \<and> \<not> dhas ev ''content'' then
        py_bind (jget_or (py_or (dget ev ''message'') (JObj [])) ''content'' (JArr [])) (\<lambda>blocks.
          py_bind (jiter blocks) (\<lambda>bs.
            py_bind (attach_results env bs a) (\<lambda>a'. Inr (streamed a'))))
      else
        (let (ds, a') = flush_to_message_delta a in
         py_bind (normalize_user_message_event ev) (\<lambda>(content, files).
           Inr (ds @ [Message
             [(''role'', JStr ''user''), (''content'', content), (''uploaded_files'', JArr files),
              (''is_voice'', dget_or ev ''is_voice'' (JBool False)), (''event_index'', JInt (int idx)),
              (''id'', JStr (event_id env ev idx)), (''timestamp'', dget ev ''timestamp'')]], a'))))"

definition plan_message :: "json \<Rightarrow> nat \<Rightarrow> string \<Rightarrow> json \<Rightarrow> delta" where
  "plan_message content idx ev_id ts =
     Message [(''role'', JStr ''plan''), (''content'', content), (''event_index'', JInt (int idx)),
              (''id'', JStr ev_id), (''timestamp'', ts)]"

definition is_tool_use :: "dict \<Rightarrow> bool" where
  "is_tool_use b = (dget b ''type'' = JStr ET_TOOL_USE)"

text \<open>The first loop over an assistant message's blocks: plans.\<close>

fun plan_blocks :: "dict \<Rightarrow> nat \<Rightarrow> string \<Rightarrow> json list \<Rightarrow> aggregator \<Rightarrow> fed py" where
  "plan_blocks ev idx ev_id [] a = Inr ([], a)"
| "plan_blocks ev idx ev_id (b # bs) a =
     (case b of
        JObj d \<Rightarrow>
          if is_tool_use d \<and> dget d ''name'' = JStr ''ExitPlanMode'' then
            py_bind (jget_or (py_or (dget d ''input'') (JObj [])) ''plan'' (JStr [])) (\<lambda>plan_text.
              let (ds, a') =
                (if jtruthy plan_text then
                   (let (fs, a1) = flush_to_message_delta a
                    in (fs @ [plan_message plan_text idx ev_id (dget ev ''timestamp'')], a1))
                 else if ag_text a \<noteq> [] then
                   ([plan_message (JStr (ag_text a)) idx ev_id (ag_last_ts a)],
                    a\<lparr>ag_text := [], ag_last_ts := JNull, ag_last_id := None\<rparr>)
                 else ([], a))
              in py_bind (plan_blocks ev idx ev_id bs a') (\<lambda>(ds', a''). Inr (ds @ ds', a'')))
          else plan_blocks ev idx ev_id bs a
      | _ \<Rightarrow> plan_blocks ev idx ev_id bs a)"

text \<open>The second loop: the other tools open a buffered slot each.\<close>

fun tool_blocks :: "json list \<Rightarrow> aggregator \<Rightarrow> aggregator" where
  "tool_blocks [] a = a"
| "tool_blocks (b # bs) a =
     (case b of
        JObj d \<Rightarrow>
          if is_tool_use d \<and> dget d ''name'' \<noteq> JStr ''ExitPlanMode''
          then tool_blocks bs (buffer_tool (dget_or d ''name'' (JStr [])) (dget_or d ''input'' (JObj [])) a)
          else tool_blocks bs a
      | _ \<Rightarrow> tool_blocks bs a)"

definition has_draft :: "aggregator \<Rightarrow> bool" where
  "has_draft a = (ag_text a \<noteq> [] \<or> ag_tools a \<noteq> [] \<or> ag_thinking a \<noteq> [])"

definition start_assistant :: "json \<Rightarrow> nat \<Rightarrow> aggregator \<Rightarrow> aggregator" where
  "start_assistant ts idx a =
     (let b = a\<lparr>ag_last_idx := idx\<rparr> in if ag_text b = [] then b\<lparr>ag_last_ts := ts\<rparr> else b)"

definition absorb_thinking :: "string \<Rightarrow> aggregator \<Rightarrow> aggregator" where
  "absorb_thinking thinking a = (if thinking \<noteq> [] then a\<lparr>ag_thinking := thinking\<rparr> else a)"

definition note_id :: "string \<Rightarrow> aggregator \<Rightarrow> aggregator" where
  "note_id ev_id a = (if has_draft a then a\<lparr>ag_last_id := Some ev_id\<rparr> else a)"

definition absorb_text :: "json \<Rightarrow> string \<Rightarrow> string \<Rightarrow> aggregator \<Rightarrow> fed" where
  "absorb_text ts ev_id txt a =
     (let (ds, b) = (if txt \<noteq> [] \<and> ag_text a \<noteq> []
                     then (fst (flush_to_message_delta a), (snd (flush_to_message_delta a))\<lparr>ag_last_ts := ts\<rparr>)
                     else ([], a));
          c = note_id ev_id (b\<lparr>ag_text := ag_text b @ txt\<rparr>)
      in (ds @ stream_delta c, c))"

definition feed_assistant :: "render_env \<Rightarrow> dict \<Rightarrow> nat \<Rightarrow> aggregator \<Rightarrow> fed py" where
  "feed_assistant env ev idx a =
     (let ev_id = event_id env ev idx;
          ts = dget ev ''timestamp'';
          msg = py_or (dget ev ''message'') (JObj [])
      in py_bind (jget msg ''content'') (\<lambda>c.
         py_bind (jiter (py_or c (JArr []))) (\<lambda>blocks.
         py_bind (plan_blocks ev idx ev_id blocks (start_assistant ts idx a)) (\<lambda>(ds, b).
         py_bind (extract_thinking_from_message msg) (\<lambda>thinking.
         py_bind (extract_text_from_message msg) (\<lambda>txt.
           let r = absorb_text ts ev_id txt (absorb_thinking thinking (tool_blocks blocks b))
           in Inr (ds @ fst r, snd r)))))))"

definition feed_tool_use :: "render_env \<Rightarrow> dict \<Rightarrow> nat \<Rightarrow> aggregator \<Rightarrow> fed" where
  "feed_tool_use env ev idx a =
     (let a1 = buffer_tool (dget_or ev ''name'' (JStr [])) (dget_or ev ''input'' (JObj [])) a;
          a2 = a1\<lparr>ag_last_idx := idx, ag_last_id := Some (event_id env ev idx)\<rparr>
      in streamed (if ag_last_ts a2 = JNull then a2\<lparr>ag_last_ts := dget ev ''timestamp''\<rparr> else a2))"

definition feed_tool_result :: "dict \<Rightarrow> nat \<Rightarrow> aggregator \<Rightarrow> fed" where
  "feed_tool_result ev idx a =
     (if ag_tools a = [] then ([], a)
      else streamed ((attach_tool_output (dget_or ev ''content'' (JStr []))
                        (dget_or ev ''is_error'' (JBool False)) a)\<lparr>ag_last_idx := idx\<rparr>))"

definition feed_thinking :: "render_env \<Rightarrow> dict \<Rightarrow> nat \<Rightarrow> aggregator \<Rightarrow> fed" where
  "feed_thinking env ev idx a =
     (let a1 = a\<lparr>ag_last_idx := idx, ag_thinking := ag_thinking a @ fstr env (dget_or ev ''content'' (JStr []))\<rparr>;
          a2 = (if ag_last_ts a1 = JNull then a1\<lparr>ag_last_ts := dget ev ''timestamp''\<rparr> else a1)
      in streamed (note_id (event_id env ev idx) a2))"

text \<open>\<open>result.setdefault("timestamp", ...)\<close>, then the index and the id.\<close>

definition stamp_message :: "render_env \<Rightarrow> dict \<Rightarrow> nat \<Rightarrow> dict \<Rightarrow> dict" where
  "stamp_message env ev idx m =
     (let m1 = (if dhas m ''timestamp'' then m else m @ [(''timestamp'', dget ev ''timestamp'')])
      in dict_put (dict_put m1 ''event_index'' (JInt (int idx))) ''id'' (JStr (event_id env ev idx)))"

definition feed_simple :: "render_env \<Rightarrow> string \<Rightarrow> dict \<Rightarrow> nat \<Rightarrow> aggregator \<Rightarrow> fed py" where
  "feed_simple env t ev idx a =
     (case simple_handler env t ev of
        None \<Rightarrow> Inr ([], a)
      | Some r \<Rightarrow>
          py_bind r (\<lambda>m.
            case m of
              None \<Rightarrow> if t = ET_SYSTEM then Inr ([], a) else Inr (flush_to_message_delta a)
            | Some d \<Rightarrow>
                (let (ds, a') = flush_to_message_delta a
                 in Inr (ds @ [Message (stamp_message env ev idx d)], a'))))"

definition feed_event :: "render_env \<Rightarrow> dict \<Rightarrow> nat \<Rightarrow> aggregator \<Rightarrow> fed py" where
  "feed_event env ev idx a =
     (case dget ev ''type'' of
        JStr t \<Rightarrow>
          if t = ET_USER then feed_user env ev idx a
          else if t = ET_ASSISTANT then feed_assistant env ev idx a
          else if t = ET_TOOL_USE then Inr (feed_tool_use env ev idx a)
          else if t = ET_TOOL_RESULT then Inr (feed_tool_result ev idx a)
          else if t = ET_THINKING then Inr (feed_thinking env ev idx a)
          else feed_simple env t ev idx a
      | JArr _ \<Rightarrow> Inl TypeError
      | JObj _ \<Rightarrow> Inl TypeError
      | _ \<Rightarrow> Inr ([], a))"

definition feed :: "render_env \<Rightarrow> dict \<Rightarrow> aggregator \<Rightarrow> fed py" where
  "feed env ev a =
     feed_event env ev (ag_offset a + ag_processed a) (a\<lparr>ag_processed := Suc (ag_processed a)\<rparr>)"

fun feed_all :: "render_env \<Rightarrow> dict list \<Rightarrow> aggregator \<Rightarrow> fed py" where
  "feed_all env [] a = Inr ([], a)"
| "feed_all env (ev # evs) a =
     py_bind (feed env ev a) (\<lambda>(ds, a'). py_bind (feed_all env evs a') (\<lambda>(ds', a''). Inr (ds @ ds', a'')))"

fun feed_indexed :: "render_env \<Rightarrow> (nat \<times> dict) list \<Rightarrow> aggregator \<Rightarrow> fed py" where
  "feed_indexed env [] a = Inr ([], a)"
| "feed_indexed env ((idx, ev) # evs) a =
     py_bind (feed_event env ev (ag_offset a + idx) (a\<lparr>ag_processed := Suc (ag_processed a)\<rparr>)) (\<lambda>(ds, a').
       py_bind (feed_indexed env evs a') (\<lambda>(ds', a''). Inr (ds @ ds', a'')))"


text \<open>\<open>clone\<close>: a new aggregator with every field of the feed state copied.\<close>

definition clone_aggregator :: "aggregator \<Rightarrow> aggregator" where
  "clone_aggregator a =
     (new_aggregator (ag_offset a) (ag_emit a))
       \<lparr>ag_processed := ag_processed a, ag_text := ag_text a, ag_thinking := ag_thinking a,
        ag_last_ts := ag_last_ts a, ag_last_idx := ag_last_idx a, ag_last_id := ag_last_id a,
        ag_tools := ag_tools a\<rparr>"

lemma clone_aggregator_same [simp]: "clone_aggregator a = a"
  by (simp add: clone_aggregator_def new_aggregator_def)

subsection \<open>Feeds without stream deltas\<close>

fun is_message :: "delta \<Rightarrow> bool" where
  "is_message (Message _) = True"
| "is_message (Stream _) = False"

abbreviation messages :: "delta list \<Rightarrow> delta list" where
  "messages ds \<equiv> filter is_message ds"

definition quiet :: "aggregator \<Rightarrow> aggregator" where
  "quiet a = a\<lparr>ag_emit := False\<rparr>"

abbreviation hushed :: "fed \<Rightarrow> fed" where
  "hushed r \<equiv> (messages (fst r), quiet (snd r))"

definition hush :: "fed py \<Rightarrow> fed py" where
  "hush r = py_bind r (\<lambda>x. Inr (hushed x))"

lemma hush_simps [simp]: "hush (Inl e) = Inl e" "hush (Inr x) = Inr (hushed x)"
  by (simp_all add: hush_def)

lemma hush_bind: "hush (py_bind r f) = py_bind r (\<lambda>x. hush (f x))"
  by (cases r) simp_all

lemma quiet_fields [simp]:
  "ag_offset (quiet a) = ag_offset a" "ag_processed (quiet a) = ag_processed a"
  "ag_text (quiet a) = ag_text a" "ag_thinking (quiet a) = ag_thinking a"
  "ag_last_ts (quiet a) = ag_last_ts a" "ag_last_idx (quiet a) = ag_last_idx a"
  "ag_last_id (quiet a) = ag_last_id a" "ag_tools (quiet a) = ag_tools a" "ag_emit (quiet a) = False"
  by (simp_all add: quiet_def)

lemma quiet_updates [simp]:
  "(quiet a)\<lparr>ag_text := t\<rparr> = quiet (a\<lparr>ag_text := t\<rparr>)"
  "(quiet a)\<lparr>ag_processed := n\<rparr> = quiet (a\<lparr>ag_processed := n\<rparr>)"
  "(quiet a)\<lparr>ag_thinking := t\<rparr> = quiet (a\<lparr>ag_thinking := t\<rparr>)"
  "(quiet a)\<lparr>ag_last_ts := j\<rparr> = quiet (a\<lparr>ag_last_ts := j\<rparr>)"
  "(quiet a)\<lparr>ag_last_idx := i\<rparr> = quiet (a\<lparr>ag_last_idx := i\<rparr>)"
  "(quiet a)\<lparr>ag_last_id := x\<rparr> = quiet (a\<lparr>ag_last_id := x\<rparr>)"
  "(quiet a)\<lparr>ag_tools := ts\<rparr> = quiet (a\<lparr>ag_tools := ts\<rparr>)"
  by (simp_all add: quiet_def)

lemma pending_quiet [simp]: "pending_draft_message (quiet a) = pending_draft_message a"
  by (cases "ag_last_id a") (simp_all add: pending_draft_message_def)

lemma flush_messages [simp]: "messages (fst (flush_to_message_delta a)) = fst (flush_to_message_delta a)"
  by (simp add: flush_to_message_delta_def split: option.splits)

lemma flush_quiet [simp]:
  "flush_to_message_delta (quiet a) = (fst (flush_to_message_delta a), quiet (snd (flush_to_message_delta a)))"
  by (simp add: flush_to_message_delta_def split: option.splits)

lemma stream_quiet [simp]: "stream_delta (quiet a) = []"
  by (simp add: stream_delta_def)

lemma stream_messages [simp]: "messages (stream_delta a) = []"
  by (simp add: stream_delta_def split: option.splits)

lemma streamed_quiet [simp]: "streamed (quiet a) = hushed (streamed a)"
  by (simp add: streamed_def)

lemma buffer_quiet [simp]: "buffer_tool n i (quiet a) = quiet (buffer_tool n i a)"
  by (simp add: buffer_tool_def)

lemma attach_quiet [simp]: "attach_tool_output out e (quiet a) = quiet (attach_tool_output out e a)"
  by (simp add: attach_tool_output_def)

lemma attach_results_quiet:
  "attach_results env bs (quiet a) = py_bind (attach_results env bs a) (\<lambda>a'. Inr (quiet a'))"
  by (induction env bs a rule: attach_results.induct) (auto simp: py_bind_def split: json.splits sum.splits)

lemma tool_blocks_quiet [simp]: "tool_blocks bs (quiet a) = quiet (tool_blocks bs a)"
  by (induction bs a rule: tool_blocks.induct) (auto split: json.splits)

lemma has_draft_quiet [simp]: "has_draft (quiet a) = has_draft a"
  by (simp add: has_draft_def)

lemma plan_message_is [simp]: "is_message (plan_message c i d t)"
  by (simp add: plan_message_def)

lemma plan_blocks_quiet:
  "plan_blocks ev idx i bs (quiet a) = hush (plan_blocks ev idx i bs a)"
proof (induction bs arbitrary: a)
  case (Cons b bs)
  show ?case
  proof (cases b)
    case (JObj d)
    show ?thesis
    proof (cases "is_tool_use d \<and> dget d ''name'' = JStr ''ExitPlanMode''")
      case True
      show ?thesis
      proof (cases "jget_or (py_or (dget d ''input'') (JObj [])) ''plan'' (JStr [])")
        case (Inr p)
        show ?thesis using JObj True Inr
          by (auto simp: hush_bind Let_def split_beta Cons.IH py_bind_def split: sum.splits)
      qed (use JObj True in simp)
    qed (use JObj Cons in auto)
  qed (use Cons in auto)
qed simp

lemma feed_user_quiet: "feed_user env ev idx (quiet a) = hush (feed_user env ev idx a)"
  by (auto simp: feed_user_def attach_results_quiet py_bind_def split_beta Let_def
      split: sum.splits)

lemma start_quiet [simp]: "start_assistant ts idx (quiet a) = quiet (start_assistant ts idx a)"
  by (simp add: start_assistant_def Let_def)

lemma absorb_thinking_quiet [simp]: "absorb_thinking t (quiet a) = quiet (absorb_thinking t a)"
  by (simp add: absorb_thinking_def)

lemma note_id_quiet [simp]: "note_id i (quiet a) = quiet (note_id i a)"
  by (simp add: note_id_def)

lemma absorb_text_quiet [simp]: "absorb_text ts i t (quiet a) = hushed (absorb_text ts i t a)"
  by (simp add: absorb_text_def Let_def)

lemma feed_assistant_quiet: "feed_assistant env ev idx (quiet a) = hush (feed_assistant env ev idx a)"
  by (simp add: feed_assistant_def Let_def hush_bind split_beta plan_blocks_quiet)
     (simp add: hush_def py_bind_def split: sum.splits)

lemma feed_event_quiet: "feed_event env ev idx (quiet a) = hush (feed_event env ev idx a)"
proof -
  have simple: "feed_simple env t ev idx (quiet a) = hush (feed_simple env t ev idx a)" for t
    by (auto simp: feed_simple_def Let_def split_beta py_bind_def split: option.splits sum.splits)
  have tool: "feed_tool_use env ev idx (quiet a) = hushed (feed_tool_use env ev idx a)"
    by (simp add: feed_tool_use_def Let_def)
  have res: "feed_tool_result ev idx (quiet a) = hushed (feed_tool_result ev idx a)"
    by (simp add: feed_tool_result_def Let_def)
  have th: "feed_thinking env ev idx (quiet a) = hushed (feed_thinking env ev idx a)"
    by (simp add: feed_thinking_def Let_def)
  show ?thesis
    by (simp add: feed_event_def simple tool res th feed_user_quiet feed_assistant_quiet split: json.splits)
qed

lemma feed_indexed_quiet: "feed_indexed env evs (quiet a) = hush (feed_indexed env evs a)"
proof (induction env evs a rule: feed_indexed.induct)
  case (2 env idx ev evs a)
  show ?case
    using 2 by (auto simp: feed_event_quiet py_bind_def split: sum.splits)
qed simp



subsection \<open>The assistant's text is conserved\<close>

text \<open>The text of the assistant and plan messages of a feed, in order.\<close>

definition delta_text :: "delta \<Rightarrow> string" where
  "delta_text d = (case d of
     Message m \<Rightarrow> if dget m ''role'' \<in> {JStr ''assistant'', JStr ''plan''}
       then (case dget m ''content'' of JStr s \<Rightarrow> s | _ \<Rightarrow> []) else []
   | Stream _ \<Rightarrow> [])"

definition out_text :: "delta list \<Rightarrow> string" where
  "out_text ds = concat (map delta_text ds)"

definition plan_text_of :: "json \<Rightarrow> string" where
  "plan_text_of b = (case b of
     JObj d \<Rightarrow>
       if is_tool_use d \<and> dget d ''name'' = JStr ''ExitPlanMode''
       then (case jget_or (py_or (dget d ''input'') (JObj [])) ''plan'' (JStr []) of
               Inr (JStr s) \<Rightarrow> s | _ \<Rightarrow> [])
       else []
   | _ \<Rightarrow> [])"

definition text_of_block :: "json \<Rightarrow> string" where
  "text_of_block b = (case block_field ''text'' ''text'' b of Some (JStr s) \<Rightarrow> s | _ \<Rightarrow> [])"

definition assistant_blocks :: "dict \<Rightarrow> json list" where
  "assistant_blocks ev =
     (if is_event ET_ASSISTANT ev
      then (case jget (py_or (dget ev ''message'') (JObj [])) ''content'' of Inr (JArr bs) \<Rightarrow> bs | _ \<Rightarrow> [])
      else [])"

text \<open>
  What an assistant event brings: its blocks in the order of the message, or, as the two passes of
  the aggregator take them, the plans before the text blocks.
\<close>

definition source_input :: "dict \<Rightarrow> string" where
  "source_input ev = concat (map (\<lambda>b. plan_text_of b @ text_of_block b) (assistant_blocks ev))"

definition assistant_input :: "dict \<Rightarrow> string" where
  "assistant_input ev = concat (map plan_text_of (assistant_blocks ev)) @ concat (map text_of_block (assistant_blocks ev))"

text \<open>No plan follows a text block.\<close>

fun plans_lead :: "json list \<Rightarrow> bool" where
  "plans_lead [] = True"
| "plans_lead (b # bs) = ((text_of_block b = [] \<or> list_all (\<lambda>c. plan_text_of c = []) bs) \<and> plans_lead bs)"

lemma no_plans:
  "list_all (\<lambda>c. plan_text_of c = []) bs \<Longrightarrow> concat (map plan_text_of bs) = []"
  by (induction bs) (simp_all only: list.map concat.simps list.pred_inject append_Nil)

lemma only_texts:
  "list_all (\<lambda>c. plan_text_of c = []) bs \<Longrightarrow>
     concat (map (\<lambda>b. plan_text_of b @ text_of_block b) bs) = concat (map text_of_block bs)"
  by (induction bs) (simp_all only: list.map concat.simps list.pred_inject append_Nil)

lemma leading_plans:
  "plans_lead bs \<Longrightarrow> concat (map (\<lambda>b. plan_text_of b @ text_of_block b) bs) =
     concat (map plan_text_of bs) @ concat (map text_of_block bs)"
proof (induction bs)
  case (Cons b bs)
  show ?case
  proof (cases "text_of_block b = []")
    case True
    then show ?thesis using Cons by simp
  next
    case False
    then have "list_all (\<lambda>c. plan_text_of c = []) bs" using Cons.prems by simp
    then show ?thesis by (simp only: list.map concat.simps no_plans only_texts append_Nil append_assoc)
  qed
qed simp

lemma joined_texts: "py_map as_str (List.map_filter (block_field ''text'' ''text'') bs) = Inr ss \<Longrightarrow>
    concat ss = concat (map text_of_block bs)"
proof (induction bs arbitrary: ss)
  case (Cons b bs)
  show ?case
  proof (cases "block_field ''text'' ''text'' b")
    case (Some v)
    then obtain x xs where x: "as_str v = Inr x" "ss = x # xs" "py_map as_str (List.map_filter (block_field ''text'' ''text'') bs) = Inr xs"
      using Cons.prems by (auto simp: List.map_filter_simps py_bind_Inr_iff)
    then have "v = JStr x" by (cases v) auto
    then show ?thesis using Cons.IH [OF x(3)] x(2) Some by (simp add: text_of_block_def)
  qed (use Cons in \<open>simp add: List.map_filter_simps text_of_block_def\<close>)
qed (simp add: List.map_filter_simps)

lemma extracted_text:
  assumes "extract_text_from_message msg = Inr t" "jtruthy msg"
  shows "t = (case jget msg ''content'' of Inr (JArr bs) \<Rightarrow> concat (map text_of_block bs) | _ \<Rightarrow> [])"
proof -
  obtain c where c: "jget msg ''content'' = Inr c"
    using assms by (auto simp: extract_text_from_message_def join_blocks_def py_bind_Inr_iff)
  show ?thesis
  proof (cases "\<exists>bs. c = JArr bs")
    case True
    then show ?thesis using assms c joined_texts
      by (auto simp: extract_text_from_message_def join_blocks_def str_join_parts_def py_join_empty_sep py_bind_Inr_iff)
  next
    case False
    then show ?thesis using assms c
      by (cases c) (auto simp: extract_text_from_message_def join_blocks_def)
  qed
qed

lemma out_text_simps [simp]:
  "out_text [] = []" "out_text (d # ds) = delta_text d @ out_text ds"
  "out_text (ds @ es) = out_text ds @ out_text es"
  by (simp_all add: out_text_def)

lemma out_text_stream [simp]: "out_text (stream_delta a) = []"
  by (simp add: stream_delta_def delta_text_def split: option.splits)

lemma flush_text [simp]: "out_text (fst (flush_to_message_delta a)) = ag_text a"
  by (auto simp: flush_to_message_delta_def pending_draft_message_def delta_text_def)

lemma flush_text_left [simp]: "ag_text (snd (flush_to_message_delta a)) = []"
  by (auto simp: flush_to_message_delta_def pending_draft_message_def)

lemma plan_message_text [simp]:
  "delta_text (plan_message c i d t) = (case c of JStr s \<Rightarrow> s | _ \<Rightarrow> [])"
  by (simp add: plan_message_def delta_text_def split: json.splits)

lemma plan_blocks_text:
  "plan_blocks ev idx i bs a = Inr (ds, a') \<Longrightarrow>
   out_text ds @ ag_text a' = ag_text a @ concat (map plan_text_of bs)"
proof (induction bs arbitrary: a ds)
  case (Cons b bs)
  show ?case
  proof (cases b)
    case (JObj d)
    show ?thesis
    proof (cases "is_tool_use d \<and> dget d ''name'' = JStr ''ExitPlanMode''")
      case True
      obtain p where p: "jget_or (py_or (dget d ''input'') (JObj [])) ''plan'' (JStr []) = Inr p"
        using Cons.prems JObj True by (auto simp: py_bind_Inr_iff)
      show ?thesis using Cons.prems JObj True p
        by (auto simp: py_bind_Inr_iff Let_def split_beta plan_text_of_def split: if_splits json.splits
            dest!: Cons.IH)
    qed (use JObj Cons in \<open>auto simp: plan_text_of_def\<close>)
  qed (use Cons in \<open>auto simp: plan_text_of_def\<close>)
qed simp

lemma buffer_text [simp]: "ag_text (buffer_tool n i a) = ag_text a"
  by (simp add: buffer_tool_def)

lemma attach_text [simp]: "ag_text (attach_tool_output out e a) = ag_text a"
  by (simp add: attach_tool_output_def)

lemma tool_blocks_text [simp]: "ag_text (tool_blocks bs a) = ag_text a"
  by (induction bs a rule: tool_blocks.induct) (auto split: json.splits)

lemma attach_results_text: "attach_results env bs a = Inr a' \<Longrightarrow> ag_text a' = ag_text a"
  by (induction env bs a rule: attach_results.induct)
     (auto simp: py_bind_Inr_iff split: json.splits if_splits)

lemma small_text [simp]:
  "ag_text (start_assistant ts idx a) = ag_text a" "ag_text (absorb_thinking t a) = ag_text a"
  "ag_text (note_id i a) = ag_text a"
  by (simp_all add: start_assistant_def absorb_thinking_def note_id_def Let_def)

lemma absorb_text_text:
  "out_text (fst (absorb_text ts i t a)) @ ag_text (snd (absorb_text ts i t a)) = ag_text a @ t"
  by (simp add: absorb_text_def Let_def split_beta)

text \<open>No one-line message is an assistant or plan message.\<close>

definition other_role :: "dict \<Rightarrow> bool" where
  "other_role m = (dget m ''role'' \<notin> {JStr ''assistant'', JStr ''plan''})"

lemma other_roles [simp]:
  "other_role (system_line c)" "other_role (task_delegated_msg ev)" "other_role (handler_result_msg env ev)"
  "other_role (context_compact_failed_msg env ev)" "other_role (resume_context_dropped_msg ev)"
  "other_role (claude_account_login_required_msg ev)" "other_role (backend_switched_msg env ev)"
  "other_role (backend_overlay_inactive_msg env ev)" "other_role (scheduled_run_skipped_msg env ev)"
  by (simp_all add: other_role_def system_line_def task_delegated_msg_def handler_result_msg_def
      context_compact_failed_msg_def resume_context_dropped_msg_def claude_account_login_required_msg_def
      backend_switched_msg_def backend_overlay_inactive_msg_def scheduled_run_skipped_msg_def Let_def)

lemma other_role_Cons [simp]:
  "other_role ((''role'', JStr r) # m) \<longleftrightarrow> r \<noteq> ''assistant'' \<and> r \<noteq> ''plan''"
  by (auto simp: other_role_def)

lemma other_role_fallible:
  "context_compacted_msg env ev = Inr m \<Longrightarrow> other_role m"
  "model_fallback_notice_msg env ev = Inr m \<Longrightarrow> other_role m"
  "system_msg ev = Some m \<Longrightarrow> other_role m"
  by (auto simp: context_compacted_msg_def model_fallback_notice_msg_def system_msg_def system_line_def
      py_bind_Inr_iff Let_def split: if_splits)

lemma simple_handler_role: "simple_handler env t ev = Some (Inr (Some m)) \<Longrightarrow> other_role m"
  by (simp only: simple_handler_def split: if_split_asm; clarsimp simp: py_bind_Inr_iff other_role_fallible)

lemma stamp_role [simp]: "dget (stamp_message env ev idx m) ''role'' = dget m ''role''"
proof -
  have "dget (m @ [(''timestamp'', v)]) ''role'' = dget m ''role''" for v
    by (simp add: dget_def map_add_def split: option.splits)
  then show ?thesis by (simp add: stamp_message_def Let_def)
qed

lemma no_plans_in_keys: "list_all (\<lambda>b. \<exists>s. b = JStr s) bs \<Longrightarrow> concat (map plan_text_of bs) = []"
  by (induction bs) (auto simp: plan_text_of_def)

lemma feed_assistant_text:
  assumes "feed_assistant env ev idx a = Inr (ds, a')" "is_event ET_ASSISTANT ev"
  shows "out_text ds @ ag_text a' = ag_text a @ assistant_input ev"
proof -
  let ?msg = "py_or (dget ev ''message'') (JObj [])"
  obtain c bs ds1 b t where f: "jget ?msg ''content'' = Inr c" "jiter (py_or c (JArr [])) = Inr bs"
    "plan_blocks ev idx (event_id env ev idx) bs (start_assistant (dget ev ''timestamp'') idx a) = Inr (ds1, b)"
    "extract_text_from_message ?msg = Inr t"
    "out_text ds @ ag_text a' = out_text ds1 @ ag_text b @ t"
    using assms(1) absorb_text_text by (fastforce simp: feed_assistant_def Let_def py_bind_Inr_iff)
  have p: "out_text ds1 @ ag_text b = ag_text a @ concat (map plan_text_of bs)" using plan_blocks_text [OF f(3)] by simp
  have t: "t = (case jget ?msg ''content'' of Inr (JArr bs) \<Rightarrow> concat (map text_of_block bs) | _ \<Rightarrow> [])"
  proof (cases "jtruthy ?msg")
    case False
    then have "t = []" using f(4)
      by (simp add: extract_text_from_message_def join_blocks_def)
    moreover have "?msg = JObj []" using False by (auto simp: py_or_def split: if_splits)
    ultimately show ?thesis by (simp add: dget_def)
  qed (use extracted_text [OF f(4)] in simp)
  have "concat (map plan_text_of bs) = concat (map plan_text_of (assistant_blocks ev)) \<and> t = concat (map text_of_block (assistant_blocks ev))"
  proof (cases "\<exists>xs. c = JArr xs")
    case True
    then show ?thesis using f(1,2) t assms(2) by (auto simp: assistant_blocks_def py_or_def split: if_splits)
  next
    case False
    then have "list_all (\<lambda>b. \<exists>s. b = JStr s) bs"
      using f(2) by (cases c) (auto simp: py_or_def list_all_iff split: if_splits)
    then show ?thesis using no_plans_in_keys f(1) t assms(2) False by (auto simp: assistant_blocks_def split: json.splits)
  qed
  then show ?thesis using f(5) p by (simp add: assistant_input_def)
qed

lemma feed_event_text:
  assumes "feed_event env ev idx a = Inr (ds, a')"
  shows "out_text ds @ ag_text a' = ag_text a @ assistant_input ev"
proof -
  have flush: "flush_to_message_delta a = (ds, a') \<Longrightarrow> out_text ds @ ag_text a' = ag_text a"
    using flush_text [of a] flush_text_left [of a] by simp
  have simple: "feed_simple env t ev idx a = Inr (ds, a') \<Longrightarrow> out_text ds @ ag_text a' = ag_text a" for t
    using simple_handler_role [of env t ev] flush
    by (auto simp: feed_simple_def py_bind_Inr_iff Let_def split_beta delta_text_def other_role_def
        split: option.splits if_splits)
  have user: "feed_user env ev idx a = Inr (ds, a') \<Longrightarrow> out_text ds @ ag_text a' = ag_text a"
    by (auto simp: feed_user_def py_bind_Inr_iff Let_def split_beta delta_text_def streamed_def
        split: if_splits dest!: attach_results_text)
  show ?thesis
    using assms simple user feed_assistant_text [of env ev idx a ds a']
    by (auto simp: feed_event_def assistant_input_def assistant_blocks_def is_event_def feed_tool_use_def feed_tool_result_def
        feed_thinking_def streamed_def Let_def split: json.splits if_splits)
qed

lemma feed_indexed_text:
  "feed_indexed env evs a = Inr (ds, a') \<Longrightarrow>
   out_text ds @ ag_text a' = ag_text a @ concat (map (\<lambda>e. assistant_input (snd e)) evs)"
proof (induction evs arbitrary: a ds)
  case (Cons e evs)
  obtain idx ev where e: "e = (idx, ev)" by (cases e)
  obtain ds1 a1 ds2 where 1: "feed_event env ev (ag_offset a + idx) (a\<lparr>ag_processed := Suc (ag_processed a)\<rparr>) = Inr (ds1, a1)"
    and 2: "feed_indexed env evs a1 = Inr (ds2, a')" and ds: "ds = ds1 @ ds2"
    using Cons.prems by (auto simp: e py_bind_Inr_iff)
  have "out_text ds @ ag_text a' = out_text ds1 @ ag_text a1 @ concat (map (\<lambda>e. assistant_input (snd e)) evs)"
    using Cons.IH [OF 2] by (simp add: ds)
  also have "\<dots> = (out_text ds1 @ ag_text a1) @ concat (map (\<lambda>e. assistant_input (snd e)) evs)" by simp
  finally show ?case using feed_event_text [OF 1] by (simp add: e)
qed simp



subsection \<open>Previews are bounded\<close>

lemma utf8_chars_start:
  "bs = [] \<or> \<not> is_cont (hd bs) \<Longrightarrow> takeWhile is_cont (xs @ bs) = takeWhile is_cont xs \<and>
   (dropWhile is_cont (xs @ bs) = dropWhile is_cont xs @ bs)"
  by (induction xs) (cases bs; auto)+

lemma utf8_chars_take: "utf8_chars (concat (take n (utf8_chars s))) = take n (utf8_chars s)"
proof (induction s arbitrary: n rule: utf8_chars.induct)
  case (2 b bs)
  show ?case
  proof (cases n)
    case (Suc m)
    let ?t = "takeWhile is_cont bs" and ?d = "dropWhile is_cont bs"
    let ?rest = "concat (take m (utf8_chars ?d))"
    have hd: "?rest = [] \<or> \<not> is_cont (hd ?rest)"
    proof (cases ?d)
      case (Cons c cs)
      then have "\<not> is_cont c" by (metis hd_dropWhile list.distinct(1) list.sel(1))
      then show ?thesis using Cons by (cases m) auto
    next
      case Nil
      show ?thesis unfolding Nil by simp
    qed
    have "takeWhile is_cont (?t @ ?rest) = ?t" "dropWhile is_cont (?t @ ?rest) = ?rest"
      using utf8_chars_start [OF hd, of ?t]
      by (auto simp: takeWhile_eq_all_conv dropWhile_eq_Nil_conv dest: set_takeWhileD)
    then show ?thesis using 2 [of m] Suc by simp
  qed simp
qed simp

lemma str_len_take: "str_len (str_take n s) = min n (str_len s)"
  by (simp add: str_len_def str_take_def utf8_chars_take)

lemma cut_not_over [simp]: "\<not> over_cap (cut v)"
  by (cases v) (auto simp: over_cap_def cut_def str_len_take)

lemma cut_input_not_over: "\<not> input_over_cap (cut_input v)"
  by (cases v) (auto simp: input_over_cap_def cut_input_def list_ex_iff)

definition row_bounded :: "dict \<Rightarrow> bool" where
  "row_bounded t = (\<not> over_cap (dget t ''output'') \<and> \<not> input_over_cap (dget t ''input''))"

lemma tool_preview_bounded: "row_bounded (tool_preview t)"
  by (simp add: row_bounded_def tool_preview_def Let_def cut_input_not_over)

lemma tool_preview_id: "row_bounded t \<Longrightarrow> tool_preview t = t"
  by (simp add: row_bounded_def tool_preview_def Let_def)

definition rows_bounded :: "json \<Rightarrow> bool" where
  "rows_bounded v = (case v of
     JArr rows \<Rightarrow> list_all (\<lambda>r. case r of JObj t \<Rightarrow> row_bounded t | _ \<Rightarrow> False) rows
   | JNull \<Rightarrow> True | _ \<Rightarrow> False)"

definition delta_bounded :: "delta \<Rightarrow> bool" where
  "delta_bounded d = rows_bounded (dget (case d of Message m \<Rightarrow> m | Stream m \<Rightarrow> m) ''tools'')"

abbreviation tools_ok :: "aggregator \<Rightarrow> bool" where
  "tools_ok a \<equiv> list_all row_bounded (ag_tools a)"

lemma rows_bounded_arr: "list_all row_bounded ts \<Longrightarrow> rows_bounded (JArr (map JObj ts))"
  by (simp add: rows_bounded_def list_all_iff)

lemma pending_tools:
  "pending_draft_message a = Some m \<Longrightarrow>
   dget m ''tools'' = (if ag_tools a = [] then JNull else JArr (map JObj (ag_tools a)))"
  by (auto simp: pending_draft_message_def split: if_splits)

lemma flush_bounded:
  assumes "tools_ok a"
  shows "list_all delta_bounded (fst (flush_to_message_delta a))" "tools_ok (snd (flush_to_message_delta a))"
proof -
  show "list_all delta_bounded (fst (flush_to_message_delta a))"
    using assms pending_tools [of a] rows_bounded_arr [OF assms]
    by (auto simp: flush_to_message_delta_def delta_bounded_def rows_bounded_def split: option.splits)
  show "tools_ok (snd (flush_to_message_delta a))"
    using assms by (auto simp: flush_to_message_delta_def split: option.splits)
qed

lemma stream_bounded: "list_all delta_bounded (stream_delta a)"
proof (cases "pending_draft_message a")
  case (Some m)
  have "rows_bounded (JArr (map (\<lambda>t. JObj (tool_preview t)) (ag_tools a)))"
    by (simp add: rows_bounded_def list_all_iff tool_preview_bounded)
  moreover have "ag_tools a = [] \<Longrightarrow> rows_bounded (dget m ''tools'')"
    using pending_tools [OF Some] by (simp add: rows_bounded_def)
  ultimately show ?thesis by (simp add: stream_delta_def Some delta_bounded_def)
qed (simp add: stream_delta_def)

lemma buffer_ok: "tools_ok a \<Longrightarrow> tools_ok (buffer_tool n i a)"
  by (simp add: buffer_tool_def tool_preview_bounded)

lemma attach_ok: "tools_ok a \<Longrightarrow> tools_ok (attach_tool_output out e a)"
  by (auto simp: attach_tool_output_def tool_preview_bounded list_all_iff dest: in_set_butlastD)

lemma attach_results_ok: "attach_results env bs a = Inr a' \<Longrightarrow> tools_ok a \<Longrightarrow> tools_ok a'"
  by (induction env bs a rule: attach_results.induct)
     (auto simp: py_bind_Inr_iff attach_ok split: json.splits if_splits)

lemma tool_blocks_ok: "tools_ok a \<Longrightarrow> tools_ok (tool_blocks bs a)"
  by (induction bs a rule: tool_blocks.induct) (auto simp: buffer_ok split: json.splits)

lemma plan_message_bounded [simp]: "delta_bounded (plan_message c i d t)"
  by (simp add: plan_message_def delta_bounded_def rows_bounded_def)

lemma plan_blocks_bounded:
  "plan_blocks ev idx i bs a = Inr (ds, a') \<Longrightarrow> tools_ok a \<Longrightarrow> list_all delta_bounded ds \<and> tools_ok a'"
proof (induction bs arbitrary: a ds)
  case (Cons b bs)
  show ?case
  proof (cases b)
    case (JObj d)
    show ?thesis
    proof (cases "is_tool_use d \<and> dget d ''name'' = JStr ''ExitPlanMode''")
      case True
      show ?thesis using Cons.prems JObj True flush_bounded [of a]
        by (auto simp: py_bind_Inr_iff Let_def split_beta split: if_splits dest!: Cons.IH)
    qed (use JObj Cons in auto)
  qed (use Cons in auto)
qed simp

text \<open>A one-line message has no tool rows.\<close>

definition no_tools :: "dict \<Rightarrow> bool" where
  "no_tools m = (dget m ''tools'' = JNull)"

lemma no_tools_lines [simp]:
  "no_tools (system_line c)" "no_tools (task_delegated_msg ev)" "no_tools (handler_result_msg env ev)"
  "no_tools (context_compact_failed_msg env ev)" "no_tools (resume_context_dropped_msg ev)"
  "no_tools (claude_account_login_required_msg ev)" "no_tools (backend_switched_msg env ev)"
  "no_tools (backend_overlay_inactive_msg env ev)" "no_tools (scheduled_run_skipped_msg env ev)"
  by (simp_all add: no_tools_def system_line_def task_delegated_msg_def handler_result_msg_def
      context_compact_failed_msg_def resume_context_dropped_msg_def claude_account_login_required_msg_def
      backend_switched_msg_def backend_overlay_inactive_msg_def scheduled_run_skipped_msg_def Let_def)

lemma no_tools_Cons [simp]: "no_tools [] " "no_tools ((k, v) # m) \<longleftrightarrow> (if k = ''tools'' then v = JNull else no_tools m)"
  by (auto simp: no_tools_def)

lemma no_tools_append: "no_tools (m @ n) \<longleftrightarrow> no_tools m \<and> (no_tools n \<or> dhas m ''tools'')"
  by (auto simp: no_tools_def dget_def dhas_def map_add_def split: option.splits)

lemma no_tools_fallible:
  "context_compacted_msg env ev = Inr m \<Longrightarrow> no_tools m"
  "model_fallback_notice_msg env ev = Inr m \<Longrightarrow> no_tools m"
  "system_msg ev = Some m \<Longrightarrow> no_tools m"
  by (auto simp: context_compacted_msg_def model_fallback_notice_msg_def system_msg_def system_line_def
      py_bind_Inr_iff Let_def split: if_splits)

lemma simple_handler_no_tools: "simple_handler env t ev = Some (Inr (Some m)) \<Longrightarrow> no_tools m"
  by (simp only: simple_handler_def split: if_split_asm; clarsimp simp: py_bind_Inr_iff no_tools_fallible)

lemma stamp_no_tools: "no_tools m \<Longrightarrow> delta_bounded (Message (stamp_message env ev idx m))"
  by (simp add: stamp_message_def Let_def delta_bounded_def rows_bounded_def)
     (simp add: no_tools_def dget_def map_add_def split: option.splits)

lemma feed_event_bounded:
  assumes "feed_event env ev idx a = Inr (ds, a')" and ok: "tools_ok a"
  shows "list_all delta_bounded ds \<and> tools_ok a'"
proof -
  note fl = flush_bounded [OF ok]
  have flush: "flush_to_message_delta a = (ds', b) \<Longrightarrow> list_all delta_bounded ds' \<and> tools_ok b" for ds' b
    using fl by simp
  have simple: "feed_simple env t ev idx a = Inr (ds, a') \<Longrightarrow> ?thesis" for t
    using simple_handler_no_tools [of env t ev] flush ok fl
    by (auto simp: feed_simple_def py_bind_Inr_iff Let_def split_beta stamp_no_tools
        split: option.splits if_splits)
  have user: "feed_user env ev idx a = Inr (ds, a') \<Longrightarrow> ?thesis"
    using ok fl
    by (auto simp: feed_user_def py_bind_Inr_iff Let_def split_beta streamed_def stream_bounded
        delta_bounded_def rows_bounded_def split: if_splits dest: attach_results_ok)
  have start: "tools_ok (start_assistant ts i a)" for ts i
    using ok by (simp add: start_assistant_def Let_def)
  have absorb: "list_all delta_bounded (fst (absorb_text ts i t b)) \<and> tools_ok (snd (absorb_text ts i t b))"
    if "tools_ok b" for ts i t b
    using flush_bounded [OF that] that
    by (simp add: absorb_text_def Let_def split_beta stream_bounded note_id_def)
  have think: "tools_ok b \<Longrightarrow> tools_ok (absorb_thinking t b)" for t b by (simp add: absorb_thinking_def)
  have assistant: "feed_assistant env ev idx a = Inr (ds, a') \<Longrightarrow> ?thesis"
    using plan_blocks_bounded [OF _ start] absorb [OF think [OF tool_blocks_ok]]
    by (auto simp: feed_assistant_def Let_def py_bind_Inr_iff)
  show ?thesis
    using assms simple user assistant buffer_ok [OF ok] attach_ok [OF ok]
    by (auto simp: feed_event_def feed_tool_use_def feed_tool_result_def feed_thinking_def note_id_def
        streamed_def stream_bounded Let_def split: json.splits if_splits)
qed



subsection \<open>The fold's promises\<close>

lemma feed_indexed_bounded:
  "feed_indexed env evs a = Inr (ds, a') \<Longrightarrow> tools_ok a \<Longrightarrow> list_all delta_bounded ds \<and> tools_ok a'"
proof (induction evs arbitrary: a ds)
  case (Cons e evs)
  obtain idx ev where e: "e = (idx, ev)" by (cases e)
  obtain ds1 a1 ds2 where 1: "feed_event env ev (ag_offset a + idx) (a\<lparr>ag_processed := Suc (ag_processed a)\<rparr>) = Inr (ds1, a1)"
    and 2: "feed_indexed env evs a1 = Inr (ds2, a')" and ds: "ds = ds1 @ ds2"
    using Cons.prems by (auto simp: e py_bind_Inr_iff)
  show ?case using feed_event_bounded [OF 1] Cons.IH [OF 2] Cons.prems(2) by (simp add: ds)
qed simp

text \<open>
  C30. No assistant text is lost or doubled, and none moves across events: whatever the events (tool
  rows, thinking, users, system notices in between), the assistant and plan messages of a feed
  followed by the final flush spell out exactly the plans and texts the assistant events brought,
  event by event, the plans of an event before its texts. They spell them out in the order of
  the blocks when no event has a plan after a text block; a text that precedes a plan in the same
  message is shown after it.
\<close>

theorem assistant_text_conserved:
  assumes "feed_indexed env evs (new_aggregator offset emit) = Inr (ds, a)"
  shows "out_text (ds @ fst (flush_pending a)) = concat (map (\<lambda>e. assistant_input (snd e)) evs) \<and>
    (list_all (\<lambda>e. plans_lead (assistant_blocks (snd e))) evs \<longrightarrow>
       out_text (ds @ fst (flush_pending a)) = concat (map (\<lambda>e. source_input (snd e)) evs))"
proof -
  have c: "out_text (ds @ fst (flush_pending a)) = concat (map (\<lambda>e. assistant_input (snd e)) evs)"
    using feed_indexed_text [OF assms] by (simp add: flush_pending_def new_aggregator_def)
  have "concat (map (\<lambda>e. source_input (snd e)) evs) = concat (map (\<lambda>e. assistant_input (snd e)) evs)"
    if "list_all (\<lambda>e. plans_lead (assistant_blocks (snd e))) evs"
    using that
  proof (induction evs)
    case (Cons e evs)
    then have "source_input (snd e) = assistant_input (snd e)"
      by (simp only: source_input_def assistant_input_def leading_plans list.pred_inject)
    then show ?case using Cons by (simp only: list.map concat.simps list.pred_inject simp_thms)
  qed simp
  then show ?thesis unfolding c by (intro conjI impI refl) (rule sym)
qed

text \<open>
  Tool output and tool input strings over 500 characters never reach a wire shape: in
  every message and stream delta, and in the draft still buffered, each tool row's strings
  are within the preview bound.
\<close>

theorem tool_previews_bounded:
  assumes "feed_indexed env evs (new_aggregator offset emit) = Inr (ds, a)"
  shows "list_all delta_bounded ds \<and> list_all row_bounded (ag_tools a)"
  using feed_indexed_bounded [OF assms] by (simp add: new_aggregator_def)

text \<open>
  A feed constructed without stream deltas produces the same message deltas, in the
  same order, the same state and the same exceptions as one that emits them.
\<close>

theorem silent_feed_same_messages:
  "feed_indexed env evs (new_aggregator offset False) = hush (feed_indexed env evs (new_aggregator offset True))"
  using feed_indexed_quiet [of env evs "new_aggregator offset True"]
  by (simp add: quiet_def new_aggregator_def)

subsection \<open>A concrete conversation\<close>

definition plain_env :: render_env where
  "plain_env = \<lparr>other_str = (\<lambda>_. []), lower_str = (\<lambda>s. s), capitalize_str = (\<lambda>s. s), float_k = (\<lambda>m e. m)\<rparr>"

definition demo_assistant :: "string \<Rightarrow> dict" where
  "demo_assistant txt = [(''type'', JStr ''assistant''), (''id'', JStr ''e''),
     (''message'', JObj [(''content'', JArr [JObj [(''type'', JStr ''text''), (''text'', JStr txt)]])])]"

definition demo_tool_use :: dict where
  "demo_tool_use = [(''type'', JStr ''tool_use''), (''id'', JStr ''t''), (''name'', JStr ''Bash''),
     (''input'', JObj [(''command'', JStr ''ls'')])]"

definition demo_tool_result :: "string \<Rightarrow> dict" where
  "demo_tool_result out = [(''type'', JStr ''tool_result''), (''content'', JStr out)]"

definition demo_events :: "(nat \<times> dict) list" where
  "demo_events = [(0, demo_assistant ''a''), (1, demo_tool_use), (2, demo_tool_result ''ok''),
     (3, demo_assistant ''b''), (4, [(''type'', JStr ''user''), (''content'', JStr ''q''), (''id'', JStr ''u'')]),
     (5, demo_assistant ''c'')]"

lemma demo_feed: "\<exists>ds a. feed_indexed plain_env demo_events (new_aggregator 0 True) = Inr (ds, a) \<and> ag_text a = ''c''"
proof -
  have "(case feed_indexed plain_env demo_events (new_aggregator 0 True) of
      Inl _ \<Rightarrow> False | Inr (ds, a) \<Rightarrow> ag_text a = ''c'')"
    by code_simp
  then show ?thesis by (auto split: sum.splits)
qed

theorem assistant_text_conserved_witness:
  "\<exists>ds a. feed_indexed plain_env demo_events (new_aggregator 0 True) = Inr (ds, a) \<and>
     out_text (ds @ fst (flush_pending a)) = ''abc''"
proof -
  obtain ds a where f: "feed_indexed plain_env demo_events (new_aggregator 0 True) = Inr (ds, a)"
    using demo_feed by blast
  have "concat (map (\<lambda>e. source_input (snd e)) demo_events) = ''abc''"
    "list_all (\<lambda>e. plans_lead (assistant_blocks (snd e))) demo_events" by code_simp+
  then show ?thesis using f assistant_text_conserved [OF f] by auto
qed

text \<open>A text before a plan in one message comes out after it.\<close>

lemma text_before_plan_is_reordered:
  "case feed_indexed plain_env
      [(0, [(''type'', JStr ''assistant''), (''id'', JStr ''e''),
        (''message'', JObj [(''content'', JArr
          [JObj [(''type'', JStr ''text''), (''text'', JStr ''first'')],
           JObj [(''type'', JStr ''tool_use''), (''name'', JStr ''ExitPlanMode''),
                 (''input'', JObj [(''plan'', JStr ''then'')])]])])])] (new_aggregator 0 False) of
     Inr (ds, a) \<Rightarrow> out_text (ds @ fst (flush_pending a)) = ''thenfirst'' | Inl _ \<Rightarrow> False"
  by code_simp

theorem tool_previews_bounded_witness:
  "\<exists>ds a. feed_indexed plain_env demo_events (new_aggregator 0 True) = Inr (ds, a) \<and>
     list_all delta_bounded ds \<and> list_all row_bounded (ag_tools a)"
proof -
  obtain ds a where f: "feed_indexed plain_env demo_events (new_aggregator 0 True) = Inr (ds, a)"
    using demo_feed by blast
  then show ?thesis using tool_previews_bounded [OF f] by auto
qed

text \<open>
  A truncation marker outlives the output it described: when a second tool result
  lands on the same newest tool row, the row keeps \<open>output_truncated\<close> from the first,
  although the output it now shows is whole.
\<close>

theorem stale_truncation_marker:
  "\<exists>ds a row. feed_indexed plain_env
       [(0, demo_tool_use), (1, demo_tool_result (replicate 501 (CHR ''x''))), (2, demo_tool_result ''ok'')]
       (new_aggregator 0 False) = Inr (ds, a) \<and>
     ag_tools a = [row] \<and> dget row ''output'' = JStr ''ok'' \<and> dget row ''output_truncated'' = JBool True"
proof -
  have "\<not> is_cont (CHR ''x'')" by code_simp
  then have "utf8_chars (replicate n (CHR ''x'')) = replicate n [CHR ''x'']" for n
  proof (induction n)
    case (Suc n)
    have "takeWhile is_cont (replicate n (CHR ''x'')) = []" "dropWhile is_cont (replicate n (CHR ''x'')) = replicate n (CHR ''x'')"
      using Suc.prems by (cases n; simp)+
    then show ?case using Suc by simp
  qed simp
  then have big: "over_cap (JStr (replicate 501 (CHR ''x'')))"
    by (simp add: over_cap_def str_len_def tool_preview_chars_def del: replicate.simps)
  have ok: "str_len ''ok'' = 2" "str_len ''ls'' = 2" by code_simp+
  show ?thesis
    using big
    by (simp add: demo_tool_use_def demo_tool_result_def feed_event_def feed_tool_use_def feed_tool_result_def
        new_aggregator_def buffer_tool_def attach_tool_output_def tool_preview_def Let_def streamed_def
        dget_or_def input_over_cap_def over_cap_def ok tool_preview_chars_def cut_def
        del: replicate.simps)
qed


end
