(* ===== verification/Message_Projection.thy ===== *)
theory Message_Projection
  imports Prelude Message_Events Message_Aggregator
begin

text \<open>
  \<open>src/core/message_projection.py\<close> and the whole-list reference of
  \<open>src/api/message_utils.py\<close>. A projection folds the closed prefix of the history once and
  re-evaluates the still-open region on every ingest; the theorems say that it always shows
  what the whole-list fold shows, and that its pages are complete turns that tile the
  history.
\<close>

subsection \<open>The whole-list reference\<close>

fun message_of :: "delta \<Rightarrow> dict option" where
  "message_of (Message m) = Some m"
| "message_of (Stream _) = None"

definition committed_messages :: "render_env \<Rightarrow> dict list \<Rightarrow> aggregator \<Rightarrow> (dict list \<times> aggregator) py" where
  "committed_messages env events agg =
     py_bind (stable_history_projection events) (\<lambda>ps.
       py_bind (feed_indexed env ps agg) (\<lambda>(ds, agg'). Inr (List.map_filter message_of ds, agg')))"

definition events_to_view :: "render_env \<Rightarrow> dict list \<Rightarrow> nat \<Rightarrow> (dict list \<times> dict option) py" where
  "events_to_view env events offset =
     py_bind (committed_messages env events (new_aggregator offset False)) (\<lambda>(ms, agg).
       Inr (ms, pending_draft_message agg))"

definition events_to_messages :: "render_env \<Rightarrow> dict list \<Rightarrow> nat \<Rightarrow> dict list py" where
  "events_to_messages env events offset =
     py_bind (committed_messages env events (new_aggregator offset False)) (\<lambda>(ms, agg).
       Inr (ms @ List.map_filter message_of (fst (flush_pending agg))))"

subsection \<open>The projection\<close>

definition is_separator :: "dict \<Rightarrow> bool" where
  "is_separator m = (dget m ''role'' = JStr ''separator'')"

text \<open>The loop of \<open>_fold_messages\<close> over the deltas: messages, and where the separators are.\<close>

fun collect :: "delta list \<Rightarrow> dict list \<Rightarrow> nat list \<Rightarrow> dict list \<times> nat list" where
  "collect [] msgs seps = (msgs, seps)"
| "collect (d # ds) msgs seps =
     (case d of
        Stream _ \<Rightarrow> collect ds msgs seps
      | Message m \<Rightarrow> collect ds (msgs @ [m]) (if is_separator m then seps @ [length msgs] else seps))"

definition fold_messages ::
  "render_env \<Rightarrow> aggregator \<Rightarrow> dict list \<Rightarrow> nat \<Rightarrow> (dict list \<times> nat list \<times> aggregator) py" where
  "fold_messages env agg events base =
     py_bind (stable_history_projection events) (\<lambda>ps.
       py_bind (feed_indexed env (map (shift base) ps) agg) (\<lambda>(ds, agg').
         let (msgs, seps) = collect ds [] [] in Inr (msgs, seps, agg')))"

record projection =
  pj_offset :: nat
  pj_agg :: aggregator
  pj_committed_final :: "dict list"
  pj_seps_final :: "nat list"
  pj_region :: "dict list"
  pj_bodies :: "((int \<times> int) \<times> string) list"
  pj_event_count :: nat
  pj_committed :: "dict list"
  pj_separators :: "nat list"
  pj_draft :: "dict option"
  pj_history :: "dict list"

text \<open>The first half of \<open>_ingest\<close>: commit what is closed.\<close>

definition ingest_closed :: "render_env \<Rightarrow> dict list \<Rightarrow> projection \<Rightarrow> projection py" where
  "ingest_closed env events p0 =
     (let p = p0\<lparr>pj_region := pj_region p0 @ events, pj_event_count := pj_event_count p0 + length events\<rparr>;
          closed = stable_closed_prefix_len (pj_region p)
      in if closed = 0 then Inr p
         else
           let prefix = take closed (pj_region p);
               p' = p\<lparr>pj_region := drop closed (pj_region p)\<rparr>;
               fed_base = pj_event_count p' - length (pj_region p') - closed - pj_offset p'
           in py_bind (fold_messages env (pj_agg p') prefix fed_base) (\<lambda>(msgs, seps, agg).
                Inr (p'\<lparr>pj_agg := agg,
                        pj_seps_final := pj_seps_final p' @ map ((+) (length (pj_committed_final p'))) seps,
                        pj_committed_final := pj_committed_final p' @ msgs\<rparr>)))"

text \<open>The second half: evaluate the open region on a clone.\<close>

definition ingest_view :: "render_env \<Rightarrow> projection \<Rightarrow> projection py" where
  "ingest_view env p =
     (let region_base = pj_event_count p - length (pj_region p) - pj_offset p
      in py_bind (fold_messages env (clone_aggregator (pj_agg p)) (pj_region p) region_base)
           (\<lambda>(msgs, seps, view_agg).
             let committed = pj_committed_final p @ msgs;
                 draft = pending_draft_message view_agg
             in Inr (p\<lparr>pj_committed := committed,
                       pj_separators := pj_seps_final p @ map ((+) (length (pj_committed_final p))) seps,
                       pj_draft := draft,
                       pj_history := (case draft of None \<Rightarrow> committed | Some d \<Rightarrow> committed @ [d])\<rparr>)))"

definition ingest :: "render_env \<Rightarrow> dict list \<Rightarrow> projection \<Rightarrow> projection py" where
  "ingest env events p = py_bind (ingest_closed env events p) (ingest_view env)"

definition new_projection :: "render_env \<Rightarrow> dict list \<Rightarrow> nat \<Rightarrow> projection py" where
  "new_projection env events offset =
     ingest env events
       \<lparr>pj_offset = offset, pj_agg = new_aggregator offset False, pj_committed_final = [], pj_seps_final = [],
        pj_region = [], pj_bodies = [], pj_event_count = offset, pj_committed = [], pj_separators = [],
        pj_draft = None, pj_history = []\<rparr>"

definition advanced :: "render_env \<Rightarrow> dict list \<Rightarrow> projection \<Rightarrow> projection py" where
  "advanced env events p =
     ingest env events (p\<lparr>pj_agg := clone_aggregator (pj_agg p), pj_bodies := []\<rparr>)"

subsection \<open>Pages\<close>

definition bisect_left :: "nat list \<Rightarrow> nat \<Rightarrow> nat" where
  "bisect_left xs x = length (takeWhile (\<lambda>y. y < x) xs)"

definition snap_to_turn_start :: "projection \<Rightarrow> nat \<Rightarrow> nat" where
  "snap_to_turn_start p desired =
     (let i = bisect_left (pj_separators p) desired
      in if i \<noteq> 0 then pj_separators p ! (i - 1) + 1 else 0)"

definition page_tail :: "projection \<Rightarrow> int \<Rightarrow> dict list \<times> nat \<times> bool" where
  "page_tail p limit =
     (let start = snap_to_turn_start p (nat (max 0 (int (length (pj_committed p)) - limit)))
      in (drop start (pj_committed p), start, start > 0))"

definition slice_before :: "projection \<Rightarrow> int \<Rightarrow> int \<Rightarrow> dict list \<times> nat \<times> bool" where
  "slice_before p before0 limit =
     (let before = max 0 (min before0 (int (length (pj_committed p))));
          start = snap_to_turn_start p (nat (max 0 (before - limit)))
      in (take (nat before - start) (drop start (pj_committed p)), start, start > 0))"

text \<open>The rendered page bodies: a dictionary in insertion order.\<close>

definition page_body_limit :: nat where "page_body_limit = 4"

definition cached_page_body :: "int \<Rightarrow> int \<Rightarrow> projection \<Rightarrow> string option \<times> projection" where
  "cached_page_body before limit p =
     (case map_of (pj_bodies p) (before, limit) of
        None \<Rightarrow> (None, p)
      | Some body \<Rightarrow> (Some body, p\<lparr>pj_bodies :=
          filter (\<lambda>e. fst e \<noteq> (before, limit)) (pj_bodies p) @ [((before, limit), body)]\<rparr>))"

fun body_put :: "((int \<times> int) \<times> string) list \<Rightarrow> int \<times> int \<Rightarrow> string \<Rightarrow> ((int \<times> int) \<times> string) list" where
  "body_put [] k b = [(k, b)]"
| "body_put (e # es) k b = (if fst e = k then (k, b) # es else e # body_put es k b)"

fun body_evict :: "((int \<times> int) \<times> string) list \<Rightarrow> ((int \<times> int) \<times> string) list" where
  "body_evict [] = []"
| "body_evict (e # es) = (if length (e # es) > page_body_limit then body_evict es else e # es)"

definition store_page_body :: "int \<Rightarrow> int \<Rightarrow> string \<Rightarrow> projection \<Rightarrow> projection" where
  "store_page_body before limit body p =
     p\<lparr>pj_bodies := body_evict (body_put (pj_bodies p) (before, limit) body)\<rparr>"

subsection \<open>The projection shows the whole-list view\<close>

definition separators_of :: "dict list \<Rightarrow> nat list" where
  "separators_of ms = filter (\<lambda>i. is_separator (ms ! i)) [0..<length ms]"

lemma separators_of_Nil [simp]: "separators_of [] = []"
  by (simp add: separators_of_def)

lemma map_filter_append: "List.map_filter f (xs @ ys) = List.map_filter f xs @ List.map_filter f ys"
  by (simp add: map_filter_def)

lemma separators_of_append:
  "separators_of (ms @ ns) = separators_of ms @ map ((+) (length ms)) (separators_of ns)"
proof -
  have "map ((+) k) [0..<n] = [k..<k + n]" for k n :: nat by (induction n) auto
  then have "[0..<length (ms @ ns)] = [0..<length ms] @ map ((+) (length ms)) [0..<length ns]"
    by (simp add: upt_add_eq_append [of 0])
  moreover have "filter (\<lambda>i. is_separator ((ms @ ns) ! i)) [0..<length ms] =
      filter (\<lambda>i. is_separator (ms ! i)) [0..<length ms]"
    by (rule filter_cong) (simp_all add: nth_append)
  ultimately show ?thesis
    by (simp add: separators_of_def filter_map comp_def)
qed

lemma collect_eq:
  "collect ds ms (separators_of ms) =
     (ms @ List.map_filter message_of ds, separators_of (ms @ List.map_filter message_of ds))"
proof (induction ds arbitrary: ms)
  case Nil
  then show ?case by (simp add: map_filter_simps)
next
  case (Cons d ds)
  show ?case
  proof (cases d)
    case (Message m)
    have "separators_of (ms @ [m]) = (if is_separator m then separators_of ms @ [length ms] else separators_of ms)"
      by (simp add: separators_of_append) (simp add: separators_of_def)
    then show ?thesis using Message Cons.IH [of "ms @ [m]"] by (auto simp: map_filter_simps)
  qed (use Cons in \<open>simp add: map_filter_simps\<close>)
qed

lemma fold_messages_eq:
  "fold_messages env agg events base =
     py_bind (stable_history_projection events) (\<lambda>ps.
       py_bind (feed_indexed env (map (shift base) ps) agg) (\<lambda>(ds, agg').
         let ms = List.map_filter message_of ds in Inr (ms, separators_of ms, agg')))"
  using collect_eq [of _ "[]"] by (simp add: fold_messages_def Let_def)

lemma feed_indexed_append:
  "feed_indexed env (xs @ ys) a =
     py_bind (feed_indexed env xs a) (\<lambda>(ds, b). py_bind (feed_indexed env ys b) (\<lambda>(es, c). Inr (ds @ es, c)))"
  by (induction env xs a rule: feed_indexed.induct) (auto simp: py_bind_def split: sum.splits)

lemma shift_zero [simp]: "shift 0 = id"
  by (simp add: shift_def fun_eq_iff)

lemma shift_shift: "shift a (shift b p) = shift (a + b) p"
  by (simp add: shift_def)

text \<open>Folding a closed prefix and then the rest is folding the whole.\<close>

lemma committed_split:
  assumes "closed_events xs"
    and "committed_messages env xs agg = Inr (ms, b)"
    and "fold_messages env b ys (length xs) = Inr (ns, seps, c)"
  shows "committed_messages env (xs @ ys) agg = Inr (ms @ ns, c)" and "seps = separators_of ns"
  using assms
  by (auto simp: committed_messages_def fold_messages_eq stable_split feed_indexed_append py_bind_Inr_iff
      map_filter_append Let_def)

text \<open>What a projection holds after folding the events \<open>evs\<close>.\<close>

definition committed_inv :: "render_env \<Rightarrow> nat \<Rightarrow> dict list \<Rightarrow> projection \<Rightarrow> bool" where
  "committed_inv env offset evs p =
     (pj_offset p = offset \<and> pj_event_count p = offset + length evs \<and>
      (\<exists>xs. evs = xs @ pj_region p \<and> closed_events xs \<and>
        committed_messages env xs (new_aggregator offset False) = Inr (pj_committed_final p, pj_agg p)) \<and>
      pj_seps_final p = separators_of (pj_committed_final p))"

lemma ingest_closed_inv:
  assumes inv: "committed_inv env offset evs p" and r: "ingest_closed env news p = Inr p'"
  shows "committed_inv env offset (evs @ news) p'"
proof -
  obtain xs where xs: "evs = xs @ pj_region p" "closed_events xs"
    "committed_messages env xs (new_aggregator offset False) = Inr (pj_committed_final p, pj_agg p)"
    using inv by (auto simp: committed_inv_def)
  let ?reg = "pj_region p @ news"
  let ?n = "stable_closed_prefix_len ?reg"
  show ?thesis
  proof (cases "?n = 0")
    case True
    then show ?thesis using r inv xs by (auto simp: ingest_closed_def committed_inv_def)
  next
    case False
    let ?pre = "take ?n ?reg" and ?post = "drop ?n ?reg"
    have pre: "closed_events ?pre" and len: "?n \<le> length ?reg" by (rule stable_closed_prefix_closed)+
    have base: "pj_event_count p + length news - length ?post - ?n - pj_offset p = length xs"
      using inv len xs(1) by (simp add: committed_inv_def)
    obtain msgs seps agg where f: "fold_messages env (pj_agg p) ?pre (length xs) = Inr (msgs, seps, agg)"
      and p': "p' = p\<lparr>pj_region := ?post, pj_event_count := pj_event_count p + length news, pj_agg := agg,
        pj_seps_final := pj_seps_final p @ map ((+) (length (pj_committed_final p))) seps,
        pj_committed_final := pj_committed_final p @ msgs\<rparr>"
      using r False base by (auto simp: ingest_closed_def Let_def py_bind_Inr_iff)
    note cs = committed_split [OF xs(2,3) f]
    have "evs @ news = (xs @ ?pre) @ ?post"
      by (simp only: xs(1) append_assoc append_take_drop_id)
    then have "evs @ news = (xs @ ?pre) @ pj_region p'" by (simp only: p') simp
    moreover have "closed_events (xs @ ?pre)" by (rule closed_append [OF xs(2) pre])
    moreover have "committed_messages env (xs @ ?pre) (new_aggregator offset False) =
        Inr (pj_committed_final p', pj_agg p')" using cs(1) by (simp only: p') simp
    ultimately have "\<exists>xs. evs @ news = xs @ pj_region p' \<and> closed_events xs \<and>
        committed_messages env xs (new_aggregator offset False) = Inr (pj_committed_final p', pj_agg p')"
      by blast
    then show ?thesis
      using inv cs(2) p' by (simp add: committed_inv_def separators_of_append)
  qed
qed

definition view_inv :: "render_env \<Rightarrow> nat \<Rightarrow> dict list \<Rightarrow> projection \<Rightarrow> bool" where
  "view_inv env offset evs p =
     (committed_inv env offset evs p \<and>
      (\<exists>agg. committed_messages env evs (new_aggregator offset False) = Inr (pj_committed p, agg) \<and>
         pj_draft p = pending_draft_message agg) \<and>
      pj_separators p = separators_of (pj_committed p) \<and>
      pj_history p = pj_committed p @ (case pj_draft p of None \<Rightarrow> [] | Some d \<Rightarrow> [d]))"

lemma ingest_view_inv:
  assumes inv: "committed_inv env offset evs p" and r: "ingest_view env p = Inr p'"
  shows "view_inv env offset evs p'"
proof -
  obtain xs where xs: "evs = xs @ pj_region p" "closed_events xs"
    "committed_messages env xs (new_aggregator offset False) = Inr (pj_committed_final p, pj_agg p)"
    using inv by (auto simp: committed_inv_def)
  have base: "pj_event_count p - length (pj_region p) - pj_offset p = length xs"
    using inv xs(1) by (simp add: committed_inv_def)
  obtain msgs seps agg where f: "fold_messages env (pj_agg p) (pj_region p) (length xs) = Inr (msgs, seps, agg)"
    and p': "p' = p\<lparr>pj_committed := pj_committed_final p @ msgs,
        pj_separators := pj_seps_final p @ map ((+) (length (pj_committed_final p))) seps,
        pj_draft := pending_draft_message agg,
        pj_history := (case pending_draft_message agg of None \<Rightarrow> pj_committed_final p @ msgs
                       | Some d \<Rightarrow> (pj_committed_final p @ msgs) @ [d])\<rparr>"
    using r base by (auto simp: ingest_view_def Let_def py_bind_Inr_iff)
  note cs = committed_split [OF xs(2,3) f]
  have "committed_inv env offset evs p'" using inv p' by (simp add: committed_inv_def)
  then show ?thesis
    using inv cs p' xs(1)
    by (auto simp: view_inv_def committed_inv_def separators_of_append split: option.splits)
qed

text \<open>The projections a server can have published for the events \<open>evs\<close>.\<close>

inductive published :: "render_env \<Rightarrow> nat \<Rightarrow> dict list \<Rightarrow> projection \<Rightarrow> bool" for env offset where
  built: "new_projection env evs offset = Inr p \<Longrightarrow> published env offset evs p"
| grown: "published env offset evs p \<Longrightarrow> advanced env news p = Inr p' \<Longrightarrow> published env offset (evs @ news) p'"
| served: "published env offset evs p \<Longrightarrow> published env offset evs (snd (cached_page_body before limit p))"
| rendered: "published env offset evs p \<Longrightarrow> published env offset evs (store_page_body before limit body p)"

lemma ingest_inv:
  "committed_inv env offset evs p \<Longrightarrow> ingest env news p = Inr p' \<Longrightarrow> view_inv env offset (evs @ news) p'"
  by (auto simp: ingest_def py_bind_Inr_iff dest: ingest_closed_inv ingest_view_inv)

lemma view_inv_bodies: "view_inv env offset evs p \<Longrightarrow> view_inv env offset evs (p\<lparr>pj_bodies := b\<rparr>)"
  by (simp add: view_inv_def committed_inv_def)

lemma published_inv: "published env offset evs p \<Longrightarrow> view_inv env offset evs p"
proof (induction rule: published.induct)
  case (built evs p)
  have "committed_inv env offset []
      \<lparr>pj_offset = offset, pj_agg = new_aggregator offset False, pj_committed_final = [], pj_seps_final = [],
       pj_region = [], pj_bodies = [], pj_event_count = offset, pj_committed = [], pj_separators = [],
       pj_draft = None, pj_history = []\<rparr>"
    by (simp add: committed_inv_def committed_messages_def stable_history_projection_def deferred_by_end_def
        project_order_def separators_of_def map_filter_simps)
  from ingest_inv [OF this] built show ?case by (simp add: new_projection_def)
next
  case (grown evs p news p')
  then have "committed_inv env offset evs (p\<lparr>pj_agg := clone_aggregator (pj_agg p), pj_bodies := []\<rparr>)"
    by (simp add: view_inv_def committed_inv_def)
  from ingest_inv [OF this] grown(2) show ?case by (simp add: advanced_def)
next
  case (served evs p before limit)
  then show ?case by (auto simp: cached_page_body_def view_inv_bodies split: option.splits)
qed (simp add: store_page_body_def view_inv_bodies)


text \<open>
  C29. The incremental projection is the whole-list view: however the history was split
  into a first build and later appends, and wherever open run intervals fell, a published
  projection's committed messages and draft are those of one fold over all events, its
  history is the flushed message list, and its event count is the number of events.
\<close>

theorem projection_is_whole_view:
  assumes "published env offset evs p"
  shows "events_to_view env evs offset = Inr (pj_committed p, pj_draft p) \<and>
    events_to_messages env evs offset = Inr (pj_history p) \<and>
    pj_event_count p = offset + length evs"
proof -
  obtain agg where v: "committed_messages env evs (new_aggregator offset False) = Inr (pj_committed p, agg)"
    "pj_draft p = pending_draft_message agg"
    "pj_history p = pj_committed p @ (case pj_draft p of None \<Rightarrow> [] | Some d \<Rightarrow> [d])"
    "pj_event_count p = offset + length evs"
    using published_inv [OF assms] by (auto simp: view_inv_def committed_inv_def)
  have "List.map_filter message_of (fst (flush_pending agg)) =
      (case pending_draft_message agg of None \<Rightarrow> [] | Some d \<Rightarrow> [d])"
    by (auto simp: flush_pending_def flush_to_message_delta_def map_filter_simps split: option.splits)
  then show ?thesis using v by (simp add: events_to_view_def events_to_messages_def)
qed

subsection \<open>Pages are whole turns and tile the history\<close>

lemma snap_bounds:
  assumes "pj_separators p = separators_of (pj_committed p)"
  shows "snap_to_turn_start p d \<le> d"
    and "snap_to_turn_start p d = 0 \<or>
      (snap_to_turn_start p d \<le> length (pj_committed p) \<and> is_separator (pj_committed p ! (snap_to_turn_start p d - 1)))"
proof -
  let ?S = "pj_separators p" and ?i = "bisect_left (pj_separators p) d"
  have S: "snap_to_turn_start p d = (if ?i \<noteq> 0 then ?S ! (?i - 1) + 1 else 0)"
    by (simp add: snap_to_turn_start_def Let_def)
  have "?S ! (?i - 1) \<in> set ?S \<and> ?S ! (?i - 1) < d" if "?i \<noteq> 0"
  proof -
    let ?T = "takeWhile (\<lambda>y. y < d) ?S"
    have i: "?i - 1 < length ?T" using that by (simp add: bisect_left_def)
    then have "?S ! (?i - 1) = ?T ! (?i - 1)" by (simp add: takeWhile_nth)
    then show ?thesis using nth_mem [OF i] set_takeWhileD [of _ "\<lambda>y. y < d" ?S] by metis
  qed
  then show "snap_to_turn_start p d \<le> d" using S by auto
  show "snap_to_turn_start p d = 0 \<or>
      (snap_to_turn_start p d \<le> length (pj_committed p) \<and> is_separator (pj_committed p ! (snap_to_turn_start p d - 1)))"
    using S \<open>?i \<noteq> 0 \<Longrightarrow> _\<close> by (auto simp: assms separators_of_def)
qed

lemma published_separators: "published env offset evs p \<Longrightarrow> pj_separators p = separators_of (pj_committed p)"
  using published_inv by (auto simp: view_inv_def)

text \<open>
  A page below any ordinal, for any limit, starts at the start of a turn (at the start
  of the history or right after a separator), ends right below the clamped ordinal, holds
  at least the limit unless the history below is exhausted, and reports more exactly when
  older messages exist.
\<close>

theorem pages_are_whole_turns:
  assumes "published env offset evs p" and "slice_before p before limit = (page, start, has_more)"
  defines "upto_ord \<equiv> max 0 (min before (int (length (pj_committed p))))"
  shows "(start = 0 \<or> is_separator (pj_committed p ! (start - 1))) \<and>
    page = take (nat upto_ord - start) (drop start (pj_committed p)) \<and>
    min upto_ord limit \<le> int (length page) \<and> (has_more \<longleftrightarrow> 0 < start)"
proof -
  note sn = snap_bounds [OF published_separators [OF assms(1)], of "nat (max 0 (upto_ord - limit))"]
  have r: "start = snap_to_turn_start p (nat (max 0 (upto_ord - limit)))"
    "page = take (nat upto_ord - start) (drop start (pj_committed p))" "has_more = (0 < start)"
    using assms(2) by (auto simp: slice_before_def Let_def upto_ord_def)
  have st: "start \<le> nat (max 0 (upto_ord - limit))" using sn(1) r(1) by simp
  have "nat upto_ord \<le> length (pj_committed p)" by (simp add: upto_ord_def)
  then have len: "length page = nat upto_ord - start" by (simp add: r(2))
  have nonneg: "0 \<le> upto_ord" by (simp add: upto_ord_def)
  have "min upto_ord limit \<le> int (nat upto_ord - start)"
    using st nonneg by (cases "limit \<le> upto_ord"; cases "0 \<le> limit") (simp_all add: min_def max_def split: if_splits, linarith+)
  then have "min upto_ord limit \<le> int (length page)" by (simp add: len)
  then show ?thesis using sn(2) r by auto
qed

text \<open>A client that reads older pages until there are no more.\<close>

fun pages_back :: "nat \<Rightarrow> projection \<Rightarrow> int \<Rightarrow> nat \<Rightarrow> dict list option" where
  "pages_back 0 p limit before = None"
| "pages_back (Suc fuel) p limit before =
     (let (page, next_before, has_more) = slice_before p (int before) limit
      in if has_more then map_option (\<lambda>older. older @ page) (pages_back fuel p limit next_before)
         else Some page)"

definition read_history :: "nat \<Rightarrow> projection \<Rightarrow> int \<Rightarrow> dict list option" where
  "read_history fuel p limit =
     (let (page, start, has_more) = page_tail p limit
      in if has_more then map_option (\<lambda>older. older @ page) (pages_back fuel p limit start)
         else Some page)"

lemma pages_back_all:
  assumes sep: "pj_separators p = separators_of (pj_committed p)" and "1 \<le> limit"
  shows "before \<le> length (pj_committed p) \<Longrightarrow> before < fuel \<Longrightarrow>
    pages_back fuel p limit before = Some (take before (pj_committed p))"
proof (induction fuel arbitrary: before)
  case (Suc fuel)
  let ?c = "pj_committed p"
  let ?s = "snap_to_turn_start p (nat (max 0 (int before - limit)))"
  have sl: "slice_before p (int before) limit = (take (before - ?s) (drop ?s ?c), ?s, 0 < ?s)"
    using Suc.prems by (simp add: slice_before_def Let_def)
  have s: "?s \<le> nat (max 0 (int before - limit))" by (rule snap_bounds(1) [OF sep])
  show ?case
  proof (cases "?s = 0")
    case True
    then show ?thesis by (simp add: sl)
  next
    case False
    then have lt: "?s < before" using s \<open>1 \<le> limit\<close> by linarith
    then have "pages_back fuel p limit ?s = Some (take ?s ?c)"
      using Suc by (intro Suc.IH) auto
    moreover have "take ?s ?c @ take (before - ?s) (drop ?s ?c) = take before ?c"
      using lt by (metis le_add_diff_inverse less_imp_le take_add)
    ultimately show ?thesis using False by (simp add: sl)
  qed
qed simp

text \<open>
  C31. Paging is lossless and ends: reading the tail page and then each older page until
  none is left, with any positive limit, takes at most one round per message and yields
  the committed history, every message once and in order.
\<close>

theorem pages_tile_history:
  assumes "published env offset evs p" and "1 \<le> limit" and "length (pj_committed p) < fuel"
  shows "read_history fuel p limit = Some (pj_committed p)"
proof -
  let ?c = "pj_committed p"
  note sep = published_separators [OF assms(1)]
  let ?s = "snap_to_turn_start p (nat (max 0 (int (length ?c) - limit)))"
  have t: "page_tail p limit = (drop ?s ?c, ?s, 0 < ?s)" by (simp add: page_tail_def Let_def)
  have s: "?s \<le> nat (max 0 (int (length ?c) - limit))" by (rule snap_bounds(1) [OF sep])
  then have le: "?s \<le> length ?c" using assms(2) by linarith
  show ?thesis
    using pages_back_all [OF sep assms(2) le] assms(3) le by (simp add: read_history_def t)
qed


text \<open>The page-body cache: a stored body is served, and at most four are kept.\<close>

lemma body_evict_drop: "body_evict es = drop (length es - page_body_limit) es"
  by (induction es) (auto simp: Suc_diff_le)

lemma body_put_lookup: "map_of (body_put es k b) = (map_of es)(k \<mapsto> b)"
  by (induction es k b rule: body_put.induct) auto

lemma body_put_last: "k \<notin> fst ` set es \<Longrightarrow> body_put es k b = es @ [(k, b)]"
  by (induction es k b rule: body_put.induct) auto

lemma body_put_length: "k \<in> fst ` set es \<Longrightarrow> length (body_put es k b) = length es"
  by (induction es k b rule: body_put.induct) auto

lemma stored_body_served:
  assumes "length (pj_bodies p) \<le> page_body_limit"
  shows "fst (cached_page_body before limit (store_page_body before limit body p)) = Some body"
    and "length (pj_bodies (store_page_body before limit body p)) \<le> page_body_limit"
proof -
  let ?k = "(before, limit)" and ?es = "pj_bodies p"
  have "map_of (body_evict (body_put ?es ?k body)) ?k = Some body"
  proof (cases "?k \<in> fst ` set ?es")
    case True
    then have "body_evict (body_put ?es ?k body) = body_put ?es ?k body"
      using assms by (simp add: body_evict_drop body_put_length)
    then show ?thesis by (simp add: body_put_lookup)
  next
    case False
    have "length ?es + 1 - page_body_limit \<le> length ?es" by (simp add: page_body_limit_def)
    then have "body_evict (body_put ?es ?k body) = drop (length ?es + 1 - page_body_limit) ?es @ [(?k, body)]"
      by (simp add: body_evict_drop body_put_last [OF False])
    moreover have "map_of (drop n ?es) ?k = None" for n
      using False by (auto simp: map_of_eq_None_iff dest: in_set_dropD)
    ultimately show ?thesis by (simp add: map_add_def)
  qed
  then show "fst (cached_page_body before limit (store_page_body before limit body p)) = Some body"
    by (simp add: cached_page_body_def store_page_body_def)
  show "length (pj_bodies (store_page_body before limit body p)) \<le> page_body_limit"
    by (simp add: store_page_body_def body_evict_drop)
qed

subsection \<open>A concrete history\<close>

definition demo_history :: "dict list" where
  "demo_history =
     [[(''session_id'', JStr ''run'')], demo_assistant ''a'',
      [(''type'', JStr ''user''), (''content'', JStr ''queued''), (''id'', JStr ''u'')],
      demo_assistant ''b'', [(''type'', JStr ''master_done''), (''thinking_seconds'', JInt 3)],
      demo_assistant ''c'']"

definition demo_first :: "projection py" where
  "demo_first = new_projection plain_env (take 3 demo_history) 0"

definition demo_second :: "projection py" where
  "demo_second = py_bind demo_first (advanced plain_env (drop 3 demo_history))"

lemma demo_published: "\<exists>p. demo_second = Inr p \<and> published plain_env 0 demo_history p \<and> length (pj_committed p) = 4"
proof -
  have "case demo_first of Inl _ \<Rightarrow> False | Inr p \<Rightarrow> True" by code_simp
  then obtain p where p: "demo_first = Inr p" by (auto split: sum.splits)
  have "case demo_second of Inl _ \<Rightarrow> False | Inr q \<Rightarrow> length (pj_committed q) = 4" by code_simp
  then obtain q where q: "demo_second = Inr q" "length (pj_committed q) = 4" by (auto split: sum.splits)
  have "published plain_env 0 (take 3 demo_history) p"
    using p by (auto simp: demo_first_def intro: published.built)
  then have "published plain_env 0 (take 3 demo_history @ drop 3 demo_history) q"
    using q(1) by (intro published.grown) (auto simp: demo_second_def p)
  then show ?thesis using q by auto
qed

theorem projection_is_whole_view_witness:
  "\<exists>p. demo_second = Inr p \<and> events_to_view plain_env demo_history 0 = Inr (pj_committed p, pj_draft p)"
  using demo_published projection_is_whole_view by blast

theorem pages_are_whole_turns_witness:
  "\<exists>p page start has_more. demo_second = Inr p \<and> slice_before p 4 1 = (page, start, has_more) \<and>
     (start = 0 \<or> is_separator (pj_committed p ! (start - 1)))"
proof -
  obtain p where p: "demo_second = Inr p" "published plain_env 0 demo_history p" using demo_published by blast
  obtain page start has_more where s: "slice_before p 4 1 = (page, start, has_more)"
    by (cases "slice_before p 4 1") auto
  show ?thesis using p s pages_are_whole_turns [OF p(2) s] by blast
qed

theorem pages_tile_history_witness:
  "\<exists>p. demo_second = Inr p \<and> read_history 5 p 1 = Some (pj_committed p)"
proof -
  obtain p where "demo_second = Inr p" "published plain_env 0 demo_history p" "length (pj_committed p) = 4"
    using demo_published by blast
  then show ?thesis using pages_tile_history [of plain_env 0 demo_history p 1 5] by auto
qed

end
