(* ===== verification/Runs.thy ===== *)
theory Runs
  imports Prelude Ndjson Event_Types
begin

text \<open>
  \<open>src/core/runs.py\<close>: what is true of an interrupted run, judged from facts on disk and in
  \<open>/proc\<close>. A snapshot of those facts is the argument: the content of \<open>/proc/<pid>/stat\<close>
  per pid, the raw log's bytes and stat, one scan of the stdout holders. A backend's
  \<open>translate\<close> is a state machine over an arbitrary state that may raise.
\<close>

subsection \<open>Process liveness\<close>

text \<open>\<open>content.rpartition(")")[2]\<close>: all of it when there is no parenthesis.\<close>

definition after_last :: "char \<Rightarrow> string \<Rightarrow> string" where
  "after_last c s = rev (takeWhile (\<lambda>x. x \<noteq> c) (rev s))"

type_synonym proc_stat = "int \<Rightarrow> string option"   \<comment> \<open>None: OSError\<close>

definition read_pid_stat :: "proc_stat \<Rightarrow> int \<Rightarrow> (string \<times> string) option" where
  "read_pid_stat proc pid =
     (case proc pid of
        None \<Rightarrow> None
      | Some content \<Rightarrow>
          let rest = str_split (after_last (CHR '')'') content) in
          if length rest < 20 then None else Some (rest ! 19, rest ! 0))"

definition is_run_alive ::
  "proc_stat \<Rightarrow> int option \<Rightarrow> string option \<Rightarrow> stamp option \<Rightarrow> int \<Rightarrow> bool py" where
  "is_run_alive proc pid pid_start started_at host_boot_time =
     (case (pid, pid_start, started_at) of
        (Some p, Some s, Some t) \<Rightarrow>
          (case read_pid_stat proc p of
             None \<Rightarrow> Inr False
           | Some (current_start, state) \<Rightarrow>
               if current_start \<noteq> s \<or> state = ''Z'' then Inr False
               else (case t of
                       Naive _ \<Rightarrow> Inl (ValueError ''started_at must be timezone-aware'')
                     | Aware u \<Rightarrow> py_bind (to_utc u) (\<lambda>v. Inr (v > host_boot_time))))
      | _ \<Rightarrow> Inr False)"

text \<open>\<open>int(text)\<close> in ASCII: a sign, then digits with single underscores between them.\<close>

definition ascii_digit_val :: "char \<Rightarrow> nat option" where
  "ascii_digit_val c = (let n = of_char c :: nat in if 48 \<le> n \<and> n \<le> 57 then Some (n - 48) else None)"

fun int_digits :: "nat \<Rightarrow> bool \<Rightarrow> string \<Rightarrow> nat option" where
  "int_digits acc after_digit [] = (if after_digit then Some acc else None)"
| "int_digits acc after_digit (c # cs) =
     (case ascii_digit_val c of
        Some d \<Rightarrow> int_digits (10 * acc + d) True cs
      | None \<Rightarrow> if c = CHR ''_'' \<and> after_digit then int_digits acc False cs else None)"

definition py_int :: "string \<Rightarrow> int option" where
  "py_int s0 =
     (let s = str_strip s0 in
      case s of
        [] \<Rightarrow> None
      | c # cs \<Rightarrow>
          if c = CHR ''-'' then map_option (\<lambda>n. - int n) (int_digits 0 False cs)
          else if c = CHR ''+'' then map_option int (int_digits 0 False cs)
          else map_option int (int_digits 0 False s))"

text \<open>\<open>/proc/stat\<close>, as lines; the boot time is in seconds.\<close>

definition read_host_boot_time :: "string list \<Rightarrow> int py" where
  "read_host_boot_time lines =
     (case find (\<lambda>l. prefix ''btime '' l) lines of
        None \<Rightarrow> Inl RuntimeError
      | Some l \<Rightarrow>
          let fields = str_split l in
          if length fields < 2 then Inl IndexError
          else (case py_int (fields ! 1) of
                  None \<Rightarrow> Inl (ValueError ''invalid literal for int()'')
                | Some n \<Rightarrow> Inr (n * 1000000)))"

subsection \<open>Stdout holders\<close>

record holder =
  h_pid :: int
  h_cmdline :: string

text \<open>An entry of \<open>/proc\<close>: its name, the stat of fd 1 (device, inode, regular file), cmdline.\<close>

record proc_entry =
  pe_name :: string
  pe_fd1 :: "(int \<times> int \<times> bool) option"
  pe_cmdline :: "string option"

type_synonym holders_scan = "((int \<times> int) \<times> holder list) list"

fun holders_add :: "holders_scan \<Rightarrow> int \<times> int \<Rightarrow> holder \<Rightarrow> holders_scan" where
  "holders_add [] k h = [(k, [h])]"
| "holders_add ((k', hs) # rest) k h =
     (if k' = k then (k', hs @ [h]) # rest else (k', hs) # holders_add rest k h)"

definition is_digits :: "string \<Rightarrow> bool" where
  "is_digits s = (s \<noteq> [] \<and> list_all (\<lambda>c. ascii_digit_val c \<noteq> None) s)"

definition clean_cmdline :: "(string \<Rightarrow> string) \<Rightarrow> string option \<Rightarrow> string" where
  "clean_cmdline decode_replace c =
     (case c of None \<Rightarrow> []
      | Some s \<Rightarrow> str_strip (decode_replace (map (\<lambda>x. if x = CHR 0x00 then CHR '' '' else x) s)))"

fun scan_stdout_holders :: "(string \<Rightarrow> string) \<Rightarrow> proc_entry list \<Rightarrow> holders_scan \<Rightarrow> holders_scan" where
  "scan_stdout_holders decode [] acc = acc"
| "scan_stdout_holders decode (e # es) acc =
     (if \<not> is_digits (pe_name e) then scan_stdout_holders decode es acc
      else case pe_fd1 e of
             None \<Rightarrow> scan_stdout_holders decode es acc
           | Some (dev, ino, regular) \<Rightarrow>
               if \<not> regular then scan_stdout_holders decode es acc
               else scan_stdout_holders decode es
                      (holders_add acc (dev, ino)
                        \<lparr>h_pid = the (py_int (pe_name e)), h_cmdline = clean_cmdline decode (pe_cmdline e)\<rparr>))"

definition never_kill_pids :: "int set" where "never_kill_pids = {0, 1}"

text \<open>The raw log: its bytes when it is a file; mtime in microseconds, device and inode.\<close>

record raw_log =
  rl_bytes :: "string option"
  rl_stat :: "(int \<times> int \<times> int) option"

definition leftover_holders_for :: "raw_log \<Rightarrow> holders_scan \<Rightarrow> int \<Rightarrow> int option \<Rightarrow> holder list" where
  "leftover_holders_for raw scan own run_pid =
     (case rl_stat raw of
        None \<Rightarrow> []
      | Some (_, dev, ino) \<Rightarrow>
          filter (\<lambda>h. \<not> (Some (h_pid h) = run_pid \<or> h_pid h = own \<or> h_pid h \<in> never_kill_pids))
            (case map_of scan (dev, ino) of None \<Rightarrow> [] | Some hs \<Rightarrow> hs))"

subsection \<open>The raw log as events\<close>

text \<open>One piece: the strict parse appends whatever it parses; the fallback is the skip contract.\<close>

definition raw_piece :: "parser \<Rightarrow> string \<Rightarrow> json list" where
  "raw_piece P piece =
     (case loads_strict P piece of
        Some v \<Rightarrow> [v]
      | None \<Rightarrow>
          if utf8_isspace (map of_char piece) then []
          else (case loads_replace P piece of
                  None \<Rightarrow> []
                | Some v \<Rightarrow> (case not_none v of None \<Rightarrow> [] | Some w \<Rightarrow> [w])))"

function parse_raw_lines :: "parser \<Rightarrow> string \<Rightarrow> json list" where
  "parse_raw_lines P raw =
     (if raw = [] then []
      else let piece = takeWhile (\<lambda>c. c \<noteq> NL) raw
           in raw_piece P piece @ parse_raw_lines P (drop (Suc (length piece)) raw))"
  by pat_completeness auto
termination
  by (relation "measure (\<lambda>(P, raw). length raw)") auto

declare parse_raw_lines.simps [simp del]

type_synonym 's translator = "'s \<Rightarrow> json \<Rightarrow> (dict list \<times> 's) py"

fun project_raw_events :: "'s translator \<Rightarrow> 's \<Rightarrow> json list \<Rightarrow> dict list py" where
  "project_raw_events tr s [] = Inr []"
| "project_raw_events tr s (e # es) =
     py_bind (tr s e) (\<lambda>(out, s'). py_bind (project_raw_events tr s' es) (\<lambda>rest. Inr (out @ rest)))"

fun summarize_from :: "dict option \<Rightarrow> dict list \<Rightarrow> dict option" where
  "summarize_from found [] = found"
| "summarize_from found (e # es) =
     summarize_from (if dget e ''type'' = JStr ET_RESULT then Some e else found) es"

definition summarize_result :: "dict list \<Rightarrow> dict option" where
  "summarize_result events = summarize_from None events"

definition result_success :: "dict \<Rightarrow> bool" where
  "result_success r =
     ((dget r ''subtype'' = JNull \<or> dget r ''subtype'' = JStr ''success'') \<and> none_or_false (dget r ''is_error''))"

definition project_raw_file :: "parser \<Rightarrow> 's translator \<Rightarrow> 's \<Rightarrow> string \<Rightarrow> dict list py" where
  "project_raw_file P tr fresh bytes = project_raw_events tr fresh (parse_raw_lines P bytes)"

definition scan_result_exit ::
  "parser \<Rightarrow> 's translator \<Rightarrow> 's \<Rightarrow> raw_log \<Rightarrow> (dict list \<times> dict option \<times> int) py" where
  "scan_result_exit P tr fresh raw =
     py_bind (case rl_bytes raw of None \<Rightarrow> Inr [] | Some b \<Rightarrow> project_raw_file P tr fresh b) (\<lambda>events.
       let result = summarize_result events;
           exit_code = (case result of Some r \<Rightarrow> if result_success r then 0 else -1 | None \<Rightarrow> -1)
       in Inr (events, result, exit_code))"

subsection \<open>Completion time and cursor\<close>

definition raw_completion_time :: "raw_log \<Rightarrow> int option" where
  "raw_completion_time raw = map_option fst (rl_stat raw)"

text \<open>A cursor file is its text; a missing or undecodable one is None.\<close>

definition read_raw_cursor :: "string option \<Rightarrow> int" where
  "read_raw_cursor cursor =
     (case cursor of None \<Rightarrow> 0
      | Some s \<Rightarrow> (case py_int (str_strip s) of None \<Rightarrow> 0 | Some n \<Rightarrow> n))"

definition write_raw_cursor :: "int \<Rightarrow> string option" where
  "write_raw_cursor offset = Some (int_str offset)"

subsection \<open>The outcome table\<close>

datatype run_outcome = COMPLETED_RUN | RUNNING | DIED | STALLED | NEVER_STARTED

record run_resolution =
  rr_outcome :: run_outcome
  rr_reason :: string
  rr_completed_at :: "int option"
  rr_leftovers :: "holder list"

definition resolution :: "run_outcome \<Rightarrow> string \<Rightarrow> int option \<Rightarrow> holder list \<Rightarrow> run_resolution" where
  "resolution outcome reason completed leftovers =
     \<lparr>rr_outcome = outcome, rr_reason = reason, rr_completed_at = completed, rr_leftovers = leftovers\<rparr>"

definition uncovered_backend_types :: "string list" where
  "uncovered_backend_types = [''opencode'', ''antigravity'', ''tui-cli'']"

definition transport_not_covered_reason :: string where
  "transport_not_covered_reason = ''backend transport not covered by restart-safe runtime''"
definition legacy_raw_missing_reason :: string where
  "legacy_raw_missing_reason = ''raw log missing (run predates restart-safe transport)''"
definition died_without_result_reason :: string where
  "died_without_result_reason = ''process exited without a final result event''"
definition uncovered_alive_reason :: string where "uncovered_alive_reason = ''uncovered-alive''"
definition raw_missing_alive_reason :: string where "raw_missing_alive_reason = ''raw-missing-alive''"

definition no_output_report_threshold :: int where "no_output_report_threshold = 2 * 3600"

definition missing_liveness_fields :: "int option \<Rightarrow> string option \<Rightarrow> stamp option \<Rightarrow> string list" where
  "missing_liveness_fields pid pid_start started_at =
     (if pid = None then [''pid''] else []) @
     (if pid_start = None then [''pid_start''] else []) @
     (if started_at = None then [''started_at''] else [])"

record 's run_facts =
  rf_raw :: raw_log
  rf_pid :: "int option"
  rf_pid_start :: "string option"
  rf_started_at :: "stamp option"
  rf_backend :: "string option"
  rf_translate :: "'s translator"
  rf_fresh :: 's
  rf_boot :: int
  rf_holders :: "holders_scan option"
  rf_now :: int
  rf_proc :: proc_stat
  rf_own :: int
  rf_parser :: parser

text \<open>The result event of the raw log, if it exists and has one.\<close>

definition raw_result :: "'s run_facts \<Rightarrow> dict option py" where
  "raw_result f =
     (case rl_bytes (rf_raw f) of
        None \<Rightarrow> Inr None
      | Some b \<Rightarrow>
          py_bind (project_raw_file (rf_parser f) (rf_translate f) (rf_fresh f) b) (\<lambda>events.
            Inr (summarize_result events)))"

text \<open>The rows after the liveness judgment.\<close>

definition resolve_rows :: "'s run_facts \<Rightarrow> bool \<Rightarrow> dict option \<Rightarrow> run_resolution" where
  "resolve_rows f alive result =
     (let raw_exists = (rl_bytes (rf_raw f) \<noteq> None);
          missing = missing_liveness_fields (rf_pid f) (rf_pid_start f) (rf_started_at f);
          missing_note = (if missing \<noteq> [] then ''missing liveness field(s): '' @ py_join '', '' missing else []);
          effectively_alive = (alive \<or> missing \<noteq> []);
          completed_at = (if raw_exists then raw_completion_time (rf_raw f) else None);
          uncovered = (case rf_backend f of None \<Rightarrow> False | Some b \<Rightarrow> b \<in> set uncovered_backend_types)
      in if uncovered \<and> result = None then
           (if effectively_alive then resolution RUNNING uncovered_alive_reason completed_at []
            else resolution DIED transport_not_covered_reason completed_at [])
         else if \<not> raw_exists then
           (if effectively_alive then resolution RUNNING raw_missing_alive_reason None []
            else resolution DIED legacy_raw_missing_reason None [])
         else
           let leftovers = (case rf_holders f of
                 Some scan \<Rightarrow> if \<not> alive then leftover_holders_for (rf_raw f) scan (rf_own f) (rf_pid f) else []
               | None \<Rightarrow> [])
           in if result \<noteq> None then resolution COMPLETED_RUN [] completed_at leftovers
              else if effectively_alive then
                (let silent_for = (case completed_at of None \<Rightarrow> 0 | Some c \<Rightarrow> rf_now f - c)
                 in if silent_for > no_output_report_threshold * 1000000
                    then resolution STALLED
                      (''alive but no raw output for '' @ int_str (silent_for div 1000000) @ ''s (>'' @
                       int_str no_output_report_threshold @ ''s threshold)'' @
                       (if missing_note \<noteq> [] then ''; '' @ missing_note else [])) completed_at []
                    else resolution RUNNING missing_note completed_at [])
              else resolution DIED died_without_result_reason completed_at leftovers)"

definition resolve_run :: "'s run_facts \<Rightarrow> run_resolution py" where
  "resolve_run f =
     (if rl_bytes (rf_raw f) = None \<and> rf_pid f = None then Inr (resolution NEVER_STARTED [] None [])
      else py_bind (is_run_alive (rf_proc f) (rf_pid f) (rf_pid_start f) (rf_started_at f) (rf_boot f)) (\<lambda>alive.
           py_bind (raw_result f) (\<lambda>result. Inr (resolve_rows f alive result))))"


subsection \<open>The raw log under the skip contract\<close>

lemma split_on_unfold:
  "split_on c xs =
     takeWhile (\<lambda>x. x \<noteq> c) xs #
     (if c \<in> set xs then split_on c (drop (Suc (length (takeWhile (\<lambda>x. x \<noteq> c) xs))) xs) else [])"
  by (induction xs) auto

lemma parse_raw_pieces:
  "parse_raw_lines P raw = concat (map (raw_piece P) (binary_lines raw))"
proof (induction P raw rule: parse_raw_lines.induct)
  case (1 P raw)
  show ?case
  proof (cases "raw = []")
    case True
    then show ?thesis by (simp add: parse_raw_lines.simps [of P "[]"] binary_lines_def)
  next
    case False
    let ?l = "takeWhile (\<lambda>c. c \<noteq> NL) raw"
    let ?rest = "drop (Suc (length ?l)) raw"
    have step: "parse_raw_lines P raw = raw_piece P ?l @ parse_raw_lines P ?rest"
      using False by (simp add: parse_raw_lines.simps [of P raw] Let_def)
    have IH: "parse_raw_lines P ?rest = concat (map (raw_piece P) (binary_lines ?rest))"
      using 1 False by simp
    show ?thesis
    proof (cases "NL \<in> set raw")
      case True
      then have "split_on NL raw = ?l # split_on NL ?rest" by (subst split_on_unfold) simp
      then have "binary_lines raw = ?l # binary_lines ?rest" by (simp add: binary_lines_def Let_def)
      then show ?thesis unfolding step IH by simp
    next
      case False
      then have l: "?l = raw" by (auto simp: takeWhile_eq_all_conv)
      have "binary_lines raw = [raw]" using False \<open>raw \<noteq> []\<close> by (simp add: binary_lines_def split_on_free Let_def)
      then show ?thesis unfolding step l by (simp add: parse_raw_lines.simps [of P "[]"])
    qed
  qed
qed

lemma utf8_isspace_run: "utf8_isspace bs \<Longrightarrow> utf8_run [] bs"
  by (induction bs rule: utf8_isspace.induct)
     (auto simp: utf8_lead_def Let_def split: if_splits list.splits)

lemma ws_byte_isspace: "list_all ws_byte s \<Longrightarrow> utf8_isspace (map of_char s)"
  by (induction s) (auto simp: ws_byte_def Let_def)

lemma raw_piece_contract:
  assumes "parser_ok P"
  shows "filter (\<lambda>v. v \<noteq> JNull) (raw_piece P l) = (case parse_ndjson_line P l of None \<Rightarrow> [] | Some v \<Rightarrow> [v])"
proof -
  have nn: "(case not_none v of None \<Rightarrow> [] | Some w \<Rightarrow> [w]) = (if v = JNull then [] else [v])" for v
    by (cases v) auto
  show ?thesis
  proof (cases "utf8_isspace (map of_char l)")
    case True
    then have "utf8_valid l" by (simp add: utf8_valid_def utf8_isspace_run)
    then have "loads_strict P l = None" "loads_replace P l = None"
      using assms True by (simp_all add: parser_ok_def)
    then show ?thesis using True by (simp add: raw_piece_def parse_ndjson_line_def)
  next
    case False
    then have nb: "\<not> (l = [] \<or> list_all ws_byte l)" using ws_byte_isspace by auto
    show ?thesis
    proof (cases "loads_strict P l")
      case None
      then show ?thesis using False nb nn
        by (cases "loads_replace P l") (simp_all add: raw_piece_def parse_ndjson_line_def)
    next
      case (Some v)
      then show ?thesis using nb nn [of v] by (simp add: raw_piece_def parse_ndjson_line_def)
    qed
  qed
qed

text \<open>
  The restart scan of a raw log reads what the NDJSON funnel reads, blank, torn and
  malformed lines skipped alike, but for one value: a \<open>null\<close> line, which the funnel skips,
  enters the event list.
\<close>

theorem raw_scan_is_funnel:
  assumes "parser_ok P"
  shows "filter (\<lambda>v. v \<noteq> JNull) (parse_raw_lines P raw) = iter_ndjson_events P (binary_lines raw)"
proof -
  have "filter (\<lambda>v. v \<noteq> JNull) (concat (map (raw_piece P) ls)) = List.map_filter (parse_ndjson_line P) ls" for ls
    by (induction ls) (auto simp: raw_piece_contract [OF assms] map_filter_simps split: option.splits)
  then show ?thesis by (simp add: parse_raw_pieces iter_ndjson_events_def)
qed

subsection \<open>The outcome table\<close>

lemma missing_iff:
  "missing_liveness_fields pid st started = [] \<longleftrightarrow> pid \<noteq> None \<and> st \<noteq> None \<and> started \<noteq> None"
  by (simp add: missing_liveness_fields_def)

definition unverifiable :: "'s run_facts \<Rightarrow> bool" where
  "unverifiable f = (rf_pid f = None \<or> rf_pid_start f = None \<or> rf_started_at f = None)"

definition covered :: "'s run_facts \<Rightarrow> bool" where
  "covered f = (case rf_backend f of None \<Rightarrow> True | Some b \<Rightarrow> b \<notin> {''opencode'', ''antigravity'', ''tui-cli''})"

text \<open>Silence is counted from the raw log's mtime, beyond two hours.\<close>

definition silent :: "'s run_facts \<Rightarrow> bool" where
  "silent f = (case rl_stat (rf_raw f) of None \<Rightarrow> False | Some (mtime, _, _) \<Rightarrow> rf_now f - mtime > 7200 * 1000000)"

lemma uncovered_covered:
  "(case rf_backend f of None \<Rightarrow> False | Some b \<Rightarrow> b \<in> set uncovered_backend_types) \<longleftrightarrow> \<not> covered f"
  by (auto simp: covered_def uncovered_backend_types_def split: option.splits)

lemma resolve_rows_outcome:
  assumes "raw_result f = Inr result"
  shows "rr_outcome (resolve_rows f alive result) =
    (if result \<noteq> None then COMPLETED_RUN
     else if \<not> alive \<and> \<not> unverifiable f then DIED
     else if covered f \<and> rl_bytes (rf_raw f) \<noteq> None \<and> silent f then STALLED
     else RUNNING)"
proof -
  have res: "result \<noteq> None \<Longrightarrow> rl_bytes (rf_raw f) \<noteq> None"
    using assms by (cases "rl_bytes (rf_raw f)") (auto simp: raw_result_def)
  have sil: "(case (if rl_bytes (rf_raw f) \<noteq> None then raw_completion_time (rf_raw f) else None) of
        None \<Rightarrow> 0 | Some c \<Rightarrow> rf_now f - c) > no_output_report_threshold * 1000000 \<longleftrightarrow>
      rl_bytes (rf_raw f) \<noteq> None \<and> silent f"
    by (auto simp: raw_completion_time_def silent_def no_output_report_threshold_def split: option.splits)
  show ?thesis
    using res unfolding resolve_rows_def Let_def uncovered_covered sil missing_iff
    by (simp add: resolution_def unverifiable_def)
qed

text \<open>
  C40. The outcome table, complete and exclusive: a run is completed when its raw log holds
  a result event, and otherwise died only when death is proven (every liveness input is
  there and the probe says dead), stalled when it is followable, treated as alive and
  silent for over two hours, and running in every other case; never started only when
  there is neither raw log nor pid.
\<close>

theorem run_outcome_table:
  assumes "is_run_alive (rf_proc f) (rf_pid f) (rf_pid_start f) (rf_started_at f) (rf_boot f) = Inr alive"
    and "raw_result f = Inr result"
  shows "\<exists>r. resolve_run f = Inr r \<and> rr_outcome r =
    (if rl_bytes (rf_raw f) = None \<and> rf_pid f = None then NEVER_STARTED
     else if result \<noteq> None then COMPLETED_RUN
     else if \<not> alive \<and> \<not> unverifiable f then DIED
     else if covered f \<and> rl_bytes (rf_raw f) \<noteq> None \<and> silent f then STALLED
     else RUNNING)"
  using assms resolve_rows_outcome [OF assms(2), of alive]
  by (auto simp: resolve_run_def resolution_def)

lemma leftover_facts:
  assumes "resolve_run f = Inr r" and "h \<in> set (rr_leftovers r)"
  shows "is_run_alive (rf_proc f) (rf_pid f) (rf_pid_start f) (rf_started_at f) (rf_boot f) = Inr False \<and>
    (\<exists>scan mtime dev ino hs. rf_holders f = Some scan \<and> rl_stat (rf_raw f) = Some (mtime, dev, ino) \<and>
       map_of scan (dev, ino) = Some hs \<and> h \<in> set hs) \<and>
    Some (h_pid h) \<noteq> rf_pid f \<and> h_pid h \<noteq> rf_own f \<and> h_pid h \<noteq> 0 \<and> h_pid h \<noteq> 1"
proof -
  obtain alive result where a: "is_run_alive (rf_proc f) (rf_pid f) (rf_pid_start f) (rf_started_at f) (rf_boot f) = Inr alive"
    and r: "r = resolve_rows f alive result"
    using assms by (auto simp: resolve_run_def py_bind_Inr_iff resolution_def split: if_splits)
  have l: "rr_leftovers r = [] \<or> (\<not> alive \<and> (\<exists>scan. rf_holders f = Some scan \<and>
      rr_leftovers r = leftover_holders_for (rf_raw f) scan (rf_own f) (rf_pid f)))"
    unfolding r resolve_rows_def Let_def by (auto simp: resolution_def split: option.splits)
  then obtain scan where s: "\<not> alive" "rf_holders f = Some scan"
    "h \<in> set (leftover_holders_for (rf_raw f) scan (rf_own f) (rf_pid f))"
    using assms(2) by auto
  obtain mtime dev ino where st: "rl_stat (rf_raw f) = Some (mtime, dev, ino)"
    using s(3) by (cases "rl_stat (rf_raw f)") (auto simp: leftover_holders_for_def)
  obtain hs where hs: "map_of scan (dev, ino) = Some hs"
    using s(3) st by (cases "map_of scan (dev, ino)") (auto simp: leftover_holders_for_def)
  show ?thesis using a s st hs by (simp add: leftover_holders_for_def never_kill_pids_def)
qed

text \<open>
  The kill list of a resolution is safe: a leftover holder is reported only when the
  run itself is not alive, it holds the very inode of this raw log in the scan, and it is
  neither the run's recorded pid, nor the server itself, nor pid 0 or 1.
\<close>

theorem leftovers_are_killable:
  assumes "resolve_run f = Inr r" and "h \<in> set (rr_leftovers r)"
  shows "is_run_alive (rf_proc f) (rf_pid f) (rf_pid_start f) (rf_started_at f) (rf_boot f) = Inr False \<and>
    (\<exists>scan mtime dev ino hs. rf_holders f = Some scan \<and> rl_stat (rf_raw f) = Some (mtime, dev, ino) \<and>
       map_of scan (dev, ino) = Some hs \<and> h \<in> set hs) \<and>
    Some (h_pid h) \<noteq> rf_pid f \<and> h_pid h \<noteq> rf_own f \<and> h_pid h \<noteq> 0 \<and> h_pid h \<noteq> 1"
  using leftover_facts [OF assms] .

subsection \<open>The cursor\<close>

lemma digits_of_chars: "c \<in> set (digits_of n) \<Longrightarrow> 48 \<le> (of_char c :: nat) \<and> (of_char c :: nat) \<le> 57"
proof (induction n rule: digits_of.induct)
  case (1 n)
  show ?case
  proof (cases "n < 10")
    case True
    then have "c = char_of (n + 48)" using 1(2) by (simp add: digits_of.simps [of n])
    then show ?thesis using True by (simp add: of_char_of)
  next
    case False
    then have "c \<in> set (digits_of (n div 10)) \<or> c = char_of (n mod 10 + 48)"
      using 1(2) by (auto simp: digits_of.simps [of n])
    moreover have "n mod 10 < 10" by simp
    ultimately show ?thesis using 1(1) [OF False] by (auto simp: of_char_of)
  qed
qed

lemma digits_of_ne: "digits_of n \<noteq> []"
  by (subst digits_of.simps) simp

lemma digit_val_char: "d < 10 \<Longrightarrow> ascii_digit_val (char_of (d + 48)) = Some d"
  by (simp add: ascii_digit_val_def of_char_of)

lemma int_digits_append:
  "\<exists>k. \<forall>acc b. int_digits acc b (digits_of n @ cs) = int_digits (acc * 10 ^ k + n) True cs"
proof (induction n arbitrary: cs rule: digits_of.induct)
  case (1 n)
  show ?case
  proof (cases "n < 10")
    case True
    then have "int_digits acc b (digits_of n @ cs) = int_digits (acc * 10 ^ 1 + n) True cs" for acc b
      by (simp add: digits_of.simps [of n] digit_val_char ac_simps)
    then show ?thesis by blast
  next
    case False
    obtain k where k: "\<And>acc b. int_digits acc b (digits_of (n div 10) @ char_of (n mod 10 + 48) # cs) =
        int_digits (acc * 10 ^ k + n div 10) True (char_of (n mod 10 + 48) # cs)"
      using 1 [OF False, of "char_of (n mod 10 + 48) # cs"] by blast
    have dv: "ascii_digit_val (char_of (n mod 10 + 48)) = Some (n mod 10)" by (rule digit_val_char) simp
    have "10 * (acc * 10 ^ k + n div 10) + n mod 10 = acc * 10 ^ Suc k + n" for acc
      by (simp add: algebra_simps)
    then have "int_digits acc b (digits_of n @ cs) = int_digits (acc * 10 ^ Suc k + n) True cs" for acc b
      using False k [of acc b] dv by (simp add: digits_of.simps [of n] ac_simps)
    then show ?thesis by blast
  qed
qed

lemma int_digits_of: "int_digits 0 False (digits_of n) = Some n"
  using int_digits_append [of n "[]"] by auto

lemma ascii_not_cont: "(of_char c :: nat) < 128 \<Longrightarrow> \<not> is_cont c"
  by (simp add: is_cont_def Let_def)

lemma utf8_chars_plain: "(\<And>c. c \<in> set s \<Longrightarrow> (of_char c :: nat) < 128) \<Longrightarrow> utf8_chars s = map (\<lambda>c. [c]) s"
proof (induction s)
  case (Cons c cs)
  have "takeWhile is_cont cs = []" "dropWhile is_cont cs = cs"
    using Cons.prems by (cases cs; simp add: ascii_not_cont)+
  then show ?case using Cons by simp
qed simp

lemma str_strip_solid:
  assumes "\<And>c. c \<in> set s \<Longrightarrow> 33 \<le> (of_char c :: nat) \<and> (of_char c :: nat) < 128"
  shows "str_strip s = s"
proof -
  have chars: "utf8_chars s = map (\<lambda>c. [c]) s" using assms by (intro utf8_chars_plain) auto
  have solid: "\<not> ws_char x" if "x \<in> set (map (\<lambda>c. [c]) s)" for x
  proof -
    from that obtain c where c: "x = [c]" "c \<in> set s" by auto
    then show ?thesis using assms [OF c(2)] by (auto simp: ws_char_def)
  qed
  then have "dropWhile ws_char (map (\<lambda>c. [c]) s) = map (\<lambda>c. [c]) s"
    "dropWhile ws_char (rev (map (\<lambda>c. [c]) s)) = rev (map (\<lambda>c. [c]) s)"
    by (metis dropWhile_eq_self_iff list.set_sel(1), metis dropWhile_eq_self_iff list.set_sel(1) set_rev)
  then have "strip_by ws_char (map (\<lambda>c. [c]) s) = map (\<lambda>c. [c]) s"
    by (simp add: strip_by_def)
  then show ?thesis by (simp add: str_strip_def chars)
qed

lemma int_str_chars: "c \<in> set (int_str i) \<Longrightarrow> 45 \<le> (of_char c :: nat) \<and> (of_char c :: nat) < 128"
  by (auto simp: int_str_def split: if_splits dest!: digits_of_chars)

lemma py_int_int_str: "py_int (int_str i) = Some i"
proof -
  have strip: "str_strip (int_str i) = int_str i"
    using int_str_chars [of _ i] by (intro str_strip_solid) force
  obtain c cs where d: "digits_of (nat \<bar>i\<bar>) = c # cs" using digits_of_ne by (cases "digits_of (nat \<bar>i\<bar>)") auto
  have c: "48 \<le> (of_char c :: nat)" using digits_of_chars [of c "nat \<bar>i\<bar>"] d by simp
  then have sign: "c \<noteq> CHR ''-''" "c \<noteq> CHR ''+''" by auto
  have val: "int_digits 0 False (c # cs) = Some (nat \<bar>i\<bar>)" using int_digits_of [of "nat \<bar>i\<bar>"] d by simp
  show ?thesis
  proof (cases "i < 0")
    case True
    then have "int_str i = CHR ''-'' # c # cs" using d by (simp add: int_str_def)
    then show ?thesis unfolding py_int_def strip Let_def using True val by (simp del: int_digits.simps)
  next
    case False
    then have "int_str i = c # cs" using d by (simp add: int_str_def)
    then show ?thesis unfolding py_int_def strip Let_def using False val sign by (simp del: int_digits.simps)
  qed
qed

text \<open>
  The cursor file round trip: whatever offset was written is the offset the next
  server re-attaches at.
\<close>

theorem cursor_round_trip: "read_raw_cursor (write_raw_cursor offset) = offset"
proof -
  have "str_strip (int_str offset) = int_str offset"
    using int_str_chars [of _ offset] by (intro str_strip_solid) force
  then show ?thesis by (simp add: read_raw_cursor_def write_raw_cursor_def py_int_int_str)
qed


subsection \<open>A concrete run\<close>

definition demo_run :: "unit run_facts" where
  "demo_run =
     \<lparr>rf_raw = \<lparr>rl_bytes = Some [], rl_stat = Some (0, 1, 2)\<rparr>, rf_pid = Some 7, rf_pid_start = Some ''100'',
      rf_started_at = Some (Aware 5), rf_backend = None, rf_translate = (\<lambda>s e. Inr ([], s)), rf_fresh = (),
      rf_boot = 0, rf_holders = Some [((1, 2), [\<lparr>h_pid = 9, h_cmdline = []\<rparr>, \<lparr>h_pid = 7, h_cmdline = []\<rparr>])],
      rf_now = 10, rf_proc = (\<lambda>_. None), rf_own = 5, rf_parser = demo_ok_parser\<rparr>"

lemma demo_run_dead:
  "is_run_alive (rf_proc demo_run) (rf_pid demo_run) (rf_pid_start demo_run) (rf_started_at demo_run) (rf_boot demo_run) = Inr False"
  by (simp add: demo_run_def is_run_alive_def read_pid_stat_def)

lemma demo_run_result: "raw_result demo_run = Inr None"
  by (simp add: demo_run_def raw_result_def project_raw_file_def parse_raw_lines.simps summarize_result_def)

theorem run_outcome_table_witness: "\<exists>r. resolve_run demo_run = Inr r \<and> rr_outcome r = DIED"
proof -
  have "rl_bytes (rf_raw demo_run) = Some []" "\<not> unverifiable demo_run"
    by (simp_all add: demo_run_def unverifiable_def)
  then show ?thesis using run_outcome_table [OF demo_run_dead demo_run_result] by simp
qed

theorem leftovers_are_killable_witness:
  "\<exists>r h. resolve_run demo_run = Inr r \<and> h \<in> set (rr_leftovers r) \<and> h_pid h = 9 \<and> Some (h_pid h) \<noteq> rf_pid demo_run"
proof -
  let ?r = "resolve_rows demo_run False None"
  have r: "resolve_run demo_run = Inr ?r"
    using demo_run_dead demo_run_result by (simp add: resolve_run_def) (simp add: demo_run_def)
  have l: "\<lparr>h_pid = 9, h_cmdline = []\<rparr> \<in> set (rr_leftovers ?r)"
    by (simp add: resolve_rows_def demo_run_def Let_def missing_liveness_fields_def resolution_def
        leftover_holders_for_def never_kill_pids_def)
  show ?thesis using r l leftovers_are_killable [OF r l] by (intro exI conjI) auto
qed

theorem raw_scan_is_funnel_witness:
  "filter (\<lambda>v. v \<noteq> JNull) (parse_raw_lines demo_ok_parser ''x'') = iter_ndjson_events demo_ok_parser (binary_lines ''x'')"
  by (rule raw_scan_is_funnel) (rule demo_ok_parser_ok)

end
