(* ===== verification/Thinking_State.thy ===== *)
theory Thinking_State
  imports Prelude
begin

text \<open>
  \<open>src/core/thinking_state.py\<close>: the busy interval of a session. The module's dictionary is
  the field \<open>bs_since\<close>; \<open>bs_dirty\<close> counts the \<open>mark_sidebar_dirty\<close> calls per session.
\<close>

record busy_state =
  bs_since :: "string \<rightharpoonup> int"
  bs_dirty :: "string \<Rightarrow> nat"

definition set_dirty :: "string \<Rightarrow> busy_state \<Rightarrow> busy_state" where
  "set_dirty sid b = b\<lparr>bs_dirty := (bs_dirty b)(sid := Suc (bs_dirty b sid))\<rparr>"

text \<open>\<open>mark_busy\<close> answers (interval start, created).\<close>

definition mark_busy :: "string \<Rightarrow> int option \<Rightarrow> int \<Rightarrow> busy_state \<Rightarrow> (int \<times> bool) \<times> busy_state" where
  "mark_busy sid since now b =
     (case bs_since b sid of
        Some t \<Rightarrow> ((t, False), b)
      | None \<Rightarrow>
          let started_at = (case since of Some s \<Rightarrow> s | None \<Rightarrow> now)
          in ((started_at, True), set_dirty sid (b\<lparr>bs_since := (bs_since b)(sid \<mapsto> started_at)\<rparr>)))"

definition clear_busy :: "string \<Rightarrow> busy_state \<Rightarrow> busy_state" where
  "clear_busy sid b =
     (case bs_since b sid of
        None \<Rightarrow> b
      | Some _ \<Rightarrow> set_dirty sid (b\<lparr>bs_since := (bs_since b)(sid := None)\<rparr>))"

definition busy_since :: "string \<Rightarrow> busy_state \<Rightarrow> int option" where
  "busy_since sid b = bs_since b sid"

text \<open>
  What the run queue and the readers rely on: marking opens an interval or keeps the open
  one, reports which, and touches no other session; clearing closes exactly one.
\<close>

locale busy_tracker =
  fixes mark :: "'k \<Rightarrow> 't option \<Rightarrow> 't \<Rightarrow> 's \<Rightarrow> ('t \<times> bool) \<times> 's"
    and clear :: "'k \<Rightarrow> 's \<Rightarrow> 's"
    and since :: "'k \<Rightarrow> 's \<Rightarrow> 't option"
  assumes since_mark: "since j (snd (mark k s n b)) =
      (if j = k then Some (case since k b of Some t \<Rightarrow> t | None \<Rightarrow> (case s of Some t \<Rightarrow> t | None \<Rightarrow> n)) else since j b)"
    and mark_reports: "fst (mark k s n b) =
      (case since k b of Some t \<Rightarrow> (t, False) | None \<Rightarrow> ((case s of Some t \<Rightarrow> t | None \<Rightarrow> n), True))"
    and since_clear: "since j (clear k b) = (if j = k then None else since j b)"
begin

lemma marked: "since k (snd (mark k s n b)) \<noteq> None"
  by (simp add: since_mark)

lemma others_untouched: "j \<noteq> k \<Longrightarrow> since j (snd (mark k s n b)) = since j b"
  by (simp add: since_mark)

lemma interval_kept: "since k b = Some t \<Longrightarrow> since k (snd (mark j s n b)) = Some t"
  by (cases "j = k") (simp_all add: since_mark)

text \<open>However often a session is marked again, its interval keeps its start.\<close>

lemma interval_kept_marks:
  "since k b = Some t \<Longrightarrow> since k (fold (\<lambda>(j, s, n) b. snd (mark j s n b)) calls b) = Some t"
  by (induction calls arbitrary: b) (auto simp: interval_kept)

lemma created_iff: "snd (fst (mark k s n b)) \<longleftrightarrow> since k b = None"
  by (simp add: mark_reports split: option.splits)

end

interpretation busy: busy_tracker mark_busy clear_busy busy_since
  by unfold_locales
     (auto simp: mark_busy_def clear_busy_def busy_since_def set_dirty_def Let_def split: option.splits)

end
