(* ===== verification/Process.thy ===== *)
theory Process
  imports Prelude Runs
begin

text \<open>
  \<open>src/core/process.py\<close> and the warn-once registry of \<open>src/core/log_once.py\<close>: signals to
  process groups, the escalation from SIGTERM to SIGKILL, the pre-exec hooks of a spawned child,
  and the per-session memory cgroups under the user's slice. The process table, the liveness
  probes, the clock and the faults of the file system are arguments.
\<close>

subsection \<open>Signals\<close>

datatype signal = SIGTERM | SIGKILL

text \<open>\<open>getpgid\<close> per pid, and whether \<open>killpg\<close> accepts a signal for the group.\<close>

record process_table =
  pt_pgid :: "int \<rightharpoonup> int"
  pt_accepts :: "int \<Rightarrow> signal \<Rightarrow> bool"

definition kill_process_group :: "process_table \<Rightarrow> int \<Rightarrow> signal \<Rightarrow> bool \<times> (int \<times> signal) list" where
  "kill_process_group pt pid sig =
     (case pt_pgid pt pid of
        None \<Rightarrow> (False, [])
      | Some g \<Rightarrow> if pt_accepts pt g sig then (True, [(g, sig)]) else (False, []))"

definition kill_escalation_grace :: int where "kill_escalation_grace = 5000000"  \<comment> \<open>microseconds\<close>
definition kill_escalation_poll :: int where "kill_escalation_poll = 200000"

text \<open>
  The polling loop: \<open>alive i\<close> is the answer of the i-th liveness probe, \<open>clock i\<close> the clock read
  right after it. The value is the number of the probe that decides about SIGKILL; None is
  running out of \<open>fuel\<close>.
\<close>

fun escalation_wait :: "nat \<Rightarrow> (nat \<Rightarrow> bool py) \<Rightarrow> (nat \<Rightarrow> int) \<Rightarrow> int \<Rightarrow> nat \<Rightarrow> nat py option" where
  "escalation_wait 0 alive clock deadline i = None"
| "escalation_wait (Suc fuel) alive clock deadline i =
     (case alive i of
        Inl e \<Rightarrow> Some (Inl e)
      | Inr False \<Rightarrow> Some (Inr (Suc i))
      | Inr True \<Rightarrow> if clock i < deadline then escalation_wait fuel alive clock deadline (Suc i) else Some (Inr (Suc i)))"

text \<open>The signals sent, in order, and how the call ends.\<close>

definition kill_group_escalating ::
  "nat \<Rightarrow> process_table \<Rightarrow> int \<Rightarrow> (nat \<Rightarrow> bool py) \<Rightarrow> (nat \<Rightarrow> int) \<Rightarrow> ((int \<times> signal) list \<times> unit py) option" where
  "kill_group_escalating fuel pt pid alive clock =
     (let term = snd (kill_process_group pt pid SIGTERM)
      in case escalation_wait fuel alive clock (clock 0 + kill_escalation_grace) 1 of
           None \<Rightarrow> None
         | Some (Inl e) \<Rightarrow> Some (term, Inl e)
         | Some (Inr i) \<Rightarrow>
             (case alive i of
                Inl e \<Rightarrow> Some (term, Inl e)
              | Inr True \<Rightarrow> Some (term @ snd (kill_process_group pt pid SIGKILL), Inr ())
              | Inr False \<Rightarrow> Some (term, Inr ())))"

text \<open>
  \<open>wait_or_kill_group\<close>: what the awaited coroutine does, the signals sent, and the state of the
  stderr task at the end, which is cancelled and drained on every exit.
\<close>

datatype 'a awaited = Finished 'a | Failed py_error | TimedOut
datatype 'a waited = Returned 'a | Reraised py_error | TimeoutRaised
datatype task_state = TaskRunning | TaskDrained

definition wait_or_kill_group ::
  "process_table \<Rightarrow> 'a awaited \<Rightarrow> int \<Rightarrow> 'a waited \<times> (int \<times> signal) list \<times> task_state" where
  "wait_or_kill_group pt outcome pid =
     (case outcome of
        Finished v \<Rightarrow> (Returned v, [], TaskDrained)
      | Failed e \<Rightarrow> (Reraised e, [], TaskDrained)
      | TimedOut \<Rightarrow> (TimeoutRaised, snd (kill_process_group pt pid SIGKILL), TaskDrained))"

subsection \<open>Pre-exec hooks\<close>

definition pdeathsig_should_self_kill :: "int \<Rightarrow> int \<Rightarrow> bool" where
  "pdeathsig_should_self_kill parent_pid observed_ppid = (observed_ppid \<noteq> parent_pid)"

text \<open>The child between fork and exec; \<open>ch_prctl_rc\<close> is what the system call answers.\<close>

record child =
  ch_pid :: int
  ch_ppid :: int
  ch_prctl_rc :: int
  ch_pdeathsig :: "signal option"
  ch_dead :: bool
  ch_cgroup :: "string option"

type_synonym preexec = "child \<Rightarrow> child py"

definition make_pdeathsig_kill_preexec :: "bool \<Rightarrow> int \<Rightarrow> preexec option" where
  "make_pdeathsig_kill_preexec linux parent_pid =
     (if \<not> linux then None
      else Some (\<lambda>ch.
        if ch_prctl_rc ch \<noteq> 0 then Inl OSError
        else let ch1 = ch\<lparr>ch_pdeathsig := Some SIGKILL\<rparr>
             in if pdeathsig_should_self_kill parent_pid (ch_ppid ch1) then Inr (ch1\<lparr>ch_dead := True\<rparr>) else Inr ch1))"

text \<open>\<open>writable\<close>: opening and writing \<open>cgroup.procs\<close> of the directory succeeds.\<close>

definition make_session_cgroup_preexec :: "(string \<Rightarrow> bool) \<Rightarrow> string option \<Rightarrow> preexec option" where
  "make_session_cgroup_preexec writable dir =
     (case dir of
        None \<Rightarrow> None
      | Some d \<Rightarrow> Some (\<lambda>ch. if writable d then Inr (ch\<lparr>ch_cgroup := Some d\<rparr>) else Inl OSError))"

fun run_hooks :: "preexec list \<Rightarrow> preexec" where
  "run_hooks [] ch = Inr ch"
| "run_hooks (f # fs) ch = py_bind (f ch) (\<lambda>ch'. if ch_dead ch' then Inr ch' else run_hooks fs ch')"

definition compose_preexec :: "preexec option list \<Rightarrow> preexec option" where
  "compose_preexec preexecs =
     (case List.map_filter (\<lambda>f. f) preexecs of
        [] \<Rightarrow> None
      | [f] \<Rightarrow> Some f
      | fns \<Rightarrow> Some (run_hooks fns))"

subsection \<open>Warn-once\<close>

definition warn_once :: "'k \<Rightarrow> 'e \<Rightarrow> 'k set \<times> 'e list \<Rightarrow> 'k set \<times> 'e list" where
  "warn_once key event s = (if key \<in> fst s then s else (insert key (fst s), snd s @ [event]))"

definition warn_clear :: "'k set \<times> 'e list \<Rightarrow> 'k set \<times> 'e list" where
  "warn_clear s = ({}, snd s)"

definition warn_forget_where :: "('k \<Rightarrow> bool) \<Rightarrow> 'k set \<times> 'e list \<Rightarrow> 'k set \<times> 'e list" where
  "warn_forget_where match s = ({k \<in> fst s. \<not> match k}, snd s)"

subsection \<open>Session cgroups\<close>

definition cgroup_v2_app_slice :: string where
  "cgroup_v2_app_slice = ''/sys/fs/cgroup/user.slice/user-1000.slice/user@1000.service/app.slice''"

definition session_cgroup_prefix :: string where "session_cgroup_prefix = ''charliebot-sess-''"

definition session_cgroup_name :: "string \<Rightarrow> string" where
  "session_cgroup_name session_id = session_cgroup_prefix @ str_take 8 session_id"

definition session_cgroup_path :: "string \<Rightarrow> string" where
  "session_cgroup_path session_id = cgroup_v2_app_slice @ ''/'' @ session_cgroup_name session_id"

record cgroup =
  cg_memory_max :: string
  cg_swap_max :: string
  cg_events :: "string option"   \<comment> \<open>the text of memory.events; None: unreadable\<close>
  cg_members :: "int list"

datatype dir_entry = CgroupDir cgroup | PlainFile

text \<open>
  The directory under the slice, in listing order, and what the kernel refuses: \<open>None\<close> is
  success, \<open>Some\<close> the text of the OSError. \<open>hs_warned\<close> is the warn-once registry with its lines,
  keyed by the error text. \<open>hs_fresh\<close> is what the kernel puts into a new cgroup.
\<close>

record cgroup_host =
  hs_base :: "bool"
  hs_writable :: "bool"
  hs_entries :: "(string \<times> dir_entry) list"
  hs_mkdir_fault :: "string option"
  hs_memory_fault :: "string option"
  hs_swap_fault :: "string option"
  hs_rmdir_fault :: "string option"
  hs_fresh :: cgroup
  hs_warned :: "string set \<times> string list"

definition degraded :: "string \<Rightarrow> cgroup_host \<Rightarrow> string option \<times> cgroup_host" where
  "degraded e h = (None, h\<lparr>hs_warned := warn_once e ''session_cgroup_unavailable'' (hs_warned h)\<rparr>)"

text \<open>\<open>(path / file).write_text\<close>, on the entry of that name.\<close>

fun map_entry :: "string \<Rightarrow> (cgroup \<Rightarrow> cgroup) \<Rightarrow> (string \<times> dir_entry) list \<Rightarrow> (string \<times> dir_entry) list" where
  "map_entry name f [] = []"
| "map_entry name f ((n, e) # es) =
     (if n = name then (n, case e of CgroupDir c \<Rightarrow> CgroupDir (f c) | PlainFile \<Rightarrow> PlainFile) # es
      else (n, e) # map_entry name f es)"

definition mib :: "int \<Rightarrow> string" where "mib mb = int_str (mb * 1024 * 1024)"

definition write_limits :: "string \<Rightarrow> int \<Rightarrow> int \<Rightarrow> cgroup_host \<Rightarrow> string option \<times> cgroup_host" where
  "write_limits name memory_mb swap_mb h =
     (if map_of (hs_entries h) name = Some PlainFile then degraded ''Not a directory'' h
      else case hs_memory_fault h of
        Some e \<Rightarrow> degraded e h
      | None \<Rightarrow>
          (let h1 = h\<lparr>hs_entries := map_entry name (\<lambda>c. c\<lparr>cg_memory_max := mib memory_mb\<rparr>) (hs_entries h)\<rparr>
           in case hs_swap_fault h1 of
                Some e \<Rightarrow> degraded e h1
              | None \<Rightarrow> (Some name,
                  h1\<lparr>hs_entries := map_entry name (\<lambda>c. c\<lparr>cg_swap_max := mib swap_mb\<rparr>) (hs_entries h1)\<rparr>)))"

definition ensure_session_cgroup :: "string \<Rightarrow> int \<Rightarrow> int \<Rightarrow> cgroup_host \<Rightarrow> string option \<times> cgroup_host" where
  "ensure_session_cgroup session_id memory_mb swap_mb h =
     (let name = session_cgroup_name session_id
      in if map_of (hs_entries h) name \<noteq> None then write_limits name memory_mb swap_mb h
         else case hs_mkdir_fault h of
                Some e \<Rightarrow> degraded e h
              | None \<Rightarrow> write_limits name memory_mb swap_mb
                  (h\<lparr>hs_entries := hs_entries h @ [(name, CgroupDir (hs_fresh h))]\<rparr>))"

text \<open>One line of \<open>memory.events\<close>: key and value around the first space.\<close>

definition event_line :: "string \<Rightarrow> string \<times> string" where
  "event_line l = (takeWhile (\<lambda>c. c \<noteq> CHR '' '') l, tl (dropWhile (\<lambda>c. c \<noteq> CHR '' '') l))"

fun scan_events :: "string list \<Rightarrow> int option \<Rightarrow> int option \<Rightarrow> (int \<times> int) option" where
  "scan_events [] m k = (case (m, k) of (Some a, Some b) \<Rightarrow> Some (a, b) | _ \<Rightarrow> None)"
| "scan_events (l # ls) m k =
     (if fst (event_line l) = ''max''
      then (case py_int (snd (event_line l)) of None \<Rightarrow> None | Some v \<Rightarrow> scan_events ls (Some v) k)
      else if fst (event_line l) = ''oom_kill''
      then (case py_int (snd (event_line l)) of None \<Rightarrow> None | Some v \<Rightarrow> scan_events ls m (Some v))
      else scan_events ls m k)"

definition read_memory_events :: "string \<Rightarrow> cgroup_host \<Rightarrow> (int \<times> int) option" where
  "read_memory_events name h =
     (case map_of (hs_entries h) name of
        Some (CgroupDir c) \<Rightarrow>
          (case cg_events c of None \<Rightarrow> None | Some text \<Rightarrow> scan_events (str_splitlines text) None None)
      | _ \<Rightarrow> None)"

record session_cgroup =
  sc_path :: string
  sc_memory_max_mb :: int
  sc_events_before :: "(int \<times> int) option"

definition cap_report :: "int \<Rightarrow> string" where
  "cap_report mb =
     ''session '' @ [CHR 0xE5, CHR 0x86, CHR 0x85, CHR 0xE5, CHR 0xAD, CHR 0x98, CHR 0xE4, CHR 0xB8, CHR
     0x8A, CHR 0xE9, CHR 0x99, CHR 0x90, CHR 0xE8, CHR 0xA7, CHR 0xA6, CHR 0xE5, CHR 0x8F, CHR 0x91, CHR
     0xEF, CHR 0xBC, CHR 0x88, CHR 0xE4, CHR 0xB8, CHR 0x8A, CHR 0xE9, CHR 0x99, CHR 0x90] @ '' '' @ int_str mb @
     '' MB'' @ [CHR 0xEF, CHR 0xBC, CHR 0x89, CHR 0xEF, CHR 0xBC, CHR 0x8C, CHR 0xE9, CHR 0x87, CHR 0x8D,
     CHR 0xE4, CHR 0xBB, CHR 0xBB, CHR 0xE5, CHR 0x8A, CHR 0xA1, CHR 0xE8, CHR 0xAF, CHR 0xB7, CHR 0xE8, CHR
     0xB5, CHR 0xB0, CHR 0xE9, CHR 0x9B, CHR 0x86, CHR 0xE7, CHR 0xBE, CHR 0xA4, CHR 0xE4, CHR 0xB8, CHR
     0x89, CHR 0xE5, CHR 0x85, CHR 0xA5, CHR 0xE5, CHR 0x8F, CHR 0xA3, CHR 0xEF, CHR 0xBC, CHR 0x9A] @
     ''gpuq'' @ [CHR 0xEF, CHR 0xBC, CHR 0x9D, CHR 0xE9, CHR 0x9B, CHR 0x86, CHR 0xE7, CHR 0xBE, CHR 0xA4,
     CHR 0xE4, CHR 0xBB, CHR 0xBB, CHR 0xE5, CHR 0x8A, CHR 0xA1, CHR 0xE9, CHR 0x98, CHR 0x9F, CHR 0xE5, CHR
     0x88, CHR 0x97, CHR 0xE6, CHR 0x8F, CHR 0x90, CHR 0xE4, CHR 0xBA, CHR 0xA4, CHR 0xEF, CHR 0xBC, CHR
     0x8C] @ ''ssh gate'' @ [CHR 0xEF, CHR 0xBC, CHR 0x9D, CHR 0xE7, CHR 0x94, CHR 0xA8] @ '' ssh '' @ [CHR
     0xE5, CHR 0x9C, CHR 0xA8, CHR 0xE8, CHR 0xBF, CHR 0x9C, CHR 0xE7, CHR 0xAB, CHR 0xAF, CHR 0xE8, CHR
     0xB7, CHR 0x91, CHR 0xE6, CHR 0x8A, CHR 0x8A, CHR 0xE5, CHR 0x85, CHR 0xB3, CHR 0xE6, CHR 0xB5, CHR
     0x8B, CHR 0xE8, CHR 0xAF, CHR 0x95, CHR 0xEF, CHR 0xBC, CHR 0x8C] @ ''remote-launch'' @ [CHR 0xEF, CHR
     0xBC, CHR 0x9D] @ ''charliebot '' @ [CHR 0xE7, CHR 0x9A, CHR 0x84, CHR 0xE8, CHR 0xBF, CHR 0x9C, CHR
     0xE7, CHR 0xAB, CHR 0xAF, CHR 0xE5, CHR 0x90, CHR 0xAF, CHR 0xE5, CHR 0x8A, CHR 0xA8, CHR 0xE5, CHR
     0x91, CHR 0xBD, CHR 0xE4, CHR 0xBB, CHR 0xA4]"

definition host_oom_report :: string where
  "host_oom_report =
     [CHR 0xE8, CHR 0xBF, CHR 0x9B, CHR 0xE7, CHR 0xA8, CHR 0x8B, CHR 0xE8, CHR 0xA2, CHR 0xAB, CHR 0xE5,
     CHR 0xAE, CHR 0xBF, CHR 0xE4, CHR 0xB8, CHR 0xBB, CHR 0xE6, CHR 0x9C, CHR 0xBA, CHR 0xE5, CHR 0x85, CHR
     0xA8, CHR 0xE5, CHR 0xB1, CHR 0x80] @ '' OOM '' @ [CHR 0xE7, CHR 0xBB, CHR 0x88, CHR 0xE6, CHR 0xAD,
     CHR 0xA2, CHR 0xEF, CHR 0xBC, CHR 0x88] @ ''session '' @ [CHR 0xE5, CHR 0x86, CHR 0x85, CHR 0xE5, CHR
     0xAD, CHR 0x98, CHR 0xE4, CHR 0xB8, CHR 0x8A, CHR 0xE9, CHR 0x99, CHR 0x90, CHR 0xE6, CHR 0x9C, CHR
     0xAA, CHR 0xE8, CHR 0xA7, CHR 0xA6, CHR 0xE5, CHR 0x8F, CHR 0x91, CHR 0xEF, CHR 0xBC, CHR 0x89]"

definition classify_cgroup_exit ::
  "int option \<Rightarrow> (int \<times> int) option \<Rightarrow> (int \<times> int) option \<Rightarrow> int \<Rightarrow> string option" where
  "classify_cgroup_exit returncode before after memory_max_mb =
     (if returncode \<noteq> Some (- 9) then None
      else case (before, after) of
             (Some b, Some a) \<Rightarrow>
               if fst a > fst b then Some (cap_report memory_max_mb)
               else if snd a > snd b then Some host_oom_report
               else None
           | _ \<Rightarrow> None)"

definition classify_exit :: "session_cgroup \<Rightarrow> int option \<Rightarrow> cgroup_host \<Rightarrow> string option" where
  "classify_exit sc returncode h =
     classify_cgroup_exit returncode (sc_events_before sc) (read_memory_events (sc_path sc) h) (sc_memory_max_mb sc)"

definition prepare_session_cgroup ::
  "string option \<Rightarrow> int \<Rightarrow> int \<Rightarrow> cgroup_host \<Rightarrow> session_cgroup option \<times> cgroup_host" where
  "prepare_session_cgroup session_id memory_mb swap_mb h =
     (case session_id of
        None \<Rightarrow> (None, h)
      | Some sid \<Rightarrow>
          if sid = [] \<or> memory_mb \<le> 0 then (None, h)
          else (case ensure_session_cgroup sid memory_mb swap_mb h of
                  (None, h') \<Rightarrow> (None, h')
                | (Some p, h') \<Rightarrow>
                    (Some \<lparr>sc_path = p, sc_memory_max_mb = memory_mb, sc_events_before = read_memory_events p h'\<rparr>, h')))"

text \<open>\<open>rmdir\<close>: the kernel removes a cgroup only without members; a plain file is refused.\<close>

definition rmdir_ok :: "cgroup_host \<Rightarrow> dir_entry \<Rightarrow> bool" where
  "rmdir_ok h e = (hs_rmdir_fault h = None \<and> (case e of CgroupDir c \<Rightarrow> cg_members c = [] | PlainFile \<Rightarrow> False))"

definition drop_entry :: "string \<Rightarrow> cgroup_host \<Rightarrow> cgroup_host" where
  "drop_entry name h = h\<lparr>hs_entries := filter (\<lambda>e. fst e \<noteq> name) (hs_entries h)\<rparr>"

definition cleanup_session_cgroup :: "string \<Rightarrow> cgroup_host \<Rightarrow> bool \<times> cgroup_host" where
  "cleanup_session_cgroup session_id h =
     (let name = session_cgroup_name session_id
      in case map_of (hs_entries h) name of
           None \<Rightarrow> (False, h)
         | Some e \<Rightarrow> if rmdir_ok h e then (True, drop_entry name h) else (False, h))"

definition is_session_dir :: "string \<times> dir_entry \<Rightarrow> bool" where
  "is_session_dir e = (prefix session_cgroup_prefix (fst e) \<and> snd e \<noteq> PlainFile)"

fun sweep_entries :: "(string \<times> dir_entry) list \<Rightarrow> cgroup_host \<Rightarrow> nat \<times> cgroup_host" where
  "sweep_entries [] h = (0, h)"
| "sweep_entries (e # es) h =
     (if is_session_dir e \<and> rmdir_ok h (snd e)
      then (case sweep_entries es (drop_entry (fst e) h) of (n, h') \<Rightarrow> (Suc n, h'))
      else sweep_entries es h)"

definition sweep_stale_session_cgroups :: "cgroup_host \<Rightarrow> nat \<times> cgroup_host" where
  "sweep_stale_session_cgroups h = (if hs_base h then sweep_entries (hs_entries h) h else (0, h))"

text \<open>The startup lines: their event names.\<close>

definition log_session_cgroup_startup :: "int \<Rightarrow> bool \<Rightarrow> cgroup_host \<Rightarrow> string list" where
  "log_session_cgroup_startup memory_max_mb uncovered_backends h =
     (if memory_max_mb \<le> 0 then [''session_cgroup_disabled'']
      else if \<not> hs_base h then [''session_cgroup_disabled'']
      else if \<not> hs_writable h then [''session_cgroup_disabled'']
      else (if uncovered_backends then [''session_cgroup_partial_coverage''] else []) @ [''session_cgroup_enabled''])"

subsection \<open>Escalation\<close>

lemma clock_advances:
  fixes clock :: "nat \<Rightarrow> int"
  assumes "\<And>i. k \<le> i \<Longrightarrow> clock i + d \<le> clock (Suc i)"
  shows "clock k + int n * d \<le> clock (k + n)"
proof (induction n)
  case (Suc n)
  have "clock k + int (Suc n) * d = (clock k + int n * d) + d" by (simp add: algebra_simps)
  then show ?case using Suc assms [of "k + n"] by simp
qed simp

lemma escalation_wait_returns:
  "k < fuel \<Longrightarrow> deadline \<le> clock (i + k) \<Longrightarrow>
   \<exists>r. escalation_wait fuel alive clock deadline i = Some r \<and> (\<forall>j. r = Inr j \<longrightarrow> j \<le> Suc (i + k))"
proof (induction fuel arbitrary: i k)
  case (Suc fuel)
  show ?case
  proof (cases "alive i = Inr True \<and> clock i < deadline")
    case True
    then obtain k' where k: "k = Suc k'" using Suc.prems(2) by (cases k) auto
    show ?thesis using Suc.IH [of k' "Suc i"] Suc.prems True k by simp
  next
    case False
    then show ?thesis by (auto split: sum.split bool.split)
  qed
qed simp

lemma escalation_wait_probe:
  assumes "escalation_wait fuel alive clock deadline i = Some (Inr j)"
  shows "i < j \<and> (alive (j - 1) = Inr False \<or> (alive (j - 1) = Inr True \<and> deadline \<le> clock (j - 1)))"
  using assms
proof (induction fuel arbitrary: i)
  case (Suc fuel)
  then show ?case by (fastforce split: sum.splits bool.splits if_split_asm)
qed simp

lemma killed_group: "(g, sig) \<in> set (snd (kill_process_group pt pid sig')) \<Longrightarrow> sig = sig' \<and> pt_pgid pt pid = Some g"
  by (auto simp: kill_process_group_def split: option.splits if_splits)

text \<open>
  C39. The deadline is read from the clock before the first probe; from then on each round of the
  loop sleeps for the poll interval. The escalation ends after at most 27 probes, the one that decides
  included. It sends SIGKILL only to the group of the pid, only when its last probe answered that
  the process is alive, and only after SIGTERM: the grace had run out, or the probe before had
  said it was gone.
\<close>

theorem escalation_is_authorised:
  assumes "clock 0 \<le> clock 1" "\<And>i. 1 \<le> i \<Longrightarrow> clock i + kill_escalation_poll \<le> clock (Suc i)" and "26 \<le> fuel"
  shows "\<exists>sent r. kill_group_escalating fuel pt pid alive clock = Some (sent, r) \<and>
    prefix (snd (kill_process_group pt pid SIGTERM)) sent \<and>
    (\<forall>g. (g, SIGKILL) \<in> set sent \<longrightarrow> pt_pgid pt pid = Some g \<and> r = Inr () \<and>
      (\<exists>j \<le> 27. 2 \<le> j \<and> alive j = Inr True \<and>
        (alive (j - 1) = Inr False \<or> clock 0 + kill_escalation_grace \<le> clock (j - 1))))"
proof -
  have "clock 1 + int 25 * kill_escalation_poll \<le> clock (1 + 25)" by (rule clock_advances) (rule assms(2))
  then have d: "clock 0 + kill_escalation_grace \<le> clock (1 + 25)"
    using assms(1) by (simp add: kill_escalation_grace_def kill_escalation_poll_def)
  have f: "25 < fuel" using assms(3) by simp
  obtain w where w: "escalation_wait fuel alive clock (clock 0 + kill_escalation_grace) 1 = Some w"
    and bound: "\<And>j. w = Inr j \<Longrightarrow> j \<le> 27"
    using escalation_wait_returns [where clock = clock and i = 1 and k = 25, OF f d, of alive] by auto
  show ?thesis
  proof (cases w)
    case (Inl e)
    then show ?thesis using w by (auto simp: kill_group_escalating_def Let_def dest: killed_group)
  next
    case (Inr j)
    have p: "1 < j" "alive (j - 1) = Inr False \<or> (alive (j - 1) = Inr True \<and> clock 0 + kill_escalation_grace \<le> clock (j - 1))"
      using escalation_wait_probe [of fuel alive clock _ 1 j] w Inr by auto
    have "j \<le> 27" using bound Inr by simp
    then have ex: "alive j = Inr True \<Longrightarrow> \<exists>j \<le> 27. 2 \<le> j \<and> alive j = Inr True \<and>
        (alive (j - 1) = Inr False \<or> clock 0 + kill_escalation_grace \<le> clock (j - 1))" using p by auto
    show ?thesis
      using w Inr ex by (auto simp: kill_group_escalating_def Let_def dest: killed_group split: sum.split bool.split)
  qed
qed

text \<open>The bound is met: a process that never goes, and a clock that stands still before the first probe.\<close>

lemma escalation_bound_is_met:
  "escalation_wait 26 (\<lambda>_. Inr True) (\<lambda>i. int (i - 1) * kill_escalation_poll) kill_escalation_grace 1 = Some (Inr 27)"
  by code_simp

definition demo_table :: process_table where
  "demo_table = \<lparr>pt_pgid = [7 \<mapsto> 70], pt_accepts = (\<lambda>_ _. True)\<rparr>"

theorem escalation_is_authorised_witness:
  "\<exists>sent r. kill_group_escalating 26 demo_table 7 (\<lambda>_. Inr True) (\<lambda>i. int (i - 1) * 200000) = Some (sent, r) \<and>
    prefix [(70, SIGTERM)] sent"
  using escalation_is_authorised [of "\<lambda>i. int (i - 1) * 200000" 26 demo_table 7 "\<lambda>_. Inr True"]
  by (auto simp: kill_escalation_poll_def demo_table_def kill_process_group_def algebra_simps of_nat_diff)

subsection \<open>Hooks and cgroups\<close>

text \<open>Composition runs the hooks that are present, in order, until one raises or the child is dead.\<close>

lemma compose_preexec_runs:
  "compose_preexec fs = None \<longleftrightarrow> List.map_filter (\<lambda>f. f) fs = []"
  "compose_preexec fs = Some f \<Longrightarrow> f ch = run_hooks (List.map_filter (\<lambda>f. f) fs) ch"
  by (auto simp: compose_preexec_def py_bind_def split: list.splits sum.splits)

text \<open>A child whose parent died before the registration never reaches exec alive.\<close>

lemma orphan_never_runs:
  "make_pdeathsig_kill_preexec True parent = Some f \<Longrightarrow> f ch = Inr ch' \<Longrightarrow>
   ch_dead ch' \<or> (ch_ppid ch = parent \<and> ch_pdeathsig ch' = Some SIGKILL \<and> ch_dead ch' = ch_dead ch)"
  by (auto simp: make_pdeathsig_kill_preexec_def pdeathsig_should_self_kill_def Let_def split: if_splits)

lemma map_of_map_entry:
  "map_of (map_entry name f es) n =
     (if n = name then map_option (\<lambda>e. case e of CgroupDir c \<Rightarrow> CgroupDir (f c) | PlainFile \<Rightarrow> PlainFile) (map_of es n)
      else map_of es n)"
  by (induction es) auto

lemma fst_map_entry: "map fst (map_entry name f es) = map fst es"
  by (induction name f es rule: map_entry.induct) auto

lemma event_line_render: "CHR '' '' \<notin> set key \<Longrightarrow> event_line (key @ CHR '' '' # v) = (key, v)"
  by (subgoal_tac "\<forall>c \<in> set key. c \<noteq> CHR '' ''") (auto simp: event_line_def takeWhile_append2 dropWhile_append2)

definition last_count :: "string \<Rightarrow> (string \<times> int) list \<Rightarrow> int option \<Rightarrow> int option" where
  "last_count key kvs old = (case map_of (rev kvs) key of Some v \<Rightarrow> Some v | None \<Rightarrow> old)"

lemma last_count_Cons: "last_count key (kv # kvs) old = last_count key kvs (if fst kv = key then Some (snd kv) else old)"
  by (cases "map_of (rev kvs) key") (simp_all add: last_count_def map_add_def)

text \<open>The scan reads back the counters the kernel printed, the last line of a key winning.\<close>

lemma scan_events_counters:
  "(\<And>e. e \<in> set kvs \<Longrightarrow> CHR '' '' \<notin> set (fst e)) \<Longrightarrow>
   scan_events (map (\<lambda>kv. fst kv @ CHR '' '' # int_str (snd kv)) kvs) m k =
     scan_events [] (last_count ''max'' kvs m) (last_count ''oom_kill'' kvs k)"
proof (induction kvs arbitrary: m k)
  case (Cons kv kvs)
  have e: "event_line (fst kv @ CHR '' '' # int_str (snd kv)) = (fst kv, int_str (snd kv))"
    by (rule event_line_render) (simp add: Cons.prems)
  let ?rest = "map (\<lambda>kv. fst kv @ CHR '' '' # int_str (snd kv)) kvs"
  have "scan_events (map (\<lambda>kv. fst kv @ CHR '' '' # int_str (snd kv)) (kv # kvs)) m k =
      (if fst kv = ''max'' then scan_events ?rest (Some (snd kv)) k
       else if fst kv = ''oom_kill'' then scan_events ?rest m (Some (snd kv)) else scan_events ?rest m k)"
    by (simp only: list.map scan_events.simps e fst_conv snd_conv py_int_int_str option.case)
  then show ?case using Cons.IH Cons.prems by (simp add: last_count_Cons del: scan_events.simps(1))
qed (simp add: last_count_def)

text \<open>A memory cap that could be written is in force for the spawn, and the members stay.\<close>

lemma prepared_limits:
  assumes "prepare_session_cgroup (Some sid) mb swap h = (Some sc, h')"
    and "map_of (hs_entries h) (session_cgroup_name sid) = Some (CgroupDir c)"
  shows "map_of (hs_entries h') (sc_path sc) =
      Some (CgroupDir (c\<lparr>cg_memory_max := mib mb, cg_swap_max := mib swap\<rparr>)) \<and>
    sc_path sc = session_cgroup_name sid \<and> sc_events_before sc = read_memory_events (sc_path sc) h'"
  using assms
  by (auto simp: prepare_session_cgroup_def ensure_session_cgroup_def write_limits_def degraded_def Let_def
      map_of_map_entry split: if_splits option.splits prod.splits)

lemma sweep_entries_result:
  "distinct (map fst es) \<Longrightarrow>
   fst (sweep_entries es h) = length (filter (\<lambda>e. is_session_dir e \<and> rmdir_ok h (snd e)) es) \<and>
   hs_entries (snd (sweep_entries es h)) =
     filter (\<lambda>e. \<not> (\<exists>e' \<in> set es. fst e' = fst e \<and> is_session_dir e' \<and> rmdir_ok h (snd e'))) (hs_entries h)"
proof (induction es arbitrary: h)
  case (Cons e es)
  have ok: "rmdir_ok (h\<lparr>hs_entries := xs\<rparr>) = rmdir_ok h" for xs
    by (simp add: rmdir_ok_def fun_eq_iff split: dir_entry.split)
  show ?case
  proof (cases "is_session_dir e \<and> rmdir_ok h (snd e)")
    case True
    have "hs_entries (snd (sweep_entries es (drop_entry (fst e) h))) =
        filter (\<lambda>x. \<not> (\<exists>e' \<in> set (e # es). fst e' = fst x \<and> is_session_dir e' \<and> rmdir_ok h (snd e'))) (hs_entries h)"
      using Cons True by (auto simp: ok drop_entry_def intro: filter_cong)
    then show ?thesis using Cons True by (simp add: ok drop_entry_def split_beta)
  next
    case False
    then show ?thesis using Cons by (auto intro!: filter_cong)
  qed
qed simp

text \<open>
  The startup sweep removes exactly the session cgroups without members: the count it
  returns is the number removed, every other entry stays, and where the kernel refuses to remove
  directories nothing changes.
\<close>

theorem sweep_removes_idle_only:
  assumes "distinct (map fst (hs_entries h))" and "hs_base h"
  shows "hs_entries (snd (sweep_stale_session_cgroups h)) =
      filter (\<lambda>e. \<not> (is_session_dir e \<and> rmdir_ok h (snd e))) (hs_entries h) \<and>
    fst (sweep_stale_session_cgroups h) =
      length (filter (\<lambda>e. is_session_dir e \<and> rmdir_ok h (snd e)) (hs_entries h))"
proof -
  have "e' = e" if "e \<in> set (hs_entries h)" "e' \<in> set (hs_entries h)" "fst e' = fst e" for e e'
    using assms(1) that by (auto simp: distinct_map inj_on_def)
  then have "filter (\<lambda>e. \<not> (\<exists>e' \<in> set (hs_entries h). fst e' = fst e \<and> is_session_dir e' \<and> rmdir_ok h (snd e'))) (hs_entries h)
      = filter (\<lambda>e. \<not> (is_session_dir e \<and> rmdir_ok h (snd e))) (hs_entries h)"
    by (intro filter_cong) auto
  then show ?thesis using sweep_entries_result [OF assms(1), of h] assms(2)
    by (simp add: sweep_stale_session_cgroups_def)
qed

definition demo_group :: "int list \<Rightarrow> cgroup" where
  "demo_group pids = \<lparr>cg_memory_max = ''max'', cg_swap_max = ''max'', cg_events = None, cg_members = pids\<rparr>"

definition demo_host :: cgroup_host where
  "demo_host = \<lparr>hs_base = True, hs_writable = True,
     hs_entries = [(''charliebot-sess-a'', CgroupDir (demo_group [])), (''charliebot-sess-b'', CgroupDir (demo_group [4])),
       (''app-x'', CgroupDir (demo_group [])), (''cgroup.procs'', PlainFile)],
     hs_mkdir_fault = None, hs_memory_fault = None, hs_swap_fault = None, hs_rmdir_fault = None,
     hs_fresh = demo_group [], hs_warned = ({}, [])\<rparr>"

theorem sweep_removes_idle_only_witness:
  "map fst (hs_entries (snd (sweep_stale_session_cgroups demo_host))) = [''charliebot-sess-b'', ''app-x'', ''cgroup.procs'']"
  using sweep_removes_idle_only [of demo_host]
  by (simp add: demo_host_def is_session_dir_def rmdir_ok_def session_cgroup_prefix_def demo_group_def)


end
