(* ===== verification/Master_Queue.thy ===== *)
theory Master_Queue
  imports Prelude Event_Types Thinking_State Runs Process
begin

text \<open>
  \<open>src/agents/master_cc_queue.py\<close> and \<open>src/agents/master_cc_state.py\<close>: the run queue of the
  master agent. The module-level dictionaries are the maps of \<open>mq_world\<close>. The event loop
  runs the code between two awaits without interruption, so each such stretch is one step,
  and the steps of different sessions, callers and consumers interleave freely. The phase of
  a consumer says which await it is suspended in; what that await answers is an \<open>answer\<close>.

  \<open>SessionMetadata\<close> objects are shared between items by reference, so they live in a store.
  \<open>mq_accepted\<close> and \<open>mq_settled\<close> are history variables. A consumer task is cancelled only when
  the event loop shuts down, which is not modelled.
\<close>

record session_meta =
  sm_cc_session_id :: "string option"
  sm_claude_account :: "string option"

record work_item =
  wi_meta :: nat
  wi_user_content :: string
  wi_is_voice :: bool
  wi_auto_trigger :: bool
  wi_future :: nat
  wi_expect_fresh :: bool
  wi_user_event_id :: "string option"
  wi_uploaded_files :: "json list option"
  wi_resume_started :: "int option"   \<comment> \<open>resume_record.started_at; None: a fresh run\<close>
  wi_persists_account :: bool         \<comment> \<open>callbacks.persist_claude_account is not None\<close>

record run_result =
  rs_cc_session_id :: "string option"
  rs_exit_code :: int
  rs_error_msg :: "string option"
  rs_extras :: dict

datatype phase =
    Starting
  | RunningRound work_item
  | Zeroing work_item run_result
  | Anchoring work_item run_result string
  | AnchorWarned work_item run_result
  | Accounting work_item run_result string
  | AccountWarned work_item run_result
  | Announcing work_item run_result
  | Clearing work_item run_result

datatype answer =
    Scheduled
  | Ran run_result session_meta       \<comment> \<open>the run's result and the metadata as the run left it\<close>
  | ReadBack "string option"
  | Sent
  | Raised

record consumer =
  co_phase :: phase
  co_last_cc :: "string option"
  co_last_account :: "string option"
  co_teardown_auto :: "bool option"   \<comment> \<open>None: teardown_cfg is None\<close>

datatype outcome = Resolved "string option" | FailedRound | CancelledByCaller

datatype log_entry =
    ChatEvent dict
  | AnchorSaved string
  | AccountSaved string
  | MasterRunCleared
  | SidebarEvent bool "int option" bool   \<comment> \<open>has_running_tasks, thinking_since, auto_trigger\<close>

record mq_world =
  mq_queues :: "string \<rightharpoonup> work_item list"
  mq_consumers :: "string \<rightharpoonup> consumer"
  mq_current :: "string \<rightharpoonup> work_item"
  mq_busy :: busy_state
  mq_metas :: "nat \<Rightarrow> session_meta"
  mq_futures :: "nat \<rightharpoonup> outcome"
  mq_next_future :: nat
  mq_callers :: "(string \<times> work_item) list" \<comment> \<open>run_message calls past their persist, not yet enqueued\<close>
  mq_idle :: "(string \<times> bool) list"         \<comment> \<open>torn-down consumers that still owe the idle broadcast\<close>
  mq_log :: "(string \<times> log_entry) list"
  mq_accepted :: "(string \<times> work_item) list"
  mq_settled :: "(string \<times> work_item) list"

definition log_it :: "string \<Rightarrow> log_entry \<Rightarrow> mq_world \<Rightarrow> mq_world" where
  "log_it sid e w = w\<lparr>mq_log := mq_log w @ [(sid, e)]\<rparr>"

definition empty_world :: "(nat \<Rightarrow> session_meta) \<Rightarrow> mq_world" where
  "empty_world metas =
     \<lparr>mq_queues = Map.empty, mq_consumers = Map.empty, mq_current = Map.empty,
      mq_busy = \<lparr>bs_since = Map.empty, bs_dirty = (\<lambda>_. 0)\<rparr>, mq_metas = metas,
      mq_futures = Map.empty, mq_next_future = 0, mq_callers = [], mq_idle = [], mq_log = [],
      mq_accepted = [], mq_settled = []\<rparr>"

subsection \<open>Entering the queue\<close>

definition queue_of :: "string \<Rightarrow> mq_world \<Rightarrow> work_item list" where
  "queue_of sid w = (case mq_queues w sid of None \<Rightarrow> [] | Some q \<Rightarrow> q)"

definition enqueue_work_item :: "string \<Rightarrow> work_item \<Rightarrow> int \<Rightarrow> mq_world \<Rightarrow> (int \<times> bool) \<times> mq_world" where
  "enqueue_work_item sid item now w =
     (let marked = mark_busy sid (wi_resume_started item) now (mq_busy w)
      in (fst marked,
          w\<lparr>mq_queues := (mq_queues w)(sid \<mapsto> queue_of sid w @ [item]),
            mq_busy := snd marked,
            mq_consumers := (case mq_consumers w sid of
               Some _ \<Rightarrow> mq_consumers w
             | None \<Rightarrow> (mq_consumers w)(sid \<mapsto>
                 \<lparr>co_phase = Starting, co_last_cc = None, co_last_account = None, co_teardown_auto = None\<rparr>)),
            mq_accepted := mq_accepted w @ [(sid, item)]\<rparr>))"

definition broadcast_running_changed :: "string \<Rightarrow> bool \<Rightarrow> int option \<Rightarrow> bool \<Rightarrow> mq_world \<Rightarrow> mq_world" where
  "broadcast_running_changed sid running since auto w = log_it sid (SidebarEvent running since auto) w"

text \<open>The future, the atomic block, and the broadcast when a busy interval was opened.\<close>

definition submit_item :: "string \<Rightarrow> work_item \<Rightarrow> int \<Rightarrow> mq_world \<Rightarrow> mq_world" where
  "submit_item sid item0 now w =
     (let item = item0\<lparr>wi_future := mq_next_future w\<rparr>;
          entered = enqueue_work_item sid item now (w\<lparr>mq_next_future := Suc (mq_next_future w)\<rparr>)
      in if snd (fst entered)
         then broadcast_running_changed sid True (Some (fst (fst entered))) (wi_auto_trigger item) (snd entered)
         else snd entered)"

subsection \<open>run_message, resume and replay\<close>

definition truthy :: "string option \<Rightarrow> bool" where
  "truthy s = (case s of None \<Rightarrow> False | Some v \<Rightarrow> v \<noteq> [])"

record message =
  ms_meta :: nat
  ms_backend :: "string option"
  ms_user_content :: string
  ms_display_content :: "string option"
  ms_uploaded_files :: "json list option"
  ms_is_voice :: bool
  ms_skip_user_event :: bool
  ms_auto_trigger :: bool
  ms_expect_fresh :: bool
  ms_user_event_id :: "string option"
  ms_persists_account :: bool

text \<open>\<open>cfg.get_backend_option\<close> over the (id, type) pairs of the configured options.\<close>

definition get_backend_option :: "(string \<times> string) list \<Rightarrow> string \<Rightarrow> (string \<times> string) option" where
  "get_backend_option options bid = find (\<lambda>opt. fst opt = bid) options"

definition skips_backend :: "(string \<times> string) list \<Rightarrow> string option \<Rightarrow> bool" where
  "skips_backend options backend =
     (let bid = (if truthy backend then the backend
                 else case options of [] \<Rightarrow> [] | opt # _ \<Rightarrow> fst opt)
      in case get_backend_option options bid of None \<Rightarrow> False | Some opt \<Rightarrow> snd opt = ''tui-cli'')"

definition user_event :: "message \<Rightarrow> string \<Rightarrow> dict" where
  "user_event m stamp =
     [(''type'', JStr ET_USER),
      (''content'', JStr (case ms_display_content m of None \<Rightarrow> ms_user_content m | Some d \<Rightarrow> d)),
      (''timestamp'', JStr stamp), (''is_voice'', JBool (ms_is_voice m))] @
     (case ms_uploaded_files m of Some (f # fs) \<Rightarrow> [(''uploaded_files'', JArr (f # fs))] | _ \<Rightarrow> [])"

definition message_item :: "message \<Rightarrow> string option \<Rightarrow> work_item" where
  "message_item m event_id =
     \<lparr>wi_meta = ms_meta m, wi_user_content = ms_user_content m, wi_is_voice = ms_is_voice m,
      wi_auto_trigger = ms_auto_trigger m, wi_future = 0, wi_expect_fresh = ms_expect_fresh m,
      wi_user_event_id = event_id, wi_uploaded_files = ms_uploaded_files m,
      wi_resume_started = None, wi_persists_account = ms_persists_account m\<rparr>"

text \<open>
  \<open>run_message\<close> up to its last await before the atomic block: the persisting callback stamps
  \<open>event_id\<close> on the event. The call then waits in \<open>mq_callers\<close>; its enqueue is a step of its own.
\<close>

definition run_message :: "string \<Rightarrow> (string \<times> string) list \<Rightarrow> message \<Rightarrow> string \<Rightarrow> string option \<Rightarrow> mq_world \<Rightarrow> mq_world" where
  "run_message sid options m stamp event_id w =
     (if skips_backend options (ms_backend m) then w
      else if ms_skip_user_event m
      then w\<lparr>mq_callers := mq_callers w @ [(sid, message_item m (ms_user_event_id m))]\<rparr>
      else log_it sid (ChatEvent (user_event m stamp))
             (w\<lparr>mq_callers := mq_callers w @ [(sid, message_item m event_id)]\<rparr>))"

definition enqueue_master_resume :: "string \<Rightarrow> nat \<Rightarrow> string option \<Rightarrow> int \<Rightarrow> bool \<Rightarrow> int \<Rightarrow> mq_world \<Rightarrow> mq_world" where
  "enqueue_master_resume sid meta event_id started_at persists now w =
     submit_item sid
       \<lparr>wi_meta = meta, wi_user_content = [], wi_is_voice = False, wi_auto_trigger = False, wi_future = 0,
        wi_expect_fresh = False, wi_user_event_id = event_id, wi_uploaded_files = None,
        wi_resume_started = Some started_at, wi_persists_account = persists\<rparr> now w"

definition replay_marker :: string where
  "replay_marker = ''[System: the server restarted while answering this message, so it is being redelivered. Your previous, interrupted attempt may already have performed some actions '' @
     [CHR 0xE2, CHR 0x80, CHR 0x94] @
     '' before repeating any side effect (files written, messages sent, tasks delegated), read back that action's state first and continue from there instead.]''"

text \<open>None: the event is unusable and nothing is redelivered.\<close>

definition replay_message :: "nat \<Rightarrow> string option \<Rightarrow> bool \<Rightarrow> dict \<Rightarrow> message option" where
  "replay_message meta backend persists ev =
     (case dget ev ''content'' of
        JStr content \<Rightarrow>
          if content = [] then None
          else Some \<lparr>ms_meta = meta, ms_backend = backend,
                 ms_user_content = replay_marker @ [CHR 0x0A, CHR 0x0A] @ content, ms_display_content = None,
                 ms_uploaded_files = (case dget ev ''uploaded_files'' of JArr fs \<Rightarrow> Some fs | _ \<Rightarrow> None),
                 ms_is_voice = jtruthy (dget ev ''is_voice''), ms_skip_user_event = True,
                 ms_auto_trigger = False, ms_expect_fresh = False,
                 ms_user_event_id = (case dget ev ''id'' of JStr i \<Rightarrow> Some i | _ \<Rightarrow> None),
                 ms_persists_account = persists\<rparr>
      | _ \<Rightarrow> None)"

definition replay_user_message :: "string \<Rightarrow> (string \<times> string) list \<Rightarrow> nat \<Rightarrow> string option \<Rightarrow> bool \<Rightarrow> dict \<Rightarrow> mq_world \<Rightarrow> mq_world" where
  "replay_user_message sid options meta backend persists ev w =
     (case replay_message meta backend persists ev of
        None \<Rightarrow> w
      | Some m \<Rightarrow> run_message sid options m [] None w)"

text \<open>Ids of the user messages this process owns; and the one its running round answers.\<close>

definition event_ids :: "work_item list \<Rightarrow> string set" where
  "event_ids items = set (List.map_filter (\<lambda>i. if truthy (wi_user_event_id i) then wi_user_event_id i else None) items)"

definition queued_user_event_ids :: "string \<Rightarrow> mq_world \<Rightarrow> string set" where
  "queued_user_event_ids sid w =
     (case mq_current w sid of None \<Rightarrow> {} | Some item \<Rightarrow> event_ids [item]) \<union> event_ids (queue_of sid w)"

definition running_user_event_id :: "string \<Rightarrow> mq_world \<Rightarrow> string option" where
  "running_user_event_id sid w = (case mq_current w sid of None \<Rightarrow> None | Some item \<Rightarrow> wi_user_event_id item)"

subsection \<open>The consumer\<close>

definition set_phase :: "string \<Rightarrow> consumer \<Rightarrow> phase \<Rightarrow> mq_world \<Rightarrow> mq_world" where
  "set_phase sid c ph w = w\<lparr>mq_consumers := (mq_consumers w)(sid \<mapsto> c\<lparr>co_phase := ph\<rparr>)\<rparr>"

text \<open>The relay of the previous round's anchor and account onto the item's metadata.\<close>

definition relay_meta :: "consumer \<Rightarrow> session_meta \<Rightarrow> session_meta" where
  "relay_meta c m =
     (let m1 = (if truthy (co_last_cc c) \<and> \<not> truthy (sm_cc_session_id m)
                then m\<lparr>sm_cc_session_id := co_last_cc c\<rparr> else m)
      in if truthy (co_last_account c) \<and> \<not> truthy (sm_claude_account m1)
         then m1\<lparr>sm_claude_account := co_last_account c\<rparr> else m1)"

text \<open>\<open>queue.get()\<close> on a non-empty queue, up to the await of the run.\<close>

definition take_item :: "string \<Rightarrow> consumer \<Rightarrow> work_item \<Rightarrow> work_item list \<Rightarrow> mq_world \<Rightarrow> mq_world" where
  "take_item sid c item rest w =
     set_phase sid (c\<lparr>co_teardown_auto := Some (wi_auto_trigger item)\<rparr>) (RunningRound item)
       (w\<lparr>mq_queues := (mq_queues w)(sid \<mapsto> rest),
          mq_current := (mq_current w)(sid \<mapsto> item),
          mq_metas := (mq_metas w)(wi_meta item := relay_meta c (mq_metas w (wi_meta item)))\<rparr>)"

text \<open>The await-free teardown.\<close>

definition teardown :: "string \<Rightarrow> consumer \<Rightarrow> mq_world \<Rightarrow> mq_world" where
  "teardown sid c w =
     w\<lparr>mq_consumers := (mq_consumers w)(sid := None),
       mq_queues := (if mq_queues w sid = Some [] then (mq_queues w)(sid := None) else mq_queues w),
       mq_busy := clear_busy sid (mq_busy w),
       mq_idle := (case co_teardown_auto c of None \<Rightarrow> mq_idle w | Some auto \<Rightarrow> mq_idle w @ [(sid, auto)])\<rparr>"

text \<open>\<open>set_result\<close> or \<open>set_exception\<close>, unless the future is done already.\<close>

definition settle_future :: "nat \<Rightarrow> outcome \<Rightarrow> mq_world \<Rightarrow> mq_world" where
  "settle_future f out w =
     (case mq_futures w f of None \<Rightarrow> w\<lparr>mq_futures := (mq_futures w)(f \<mapsto> out)\<rparr> | Some _ \<Rightarrow> w)"

text \<open>The inner \<open>finally\<close> and the loop test: leave, or take the next item at once.\<close>

definition finish_item :: "string \<Rightarrow> consumer \<Rightarrow> work_item \<Rightarrow> outcome \<Rightarrow> mq_world \<Rightarrow> mq_world" where
  "finish_item sid c item out w =
     (let w1 = (settle_future (wi_future item) out w)
                 \<lparr>mq_current := (mq_current w)(sid := None), mq_settled := mq_settled w @ [(sid, item)]\<rparr>
      in case queue_of sid w1 of
           next # rest \<Rightarrow> take_item sid c next rest w1
         | [] \<Rightarrow> teardown sid c w1)"

subsection \<open>Settling a round\<close>

definition zero_output_event :: "run_result \<Rightarrow> dict" where
  "zero_output_event r =
     (let msg = ''Master run produced zero model output (cc_session_id='' @
            (if truthy (rs_cc_session_id r) then the (rs_cc_session_id r) else ''fresh session'') @
            ''): the turn settled with an all-zero usage result and no assistant text, thinking, tool use, or manual compaction. The triggering message was left unread. One known cause: opencode message-ID wraparound (LESSONS.md, 2026-08-14).''
      in [(''type'', JStr ET_ERROR), (''message'', JStr msg), (''content'', JStr msg)])"

definition zero_output :: "run_result \<Rightarrow> bool" where
  "zero_output r = jtruthy (dget (rs_extras r) ''zero_output'')"

definition readback_error :: "string \<Rightarrow> string \<Rightarrow> string \<Rightarrow> string option \<Rightarrow> dict" where
  "readback_error source subject v read_back =
     [(''type'', JStr ET_ERROR), (''source'', JStr source),
      (''message'', JStr (subject @ '' persist mismatch: wrote '' @ py_repr (Some v) @ '', read back '' @
         py_repr read_back @ '' from disk''))]"

text \<open>\<open>dict.update\<close>; and an interval truncated towards zero to seconds.\<close>

definition dict_update :: "dict \<Rightarrow> dict \<Rightarrow> dict" where
  "dict_update d extras = fold (\<lambda>(k, v) d. dict_put d k v) extras d"

definition trunc_seconds :: "int \<Rightarrow> int" where
  "trunc_seconds d = (if 0 \<le> d then d div 1000000 else - ((- d) div 1000000))"

definition make_master_done_event :: "int \<Rightarrow> bool \<Rightarrow> dict" where
  "make_master_done_event exit_code still =
     [(''type'', JStr ET_MASTER_DONE), (''exit_code'', JInt exit_code), (ET_STILL_THINKING, JBool still)]"

definition done_event :: "work_item \<Rightarrow> run_result \<Rightarrow> bool \<Rightarrow> int option \<Rightarrow> dict" where
  "done_event item r still seconds =
     (let d0 = make_master_done_event (rs_exit_code r) still;
          d1 = (if truthy (wi_user_event_id item)
                then dict_put d0 ''input_event_id'' (JStr (the (wi_user_event_id item))) else d0);
          d2 = (case seconds of None \<Rightarrow> d1 | Some s \<Rightarrow> dict_put d1 ET_THINKING_SECONDS (JInt s))
      in dict_update d2 (rs_extras r))"

definition thinking_seconds :: "string \<Rightarrow> int \<Rightarrow> mq_world \<Rightarrow> int option" where
  "thinking_seconds sid now w =
     (if queue_of sid w \<noteq> [] then None
      else map_option (\<lambda>t. trunc_seconds (now - t)) (busy_since sid (mq_busy w)))"

definition announce_round :: "string \<Rightarrow> consumer \<Rightarrow> work_item \<Rightarrow> run_result \<Rightarrow> int \<Rightarrow> mq_world \<Rightarrow> mq_world" where
  "announce_round sid c item r now w =
     log_it sid (ChatEvent (done_event item r (queue_of sid w \<noteq> []) (thinking_seconds sid now w)))
       (set_phase sid c (Announcing item r) w)"

definition settle_account :: "string \<Rightarrow> consumer \<Rightarrow> work_item \<Rightarrow> run_result \<Rightarrow> int \<Rightarrow> mq_world \<Rightarrow> mq_world" where
  "settle_account sid c item r now w =
     (let account = sm_claude_account (mq_metas w (wi_meta item))
      in if truthy account \<and> wi_persists_account item
         then log_it sid (AccountSaved (the account))
                (set_phase sid (c\<lparr>co_last_account := account\<rparr>) (Accounting item r (the account)) w)
         else announce_round sid c item r now w)"

definition settle_anchor :: "string \<Rightarrow> consumer \<Rightarrow> work_item \<Rightarrow> run_result \<Rightarrow> int \<Rightarrow> mq_world \<Rightarrow> mq_world" where
  "settle_anchor sid c item r now w =
     (let cc = rs_cc_session_id r
      in if truthy cc
         then log_it sid (AnchorSaved (the cc))
                (set_phase sid (c\<lparr>co_last_cc := cc\<rparr>) (Anchoring item r (the cc))
                  (w\<lparr>mq_metas := (mq_metas w)(wi_meta item := (mq_metas w (wi_meta item))\<lparr>sm_cc_session_id := cc\<rparr>)\<rparr>))
         else settle_account sid c item r now w)"

definition run_returned :: "string \<Rightarrow> consumer \<Rightarrow> work_item \<Rightarrow> run_result \<Rightarrow> int \<Rightarrow> mq_world \<Rightarrow> mq_world" where
  "run_returned sid c item r now w =
     (if zero_output r
      then let r' = r\<lparr>rs_exit_code := 1\<rparr>
           in if \<not> truthy (rs_error_msg r)
              then log_it sid (ChatEvent (zero_output_event r)) (set_phase sid c (Zeroing item r') w)
              else settle_anchor sid c item r' now w
      else settle_anchor sid c item r now w)"

fun phase_item :: "phase \<Rightarrow> work_item option" where
  "phase_item Starting = None"
| "phase_item (RunningRound item) = Some item"
| "phase_item (Zeroing item r) = Some item"
| "phase_item (Anchoring item r v) = Some item"
| "phase_item (AnchorWarned item r) = Some item"
| "phase_item (Accounting item r v) = Some item"
| "phase_item (AccountWarned item r) = Some item"
| "phase_item (Announcing item r) = Some item"
| "phase_item (Clearing item r) = Some item"

text \<open>What the consumer does when the await it is suspended in answers. None: it stays suspended.\<close>

fun on_answer :: "string \<Rightarrow> int \<Rightarrow> consumer \<Rightarrow> phase \<Rightarrow> answer \<Rightarrow> mq_world \<Rightarrow> mq_world option" where
  "on_answer sid now c Starting Scheduled w =
     (case queue_of sid w of item # rest \<Rightarrow> Some (take_item sid c item rest w) | [] \<Rightarrow> None)"
| "on_answer sid now c (RunningRound item) (Ran r m) w =
     Some (run_returned sid c item r now (w\<lparr>mq_metas := (mq_metas w)(wi_meta item := m)\<rparr>))"
| "on_answer sid now c (Zeroing item r) Sent w = Some (settle_anchor sid c item r now w)"
| "on_answer sid now c (Anchoring item r v) (ReadBack b) w =
     (if b = Some v then Some (settle_account sid c item r now w)
      else Some (log_it sid (ChatEvent (readback_error ''resume_anchor'' ''Resume anchor'' v b))
                   (set_phase sid c (AnchorWarned item r) w)))"
| "on_answer sid now c (AnchorWarned item r) Sent w = Some (settle_account sid c item r now w)"
| "on_answer sid now c (Accounting item r v) (ReadBack b) w =
     (if b = Some v then Some (announce_round sid c item r now w)
      else Some (log_it sid (ChatEvent (readback_error ''claude_account'' ''Claude account'' v b))
                   (set_phase sid c (AccountWarned item r) w)))"
| "on_answer sid now c (AccountWarned item r) Sent w = Some (announce_round sid c item r now w)"
| "on_answer sid now c (Announcing item r) Sent w =
     Some (log_it sid MasterRunCleared (set_phase sid c (Clearing item r) w))"
| "on_answer sid now c (Clearing item r) Sent w =
     Some (finish_item sid c item (Resolved (rs_cc_session_id r)) w)"
| "on_answer sid now c ph Raised w =
     map_option (\<lambda>item. finish_item sid c item FailedRound w) (phase_item ph)"
| "on_answer sid now c _ _ w = None"

definition resume :: "string \<Rightarrow> int \<Rightarrow> answer \<Rightarrow> mq_world \<Rightarrow> mq_world option" where
  "resume sid now ans w =
     (case mq_consumers w sid of None \<Rightarrow> None | Some c \<Rightarrow> on_answer sid now c (co_phase c) ans w)"

subsection \<open>All interleavings\<close>

inductive mq_step :: "mq_world \<Rightarrow> mq_world \<Rightarrow> bool" where
  message: "mq_step w (run_message sid options m stamp event_id w)"
| replay: "mq_step w (replay_user_message sid options meta backend persists ev w)"
| enters: "mq_callers w = xs @ (sid, item) # ys \<Longrightarrow> wi_resume_started item = None \<Longrightarrow>
     mq_step w (submit_item sid item now (w\<lparr>mq_callers := xs @ ys\<rparr>))"
| abandoned: "mq_callers w = xs @ x # ys \<Longrightarrow> mq_step w (w\<lparr>mq_callers := xs @ ys\<rparr>)"
| reattaches: "mq_step w (enqueue_master_resume sid meta event_id started_at persists now w)"
| consumer_runs: "resume sid now ans w = Some w' \<Longrightarrow> mq_step w w'"
| idle: "mq_idle w = xs @ (sid, auto) # ys \<Longrightarrow>
     mq_step w (broadcast_running_changed sid workers_running None auto (w\<lparr>mq_idle := xs @ ys\<rparr>))"
| caller_gone: "f < mq_next_future w \<Longrightarrow> mq_futures w f = None \<Longrightarrow>
     mq_step w (w\<lparr>mq_futures := (mq_futures w)(f \<mapsto> CancelledByCaller)\<rparr>)"
| metas_change: "mq_step w (w\<lparr>mq_metas := metas\<rparr>)"

inductive mq_reach :: "mq_world \<Rightarrow> bool" where
  start: "mq_reach (empty_world metas)"
| step: "mq_reach w \<Longrightarrow> mq_step w w' \<Longrightarrow> mq_reach w'"

subsection \<open>One consumer step: three shapes\<close>

lemma world_fields [simp]:
  "mq_queues (log_it sid e w) = mq_queues w" "mq_consumers (log_it sid e w) = mq_consumers w"
  "mq_current (log_it sid e w) = mq_current w" "mq_busy (log_it sid e w) = mq_busy w"
  "mq_metas (log_it sid e w) = mq_metas w" "mq_futures (log_it sid e w) = mq_futures w"
  "mq_next_future (log_it sid e w) = mq_next_future w" "mq_callers (log_it sid e w) = mq_callers w"
  "mq_idle (log_it sid e w) = mq_idle w" "mq_log (log_it sid e w) = mq_log w @ [(sid, e)]"
  "mq_accepted (log_it sid e w) = mq_accepted w" "mq_settled (log_it sid e w) = mq_settled w"
  by (simp_all add: log_it_def)

lemma phase_fields [simp]:
  "mq_queues (set_phase sid c ph w) = mq_queues w"
  "mq_consumers (set_phase sid c ph w) = (mq_consumers w)(sid \<mapsto> c\<lparr>co_phase := ph\<rparr>)"
  "mq_current (set_phase sid c ph w) = mq_current w" "mq_busy (set_phase sid c ph w) = mq_busy w"
  "mq_metas (set_phase sid c ph w) = mq_metas w" "mq_futures (set_phase sid c ph w) = mq_futures w"
  "mq_next_future (set_phase sid c ph w) = mq_next_future w" "mq_callers (set_phase sid c ph w) = mq_callers w"
  "mq_idle (set_phase sid c ph w) = mq_idle w" "mq_log (set_phase sid c ph w) = mq_log w"
  "mq_accepted (set_phase sid c ph w) = mq_accepted w" "mq_settled (set_phase sid c ph w) = mq_settled w"
  by (simp_all add: set_phase_def)

lemma future_fields [simp]:
  "mq_queues (settle_future f out w) = mq_queues w" "mq_consumers (settle_future f out w) = mq_consumers w"
  "mq_current (settle_future f out w) = mq_current w" "mq_busy (settle_future f out w) = mq_busy w"
  "mq_metas (settle_future f out w) = mq_metas w"
  "mq_futures (settle_future f out w) =
     (if mq_futures w f = None then (mq_futures w)(f \<mapsto> out) else mq_futures w)"
  "mq_next_future (settle_future f out w) = mq_next_future w" "mq_callers (settle_future f out w) = mq_callers w"
  "mq_idle (settle_future f out w) = mq_idle w" "mq_log (settle_future f out w) = mq_log w"
  "mq_accepted (settle_future f out w) = mq_accepted w" "mq_settled (settle_future f out w) = mq_settled w"
  by (simp_all add: settle_future_def split: option.splits)

lemma queue_of_frame: "mq_queues w' = mq_queues w \<Longrightarrow> queue_of sid w' = queue_of sid w"
  by (simp add: queue_of_def)

lemma queue_of_log [simp]: "queue_of s (log_it sid e w) = queue_of s w"
  "queue_of s (set_phase sid c ph w) = queue_of s w" "queue_of s (settle_future f out w) = queue_of s w"
  by (simp_all add: queue_of_def)

text \<open>A round moves on: only the phase, the log, the metadata and the relayed ids change.\<close>

definition round_work :: "mq_world \<Rightarrow> mq_world" where
  "round_work w = w\<lparr>mq_log := [], mq_metas := (\<lambda>_. \<lparr>sm_cc_session_id = None, sm_claude_account = None\<rparr>), mq_consumers := Map.empty\<rparr>"

definition moves_on :: "string \<Rightarrow> work_item \<Rightarrow> mq_world \<Rightarrow> mq_world \<Rightarrow> bool" where
  "moves_on sid item w w' \<longleftrightarrow>
     round_work w' = round_work w \<and>
     (\<exists>c'. mq_consumers w' = (mq_consumers w)(sid \<mapsto> c') \<and> phase_item (co_phase c') = Some item)"

lemma moves_on_log: "moves_on sid item w w' \<Longrightarrow> moves_on sid item w (log_it s e w')"
  by (simp add: moves_on_def round_work_def log_it_def)

lemma moves_on_phase: "phase_item ph = Some item \<Longrightarrow> moves_on sid item w (set_phase sid c ph w)"
  by (auto simp: moves_on_def round_work_def set_phase_def)

lemma moves_on_metas: "moves_on sid item (w\<lparr>mq_metas := ms\<rparr>) w' \<longleftrightarrow> moves_on sid item w w'"
  by (simp add: moves_on_def round_work_def)

lemma moves_on_announce: "moves_on sid item w (announce_round sid c item r now w)"
  by (simp add: announce_round_def moves_on_log moves_on_phase)

lemma moves_on_account: "moves_on sid item w (settle_account sid c item r now w)"
  by (simp add: settle_account_def Let_def moves_on_log moves_on_phase moves_on_announce)

lemma moves_on_anchor: "moves_on sid item w (settle_anchor sid c item r now w)"
proof (cases "truthy (rs_cc_session_id r)")
  case True
  let ?w = "w\<lparr>mq_metas := (mq_metas w)(wi_meta item := (mq_metas w (wi_meta item))\<lparr>sm_cc_session_id := rs_cc_session_id r\<rparr>)\<rparr>"
  have "moves_on sid item ?w (set_phase sid c' (Anchoring item r v) ?w)" for c' v
    by (rule moves_on_phase) simp
  then show ?thesis using True by (simp add: settle_anchor_def Let_def moves_on_log moves_on_metas)
next
  case False
  then show ?thesis by (simp add: settle_anchor_def Let_def moves_on_account)
qed

lemma moves_on_returned: "moves_on sid item w (run_returned sid c item r now w)"
  by (simp add: run_returned_def Let_def moves_on_log moves_on_phase moves_on_anchor)

lemma on_answer_cases:
  assumes "on_answer sid now c ph ans w = Some w'"
  shows "(\<exists>item. phase_item ph = Some item \<and> moves_on sid item w w') \<or>
    (\<exists>item rest. ph = Starting \<and> queue_of sid w = item # rest \<and> w' = take_item sid c item rest w) \<or>
    (\<exists>item out. phase_item ph = Some item \<and> out \<noteq> CancelledByCaller \<and> w' = finish_item sid c item out w)"
  using assms
proof (induction sid now c ph ans w rule: on_answer.induct)
  case (2 sid now c item r m w)
  then show ?case using moves_on_returned [of sid item "w\<lparr>mq_metas := (mq_metas w)(wi_meta item := m)\<rparr>" c r now]
    by (auto simp: moves_on_metas)
qed (auto simp: moves_on_announce moves_on_account moves_on_anchor moves_on_log moves_on_phase
       split: list.splits if_split_asm)



subsection \<open>The invariant of the queue\<close>

definition items_of :: "string \<Rightarrow> (string \<times> work_item) list \<Rightarrow> work_item list" where
  "items_of sid xs = map snd (filter (\<lambda>e. fst e = sid) xs)"

lemma items_of_simps [simp]:
  "items_of sid [] = []"
  "items_of sid (xs @ ys) = items_of sid xs @ items_of sid ys"
  "items_of sid [(s, i)] = (if s = sid then [i] else [])"
  by (simp_all add: items_of_def)

definition current_list :: "string \<Rightarrow> mq_world \<Rightarrow> work_item list" where
  "current_list sid w = (case mq_current w sid of None \<Rightarrow> [] | Some item \<Rightarrow> [item])"

definition session_inv :: "string \<Rightarrow> mq_world \<Rightarrow> bool" where
  "session_inv sid w \<longleftrightarrow>
     (mq_consumers w sid = None \<longrightarrow>
        mq_queues w sid = None \<and> mq_current w sid = None \<and> busy_since sid (mq_busy w) = None) \<and>
     (\<forall>c. mq_consumers w sid = Some c \<longrightarrow>
        mq_queues w sid \<noteq> None \<and> busy_since sid (mq_busy w) \<noteq> None \<and>
        mq_current w sid = phase_item (co_phase c) \<and> (phase_item (co_phase c) = None \<longrightarrow> queue_of sid w \<noteq> [])) \<and>
     items_of sid (mq_accepted w) = items_of sid (mq_settled w) @ current_list sid w @ queue_of sid w"

definition futures_inv :: "mq_world \<Rightarrow> bool" where
  "futures_inv w \<longleftrightarrow>
     distinct (map (wi_future \<circ> snd) (mq_accepted w)) \<and>
     (\<forall>e \<in> set (mq_accepted w). wi_future (snd e) < mq_next_future w) \<and>
     set (mq_settled w) \<subseteq> set (mq_accepted w) \<and>
     (\<forall>e \<in> set (mq_settled w). mq_futures w (wi_future (snd e)) \<noteq> None) \<and>
     (\<forall>f out. mq_futures w f = Some out \<longrightarrow> f < mq_next_future w \<and>
        (out = CancelledByCaller \<or> (\<exists>e \<in> set (mq_settled w). wi_future (snd e) = f)))"

definition mq_inv :: "mq_world \<Rightarrow> bool" where
  "mq_inv w \<longleftrightarrow> (\<forall>sid. session_inv sid w) \<and> futures_inv w"

text \<open>Steps that touch none of the fields the invariant reads.\<close>

lemma inv_frame:
  assumes "mq_inv w"
    and "mq_queues w' = mq_queues w" "mq_consumers w' = mq_consumers w" "mq_current w' = mq_current w"
    and "mq_busy w' = mq_busy w" "mq_futures w' = mq_futures w" "mq_next_future w' = mq_next_future w"
    and "mq_accepted w' = mq_accepted w" "mq_settled w' = mq_settled w"
  shows "mq_inv w'"
  using assms by (simp add: mq_inv_def session_inv_def futures_inv_def current_list_def queue_of_def)

lemma inv_moves_on:
  assumes inv: "mq_inv w" and m: "moves_on sid item w w'"
    and c: "mq_consumers w sid = Some c" "phase_item (co_phase c) = Some item"
  shows "mq_inv w'"
proof -
  obtain c' where c': "mq_consumers w' = (mq_consumers w)(sid \<mapsto> c')" "phase_item (co_phase c') = Some item"
    using m by (auto simp: moves_on_def)
  have eqs: "mq_queues w' = mq_queues w" "mq_current w' = mq_current w" "mq_busy w' = mq_busy w"
    "mq_futures w' = mq_futures w" "mq_next_future w' = mq_next_future w"
    "mq_accepted w' = mq_accepted w" "mq_settled w' = mq_settled w"
    using m by (auto simp: moves_on_def round_work_def dest: arg_cong [where f = mq_queues]
      arg_cong [where f = mq_current] arg_cong [where f = mq_busy] arg_cong [where f = mq_futures]
      arg_cong [where f = mq_next_future] arg_cong [where f = mq_accepted] arg_cong [where f = mq_settled])
  have "session_inv s w'" for s
    using inv c c' eqs by (cases "s = sid") (auto simp: mq_inv_def session_inv_def current_list_def queue_of_def
        dest!: spec [where x = s])
  moreover have "futures_inv w'" using inv eqs by (simp add: mq_inv_def futures_inv_def)
  ultimately show ?thesis by (simp add: mq_inv_def)
qed

lemma take_item_fields [simp]:
  "mq_queues (take_item sid c item rest w) = (mq_queues w)(sid \<mapsto> rest)"
  "mq_consumers (take_item sid c item rest w) =
     (mq_consumers w)(sid \<mapsto> c\<lparr>co_teardown_auto := Some (wi_auto_trigger item), co_phase := RunningRound item\<rparr>)"
  "mq_current (take_item sid c item rest w) = (mq_current w)(sid \<mapsto> item)"
  "mq_busy (take_item sid c item rest w) = mq_busy w"
  "mq_futures (take_item sid c item rest w) = mq_futures w"
  "mq_next_future (take_item sid c item rest w) = mq_next_future w"
  "mq_accepted (take_item sid c item rest w) = mq_accepted w"
  "mq_settled (take_item sid c item rest w) = mq_settled w"
  "mq_log (take_item sid c item rest w) = mq_log w"
  by (simp_all add: take_item_def)

lemma teardown_fields [simp]:
  "mq_consumers (teardown sid c w) = (mq_consumers w)(sid := None)"
  "mq_queues (teardown sid c w) = (if mq_queues w sid = Some [] then (mq_queues w)(sid := None) else mq_queues w)"
  "mq_current (teardown sid c w) = mq_current w"
  "mq_busy (teardown sid c w) = clear_busy sid (mq_busy w)"
  "mq_futures (teardown sid c w) = mq_futures w"
  "mq_next_future (teardown sid c w) = mq_next_future w"
  "mq_accepted (teardown sid c w) = mq_accepted w"
  "mq_settled (teardown sid c w) = mq_settled w"
  "mq_log (teardown sid c w) = mq_log w"
  by (simp_all add: teardown_def)

lemma inv_take:
  assumes inv: "mq_inv w" and c: "mq_consumers w sid = Some c" "co_phase c = Starting"
    and q: "queue_of sid w = item # rest"
  shows "mq_inv (take_item sid c item rest w)"
proof -
  have "session_inv s (take_item sid c item rest w)" for s
    using inv c q by (cases "s = sid") (auto simp: mq_inv_def session_inv_def current_list_def queue_of_def
        dest!: spec [where x = s])
  then show ?thesis using inv by (simp add: mq_inv_def futures_inv_def)
qed

lemma distinct_futures_eq:
  "distinct (map (wi_future \<circ> snd) xs) \<Longrightarrow> a \<in> set xs \<Longrightarrow> b \<in> set xs \<Longrightarrow>
   wi_future (snd a) = wi_future (snd b) \<Longrightarrow> a = b"
  by (auto simp: distinct_map inj_on_def)

lemma current_accepted:
  assumes "session_inv sid w" "mq_current w sid = Some item"
  shows "(sid, item) \<in> set (mq_accepted w)"
proof -
  have "item \<in> set (items_of sid (mq_accepted w))" using assms by (simp add: session_inv_def current_list_def)
  then show ?thesis by (auto simp: items_of_def)
qed

lemma futures_settle:
  assumes "futures_inv w" "(sid, item) \<in> set (mq_accepted w)"
    and "mq_futures w' = mq_futures (settle_future (wi_future item) out w)"
    and "mq_next_future w' = mq_next_future w" "mq_accepted w' = mq_accepted w"
    and "mq_settled w' = mq_settled w @ [(sid, item)]"
  shows "futures_inv w'"
  using assms by (auto simp: futures_inv_def split: if_splits)

lemma queue_of_None: "queue_of sid w = [] \<longleftrightarrow> mq_queues w sid = None \<or> mq_queues w sid = Some []"
  by (simp add: queue_of_def split: option.splits)

lemma inv_finish:
  assumes inv: "mq_inv w" and c: "mq_consumers w sid = Some c" "phase_item (co_phase c) = Some item"
  shows "mq_inv (finish_item sid c item out w)"
proof -
  let ?w = "(settle_future (wi_future item) out w)
              \<lparr>mq_current := (mq_current w)(sid := None), mq_settled := mq_settled w @ [(sid, item)]\<rparr>"
  have s: "session_inv sid w" "futures_inv w" and cur: "mq_current w sid = Some item"
    using inv c by (auto simp: mq_inv_def session_inv_def dest: spec [where x = sid])
  have acc: "(sid, item) \<in> set (mq_accepted w)" using current_accepted s cur by blast
  have q: "queue_of sid ?w = queue_of sid w" by (simp add: queue_of_def)
  show ?thesis
  proof (cases "queue_of sid w")
    case Nil
    then have e: "finish_item sid c item out w = teardown sid c ?w" using q by (simp add: finish_item_def)
    have "session_inv t (teardown sid c ?w)" for t
      using inv s c cur Nil by (cases "t = sid") (auto simp: mq_inv_def session_inv_def current_list_def queue_of_def
          busy.since_clear dest!: spec [where x = t])
    moreover have "futures_inv (teardown sid c ?w)" by (rule futures_settle [OF s(2) acc]) auto
    ultimately show ?thesis by (simp add: e mq_inv_def)
  next
    case (Cons nxt rest)
    then have e: "finish_item sid c item out w = take_item sid c nxt rest ?w" using q by (simp add: finish_item_def)
    have "session_inv t (take_item sid c nxt rest ?w)" for t
      using inv s c cur Cons by (cases "t = sid") (auto simp: mq_inv_def session_inv_def current_list_def queue_of_def
          dest!: spec [where x = t])
    moreover have "futures_inv (take_item sid c nxt rest ?w)" by (rule futures_settle [OF s(2) acc]) auto
    ultimately show ?thesis by (simp add: e mq_inv_def)
  qed
qed

lemma inv_resume: "mq_inv w \<Longrightarrow> resume sid now ans w = Some w' \<Longrightarrow> mq_inv w'"
  unfolding resume_def
  using inv_moves_on inv_take inv_finish by (auto split: option.splits dest!: on_answer_cases)

lemma submit_fields:
  assumes "item = item0\<lparr>wi_future := mq_next_future w\<rparr>"
  shows "mq_queues (submit_item sid item0 now w) = (mq_queues w)(sid \<mapsto> queue_of sid w @ [item])"
    "mq_busy (submit_item sid item0 now w) = snd (mark_busy sid (wi_resume_started item0) now (mq_busy w))"
    "mq_current (submit_item sid item0 now w) = mq_current w"
    "mq_consumers (submit_item sid item0 now w) = (case mq_consumers w sid of Some _ \<Rightarrow> mq_consumers w
       | None \<Rightarrow> (mq_consumers w)(sid \<mapsto> \<lparr>co_phase = Starting, co_last_cc = None, co_last_account = None, co_teardown_auto = None\<rparr>))"
    "mq_futures (submit_item sid item0 now w) = mq_futures w"
    "mq_next_future (submit_item sid item0 now w) = Suc (mq_next_future w)"
    "mq_accepted (submit_item sid item0 now w) = mq_accepted w @ [(sid, item)]"
    "mq_settled (submit_item sid item0 now w) = mq_settled w"
  by (simp_all add: assms submit_item_def enqueue_work_item_def broadcast_running_changed_def queue_of_def Let_def split: option.splits)

lemma inv_submit:
  assumes "mq_inv w"
  shows "mq_inv (submit_item sid item0 now w)"
proof -
  have "session_inv t (submit_item sid item0 now w)" for t
  proof (cases "t = sid")
    case True
    have "session_inv sid w" using assms by (simp add: mq_inv_def)
    then show ?thesis unfolding True
      by (auto simp: session_inv_def submit_fields [OF refl] current_list_def queue_of_def busy.since_mark
          split: option.splits)
  next
    case False
    have "session_inv t w" using assms by (simp add: mq_inv_def)
    then show ?thesis using False
      by (auto simp: session_inv_def submit_fields [OF refl] current_list_def queue_of_def busy.since_mark
          split: option.splits)
  qed
  moreover have "futures_inv (submit_item sid item0 now w)"
    using assms by (fastforce simp: mq_inv_def futures_inv_def submit_fields [OF refl])
  ultimately show ?thesis by (simp add: mq_inv_def)
qed

lemma run_message_fields [simp]:
  "mq_queues (run_message sid options m stamp i w) = mq_queues w"
  "mq_consumers (run_message sid options m stamp i w) = mq_consumers w"
  "mq_current (run_message sid options m stamp i w) = mq_current w"
  "mq_busy (run_message sid options m stamp i w) = mq_busy w"
  "mq_futures (run_message sid options m stamp i w) = mq_futures w"
  "mq_next_future (run_message sid options m stamp i w) = mq_next_future w"
  "mq_accepted (run_message sid options m stamp i w) = mq_accepted w"
  "mq_settled (run_message sid options m stamp i w) = mq_settled w"
  by (simp_all add: run_message_def)

lemma replay_cases:
  obtains "replay_user_message sid options meta backend persists ev w = w"
  | m where "replay_user_message sid options meta backend persists ev w = run_message sid options m [] None w"
  by (cases "replay_message meta backend persists ev") (simp_all add: replay_user_message_def)

lemma inv_step: "mq_step w w' \<Longrightarrow> mq_inv w \<Longrightarrow> mq_inv w'"
proof (induction rule: mq_step.induct)
  case (message w sid options m stamp event_id)
  then show ?case by (rule inv_frame) simp_all
next
  case (replay w sid options meta backend persists ev)
  show ?case
    by (rule replay_cases [of sid options meta backend persists ev w])
       (simp_all add: replay inv_frame [OF replay])
next
  case (enters w xs sid item ys now)
  have "mq_inv (w\<lparr>mq_callers := xs @ ys\<rparr>)" by (rule inv_frame [OF enters.prems]) simp_all
  then show ?case by (rule inv_submit)
next
  case (abandoned w xs x ys)
  show ?case by (rule inv_frame [OF abandoned.prems]) simp_all
next
  case (reattaches w sid meta event_id started_at persists now)
  then show ?case by (simp add: enqueue_master_resume_def inv_submit)
next
  case (consumer_runs sid now ans w w')
  then show ?case by (rule inv_resume [rotated])
next
  case (idle w xs sid auto ys workers)
  show ?case by (rule inv_frame [OF idle.prems]) (simp_all add: broadcast_running_changed_def)
next
  case (caller_gone f w)
  then show ?case by (simp add: mq_inv_def session_inv_def futures_inv_def current_list_def queue_of_def)
next
  case (metas_change w metas)
  then show ?case by (rule inv_frame) simp_all
qed

lemma inv_empty: "mq_inv (empty_world metas)"
  by (simp add: mq_inv_def session_inv_def futures_inv_def current_list_def queue_of_def empty_world_def
      busy_since_def)

lemma reach_inv: "mq_reach w \<Longrightarrow> mq_inv w"
  by (induction rule: mq_reach.induct) (auto intro: inv_step inv_empty)



lemma items_of_member: "item \<in> set (items_of sid xs) \<longleftrightarrow> (sid, item) \<in> set xs"
  by (force simp: items_of_def)

lemma settled_by_someone:
  "futures_inv w \<Longrightarrow> mq_futures w f = Some out \<Longrightarrow> out \<noteq> CancelledByCaller \<Longrightarrow>
   \<exists>e \<in> set (mq_settled w). wi_future (snd e) = f"
  unfolding futures_inv_def by blast

lemma event_ids_append: "event_ids (xs @ ys) = event_ids xs \<union> event_ids ys"
  by (simp add: event_ids_def List.map_filter_def)

subsection \<open>What the callers and the readers rely on\<close>

text \<open>
  C37. A session is marked busy exactly while it has a running or a queued work item, in every
  interleaving of callers, consumers, cancelled callers and re-attached runs; and then a
  consumer is registered for it.
\<close>

theorem busy_iff_work:
  assumes "mq_reach w"
  shows "(busy_since sid (mq_busy w) \<noteq> None \<longleftrightarrow> mq_current w sid \<noteq> None \<or> queue_of sid w \<noteq> []) \<and>
    (busy_since sid (mq_busy w) \<noteq> None \<longleftrightarrow> mq_consumers w sid \<noteq> None)"
  using reach_inv [OF assms]
  by (cases "mq_consumers w sid") (auto simp: mq_inv_def session_inv_def queue_of_def dest: spec [where x = sid])

text \<open>
  C36. Every accepted item is settled at most once and in order: the accepted items of a
  session are its settled ones, then the running one, then the queue. Each has its own future;
  a settled item's future is done, and an unsettled one's only if its caller went away.
\<close>

theorem fifo_exactly_once:
  assumes "mq_reach w"
  shows "items_of sid (mq_accepted w) = items_of sid (mq_settled w) @ current_list sid w @ queue_of sid w \<and>
    distinct (map wi_future (items_of sid (mq_accepted w))) \<and>
    (\<forall>item \<in> set (items_of sid (mq_settled w)). mq_futures w (wi_future item) \<noteq> None) \<and>
    (\<forall>item \<in> set (current_list sid w @ queue_of sid w). mq_futures w (wi_future item) \<in> {None, Some CancelledByCaller})"
proof -
  have s: "session_inv sid w" and f: "futures_inv w" using reach_inv [OF assms] by (auto simp: mq_inv_def)
  let ?acc = "items_of sid (mq_accepted w)"
  have split: "?acc = items_of sid (mq_settled w) @ current_list sid w @ queue_of sid w"
    using s by (simp add: session_inv_def)
  have dist: "distinct (map (wi_future \<circ> snd) (mq_accepted w))" using f by (simp add: futures_inv_def)
  then have d: "distinct (map wi_future ?acc)"
    by (simp add: items_of_def comp_def distinct_map_filter)
  have pending: "mq_futures w (wi_future item) \<in> {None, Some CancelledByCaller}"
    if i: "item \<in> set (current_list sid w @ queue_of sid w)" for item
  proof (rule ccontr)
    assume "mq_futures w (wi_future item) \<notin> {None, Some CancelledByCaller}"
    then obtain e where e: "e \<in> set (mq_settled w)" "wi_future (snd e) = wi_future item"
      using settled_by_someone [OF f, of "wi_future item"]
      by (cases "mq_futures w (wi_future item)") blast+
    have "item \<in> set ?acc" using i split by simp
    then have "(sid, item) \<in> set (mq_accepted w)" by (simp add: items_of_member)
    moreover have "e \<in> set (mq_accepted w)" using e f by (auto simp: futures_inv_def)
    ultimately have "e = (sid, item)" using distinct_futures_eq [OF dist] e(2) by simp
    then have "item \<in> set (items_of sid (mq_settled w))" using e(1) by (simp add: items_of_member)
    then show False using d i unfolding split by auto
  qed
  have done_all: "mq_futures w (wi_future item) \<noteq> None" if "item \<in> set (items_of sid (mq_settled w))" for item
    using that f unfolding items_of_member futures_inv_def by fastforce
  show ?thesis using split d pending done_all by blast
qed

text \<open>
  Startup replay excludes exactly the messages this process still owns: the ids reported
  are those of the accepted items that are not settled yet.
\<close>

theorem replay_excludes_owned:
  assumes "mq_reach w"
  shows "queued_user_event_ids sid w =
    event_ids (drop (length (items_of sid (mq_settled w))) (items_of sid (mq_accepted w)))"
proof -
  have "session_inv sid w" using reach_inv [OF assms] by (simp add: mq_inv_def)
  then have "items_of sid (mq_accepted w) = items_of sid (mq_settled w) @ current_list sid w @ queue_of sid w"
    by (simp add: session_inv_def)
  then show ?thesis
    by (cases "mq_current w sid")
       (simp_all add: queued_user_event_ids_def current_list_def event_ids_append del: append_Cons append_assoc
          flip: append_assoc)
qed


subsection \<open>Draining\<close>

definition consumer_moves :: "string \<Rightarrow> mq_world \<Rightarrow> mq_world \<Rightarrow> bool" where
  "consumer_moves sid w w' \<longleftrightarrow> (\<exists>now ans. resume sid now ans w = Some w')"

fun phase_rank :: "phase \<Rightarrow> nat" where
  "phase_rank Starting = 0"
| "phase_rank (RunningRound item) = 8"
| "phase_rank (Zeroing item r) = 7"
| "phase_rank (Anchoring item r v) = 6"
| "phase_rank (AnchorWarned item r) = 5"
| "phase_rank (Accounting item r v) = 4"
| "phase_rank (AccountWarned item r) = 3"
| "phase_rank (Announcing item r) = 2"
| "phase_rank (Clearing item r) = 1"

text \<open>Awaits still ahead of the consumer: at most nine for each queued item.\<close>

definition work_left :: "string \<Rightarrow> mq_world \<Rightarrow> nat" where
  "work_left sid w = (case mq_consumers w sid of
     None \<Rightarrow> 0 | Some c \<Rightarrow> 9 * length (queue_of sid w) + phase_rank (co_phase c))"

lemma queue_of_metas [simp]: "queue_of sid (w\<lparr>mq_metas := ms\<rparr>) = queue_of sid w"
  by (simp add: queue_of_def)

lemma work_left_log [simp]: "work_left sid (log_it s e w) = work_left sid w"
  by (cases "mq_consumers w sid") (simp_all add: work_left_def)

lemma work_left_phase [simp]: "work_left sid (set_phase sid c ph w) = 9 * length (queue_of sid w) + phase_rank ph"
  by (simp add: work_left_def)

lemma work_left_announce: "work_left sid (announce_round sid c item r now w) = 9 * length (queue_of sid w) + 2"
  by (simp add: announce_round_def)

lemma work_left_account: "work_left sid (settle_account sid c item r now w) \<le> 9 * length (queue_of sid w) + 4"
  by (simp add: settle_account_def work_left_announce Let_def)

lemma work_left_anchor: "work_left sid (settle_anchor sid c item r now w) \<le> 9 * length (queue_of sid w) + 6"
  using work_left_account [of sid c item r now w] by (simp add: settle_anchor_def Let_def)

lemma work_left_returned: "work_left sid (run_returned sid c item r now w) \<le> 9 * length (queue_of sid w) + 7"
  using work_left_anchor [of sid c item "r\<lparr>rs_exit_code := 1\<rparr>" now w] work_left_anchor [of sid c item r now w]
  by (simp add: run_returned_def Let_def)

lemma work_left_take:
  "queue_of sid w = item # rest \<Longrightarrow> work_left sid (take_item sid c item rest w) = 9 * length rest + 8"
  by (simp add: work_left_def queue_of_def)

lemma work_left_finish: "work_left sid (finish_item sid c item out w) \<le> 9 * length (queue_of sid w)"
  by (auto simp: finish_item_def work_left_def queue_of_def Let_def split: list.splits option.splits)

lemma finish_item_less [intro]: "0 < n \<Longrightarrow> work_left sid (finish_item sid c item out w) < 9 * length (queue_of sid w) + n"
  using work_left_finish [of sid c item out w] by linarith

lemma rank_pos: "phase_item ph = Some item \<Longrightarrow> 0 < phase_rank ph"
  by (cases ph) auto

lemma on_answer_less:
  assumes "on_answer sid now c ph ans w = Some w'"
  shows "work_left sid w' < 9 * length (queue_of sid w) + phase_rank ph"
  using assms
proof (induction sid now c ph ans w rule: on_answer.induct)
  case (2 sid now c item r m w)
  have "work_left sid w' \<le> 9 * length (queue_of sid w) + 7"
    using 2 work_left_returned [of sid c item r now "w\<lparr>mq_metas := (mq_metas w)(wi_meta item := m)\<rparr>"] by auto
  then show ?case by simp
next
  case (3 sid now c item r w)
  then show ?case using work_left_anchor [of sid c item r now w] by auto
next
  case (4 sid now c item r v b w)
  then show ?case using work_left_account [of sid c item r now w] by (auto split: if_split_asm)
next
  case (5 sid now c item r w)
  then show ?case using work_left_account [of sid c item r now w] by auto
next
  case (9 sid now c item r w)
  then show ?case using work_left_finish [of sid c item "Resolved (rs_cc_session_id r)" w] by auto
qed (auto simp: work_left_announce work_left_take split: list.splits if_split_asm dest: rank_pos)

lemma move_less: "consumer_moves sid w w' \<Longrightarrow> work_left sid w' < work_left sid w"
  by (auto simp: consumer_moves_def resume_def work_left_def [of sid w] split: option.splits dest: on_answer_less)

lemma moves_bounded: "(consumer_moves sid ^^ n) w w' \<Longrightarrow> n + work_left sid w' \<le> work_left sid w"
proof (induction n arbitrary: w')
  case (Suc n)
  then obtain v where v: "(consumer_moves sid ^^ n) w v" "consumer_moves sid v w'" by auto
  show ?case using Suc.IH [OF v(1)] move_less [OF v(2)] by simp
qed simp

text \<open>A session that is busy is never stuck.\<close>

lemma busy_can_move:
  assumes "mq_reach w" and "mq_consumers w sid = Some c"
  shows "\<exists>w'. consumer_moves sid w w'"
proof (cases "phase_item (co_phase c)")
  case None
  then have ph: "co_phase c = Starting" by (cases "co_phase c") auto
  have "session_inv sid w" using reach_inv [OF assms(1)] by (simp add: mq_inv_def)
  then have "queue_of sid w \<noteq> []" using assms(2) None unfolding session_inv_def by blast
  then obtain item rest where "queue_of sid w = item # rest" by (cases "queue_of sid w") auto
  then have "resume sid now Scheduled w = Some (take_item sid c item rest w)" for now
    using assms(2) ph by (simp add: resume_def)
  then show ?thesis unfolding consumer_moves_def by blast
next
  case (Some item)
  then have "resume sid now Raised w = Some (finish_item sid c item FailedRound w)" for now
    using assms(2) by (cases "co_phase c") (simp_all add: resume_def)
  then show ?thesis unfolding consumer_moves_def by blast
qed

lemma reach_moves: "(consumer_moves sid ^^ n) w w' \<Longrightarrow> mq_reach w \<Longrightarrow> mq_reach w'"
proof (induction n arbitrary: w')
  case (Suc n)
  then obtain v where v: "(consumer_moves sid ^^ n) w v" "consumer_moves sid v w'" by auto
  show ?case using Suc.IH [OF v(1) Suc.prems(2)] v(2)
    by (auto simp: consumer_moves_def intro: mq_reach.step mq_step.consumer_runs)
qed simp

lemma finish_item_accepted [simp]: "mq_accepted (finish_item sid c item out w) = mq_accepted w"
  by (simp add: finish_item_def Let_def split: list.splits)

lemma moves_on_accepted: "moves_on sid item w w' \<Longrightarrow> mq_accepted w' = mq_accepted w"
  by (auto simp: moves_on_def round_work_def dest: arg_cong [where f = mq_accepted])

lemma resume_accepted: "resume sid now ans w = Some w' \<Longrightarrow> mq_accepted w' = mq_accepted w"
  by (auto simp: resume_def split: option.splits dest!: on_answer_cases moves_on_accepted)

lemma moves_accepted: "(consumer_moves sid ^^ n) w w' \<Longrightarrow> mq_accepted w' = mq_accepted w"
proof (induction n arbitrary: w')
  case (Suc n)
  then obtain v where v: "(consumer_moves sid ^^ n) w v" "consumer_moves sid v w'" by auto
  obtain now ans where "resume sid now ans v = Some w'" using v(2) unfolding consumer_moves_def by blast
  then show ?case using Suc.IH [OF v(1)] resume_accepted by simp
qed simp

text \<open>
  C38. The queue drains: from any reachable state the consumer of a session makes at most nine
  moves per queued item, whatever its awaits answer or raise, and when it can make no more the
  session is idle and every item accepted so far is settled, in the order it was accepted.
\<close>

theorem queue_drains:
  assumes "mq_reach w" and "(consumer_moves sid ^^ n) w w'"
  shows "n \<le> work_left sid w \<and>
    ((\<exists>w''. consumer_moves sid w' w'') \<or>
     (busy_since sid (mq_busy w') = None \<and> items_of sid (mq_settled w') = items_of sid (mq_accepted w)))"
proof -
  have r: "mq_reach w'" using reach_moves assms by blast
  have s: "session_inv sid w'" using reach_inv [OF r] by (simp add: mq_inv_def)
  have "busy_since sid (mq_busy w') = None \<and> items_of sid (mq_settled w') = items_of sid (mq_accepted w)"
    if "\<nexists>w''. consumer_moves sid w' w''"
  proof -
    have "mq_consumers w' sid = None" using busy_can_move [OF r] that by (cases "mq_consumers w' sid") auto
    then show ?thesis using s moves_accepted [OF assms(2)]
      by (auto simp: session_inv_def current_list_def queue_of_def)
  qed
  moreover have "n \<le> work_left sid w" using moves_bounded [OF assms(2)] by linarith
  ultimately show ?thesis by blast
qed



subsection \<open>The end of a round\<close>

lemma dget_dict_update: "dget (dict_update d extras) k =
    (case map_of (rev extras) k of Some v \<Rightarrow> v | None \<Rightarrow> dget d k)"
proof (induction extras arbitrary: d)
  case (Cons kv extras)
  then show ?case
    by (auto simp: dict_update_def split_beta map_add_def split: option.splits)
qed (simp add: dict_update_def)

lemma dhas_dict_update: "dhas (dict_update d extras) k \<longleftrightarrow> k \<in> fst ` set extras \<or> dhas d k"
proof (induction extras arbitrary: d)
  case (Cons kv extras)
  then show ?case by (auto simp: dict_update_def split_beta dhas_dict_put)
qed (simp add: dict_update_def)

lemma done_event_keys:
  assumes "ET_STILL_THINKING \<notin> fst ` set (rs_extras r)" "ET_THINKING_SECONDS \<notin> fst ` set (rs_extras r)"
  shows "dget (done_event item r still seconds) ET_STILL_THINKING = JBool still"
    and "dhas (done_event item r still seconds) ET_THINKING_SECONDS \<longleftrightarrow> seconds \<noteq> None"
    and "seconds = Some s \<Longrightarrow> dget (done_event item r still seconds) ET_THINKING_SECONDS = JInt s"
proof -
  have n: "map_of (rev (rs_extras r)) ET_STILL_THINKING = None" "map_of (rev (rs_extras r)) ET_THINKING_SECONDS = None"
    using assms by (simp_all add: map_of_eq_None_iff)
  show "dget (done_event item r still seconds) ET_STILL_THINKING = JBool still"
    using n by (simp add: done_event_def make_master_done_event_def Let_def dget_dict_update split: option.splits)
  show "dhas (done_event item r still seconds) ET_THINKING_SECONDS \<longleftrightarrow> seconds \<noteq> None"
    using assms by (simp add: done_event_def make_master_done_event_def Let_def dhas_dict_update dhas_dict_put
        split: option.splits) (simp add: dhas_def)
  show "seconds = Some s \<Longrightarrow> dget (done_event item r still seconds) ET_THINKING_SECONDS = JInt s"
    using n by (simp add: done_event_def make_master_done_event_def Let_def dget_dict_update)
qed

text \<open>Every way into the announcing phase logs the done event over the state it starts from.\<close>

definition announces_over :: "string \<Rightarrow> int \<Rightarrow> mq_world \<Rightarrow> mq_world \<Rightarrow> bool" where
  "announces_over sid now w w' \<longleftrightarrow> (\<forall>c' item r.
     mq_consumers w' sid = Some c' \<longrightarrow> co_phase c' = Announcing item r \<longrightarrow>
     mq_log w' = mq_log w @ [(sid, ChatEvent (done_event item r (queue_of sid w \<noteq> []) (thinking_seconds sid now w)))])"

lemma thinking_seconds_metas [simp]: "thinking_seconds sid now (w\<lparr>mq_metas := ms\<rparr>) = thinking_seconds sid now w"
  by (simp add: thinking_seconds_def)

lemma announces_over_other:
  "mq_consumers w' sid = Some c' \<Longrightarrow> (\<And>item r. co_phase c' \<noteq> Announcing item r) \<Longrightarrow> announces_over sid now w w'"
  by (simp add: announces_over_def)

lemma announces_over_announce: "announces_over sid now w (announce_round sid c item r now w)"
  by (simp add: announces_over_def announce_round_def)

lemma announces_over_account: "announces_over sid now w (settle_account sid c item r now w)"
  by (simp add: settle_account_def Let_def announces_over_announce announces_over_other)

lemma announces_over_anchor: "announces_over sid now w (settle_anchor sid c item r now w)"
  by (simp add: settle_anchor_def Let_def announces_over_account announces_over_other)

lemma announces_over_returned: "announces_over sid now w (run_returned sid c item r now w)"
  by (simp add: run_returned_def Let_def announces_over_anchor announces_over_other)

lemma announces_over_metas: "announces_over sid now (w\<lparr>mq_metas := ms\<rparr>) w' \<longleftrightarrow> announces_over sid now w w'"
  by (simp add: announces_over_def)

lemma announces_over_finish: "announces_over sid now w (finish_item sid c item out w)"
  by (auto simp: finish_item_def Let_def announces_over_def split: list.splits)

lemma on_answer_announces: "on_answer sid now c ph ans w = Some w' \<Longrightarrow> announces_over sid now w w'"
proof (induction sid now c ph ans w rule: on_answer.induct)
  case (2 sid now c item r m w)
  then show ?case using announces_over_returned [of sid now "w\<lparr>mq_metas := (mq_metas w)(wi_meta item := m)\<rparr>" c item r]
    by (simp add: announces_over_metas)
qed (auto simp: announces_over_announce announces_over_account announces_over_anchor announces_over_other
       announces_over_finish split: list.splits if_split_asm)

text \<open>
  When a round is announced, the done event says \<open>still_thinking\<close> exactly when another item
  is queued, and otherwise carries the length of the whole busy interval: the interval is
  always open at that point. (The run's own extras may override both, so they must not.)
\<close>

theorem done_reports_interval:
  assumes "mq_reach w" and "resume sid now ans w = Some w'"
    and "mq_consumers w' sid = Some c'" and "co_phase c' = Announcing item r"
    and "ET_STILL_THINKING \<notin> fst ` set (rs_extras r)" and "ET_THINKING_SECONDS \<notin> fst ` set (rs_extras r)"
  shows "\<exists>d started. mq_log w' = mq_log w @ [(sid, ChatEvent d)] \<and>
    busy_since sid (mq_busy w) = Some started \<and>
    dget d ET_STILL_THINKING = JBool (queue_of sid w \<noteq> []) \<and>
    (if queue_of sid w \<noteq> [] then \<not> dhas d ET_THINKING_SECONDS
     else dget d ET_THINKING_SECONDS = JInt (trunc_seconds (now - started)))"
proof -
  obtain c where c: "mq_consumers w sid = Some c" and a: "on_answer sid now c (co_phase c) ans w = Some w'"
    using assms(2) by (auto simp: resume_def split: option.splits)
  have "session_inv sid w" using reach_inv [OF assms(1)] by (simp add: mq_inv_def)
  then obtain t where t: "busy_since sid (mq_busy w) = Some t" using c by (auto simp: session_inv_def)
  let ?d = "done_event item r (queue_of sid w \<noteq> []) (thinking_seconds sid now w)"
  have "mq_log w' = mq_log w @ [(sid, ChatEvent ?d)]"
    using on_answer_announces [OF a] assms(3,4) by (simp add: announces_over_def)
  moreover have "dget ?d ET_STILL_THINKING = JBool (queue_of sid w \<noteq> [])" by (rule done_event_keys(1) [OF assms(5,6)])
  moreover have "if queue_of sid w \<noteq> [] then \<not> dhas ?d ET_THINKING_SECONDS
     else dget ?d ET_THINKING_SECONDS = JInt (trunc_seconds (now - t))"
    using done_event_keys(2,3) [OF assms(5,6)] t by (simp add: thinking_seconds_def)
  ultimately show ?thesis using t by blast
qed

subsection \<open>The restart record is cleared last\<close>

definition done_since_clear :: "string \<Rightarrow> (string \<times> log_entry) list \<Rightarrow> bool" where
  "done_since_clear sid log \<longleftrightarrow> (\<exists>us vs item r still secs.
     log = us @ (sid, ChatEvent (done_event item r still secs)) # vs \<and> (sid, MasterRunCleared) \<notin> set vs)"

definition cleared_after_done :: "string \<Rightarrow> (string \<times> log_entry) list \<Rightarrow> bool" where
  "cleared_after_done sid log \<longleftrightarrow>
     (\<forall>xs ys. log = xs @ (sid, MasterRunCleared) # ys \<longrightarrow> done_since_clear sid xs)"

definition clear_inv :: "string \<Rightarrow> mq_world \<Rightarrow> bool" where
  "clear_inv sid w \<longleftrightarrow> cleared_after_done sid (mq_log w) \<and>
     (\<forall>c item r. mq_consumers w sid = Some c \<and> co_phase c = Announcing item r \<longrightarrow> done_since_clear sid (mq_log w))"

text \<open>Log entries other than the clearing of the record keep both.\<close>

definition plain_log :: "mq_world \<Rightarrow> mq_world \<Rightarrow> bool" where
  "plain_log w w' \<longleftrightarrow> (\<exists>es. mq_log w' = mq_log w @ es \<and> MasterRunCleared \<notin> snd ` set es)"

lemma plain_log_refl: "mq_log w' = mq_log w \<Longrightarrow> plain_log w w'"
  unfolding plain_log_def by (rule exI [where x = "[]"]) simp

lemma plain_log_one: "mq_log w' = mq_log w @ [(s, e)] \<Longrightarrow> e \<noteq> MasterRunCleared \<Longrightarrow> plain_log w w'"
  unfolding plain_log_def by (rule exI [where x = "[(s, e)]"]) simp

lemma done_since_clear_append:
  assumes "done_since_clear sid log" and "MasterRunCleared \<notin> snd ` set es"
  shows "done_since_clear sid (log @ es)"
proof -
  obtain us vs item r still secs where
    "log = us @ (sid, ChatEvent (done_event item r still secs)) # vs" "(sid, MasterRunCleared) \<notin> set vs"
    using assms(1) unfolding done_since_clear_def by blast
  then have "log @ es = us @ (sid, ChatEvent (done_event item r still secs)) # (vs @ es)"
    and "(sid, MasterRunCleared) \<notin> set (vs @ es)"
    using assms(2) by force+
  then show ?thesis unfolding done_since_clear_def by blast
qed

lemma done_since_clear_event: "done_since_clear sid (log @ [(sid, ChatEvent (done_event item r still secs))])"
  unfolding done_since_clear_def
  by (intro exI conjI) (rule refl, simp)

lemma cleared_after_done_append:
  assumes "cleared_after_done sid log" and "MasterRunCleared \<notin> snd ` set es"
  shows "cleared_after_done sid (log @ es)"
  unfolding cleared_after_done_def
proof (intro allI impI)
  fix xs ys assume e: "log @ es = xs @ (sid, MasterRunCleared) # ys"
  have "length xs < length log"
  proof (rule ccontr)
    assume "\<not> length xs < length log"
    then have "es = drop (length log) xs @ (sid, MasterRunCleared) # ys"
      using arg_cong [OF e, of "drop (length log)"] by simp
    then show False using assms(2) by force
  qed
  then have "log = xs @ (sid, MasterRunCleared) # take (length log - Suc (length xs)) ys"
    using arg_cong [OF e, of "take (length log)"] by (simp add: take_Cons')
  then show "done_since_clear sid xs" using assms(1) unfolding cleared_after_done_def by blast
qed

lemma cleared_after_done_clear:
  assumes "cleared_after_done sid log" and "s = sid \<Longrightarrow> done_since_clear sid log"
  shows "cleared_after_done sid (log @ [(s, MasterRunCleared)])"
  unfolding cleared_after_done_def
proof (intro allI impI)
  fix xs ys assume e: "log @ [(s, MasterRunCleared)] = xs @ (sid, MasterRunCleared) # ys"
  show "done_since_clear sid xs"
  proof (cases ys rule: rev_cases)
    case Nil then show ?thesis using e assms(2) by simp
  next
    case (snoc zs z) then show ?thesis using e assms(1) unfolding cleared_after_done_def by simp
  qed
qed

lemma plain_announce: "plain_log w (announce_round sid c item r now w)"
  by (rule plain_log_one [OF _ log_entry.distinct(5)]) (simp add: announce_round_def)

lemma plain_account: "plain_log w (settle_account sid c item r now w)"
  by (simp add: settle_account_def Let_def plain_announce plain_log_one)

lemma plain_anchor: "plain_log w (settle_anchor sid c item r now w)"
  by (simp add: settle_anchor_def Let_def plain_account plain_log_one)

lemma plain_returned: "plain_log w (run_returned sid c item r now w)"
  by (simp add: run_returned_def Let_def plain_anchor plain_log_one)

lemma plain_finish: "plain_log w (finish_item sid c item out w)"
  by (rule plain_log_refl) (simp add: finish_item_def Let_def split: list.splits)

lemma on_answer_log:
  "on_answer sid now c ph ans w = Some w' \<Longrightarrow>
   plain_log w w' \<or> (\<exists>item r. ph = Announcing item r \<and> w' = log_it sid MasterRunCleared (set_phase sid c (Clearing item r) w))"
proof (induction sid now c ph ans w rule: on_answer.induct)
  case (2 sid now c item r m w)
  then show ?case using plain_returned [of "w\<lparr>mq_metas := (mq_metas w)(wi_meta item := m)\<rparr>" sid c item r now]
    by (simp add: plain_log_def)
qed (auto simp: plain_announce plain_account plain_anchor plain_finish plain_log_refl plain_log_one
       split: list.splits if_split_asm)

lemma clear_plain:
  assumes "clear_inv sid w" and "plain_log w w'" and "mq_consumers w' sid = mq_consumers w sid"
  shows "clear_inv sid w'"
  using assms cleared_after_done_append done_since_clear_append unfolding clear_inv_def plain_log_def by metis

lemma moves_on_other: "moves_on sid item w w' \<Longrightarrow> s \<noteq> sid \<Longrightarrow> mq_consumers w' s = mq_consumers w s"
  by (auto simp: moves_on_def)

lemma on_answer_other: "on_answer sid now c ph ans w = Some w' \<Longrightarrow> s \<noteq> sid \<Longrightarrow> mq_consumers w' s = mq_consumers w s"
  by (auto dest!: on_answer_cases simp: moves_on_other finish_item_def Let_def split: list.splits)

lemma clear_resume:
  assumes inv: "clear_inv s w" and res: "resume sid now ans w = Some w'"
  shows "clear_inv s w'"
proof -
  obtain c where c: "mq_consumers w sid = Some c" and a: "on_answer sid now c (co_phase c) ans w = Some w'"
    using res by (auto simp: resume_def split: option.splits)
  consider (plain) "plain_log w w'"
    | (clears) item r where "co_phase c = Announcing item r" "w' = log_it sid MasterRunCleared (set_phase sid c (Clearing item r) w)"
    using on_answer_log [OF a] by blast
  then show ?thesis
  proof cases
    case plain
    show ?thesis
    proof (cases "s = sid")
      case True
      have "done_since_clear sid (mq_log w')" if "mq_consumers w' sid = Some c'" "co_phase c' = Announcing item r" for c' item r
        using on_answer_announces [OF a] that by (simp add: announces_over_def done_since_clear_event)
      moreover have "cleared_after_done sid (mq_log w')"
        using inv plain cleared_after_done_append unfolding True clear_inv_def plain_log_def by metis
      ultimately show ?thesis unfolding True clear_inv_def by blast
    next
      case False
      show ?thesis by (rule clear_plain [OF inv plain on_answer_other [OF a False]])
    qed
  next
    case clears
    have "s = sid \<Longrightarrow> done_since_clear s (mq_log w)" using inv c clears(1) unfolding clear_inv_def by blast
    then have "cleared_after_done s (mq_log w')" using inv clears(2) cleared_after_done_clear [of s "mq_log w" sid]
      by (auto simp: clear_inv_def)
    moreover have "done_since_clear s (mq_log w')"
      if "mq_consumers w' s = Some c'" "co_phase c' = Announcing item r" for c' item r
    proof -
      have ne: "s \<noteq> sid" using that clears(2) by auto
      then have "done_since_clear s (mq_log w)" using that inv clears(2) unfolding clear_inv_def by auto
      then obtain us vs item r still secs where
        "mq_log w = us @ (s, ChatEvent (done_event item r still secs)) # vs" "(s, MasterRunCleared) \<notin> set vs"
        unfolding done_since_clear_def by blast
      then have "mq_log w' = us @ (s, ChatEvent (done_event item r still secs)) # (vs @ [(sid, MasterRunCleared)])"
        and "(s, MasterRunCleared) \<notin> set (vs @ [(sid, MasterRunCleared)])" using ne clears(2) by auto
      then show ?thesis unfolding done_since_clear_def by blast
    qed
    ultimately show ?thesis unfolding clear_inv_def by blast
  qed
qed

lemma clear_submit:
  assumes "clear_inv s w"
  shows "clear_inv s (submit_item sid item0 now w)"
proof -
  have p: "plain_log w (submit_item sid item0 now w)"
    by (auto simp: submit_item_def enqueue_work_item_def broadcast_running_changed_def Let_def
        intro: plain_log_refl plain_log_one)
  have "\<exists>item r. co_phase c = Announcing item r \<Longrightarrow> mq_consumers (submit_item sid item0 now w) s = Some c \<Longrightarrow>
      mq_consumers w s = Some c" for c
    by (auto simp: submit_fields [OF refl] split: option.splits if_splits)
  then show ?thesis using assms p cleared_after_done_append done_since_clear_append
    unfolding clear_inv_def plain_log_def by metis
qed

lemma clear_frame:
  "clear_inv s w \<Longrightarrow> mq_log w' = mq_log w \<Longrightarrow> mq_consumers w' = mq_consumers w \<Longrightarrow> clear_inv s w'"
  by (simp add: clear_inv_def)

lemma clear_run_message:
  assumes "clear_inv s w"
  shows "clear_inv s (run_message sid options m stamp i w)"
proof (rule clear_plain [OF assms])
  show "plain_log w (run_message sid options m stamp i w)"
    unfolding run_message_def by (simp add: plain_log_refl plain_log_one)
qed simp

lemma clear_step: "mq_step w w' \<Longrightarrow> clear_inv s w \<Longrightarrow> clear_inv s w'"
proof (induction rule: mq_step.induct)
  case (replay w sid options meta backend persists ev)
  then show ?case
    by (cases rule: replay_cases [of sid options meta backend persists ev w]) (simp_all add: clear_run_message)
next
  case (enters w xs sid item ys now)
  have "clear_inv s (w\<lparr>mq_callers := xs @ ys\<rparr>)" by (rule clear_plain [OF enters.prems]) (simp_all add: plain_log_refl)
  then show ?case by (rule clear_submit)
next
  case (consumer_runs sid now ans w w')
  then show ?case using clear_resume by blast
next
  case (idle w xs sid auto ys workers)
  show ?case
    by (rule clear_plain [OF idle.prems]) (auto simp: broadcast_running_changed_def intro: plain_log_one)
next
  case (reattaches w sid meta event_id started_at persists now)
  then show ?case by (simp add: enqueue_master_resume_def clear_submit)
qed (simp_all add: clear_run_message clear_frame)

lemma reach_clear: "mq_reach w \<Longrightarrow> clear_inv s w"
proof (induction rule: mq_reach.induct)
  case (start metas)
  show ?case by (simp add: clear_inv_def cleared_after_done_def empty_world_def)
next
  case (step w w')
  then show ?case using clear_step by blast
qed

text \<open>
  The restart identity of a turn is cleared only after its done event was written: before
  every clearing in the log there is a done event of the session since the clearing before.
  A crash between the two therefore redelivers the message, it never loses it.
\<close>

theorem record_cleared_after_done:
  assumes "mq_reach w" and "mq_log w = xs @ (sid, MasterRunCleared) # ys"
  shows "\<exists>us vs item r still secs.
    xs = us @ (sid, ChatEvent (done_event item r still secs)) # vs \<and> (sid, MasterRunCleared) \<notin> set vs"
  using reach_clear [OF assms(1), of sid] assms(2)
  unfolding clear_inv_def cleared_after_done_def done_since_clear_def by blast



subsection \<open>A re-attached round, from enqueue to idle\<close>

definition demo_metas :: "nat \<Rightarrow> session_meta" where
  "demo_metas = (\<lambda>_. \<lparr>sm_cc_session_id = None, sm_claude_account = None\<rparr>)"

definition demo_result :: run_result where
  "demo_result = \<lparr>rs_cc_session_id = None, rs_exit_code = 0, rs_error_msg = None, rs_extras = []\<rparr>"

definition demo_queued :: mq_world where
  "demo_queued = enqueue_master_resume ''s'' 0 (Some ''e1'') 1000000 False 5000000 (empty_world demo_metas)"

definition demo_running :: mq_world where "demo_running = the (resume ''s'' 6000000 Scheduled demo_queued)"
definition demo_announced :: mq_world where
  "demo_announced = the (resume ''s'' 9500000 (Ran demo_result (demo_metas 0)) demo_running)"
definition demo_cleared :: mq_world where "demo_cleared = the (resume ''s'' 9600000 Sent demo_announced)"
definition demo_idle :: mq_world where "demo_idle = the (resume ''s'' 9700000 Sent demo_cleared)"

lemmas demo_defs = demo_queued_def demo_running_def demo_announced_def demo_cleared_def demo_idle_def
  enqueue_master_resume_def submit_item_def enqueue_work_item_def broadcast_running_changed_def empty_world_def
  mark_busy_def queue_of_def resume_def take_item_def set_phase_def run_returned_def zero_output_def demo_result_def
  settle_anchor_def settle_account_def announce_round_def log_it_def relay_meta_def demo_metas_def truthy_def
  finish_item_def teardown_def settle_future_def set_dirty_def clear_busy_def busy_since_def

lemma demo_runs:
  "resume ''s'' 6000000 Scheduled demo_queued = Some demo_running"
  "resume ''s'' 9500000 (Ran demo_result (demo_metas 0)) demo_running = Some demo_announced"
  "resume ''s'' 9600000 Sent demo_announced = Some demo_cleared"
  "resume ''s'' 9700000 Sent demo_cleared = Some demo_idle"
  by (simp_all add: demo_defs Let_def)

lemma demo_reach: "mq_reach demo_queued" "mq_reach demo_running" "mq_reach demo_announced" "mq_reach demo_cleared" "mq_reach demo_idle"
proof -
  show q: "mq_reach demo_queued"
    unfolding demo_queued_def by (rule mq_reach.step [OF mq_reach.start mq_step.reattaches])
  show r: "mq_reach demo_running" by (rule mq_reach.step [OF q mq_step.consumer_runs [OF demo_runs(1)]])
  show a: "mq_reach demo_announced" by (rule mq_reach.step [OF r mq_step.consumer_runs [OF demo_runs(2)]])
  show c: "mq_reach demo_cleared" by (rule mq_reach.step [OF a mq_step.consumer_runs [OF demo_runs(3)]])
  show "mq_reach demo_idle" by (rule mq_reach.step [OF c mq_step.consumer_runs [OF demo_runs(4)]])
qed

lemma demo_chain: "(consumer_moves ''s'' ^^ 4) demo_queued demo_idle"
proof -
  have m: "consumer_moves ''s'' demo_queued demo_running" "consumer_moves ''s'' demo_running demo_announced"
    "consumer_moves ''s'' demo_announced demo_cleared" "consumer_moves ''s'' demo_cleared demo_idle"
    unfolding consumer_moves_def using demo_runs by blast+
  have "(consumer_moves ''s'' ^^ Suc (Suc (Suc (Suc 0)))) demo_queued demo_idle"
    by (rule relpowp_Suc_I relpowp_0_I m)+
  then show ?thesis by (simp add: eval_nat_numeral)
qed

theorem busy_iff_work_witness:
  "busy_since ''s'' (mq_busy demo_running) = Some 1000000 \<and> mq_consumers demo_running ''s'' \<noteq> None"
  using busy_iff_work [OF demo_reach(2), of "''s''"] by (simp add: demo_defs Let_def)

theorem fifo_exactly_once_witness:
  "map wi_future (items_of ''s'' (mq_settled demo_idle)) = [0] \<and> queue_of ''s'' demo_idle = [] \<and>
   distinct (map wi_future (items_of ''s'' (mq_accepted demo_idle)))"
  using fifo_exactly_once [OF demo_reach(5), of "''s''"] by (simp add: demo_defs Let_def)

theorem replay_excludes_owned_witness: "queued_user_event_ids ''s'' demo_running = {''e1''}"
  using replay_excludes_owned [OF demo_reach(2), of "''s''"]
  by (simp add: demo_defs Let_def event_ids_def List.map_filter_def)

theorem queue_drains_witness:
  "(4::nat) \<le> 9 \<and> busy_since ''s'' (mq_busy demo_idle) = None \<and>
   items_of ''s'' (mq_settled demo_idle) = items_of ''s'' (mq_accepted demo_queued)"
proof -
  have "\<nexists>w''. consumer_moves ''s'' demo_idle w''"
    by (simp add: consumer_moves_def demo_defs Let_def)
  then show ?thesis using queue_drains [OF demo_reach(1) demo_chain] by simp
qed

theorem done_reports_interval_witness:
  "\<exists>d. mq_log demo_announced = mq_log demo_running @ [(''s'', ChatEvent d)] \<and>
     dget d ET_STILL_THINKING = JBool False \<and> dget d ET_THINKING_SECONDS = JInt 8"
proof -
  have q: "queue_of ''s'' demo_running = []" "busy_since ''s'' (mq_busy demo_running) = Some 1000000"
    by (simp_all add: demo_defs Let_def)
  obtain c' item where "mq_consumers demo_announced ''s'' = Some c'" "co_phase c' = Announcing item demo_result"
    by (simp add: demo_defs Let_def)
  from done_reports_interval [OF demo_reach(2) demo_runs(2) this]
  show ?thesis using q by (auto simp: demo_result_def trunc_seconds_def)
qed

theorem record_cleared_after_done_witness:
  "\<exists>us vs item r still secs. take 2 (mq_log demo_cleared) = us @ (''s'', ChatEvent (done_event item r still secs)) # vs"
proof -
  have "mq_log demo_cleared = take 2 (mq_log demo_cleared) @ (''s'', MasterRunCleared) # []"
    by (simp add: demo_defs Let_def)
  from record_cleared_after_done [OF demo_reach(4) this] show ?thesis by blast
qed



subsection \<open>Cancelling a turn\<close>

record master_run_record =
  mr_pid :: "int option"
  mr_pid_start :: "string option"
  mr_started_at :: "stamp option"

datatype cancel_effect = TerminateBackend nat | SignalGroup int signal | ClearMasterRun

text \<open>
  \<open>cancel_master\<close>: \<open>active\<close> is the live backend of this process, \<open>record\<close> the metadata's
  \<open>master_run\<close> when metadata was passed, \<open>procs i\<close> the process table the i-th probe reads.
  None is running out of fuel in the escalation.
\<close>

definition run_alive_probe :: "(nat \<Rightarrow> proc_stat) \<Rightarrow> master_run_record \<Rightarrow> int \<Rightarrow> nat \<Rightarrow> bool py" where
  "run_alive_probe procs r boot i = is_run_alive (procs i) (mr_pid r) (mr_pid_start r) (mr_started_at r) boot"

definition cancel_detached ::
  "nat \<Rightarrow> process_table \<Rightarrow> (nat \<Rightarrow> proc_stat) \<Rightarrow> (nat \<Rightarrow> int) \<Rightarrow> int \<Rightarrow> master_run_record \<Rightarrow>
   (cancel_effect list \<times> bool py) option" where
  "cancel_detached fuel pt procs clock boot r =
     (case run_alive_probe procs r boot 0 of
        Inl e \<Rightarrow> Some ([], Inl e)
      | Inr False \<Rightarrow> Some ([], Inr False)
      | Inr True \<Rightarrow>
          (case mr_pid r of
             None \<Rightarrow> Some ([], Inr False)
           | Some pid \<Rightarrow>
               (case kill_group_escalating fuel pt pid (run_alive_probe procs r boot) clock of
                  None \<Rightarrow> None
                | Some (sent, Inl e) \<Rightarrow> Some (map (\<lambda>gs. SignalGroup (fst gs) (snd gs)) sent, Inl e)
                | Some (sent, Inr _) \<Rightarrow>
                    Some (map (\<lambda>gs. SignalGroup (fst gs) (snd gs)) sent @ [ClearMasterRun], Inr True))))"

definition cancel_master ::
  "nat \<Rightarrow> process_table \<Rightarrow> (nat \<Rightarrow> proc_stat) \<Rightarrow> (nat \<Rightarrow> int) \<Rightarrow> int \<Rightarrow> nat option \<Rightarrow>
   master_run_record option \<Rightarrow> bool \<Rightarrow> (cancel_effect list \<times> bool py) option" where
  "cancel_master fuel pt procs clock boot active record has_mgr =
     (case active of
        Some backend \<Rightarrow> Some ([TerminateBackend backend], Inr True)
      | None \<Rightarrow>
          (case record of
             Some r \<Rightarrow> if has_mgr then cancel_detached fuel pt procs clock boot r else Some ([], Inr False)
           | None \<Rightarrow> Some ([], Inr False)))"

lemma escalation_groups:
  "kill_group_escalating fuel pt pid alive clock = Some (sent, res) \<Longrightarrow> (g, s) \<in> set sent \<Longrightarrow> pt_pgid pt pid = Some g"
  by (auto simp: kill_group_escalating_def Let_def kill_process_group_def
      split: option.splits sum.splits bool.splits if_splits)

lemma alive_facts:
  "is_run_alive proc pid pid_start started_at boot = Inr True \<Longrightarrow>
   \<exists>p start state. pid = Some p \<and> pid_start = Some start \<and> read_pid_stat proc p = Some (start, state) \<and> state \<noteq> ''Z''"
  by (auto simp: is_run_alive_def split: option.splits if_splits)

text \<open>
  A cancel signals a process group only when no live backend is known and the liveness proof
  holds at that moment: the recorded pid names a process with the recorded start time that is
  not a zombie, and the group is that pid's. Whatever is unprovable gets no signal and no
  change, and the answer is then False.
\<close>

theorem cancel_signals_only_proven:
  assumes "cancel_master fuel pt procs clock boot active record has_mgr = Some (effects, res)"
  shows "(\<forall>g sig. SignalGroup g sig \<in> set effects \<longrightarrow>
      active = None \<and> has_mgr \<and>
      (\<exists>r p start state. record = Some r \<and> mr_pid r = Some p \<and> mr_pid_start r = Some start \<and>
         read_pid_stat (procs 0) p = Some (start, state) \<and> state \<noteq> ''Z'' \<and> pt_pgid pt p = Some g)) \<and>
    (res = Inr False \<longrightarrow> effects = [])"
proof (cases "active = None \<and> has_mgr \<and> record \<noteq> None")
  case False
  then show ?thesis using assms by (auto simp: cancel_master_def split: option.splits)
next
  case True
  then obtain r where r: "record = Some r" by auto
  have c: "cancel_detached fuel pt procs clock boot r = Some (effects, res)"
    using assms True r by (simp add: cancel_master_def)
  show ?thesis
  proof (cases "run_alive_probe procs r boot 0 = Inr True")
    case False
    then show ?thesis using c by (auto simp: cancel_detached_def split: sum.splits bool.splits)
  next
    case alive: True
    obtain p start state where p: "mr_pid r = Some p" "mr_pid_start r = Some start"
      "read_pid_stat (procs 0) p = Some (start, state)" "state \<noteq> ''Z''"
      using alive_facts alive unfolding run_alive_probe_def by blast
    obtain sent out where k: "kill_group_escalating fuel pt p (run_alive_probe procs r boot) clock = Some (sent, out)"
      using c alive p by (auto simp: cancel_detached_def split: option.splits)
    have "pt_pgid pt p = Some g" if "SignalGroup g sig \<in> set effects" for g sig
      using that c alive p k escalation_groups [OF k]
      by (auto simp: cancel_detached_def split: sum.splits)
    moreover have "res \<noteq> Inr False" using c alive p k by (auto simp: cancel_detached_def split: sum.splits)
    ultimately show ?thesis using True r p by blast
  qed
qed

definition demo_record :: master_run_record where
  "demo_record = \<lparr>mr_pid = Some 7, mr_pid_start = Some ''900'', mr_started_at = Some (Aware 5)\<rparr>"

text \<open>The process answers the first probe and is gone at the second.\<close>

definition demo_procs :: "nat \<Rightarrow> proc_stat" where
  "demo_procs i pid =
     (if i = 0 \<and> pid = 7 then Some ''7 (py) S 1 2 3 4 5 6 7 8 9 10 11 12 13 14 15 16 17 18 900'' else None)"

lemma demo_stat: "read_pid_stat (demo_procs 0) 7 = Some (''900'', ''S'')"
  by code_simp

lemma demo_gone: "read_pid_stat (demo_procs (Suc i)) 7 = None"
  by (simp add: read_pid_stat_def demo_procs_def)

lemma demo_cancel:
  "cancel_master 1 demo_table demo_procs (\<lambda>_. 0) 0 None (Some demo_record) True =
     Some ([SignalGroup 70 SIGTERM, ClearMasterRun], Inr True)"
proof -
  have p: "run_alive_probe demo_procs demo_record 0 0 = Inr True" "run_alive_probe demo_procs demo_record 0 (Suc i) = Inr False" for i
    using demo_stat demo_gone [of i]
    by (simp_all add: run_alive_probe_def is_run_alive_def demo_record_def to_utc_def datetime_min_def datetime_max_def)
  have "mr_pid demo_record = Some 7" by (simp add: demo_record_def)
  then show ?thesis
    by (simp add: cancel_master_def cancel_detached_def kill_group_escalating_def Let_def kill_process_group_def
        demo_table_def p numeral_2_eq_2)
qed

theorem cancel_signals_only_proven_witness:
  "pt_pgid demo_table 7 = Some 70 \<and> read_pid_stat (demo_procs 0) 7 = Some (''900'', ''S'') \<and>
   SignalGroup 70 SIGTERM \<in> set [SignalGroup 70 SIGTERM, ClearMasterRun]"
  using cancel_signals_only_proven [OF demo_cancel] demo_stat by (auto simp: demo_record_def)

end
