(* ===== verification/Backlog_Loop.thy ===== *)
theory Backlog_Loop
  imports Prelude Runs
begin

text \<open>
  \<open>src/core/backlog_loop.py\<close>: the improvement loop reads the backlog file and picks the one
  action of this round. The YAML library, the ISO date parser, the printing of floats and
  containers, and git are arguments; the backlog file is the value the YAML library loads, None
  when the file is missing. Times are microseconds, and the stale timeout is compared exactly.
  Digits are the ASCII ones.
\<close>

subsection \<open>YAML values\<close>

datatype yval =
    YNull | YBool bool | YInt int | YFloat int int | YStr string | YTime stamp | YDay int
  | YList "yval list" | YMap "(string \<times> yval) list"

type_synonym yitem = "(string \<times> yval) list"

definition yget_or :: "yitem \<Rightarrow> string \<Rightarrow> yval \<Rightarrow> yval" where
  "yget_or d k v = (case map_of d k of None \<Rightarrow> v | Some x \<Rightarrow> x)"

definition yget :: "yitem \<Rightarrow> string \<Rightarrow> yval" where "yget d k = yget_or d k YNull"

definition yindex :: "yitem \<Rightarrow> string \<Rightarrow> yval py" where
  "yindex d k = (case map_of d k of None \<Rightarrow> Inl KeyError | Some v \<Rightarrow> Inr v)"

fun yput :: "yitem \<Rightarrow> string \<Rightarrow> yval \<Rightarrow> yitem" where
  "yput [] k v = [(k, v)]"
| "yput ((k', v') # d) k v = (if k' = k then (k, v) # d else (k', v') # yput d k v)"

fun ytruthy :: "yval \<Rightarrow> bool" where
  "ytruthy YNull = False"
| "ytruthy (YBool b) = b"
| "ytruthy (YInt i) = (i \<noteq> 0)"
| "ytruthy (YFloat m e) = (m \<noteq> 0)"
| "ytruthy (YStr s) = (s \<noteq> [])"
| "ytruthy (YTime t) = True"
| "ytruthy (YDay d) = True"
| "ytruthy (YList xs) = (xs \<noteq> [])"
| "ytruthy (YMap d) = (d \<noteq> [])"

fun ystr :: "(yval \<Rightarrow> string) \<Rightarrow> yval \<Rightarrow> string" where
  "ystr other (YStr s) = s"
| "ystr other YNull = ''None''"
| "ystr other (YBool b) = (if b then ''True'' else ''False'')"
| "ystr other (YInt i) = int_str i"
| "ystr other v = other v"

text \<open>Iterating a value; an element that is no mapping has no \<open>get\<close>.\<close>

fun yiter :: "yval \<Rightarrow> yval list py" where
  "yiter (YList xs) = Inr xs"
| "yiter (YMap d) = Inr (map (\<lambda>kv. YStr (fst kv)) d)"
| "yiter (YStr s) = Inr (map YStr (utf8_chars s))"
| "yiter _ = Inl TypeError"

fun as_item :: "yval \<Rightarrow> yitem py" where
  "as_item (YMap d) = Inr d"
| "as_item _ = Inl AttributeError"

subsection \<open>The configuration and the environment\<close>

record loop_cfg =
  lc_role :: string
  lc_scope_files :: "string list"
  lc_id_prefix :: string
  lc_language :: string
  lc_max_pending :: int
  lc_stale_us :: int          \<comment> \<open>stale_timeout_hours in microseconds\<close>
  lc_stale_text :: string     \<comment> \<open>how Python prints it\<close>
  lc_state_files :: "string list"
  lc_verify :: "string list"
  lc_scan_prompt :: string
  lc_idea_prompt :: string
  lc_extra_rules :: "string list"

record loop_env =
  le_path :: string
  le_name :: string
  le_other :: "yval \<Rightarrow> string"
  le_fromisoformat :: "string \<Rightarrow> stamp option"
  le_now :: int
  le_git :: "unit py"

subsection \<open>Loading, ids\<close>

definition load_backlog :: "yval option \<Rightarrow> yval py" where
  "load_backlog f =
     (case f of
        None \<Rightarrow> Inr (YList [])
      | Some YNull \<Rightarrow> Inr (YList [])
      | Some (YList xs) \<Rightarrow> Inr (YList xs)
      | Some (YMap d) \<Rightarrow> Inr (yget_or d ''items'' (yget_or d ''backlog'' (YList [])))
      | Some _ \<Rightarrow> Inl AttributeError)"

fun digits_value :: "nat \<Rightarrow> string \<Rightarrow> nat option" where
  "digits_value acc [] = Some acc"
| "digits_value acc (c # cs) = (case ascii_digit_val c of None \<Rightarrow> None | Some d \<Rightarrow> digits_value (10 * acc + d) cs)"

definition digits_only :: "string \<Rightarrow> nat option" where
  "digits_only s = (if s = [] then None else digits_value 0 s)"

definition id_number :: "string \<Rightarrow> string \<Rightarrow> nat option" where
  "id_number pre s =
     (if pre = [] then digits_only s
      else if prefix (pre @ ''-'') s then digits_only (drop_final_newline (drop (Suc (length pre)) s))
      else None)"

fun max_number :: "(yval \<Rightarrow> string) \<Rightarrow> string \<Rightarrow> yitem list \<Rightarrow> nat \<Rightarrow> nat" where
  "max_number other pre [] n = n"
| "max_number other pre (i # is) n =
     max_number other pre is
       (case id_number pre (ystr other (yget_or i ''id'' (YStr []))) of None \<Rightarrow> n | Some v \<Rightarrow> max n v)"

definition pad3 :: "nat \<Rightarrow> string" where
  "pad3 n = replicate (3 - length (digits_of n)) CHR ''0'' @ digits_of n"

definition next_id :: "(yval \<Rightarrow> string) \<Rightarrow> yitem list \<Rightarrow> string \<Rightarrow> string" where
  "next_id other items pre =
     (let n = pad3 (Suc (max_number other pre items 0)) in if pre = [] then n else pre @ ''-'' @ n)"

subsection \<open>Prompt parts\<close>

definition backlog_description_rule :: string where
  "backlog_description_rule =
     ''Description must stay concise: PURPOSE is exactly one short sentence; HOW is at most a few short implementation bullets or sentences. Do not include long evidence dumps, grep transcripts, full correctness proofs, exhaustive line-by-line implementation plans, or benchmark speculation.''"

definition language_rule :: "string \<Rightarrow> string" where
  "language_rule lang =
     (if lang = ''zh-CN'' then ''ALL text (title, description) in simplified Chinese. Field names in English.''
      else ''ALL text in English.'')"

definition state_files_instructions :: "string list \<Rightarrow> string" where
  "state_files_instructions files =
     py_join '' '' (map (\<lambda>f. if prefix (rev ''e2e_report.json'') (rev f)
       then ''Read '' @ f @ '' (read-only, do not modify).'' else ''Read '' @ f @ '' before acting.'') files)"

definition extra_rules_text :: "string list \<Rightarrow> string" where
  "extra_rules_text rules = (if rules = [] then [] else py_join '' '' rules)"

definition prompt_header :: "loop_cfg \<Rightarrow> string list" where
  "prompt_header cfg =
     [''You are the '' @ lc_role cfg @ ''.''] @ (if lc_scan_prompt cfg \<noteq> [] then [lc_scan_prompt cfg] else [])"

definition join_prompt :: "string list \<Rightarrow> loop_cfg \<Rightarrow> string" where
  "join_prompt parts cfg =
     (let extra = extra_rules_text (lc_extra_rules cfg)
      in py_join '' '' (parts @ (if extra \<noteq> [] then [extra] else [])))"

definition append_backlog_rules :: "string list \<Rightarrow> loop_cfg \<Rightarrow> string" where
  "append_backlog_rules parts cfg =
     join_prompt (parts @ [backlog_description_rule, language_rule (lc_language cfg), ''Commit and push.'']) cfg"

subsection \<open>The steps\<close>

definition revision_due :: "yitem \<Rightarrow> bool" where
  "revision_due i \<longleftrightarrow> yget i ''status'' = YStr ''revision_requested'' \<and> ytruthy (yget i ''revision_feedback'')"

definition revision_prompt :: "loop_env \<Rightarrow> string \<Rightarrow> string \<Rightarrow> string" where
  "revision_prompt env item_id feedback =
     ''Backlog item '' @ item_id @ '' has revision feedback: \"'' @ feedback @ ''\". Read the backlog file at '' @
     le_path env @ ''. Update item '' @ item_id @
     '': modify title and/or description based on the feedback. Set status to pending. Remove revision_feedback and revision_requested_at fields. Commit and push.''"

text \<open>The loop stops at the first item due, so a later item that is no mapping is not looked at.\<close>

fun check_revision :: "loop_env \<Rightarrow> yval list \<Rightarrow> string option py" where
  "check_revision env [] = Inr None"
| "check_revision env (v # vs) =
     py_bind (as_item v) (\<lambda>i.
       if revision_due i
       then py_bind (yindex i ''id'') (\<lambda>item_id.
              Inr (Some (revision_prompt env (ystr (le_other env) item_id) (ystr (le_other env) (yget i ''revision_feedback'')))))
       else check_revision env vs)"

definition started_at :: "loop_env \<Rightarrow> yitem \<Rightarrow> int option" where
  "started_at env i =
     (let timestamp = (if ytruthy (yget i ''in_progress_at'') then yget i ''in_progress_at'' else yget i ''created'')
      in if \<not> ytruthy timestamp then None
         else (case (case timestamp of YStr s \<Rightarrow> le_fromisoformat env s | YTime t \<Rightarrow> Some t | _ \<Rightarrow> None) of
                 None \<Rightarrow> None
               | Some (Naive t) \<Rightarrow> Some t
               | Some (Aware t) \<Rightarrow> Some t))"

definition stale :: "loop_env \<Rightarrow> loop_cfg \<Rightarrow> yitem \<Rightarrow> bool" where
  "stale env cfg i \<longleftrightarrow> yget i ''status'' = YStr ''in_progress'' \<and>
     (case started_at env i of None \<Rightarrow> False | Some t \<Rightarrow> le_now env - t > lc_stale_us cfg)"

definition fail_stale :: "loop_cfg \<Rightarrow> yitem \<Rightarrow> yitem" where
  "fail_stale cfg i =
     yput (yput i ''status'' (YStr ''failed'')) ''failed_reason''
       (YStr (''Timed out after '' @ lc_stale_text cfg @ '' hour(s)''))"

definition reset_item :: "loop_env \<Rightarrow> loop_cfg \<Rightarrow> yitem \<Rightarrow> yitem" where
  "reset_item env cfg i = (if stale env cfg i then fail_stale cfg i else i)"

text \<open>Step 1: the items to save when any was reset, and the commit message.\<close>

definition handle_stale :: "loop_env \<Rightarrow> loop_cfg \<Rightarrow> yitem list \<Rightarrow> yitem list option" where
  "handle_stale env cfg items =
     (if \<exists>i \<in> set items. stale env cfg i then Some (map (reset_item env cfg) items) else None)"

definition stale_commit_message :: "loop_env \<Rightarrow> string" where
  "stale_commit_message env = ''loop: reset stale in_progress items in '' @ le_name env"

fun priority_rank :: "yval \<Rightarrow> nat py" where
  "priority_rank (YStr s) = Inr (if s = ''high'' then 0 else if s = ''medium'' then 1 else 2)"
| "priority_rank (YList xs) = Inl TypeError"
| "priority_rank (YMap d) = Inl TypeError"
| "priority_rank _ = Inr 2"

definition build_implement_prompt :: "loop_env \<Rightarrow> yitem \<Rightarrow> loop_cfg \<Rightarrow> string py" where
  "build_implement_prompt env i cfg =
     py_bind (yindex i ''id'') (\<lambda>idv. py_bind (yindex i ''title'') (\<lambda>title.
       let str = ystr (le_other env); item_id = str idv in
       Inr (join_prompt
         ([''You are the '' @ lc_role cfg @ ''.'',
           ''Implement backlog item '' @ item_id @ '': \"'' @ str title @ ''\".'',
           ''Description: '' @ str (yget_or i ''description'' (YStr [])) @ ''.'',
           ''Files in scope: '' @ py_join '', '' (lc_scope_files cfg) @ ''.''] @
          (if lc_state_files cfg \<noteq> [] then [state_files_instructions (lc_state_files cfg)] else []) @
          (if lc_verify cfg \<noteq> [] then [''After implementation, run: '' @ py_join ''; '' (lc_verify cfg) @ ''.''] else []) @
          [''Then update '' @ le_path env @ '': set item '' @ item_id @
             '' status to done. If implementation fails, set status to failed with failed_reason. Commit and push.'',
           ''IMPORTANT: Before starting work, update '' @ le_path env @ '': set item '' @ item_id @
             '' status to in_progress and add field in_progress_at with the current UTC time in ISO 8601 format. Commit and push.''])
         cfg)))"

definition build_generate_prompt :: "loop_env \<Rightarrow> yitem list \<Rightarrow> loop_cfg \<Rightarrow> string" where
  "build_generate_prompt env items cfg =
     (let id_format = (if lc_id_prefix cfg \<noteq> [] then lc_id_prefix cfg @ ''-NNN'' else ''NNN (zero-padded)'')
      in append_backlog_rules
           (prompt_header cfg @ (if lc_idea_prompt cfg \<noteq> [] then [lc_idea_prompt cfg] else []) @
            [''Generate exactly ONE new improvement idea not already in the backlog. Append to '' @ le_path env @
             '' with fields: id (use '' @ next_id (le_other env) items (lc_id_prefix cfg) @ '', format: '' @ id_format @
             ''), title, description (PURPOSE first, then HOW), status: pending, created (ISO 8601), priority.'']) cfg)"

definition build_scan_prompt :: "loop_env \<Rightarrow> loop_cfg \<Rightarrow> string" where
  "build_scan_prompt env cfg =
     append_backlog_rules (prompt_header cfg @
       [''If issues found, create ONE backlog item in '' @ le_path env @
        '' (status: pending). If clean, do nothing.'']) cfg"

subsection \<open>The action of a round\<close>

definition status_is :: "string \<Rightarrow> yitem \<Rightarrow> bool" where
  "status_is s i \<longleftrightarrow> yget i ''status'' = YStr s"

definition approved_first :: "yitem list \<Rightarrow> yitem py" where
  "approved_first approved =
     py_bind (py_map (\<lambda>i. py_bind (priority_rank (yget_or i ''priority'' (YStr ''low''))) (\<lambda>r. Inr (r, i))) approved)
       (\<lambda>ranked. Inr (snd (hd (sort_key fst ranked))))"

text \<open>
  Steps 2 to 4, after the revision check and the stale reset found nothing.
\<close>

definition idle_action :: "loop_env \<Rightarrow> loop_cfg \<Rightarrow> yitem list \<Rightarrow> (string \<times> string option) py" where
  "idle_action env cfg items =
     (let approved = filter (status_is ''approved'') items;
          has_active = (\<exists>i \<in> set items. status_is ''approved'' i \<or> status_is ''in_progress'' i);
          pending = length (filter (status_is ''pending'') items)
      in if approved \<noteq> []
         then py_bind (approved_first approved) (\<lambda>i.
                py_bind (build_implement_prompt env i cfg) (\<lambda>p. Inr (''implement'', Some p)))
         else if \<not> has_active \<and> int pending < lc_max_pending cfg
         then Inr (''generate'', Some (build_generate_prompt env items cfg))
         else if \<not> has_active then Inr (''scan'', Some (build_scan_prompt env cfg))
         else Inr (''noop'', None))"

text \<open>The result, and the file as saved by this round when it saved.\<close>

definition determine_action :: "loop_env \<Rightarrow> loop_cfg \<Rightarrow> yval option \<Rightarrow> (string \<times> string option) py \<times> yval option" where
  "determine_action env cfg f =
     (case py_bind (load_backlog f) yiter of
        Inl e \<Rightarrow> (Inl e, None)
      | Inr vs \<Rightarrow>
          (case check_revision env vs of
             Inl e \<Rightarrow> (Inl e, None)
           | Inr (Some p) \<Rightarrow> (Inr (''revision'', Some p), None)
           | Inr None \<Rightarrow>
               (case py_map as_item vs of
                  Inl e \<Rightarrow> (Inl e, None)
                | Inr items \<Rightarrow>
                    (case handle_stale env cfg items of
                       Some items' \<Rightarrow>
                         (py_bind (le_git env) (\<lambda>_. Inr (''stale_reset'', None)), Some (YList (map YMap items')))
                     | None \<Rightarrow> (idle_action env cfg items, None)))))"

subsection \<open>Ids\<close>

lemma digits_value_append:
  "\<exists>k. \<forall>acc. digits_value acc (digits_of n @ cs) = digits_value (acc * 10 ^ k + n) cs"
proof (induction n arbitrary: cs rule: digits_of.induct)
  case (1 n)
  show ?case
  proof (cases "n < 10")
    case True
    then have "digits_value acc (digits_of n @ cs) = digits_value (acc * 10 ^ 1 + n) cs" for acc
      by (simp add: digits_of.simps [of n] digit_val_char ac_simps)
    then show ?thesis by blast
  next
    case False
    obtain k where k: "\<And>acc. digits_value acc (digits_of (n div 10) @ char_of (n mod 10 + 48) # cs) =
        digits_value (acc * 10 ^ k + n div 10) (char_of (n mod 10 + 48) # cs)"
      using 1 [OF False, of "char_of (n mod 10 + 48) # cs"] by blast
    have dv: "ascii_digit_val (char_of (n mod 10 + 48)) = Some (n mod 10)" by (rule digit_val_char) simp
    have "10 * (acc * 10 ^ k + n div 10) + n mod 10 = acc * 10 ^ Suc k + n" for acc
      by (simp add: algebra_simps)
    then have "digits_value acc (digits_of n @ cs) = digits_value (acc * 10 ^ Suc k + n) cs" for acc
      using False k [of acc] dv by (simp add: digits_of.simps [of n] ac_simps)
    then show ?thesis by blast
  qed
qed

lemma digits_value_zeros: "digits_value 0 (replicate k CHR ''0'' @ s) = digits_value 0 s"
  by (induction k) (simp_all add: ascii_digit_val_def)

lemma digits_value_pad3: "digits_value 0 (pad3 n) = Some n"
  using digits_value_append [of n "[]"] by (auto simp: pad3_def digits_value_zeros)

lemma digits_only_pad3: "digits_only (pad3 n) = Some n"
  by (simp add: digits_only_def digits_value_pad3) (simp add: pad3_def digits_of_ne)

lemma last_digit: "ascii_digit_val (last (digits_of n)) \<noteq> None"
  by (subst digits_of.simps) (auto simp: digit_val_char)

lemma drop_final_newline_pad3: "drop_final_newline (pad3 n) = pad3 n"
proof -
  have "last (pad3 n) = last (digits_of n)" by (simp add: pad3_def digits_of_ne)
  then have "last (pad3 n) \<noteq> CHR 0x0A" using last_digit [of n] by (auto simp: ascii_digit_val_def)
  then show ?thesis by (simp add: drop_final_newline_def)
qed

lemma id_number_next: "id_number pre (next_id other items pre) = Some (Suc (max_number other pre items 0))"
  by (simp add: id_number_def next_id_def Let_def digits_only_pad3 drop_final_newline_pad3)

lemma max_number_ge: "n \<le> max_number other pre items n"
  by (induction other pre items n rule: max_number.induct) (auto split: option.splits intro: le_trans)

lemma max_number_bound:
  "i \<in> set items \<Longrightarrow> id_number pre (ystr other (yget_or i ''id'' (YStr []))) = Some v \<Longrightarrow> v \<le> max_number other pre items n"
proof (induction other pre items n rule: max_number.induct)
  case (2 other pre j items n)
  then show ?case
    using max_number_ge [of "max n v" other pre items] by (auto simp: max_def split: option.splits if_splits)
qed simp

text \<open>
  The id a new backlog item is told to use is taken by no item of the backlog, whatever
  mixture of prefixed, numeric, padded and foreign ids it holds.
\<close>

theorem next_id_is_fresh:
  assumes "i \<in> set items"
  shows "ystr other (yget_or i ''id'' (YStr [])) \<noteq> next_id other items pre"
proof
  assume "ystr other (yget_or i ''id'' (YStr [])) = next_id other items pre"
  then have "Suc (max_number other pre items 0) \<le> max_number other pre items 0"
    using max_number_bound [OF assms] id_number_next by metis
  then show False by simp
qed

theorem next_id_is_fresh_witness:
  "ystr (\<lambda>_. []) (yget_or [(''id'', YStr ''D-007'')] ''id'' (YStr [])) \<noteq> ''D-008''"
proof -
  have e: "next_id (\<lambda>_. []) [[(''id'', YStr ''D-007'')], [(''id'', YStr ''12'')]] ''D'' = ''D-008''" by code_simp
  show ?thesis
    using next_id_is_fresh [of "[(''id'', YStr ''D-007'')]" "[[(''id'', YStr ''D-007'')], [(''id'', YStr ''12'')]]"
      "\<lambda>_. []" "''D''"] unfolding e by simp
qed

subsection \<open>The stale reset\<close>

lemma yget_yput [simp]: "yget (yput d k v) k' = (if k' = k then v else yget d k')"
  by (induction d k v rule: yput.induct) (auto simp: yget_def yget_or_def)

lemma py_map_as_item: "py_map as_item vs = Inr items \<Longrightarrow> vs = map YMap items"
proof (induction vs arbitrary: items)
  case (Cons v vs)
  then show ?case by (cases v) (auto simp: py_bind_Inr_iff)
qed simp

lemma py_map_YMap: "py_map as_item (map YMap items) = Inr items"
  by (induction items) simp_all

lemma check_revision_none_iff:
  "check_revision env (map YMap items) = Inr None \<longleftrightarrow> (\<forall>i \<in> set items. \<not> revision_due i)"
  by (induction items) (auto simp: py_bind_def split: sum.splits)

lemma fail_stale_status: "yget (fail_stale cfg i) ''status'' = YStr ''failed''"
  by (simp add: fail_stale_def)

lemma reset_not_stale: "\<not> stale env cfg (reset_item env cfg i)"
  by (simp add: reset_item_def stale_def fail_stale_status)

lemma reset_not_due: "\<not> revision_due i \<Longrightarrow> \<not> revision_due (reset_item env cfg i)"
  by (simp add: reset_item_def revision_due_def fail_stale_status)

text \<open>
  A stale reset settles the backlog: the file it saves marks exactly the timed-out items as
  failed and keeps every other item as it was, and the next round at that time on the saved
  file resets nothing and writes nothing but goes on to implement, generate, scan or rest.
\<close>

theorem stale_reset_settles:
  assumes "determine_action env cfg f = (r, Some saved)"
  shows "\<exists>items. py_bind (load_backlog f) yiter = Inr (map YMap items) \<and>
    saved = YList (map YMap (map (reset_item env cfg) items)) \<and>
    (\<exists>i \<in> set items. stale env cfg i) \<and>
    determine_action env cfg (Some saved) = (idle_action env cfg (map (reset_item env cfg) items), None)"
proof -
  obtain vs where vs: "py_bind (load_backlog f) yiter = Inr vs"
    using assms by (auto simp: determine_action_def split: sum.splits)
  have rev: "check_revision env vs = Inr None"
    using assms vs by (auto simp: determine_action_def split: sum.splits option.splits)
  obtain items where items: "py_map as_item vs = Inr items"
    using assms vs rev by (auto simp: determine_action_def split: sum.splits)
  have st: "handle_stale env cfg items \<noteq> None"
    using assms vs rev items by (auto simp: determine_action_def split: option.splits)
  have m: "vs = map YMap items" by (rule py_map_as_item [OF items])
  have ex: "\<exists>i \<in> set items. stale env cfg i" using st by (auto simp: handle_stale_def split: if_splits)
  let ?items = "map (reset_item env cfg) items"
  have saved: "saved = YList (map YMap ?items)"
    using assms vs rev items ex by (simp add: determine_action_def handle_stale_def)
  have "check_revision env (map YMap ?items) = Inr None"
    using rev reset_not_due unfolding m check_revision_none_iff by auto
  moreover have "handle_stale env cfg ?items = None" by (simp add: handle_stale_def reset_not_stale)
  ultimately have "determine_action env cfg (Some saved) = (idle_action env cfg ?items, None)"
    unfolding determine_action_def saved using py_map_YMap [of ?items] by (simp add: load_backlog_def)
  then show ?thesis using vs m saved ex by blast
qed

definition demo_loop :: loop_cfg where
  "demo_loop = \<lparr>lc_role = ''keeper'', lc_scope_files = [''a.py''], lc_id_prefix = ''D'', lc_language = ''en'',
     lc_max_pending = 2, lc_stale_us = 3600000000, lc_stale_text = ''1.0'', lc_state_files = [], lc_verify = [],
     lc_scan_prompt = [], lc_idea_prompt = [], lc_extra_rules = []\<rparr>"

definition demo_env :: loop_env where
  "demo_env = \<lparr>le_path = ''b.yaml'', le_name = ''b.yaml'', le_other = (\<lambda>_. []), le_fromisoformat = (\<lambda>_. None),
     le_now = 9000000000, le_git = Inr ()\<rparr>"

definition demo_stale :: yitem where
  "demo_stale = [(''id'', YStr ''D-001''), (''status'', YStr ''in_progress''), (''created'', YTime (Naive 0))]"

lemma demo_action:
  "determine_action demo_env demo_loop (Some (YList [YMap demo_stale])) =
     (Inr (''stale_reset'', None), Some (YList [YMap (fail_stale demo_loop demo_stale)]))"
  by (simp add: determine_action_def load_backlog_def demo_stale_def revision_due_def yget_def yget_or_def
      handle_stale_def stale_def started_at_def demo_env_def demo_loop_def reset_item_def Let_def)

theorem stale_reset_settles_witness:
  "\<exists>a. determine_action demo_env demo_loop (Some (YList [YMap (fail_stale demo_loop demo_stale)])) = (a, None)"
  using stale_reset_settles [OF demo_action] by blast

subsection \<open>The approved item that is implemented\<close>

lemma find_filter: "find p xs = (case filter p xs of [] \<Rightarrow> None | x # _ \<Rightarrow> Some x)"
  by (induction xs) auto

lemma hd_sort_key:
  assumes "sort_key f xs = h # t"
  shows "\<forall>x \<in> set xs. f h \<le> f x" and "find (\<lambda>x. f x = f h) xs = Some h"
proof -
  have "sorted (map f (h # t))" using sorted_sort_key [of f xs] assms by simp
  moreover have "set xs = set (h # t)" using assms by (metis set_sort)
  ultimately show "\<forall>x \<in> set xs. f h \<le> f x" by auto
  have "filter (\<lambda>y. f y = f h) xs = h # filter (\<lambda>y. f y = f h) t"
    using sort_key_stable [of f "f h" xs] assms by simp
  then show "find (\<lambda>x. f x = f h) xs = Some h" by (simp add: find_filter)
qed

definition rank_of :: "yitem \<Rightarrow> nat py" where
  "rank_of i = priority_rank (yget_or i ''priority'' (YStr ''low''))"

lemma ranked_items:
  "py_map (\<lambda>i. py_bind (rank_of i) (\<lambda>r. Inr (r, i))) xs = Inr ranked \<Longrightarrow>
   map snd ranked = xs \<and> (\<forall>e \<in> set ranked. rank_of (snd e) = Inr (fst e))"
proof (induction xs arbitrary: ranked)
  case (Cons x xs)
  then obtain r rest where "rank_of x = Inr r" "ranked = (r, x) # rest"
    "py_map (\<lambda>i. py_bind (rank_of i) (\<lambda>r. Inr (r, i))) xs = Inr rest"
    by (auto simp: py_bind_Inr_iff)
  then show ?case using Cons.IH [of rest] by simp
qed simp

lemma find_map_snd:
  "(\<And>e. e \<in> set es \<Longrightarrow> P (snd e) \<longleftrightarrow> Q e) \<Longrightarrow> find Q es = Some e \<Longrightarrow> find P (map snd es) = Some (snd e)"
  by (induction es) (auto split: if_splits)

lemma find_filter_conj: "find p (filter q xs) = find (\<lambda>x. q x \<and> p x) xs"
  by (induction xs) auto

lemma approved_first_result:
  assumes "approved_first xs = Inr i" and "xs \<noteq> []"
  shows "\<exists>r. find (\<lambda>j. rank_of j = Inr r) xs = Some i \<and> (\<forall>j \<in> set xs. \<exists>rj. rank_of j = Inr rj \<and> r \<le> rj)"
proof -
  obtain ranked where r: "py_map (\<lambda>i. py_bind (rank_of i) (\<lambda>r. Inr (r, i))) xs = Inr ranked"
    and i: "i = snd (hd (sort_key fst ranked))"
    using assms(1) by (auto simp: approved_first_def rank_of_def py_bind_Inr_iff)
  note rk = ranked_items [OF r]
  have "ranked \<noteq> []" using rk assms(2) by auto
  then have "sort_key fst ranked \<noteq> []" by (metis length_0_conv length_sort)
  then obtain h t where ht: "sort_key fst ranked = h # t" by (cases "sort_key fst ranked") auto
  have "h \<in> set ranked" using ht by (metis list.set_intros(1) set_sort)
  have "find (\<lambda>j. rank_of j = Inr (fst h)) (map snd ranked) = Some (snd h)"
    by (rule find_map_snd [OF _ hd_sort_key(2) [OF ht]]) (use rk in auto)
  moreover have "\<exists>rj. rank_of j = Inr rj \<and> fst h \<le> rj" if "j \<in> set xs" for j
  proof -
    have "j \<in> snd ` set ranked" using that rk by (metis list.set_map)
    then obtain e where "e \<in> set ranked" "snd e = j" by blast
    then show ?thesis using rk hd_sort_key(1) [OF ht] by blast
  qed
  ultimately show ?thesis using rk i ht by auto
qed

text \<open>
  When a round implements, the item is approved, no approved item has a higher priority,
  and it is the first of its priority in the file.
\<close>

theorem implements_highest_priority:
  assumes "idle_action env cfg items = Inr (''implement'', Some p)"
  shows "\<exists>i r. find (\<lambda>j. status_is ''approved'' j \<and> rank_of j = Inr r) items = Some i \<and>
    build_implement_prompt env i cfg = Inr p \<and>
    (\<forall>j \<in> set items. status_is ''approved'' j \<longrightarrow> (\<exists>rj. rank_of j = Inr rj \<and> r \<le> rj))"
proof -
  let ?a = "filter (status_is ''approved'') items"
  have ne: "?a \<noteq> []"
  proof
    assume "?a = []"
    then show False using assms unfolding idle_action_def Let_def by (simp split: if_split_asm)
  qed
  obtain i where i: "approved_first ?a = Inr i" "build_implement_prompt env i cfg = Inr p"
    using assms ne by (auto simp: idle_action_def Let_def py_bind_Inr_iff)
  show ?thesis using approved_first_result [OF i(1) ne] i(2) by (auto simp: find_filter_conj)
qed

theorem implements_highest_priority_witness:
  "\<exists>i p. build_implement_prompt demo_env i demo_loop = Inr p \<and> rank_of i = Inr 0"
proof -
  let ?hi = "[(''id'', YStr ''D-2''), (''title'', YStr ''t''), (''status'', YStr ''approved''), (''priority'', YStr ''high'')]"
  let ?lo = "[(''id'', YStr ''D-1''), (''title'', YStr ''t''), (''status'', YStr ''approved'')]"
  have st: "status_is ''approved'' ?hi" "status_is ''approved'' ?lo" by (simp_all add: status_is_def yget_def yget_or_def)
  have rk: "rank_of ?hi = Inr 0" "rank_of ?lo = Inr 2" by (simp_all add: rank_of_def yget_or_def)
  have "approved_first [?lo, ?hi] = Inr ?hi" by (simp add: approved_first_def yget_or_def)
  moreover obtain p where p: "build_implement_prompt demo_env ?hi demo_loop = Inr p"
    by (simp add: build_implement_prompt_def yindex_def Let_def)
  ultimately have e: "idle_action demo_env demo_loop [?lo, ?hi] = Inr (''implement'', Some p)"
    using st by (simp add: idle_action_def)
  obtain i r where i: "build_implement_prompt demo_env i demo_loop = Inr p" "find (\<lambda>j. status_is ''approved'' j \<and> rank_of j = Inr r) [?lo, ?hi] = Some i"
    "\<forall>j \<in> set [?lo, ?hi]. status_is ''approved'' j \<longrightarrow> (\<exists>rj. rank_of j = Inr rj \<and> r \<le> rj)"
    using implements_highest_priority [OF e] by blast
  have "r = 0" using i(3) st rk by auto
  then have "rank_of i = Inr 0" using i(2) st rk by (auto split: if_splits)
  then show ?thesis using i(1) by blast
qed


end
