(* ===== verification/Trace_Merge.thy ===== *)
theory Trace_Merge
  imports Complex_Main Prelude Runs
begin

text \<open>
  \<open>src/core/trace_merge.py\<close>: merging the Chrome traces of several ranks into one. A trace file
  is given as its name and the JSON value its bytes parse to; \<open>dumps\<close> is the JSON library's
  rendering of a value and \<open>other\<close> how Python prints floats and containers. The gzip stream is
  the list of chunks written to it. Case and digit classes of the patterns are the ASCII ones.
  A walk returns the events it adds to the batcher in order; adding them is \<open>bt_add\<close>.
\<close>

subsection \<open>Rank labels\<close>

definition lower :: "char \<Rightarrow> char" where
  "lower c = (let n = of_char c :: nat in if 65 \<le> n \<and> n \<le> 90 then char_of (n + 32) else c)"

definition is_digit :: "char \<Rightarrow> bool" where "is_digit c \<longleftrightarrow> ascii_digit_val c \<noteq> None"

text \<open>\<open>word\<s>*(\d+)\<close> at the first place it matches, ignoring case; \<open>gap\<close> allows the blanks.\<close>

definition number_here :: "string \<Rightarrow> bool \<Rightarrow> string \<Rightarrow> string option" where
  "number_here word gap s =
     (if map lower (take (length word) s) = word
      then let rest = drop (length word) s;
               rest' = (if gap then dropWhile (\<lambda>c. ws_char [c]) rest else rest);
               ds = takeWhile is_digit rest'
           in if ds = [] then None else Some ds
      else None)"

fun search_number :: "string \<Rightarrow> bool \<Rightarrow> string \<Rightarrow> string option" where
  "search_number word gap [] = None"
| "search_number word gap (c # cs) =
     (case number_here word gap (c # cs) of Some ds \<Rightarrow> Some ds | None \<Rightarrow> search_number word gap cs)"

definition rank_label :: "string \<Rightarrow> string" where
  "rank_label name =
     (case search_number ''rank'' False name of
        Some ds \<Rightarrow> ''rank'' @ ds
      | None \<Rightarrow>
          if 5 \<le> length name \<and> map lower (drop (length name - 5) name) = ''.json''
          then take (length name - 5) name else name)"

subsection \<open>The batcher\<close>

definition merge_batch_events :: nat where "merge_batch_events = 512"

record batcher =
  bt_output :: "string list"
  bt_pending :: "json list"
  bt_emitted_any :: bool

definition new_batcher :: "string list \<Rightarrow> batcher" where
  "new_batcher output = \<lparr>bt_output = output, bt_pending = [], bt_emitted_any = False\<rparr>"

text \<open>\<open>[1:-1]\<close> of the rendering.\<close>

definition bt_flush :: "(json \<Rightarrow> string) \<Rightarrow> batcher \<Rightarrow> batcher" where
  "bt_flush dumps b =
     (if bt_pending b = [] then b
      else b\<lparr>bt_output := bt_output b @ (if bt_emitted_any b then ['','' ] else []) @
               [butlast (tl (dumps (JArr (bt_pending b))))],
             bt_emitted_any := True, bt_pending := []\<rparr>)"

definition bt_add :: "(json \<Rightarrow> string) \<Rightarrow> json \<Rightarrow> batcher \<Rightarrow> batcher" where
  "bt_add dumps e b =
     (let b' = b\<lparr>bt_pending := bt_pending b @ [e]\<rparr>
      in if merge_batch_events \<le> length (bt_pending b') then bt_flush dumps b' else b')"

subsection \<open>Dense ids\<close>

record id_sequencer =
  sq_next :: int
  sq_seen :: "string \<rightharpoonup> int"

definition new_sequencer :: id_sequencer where
  "new_sequencer = \<lparr>sq_next = 1, sq_seen = Map.empty\<rparr>"

definition start_trace :: "id_sequencer \<Rightarrow> id_sequencer" where
  "start_trace s = s\<lparr>sq_seen := Map.empty\<rparr>"

definition seq_call :: "(json \<Rightarrow> string) \<Rightarrow> json \<Rightarrow> id_sequencer \<Rightarrow> int \<times> id_sequencer" where
  "seq_call other original s =
     (let key = py_str other original
      in case sq_seen s key of
           Some mapped \<Rightarrow> (mapped, s)
         | None \<Rightarrow> (sq_next s, s\<lparr>sq_seen := (sq_seen s)(key \<mapsto> sq_next s), sq_next := sq_next s + 1\<rparr>))"

subsection \<open>Process labels\<close>

text \<open>
  What a Python dict compares keys by: booleans, integers and floats by their number, so that
  1, 1.0 and True are one key. Lists and objects are not hashable.
\<close>

datatype hash_key = RNone | RNum rat | RStr string

fun raw_key :: "json \<Rightarrow> hash_key py" where
  "raw_key JNull = Inr RNone"
| "raw_key (JBool b) = Inr (RNum (if b then 1 else 0))"
| "raw_key (JInt i) = Inr (RNum (of_int i))"
| "raw_key (JFloat m e) = Inr (RNum (if 0 \<le> e then of_int (m * 10 ^ nat e) else of_int m / of_int (10 ^ nat (- e))))"
| "raw_key (JStr s) = Inr (RStr s)"
| "raw_key _ = Inl TypeError"

text \<open>A dict with string keys: an existing key keeps its place.\<close>

fun alist_put :: "(string \<times> 'v) list \<Rightarrow> string \<Rightarrow> 'v \<Rightarrow> (string \<times> 'v) list" where
  "alist_put [] k v = [(k, v)]"
| "alist_put ((k', v') # d) k v = (if k' = k then (k, v) # d else (k', v') # alist_put d k v)"

text \<open>Pass one: label per pid key (last wins) and one raw pid per key (first wins).\<close>

definition collect_label ::
  "(json \<Rightarrow> string) \<Rightarrow> json \<Rightarrow> (string \<times> json) list \<times> (string \<rightharpoonup> json) \<Rightarrow> ((string \<times> json) list \<times> (string \<rightharpoonup> json)) py" where
  "collect_label other event s =
     py_bind (jget event ''ph'') (\<lambda>ph. py_bind (jget event ''name'') (\<lambda>name. py_bind (jget event ''args'') (\<lambda>args.
       if ph = JStr ''M'' \<and> name = JStr ''process_labels'' \<and> jtruthy args
       then py_bind (jget event ''pid'') (\<lambda>pid. py_bind (jget args ''labels'') (\<lambda>labels.
              let key = py_str other pid
              in Inr (alist_put (fst s) key (if jtruthy labels then labels else JStr []),
                      if snd s key = None then (snd s)(key \<mapsto> pid) else snd s)))
       else Inr s)))"

fun py_fold :: "('a \<Rightarrow> 's \<Rightarrow> 's py) \<Rightarrow> 'a list \<Rightarrow> 's \<Rightarrow> 's py" where
  "py_fold f [] s = Inr s"
| "py_fold f (x # xs) s = py_bind (f x s) (py_fold f xs)"

type_synonym synthetic_meta = "(string \<times> (int \<times> string)) list"

definition place_label ::
  "string \<Rightarrow> int \<Rightarrow> (string \<rightharpoonup> json) \<Rightarrow> string \<times> json \<Rightarrow> (hash_key \<rightharpoonup> string) \<times> synthetic_meta \<Rightarrow>
   ((hash_key \<rightharpoonup> string) \<times> synthetic_meta) py" where
  "place_label rank base raw_pids entry s =
     (case snd entry of
        JStr label \<Rightarrow>
          (let synthetic = (if label = ''CPU'' then rank else rank @ ''/'' @ label)
           in py_bind (raw_key (the (raw_pids (fst entry)))) (\<lambda>rk.
                Inr ((fst s)(RStr (fst entry) \<mapsto> synthetic, rk \<mapsto> synthetic),
                     alist_put (snd s) synthetic
                       (if label = ''CPU'' then (base, rank @ '' CPU'')
                        else (base + 1000 + (case search_number ''gpu'' True label of
                                               None \<Rightarrow> 0 | Some ds \<Rightarrow> the (py_int ds)), rank @ '' '' @ label)))))
      | _ \<Rightarrow> Inl TypeError)"

subsection \<open>The walk\<close>

record walk =
  wk_tids :: id_sequencer
  wk_flows :: id_sequencer
  wk_raw_tids :: "hash_key \<rightharpoonup> int"

definition thread_name_event :: "(json \<Rightarrow> string) \<Rightarrow> string \<Rightarrow> string \<Rightarrow> int \<Rightarrow> json \<Rightarrow> json" where
  "thread_name_event other rank pid tid original =
     JObj [(''ph'', JStr ''M''), (''pid'', JStr pid), (''tid'', JInt tid), (''name'', JStr ''thread_name''),
       (''args'', JObj [(''name'', JStr (rank @ ''/'' @ py_str other original))])]"

text \<open>The id of an original tid, and the events its first sight adds.\<close>

definition resolve_tid :: "(json \<Rightarrow> string) \<Rightarrow> string \<Rightarrow> string \<Rightarrow> json \<Rightarrow> walk \<Rightarrow> ((int \<times> json list) \<times> walk) py" where
  "resolve_tid other rank pid original w =
     py_bind (raw_key original) (\<lambda>rk.
       case wk_raw_tids w rk of
         Some tid \<Rightarrow> Inr ((tid, []), w)
       | None \<Rightarrow>
           (case sq_seen (wk_tids w) (py_str other original) of
              Some tid \<Rightarrow> Inr ((tid, []), w\<lparr>wk_raw_tids := (wk_raw_tids w)(rk \<mapsto> tid)\<rparr>)
            | None \<Rightarrow>
                (let called = seq_call other original (wk_tids w)
                 in Inr ((fst called, [thread_name_event other rank pid (fst called) original]),
                         w\<lparr>wk_tids := snd called, wk_raw_tids := (wk_raw_tids w)(rk \<mapsto> fst called)\<rparr>))))"

definition slim_args :: "dict \<Rightarrow> dict" where
  "slim_args d =
     (case dget d ''args'' of
        JObj args \<Rightarrow>
          if dhas args ''stream'' then dict_put d ''args'' (JObj [(''stream'', dget args ''stream'')])
          else dict_del d ''args''
      | _ \<Rightarrow> d)"

text \<open>\<open>pid_map.get(pid)\<close>, then by the string, then the rank.\<close>

definition synthetic_pid :: "(json \<Rightarrow> string) \<Rightarrow> string \<Rightarrow> (hash_key \<rightharpoonup> string) \<Rightarrow> json \<Rightarrow> string py" where
  "synthetic_pid other rank pid_map pid =
     py_bind (raw_key pid) (\<lambda>rk.
       case pid_map rk of
         Some p \<Rightarrow> Inr p
       | None \<Rightarrow> Inr (case pid_map (RStr (py_str other pid)) of Some p \<Rightarrow> p | None \<Rightarrow> rank))"

definition skips :: "bool \<Rightarrow> dict \<Rightarrow> bool py" where
  "skips slim d =
     py_bind (if dget d ''ph'' = JStr ''M'' \<and> jtruthy (dget d ''name'')
              then (case dget d ''name'' of JStr s \<Rightarrow> Inr (prefix ''process_'' s) | _ \<Rightarrow> Inl AttributeError)
              else Inr False)
       (\<lambda>meta. Inr (meta \<or> (slim \<and> dget d ''cat'' = JStr ''cpu_instant_event'')))"

text \<open>\<open>ph in {"s", "t", "f"}\<close> raises on an unhashable value.\<close>

definition is_flow :: "json \<Rightarrow> bool py" where
  "is_flow ph = py_bind (raw_key ph) (\<lambda>rk. Inr (rk \<in> {RStr ''s'', RStr ''t'', RStr ''f''}))"

definition walk_event_with ::
  "(string \<Rightarrow> json \<Rightarrow> walk \<Rightarrow> ((int \<times> json list) \<times> walk) py) \<Rightarrow> (json \<Rightarrow> string) \<Rightarrow> string \<Rightarrow> bool \<Rightarrow> (hash_key \<rightharpoonup> string) \<Rightarrow> json \<Rightarrow> json list \<times> walk \<Rightarrow> (json list \<times> walk) py" where
  "walk_event_with resolve other rank slim pid_map event s =
     (case event of
        JObj d0 \<Rightarrow>
          py_bind (skips slim d0) (\<lambda>skip.
            if skip then Inr s
            else
              let d1 = (if slim then slim_args d0 else d0)
              in py_bind (synthetic_pid other rank pid_map (dget d1 ''pid'')) (\<lambda>pid.
                 let d2 = dict_put d1 ''pid'' (JStr pid)
                 in py_bind (if dhas d2 ''tid''
                             then py_bind (resolve pid (dget d2 ''tid'') (snd s)) (\<lambda>r.
                                    Inr (dict_put d2 ''tid'' (JInt (fst (fst r))), snd (fst r), snd r))
                             else Inr (d2, [], snd s)) (\<lambda>(d3, named, w).
                    py_bind (is_flow (dget d3 ''ph'')) (\<lambda>flow.
                      if flow \<and> dhas d3 ''id''
                      then let called = seq_call other (dget d3 ''id'') (wk_flows w)
                           in Inr (fst s @ named @ [JObj (dict_put d3 ''id'' (JInt (fst called)))],
                                   w\<lparr>wk_flows := snd called\<rparr>)
                      else Inr (fst s @ named @ [JObj d3], w)))))
      | _ \<Rightarrow> Inl AttributeError)"

definition walk_event ::
  "(json \<Rightarrow> string) \<Rightarrow> string \<Rightarrow> bool \<Rightarrow> (hash_key \<rightharpoonup> string) \<Rightarrow> json \<Rightarrow> json list \<times> walk \<Rightarrow> (json list \<times> walk) py" where
  "walk_event other rank = walk_event_with (resolve_tid other rank) other rank"

definition meta_event :: "string \<Rightarrow> int \<Rightarrow> string \<Rightarrow> dict \<Rightarrow> json" where
  "meta_event pid tid name args =
     JObj [(''ph'', JStr ''M''), (''pid'', JStr pid), (''tid'', JInt tid), (''name'', JStr name), (''args'', JObj args)]"

definition meta_events :: "int \<Rightarrow> synthetic_meta \<Rightarrow> json list" where
  "meta_events tid metas = concat (map (\<lambda>m.
     [meta_event (fst m) tid ''process_name'' [(''name'', JStr (snd (snd m)))],
      meta_event (fst m) tid ''process_labels'' [(''labels'', JStr (snd (snd m)))],
      meta_event (fst m) tid ''process_sort_index'' [(''sort_index'', JInt (fst (snd m)))]]) metas)"

definition trace_events :: "json \<Rightarrow> json list py" where
  "trace_events trace =
     (case trace of
        JObj d \<Rightarrow> if jtruthy (dget d ''traceEvents'') then jiter (dget d ''traceEvents'') else Inr []
      | JArr xs \<Rightarrow> Inr xs
      | _ \<Rightarrow> Inl (ValueError ''Trace root must be an object or array''))"

text \<open>One trace: the events it adds, and both sequencers after it.\<close>

definition merge_one_trace ::
  "(json \<Rightarrow> string) \<Rightarrow> string \<times> json \<Rightarrow> int \<Rightarrow> bool \<Rightarrow> id_sequencer \<times> id_sequencer \<Rightarrow>
   (json list \<times> id_sequencer \<times> id_sequencer) py" where
  "merge_one_trace other path file_index slim seqs =
     py_bind (trace_events (snd path)) (\<lambda>events.
       let rank = rank_label (fst path)
       in py_bind (py_fold (collect_label other) events ([], Map.empty)) (\<lambda>labels.
          py_bind (py_fold (place_label rank (file_index * 10000) (snd labels)) (fst labels) (Map.empty, [])) (\<lambda>maps.
          py_bind (py_fold (walk_event other rank slim (fst maps)) events
                     ([], \<lparr>wk_tids = start_trace (fst seqs), wk_flows = start_trace (snd seqs), wk_raw_tids = Map.empty\<rparr>))
            (\<lambda>walked.
               let meta = seq_call other (JStr ''meta'') (wk_tids (snd walked))
               in Inr (fst walked @ meta_events (fst meta) (snd maps), snd meta, wk_flows (snd walked))))))"

fun merge_files ::
  "(json \<Rightarrow> string) \<Rightarrow> (json \<Rightarrow> string) \<Rightarrow> bool \<Rightarrow> (string \<times> json) list \<Rightarrow> int \<Rightarrow> batcher \<Rightarrow>
   id_sequencer \<times> id_sequencer \<Rightarrow> batcher py" where
  "merge_files other dumps slim [] i b seqs = Inr b"
| "merge_files other dumps slim (p # ps) i b seqs =
     py_bind (merge_one_trace other p i slim seqs) (\<lambda>r.
       merge_files other dumps slim ps (i + 1) (fold (bt_add dumps) (fst r) b) (snd r))"

text \<open>The chunks of the merged file.\<close>

definition merge_all :: "(json \<Rightarrow> string) \<Rightarrow> (json \<Rightarrow> string) \<Rightarrow> (string \<times> json) list \<Rightarrow> bool \<Rightarrow> string list py" where
  "merge_all other dumps paths slim =
     py_bind (merge_files other dumps slim paths 0 (new_batcher [''{\"traceEvents\":['']) (new_sequencer, new_sequencer))
       (\<lambda>b. Inr (bt_output (bt_flush dumps b) @ ['']}'']))"

subsection \<open>Batching leaves no trace\<close>

definition comma_join :: "(json \<Rightarrow> string) \<Rightarrow> json list \<Rightarrow> string" where
  "comma_join dumps evs = py_join '','' (map dumps evs)"

text \<open>The JSON library renders an array element by element, whatever its context.\<close>

definition element_wise :: "(json \<Rightarrow> string) \<Rightarrow> bool" where
  "element_wise dumps \<longleftrightarrow> (\<forall>evs. dumps (JArr evs) = ''['' @ comma_join dumps evs @ '']'')"

lemma py_join_append: "xs \<noteq> [] \<Longrightarrow> ys \<noteq> [] \<Longrightarrow> py_join s (xs @ ys) = py_join s xs @ s @ py_join s ys"
proof (induction xs)
  case (Cons x xs)
  then show ?case by (cases xs; cases ys) simp_all
qed simp

text \<open>What a batcher has written and still holds stands for the list of events added to it.\<close>

definition batched :: "(json \<Rightarrow> string) \<Rightarrow> string \<Rightarrow> batcher \<Rightarrow> json list \<Rightarrow> bool" where
  "batched dumps head b evs \<longleftrightarrow>
     length (bt_pending b) < merge_batch_events \<and>
     (\<exists>written. evs = written @ bt_pending b \<and> (bt_emitted_any b \<longleftrightarrow> written \<noteq> []) \<and>
        concat (bt_output b) = head @ comma_join dumps written)"

lemma flush_batched:
  assumes "element_wise dumps"
    and "evs = written @ bt_pending b" "bt_emitted_any b \<longleftrightarrow> written \<noteq> []"
    and "concat (bt_output b) = head @ comma_join dumps written"
  shows "bt_pending (bt_flush dumps b) = [] \<and> (bt_emitted_any (bt_flush dumps b) \<longleftrightarrow> evs \<noteq> []) \<and>
    concat (bt_output (bt_flush dumps b)) = head @ comma_join dumps evs"
proof (cases "bt_pending b = []")
  case True
  then show ?thesis using assms by (simp add: bt_flush_def)
next
  case False
  have d: "butlast (tl (dumps (JArr (bt_pending b)))) = comma_join dumps (bt_pending b)"
    using assms(1) by (simp add: element_wise_def butlast_append)
  show ?thesis
  proof (cases "written = []")
    case True
    then show ?thesis using assms False d by (simp add: bt_flush_def comma_join_def)
  next
    case w: False
    then have "comma_join dumps evs = comma_join dumps written @ '','' @ comma_join dumps (bt_pending b)"
      using assms(2) False py_join_append [of "map dumps written" "map dumps (bt_pending b)" "'',''"]
      by (simp add: comma_join_def)
    then show ?thesis using assms False d w by (simp add: bt_flush_def)
  qed
qed

lemma add_batched:
  assumes "element_wise dumps" and "batched dumps head b evs"
  shows "batched dumps head (bt_add dumps e b) (evs @ [e])"
proof -
  obtain written where w: "evs = written @ bt_pending b" "bt_emitted_any b \<longleftrightarrow> written \<noteq> []"
    "concat (bt_output b) = head @ comma_join dumps written"
    using assms(2) by (auto simp: batched_def)
  let ?b = "b\<lparr>bt_pending := bt_pending b @ [e]\<rparr>"
  show ?thesis
  proof (cases "merge_batch_events \<le> length (bt_pending ?b)")
    case True
    have "evs @ [e] = written @ bt_pending ?b" using w by simp
    from flush_batched [OF assms(1) this, of head] w
    have "bt_pending (bt_flush dumps ?b) = []" "bt_emitted_any (bt_flush dumps ?b)"
      "concat (bt_output (bt_flush dumps ?b)) = head @ comma_join dumps (evs @ [e])" by simp_all
    then show ?thesis using True by (simp add: bt_add_def Let_def batched_def merge_batch_events_def)
  next
    case False
    then show ?thesis using w by (simp add: bt_add_def Let_def batched_def)
  qed
qed

lemma fold_add_batched:
  "element_wise dumps \<Longrightarrow> batched dumps head b evs \<Longrightarrow> batched dumps head (fold (bt_add dumps) es b) (evs @ es)"
proof (induction es arbitrary: b evs)
  case (Cons e es)
  then show ?case using Cons.IH [OF _ add_batched [OF Cons.prems]] by simp
qed simp

text \<open>The reference: the events of all traces in order, with nothing batched.\<close>

fun merged_events ::
  "(json \<Rightarrow> string) \<Rightarrow> bool \<Rightarrow> (string \<times> json) list \<Rightarrow> int \<Rightarrow> id_sequencer \<times> id_sequencer \<Rightarrow> json list py" where
  "merged_events other slim [] i seqs = Inr []"
| "merged_events other slim (p # ps) i seqs =
     py_bind (merge_one_trace other p i slim seqs) (\<lambda>r.
       py_bind (merged_events other slim ps (i + 1) (snd r)) (\<lambda>evs. Inr (fst r @ evs)))"

lemma merge_files_batched:
  assumes "element_wise dumps" and "batched dumps head b evs"
  shows "case merged_events other slim ps i seqs of
     Inl e \<Rightarrow> merge_files other dumps slim ps i b seqs = Inl e
   | Inr more_evs \<Rightarrow> \<exists>b'. merge_files other dumps slim ps i b seqs = Inr b' \<and> batched dumps head b' (evs @ more_evs)"
  using assms(2)
proof (induction ps arbitrary: i b seqs evs)
  case (Cons p ps)
  show ?case
  proof (cases "merge_one_trace other p i slim seqs")
    case (Inr r)
    have "batched dumps head (fold (bt_add dumps) (fst r) b) (evs @ fst r)"
      by (rule fold_add_batched [OF assms(1) Cons.prems])
    from Cons.IH [OF this, of "i + 1" "snd r"] show ?thesis
      using Inr by (cases "merged_events other slim ps (i + 1) (snd r)") simp_all
  qed simp
qed simp

text \<open>
  Batching is transparent: for a JSON library that renders arrays element by element, the
  bytes of the merged file are the brackets around the comma-joined renderings of the merged
  events, and merging fails exactly when producing the events fails.
\<close>

theorem batching_transparent:
  assumes "element_wise dumps"
  shows "(case merge_all other dumps paths slim of Inl e \<Rightarrow> Inl e | Inr chunks \<Rightarrow> Inr (concat chunks)) =
    py_bind (merged_events other slim paths 0 (new_sequencer, new_sequencer))
      (\<lambda>evs. Inr (''{\"traceEvents\":['' @ comma_join dumps evs @ '']}''))"
proof -
  let ?b = "new_batcher [''{\"traceEvents\":['']"
  have b: "batched dumps ''{\"traceEvents\":['' ?b []"
    by (simp add: batched_def new_batcher_def comma_join_def merge_batch_events_def)
  note m = merge_files_batched [OF assms b, of other slim paths 0 "(new_sequencer, new_sequencer)"]
  show ?thesis
  proof (cases "merged_events other slim paths 0 (new_sequencer, new_sequencer)")
    case (Inl e)
    then show ?thesis using m by (simp add: merge_all_def)
  next
    case (Inr evs)
    then obtain b' where b': "merge_files other dumps slim paths 0 ?b (new_sequencer, new_sequencer) = Inr b'"
      "batched dumps ''{\"traceEvents\":['' b' evs" using m by auto
    obtain written where "evs = written @ bt_pending b'" "bt_emitted_any b' \<longleftrightarrow> written \<noteq> []"
      "concat (bt_output b') = ''{\"traceEvents\":['' @ comma_join dumps written"
      using b'(2) by (auto simp: batched_def)
    from flush_batched [OF assms this] show ?thesis using b'(1) Inr by (simp add: merge_all_def)
  qed
qed


subsection \<open>Thread ids\<close>

lemma seq_call_seen: "sq_seen (snd (seq_call other t s)) (py_str other t) = Some (fst (seq_call other t s))"
  by (simp add: seq_call_def Let_def split: option.split)

text \<open>The sequencer invariant: the map is injective, its ids lie below the counter.\<close>

definition dense :: "int \<Rightarrow> id_sequencer \<Rightarrow> bool" where
  "dense lo s \<longleftrightarrow> lo \<le> sq_next s \<and> inj_on (sq_seen s) (dom (sq_seen s)) \<and>
     ran (sq_seen s) = {lo..<sq_next s}"

lemma dense_start: "dense (sq_next s) (start_trace s)"
  by (simp add: dense_def start_trace_def)

lemma dense_call:
  assumes "dense lo s"
  shows "dense lo (snd (seq_call other t s))"
proof (cases "sq_seen s (py_str other t)")
  case None
  have n: "Some (sq_next s) \<notin> sq_seen s ` dom (sq_seen s)"
  proof
    assume "Some (sq_next s) \<in> sq_seen s ` dom (sq_seen s)"
    then have "sq_next s \<in> ran (sq_seen s)" by (auto simp: ran_def)
    then show False using assms by (simp add: dense_def)
  qed
  have "inj_on ((sq_seen s)(py_str other t \<mapsto> sq_next s)) (insert (py_str other t) (dom (sq_seen s)))"
    using assms n None by (auto simp: dense_def inj_on_def domI) (metis domI imageI)+
  moreover have "ran ((sq_seen s)(py_str other t \<mapsto> sq_next s)) = {lo..<sq_next s + 1}"
    using assms None by (auto simp: dense_def ran_map_upd)
  ultimately show ?thesis using None assms by (simp add: dense_def seq_call_def Let_def)
qed (use assms in \<open>simp add: seq_call_def Let_def\<close>)

text \<open>Two originals of one trace share an id exactly when they print alike.\<close>

lemma dense_ids_distinct:
  assumes "dense lo s" and "sq_seen s a = Some i" and "sq_seen s b = Some j"
  shows "i = j \<longleftrightarrow> a = b" and "lo \<le> i \<and> i < sq_next s"
proof -
  show "i = j \<longleftrightarrow> a = b" using assms unfolding dense_def inj_on_def by (metis domI option.inject)
  have "i \<in> ran (sq_seen s)" using assms(2) by (auto simp: ran_def)
  then show "lo \<le> i \<and> i < sq_next s" using assms(1) by (simp add: dense_def)
qed

text \<open>The reference: every tid through the sequencer, no probe by raw value.\<close>

definition resolve_plain :: "(json \<Rightarrow> string) \<Rightarrow> string \<Rightarrow> string \<Rightarrow> json \<Rightarrow> walk \<Rightarrow> ((int \<times> json list) \<times> walk) py" where
  "resolve_plain other rank pid original w =
     (let called = seq_call other original (wk_tids w)
      in Inr ((fst called,
               if sq_seen (wk_tids w) (py_str other original) = None
               then [thread_name_event other rank pid (fst called) original] else []),
              w\<lparr>wk_tids := snd called\<rparr>))"

definition walk_plain :: "(json \<Rightarrow> string) \<Rightarrow> string \<Rightarrow> bool \<Rightarrow> (hash_key \<rightharpoonup> string) \<Rightarrow> json \<Rightarrow> json list \<times> walk \<Rightarrow> (json list \<times> walk) py" where
  "walk_plain other rank = walk_event_with (resolve_plain other rank) other rank"

text \<open>The tids that occur are hashable, and values a dict takes for one key also print alike.\<close>

definition tids_of :: "json list \<Rightarrow> json set" where
  "tids_of events = {t. \<exists>d. JObj d \<in> set events \<and> map_of d ''tid'' = Some t}"

definition tids_regular :: "(json \<Rightarrow> string) \<Rightarrow> json set \<Rightarrow> bool" where
  "tids_regular other T \<longleftrightarrow> (\<forall>a \<in> T. \<exists>k. raw_key a = Inr k) \<and>
     (\<forall>a \<in> T. \<forall>b \<in> T. raw_key a = raw_key b \<longrightarrow> py_str other a = py_str other b)"

definition same_walk :: "(json \<Rightarrow> string) \<Rightarrow> json set \<Rightarrow> walk \<Rightarrow> walk \<Rightarrow> bool" where
  "same_walk other T w v \<longleftrightarrow> wk_tids w = wk_tids v \<and> wk_flows w = wk_flows v \<and>
     (\<forall>k tid. wk_raw_tids w k = Some tid \<longrightarrow>
        (\<exists>a \<in> T. raw_key a = Inr k \<and> sq_seen (wk_tids w) (py_str other a) = Some tid))"

lemma same_walkD:
  "same_walk other T w v \<Longrightarrow> wk_raw_tids w k = Some tid \<Longrightarrow>
   \<exists>a \<in> T. raw_key a = Inr k \<and> sq_seen (wk_tids w) (py_str other a) = Some tid"
  unfolding same_walk_def by blast

lemma resolve_same:
  assumes reg: "tids_regular other T" and t: "t \<in> T" and same: "same_walk other T w v"
  shows "\<exists>r w' v'. resolve_tid other rank pid t w = Inr (r, w') \<and> resolve_plain other rank pid t v = Inr (r, v') \<and>
    same_walk other T w' v'"
proof -
  obtain k where k: "raw_key t = Inr k" using reg t by (auto simp: tids_regular_def)
  have eqs: "wk_tids v = wk_tids w" "wk_flows v = wk_flows w" using same by (simp_all add: same_walk_def)
  let ?called = "seq_call other t (wk_tids w)"
  show ?thesis
  proof (cases "wk_raw_tids w k")
    case (Some tid)
    then obtain a where "a \<in> T" "raw_key a = Inr k" "sq_seen (wk_tids w) (py_str other a) = Some tid"
      using same_walkD [OF same] by blast
    then have seen: "sq_seen (wk_tids w) (py_str other t) = Some tid"
      using reg t k unfolding tids_regular_def by metis
    then have "resolve_plain other rank pid t v = Inr ((tid, []), v\<lparr>wk_tids := wk_tids w\<rparr>)"
      by (simp add: resolve_plain_def eqs seq_call_def Let_def)
    then show ?thesis using Some k same eqs by (simp add: resolve_tid_def same_walk_def)
  next
    case None
    show ?thesis
    proof (cases "sq_seen (wk_tids w) (py_str other t)")
      case (Some tid)
      then have "resolve_plain other rank pid t v = Inr ((tid, []), v\<lparr>wk_tids := wk_tids w\<rparr>)"
        by (simp add: resolve_plain_def eqs seq_call_def Let_def)
      moreover have "resolve_tid other rank pid t w = Inr ((tid, []), w\<lparr>wk_raw_tids := (wk_raw_tids w)(k \<mapsto> tid)\<rparr>)"
        using Some None k by (simp add: resolve_tid_def)
      moreover have "same_walk other T (w\<lparr>wk_raw_tids := (wk_raw_tids w)(k \<mapsto> tid)\<rparr>) (v\<lparr>wk_tids := wk_tids w\<rparr>)"
        using same eqs Some t k by (auto simp: same_walk_def)
      ultimately show ?thesis by blast
    next
      case fresh: None
      have "resolve_plain other rank pid t v =
          Inr ((fst ?called, [thread_name_event other rank pid (fst ?called) t]), v\<lparr>wk_tids := snd ?called\<rparr>)"
        using fresh by (simp add: resolve_plain_def eqs Let_def)
      moreover have "resolve_tid other rank pid t w =
          Inr ((fst ?called, [thread_name_event other rank pid (fst ?called) t]),
               w\<lparr>wk_tids := snd ?called, wk_raw_tids := (wk_raw_tids w)(k \<mapsto> fst ?called)\<rparr>)"
        using None fresh k by (simp add: resolve_tid_def Let_def)
      moreover have "same_walk other T (w\<lparr>wk_tids := snd ?called, wk_raw_tids := (wk_raw_tids w)(k \<mapsto> fst ?called)\<rparr>)
          (v\<lparr>wk_tids := snd ?called\<rparr>)"
      proof -
        have grows: "sq_seen (snd ?called) (py_str other a) = Some tid" if "sq_seen (wk_tids w) (py_str other a) = Some tid" for a tid
          using that fresh by (auto simp: seq_call_def Let_def)
        have "\<exists>a \<in> T. raw_key a = Inr ka \<and> sq_seen (snd ?called) (py_str other a) = Some tid"
          if "((wk_raw_tids w)(k \<mapsto> fst ?called)) ka = Some tid" for ka tid
        proof (cases "ka = k")
          case True
          then show ?thesis using that t k seq_call_seen [of other t "wk_tids w"] by auto
        next
          case False
          then show ?thesis using that same_walkD [OF same, of ka tid] grows by auto
        qed
        then show ?thesis using eqs by (simp add: same_walk_def)
      qed
      ultimately show ?thesis by blast
    qed
  qed
qed


lemma map_of_filter_other: "k \<noteq> k' \<Longrightarrow> map_of (filter (\<lambda>e. fst e \<noteq> k') d) k = map_of d k"
  by (induction d) auto

lemma tid_slim: "map_of (slim_args d) ''tid'' = map_of d ''tid''"
  by (simp add: slim_args_def map_of_dict_put dict_del_def map_of_filter_other split: json.split)

lemma walk_event_same:
  assumes reg: "tids_regular other T" and T: "tids_of [event] \<subseteq> T"
    and same: "same_walk other T w v"
  shows "(\<exists>e. walk_event other rank slim pm event (evs, w) = Inl e \<and> walk_plain other rank slim pm event (evs, v) = Inl e) \<or>
    (\<exists>evs' w' v'. walk_event other rank slim pm event (evs, w) = Inr (evs', w') \<and>
       walk_plain other rank slim pm event (evs, v) = Inr (evs', v') \<and> same_walk other T w' v')"
proof (cases "\<exists>d0. event = JObj d0")
  case False
  then show ?thesis by (cases event) (auto simp: walk_event_def walk_plain_def walk_event_with_def)
next
  case True
  then obtain d0 where ev: "event = JObj d0" by blast
  have flow: "wk_flows v = wk_flows w" using same by (simp add: same_walk_def)
  show ?thesis
  proof (cases "skips slim d0")
    case (Inl e)
    then show ?thesis by (simp add: ev walk_event_def walk_plain_def walk_event_with_def)
  next
    case (Inr skip)
    define d1 where "d1 = (if slim then slim_args d0 else d0)"
    show ?thesis
    proof (cases "skip \<or> (\<exists>e. synthetic_pid other rank pm (dget d1 ''pid'') = Inl e)")
      case True
      then show ?thesis using Inr same
        by (cases skip) (auto simp: ev walk_event_def walk_plain_def walk_event_with_def Let_def simp flip: d1_def)
    next
      case False
      then obtain pid where pid: "synthetic_pid other rank pm (dget d1 ''pid'') = Inr pid" and skip': "skip = False"
        by (cases "synthetic_pid other rank pm (dget d1 ''pid'')") auto
      define d2 where "d2 = dict_put d1 ''pid'' (JStr pid)"
      have tid: "map_of d2 ''tid'' = map_of d0 ''tid''"
        by (simp add: d2_def d1_def map_of_dict_put tid_slim)
      have "\<exists>r w' v'.
          (if dhas d2 ''tid'' then py_bind (resolve_tid other rank pid (dget d2 ''tid'') w)
              (\<lambda>r. Inr (dict_put d2 ''tid'' (JInt (fst (fst r))), snd (fst r), snd r)) else Inr (d2, [], w)) = Inr (fst r, snd r, w') \<and>
          (if dhas d2 ''tid'' then py_bind (resolve_plain other rank pid (dget d2 ''tid'') v)
              (\<lambda>r. Inr (dict_put d2 ''tid'' (JInt (fst (fst r))), snd (fst r), snd r)) else Inr (d2, [], v)) = Inr (fst r, snd r, v') \<and>
          same_walk other T w' v'"
      proof (cases "dhas d2 ''tid''")
        case True
        then obtain t where t: "map_of d0 ''tid'' = Some t" using tid by (auto simp: dhas_def)
        have mem: "t \<in> T" using T t ev by (auto simp: tids_of_def)
        have d: "dget d2 ''tid'' = t" using t tid by (simp add: dget_def)
        obtain q w' v' where "resolve_tid other rank pid t w = Inr (q, w')" "resolve_plain other rank pid t v = Inr (q, v')"
          "same_walk other T w' v'" using resolve_same [OF reg mem same] by blast
        then show ?thesis using True d
          by (intro exI [where x = "(dict_put d2 ''tid'' (JInt (fst q)), snd q)"] exI [where x = w'] exI [where x = v']) simp
      next
        case False
        then show ?thesis using same by (intro exI [where x = "(d2, [])"]) auto
      qed
      then obtain r w' v' where r:
        "(if dhas d2 ''tid'' then py_bind (resolve_tid other rank pid (dget d2 ''tid'') w)
              (\<lambda>r. Inr (dict_put d2 ''tid'' (JInt (fst (fst r))), snd (fst r), snd r)) else Inr (d2, [], w)) = Inr (fst r, snd r, w')"
        "(if dhas d2 ''tid'' then py_bind (resolve_plain other rank pid (dget d2 ''tid'') v)
              (\<lambda>r. Inr (dict_put d2 ''tid'' (JInt (fst (fst r))), snd (fst r), snd r)) else Inr (d2, [], v)) = Inr (fst r, snd r, v')"
        "same_walk other T w' v'" by blast
      have upd: "same_walk other T (w'\<lparr>wk_flows := f\<rparr>) (v'\<lparr>wk_flows := f\<rparr>)" for f
        using r(3) unfolding same_walk_def by (elim conjE) simp
      have fl: "wk_flows v' = wk_flows w'" using r(3) by (simp add: same_walk_def)
      let ?tail = "\<lambda>d3 named w. py_bind (is_flow (dget d3 ''ph'')) (\<lambda>flow.
          if flow \<and> dhas d3 ''id''
          then let called = seq_call other (dget d3 ''id'') (wk_flows w)
               in Inr (evs @ named @ [JObj (dict_put d3 ''id'' (JInt (fst called)))], w\<lparr>wk_flows := snd called\<rparr>)
          else Inr (evs @ named @ [JObj d3], w))"
      have step: "walk_event_with res other rank slim pm event (evs, u) = ?tail d3 named u'"
        if "(if dhas d2 ''tid'' then py_bind (res pid (dget d2 ''tid'') u)
              (\<lambda>r. Inr (dict_put d2 ''tid'' (JInt (fst (fst r))), snd (fst r), snd r)) else Inr (d2, [], u)) = Inr (d3, named, u')"
        for res u d3 named u'
        unfolding walk_event_with_def ev json.case Inr py_bind_simps if_False skip' Let_def
          d1_def [symmetric] pid d2_def [symmetric] fst_conv snd_conv that split_conv
        by (rule refl)
      have "walk_event other rank slim pm event (evs, w) = ?tail (fst r) (snd r) w'"
        unfolding walk_event_def by (rule step [of "resolve_tid other rank" w, OF r(1)])
      moreover have "walk_plain other rank slim pm event (evs, v) = ?tail (fst r) (snd r) v'"
        unfolding walk_plain_def by (rule step [of "resolve_plain other rank" v, OF r(2)])
      ultimately show ?thesis
        using r(3) upd fl by (cases "is_flow (dget (fst r) ''ph'')") (auto simp: Let_def)
    qed
  qed
qed

lemma walk_same:
  assumes reg: "tids_regular other T" and "tids_of events \<subseteq> T" and "same_walk other T w v"
  shows "(\<exists>e. py_fold (walk_event other rank slim pm) events (evs, w) = Inl e \<and> py_fold (walk_plain other rank slim pm) events (evs, v) = Inl e) \<or>
    (\<exists>evs' w' v'. py_fold (walk_event other rank slim pm) events (evs, w) = Inr (evs', w') \<and>
       py_fold (walk_plain other rank slim pm) events (evs, v) = Inr (evs', v') \<and> same_walk other T w' v')"
  using assms(2,3)
proof (induction events arbitrary: evs w v)
  case (Cons event events)
  have mem: "tids_of [event] \<subseteq> T" using Cons.prems(1) by (auto simp: tids_of_def)
  from walk_event_same [where event = event and rank = rank and slim = slim and pm = pm and evs = evs, OF reg mem Cons.prems(2)] show ?case
  proof (elim disjE exE conjE)
    fix evs' w' v' assume a: "walk_event other rank slim pm event (evs, w) = Inr (evs', w')"
      "walk_plain other rank slim pm event (evs, v) = Inr (evs', v')" "same_walk other T w' v'"
    have "tids_of events \<subseteq> T" using Cons.prems(1) by (auto simp: tids_of_def)
    from Cons.IH [OF this a(3), of evs'] a show ?thesis by simp
  qed simp
qed simp

definition merge_one_plain ::
  "(json \<Rightarrow> string) \<Rightarrow> string \<times> json \<Rightarrow> int \<Rightarrow> bool \<Rightarrow> id_sequencer \<times> id_sequencer \<Rightarrow>
   (json list \<times> id_sequencer \<times> id_sequencer) py" where
  "merge_one_plain other path file_index slim seqs =
     py_bind (trace_events (snd path)) (\<lambda>events.
       let rank = rank_label (fst path)
       in py_bind (py_fold (collect_label other) events ([], Map.empty)) (\<lambda>labels.
          py_bind (py_fold (place_label rank (file_index * 10000) (snd labels)) (fst labels) (Map.empty, [])) (\<lambda>maps.
          py_bind (py_fold (walk_plain other rank slim (fst maps)) events
                     ([], \<lparr>wk_tids = start_trace (fst seqs), wk_flows = start_trace (snd seqs), wk_raw_tids = Map.empty\<rparr>))
            (\<lambda>walked.
               let meta = seq_call other (JStr ''meta'') (wk_tids (snd walked))
               in Inr (fst walked @ meta_events (fst meta) (snd maps), snd meta, wk_flows (snd walked))))))"

text \<open>
  The probe by raw value is an optimisation only: when the tids of a trace are hashable and
  values that Python dicts identify also print alike, the merged events, both id counters and
  every exception are those of the walk that asks the sequencer for each tid.
\<close>

theorem raw_probe_transparent:
  assumes "trace_events (snd path) = Inr events" and "tids_regular other (tids_of events)"
  shows "merge_one_trace other path file_index slim seqs = merge_one_plain other path file_index slim seqs"
proof -
  let ?w = "\<lparr>wk_tids = start_trace (fst seqs), wk_flows = start_trace (snd seqs), wk_raw_tids = Map.empty\<rparr>"
  have s: "same_walk other (tids_of events) ?w ?w" by (simp add: same_walk_def)
  have "py_bind (py_fold (walk_event other rank slim pm) events ([], ?w)) (\<lambda>walked.
        let meta = seq_call other (JStr ''meta'') (wk_tids (snd walked))
        in Inr (fst walked @ meta_events (fst meta) ms, snd meta, wk_flows (snd walked))) =
      py_bind (py_fold (walk_plain other rank slim pm) events ([], ?w)) (\<lambda>walked.
        let meta = seq_call other (JStr ''meta'') (wk_tids (snd walked))
        in Inr (fst walked @ meta_events (fst meta) ms, snd meta, wk_flows (snd walked)))" for rank pm ms
    using walk_same [OF assms(2) order_refl s, of rank slim pm "[]"]
    by (auto simp: same_walk_def Let_def)
  then show ?thesis using assms(1) by (simp add: merge_one_trace_def merge_one_plain_def Let_def)
qed

fun demo_dumps :: "json \<Rightarrow> string" where
  "demo_dumps (JArr xs) = ''['' @ py_join '','' (map demo_dumps xs) @ '']''"
| "demo_dumps v = ''0''"

lemma demo_element_wise: "element_wise demo_dumps"
  by (simp add: element_wise_def comma_join_def)

theorem batching_transparent_witness:
  "\<exists>chunks. merge_all (\<lambda>_. []) demo_dumps [(''rank0.json'', JArr [JObj [(''ph'', JStr ''X''), (''pid'', JInt 3)]])] False = Inr chunks \<and>
     concat chunks = ''{\"traceEvents\":[0]}''"
proof -
  let ?p = "(''rank0.json'', JArr [JObj [(''ph'', JStr ''X''), (''pid'', JInt 3)]])"
  have "merged_events (\<lambda>_. []) False [?p] 0 (new_sequencer, new_sequencer) =
      Inr [JObj [(''ph'', JStr ''X''), (''pid'', JStr ''rank0'')]]"
    by code_simp
  then show ?thesis using batching_transparent [OF demo_element_wise, of "\<lambda>_. []" "[?p]" False]
    by (cases "merge_all (\<lambda>_. []) demo_dumps [?p] False") (simp_all add: comma_join_def)
qed

lemma tids_regular_mono: "T \<subseteq> S \<Longrightarrow> tids_regular other S \<Longrightarrow> tids_regular other T"
  by (auto simp: tids_regular_def subset_iff)

lemma demo_tids_regular: "tids_regular (\<lambda>_. []) {JInt 7, JStr ''7''}"
  by (simp add: tids_regular_def)

theorem raw_probe_transparent_witness:
  "merge_one_trace (\<lambda>_. []) (''rank0.json'', JArr [JObj [(''tid'', JInt 7)], JObj [(''tid'', JStr ''7'')]]) 0 False (new_sequencer, new_sequencer) =
   merge_one_plain (\<lambda>_. []) (''rank0.json'', JArr [JObj [(''tid'', JInt 7)], JObj [(''tid'', JStr ''7'')]]) 0 False (new_sequencer, new_sequencer)"
proof (rule raw_probe_transparent)
  show "trace_events (snd (''rank0.json'', JArr [JObj [(''tid'', JInt 7)], JObj [(''tid'', JStr ''7'')]])) =
      Inr [JObj [(''tid'', JInt 7)], JObj [(''tid'', JStr ''7'')]]" by (simp add: trace_events_def)
  have "tids_of [JObj [(''tid'', JInt 7)], JObj [(''tid'', JStr ''7'')]] \<subseteq> {JInt 7, JStr ''7''}"
    by (auto simp: tids_of_def)
  then show "tids_regular (\<lambda>_. []) (tids_of [JObj [(''tid'', JInt 7)], JObj [(''tid'', JStr ''7'')]])"
    by (rule tids_regular_mono [OF _ demo_tids_regular])
qed

text \<open>Without regular tids the probe merges threads: 1 and True are one key and two strings.\<close>

lemma one_str: "int_str 1 = ''1''"
  by code_simp

lemma raw_probe_merges_threads:
  "py_str other (JInt 1) \<noteq> py_str other (JBool True) \<and>
   (\<exists>w. resolve_tid other rank pid (JInt 1) \<lparr>wk_tids = new_sequencer, wk_flows = new_sequencer, wk_raw_tids = Map.empty\<rparr> =
        Inr ((1, [thread_name_event other rank pid 1 (JInt 1)]), w) \<and>
      resolve_tid other rank pid (JBool True) w = Inr ((1, []), w))"
  by (simp add: resolve_tid_def seq_call_def new_sequencer_def Let_def one_str)


end
