(* ===== verification/Backends.thy ===== *)
theory Backends
  imports Prelude
begin

text \<open>
  Which backend and model a worker, a verifier or a reviewer runs on:
  \<open>src/core/spawner_backends.py\<close>, the reviewer selection of \<open>src/core/review.py\<close>, and the lookups
  of \<open>src/core/config.py\<close> and \<open>src/core/scheduler.py\<close> they use. A \<open>ValueError\<close> carries its text.
\<close>

subsection \<open>Configuration\<close>

datatype backend_type =
    CC_CLAUDE | CC_KIMI | CC_OPENAI_COMPATIBLE | CODEX | CHARLIE_CODE | GEMINI | OPENCODE | ANTIGRAVITY | TUI_CLI

record backend_option =
  bo_id :: string
  bo_type :: backend_type
  bo_model :: "string option"

record step_config =
  sc_name :: string
  sc_prompt :: "string option"
  sc_backend :: "string option"

record task_config =
  tc_name :: string
  tc_repo :: "string option"
  tc_backend :: "string option"
  tc_notify :: "string option"
  tc_steps :: "step_config list option"

record config =
  cf_options :: "backend_option list"
  cf_preference :: "string list"
  cf_tasks :: "task_config list"

text \<open>Truth of an optional string: \<open>None\<close> and the empty string are false.\<close>

definition truthy :: "string option \<Rightarrow> bool" where
  "truthy s = (s \<noteq> None \<and> s \<noteq> Some [])"

definition backend_type_allows_missing_model :: "backend_type \<Rightarrow> bool" where
  "backend_type_allows_missing_model t = (t = ANTIGRAVITY \<or> t = TUI_CLI)"

definition get_backend_option :: "config \<Rightarrow> string \<Rightarrow> backend_option option" where
  "get_backend_option cfg b = find (\<lambda>opt. bo_id opt = b) (cf_options cfg)"

definition require_backend_option :: "config \<Rightarrow> string \<Rightarrow> string \<Rightarrow> backend_option py" where
  "require_backend_option cfg b subject =
     (case get_backend_option cfg b of
        None \<Rightarrow> Inl (ValueError (subject @ ''backend '' @ [CHR 0x27] @ b @ [CHR 0x27] @ '' is not in backends.options''))
      | Some opt \<Rightarrow> Inr opt)"

subsection \<open>Resolution\<close>

definition resolve_backend_option :: "config \<Rightarrow> string \<Rightarrow> string option \<Rightarrow> backend_option py" where
  "resolve_backend_option cfg b model =
     (if b = [] then Inl (ValueError ''resolved backend is required'')
      else py_bind (require_backend_option cfg b ''resolved '') (\<lambda>opt.
        if backend_type_allows_missing_model (bo_type opt) then Inr (opt\<lparr>bo_model := None\<rparr>)
        else if \<not> truthy model then Inl (ValueError ''resolved model is required'')
        else Inr (opt\<lparr>bo_model := model\<rparr>)))"

definition option_default_backend_model :: "backend_option \<Rightarrow> string \<Rightarrow> (string \<times> string option) py" where
  "option_default_backend_model opt src =
     (if backend_type_allows_missing_model (bo_type opt) then Inr (bo_id opt, None)
      else if \<not> truthy (bo_model opt)
      then Inl (ValueError (src @ '' backend '' @ [CHR 0x27] @ bo_id opt @ [CHR 0x27] @ '' has no default model''))
      else Inr (bo_id opt, bo_model opt))"

definition unknown_backend_pin_refusal :: "string \<Rightarrow> string \<Rightarrow> string" where
  "unknown_backend_pin_refusal b fallback =
     [CHR 0x27] @ b @ [CHR 0x27] @ '' is not in config.yaml backends.options '' @
     [CHR 0xE2, CHR 0x80, CHR 0x94] @ '' refusing to substitute '' @ [CHR 0x27] @ fallback @ [CHR 0x27]"

text \<open>A session's backend: empty means the first configured option, an unknown one is refused.\<close>

definition resolve_session_default_backend_model :: "config \<Rightarrow> string \<Rightarrow> (string \<times> string option) py" where
  "resolve_session_default_backend_model cfg pin =
     (case (if pin \<noteq> [] then get_backend_option cfg pin else None) of
        Some opt \<Rightarrow> option_default_backend_model opt ''session''
      | None \<Rightarrow>
          (case cf_options cfg of
             [] \<Rightarrow> Inl (ValueError ''session backend resolution requires a configured backends.options entry'')
           | first # _ \<Rightarrow>
               if pin \<noteq> [] then Inl (ValueError (''session backend '' @ unknown_backend_pin_refusal pin (bo_id first)))
               else option_default_backend_model first ''session''))"

text \<open>The session of a request is looked up first; \<open>None\<close> stands for a session that is not there.\<close>

definition require_session :: "'m option \<Rightarrow> string \<Rightarrow> 'm py" where
  "require_session found sid =
     (case found of
        None \<Rightarrow> Inl (ValueError (''session '' @ [CHR 0x27] @ sid @ [CHR 0x27] @ '' not found''))
      | Some m \<Rightarrow> Inr m)"

definition resolve_requested_subagent_backend_model ::
  "string \<Rightarrow> config \<Rightarrow> string option \<Rightarrow> string option \<Rightarrow> (string \<times> string option) py" where
  "resolve_requested_subagent_backend_model sid cfg session_backend requested =
     py_bind (require_session session_backend sid) (\<lambda>pin.
       case requested of
         Some r \<Rightarrow>
           if r = [] then Inl (ValueError ''requested backend is required'')
           else py_bind (require_backend_option cfg r ''requested '') (\<lambda>opt. option_default_backend_model opt ''requested'')
       | None \<Rightarrow> resolve_session_default_backend_model cfg pin)"

definition effective_scheduled_task_backend :: "task_config \<Rightarrow> config \<Rightarrow> string py" where
  "effective_scheduled_task_backend task cfg =
     (case tc_backend task of
        Some b \<Rightarrow> if b \<noteq> [] then py_bind (require_backend_option cfg b ''scheduled task '') (\<lambda>_. Inr b)
                  else (case cf_options cfg of
                          [] \<Rightarrow> Inl (ValueError ''scheduled task backend resolution requires a configured backends.options entry'')
                        | first # _ \<Rightarrow> Inr (bo_id first))
      | None \<Rightarrow> (case cf_options cfg of
                   [] \<Rightarrow> Inl (ValueError ''scheduled task backend resolution requires a configured backends.options entry'')
                 | first # _ \<Rightarrow> Inr (bo_id first)))"

subsection \<open>The reviewer's backend\<close>

definition resolve_preference_option :: "config \<Rightarrow> string \<Rightarrow> backend_option py" where
  "resolve_preference_option cfg b =
     py_bind (require_backend_option cfg b ''backends.preference entry '') (\<lambda>opt.
       if backend_type_allows_missing_model (bo_type opt) then Inr (opt\<lparr>bo_model := None\<rparr>)
       else if \<not> truthy (bo_model opt)
       then Inl (ValueError (''backends.preference entry '' @ [CHR 0x27] @ b @ [CHR 0x27] @ '' has no default model''))
       else Inr opt)"

text \<open>The loop over the preferences; \<open>None\<close> is its \<open>else\<close> branch.\<close>

fun pick_preference :: "config \<Rightarrow> string \<Rightarrow> string list \<Rightarrow> string list \<Rightarrow> backend_option option" where
  "pick_preference cfg worker tried [] = None"
| "pick_preference cfg worker tried (p # ps) =
     (if p = worker then pick_preference cfg worker tried ps
      else if p \<in> set tried then pick_preference cfg worker tried ps
      else case resolve_preference_option cfg p of
             Inr opt \<Rightarrow> Some opt
           | Inl _ \<Rightarrow> pick_preference cfg worker tried ps)"

type_synonym selection = "string \<times> string option \<times> string list"

definition select_reviewer_backend ::
  "config \<Rightarrow> string \<Rightarrow> string option \<Rightarrow> string list \<Rightarrow> selection option" where
  "select_reviewer_backend cfg worker model tried =
     (case pick_preference cfg worker tried (cf_preference cfg) of
        Some opt \<Rightarrow> Some (bo_id opt, bo_model opt, tried @ [bo_id opt])
      | None \<Rightarrow>
          if cf_preference cfg \<noteq> [] \<and> worker \<in> set tried then None
          else Some (worker, model, tried @ [worker]))"

definition select_verify_backend ::
  "string \<Rightarrow> config \<Rightarrow> string option \<Rightarrow> string list \<Rightarrow> selection option py" where
  "select_verify_backend sid cfg session_backend tried =
     py_bind (require_session session_backend sid) (\<lambda>pin.
     py_bind (resolve_session_default_backend_model cfg pin) (\<lambda>(b, m).
       Inr (select_reviewer_backend cfg b m tried)))"

subsection \<open>What the selection does\<close>

definition usable :: "config \<Rightarrow> string \<Rightarrow> string set" where
  "usable cfg worker = {p \<in> set (cf_preference cfg). p \<noteq> worker \<and> (\<exists>opt. resolve_preference_option cfg p = Inr opt)}"

lemma resolve_preference_id: "resolve_preference_option cfg b = Inr opt \<Longrightarrow> bo_id opt = b"
  by (auto simp: resolve_preference_option_def require_backend_option_def get_backend_option_def
      py_bind_Inr_iff dest!: find_Some_in split: option.splits if_splits)

lemma pick_preference_Some:
  "pick_preference cfg worker tried ps = Some opt \<Longrightarrow>
     bo_id opt \<in> set ps \<and> bo_id opt \<noteq> worker \<and> bo_id opt \<notin> set tried \<and>
     resolve_preference_option cfg (bo_id opt) = Inr opt"
  by (induction cfg worker tried ps rule: pick_preference.induct)
    (auto split: if_splits sum.splits dest: resolve_preference_id)

lemma pick_preference_None:
  "pick_preference cfg worker tried ps = None \<Longrightarrow> p \<in> set ps \<Longrightarrow> p \<noteq> worker \<Longrightarrow>
     resolve_preference_option cfg p = Inr opt \<Longrightarrow> p \<in> set tried"
  by (induction cfg worker tried ps rule: pick_preference.induct) (auto split: if_splits sum.splits)

lemma select_Some:
  assumes "select_reviewer_backend cfg worker model tried = Some (b, m, tried')" "cf_preference cfg \<noteq> []"
  shows "b \<notin> set tried \<and> tried' = tried @ [b] \<and> (b \<in> usable cfg worker \<or> b = worker)"
  using assms pick_preference_Some [of cfg worker tried "cf_preference cfg"]
  by (auto simp: select_reviewer_backend_def usable_def split: option.splits if_splits)

lemma select_None:
  assumes "select_reviewer_backend cfg worker model tried = None"
  shows "insert worker (usable cfg worker) \<subseteq> set tried"
  using assms pick_preference_None [of cfg worker tried "cf_preference cfg"]
  by (auto simp: select_reviewer_backend_def usable_def split: option.splits if_splits)

text \<open>The worker's own backend is the last resort.\<close>

lemma select_author:
  assumes "select_reviewer_backend cfg worker model tried = Some (worker, m, tried')"
  shows "usable cfg worker \<subseteq> set tried"
  using assms pick_preference_None [of cfg worker tried "cf_preference cfg"]
    pick_preference_Some [of cfg worker tried "cf_preference cfg"]
  by (auto simp: select_reviewer_backend_def usable_def split: option.splits if_splits)

lemma select_grows:
  "select_reviewer_backend cfg worker model tried = Some (b, m, tried') \<Longrightarrow> tried' = tried @ [b]"
  by (auto simp: select_reviewer_backend_def split: option.splits if_splits)

definition demo_config :: config where
  "demo_config =
     \<lparr>cf_options = [\<lparr>bo_id = ''a'', bo_type = CC_CLAUDE, bo_model = Some ''m''\<rparr>,
                    \<lparr>bo_id = ''b'', bo_type = CODEX, bo_model = Some ''n''\<rparr>],
      cf_preference = [''a'', ''b'', ''x''], cf_tasks = []\<rparr>"

end
