(* ===== verification/Finalize_Effects.thy ===== *)
theory Finalize_Effects
  imports Prelude Event_Types Ndjson
begin

text \<open>
  \<open>src/core/finalize_effects.py\<close>: the judgments that make the effects of a finished worker
  repeatable; the derived fold and the event cache of \<open>src/core/chat_events.py\<close> that answer two
  of them without rescanning; and \<open>src/core/spawner_events.py\<close>, the summary of a worker's log. A
  session's chat file is the list of its events (\<open>Ndjson.append_then_read\<close> is that reading).
\<close>

subsection \<open>The judgments\<close>

text \<open>\<open>x in frozenset\<close>: a list or an object is not hashable.\<close>

fun hashable :: "json \<Rightarrow> bool" where
  "hashable (JArr xs) = False"
| "hashable (JObj d) = False"
| "hashable v = True"

definition master_output_types :: "string list" where
  "master_output_types = [ET_ASSISTANT, ET_MASTER_DONE, ET_ASSISTANT_ERROR]"

definition is_master_output :: "dict \<Rightarrow> bool" where
  "is_master_output ev = (case dget ev ''type'' of JStr s \<Rightarrow> s \<in> set master_output_types | _ \<Rightarrow> False)"

definition master_output :: "dict \<Rightarrow> bool py" where
  "master_output ev = (if hashable (dget ev ''type'') then Inr (is_master_output ev) else Inl TypeError)"

definition is_terminal_worker_summary :: "dict \<Rightarrow> string \<Rightarrow> bool" where
  "is_terminal_worker_summary ev tid \<longleftrightarrow>
     dget ev ''type'' = JStr ET_WORKER_SUMMARY \<and> dget ev ''thread_id'' = JStr tid \<and>
     dget ev ''status'' \<noteq> JStr ''running''"

definition terminal_summary_present :: "dict list \<Rightarrow> string \<Rightarrow> bool" where
  "terminal_summary_present evs tid = (\<exists>ev \<in> set evs. is_terminal_worker_summary ev tid)"

fun last_summary_idx :: "dict list \<Rightarrow> string \<Rightarrow> nat \<Rightarrow> nat option \<Rightarrow> nat option" where
  "last_summary_idx [] tid i found = found"
| "last_summary_idx (ev # evs) tid i found =
     last_summary_idx evs tid (Suc i) (if is_terminal_worker_summary ev tid then Some i else found)"

fun any_py :: "('a \<Rightarrow> bool py) \<Rightarrow> 'a list \<Rightarrow> bool py" where
  "any_py p [] = Inr False"
| "any_py p (x # xs) = py_bind (p x) (\<lambda>b. if b then Inr True else any_py p xs)"

definition master_woke_after_summary :: "dict list \<Rightarrow> string \<Rightarrow> bool py" where
  "master_woke_after_summary evs tid =
     (case last_summary_idx evs tid 0 None of
        None \<Rightarrow> Inr False
      | Some i \<Rightarrow> any_py master_output (drop (Suc i) evs))"

subsection \<open>The fold\<close>

record finalize_fold =
  ff_marks :: "string \<rightharpoonup> nat"
  ff_outputs :: nat

definition new_fold :: finalize_fold where
  "new_fold = \<lparr>ff_marks = Map.empty, ff_outputs = 0\<rparr>"

definition absorb :: "dict \<Rightarrow> finalize_fold \<Rightarrow> finalize_fold py" where
  "absorb ev f =
     py_bind (master_output ev) (\<lambda>out.
       if out then Inr (f\<lparr>ff_outputs := Suc (ff_outputs f)\<rparr>)
       else case dget ev ''thread_id'' of
              JStr tid \<Rightarrow> if is_terminal_worker_summary ev tid
                          then Inr (f\<lparr>ff_marks := (ff_marks f)(tid \<mapsto> ff_outputs f)\<rparr>) else Inr f
            | _ \<Rightarrow> Inr f)"

fun absorb_all :: "dict list \<Rightarrow> finalize_fold \<Rightarrow> finalize_fold py" where
  "absorb_all [] f = Inr f"
| "absorb_all (ev # evs) f = py_bind (absorb ev f) (absorb_all evs)"

definition build_fold :: "dict list \<Rightarrow> finalize_fold py" where
  "build_fold evs = absorb_all evs new_fold"

definition fold_summary_present :: "finalize_fold \<Rightarrow> string \<Rightarrow> bool" where
  "fold_summary_present f tid = (ff_marks f tid \<noteq> None)"

definition fold_master_woke :: "finalize_fold \<Rightarrow> string \<Rightarrow> bool" where
  "fold_master_woke f tid = (case ff_marks f tid of None \<Rightarrow> False | Some m \<Rightarrow> m < ff_outputs f)"

subsection \<open>The event store\<close>

text \<open>
  Per session: the file, the cached events and the fold, which exist together. \<open>fresh\<close> and
  \<open>stamp\<close> are the id and the time the store gives to an event without them.
\<close>

record chat_store =
  cs_files :: "string \<Rightarrow> dict list"
  cs_cache :: "string \<rightharpoonup> dict list"
  cs_folds :: "string \<rightharpoonup> finalize_fold"

definition stamped :: "string \<Rightarrow> string \<Rightarrow> dict \<Rightarrow> dict" where
  "stamped fresh stamp ev =
     (let ev1 = (if dhas ev ''id'' then ev else dict_put ev ''id'' (JStr fresh))
      in if dhas ev1 ''timestamp'' then ev1 else dict_put ev1 ''timestamp'' (JStr stamp))"

definition save_chat_event :: "string \<Rightarrow> string \<Rightarrow> string \<Rightarrow> dict \<Rightarrow> chat_store \<Rightarrow> unit py \<times> chat_store" where
  "save_chat_event fresh stamp sid ev0 s =
     (let ev = stamped fresh stamp ev0;
          s1 = s\<lparr>cs_files := (cs_files s)(sid := cs_files s sid @ [ev])\<rparr>
      in case cs_cache s1 sid of
           None \<Rightarrow> (Inr (), s1)
         | Some evs \<Rightarrow>
             (let s2 = s1\<lparr>cs_cache := (cs_cache s1)(sid \<mapsto> evs @ [ev])\<rparr>
              in case cs_folds s2 sid of
                   None \<Rightarrow> (Inl KeyError, s2)
                 | Some f \<Rightarrow>
                     (case absorb ev f of
                        Inl e \<Rightarrow> (Inl e, s2)
                      | Inr f' \<Rightarrow> (Inr (), s2\<lparr>cs_folds := (cs_folds s2)(sid \<mapsto> f')\<rparr>))))"

text \<open>
  The two halves of a save, on either side of its \<open>await\<close>. Everything else here takes a save as one
  step; \<open>load_inside_a_save_doubles\<close> is what a load between the halves does.
\<close>

definition append_chat_line :: "string \<Rightarrow> dict \<Rightarrow> chat_store \<Rightarrow> chat_store" where
  "append_chat_line sid ev s = s\<lparr>cs_files := (cs_files s)(sid := cs_files s sid @ [ev])\<rparr>"

definition sync_chat_cache :: "string \<Rightarrow> dict \<Rightarrow> chat_store \<Rightarrow> unit py \<times> chat_store" where
  "sync_chat_cache sid ev s =
     (case cs_cache s sid of
        None \<Rightarrow> (Inr (), s)
      | Some evs \<Rightarrow>
          (let s2 = s\<lparr>cs_cache := (cs_cache s)(sid \<mapsto> evs @ [ev])\<rparr>
           in case cs_folds s2 sid of
                None \<Rightarrow> (Inl KeyError, s2)
              | Some f \<Rightarrow>
                  (case absorb ev f of
                     Inl e \<Rightarrow> (Inl e, s2)
                   | Inr f' \<Rightarrow> (Inr (), s2\<lparr>cs_folds := (cs_folds s2)(sid \<mapsto> f')\<rparr>))))"

lemma save_in_halves:
  "save_chat_event fresh stamp sid ev0 s =
     (let ev = stamped fresh stamp ev0 in sync_chat_cache sid ev (append_chat_line sid ev s))"
  by (simp add: save_chat_event_def sync_chat_cache_def append_chat_line_def Let_def)

definition load_chat_events :: "string \<Rightarrow> chat_store \<Rightarrow> dict list py \<times> chat_store" where
  "load_chat_events sid s =
     (case cs_cache s sid of
        Some evs \<Rightarrow> (Inr evs, s)
      | None \<Rightarrow>
          (let s1 = s\<lparr>cs_cache := (cs_cache s)(sid \<mapsto> cs_files s sid)\<rparr>
           in case build_fold (cs_files s sid) of
                Inl e \<Rightarrow> (Inl e, s1)
              | Inr f \<Rightarrow> (Inr (cs_files s sid), s1\<lparr>cs_folds := (cs_folds s1)(sid \<mapsto> f)\<rparr>)))"

definition clear_cache :: "string \<Rightarrow> chat_store \<Rightarrow> chat_store" where
  "clear_cache sid s = s\<lparr>cs_cache := (cs_cache s)(sid := None), cs_folds := (cs_folds s)(sid := None)\<rparr>"

lemma load_files: "cs_files (snd (load_chat_events s st)) = cs_files st"
  by (simp add: load_chat_events_def Let_def split: option.split sum.split)

lemma load_inside_a_save_doubles:
  assumes "cs_cache s sid = None" "load_chat_events sid (append_chat_line sid ev s) = (Inr evs, s1)"
  shows "cs_cache (snd (sync_chat_cache sid ev s1)) sid = Some (cs_files (snd (sync_chat_cache sid ev s1)) sid @ [ev])"
  using assms
  by (auto simp: load_chat_events_def append_chat_line_def sync_chat_cache_def Let_def split: option.splits sum.splits)

definition peek_cached_events :: "string \<Rightarrow> chat_store \<Rightarrow> dict list option" where
  "peek_cached_events sid s = cs_cache s sid"

definition cached_event_count :: "string \<Rightarrow> chat_store \<Rightarrow> nat py" where
  "cached_event_count sid s = (case cs_cache s sid of None \<Rightarrow> Inl KeyError | Some evs \<Rightarrow> Inr (length evs))"

text \<open>
  The judgments of the session manager: the cache is warmed first, then the fold is read; a
  missing fold raises.
\<close>

definition finalize_summary_present :: "string \<Rightarrow> string \<Rightarrow> chat_store \<Rightarrow> bool py \<times> chat_store" where
  "finalize_summary_present sid tid s =
     (case load_chat_events sid s of
        (Inl e, s') \<Rightarrow> (Inl e, s')
      | (Inr _, s') \<Rightarrow> (case cs_folds s' sid of None \<Rightarrow> Inl KeyError | Some f \<Rightarrow> Inr (fold_summary_present f tid), s'))"

definition finalize_master_woke :: "string \<Rightarrow> string \<Rightarrow> chat_store \<Rightarrow> bool py \<times> chat_store" where
  "finalize_master_woke sid tid s =
     (case load_chat_events sid s of
        (Inl e, s') \<Rightarrow> (Inl e, s')
      | (Inr _, s') \<Rightarrow> (case cs_folds s' sid of None \<Rightarrow> Inl KeyError | Some f \<Rightarrow> Inr (fold_master_woke f tid), s'))"

subsection \<open>The summary of a worker's log\<close>

definition summary_event_limit :: int where "summary_event_limit = 80"

text \<open>\<open>str(v)[:n]\<close>, given how containers and floats print.\<close>

definition str_cut :: "(json \<Rightarrow> string) \<Rightarrow> nat \<Rightarrow> json \<Rightarrow> string" where
  "str_cut other n v = str_take n (py_str other v)"

definition tool_part :: "(json \<Rightarrow> string) \<Rightarrow> json \<Rightarrow> string option" where
  "tool_part other b =
     (case b of
        JObj d \<Rightarrow> if dget d ''type'' = JStr ET_TOOL_USE
                  then Some (''[tool_use: '' @ py_str other (dget_or d ''name'' (JStr ''?'')) @ '']'') else None
      | _ \<Rightarrow> None)"

definition assistant_content :: "(json \<Rightarrow> string) \<Rightarrow> dict \<Rightarrow> string py" where
  "assistant_content other ev =
     (let msg = (case dget ev ''message'' of JObj d \<Rightarrow> d | _ \<Rightarrow> [])
      in py_bind (extract_text_from_message (JObj msg)) (\<lambda>txt.
           let blocks = (case dget msg ''content'' of JArr bs \<Rightarrow> bs | _ \<Rightarrow> []);
               parts = (if txt \<noteq> [] then [txt] else []) @ List.map_filter (tool_part other) blocks
           in Inr (str_take 300 (py_join '' '' parts))))"

definition plain_types :: "string list" where
  "plain_types = [ET_THINKING, ET_ERROR, ''complete'', ET_TOOL_RESULT, ET_TOOL_USE, ''file_write'']"

text \<open>The type of an event that has none is the text "unknown".\<close>

definition extract_event_content :: "(json \<Rightarrow> string) \<Rightarrow> dict \<Rightarrow> json \<Rightarrow> string py" where
  "extract_event_content other ev ev_type =
     (if ev_type = JStr ET_RESULT then Inr (str_cut other 500 (dget_or ev ''result'' (JStr [])))
      else if ev_type = JStr ET_ASSISTANT then assistant_content other ev
      else if ev_type = JStr ''rate_limit_event''
      then (case dget_or ev ''rate_limit_info'' (JObj []) of
              JObj rli \<Rightarrow> Inr (''Rate limit '' @ py_str other (dget_or rli ''status'' (JStr ''unknown'')) @ '' ('' @
                py_str other (dget_or rli ''rateLimitType'' (JStr ''unknown'')) @ '')'')
            | _ \<Rightarrow> Inl AttributeError)
      else if (\<exists>t \<in> set plain_types. ev_type = JStr t)
      then (let content = dget_or ev ''content'' (dget_or ev ''message'' (JStr []))
            in case content of
                 JArr bs \<Rightarrow> py_bind (extract_text_from_message (JObj [(''content'', JArr bs)])) (\<lambda>t. Inr (str_take 200 t))
               | _ \<Rightarrow> Inr (str_cut other 200 content))
      else Inr [])"

text \<open>A parsed value that is no object has no \<open>get\<close>.\<close>

fun as_dict :: "json \<Rightarrow> dict py" where
  "as_dict (JObj d) = Inr d"
| "as_dict _ = Inl AttributeError"

fun summary_parts :: "(json \<Rightarrow> string) \<Rightarrow> json list \<Rightarrow> string list py" where
  "summary_parts other [] = Inr []"
| "summary_parts other (v # vs) =
     py_bind (as_dict v) (\<lambda>ev.
       let ev_type = dget_or ev ''type'' (JStr ''unknown'')
       in py_bind (extract_event_content other ev ev_type) (\<lambda>content.
          py_bind (summary_parts other vs) (\<lambda>rest.
            Inr ((if content \<noteq> [] then [''['' @ py_str other ev_type @ ''] '' @ content] else []) @ rest))))"

definition events_summary :: "(json \<Rightarrow> string) \<Rightarrow> json list \<Rightarrow> string py" where
  "events_summary other evs =
     (if evs = [] then Inr ''(no events recorded)''
      else py_bind (summary_parts other evs) (\<lambda>parts.
             Inr (if parts \<noteq> [] then py_join [CHR 0x0A] parts else ''(empty event log)'')))"

definition read_thread_events :: "parser \<Rightarrow> string option \<Rightarrow> json list" where
  "read_thread_events P log = parse_ndjson_tail_parseable P log summary_event_limit"

definition read_events_summary :: "(json \<Rightarrow> string) \<Rightarrow> parser \<Rightarrow> string option \<Rightarrow> string py" where
  "read_events_summary other P log = events_summary other (read_thread_events P log)"

definition worker_locator_summary :: "string \<Rightarrow> string \<Rightarrow> string \<Rightarrow> string" where
  "worker_locator_summary tid status stamp =
     ''Worker `'' @ str_take 8 tid @ ''` | thread `'' @ tid @ ''` | status: '' @ status @ '' | time: '' @ stamp @
     '' | find in Workers panel by thread ID''"

definition thread_worker_event ::
  "string \<Rightarrow> string option \<Rightarrow> string option \<Rightarrow> string \<Rightarrow> string \<Rightarrow> string option \<Rightarrow> string \<Rightarrow> dict" where
  "thread_worker_event tid backend model status full_content content stamp =
     [(''type'', JStr ET_WORKER_SUMMARY), (''thread_id'', JStr tid),
      (''content'', JStr (case content of Some c \<Rightarrow> c | None \<Rightarrow> worker_locator_summary tid status stamp)),
      (''status'', JStr status), (''full_content'', JStr full_content)] @
     (case backend of Some b \<Rightarrow> if b \<noteq> [] then [(''resolved_backend'', JStr b)] else [] | None \<Rightarrow> []) @
     (case model of Some m \<Rightarrow> if m \<noteq> [] then [(''resolved_model'', JStr m)] else [] | None \<Rightarrow> [])"

subsection \<open>The fold answers the scans\<close>

text \<open>An accumulator over a log and what it stands for: the shape of every derived state that is
built on a load and advanced on an append.\<close>

locale log_fold =
  fixes step :: "'e \<Rightarrow> 's \<Rightarrow> 'x + 's" and start :: 's and sound :: "'e list \<Rightarrow> 's \<Rightarrow> bool"
  assumes sound_start: "sound [] start"
    and sound_step: "sound es s \<Longrightarrow> step e s = Inr s' \<Longrightarrow> sound (es @ [e]) s'"
begin

fun run :: "'e list \<Rightarrow> 's \<Rightarrow> 'x + 's" where
  "run [] s = Inr s"
| "run (e # es) s = py_bind (step e s) (run es)"

lemma run_append: "run (es @ es') s = py_bind (run es s) (run es')"
  by (induction es arbitrary: s) (auto simp: py_bind_def split: sum.splits)

lemma run_sound: "sound es s \<Longrightarrow> run es' s = Inr s' \<Longrightarrow> sound (es @ es') s'"
proof (induction es' arbitrary: es s)
  case (Cons e es')
  then obtain s1 where "step e s = Inr s1" "run es' s1 = Inr s'" by (auto simp: py_bind_Inr_iff)
  then show ?case using Cons.IH [of "es @ [e]" s1] Cons.prems(1) sound_step by simp
qed simp

lemma build_sound: "run es start = Inr s \<Longrightarrow> sound es s"
  using run_sound [OF sound_start] by simp

lemma build_snoc: "run es start = Inr s \<Longrightarrow> step e s = Inr s' \<Longrightarrow> run (es @ [e]) start = Inr s'"
  by (simp add: run_append)

end

lemma last_summary_idx_snoc:
  "last_summary_idx (es @ [e]) tid i found =
     (if is_terminal_worker_summary e tid then Some (i + length es) else last_summary_idx es tid i found)"
  by (induction es arbitrary: i found) auto

lemma last_summary_idx_bound:
  "last_summary_idx es tid i found = Some k \<Longrightarrow> k < i + length es \<or> found = Some k"
proof (induction es arbitrary: i found)
  case (Cons e es)
  have "k < Suc i + length es \<or> (if is_terminal_worker_summary e tid then Some i else found) = Some k"
    using Cons.IH [of "Suc i"] Cons.prems by simp
  then show ?case by (auto split: if_splits)
qed simp

lemma last_summary_idx_in: "last_summary_idx es tid 0 None = Some k \<Longrightarrow> k < length es"
  using last_summary_idx_bound [of es tid 0 None k] by simp

lemma last_summary_idx_present: "last_summary_idx es tid 0 None \<noteq> None \<longleftrightarrow> terminal_summary_present es tid"
  by (induction es rule: rev_induct) (auto simp: last_summary_idx_snoc terminal_summary_present_def)

lemma any_py_total:
  "(\<And>x. x \<in> set xs \<Longrightarrow> p x = Inr (q x)) \<Longrightarrow> any_py p xs = Inr (\<exists>x \<in> set xs. q x)"
  by (induction xs) auto

definition typed_event :: "dict \<Rightarrow> bool" where
  "typed_event ev = hashable (dget ev ''type'')"

lemma master_output_typed: "typed_event ev \<Longrightarrow> master_output ev = Inr (is_master_output ev)"
  by (simp add: typed_event_def master_output_def)

lemma summary_not_output: "is_terminal_worker_summary ev tid \<Longrightarrow> \<not> is_master_output ev"
  by (simp add: is_terminal_worker_summary_def is_master_output_def master_output_types_def)

lemma master_woke_snoc:
  assumes "\<forall>ev \<in> set (es @ [e]). typed_event ev" "master_woke_after_summary es tid = Inr w"
  shows "master_woke_after_summary (es @ [e]) tid =
     Inr (if is_terminal_worker_summary e tid then False
          else w \<or> (terminal_summary_present es tid \<and> is_master_output e))"
proof (cases "is_terminal_worker_summary e tid")
  case True
  then show ?thesis by (simp add: master_woke_after_summary_def last_summary_idx_snoc)
next
  case False
  note no = this
  have scan: "any_py master_output xs = Inr (\<exists>x \<in> set xs. is_master_output x)" if "set xs \<subseteq> set (es @ [e])" for xs
    using that assms(1) by (intro any_py_total master_output_typed) auto
  show ?thesis
  proof (cases "last_summary_idx es tid 0 None")
    case None
    then have "\<not> terminal_summary_present es tid" "w = False"
      using last_summary_idx_present [of es tid] assms(2) by (simp_all add: master_woke_after_summary_def)
    then show ?thesis using None no by (simp add: master_woke_after_summary_def last_summary_idx_snoc)
  next
    case (Some k)
    then have k: "k < length es" by (rule last_summary_idx_in)
    have "set (drop (Suc k) es) \<subseteq> set es" by (rule set_drop_subset)
    then have "w = (\<exists>x \<in> set (drop (Suc k) es). is_master_output x)"
      using assms(2) Some scan [of "drop (Suc k) es"] by (auto simp: master_woke_after_summary_def)
    moreover have "drop (Suc k) (es @ [e]) = drop (Suc k) es @ [e]" using k by simp
    moreover have "terminal_summary_present es tid" using Some last_summary_idx_present [of es tid] by simp
    ultimately show ?thesis
      using Some no scan [of "drop (Suc k) (es @ [e])"] set_drop_subset [of "Suc k" "es @ [e]"]
      by (auto simp: master_woke_after_summary_def last_summary_idx_snoc)
  qed
qed

definition fold_stands_for :: "dict list \<Rightarrow> finalize_fold \<Rightarrow> bool" where
  "fold_stands_for es f \<longleftrightarrow>
     (\<forall>ev \<in> set es. typed_event ev) \<and>
     (\<forall>tid m. ff_marks f tid = Some m \<longrightarrow> m \<le> ff_outputs f) \<and>
     (\<forall>tid. fold_summary_present f tid = terminal_summary_present es tid \<and>
            master_woke_after_summary es tid = Inr (fold_master_woke f tid))"

lemma present_snoc:
  "terminal_summary_present (es @ [e]) tid = (terminal_summary_present es tid \<or> is_terminal_worker_summary e tid)"
  by (auto simp: terminal_summary_present_def)

lemma absorb_typed: "absorb e f = Inr f' \<Longrightarrow> typed_event e"
  by (auto simp: absorb_def master_output_def typed_event_def split: if_splits)

lemma absorb_marks_le:
  assumes "absorb e f = Inr f'" "\<forall>tid m. ff_marks f tid = Some m \<longrightarrow> m \<le> ff_outputs f"
  shows "\<forall>tid m. ff_marks f' tid = Some m \<longrightarrow> m \<le> ff_outputs f'"
  using assms absorb_typed [OF assms(1)]
  by (auto simp: absorb_def master_output_typed le_Suc_eq split: if_splits json.splits)

lemma absorb_present:
  assumes "absorb e f = Inr f'"
  shows "fold_summary_present f' tid = (fold_summary_present f tid \<or> is_terminal_worker_summary e tid)"
  using assms absorb_typed [OF assms] summary_not_output [of e tid]
  by (auto simp: absorb_def master_output_typed fold_summary_present_def is_terminal_worker_summary_def
      split: if_splits json.splits)

lemma absorb_woke:
  assumes "absorb e f = Inr f'" "\<forall>tid m. ff_marks f tid = Some m \<longrightarrow> m \<le> ff_outputs f"
  shows "fold_master_woke f' tid =
     (if is_terminal_worker_summary e tid then False
      else fold_master_woke f tid \<or> (fold_summary_present f tid \<and> is_master_output e))"
  using assms absorb_typed [OF assms(1)] summary_not_output [of e tid]
  by (auto simp: absorb_def master_output_typed fold_master_woke_def fold_summary_present_def
      is_terminal_worker_summary_def less_Suc_eq_le split: if_splits json.splits option.splits)

lemma stands_for_step:
  assumes "fold_stands_for es f" "absorb e f = Inr f'"
  shows "fold_stands_for (es @ [e]) f'"
proof -
  have ty: "\<forall>ev \<in> set (es @ [e]). typed_event ev"
    using assms absorb_typed by (auto simp: fold_stands_for_def)
  have le: "\<forall>tid m. ff_marks f tid = Some m \<longrightarrow> m \<le> ff_outputs f"
    using assms(1) by (simp add: fold_stands_for_def)
  have "fold_summary_present f' tid = terminal_summary_present (es @ [e]) tid \<and>
        master_woke_after_summary (es @ [e]) tid = Inr (fold_master_woke f' tid)" for tid
    using assms(1) absorb_present [OF assms(2)] absorb_woke [OF assms(2) le] master_woke_snoc [OF ty, of tid]
    by (simp add: fold_stands_for_def present_snoc)
  then show ?thesis using ty absorb_marks_le [OF assms(2) le] unfolding fold_stands_for_def by blast
qed

lemma stands_for_start: "fold_stands_for [] new_fold"
  by (simp add: fold_stands_for_def new_fold_def fold_summary_present_def fold_master_woke_def
      terminal_summary_present_def master_woke_after_summary_def)

interpretation finalize: log_fold absorb new_fold fold_stands_for
  by unfold_locales (rule stands_for_start, rule stands_for_step)

lemma absorb_all_run: "absorb_all es = finalize.run es"
proof
  show "absorb_all es f = finalize.run es f" for f
    by (induction es arbitrary: f) (auto simp: py_bind_def split: sum.splits)
qed

lemma build_fold_run: "build_fold es = finalize.run es new_fold"
  by (simp add: build_fold_def absorb_all_run)

lemma build_fold_sound: "build_fold es = Inr f \<Longrightarrow> fold_stands_for es f"
  unfolding build_fold_run by (rule finalize.build_sound)

lemma absorb_total: "typed_event e \<Longrightarrow> \<exists>f'. absorb e f = Inr f'"
  by (auto simp: absorb_def master_output_typed split: json.splits)

lemma build_fold_total: "\<forall>ev \<in> set es. typed_event ev \<Longrightarrow> \<exists>f. build_fold es = Inr f"
proof (induction es rule: rev_induct)
  case (snoc e es)
  then obtain f f' where "build_fold es = Inr f" "absorb e f = Inr f'"
    using absorb_total [of e] by (metis UnCI list.set_intros(1) set_append)
  then show ?case using finalize.build_snoc by (auto simp: build_fold_run)
qed (simp add: build_fold_def)

subsection \<open>The store keeps file, cache and fold together\<close>

text \<open>What can happen to a session's log; \<open>Rotate\<close> is a rewrite of the file, which drops the cache.\<close>

datatype log_op =
    Save string string string dict | Load string | Clear string | Rotate string "dict list"

fun log_step :: "log_op \<Rightarrow> chat_store \<Rightarrow> chat_store" where
  "log_step (Save i t sid ev) s = snd (save_chat_event i t sid ev s)"
| "log_step (Load sid) s = snd (load_chat_events sid s)"
| "log_step (Clear sid) s = clear_cache sid s"
| "log_step (Rotate sid evs) s = clear_cache sid (s\<lparr>cs_files := (cs_files s)(sid := evs)\<rparr>)"

fun op_typed :: "log_op \<Rightarrow> bool" where
  "op_typed (Save i t sid ev) = typed_event ev"
| "op_typed (Rotate sid evs) = (\<forall>ev \<in> set evs. typed_event ev)"
| "op_typed _ = True"

definition session_coherent :: "chat_store \<Rightarrow> string \<Rightarrow> bool" where
  "session_coherent s sid \<longleftrightarrow>
     (\<forall>ev \<in> set (cs_files s sid). typed_event ev) \<and>
     (case cs_cache s sid of
        None \<Rightarrow> cs_folds s sid = None
      | Some evs \<Rightarrow> evs = cs_files s sid \<and>
          (\<exists>f. cs_folds s sid = Some f \<and> build_fold (cs_files s sid) = Inr f))"

definition store_coherent :: "chat_store \<Rightarrow> bool" where
  "store_coherent s = (\<forall>sid. session_coherent s sid)"

lemma stamped_typed: "typed_event (stamped i t ev) = typed_event ev"
  by (simp add: typed_event_def stamped_def Let_def)

lemma coherent_other:
  assumes "session_coherent s sid" "cs_files s' sid = cs_files s sid"
    "cs_cache s' sid = cs_cache s sid" "cs_folds s' sid = cs_folds s sid"
  shows "session_coherent s' sid"
  using assms by (cases "cs_cache s sid") (simp_all add: session_coherent_def)

lemma save_coherent:
  assumes "session_coherent s sid" "typed_event ev"
  shows "session_coherent (snd (save_chat_event i t sid ev s)) sid \<and>
         fst (save_chat_event i t sid ev s) = Inr ()"
proof (cases "cs_cache s sid")
  case None
  then show ?thesis using assms
    by (auto simp: session_coherent_def save_chat_event_def Let_def stamped_typed)
next
  case (Some evs)
  let ?e = "stamped i t ev"
  obtain f where f: "evs = cs_files s sid" "cs_folds s sid = Some f" "build_fold (cs_files s sid) = Inr f"
    using assms(1) Some by (auto simp: session_coherent_def)
  obtain f' where f': "absorb ?e f = Inr f'" using absorb_total stamped_typed assms(2) by blast
  have "build_fold (cs_files s sid @ [?e]) = Inr f'"
    using f(3) f' finalize.build_snoc by (simp add: build_fold_run)
  then show ?thesis using assms Some f f'
    by (auto simp: session_coherent_def save_chat_event_def Let_def stamped_typed)
qed

lemma save_other: "sid' \<noteq> sid \<Longrightarrow>
    cs_files (snd (save_chat_event i t sid ev s)) sid' = cs_files s sid' \<and>
    cs_cache (snd (save_chat_event i t sid ev s)) sid' = cs_cache s sid' \<and>
    cs_folds (snd (save_chat_event i t sid ev s)) sid' = cs_folds s sid'"
  by (simp add: save_chat_event_def Let_def split: option.split sum.split)

lemma load_coherent:
  assumes "session_coherent s sid"
  shows "session_coherent (snd (load_chat_events sid s)) sid \<and>
    fst (load_chat_events sid s) = Inr (cs_files s sid) \<and>
    cs_files (snd (load_chat_events sid s)) = cs_files s \<and>
    (\<exists>f. cs_folds (snd (load_chat_events sid s)) sid = Some f \<and> build_fold (cs_files s sid) = Inr f)"
proof (cases "cs_cache s sid")
  case None
  obtain f where "build_fold (cs_files s sid) = Inr f"
    using build_fold_total assms by (auto simp: session_coherent_def)
  then show ?thesis using None assms by (auto simp: session_coherent_def load_chat_events_def Let_def)
next
  case (Some evs)
  then show ?thesis using assms by (auto simp: session_coherent_def load_chat_events_def)
qed

lemma load_other: "sid' \<noteq> sid \<Longrightarrow>
    cs_files (snd (load_chat_events sid s)) sid' = cs_files s sid' \<and>
    cs_cache (snd (load_chat_events sid s)) sid' = cs_cache s sid' \<and>
    cs_folds (snd (load_chat_events sid s)) sid' = cs_folds s sid'"
  by (simp add: load_chat_events_def Let_def split: option.split sum.split)

lemma log_step_coherent:
  assumes "store_coherent s" "op_typed op"
  shows "store_coherent (log_step op s)"
  unfolding store_coherent_def
proof
  fix sid
  have c: "session_coherent s sid" using assms(1) by (simp add: store_coherent_def)
  show "session_coherent (log_step op s) sid"
  proof (cases op)
    case (Save i t x ev)
    show ?thesis
    proof (cases "x = sid")
      case True
      then show ?thesis using Save c assms(2) save_coherent by simp
    next
      case False
      then have "sid \<noteq> x" by simp
      then show ?thesis using coherent_other [OF c] save_other Save by simp
    qed
  next
    case (Load x)
    show ?thesis
    proof (cases "x = sid")
      case True
      then show ?thesis using Load c load_coherent by simp
    next
      case False
      then have "sid \<noteq> x" by simp
      then show ?thesis using coherent_other [OF c] load_other Load by simp
    qed
  next
    case (Clear x)
    show ?thesis
    proof (cases "x = sid")
      case True
      then show ?thesis using Clear c by (simp add: session_coherent_def clear_cache_def)
    next
      case False
      then show ?thesis using Clear by (intro coherent_other [OF c]) (simp_all add: clear_cache_def)
    qed
  next
    case (Rotate x evs)
    show ?thesis
    proof (cases "x = sid")
      case True
      then show ?thesis using Rotate assms(2) by (simp add: session_coherent_def clear_cache_def)
    next
      case False
      then show ?thesis using Rotate by (intro coherent_other [OF c]) (simp_all add: clear_cache_def)
    qed
  qed
qed

lemma log_run_coherent:
  "store_coherent s \<Longrightarrow> \<forall>op \<in> set ops. op_typed op \<Longrightarrow> store_coherent (fold log_step ops s)"
  by (induction ops arbitrary: s) (auto simp: log_step_coherent)

definition empty_store :: chat_store where
  "empty_store = \<lparr>cs_files = (\<lambda>_. []), cs_cache = Map.empty, cs_folds = Map.empty\<rparr>"

lemma empty_store_coherent: "store_coherent empty_store"
  by (simp add: store_coherent_def session_coherent_def empty_store_def)

lemma judged_on_file:
  assumes "session_coherent s sid"
  shows "fst (finalize_summary_present sid tid s) = Inr (terminal_summary_present (cs_files s sid) tid)"
    "fst (finalize_master_woke sid tid s) = master_woke_after_summary (cs_files s sid) tid"
proof -
  obtain f where f: "cs_folds (snd (load_chat_events sid s)) sid = Some f" "build_fold (cs_files s sid) = Inr f"
    using load_coherent [OF assms] by blast
  have ok: "fst (load_chat_events sid s) = Inr (cs_files s sid)" using load_coherent [OF assms] by blast
  have st: "fold_stands_for (cs_files s sid) f" using f(2) by (rule build_fold_sound)
  show "fst (finalize_summary_present sid tid s) = Inr (terminal_summary_present (cs_files s sid) tid)"
    using f(1) ok st by (auto simp: finalize_summary_present_def fold_stands_for_def split: prod.split sum.split)
  show "fst (finalize_master_woke sid tid s) = master_woke_after_summary (cs_files s sid) tid"
    using f(1) ok st by (auto simp: finalize_master_woke_def fold_stands_for_def split: prod.split sum.split)
qed

text \<open>
  C7. The cached judgments are the scans: after any sequence of appends, reads, cache drops and
  file rewrites whose events have a hashable type, both finalize judgments answer, without an
  error, what a scan of the session's whole file answers.
\<close>

theorem cached_judgments_are_the_scans:
  assumes "\<forall>op \<in> set ops. op_typed op" "s = fold log_step ops empty_store"
  shows "fst (finalize_summary_present sid tid s) = Inr (terminal_summary_present (cs_files s sid) tid) \<and>
         fst (finalize_master_woke sid tid s) = master_woke_after_summary (cs_files s sid) tid \<and>
         (\<exists>b. master_woke_after_summary (cs_files s sid) tid = Inr b)"
proof -
  have c: "session_coherent s sid"
    using log_run_coherent [OF empty_store_coherent assms(1)] assms(2) by (simp add: store_coherent_def)
  obtain f where "build_fold (cs_files s sid) = Inr f" using load_coherent [OF c] by blast
  then have "fold_stands_for (cs_files s sid) f" by (rule build_fold_sound)
  then show ?thesis using judged_on_file [OF c] by (auto simp: fold_stands_for_def)
qed

definition demo_log_ops :: "log_op list" where
  "demo_log_ops =
     [Save ''1'' ''t'' ''s'' [(''type'', JStr ET_WORKER_SUMMARY), (''thread_id'', JStr ''w''), (''status'', JStr ''completed'')],
      Load ''s'',
      Save ''2'' ''t'' ''s'' [(''type'', JStr ET_MASTER_DONE)]]"

theorem cached_judgments_are_the_scans_witness:
  "fst (finalize_summary_present ''s'' ''w'' (fold log_step demo_log_ops empty_store)) = Inr True \<and>
   fst (finalize_master_woke ''s'' ''w'' (fold log_step demo_log_ops empty_store)) = Inr True"
  using cached_judgments_are_the_scans [of demo_log_ops "fold log_step demo_log_ops empty_store" "''s''" "''w''"]
  by (simp add: demo_log_ops_def typed_event_def empty_store_def save_chat_event_def load_chat_events_def
      stamped_def dhas_def Let_def build_fold_def absorb_def master_output_def is_master_output_def
      master_output_types_def is_terminal_worker_summary_def new_fold_def terminal_summary_present_def
      master_woke_after_summary_def dget_def)

end
