(* ===== verification/Session_World.thy ===== *)
theory Session_World
  imports Finalize_Effects Backends
begin

text \<open>
  The state a finished worker's completion acts on, and the session operations it goes through:
  succession (\<open>SessionManager.resolve_successor_chain\<close>, \<open>deliver_to_successor\<close> of
  \<open>src/core/sessions.py\<close>), threads (\<open>src/core/threads.py\<close>) and the wake of the master
  (\<open>src/core/master_trigger.py\<close>).

  An \<open>act\<close> runs until it returns, raises, or the server is killed. Every durable write takes
  one unit of \<open>w_budget\<close>; a server whose budget is used up is killed at its next write, so a
  theorem about all budgets is one about a kill between any two writes.
\<close>

subsection \<open>Acts\<close>

datatype 'a outcome = Val 'a | Exc string | Killed

datatype thread_status = T_IDLE | T_RUNNING | T_COMPLETED | T_FAILED | T_CANCELLED

record thread =
  th_id :: string
  th_description :: string
  th_status :: thread_status
  th_completed_at :: "int option"
  th_exit_code :: "int option"
  th_branch :: "string option"
  th_base_branch :: "string option"
  th_repo :: "string option"
  th_worktree :: "string option"
  th_review_of :: "string option"
  th_context :: "string option"
  th_backend :: "string option"
  th_model :: "string option"
  th_require_review :: bool
  th_skip_cleanup :: bool
  th_keep_worktree :: bool
  th_tried :: "string list"
  th_chain_root :: "string option"
  th_step_index :: "int option"

record session =
  sm_id :: string
  sm_archived :: bool
  sm_unread :: bool
  sm_backend :: string
  sm_scheduled :: "string option"
  sm_successor :: "string option"
  sm_last_run :: "string option"
  sm_cc_session :: "string option"
  sm_cc_started :: "int option"
  sm_archive_offset :: nat

record spawn =
  sp_session :: string
  sp_thread :: string
  sp_repo :: "string option"
  sp_prompt :: "string option"
  sp_backend :: string
  sp_model :: "string option"

record world =
  w_store :: chat_store
  w_archive :: "string \<Rightarrow> dict list"
  w_sessions :: "string \<rightharpoonup> session"
  w_threads :: "string \<Rightarrow> thread list"
  w_worktrees :: "string set"
  w_spawned :: "spawn list"
  w_wakes :: "(string \<times> string) list"
  w_telegrams :: "string list"
  w_clock :: nat
  w_budget :: "nat option"

type_synonym 'a act = "world \<Rightarrow> 'a outcome \<times> world"

definition ret :: "'a \<Rightarrow> 'a act" where
  "ret a = (\<lambda>w. (Val a, w))"

definition raise :: "string \<Rightarrow> 'a act" where
  "raise msg = (\<lambda>w. (Exc msg, w))"

definition bind :: "'a act \<Rightarrow> ('a \<Rightarrow> 'b act) \<Rightarrow> 'b act" where
  "bind m f = (\<lambda>w. case m w of (Val a, w') \<Rightarrow> f a w' | (Exc msg, w') \<Rightarrow> (Exc msg, w') | (Killed, w') \<Rightarrow> (Killed, w'))"

definition seq :: "'a act \<Rightarrow> 'b act \<Rightarrow> 'b act" where
  "seq m k = bind m (\<lambda>_. k)"

text \<open>\<open>try: m except Exception as e: h(e)\<close>; a kill is not an exception.\<close>

definition try_except :: "'a act \<Rightarrow> (string \<Rightarrow> 'a act) \<Rightarrow> 'a act" where
  "try_except m h = (\<lambda>w. case m w of (Exc msg, w') \<Rightarrow> h msg w' | r \<Rightarrow> r)"

definition read :: "(world \<Rightarrow> 'a) \<Rightarrow> 'a act" where
  "read f = (\<lambda>w. (Val (f w), w))"

text \<open>A durable write; a mark that is no write (what the model records of the outside world).\<close>

definition durable :: "(world \<Rightarrow> world) \<Rightarrow> unit act" where
  "durable f = (\<lambda>w. case w_budget w of
                     None \<Rightarrow> (Val (), f w)
                   | Some 0 \<Rightarrow> (Killed, w)
                   | Some (Suc n) \<Rightarrow> (Val (), f (w\<lparr>w_budget := Some n\<rparr>)))"

definition ghost :: "(world \<Rightarrow> world) \<Rightarrow> unit act" where
  "ghost f = (\<lambda>w. (Val (), f w))"

definition when_act :: "bool \<Rightarrow> unit act \<Rightarrow> unit act" where
  "when_act b m = (if b then m else ret ())"

fun for_each :: "'a list \<Rightarrow> ('a \<Rightarrow> unit act) \<Rightarrow> unit act" where
  "for_each [] f = ret ()"
| "for_each (x # xs) f = seq (f x) (for_each xs f)"

subsection \<open>What is outside\<close>

text \<open>
  \<open>e_text\<close> is the interpreter's text of a built-in exception, \<open>e_show\<close> its print of containers
  and floats; \<open>e_id\<close>, \<open>e_now\<close>, \<open>e_iso\<close>, \<open>e_summary_time\<close> are the generators of ids and the prints of times at a clock reading;
  \<open>e_stamp\<close> parses an ISO time. \<open>e_log\<close> is the content of a thread's \<open>events.jsonl\<close>. The git
  command line answers \<open>e_remove\<close> (an error text, or whether the removal worked) and
  \<open>e_current_branch\<close>; \<open>e_telegram\<close> is a failing send. \<open>e_turn\<close> is a turn of the master's CLI on a
  session, its prompt and the resumed conversation: the events it leaves in the chat and how it
  ends. \<open>e_wall\<close> and \<open>e_utc\<close> convert between UTC and the house time zone's wall clock.
\<close>

record env =
  e_cfg :: config
  e_parser :: parser
  e_text :: "py_error \<Rightarrow> string"
  e_show :: "json \<Rightarrow> string"
  e_id :: "nat \<Rightarrow> string"
  e_now :: "nat \<Rightarrow> int"
  e_iso :: "int \<Rightarrow> string"
  e_summary_time :: "int \<Rightarrow> string"
  e_stamp :: "json \<Rightarrow> int py"
  e_log :: "string \<Rightarrow> string \<Rightarrow> string option"
  e_sessions_dir :: string
  e_principles :: string
  e_remove :: "string \<Rightarrow> string + bool"
  e_current_branch :: "string \<Rightarrow> string + string"
  e_telegram :: "string \<Rightarrow> string option"
  e_turn :: "string \<Rightarrow> string \<Rightarrow> string option \<Rightarrow> dict list \<times> (string + string option)"
  e_wall :: "int \<Rightarrow> int"
  e_utc :: "int \<Rightarrow> int"

definition lift_py :: "env \<Rightarrow> 'a py \<Rightarrow> 'a act" where
  "lift_py E r = (case r of Inr a \<Rightarrow> ret a
                     | Inl (ValueError msg) \<Rightarrow> raise msg
                     | Inl e \<Rightarrow> raise (e_text E e))"

definition tick :: "nat act" where
  "tick = (\<lambda>w. (Val (w_clock w), w\<lparr>w_clock := Suc (w_clock w)\<rparr>))"

subsection \<open>The chat file\<close>

text \<open>
  \<open>persist_and_broadcast\<close>: the cache is primed before the append. What the live views make of
  the event (\<open>Message_Aggregator\<close>) and the sockets are left out.
\<close>

definition store_load :: "env \<Rightarrow> string \<Rightarrow> dict list act" where
  "store_load E sid = (\<lambda>w. let (r, s) = load_chat_events sid (w_store w) in lift_py E r (w\<lparr>w_store := s\<rparr>))"

definition store_save :: "env \<Rightarrow> string \<Rightarrow> dict \<Rightarrow> unit act" where
  "store_save E sid ev =
     bind tick (\<lambda>n. \<lambda>w.
       case w_budget w of
         Some 0 \<Rightarrow> (Killed, w)
       | b \<Rightarrow> (let (r, s) = save_chat_event (e_id E n) (e_iso E (e_now E n)) sid ev (w_store w)
               in lift_py E r (w\<lparr>w_store := s, w_budget := map_option (\<lambda>k. k - 1) b\<rparr>)))"

definition persist_and_broadcast :: "env \<Rightarrow> string \<Rightarrow> dict \<Rightarrow> unit act" where
  "persist_and_broadcast E sid ev = seq (store_load E sid) (store_save E sid ev)"

definition summary_present :: "env \<Rightarrow> string \<Rightarrow> string \<Rightarrow> bool act" where
  "summary_present E sid tid =
     (\<lambda>w. let (r, s) = finalize_summary_present sid tid (w_store w) in lift_py E r (w\<lparr>w_store := s\<rparr>))"

definition master_woke :: "env \<Rightarrow> string \<Rightarrow> string \<Rightarrow> bool act" where
  "master_woke E sid tid =
     (\<lambda>w. let (r, s) = finalize_master_woke sid tid (w_store w) in lift_py E r (w\<lparr>w_store := s\<rparr>))"

subsection \<open>Sessions and their successors\<close>

definition get_session :: "string \<Rightarrow> session option act" where
  "get_session sid = read (\<lambda>w. w_sessions w sid)"

definition save_session :: "session \<Rightarrow> unit act" where
  "save_session m = durable (\<lambda>w. w\<lparr>w_sessions := (w_sessions w)(sm_id m \<mapsto> m)\<rparr>)"

definition mark_unread :: "string \<Rightarrow> unit act" where
  "mark_unread sid =
     bind (get_session sid) (\<lambda>found.
       case found of
         None \<Rightarrow> ret ()
       | Some m \<Rightarrow> if sm_unread m then ret () else save_session (m\<lparr>sm_unread := True\<rparr>))"

definition unarchive_session :: "string \<Rightarrow> unit act" where
  "unarchive_session sid =
     bind (get_session sid) (\<lambda>found.
       case found of None \<Rightarrow> ret () | Some m \<Rightarrow> save_session (m\<lparr>sm_archived := False\<rparr>))"

definition successor_hop_limit :: nat where "successor_hop_limit = 100"

text \<open>The walk from \<open>current\<close> with so many hops left; \<open>None\<close> is the exception on a cycle.\<close>

fun walk_successors :: "nat \<Rightarrow> (string \<rightharpoonup> session) \<Rightarrow> session \<Rightarrow> session option" where
  "walk_successors left metas current =
     (case sm_successor current of
        None \<Rightarrow> Some current
      | Some s \<Rightarrow>
          (case left of
             0 \<Rightarrow> None
           | Suc left' \<Rightarrow>
               (case metas s of None \<Rightarrow> Some current | Some m \<Rightarrow> walk_successors left' metas m)))"

declare walk_successors.simps [simp del]

definition resolve_successor_chain :: "string \<Rightarrow> session option act" where
  "resolve_successor_chain sid =
     bind (get_session sid) (\<lambda>found.
       case found of
         None \<Rightarrow> ret None
       | Some m \<Rightarrow>
           bind (read (\<lambda>w. walk_successors successor_hop_limit (w_sessions w) m)) (\<lambda>r.
             case r of
               None \<Rightarrow> raise (''successor chain from '' @ sid @ '' exceeds '' @
                               int_str (int successor_hop_limit) @ '' hops; aborting to avoid a cycle'')
             | Some tail \<Rightarrow> ret (Some tail)))"

text \<open>
  \<open>deliver_to_successor\<close>, with so many attempts left: resolve, lock the tail, read it again, and
  start over when it has a successor. The result is the session written to.
\<close>

fun deliver_attempts :: "env \<Rightarrow> nat \<Rightarrow> string \<Rightarrow> dict \<Rightarrow> string option act" where
  "deliver_attempts E 0 sid ev =
     raise (''deliver_to_successor from '' @ sid @ '' retried '' @
            int_str (int successor_hop_limit) @ '' times; aborting to avoid a loop'')"
| "deliver_attempts E (Suc n) sid ev =
     bind (resolve_successor_chain sid) (\<lambda>found.
       case found of
         None \<Rightarrow> ret None
       | Some tail \<Rightarrow>
           bind (get_session (sm_id tail)) (\<lambda>fresh.
             case fresh of
               None \<Rightarrow> ret None
             | Some t \<Rightarrow>
                 if sm_successor t \<noteq> None then deliver_attempts E n sid ev
                 else seq (persist_and_broadcast E (sm_id t)
                             (if sm_id t \<noteq> sid then dict_put ev ''origin_session_id'' (JStr sid) else ev))
                          (ret (Some (sm_id t)))))"

definition deliver_to_successor :: "env \<Rightarrow> string \<Rightarrow> dict \<Rightarrow> string option act" where
  "deliver_to_successor E sid ev = deliver_attempts E (Suc successor_hop_limit) sid ev"

lemma attempts_dead:
  assumes "resolve_successor_chain sid w = (Val (Some q), w)" "w_sessions w (sm_id q) = Some q" "sm_successor q \<noteq> None"
  shows "\<exists>msg. deliver_attempts E n sid ev w = (Exc msg, w)"
  using assms by (induction n) (auto simp: raise_def bind_def get_session_def read_def)

text \<open>
  A dead successor stops all deliveries: when the chain of a session ends because its successor
  was deleted, \<open>resolve_successor_chain\<close> answers the last session that exists, but
  \<open>deliver_to_successor\<close> raises and writes nothing, every time.
\<close>

lemma dead_successor_refuses_delivery:
  assumes "w_sessions w sid = Some m" "sm_id m = sid" "sm_successor m = Some s" "w_sessions w s = None"
  shows "resolve_successor_chain sid w = (Val (Some m), w) \<and> (\<exists>msg. deliver_to_successor E sid ev w = (Exc msg, w))"
proof -
  have r: "resolve_successor_chain sid w = (Val (Some m), w)"
    using assms by (simp add: resolve_successor_chain_def get_session_def bind_def read_def ret_def
        successor_hop_limit_def walk_successors.simps)
  moreover have "\<exists>msg. deliver_attempts E (Suc successor_hop_limit) sid ev w = (Exc msg, w)"
    using assms by (intro attempts_dead [OF r]) simp_all
  ultimately show ?thesis by (simp only: deliver_to_successor_def)
qed

subsection \<open>Threads\<close>

definition thread_of :: "world \<Rightarrow> string \<Rightarrow> string \<Rightarrow> thread option" where
  "thread_of w sid tid = find (\<lambda>t. th_id t = tid) (w_threads w sid)"

definition get_thread :: "string \<Rightarrow> string \<Rightarrow> thread option act" where
  "get_thread sid tid = read (\<lambda>w. thread_of w sid tid)"

definition list_threads :: "string \<Rightarrow> thread list act" where
  "list_threads sid = read (\<lambda>w. rev (w_threads w sid))"

text \<open>\<open>w_threads\<close> is in the order of creation, the listing newest first. One file per thread: a
save replaces it, or adds it.\<close>

fun put_thread :: "thread \<Rightarrow> thread list \<Rightarrow> thread list" where
  "put_thread t [] = [t]"
| "put_thread t (u # us) = (if th_id u = th_id t then t # us else u # put_thread t us)"

definition save_thread :: "string \<Rightarrow> thread \<Rightarrow> unit act" where
  "save_thread sid t = durable (\<lambda>w. w\<lparr>w_threads := (w_threads w)(sid := put_thread t (w_threads w sid))\<rparr>)"

definition create_thread :: "env \<Rightarrow> string \<Rightarrow> string \<Rightarrow> string option \<Rightarrow> bool \<Rightarrow> thread act" where
  "create_thread E sid description review_of require_review =
     bind tick (\<lambda>n.
       let t = \<lparr>th_id = e_id E n, th_description = description, th_status = T_IDLE, th_completed_at = None,
                th_exit_code = None, th_branch = None, th_base_branch = None, th_repo = None, th_worktree = None,
                th_review_of = review_of, th_context = None, th_backend = None, th_model = None,
                th_require_review = require_review, th_skip_cleanup = False, th_keep_worktree = False,
                th_tried = [], th_chain_root = None, th_step_index = None\<rparr>
       in seq (save_thread sid t) (ret t))"

definition terminal_status :: "thread_status \<Rightarrow> bool" where
  "terminal_status st = (st = T_COMPLETED \<or> st = T_FAILED \<or> st = T_CANCELLED)"

definition update_status ::
  "env \<Rightarrow> string \<Rightarrow> string \<Rightarrow> thread_status \<Rightarrow> int option \<Rightarrow> int option \<Rightarrow> unit act" where
  "update_status E sid tid st code at =
     bind (get_thread sid tid) (\<lambda>found.
       case found of
         None \<Rightarrow> ret ()
       | Some t \<Rightarrow>
           bind tick (\<lambda>n.
             save_thread sid
               (t\<lparr>th_status := st,
                  th_exit_code := (case code of None \<Rightarrow> th_exit_code t | Some c \<Rightarrow> Some c),
                  th_completed_at :=
                    (if terminal_status st then (case at of None \<Rightarrow> Some (e_now E n) | Some a \<Rightarrow> Some a)
                     else th_completed_at t)\<rparr>)))"

definition spawn_worker :: "spawn \<Rightarrow> unit act" where
  "spawn_worker r = durable (\<lambda>w. w\<lparr>w_spawned := w_spawned w @ [r]\<rparr>)"

subsection \<open>The weekly recycle of a scheduled session\<close>

definition day_us :: int where "day_us = 86400000000"

text \<open>Saturday, one o'clock in the house zone; 1970-01-01 was a Thursday, weekday 3.\<close>

definition last_saturday :: "env \<Rightarrow> int \<Rightarrow> int" where
  "last_saturday E now =
     (let day = e_wall E now div day_us;
          since = ((day + 3) mod 7 - 5) mod 7
      in e_utc E ((day - since) * day_us + 3600000000))"

definition gc_old_threads :: "string \<Rightarrow> int \<Rightarrow> unit act" where
  "gc_old_threads sid cutoff =
     bind (list_threads sid) (\<lambda>ts.
       for_each (filter (\<lambda>t. terminal_status (th_status t) \<and>
                             (case th_completed_at t of None \<Rightarrow> False | Some c \<Rightarrow> c < cutoff)) ts)
         (\<lambda>t. durable (\<lambda>w. w\<lparr>w_threads := (w_threads w)(sid := filter (\<lambda>u. th_id u \<noteq> th_id t) (w_threads w sid))\<rparr>)))"

fun archive_split :: "(json \<Rightarrow> int py) \<Rightarrow> int \<Rightarrow> dict list \<Rightarrow> (dict list \<times> dict list) py" where
  "archive_split stamp cutoff [] = Inr ([], [])"
| "archive_split stamp cutoff (ev # evs) =
     (let ts = dget ev ''timestamp'' in
      if \<not> jtruthy ts then Inr ([], ev # evs)
      else case stamp ts of
             Inl (ValueError _) \<Rightarrow> Inr ([], ev # evs)
           | Inl e \<Rightarrow> Inl e
           | Inr t \<Rightarrow>
               if t < cutoff
               then py_bind (archive_split stamp cutoff evs) (\<lambda>(old, kept). Inr (ev # old, kept))
               else Inr ([], ev # evs))"

text \<open>The head goes to the archive, then the file is rewritten; the answer is how many moved.\<close>

definition archive_old_chat_events :: "env \<Rightarrow> string \<Rightarrow> int \<Rightarrow> nat act" where
  "archive_old_chat_events E sid cutoff =
     bind (read (\<lambda>w. archive_split (e_stamp E) cutoff (cs_files (w_store w) sid))) (\<lambda>r.
     bind (lift_py E r) (\<lambda>(old, kept).
       if old = [] then ret 0
       else seq (durable (\<lambda>w. w\<lparr>w_archive := (w_archive w)(sid := w_archive w sid @ old)\<rparr>))
            (seq (durable (\<lambda>w. w\<lparr>w_store := (w_store w)\<lparr>cs_files := (cs_files (w_store w))(sid := kept)\<rparr>\<rparr>))
                 (ret (length old)))))"

definition recycle_scheduled_session :: "env \<Rightarrow> string \<Rightarrow> int \<Rightarrow> unit act" where
  "recycle_scheduled_session E sid cutoff =
     seq (gc_old_threads sid cutoff)
     (bind (archive_old_chat_events E sid cutoff) (\<lambda>n.
        if n = 0 then ret ()
        else seq (bind (get_session sid) (\<lambda>found.
                    case found of None \<Rightarrow> ret ()
                    | Some m \<Rightarrow> save_session (m\<lparr>sm_archive_offset := sm_archive_offset m + n\<rparr>)))
                 (ghost (\<lambda>w. w\<lparr>w_store := clear_cache sid (w_store w)\<rparr>))))"

subsection \<open>Waking the master\<close>

text \<open>
  \<open>run_message\<close> (its queue is \<open>Master_Queue\<close>): the request is noted, the events of the turn are
  written, and the turn returns its conversation id or raises.
\<close>

definition master_turn :: "env \<Rightarrow> string \<Rightarrow> string \<Rightarrow> string option \<Rightarrow> string option act" where
  "master_turn E sid prompt resume =
     (let (evs, r) = e_turn E sid prompt resume
      in seq (ghost (\<lambda>w. w\<lparr>w_wakes := w_wakes w @ [(sid, prompt)]\<rparr>))
         (seq (for_each evs (persist_and_broadcast E sid))
              (case r of Inl msg \<Rightarrow> raise msg | Inr new \<Rightarrow> ret new)))"

definition lower_char :: "char \<Rightarrow> char" where
  "lower_char c = (let n = (of_char c :: nat) in if 65 \<le> n \<and> n \<le> 90 then char_of (n + 32) else c)"

text \<open>Lowering ASCII letters only is enough: no other letter lowers to one of these words.\<close>

definition is_resume_not_found_error :: "string \<Rightarrow> bool" where
  "is_resume_not_found_error err =
     (let msg = map lower_char err in
      if contains ''no rollout found'' msg \<and> (contains ''thread'' msg \<or> contains ''resume failed'' msg) then True
      else if \<not> contains ''resume'' msg then False
      else (contains ''conversation'' msg \<and> contains ''not found'' msg) \<or>
           (contains ''session'' msg \<and> contains ''not found'' msg))"

definition run_message_with_resume_recovery :: "env \<Rightarrow> session \<Rightarrow> string \<Rightarrow> string option act" where
  "run_message_with_resume_recovery E m summary =
     try_except (master_turn E (sm_id m) summary (sm_cc_session m))
       (\<lambda>e. if \<not> is_resume_not_found_error e then raise e else master_turn E (sm_id m) summary None)"

definition scheduled_prompt :: "string \<Rightarrow> string \<Rightarrow> string" where
  "scheduled_prompt task summary =
     ''[Auto-triggered scheduled task result for '' @ [CHR 0x27] @ task @ [CHR 0x27] @ '']'' @ [CHR 0x0A] @
     ''Review the worker/reviewer results below. Check: was the branch merged? '' @
     ''Are there errors? Summarize the outcome.'' @ [CHR 0x0A, CHR 0x0A] @ summary"

text \<open>The anchor of a scheduled session is dropped once a week, before the run.\<close>

definition weekly_expiry :: "env \<Rightarrow> session \<Rightarrow> session act" where
  "weekly_expiry E m =
     (case (sm_cc_session m, sm_cc_started m) of
        (Some c, Some started) \<Rightarrow>
          if \<not> truthy (sm_scheduled m) \<or> c = [] then ret m
          else bind tick (\<lambda>n.
                 let now = e_now E n; cutoff = last_saturday E now in
                 if started < cutoff \<and> cutoff < now
                 then let m' = m\<lparr>sm_cc_session := None, sm_cc_started := None\<rparr>
                      in seq (save_session m')
                         (seq (try_except (recycle_scheduled_session E (sm_id m) cutoff) (\<lambda>_. ret ())) (ret m'))
                 else ret m)
      | _ \<Rightarrow> ret m)"

definition report_trigger_failure :: "env \<Rightarrow> string \<Rightarrow> string \<Rightarrow> unit act" where
  "report_trigger_failure E sid err =
     try_except
       (persist_and_broadcast E sid
          [(''type'', JStr ET_ERROR), (''message'', JStr (''Failed to notify master agent: '' @ err)),
           (''source'', JStr ''trigger_master'')])
       (\<lambda>_. ret ())"

definition wake_resolved :: "env \<Rightarrow> session \<Rightarrow> string \<Rightarrow> bool \<Rightarrow> unit act" where
  "wake_resolved E resolved summary pull_back =
     (let archived = sm_archived resolved \<and> sm_successor resolved = None in
      if archived \<and> \<not> pull_back then ret ()
      else seq (when_act archived (unarchive_session (sm_id resolved)))
        (bind (get_session (sm_id resolved)) (\<lambda>found.
           case found of
             None \<Rightarrow> ret ()
           | Some m \<Rightarrow>
               bind (weekly_expiry E m) (\<lambda>m'.
                 let prompt = (if \<not> truthy (sm_cc_session m') \<and> truthy (sm_scheduled m')
                               then scheduled_prompt (the (sm_scheduled m')) summary else summary)
                 in seq (run_message_with_resume_recovery E m' prompt) (ret ())))))"

text \<open>A failure before the chain is resolved is reported to the session asked for, a later one to
the resolved session.\<close>

definition trigger_master :: "env \<Rightarrow> string \<Rightarrow> string \<Rightarrow> bool \<Rightarrow> unit act" where
  "trigger_master E sid summary pull_back =
     try_except
       (bind (resolve_successor_chain sid) (\<lambda>found.
          case found of
            None \<Rightarrow> ret ()
          | Some resolved \<Rightarrow>
              try_except (wake_resolved E resolved summary pull_back) (report_trigger_failure E (sm_id resolved))))
       (report_trigger_failure E sid)"

subsection \<open>Concrete surroundings, for the witnesses\<close>

definition demo_env :: env where
  "demo_env =
     \<lparr>e_cfg = demo_config, e_parser = demo_parser, e_text = (\<lambda>_. ''error''), e_show = (\<lambda>_. []), e_id = digits_of,
      e_now = int, e_iso = (\<lambda>_. ''t''), e_summary_time = (\<lambda>_. ''t''), e_stamp = (\<lambda>_. Inr 0), e_log = (\<lambda>_ _. None),
      e_sessions_dir = ''/s'', e_principles = [], e_remove = (\<lambda>_. Inr True), e_current_branch = (\<lambda>_. Inr ''main''),
      e_telegram = (\<lambda>_. None),
      e_turn = (\<lambda>_ _ _. ([[(''type'', JStr ET_MASTER_DONE)]], Inr (Some ''c''))), e_wall = (\<lambda>t. t), e_utc = (\<lambda>t. t)\<rparr>"

definition demo_thread :: "bool \<Rightarrow> string option \<Rightarrow> int option \<Rightarrow> thread" where
  "demo_thread review root step =
     \<lparr>th_id = ''w'', th_description = ''d'', th_status = T_RUNNING, th_completed_at = None, th_exit_code = None,
      th_branch = None, th_base_branch = None, th_repo = None, th_worktree = None, th_review_of = None,
      th_context = None, th_backend = None, th_model = None, th_require_review = review, th_skip_cleanup = False,
      th_keep_worktree = False, th_tried = [], th_chain_root = root, th_step_index = step\<rparr>"

definition demo_session :: "string \<Rightarrow> string option \<Rightarrow> session" where
  "demo_session sid next_id =
     \<lparr>sm_id = sid, sm_archived = False, sm_unread = False, sm_backend = ''a'', sm_scheduled = None,
      sm_successor = next_id, sm_last_run = None, sm_cc_session = None, sm_cc_started = None, sm_archive_offset = 0\<rparr>"

definition demo_world :: "(string \<rightharpoonup> session) \<Rightarrow> thread list \<Rightarrow> world" where
  "demo_world sessions ts =
     \<lparr>w_store = empty_store, w_archive = (\<lambda>_. []), w_sessions = sessions,
      w_threads = (\<lambda>s. if s = ''a'' then ts else []), w_worktrees = {}, w_spawned = [], w_wakes = [],
      w_telegrams = [], w_clock = 0, w_budget = None\<rparr>"

end
