(* ===== verification/Review.thy ===== *)
theory Review
  imports Session_World Verify_Trailer
begin

text \<open>
  \<open>src/core/review.py\<close>: the reviewer of a finished worker's branch, its prompt and its retries, and
  the judged wake of the master; \<open>git_worktree_remove_reporting\<close> of \<open>src/core/git.py\<close>.
\<close>

abbreviation (input) tick_mark :: char where "tick_mark \<equiv> CHR 0x60"

subsection \<open>Judgments and cleanup\<close>

definition reviewer_thread_exists :: "thread list \<Rightarrow> string \<Rightarrow> string option \<Rightarrow> bool" where
  "reviewer_thread_exists ts original exclude =
     (\<exists>t \<in> set ts. th_review_of t = Some original \<and> Some (th_id t) \<noteq> exclude)"

definition trigger_master_judged :: "env \<Rightarrow> string \<Rightarrow> string \<Rightarrow> string \<Rightarrow> unit act" where
  "trigger_master_judged E sid summary tid =
     bind (master_woke E sid tid) (\<lambda>woke. if woke then ret () else trigger_master E sid summary True)"

definition git_worktree_remove_reporting ::
  "env \<Rightarrow> string option \<Rightarrow> string option \<Rightarrow> string option \<Rightarrow> string \<Rightarrow> string \<Rightarrow> string option act" where
  "git_worktree_remove_reporting E repo wt branch owner label =
     (if \<not> truthy repo \<or> \<not> truthy wt then ret None
      else bind (read (\<lambda>w. the wt \<in> w_worktrees w)) (\<lambda>there.
        if \<not> there then ret None
        else if \<not> truthy branch then raise (''owner '' @ owner @ '' has worktree_path but no branch_name'')
        else case e_remove E (the wt) of
               Inl msg \<Rightarrow> ret (Some (label @ '' cleanup failed for '' @ the wt @ '': '' @ msg))
             | Inr False \<Rightarrow> ret (Some (label @ '' cleanup failed for '' @ the wt @ '': git worktree remove reported failure''))
             | Inr True \<Rightarrow> seq (durable (\<lambda>w. w\<lparr>w_worktrees := w_worktrees w - {the wt}\<rparr>)) (ret None)))"

definition finalize_review_chain :: "env \<Rightarrow> string \<Rightarrow> thread \<Rightarrow> string option act" where
  "finalize_review_chain E sid original =
     (if th_keep_worktree original then ret None
      else git_worktree_remove_reporting E (th_repo original) (th_worktree original) (th_branch original)
             (th_id original) ''Review worktree'')"

subsection \<open>What the reviewer is told\<close>

fun first_delegation_description :: "dict list \<Rightarrow> string \<Rightarrow> string option" where
  "first_delegation_description [] tid = None"
| "first_delegation_description (ev # evs) tid =
     (if dget ev ''type'' = JStr ET_TASK_DELEGATED \<and> dget ev ''thread_id'' = JStr tid
      then (case dget ev ''description'' of
              JStr v \<Rightarrow> if str_strip v \<noteq> [] then Some (str_strip v) else None
            | _ \<Rightarrow> None)
      else first_delegation_description evs tid)"

text \<open>The newest result or assistant text that is not blank.\<close>

fun closing_words :: "json list \<Rightarrow> string option py" where
  "closing_words [] = Inr None"
| "closing_words (JObj ev # evs) =
     (if dget ev ''type'' = JStr ET_RESULT
      then (case dget ev ''result'' of
              JStr v \<Rightarrow> if str_strip v \<noteq> [] then Inr (Some (str_strip v)) else closing_words evs
            | _ \<Rightarrow> closing_words evs)
      else if dget ev ''type'' = JStr ET_ASSISTANT
      then py_bind (extract_text_from_message
                      (case dget ev ''message'' of JObj m \<Rightarrow> JObj m | _ \<Rightarrow> JNull)) (\<lambda>t.
             if str_strip t \<noteq> [] then Inr (Some (str_strip t)) else closing_words evs)
      else closing_words evs)"
| "closing_words (_ # evs) = Inl AttributeError"

definition worker_summary_from_events_log :: "parser \<Rightarrow> string option \<Rightarrow> string option py" where
  "worker_summary_from_events_log P log = closing_words (iter_ndjson_events_from_end P log)"

text \<open>Either half may fail on its own; a failure is only logged.\<close>

definition extract_review_context :: "env \<Rightarrow> string \<Rightarrow> string \<Rightarrow> (string option \<times> string option) act" where
  "extract_review_context E sid tid =
     read (\<lambda>w.
       (first_delegation_description (cs_files (w_store w) sid) tid,
        (case worker_summary_from_events_log (e_parser E) (e_log E sid tid) of
           Inr (Some s) \<Rightarrow> Some s | _ \<Rightarrow> None)))"

definition chat_log_path :: "env \<Rightarrow> string \<Rightarrow> string" where
  "chat_log_path E sid = e_sessions_dir E @ ''/'' @ sid @ ''/data/chat_events.jsonl''"

definition worker_log_path :: "env \<Rightarrow> string \<Rightarrow> string \<Rightarrow> string" where
  "worker_log_path E sid tid = e_sessions_dir E @ ''/'' @ sid @ ''/threads/'' @ tid @ ''/data/events.jsonl''"

definition review_context_lines :: "string option \<Rightarrow> string option \<Rightarrow> string option \<Rightarrow> string list" where
  "review_context_lines context user_request worker_summary =
     (if truthy user_request \<or> truthy worker_summary
      then (if truthy user_request then [''**User request:** '' @ the user_request] else []) @
           (if truthy worker_summary then [''**Worker summary:** '' @ the worker_summary] else [])
      else [''*(Log extraction unavailable '' @ [CHR 0xE2, CHR 0x80, CHR 0x94] @
            '' review based on delegator hint and diff only.)*'']) @
     [''**Delegator hint:** '' @ (if truthy context then the context else ''(none provided)'')]"

definition review_checklist :: "string \<Rightarrow> string \<Rightarrow> string \<Rightarrow> string list" where
  "review_checklist branch wt base =
     [''## Review Checklist'',
      ''IMPORTANT: Make minimal changes. Prefer approving the worker'' @ [CHR 0x27] @ ''s code as-is. '' @
      ''Only fix clear bugs, correctness issues, or scope violations. '' @
      ''Do not refactor, restyle, or improve code that is functionally correct.'', [],
      ''If the user request contains task spec sections, read every path listed under '' @ [tick_mark] @
      ''## Source Files'' @ [tick_mark] @ '' before judging the diff. Apply the task spec'' @ [CHR 0x27] @ ''s '' @ [tick_mark] @
      ''## Reviewer Checklist'' @ [tick_mark] @ ''. For control-flow or state-machine tasks, verify the implementation against '' @
      [tick_mark] @ ''## Required Behavior'' @ [tick_mark] @ ''; do not rely only on tests.'', [],
      ''The work is on branch '' @ [tick_mark] @ branch @ [tick_mark] @ '' in worktree '' @ [tick_mark] @ wt @ [tick_mark] @
      ''. All git operations below run from the worktree.'', [],
      ''1. '' @ [tick_mark] @ ''cd '' @ wt @ [tick_mark],
      ''2. Fetch the latest base branch: '' @ [tick_mark] @ ''git fetch origin '' @ base @ [tick_mark],
      ''3. Review the changes: '' @ [tick_mark] @ ''git diff origin/'' @ base @ ''...'' @ branch @ [tick_mark],
      ''4. Verify the changes address the user'' @ [CHR 0x27] @ ''s actual intent (from context research above).'',
      ''5. **Scope check**: Flag any changes NOT requested in the task '' @ [CHR 0xE2, CHR 0x80, CHR 0x94] @
      '' extra flags, altered defaults,'',
      ''   new parameters, behavioral changes. Workers must only do what was asked.'',
      ''6. **Think divergently**: Beyond the diff, consider what could go wrong.'',
      ''   - Do changed values make sense? Cross-check against existing defaults and conventions.'',
      ''   - Are there edge cases, regressions, or interactions with other code the worker missed?'',
      ''   - Would this change surprise someone reading the code for the first time?'',
      ''7. Check for: correctness, bugs, unintended side effects, missing edge cases.'',
      ''8. Style: Google Style, 2-space indent, 120-col (only flag if egregious '' @ [CHR 0xE2, CHR 0x80, CHR 0x94] @
      '' YAPF handles most).'',
      ''9. If you find issues, fix them and commit with descriptive messages.'',
      ''10. Stash untracked/modified files: '' @ [tick_mark] @ ''git stash --include-untracked'' @ [tick_mark],
      ''11. Fetch the latest base branch: '' @ [tick_mark] @ ''git fetch origin '' @ base @ [tick_mark],
      ''12. Rebase onto the remote base: '' @ [tick_mark] @ ''git rebase origin/'' @ base @ [tick_mark],
      ''13. Push to remote base branch from the worktree: '' @ [tick_mark] @ ''git push origin HEAD:'' @ base @ [tick_mark],
      ''14. Verify: '' @ [tick_mark] @ ''git log --oneline -1 HEAD'' @ [tick_mark] @ '' and '' @ [tick_mark] @
      ''git log --oneline -1 origin/'' @ base @ [tick_mark] @ '' must show the same commit.'']"

definition build_review_prompt ::
  "env \<Rightarrow> string \<Rightarrow> string \<Rightarrow> string \<Rightarrow> string \<Rightarrow> string \<Rightarrow> string option \<Rightarrow> string option \<Rightarrow> string option \<Rightarrow> string" where
  "build_review_prompt E branch wt base sid original context user_request worker_summary =
     py_join [newline]
       ([''## Code Review'', ''You are reviewing another worker'' @ [CHR 0x27] @ ''s code changes.'', [], ''## Context'',
         py_join [newline] (review_context_lines context user_request worker_summary), [],
         ''If the summary above is insufficient or you are unsure about intent, read the full logs: Session: '' @
         [tick_mark] @ chat_log_path E sid @ [tick_mark] @ '', Worker: '' @ [tick_mark] @ worker_log_path E sid original @
         [tick_mark], [],
         e_principles E] @ review_checklist branch wt base)"

subsection \<open>Spawning the reviewer\<close>

definition require_thread_backend_model :: "thread \<Rightarrow> config \<Rightarrow> (string \<times> string option) py" where
  "require_thread_backend_model t cfg =
     (let who = ''thread '' @ [CHR 0x27] @ th_id t @ [CHR 0x27] in
      if \<not> truthy (th_backend t) then Inl (ValueError (who @ '' missing backend metadata''))
      else if truthy (th_model t) then Inr (the (th_backend t), th_model t)
      else py_bind (require_backend_option cfg (the (th_backend t)) (who @ '' '')) (\<lambda>opt.
        if backend_type_allows_missing_model (bo_type opt) then Inr (the (th_backend t), None)
        else Inl (ValueError (who @ '' missing model metadata''))))"

definition validate_review_prerequisites :: "string set \<Rightarrow> thread \<Rightarrow> (string \<times> string \<times> string) option" where
  "validate_review_prerequisites dirs t =
     (if \<not> truthy (th_repo t) then None
      else if \<not> truthy (th_branch t) then None
      else if \<not> truthy (th_worktree t) then None
      else if the (th_worktree t) \<notin> dirs then None
      else Some (the (th_repo t), the (th_branch t), the (th_worktree t)))"

record review_spawn =
  rs_repo :: string
  rs_branch :: string
  rs_wt :: string
  rs_base :: string
  rs_backend :: string
  rs_model :: "string option"
  rs_tried :: "string list"

definition resolve_review_spawn_context :: "env \<Rightarrow> thread \<Rightarrow> string list \<Rightarrow> review_spawn option act" where
  "resolve_review_spawn_context E t tried =
     (if length tried > length (cf_preference (e_cfg E)) then ret None
      else bind (read (\<lambda>w. validate_review_prerequisites (w_worktrees w) t)) (\<lambda>pre.
        case pre of
          None \<Rightarrow> ret None
        | Some (repo, branch, wt) \<Rightarrow>
            bind (if truthy (th_base_branch t) then ret (the (th_base_branch t))
                  else case e_current_branch E repo of Inl msg \<Rightarrow> raise msg | Inr b \<Rightarrow> ret b) (\<lambda>base.
            bind (lift_py E (require_thread_backend_model t (e_cfg E))) (\<lambda>(b, m).
              case select_reviewer_backend (e_cfg E) b m tried of
                None \<Rightarrow> ret None
              | Some (rb, rm, tried') \<Rightarrow>
                  ret (Some \<lparr>rs_repo = repo, rs_branch = branch, rs_wt = wt, rs_base = base,
                             rs_backend = rb, rs_model = rm, rs_tried = tried'\<rparr>)))))"

text \<open>\<open>description.split("\n", 1)[0].strip()\<close>, cut to 120 characters.\<close>

definition short_desc :: "string \<Rightarrow> string" where
  "short_desc d =
     (let line = str_strip (hd (split_on newline d))
      in if str_len line > 120 then str_take 120 line @ ''...'' else line)"

definition spawn_review_worker ::
  "env \<Rightarrow> string \<Rightarrow> thread \<Rightarrow> string list \<Rightarrow> string option \<Rightarrow> bool act" where
  "spawn_review_worker E sid original tried exclude =
     bind (list_threads sid) (\<lambda>ts.
       if reviewer_thread_exists ts (th_id original) exclude then ret True
       else bind (resolve_review_spawn_context E original tried) (\<lambda>found.
         case found of
           None \<Rightarrow> ret False
         | Some c \<Rightarrow>
             bind (extract_review_context E sid (th_id original)) (\<lambda>(user_request, worker_summary).
               let prompt = build_review_prompt E (rs_branch c) (rs_wt c) (rs_base c) sid (th_id original)
                              (th_context original) user_request worker_summary
               in bind (get_session sid) (\<lambda>meta.
                    case meta of
                      None \<Rightarrow> ret False
                    | Some m \<Rightarrow>
                        bind (create_thread E (sm_id m)
                                (''Review: '' @ (if truthy (th_context original) then the (th_context original)
                                                 else short_desc (th_description original)))
                                (Some (th_id original)) True) (\<lambda>r.
                        seq (save_thread sid (r\<lparr>th_branch := Some (rs_branch c), th_repo := Some (rs_repo c),
                                                th_worktree := Some (rs_wt c), th_tried := rs_tried c\<rparr>))
                        (seq (spawn_worker \<lparr>sp_session = sid, sp_thread = th_id r, sp_repo = Some (rs_repo c),
                                            sp_prompt = Some prompt, sp_backend = rs_backend c,
                                            sp_model = rs_model c\<rparr>)
                             (ret True)))))))"

definition retry_failed_reviewer :: "env \<Rightarrow> string \<Rightarrow> thread \<Rightarrow> thread option \<Rightarrow> bool act" where
  "retry_failed_reviewer E sid t original =
     (case original of
        None \<Rightarrow> ret False
      | Some orig \<Rightarrow> spawn_review_worker E sid orig (th_tried t) (Some (th_id t)))"

definition read_summary :: "env \<Rightarrow> string \<Rightarrow> string \<Rightarrow> string act" where
  "read_summary E sid tid = lift_py E (read_events_summary (e_show E) (e_parser E) (e_log E sid tid))"

definition review_finished :: "env \<Rightarrow> string \<Rightarrow> thread \<Rightarrow> string \<Rightarrow> thread option \<Rightarrow> int \<Rightarrow> string \<Rightarrow> unit act" where
  "review_finished E sid t of_id original exit_code report =
     bind (read_summary E sid of_id) (\<lambda>original_events.
       seq (trigger_master_judged E sid
              (''**Original worker result:**'' @ [newline] @ original_events @ [newline, newline] @
               ''**Review result:**'' @ [newline] @ report) (th_id t))
       (case original of
          Some orig \<Rightarrow>
            if exit_code = 0 then
              bind (finalize_review_chain E sid orig) (\<lambda>err.
                case err of
                  Some msg \<Rightarrow> if msg \<noteq> [] then
                      seq (deliver_to_successor E sid [(''type'', JStr ET_ERROR), (''content'', JStr msg)]) (ret ())
                    else ret ()
                | None \<Rightarrow> ret ())
            else ret ()
        | None \<Rightarrow> ret ()))"

definition maybe_spawn_reviewer :: "env \<Rightarrow> string \<Rightarrow> string \<Rightarrow> int \<Rightarrow> string \<Rightarrow> string \<Rightarrow> unit act" where
  "maybe_spawn_reviewer E sid tid exit_code report full_summary =
     bind (get_thread sid tid) (\<lambda>found.
       case found of
         None \<Rightarrow> raise (e_text E AttributeError)
       | Some t \<Rightarrow>
           if exit_code = 0 \<and> \<not> truthy (th_review_of t) then
             (if \<not> th_require_review t then trigger_master_judged E sid full_summary (th_id t)
              else seq (spawn_review_worker E sid t [] (Some (th_id t))) (ret ()))
           else if truthy (th_review_of t) then
             bind (get_thread sid (the (th_review_of t))) (\<lambda>original.
               bind (if exit_code \<noteq> 0 then retry_failed_reviewer E sid t original else ret False) (\<lambda>retried.
                 if retried then ret ()
                 else review_finished E sid t (the (th_review_of t)) original exit_code report))
           else trigger_master_judged E sid full_summary (th_id t))"

end
