(* ===== verification/Task_Chain.thy ===== *)
theory Task_Chain
  imports Review
begin

text \<open>
  \<open>src/core/task_chain.py\<close>: the step chains of cron tasks; \<open>fire_scheduled_worker\<close> of
  \<open>src/core/scheduler.py\<close>, through which a step's worker starts.
\<close>

definition middle_dot :: string where
  "middle_dot = '' '' @ [CHR 0xC2, CHR 0xB7] @ '' ''"

text \<open>\<open>xs[i]\<close> of Python, negative indices included.\<close>

definition py_nth :: "'a list \<Rightarrow> int \<Rightarrow> 'a option" where
  "py_nth xs i =
     (let j = (if i < 0 then i + int (length xs) else i)
      in if 0 \<le> j \<and> j < int (length xs) then Some (xs ! nat j) else None)"

definition nth_step :: "env \<Rightarrow> step_config list \<Rightarrow> int \<Rightarrow> step_config act" where
  "nth_step E steps i = (case py_nth steps i of None \<Rightarrow> raise (e_text E IndexError) | Some s \<Rightarrow> ret s)"

text \<open>\<open>get_scheduled_tasks\<close> filtered by name: the first match.\<close>

definition task_named :: "env \<Rightarrow> string option \<Rightarrow> task_config option" where
  "task_named E name = find (\<lambda>t. Some (tc_name t) = name) (cf_tasks (e_cfg E))"

definition fire_scheduled_worker ::
  "env \<Rightarrow> session \<Rightarrow> task_config \<Rightarrow> thread \<Rightarrow> string \<Rightarrow> string option \<Rightarrow> string option \<Rightarrow> unit act" where
  "fire_scheduled_worker E m task t event_description backend_override prompt_override =
     bind (if truthy backend_override then ret (the backend_override)
           else lift_py E (effective_scheduled_task_backend task (e_cfg E))) (\<lambda>effective.
     bind (get_session (sm_id m)) (\<lambda>found.
     bind (lift_py E (resolve_requested_subagent_backend_model (sm_id m) (e_cfg E)
                        (map_option sm_backend found) (Some effective))) (\<lambda>(b, model).
       seq (spawn_worker \<lparr>sp_session = sm_id m, sp_thread = th_id t, sp_repo = tc_repo task,
                          sp_prompt = prompt_override, sp_backend = b, sp_model = model\<rparr>)
           (persist_and_broadcast E (sm_id m)
              [(''type'', JStr ET_TASK_DELEGATED), (''task'', JStr (tc_name task)),
               (''description'', JStr event_description), (''session_id'', JStr (sm_id m)),
               (''thread_id'', JStr (th_id t)), (''backend'', JStr b),
               (''model'', JStr (case model of None \<Rightarrow> [] | Some x \<Rightarrow> x))]))))"

definition spawn_step ::
  "env \<Rightarrow> session \<Rightarrow> task_config \<Rightarrow> step_config list \<Rightarrow> int \<Rightarrow> string option \<Rightarrow> string option \<Rightarrow> unit act" where
  "spawn_step E m task steps i chain_root previous_result =
     bind (nth_step E steps i) (\<lambda>step.
       let description = tc_name task @ middle_dot @ sc_name step in
       bind (create_thread E (sm_id m) description None False) (\<lambda>t0.
         let t = t0\<lparr>th_chain_root := Some (case chain_root of Some r \<Rightarrow> r | None \<Rightarrow> th_id t0), th_step_index := Some i\<rparr>
         in seq (save_thread (sm_id m) t)
            (bind (if i > 0 then
                     bind (nth_step E steps (i - 1)) (\<lambda>prev.
                       case sc_prompt step of
                         None \<Rightarrow> raise (e_text E AttributeError)
                       | Some p \<Rightarrow>
                           ret (Some (str_rstrip p @ [newline, newline] @ ''## Result of the previous step ('' @
                                      sc_name prev @ '')'' @ [newline] @
                                      (case previous_result of Some r \<Rightarrow> r | None \<Rightarrow> ''None''))))
                   else ret (sc_prompt step)) (\<lambda>prompt.
             fire_scheduled_worker E m task t description (sc_backend step) prompt))))"

subsection \<open>The wake with one block per step\<close>

text \<open>\<open>s.rsplit(sep, 1)[-1]\<close>: what follows the last separator.\<close>

fun after_last_sep :: "string \<Rightarrow> string \<Rightarrow> string option" where
  "after_last_sep sep [] = None"
| "after_last_sep sep (c # s) =
     (case after_last_sep sep s of
        Some r \<Rightarrow> Some r
      | None \<Rightarrow> if prefix sep (c # s) then Some (drop (length sep) (c # s)) else None)"

definition chain_step_name :: "thread \<Rightarrow> task_config option \<Rightarrow> string" where
  "chain_step_name t task =
     (case (case task of None \<Rightarrow> None | Some k \<Rightarrow> tc_steps k, th_step_index t) of
        (Some steps, Some i) \<Rightarrow>
          if 0 \<le> i \<and> i < int (length steps) then sc_name (steps ! nat i)
          else (case after_last_sep middle_dot (th_description t) of Some r \<Rightarrow> r | None \<Rightarrow> th_description t)
      | _ \<Rightarrow> (case after_last_sep middle_dot (th_description t) of Some r \<Rightarrow> r | None \<Rightarrow> th_description t))"

definition chain_threads :: "thread list \<Rightarrow> string option \<Rightarrow> thread list" where
  "chain_threads ts root =
     sort_key (\<lambda>t. the (th_step_index t)) (filter (\<lambda>t. th_chain_root t = root \<and> th_step_index t \<noteq> None) ts)"

fun chain_blocks :: "env \<Rightarrow> string \<Rightarrow> task_config option \<Rightarrow> thread list \<Rightarrow> string list act" where
  "chain_blocks E sid task [] = ret []"
| "chain_blocks E sid task (t # ts) =
     bind (extract_review_context E sid (th_id t)) (\<lambda>(_, result).
       bind (chain_blocks E sid task ts) (\<lambda>rest.
         ret ((''**'' @ chain_step_name t task @ '' result:**'' @ [newline] @
               (if truthy result then the result else ''(no result)'')) # rest)))"

definition chain_summary_blocks :: "env \<Rightarrow> string \<Rightarrow> string option \<Rightarrow> task_config option \<Rightarrow> string list act" where
  "chain_summary_blocks E sid root task =
     bind (list_threads sid) (\<lambda>ts. chain_blocks E sid task (chain_threads ts root))"

definition wake_master_with_chain ::
  "env \<Rightarrow> string \<Rightarrow> thread \<Rightarrow> task_config option \<Rightarrow> string option \<Rightarrow> unit act" where
  "wake_master_with_chain E sid t task remark =
     bind (chain_summary_blocks E sid (th_chain_root t) task) (\<lambda>blocks.
       let summary = py_join [newline, newline] blocks;
           summary' = (if truthy remark
                       then (if summary \<noteq> [] then summary @ [newline, newline] @ the remark else the remark)
                       else summary)
       in trigger_master_judged E sid summary' (th_id t))"

subsection \<open>Completion of a step\<close>

definition already_advanced :: "thread list \<Rightarrow> thread \<Rightarrow> int \<Rightarrow> bool" where
  "already_advanced ts t k = (\<exists>u \<in> set ts. th_chain_root u = th_chain_root t \<and> th_step_index u = Some k)"

definition quoted_task :: "string option \<Rightarrow> string" where
  "quoted_task name =
     ''scheduled task '' @ [CHR 0x27] @ (case name of Some n \<Rightarrow> n | None \<Rightarrow> ''None'') @ [CHR 0x27]"

definition advance_chain ::
  "env \<Rightarrow> string \<Rightarrow> session \<Rightarrow> thread \<Rightarrow> task_config \<Rightarrow> step_config list \<Rightarrow> int \<Rightarrow> unit act" where
  "advance_chain E sid m t task steps i =
     bind (list_threads sid) (\<lambda>ts.
       if already_advanced ts t (i + 1) then ret ()
       else bind (extract_review_context E sid (th_id t)) (\<lambda>(_, previous_result).
         if truthy previous_result
         then spawn_step E m task steps (i + 1) (th_chain_root t) previous_result
         else bind (nth_step E steps i) (\<lambda>step.
           wake_master_with_chain E sid t (Some task)
             (Some (''Chain stopped: step '' @ [CHR 0x27] @ sc_name step @ [CHR 0x27] @ '' produced no result.'')))))"

text \<open>The answer says whether the thread is a chain's.\<close>

definition handle_step_completion :: "env \<Rightarrow> string \<Rightarrow> thread \<Rightarrow> int \<Rightarrow> bool act" where
  "handle_step_completion E sid t exit_code =
     (case th_step_index t of
        None \<Rightarrow> ret False
      | Some i \<Rightarrow>
          bind (get_session sid) (\<lambda>found.
            let name = (case found of None \<Rightarrow> None | Some m \<Rightarrow> sm_scheduled m); task = task_named E name in
            case (found, task) of
              (Some m, Some k) \<Rightarrow>
                (case tc_steps k of
                   Some (s # ss) \<Rightarrow>
                     let steps = s # ss in
                     seq (if exit_code = 0 \<and> \<not> i \<ge> int (length steps) - 1
                          then advance_chain E sid m t k steps i
                          else wake_master_with_chain E sid t (Some k) None)
                         (ret True)
                 | _ \<Rightarrow> seq (wake_master_with_chain E sid t (Some k)
                              (Some (''Chain stopped: '' @ quoted_task name @ '' no longer declares steps.''))) (ret True))
            | _ \<Rightarrow> seq (wake_master_with_chain E sid t None
                          (Some (''Chain stopped: '' @ quoted_task name @ '' no longer exists.''))) (ret True)))"

end
