(* ===== verification/Finalize.thy ===== *)
theory Finalize
  imports Task_Chain
begin

text \<open>
  \<open>src/core/spawner_finalize.py\<close>: what happens when a worker's run is over: the status write, the
  worktree, the summary in the chat, and the hand-over to the chain, the reviewer or the master.
  The lock around the summary's judgment and its send makes the two one critical section.
\<close>

record worker_outcome =
  ro_exit :: int
  ro_quota :: bool
  ro_error :: string

definition run_failed :: "worker_outcome \<Rightarrow> bool" where
  "run_failed ro = (ro_exit ro \<noteq> 0 \<and> \<not> ro_quota ro)"

text \<open>How \<open>worker.run()\<close> ends; a pool or quota exhaustion and any other exception are caught.\<close>

datatype worker_end = Exited int | PoolExhausted string | QuotaExhausted | WorkerRaised string

fun outcome_of :: "worker_end \<Rightarrow> worker_outcome" where
  "outcome_of (Exited c) = \<lparr>ro_exit = c, ro_quota = False, ro_error = []\<rparr>"
| "outcome_of (PoolExhausted msg) = \<lparr>ro_exit = -1, ro_quota = True, ro_error = msg\<rparr>"
| "outcome_of QuotaExhausted = \<lparr>ro_exit = -1, ro_quota = True, ro_error = []\<rparr>"
| "outcome_of (WorkerRaised msg) = \<lparr>ro_exit = -1, ro_quota = False, ro_error = msg\<rparr>"

text \<open>\<open>_stream_worker_events\<close>: the thread is marked running and announced, then the worker runs.\<close>

definition stream_worker_events :: "env \<Rightarrow> string \<Rightarrow> thread \<Rightarrow> worker_end \<Rightarrow> worker_outcome act" where
  "stream_worker_events E sid t ending =
     seq (save_thread sid (t\<lparr>th_status := T_RUNNING\<rparr>))
     (bind tick (\<lambda>n.
      seq (deliver_to_successor E sid
             (thread_worker_event (th_id t) (th_backend t) (th_model t) ''running'' [] None (e_summary_time E (e_now E n))))
          (ret (outcome_of ending))))"

text \<open>\<open>_maybe_override_exit_code_from_result\<close>: the last result event decides, when the log reads.\<close>

fun last_result_succeeded :: "json list \<Rightarrow> bool py" where
  "last_result_succeeded [] = Inr False"
| "last_result_succeeded (JObj ev # evs) =
     (if dget ev ''type'' \<noteq> JStr ET_RESULT then last_result_succeeded evs
      else Inr (dget ev ''subtype'' = JStr ''success'' \<and> none_or_false (dget ev ''is_error'')))"
| "last_result_succeeded (_ # evs) = Inl AttributeError"

definition override_exit_code :: "env \<Rightarrow> int \<Rightarrow> string \<Rightarrow> string \<Rightarrow> int act" where
  "override_exit_code E exit_code sid tid =
     (if exit_code = 0 then ret 0
      else bind (lift_py E (last_result_succeeded (rev (read_thread_events (e_parser E) (e_log E sid tid))))) (\<lambda>ok.
             ret (if ok then 0 else exit_code)))"

subsection \<open>The worktree\<close>

definition should_skip_worktree_cleanup :: "thread \<Rightarrow> int \<Rightarrow> bool" where
  "should_skip_worktree_cleanup t exit_code =
     (if th_keep_worktree t then True
      else if th_skip_cleanup t then True
      else if truthy (th_review_of t) then True
      else if exit_code \<noteq> 0 then True
      else th_require_review t \<and> (truthy (th_repo t) \<and> truthy (th_branch t) \<and> truthy (th_worktree t)))"

definition cleanup_worker_directory :: "env \<Rightarrow> thread \<Rightarrow> bool \<Rightarrow> string option act" where
  "cleanup_worker_directory E t skip =
     (if skip then ret None
      else git_worktree_remove_reporting E (th_repo t) (th_worktree t) (th_branch t) (th_id t) ''Worktree'')"

subsection \<open>The summary\<close>

definition thread_cancelled :: "string \<Rightarrow> string \<Rightarrow> bool act" where
  "thread_cancelled sid tid =
     bind (get_thread sid tid) (\<lambda>t. ret (t \<noteq> None \<and> th_status (the t) = T_CANCELLED))"

definition exit_status_label :: "int \<Rightarrow> string" where
  "exit_status_label c = (if c = 0 then ''completed'' else ''failed'')"

definition verify_report_for_task :: "env \<Rightarrow> bool \<Rightarrow> string \<Rightarrow> string \<Rightarrow> string option act" where
  "verify_report_for_task E is_verify sid tid =
     (if \<not> is_verify then ret None
      else bind (lift_py E (read_verify_final_report (e_parser E) (e_log E sid tid))) (\<lambda>r. ret (Some r)))"

definition persist_worker_summary_once :: "env \<Rightarrow> string \<Rightarrow> string \<Rightarrow> dict \<Rightarrow> unit act" where
  "persist_worker_summary_once E sid tid ev =
     bind (summary_present E sid tid) (\<lambda>there.
       if there then ret ()
       else seq (mark_unread sid) (seq (deliver_to_successor E sid ev) (ret ())))"

definition summary_suffix :: "bool \<Rightarrow> worker_outcome \<Rightarrow> bool \<Rightarrow> string" where
  "summary_suffix cancelled ro verify =
     (let nn = [newline, newline] in
      if cancelled then nn @ ''*Cancelled by user.*''
      else if ro_quota ro then nn @ ''*Worker stopped: API quota exhausted.*'' @
             (if ro_error ro \<noteq> [] then '' '' @ ro_error ro else [])
      else if ro_error ro \<noteq> [] then
             (if verify then nn @ ''*Verifier completion failed: '' @ ro_error ro @ ''*''
              else nn @ ''*Worker error: '' @ ro_error ro @ ''*'')
      else if ro_exit ro \<noteq> 0 then nn @ ''*Worker exited with code '' @ int_str (ro_exit ro) @ ''.*''
      else [])"

definition full_summary :: "string \<Rightarrow> thread \<Rightarrow> worker_outcome \<Rightarrow> bool \<Rightarrow> string option \<Rightarrow> string \<Rightarrow> string" where
  "full_summary description t ro cancelled report summary =
     (if report \<noteq> None
      then ''**Verifier completion: thread '' @ [tick_mark] @ th_id t @ [tick_mark] @ ''**'' @ [newline, newline] @
           (if summary \<noteq> [] then summary else ''(no verifier final report)'')
      else ''**Worker finished: '' @ description @ ''**'' @ [newline, newline] @ summary) @
     summary_suffix cancelled ro (report \<noteq> None)"

definition broadcast_completion ::
  "env \<Rightarrow> string \<Rightarrow> string \<Rightarrow> thread \<Rightarrow> worker_outcome \<Rightarrow> string option \<Rightarrow> (string \<times> string) act" where
  "broadcast_completion E sid description t ro report =
     bind (case report of Some r \<Rightarrow> ret r | None \<Rightarrow> read_summary E sid (th_id t)) (\<lambda>summary.
     bind (thread_cancelled sid (th_id t)) (\<lambda>cancelled.
       let status = (if cancelled then ''cancelled'' else exit_status_label (ro_exit ro));
           whole = full_summary description t ro cancelled report summary
       in bind tick (\<lambda>n.
          seq (persist_worker_summary_once E sid (th_id t)
                 (thread_worker_event (th_id t) (th_backend t) (th_model t) status whole None
                    (e_summary_time E (e_now E n))))
              (ret (summary, whole)))))"

subsection \<open>Notifying\<close>

definition send_telegram :: "env \<Rightarrow> string \<Rightarrow> unit act" where
  "send_telegram E msg =
     (case e_telegram E msg of
        Some err \<Rightarrow> raise err
      | None \<Rightarrow> ghost (\<lambda>w. w\<lparr>w_telegrams := w_telegrams w @ [msg]\<rparr>))"

text \<open>The last run's status goes to a scheduled session, whose task's name is the answer.\<close>

definition stamp_last_run :: "string \<Rightarrow> int \<Rightarrow> string option act" where
  "stamp_last_run sid exit_code =
     bind (get_session sid) (\<lambda>found.
       case found of
         None \<Rightarrow> ret None
       | Some m \<Rightarrow>
           if truthy (sm_scheduled m)
           then seq (save_session (m\<lparr>sm_last_run := Some (if exit_code = 0 then ''success'' else ''failed'')\<rparr>))
                    (ret (sm_scheduled m))
           else ret None)"

definition telegram_notify :: "env \<Rightarrow> string option \<Rightarrow> string \<Rightarrow> unit act" where
  "telegram_notify E name msg =
     (if \<not> truthy name then ret ()
      else try_except
        (case find (\<lambda>t. Some (tc_name t) = name \<and> tc_notify t = Some ''telegram'') (cf_tasks (e_cfg E)) of
           None \<Rightarrow> ret () | Some _ \<Rightarrow> send_telegram E msg)
        (\<lambda>_. ret ()))"

definition notify_body ::
  "env \<Rightarrow> string \<Rightarrow> string \<Rightarrow> thread \<Rightarrow> worker_outcome \<Rightarrow> string option \<Rightarrow> unit act" where
  "notify_body E sid description t ro report =
     bind (stamp_last_run sid (ro_exit ro)) (\<lambda>name.
     bind (broadcast_completion E sid description t ro report) (\<lambda>(summary, whole).
       seq (telegram_notify E name summary)
       (bind (handle_step_completion E sid t (ro_exit ro)) (\<lambda>owned.
          if owned then ret ()
          else maybe_spawn_reviewer E sid (th_id t) (ro_exit ro) summary whole))))"

text \<open>When anything of it raises, a summary without the log is sent unless one is there.\<close>

definition fallback_notify :: "env \<Rightarrow> string \<Rightarrow> thread \<Rightarrow> worker_outcome \<Rightarrow> string \<Rightarrow> unit act" where
  "fallback_notify E sid t ro err =
     try_except
       (bind tick (\<lambda>n.
          let status = exit_status_label (ro_exit ro);
              fallback = worker_locator_summary (th_id t) status (e_summary_time E (e_now E n));
              whole = fallback @ [newline, newline] @ ''*(summary unavailable: '' @ err @ '')*''
          in persist_worker_summary_once E sid (th_id t)
               (thread_worker_event (th_id t) (th_backend t) (th_model t) status whole (Some fallback) [])))
       (\<lambda>_. ret ())"

definition notify_completion ::
  "env \<Rightarrow> string \<Rightarrow> string \<Rightarrow> thread \<Rightarrow> worker_outcome \<Rightarrow> string option \<Rightarrow> unit act" where
  "notify_completion E sid description t ro report =
     try_except (notify_body E sid description t ro report) (fallback_notify E sid t ro)"

subsection \<open>Finalizing\<close>

definition deliver_error :: "env \<Rightarrow> string \<Rightarrow> string option \<Rightarrow> unit act" where
  "deliver_error E sid err =
     (if truthy err
      then seq (deliver_to_successor E sid [(''type'', JStr ET_ERROR), (''content'', JStr (the err))]) (ret ())
      else ret ())"

definition run_finalize_effects ::
  "env \<Rightarrow> string \<Rightarrow> string \<Rightarrow> thread \<Rightarrow> worker_outcome \<Rightarrow> bool \<Rightarrow> string option \<Rightarrow> unit act" where
  "run_finalize_effects E sid description t ro skip_notify report =
     bind (cleanup_worker_directory E t (should_skip_worktree_cleanup t (ro_exit ro))) (\<lambda>err.
       seq (deliver_error E sid err)
           (if skip_notify then ret () else notify_completion E sid description t ro report))"

text \<open>The verifier's trailer can turn a finished run into a failed one.\<close>

definition judge_trailer :: "bool \<Rightarrow> string option \<Rightarrow> worker_outcome \<Rightarrow> worker_outcome" where
  "judge_trailer cancelled report ro =
     (case report of
        Some r \<Rightarrow>
          if \<not> cancelled \<and> \<not> ro_quota ro \<and> verify_result_trailer_error r \<noteq> []
          then ro\<lparr>ro_exit := -1,
                  ro_error := (if ro_error ro \<noteq> [] then ro_error ro @ ''; '' @ verify_result_trailer_error r
                               else verify_result_trailer_error r)\<rparr>
          else ro
      | None \<Rightarrow> ro)"

definition finalize_status :: "env \<Rightarrow> string \<Rightarrow> string \<Rightarrow> worker_outcome \<Rightarrow> bool \<Rightarrow> int option \<Rightarrow> unit act" where
  "finalize_status E sid tid ro cancelled at =
     (if cancelled then ret ()
      else if ro_quota ro then update_status E sid tid T_FAILED None at
      else if ro_error ro \<noteq> [] then update_status E sid tid T_FAILED (Some (- 1)) at
      else if ro_exit ro = 0 then update_status E sid tid T_COMPLETED (Some 0) at
      else update_status E sid tid T_FAILED (Some (ro_exit ro)) at)"

definition finalize_worker ::
  "env \<Rightarrow> string \<Rightarrow> string \<Rightarrow> thread \<Rightarrow> worker_outcome \<Rightarrow> bool \<Rightarrow> bool \<Rightarrow> int option \<Rightarrow> unit act" where
  "finalize_worker E sid description t ro skip_notify is_verify at =
     bind (thread_cancelled sid (th_id t)) (\<lambda>cancelled.
     bind (verify_report_for_task E is_verify sid (th_id t)) (\<lambda>report.
       let ro' = judge_trailer cancelled report ro
       in seq (finalize_status E sid (th_id t) ro' cancelled at)
              (run_finalize_effects E sid description t ro' skip_notify report)))"

definition finalize_worker_safely ::
  "env \<Rightarrow> string \<Rightarrow> string \<Rightarrow> thread \<Rightarrow> worker_outcome \<Rightarrow> bool \<Rightarrow> bool \<Rightarrow> int option \<Rightarrow> unit act" where
  "finalize_worker_safely E sid description t ro skip_notify is_verify at =
     try_except (finalize_worker E sid description t ro skip_notify is_verify at)
       (\<lambda>e. try_except
              (seq (deliver_to_successor E sid
                      [(''type'', JStr ET_ERROR), (''content'', JStr (''Worker finalization failed: '' @ e))])
                   (ret ()))
              (\<lambda>_. ret ()))"

text \<open>After a restart: the effects again, from the exit code alone.\<close>

definition recomplete_finalize_effects :: "env \<Rightarrow> string \<Rightarrow> string \<Rightarrow> thread \<Rightarrow> int \<Rightarrow> bool \<Rightarrow> unit act" where
  "recomplete_finalize_effects E sid description t exit_code is_verify =
     bind (verify_report_for_task E is_verify sid (th_id t)) (\<lambda>report.
       run_finalize_effects E sid description t \<lparr>ro_exit = exit_code, ro_quota = False, ro_error = []\<rparr> False report)"

end
