(* ===== verification/Finalize_Laws.thy ===== *)
theory Finalize_Laws
  imports Finalize
begin

text \<open>
  A logic for the completion of a worker: where an act leaves the world, kills included
  (\<open>settle\<close>), the relations every step stays in (\<open>act_relation\<close>), and the contract under which the
  whole completion does (\<open>completion_relation\<close>). Its interpretations give the properties.
\<close>

subsection \<open>Where an act leaves the world\<close>

text \<open>A kill loses the memory of the process: the caches, not the files.\<close>

definition restart :: "world \<Rightarrow> world" where
  "restart w = w\<lparr>w_store := (w_store w)\<lparr>cs_cache := Map.empty, cs_folds := Map.empty\<rparr>, w_budget := Some 0\<rparr>"

definition settle :: "'a outcome \<times> world \<Rightarrow> world" where
  "settle r = (case fst r of Killed \<Rightarrow> restart (snd r) | _ \<Rightarrow> snd r)"

definition moves :: "(world \<Rightarrow> world \<Rightarrow> bool) \<Rightarrow> 'a act \<Rightarrow> bool" where
  "moves R m = (\<forall>w. R w (settle (m w)))"

text \<open>A relation every act's steps stay in: it holds over doing nothing, over two steps in a row, over
a kill, and does not look at the clock, the budget or what is only noted.\<close>

locale act_relation =
  fixes R :: "world \<Rightarrow> world \<Rightarrow> bool"
  assumes R_refl: "R w w"
    and R_trans: "R u v \<Longrightarrow> R v w \<Longrightarrow> R u w"
    and R_kill: "w_budget w = Some 0 \<Longrightarrow> R w (restart w)"
    and R_clock: "R w (w\<lparr>w_clock := n\<rparr>)"
    and R_spend: "w_budget w = Some (Suc n) \<Longrightarrow> R w (w\<lparr>w_budget := Some n\<rparr>)"
begin

lemma moves_at: "moves R m \<Longrightarrow> R w (settle (m w))"
  by (simp add: moves_def)

lemma moves_ret: "moves R (ret a)"
  by (simp add: moves_def ret_def settle_def R_refl)

lemma moves_raise: "moves R (raise e)"
  by (simp add: moves_def raise_def settle_def R_refl)

lemma moves_read: "moves R (read f)"
  by (simp add: moves_def read_def settle_def R_refl)

lemma moves_tick: "moves R tick"
  by (simp add: moves_def tick_def settle_def R_clock)

lemma moves_bind:
  assumes "moves R m" "\<And>a. moves R (f a)"
  shows "moves R (bind m f)"
  unfolding moves_def
proof
  fix w
  obtain r w1 where m: "m w = (r, w1)" by (cases "m w")
  have first: "R w (settle (r, w1))" using assms(1) m by (metis moves_def)
  show "R w (settle (bind m f w))"
  proof (cases r)
    case (Val a)
    then have "R w w1" using first by (simp add: settle_def)
    moreover have "R w1 (settle (f a w1))" using assms(2) by (simp add: moves_def)
    ultimately show ?thesis using Val m R_trans by (simp add: bind_def)
  next
    case (Exc e)
    then show ?thesis using m first by (simp add: bind_def settle_def)
  next
    case Killed
    then show ?thesis using m first by (simp add: bind_def settle_def)
  qed
qed

lemma moves_seq: "moves R m \<Longrightarrow> moves R k \<Longrightarrow> moves R (seq m k)"
  unfolding seq_def by (rule moves_bind)

lemma moves_try:
  assumes "moves R m" "\<And>e. moves R (h e)"
  shows "moves R (try_except m h)"
  unfolding moves_def
proof
  fix w
  obtain r w1 where m: "m w = (r, w1)" by (cases "m w")
  have first: "R w (settle (r, w1))" using assms(1) m by (metis moves_def)
  show "R w (settle (try_except m h w))"
  proof (cases r)
    case (Exc e)
    then have "R w w1" using first by (simp add: settle_def)
    moreover have "R w1 (settle (h e w1))" using assms(2) by (simp add: moves_def)
    ultimately show ?thesis using Exc m R_trans by (simp add: try_except_def)
  qed (use m first in \<open>simp_all add: try_except_def settle_def\<close>)
qed

lemma moves_if: "moves R a \<Longrightarrow> moves R b \<Longrightarrow> moves R (if c then a else b)"
  by simp

lemma moves_when: "moves R m \<Longrightarrow> moves R (when_act b m)"
  by (simp add: when_act_def moves_ret)

lemma moves_for_each: "(\<And>x. x \<in> set xs \<Longrightarrow> moves R (f x)) \<Longrightarrow> moves R (for_each xs f)"
  by (induction xs) (auto intro: moves_ret moves_seq)

lemma moves_lift: "moves R (lift_py E r)"
  unfolding lift_py_def by (auto split: sum.split py_error.split intro: moves_ret moves_raise)

lemma moves_durable:
  assumes "\<And>w. R w (f w)"
  shows "moves R (durable f)"
  unfolding moves_def
proof
  fix w
  show "R w (settle (durable f w))"
  proof (cases "w_budget w")
    case None
    then show ?thesis using assms by (simp add: durable_def settle_def)
  next
    case (Some n)
    show ?thesis
    proof (cases n)
      case 0
      then show ?thesis using Some R_kill by (simp add: durable_def settle_def)
    next
      case (Suc k)
      then have "R w (w\<lparr>w_budget := Some k\<rparr>)" using Some R_spend by simp
      then show ?thesis using Some Suc R_trans assms by (simp add: durable_def settle_def)
    qed
  qed
qed

lemma moves_ghost: "(\<And>w. R w (f w)) \<Longrightarrow> moves R (ghost f)"
  by (simp add: moves_def ghost_def settle_def)

lemmas moves_basic = moves_ret moves_raise moves_read moves_tick moves_bind moves_seq moves_try moves_when
  moves_lift

lemma moves_bind_known:
  assumes "moves R m" "\<And>w a w'. m w = (Val a, w') \<Longrightarrow> P a" "\<And>a. P a \<Longrightarrow> moves R (f a)"
  shows "moves R (bind m f)"
  unfolding moves_def
proof
  fix w
  obtain r w1 where m: "m w = (r, w1)" by (cases "m w")
  have first: "R w (settle (r, w1))" using assms(1) m by (metis moves_def)
  show "R w (settle (bind m f w))"
  proof (cases r)
    case (Val a)
    then have "R w w1" using first by (simp add: settle_def)
    moreover have "R w1 (settle (f a w1))" using assms(2) [of w a w1] assms(3) m Val by (simp add: moves_def)
    ultimately show ?thesis using Val m R_trans by (simp add: bind_def)
  qed (use m first in \<open>simp_all add: bind_def settle_def\<close>)
qed

end

definition plain_event :: "dict \<Rightarrow> bool" where
  "plain_event ev \<longleftrightarrow> typed_event ev \<and> dget ev ''type'' \<noteq> JStr ET_WORKER_SUMMARY"

definition summary_of :: "string \<Rightarrow> dict \<Rightarrow> bool" where
  "summary_of tid ev \<longleftrightarrow> dget ev ''type'' = JStr ET_WORKER_SUMMARY \<and> dget ev ''thread_id'' = JStr tid"

text \<open>A turn of the master writes no worker summary, and its events have a plain type.\<close>

definition turn_plain :: "env \<Rightarrow> bool" where
  "turn_plain E = (\<forall>s p r. \<forall>ev \<in> set (fst (e_turn E s p r)). plain_event ev)"

lemma thread_worker_event_summary: "summary_of tid (thread_worker_event tid b m status whole content at)"
  by (simp add: summary_of_def thread_worker_event_def dget_def)

lemma plain_events:
  "plain_event [(''type'', JStr ET_ERROR), (''content'', x)]"
  "plain_event [(''type'', JStr ET_ERROR), (''message'', x), (''source'', y)]"
  "plain_event ((''type'', JStr ET_TASK_DELEGATED) # rest)"
  by (simp_all add: plain_event_def typed_event_def)

lemma plain_event_origin: "plain_event ev \<Longrightarrow> plain_event (dict_put ev ''origin_session_id'' v)"
  by (simp add: plain_event_def typed_event_def)

subsection \<open>What every completion stays in\<close>

text \<open>
  The contract between the completion of a worker in session \<open>sid\<close> and a relation it is to stay in:
  the relation has to hold over the few acts that change the state, and then does over the whole.
\<close>

locale completion_base = act_relation +
  fixes E :: env and sid :: string
  assumes R_turn: "ev \<in> set (fst (e_turn E s p r)) \<Longrightarrow> moves R (store_save E s ev)"
    and R_load: "moves R (store_load E s)"
    and R_present: "moves R (summary_present E s t)"
    and R_woke: "moves R (master_woke E s t)"
    and R_save: "plain_event ev \<Longrightarrow> moves R (store_save E s ev)"
    and R_once: "summary_of tid ev \<Longrightarrow> moves R (persist_worker_summary_once E sid tid ev)"
    and R_session: "moves R (save_session m)"
    and R_create: "moves R (create_thread E s d of_id rr)"
    and R_thread: "th_step_index th = None \<Longrightarrow> moves R (save_thread s th)"
    and R_status: "moves R (update_status E s tid st c a)"
    and R_recycle: "moves R (recycle_scheduled_session E s cutoff)"
    and R_wakes: "R w (w\<lparr>w_wakes := w_wakes w @ x1\<rparr>)"
    and R_spawned: "R w (w\<lparr>w_spawned := x2\<rparr>)"
    and R_telegrams: "R w (w\<lparr>w_telegrams := x3\<rparr>)"
    and R_worktrees: "R w (w\<lparr>w_worktrees := x4\<rparr>)"
begin

lemma m_persist: "plain_event ev \<Longrightarrow> moves R (persist_and_broadcast E s ev)"
  unfolding persist_and_broadcast_def by (intro moves_seq R_load R_save)

lemma m_get_session: "moves R (get_session s)"
  by (simp add: get_session_def moves_read)

lemma m_resolve: "moves R (resolve_successor_chain s)"
  unfolding resolve_successor_chain_def
  by (intro moves_bind m_get_session) (auto split: option.split intro!: moves_bind moves_ret moves_read moves_raise)

lemma m_attempts: "plain_event ev \<Longrightarrow> moves R (deliver_attempts E n s ev)"
  by (induction n)
    (auto intro!: moves_raise moves_bind m_resolve m_get_session moves_ret moves_seq m_persist
        plain_event_origin split: option.split)

lemma m_deliver: "plain_event ev \<Longrightarrow> moves R (deliver_to_successor E s ev)"
  unfolding deliver_to_successor_def by (rule m_attempts)

lemma m_unarchive: "moves R (unarchive_session s)"
  unfolding unarchive_session_def
  by (intro moves_bind m_get_session) (auto split: option.split intro: moves_ret R_session)

lemma m_master_turn: "moves R (master_turn E s p r)"
proof -
  obtain evs res where t: "e_turn E s p r = (evs, res)" by (cases "e_turn E s p r")
  then have "moves R (persist_and_broadcast E s ev)" if "ev \<in> set evs" for ev
    unfolding persist_and_broadcast_def using R_turn [of ev s p r] that by (intro moves_seq R_load) simp
  then show ?thesis
    using t by (auto simp: master_turn_def split: sum.split
        intro!: moves_seq moves_ghost R_wakes moves_for_each moves_raise moves_ret)
qed

lemma m_recovery: "moves R (run_message_with_resume_recovery E m p)"
  unfolding run_message_with_resume_recovery_def by (auto intro!: moves_try m_master_turn moves_raise)

lemma m_weekly: "moves R (weekly_expiry E m)"
  unfolding weekly_expiry_def Let_def
  by (auto split: option.split intro!: moves_ret moves_bind moves_tick moves_seq R_session moves_try R_recycle)

lemma m_report: "moves R (report_trigger_failure E s e)"
  unfolding report_trigger_failure_def by (intro moves_try m_persist plain_events moves_ret)

lemma m_wake: "moves R (wake_resolved E m p b)"
  unfolding wake_resolved_def Let_def
  by (auto split: option.split
      intro!: moves_ret moves_seq moves_when m_unarchive moves_bind m_get_session m_weekly m_recovery)

lemma m_trigger: "moves R (trigger_master E s p b)"
  unfolding trigger_master_def
  by (intro moves_try moves_bind m_resolve m_report)
    (auto split: option.split intro!: moves_ret moves_try m_wake m_report)

lemma m_judged: "moves R (trigger_master_judged E s p t)"
  unfolding trigger_master_judged_def by (auto intro!: moves_bind R_woke moves_ret m_trigger)

lemma m_remove: "moves R (git_worktree_remove_reporting E repo wt br owner label)"
  unfolding git_worktree_remove_reporting_def
  by (auto split: sum.split bool.split
      intro!: moves_ret moves_bind moves_read moves_raise moves_seq moves_durable R_worktrees)

lemma m_review_chain: "moves R (finalize_review_chain E s t)"
  by (simp add: finalize_review_chain_def moves_ret m_remove)

lemma m_context: "moves R (extract_review_context E s t)"
  by (simp add: extract_review_context_def moves_read)

lemma m_list: "moves R (list_threads s)"
  by (simp add: list_threads_def moves_read)

lemma m_get_thread: "moves R (get_thread s t)"
  by (simp add: get_thread_def moves_read)

lemma m_spawn: "moves R (spawn_worker r)"
  unfolding spawn_worker_def by (intro moves_durable R_spawned)

lemma m_review_context: "moves R (resolve_review_spawn_context E t tried)"
  unfolding resolve_review_spawn_context_def
  by (auto split: option.split sum.split prod.split intro!: moves_ret moves_bind moves_read moves_raise moves_lift)

lemma created_unchained: "create_thread E s d of_id rr w = (Val th, w') \<Longrightarrow> th_step_index th = None"
  by (auto simp: create_thread_def bind_def seq_def tick_def ret_def Let_def split: prod.splits outcome.splits)

lemma m_review_worker: "moves R (spawn_review_worker E sid t tried ex)"
proof -
  have spawn: "moves R (bind (create_thread E s d of_id rr) (\<lambda>r.
      seq (save_thread sid (r\<lparr>th_branch := Some b, th_repo := Some rp, th_worktree := Some wt, th_tried := tr\<rparr>))
        (seq (spawn_worker (sp r)) (ret True))))" for s d of_id rr b rp wt tr sp
    by (rule moves_bind_known [OF R_create, where P = "\<lambda>r. th_step_index r = None"])
      (auto dest: created_unchained intro!: moves_seq R_thread m_spawn moves_ret)
  show ?thesis
    unfolding spawn_review_worker_def Let_def
    by (auto split: option.split prod.split
        intro!: moves_ret moves_bind m_list m_review_context m_context m_get_session spawn)
qed

lemma m_retry: "moves R (retry_failed_reviewer E sid t orig)"
  unfolding retry_failed_reviewer_def by (auto split: option.split intro!: moves_ret m_review_worker)

lemma m_read_summary: "moves R (read_summary E s t)"
  by (simp add: read_summary_def moves_lift)

lemma m_review_finished: "moves R (review_finished E s t of_id orig c rep)"
  unfolding review_finished_def
  by (auto split: option.split
      intro!: moves_bind m_read_summary moves_seq m_judged moves_ret m_review_chain m_deliver plain_events)

lemma m_reviewer: "moves R (maybe_spawn_reviewer E sid t c rep full)"
  unfolding maybe_spawn_reviewer_def
  by (auto split: option.split
      intro!: moves_bind m_get_thread moves_raise moves_seq m_judged m_review_worker moves_ret m_retry m_review_finished)

lemma m_blocks: "moves R (chain_blocks E s k ts)"
  by (induction ts) (auto split: prod.split intro!: moves_ret moves_bind m_context)

lemma m_wake_chain: "moves R (wake_master_with_chain E s t k r)"
  unfolding wake_master_with_chain_def chain_summary_blocks_def Let_def
  by (intro moves_bind m_list m_blocks m_judged)

lemma m_fire: "moves R (fire_scheduled_worker E m k t d b p)"
  unfolding fire_scheduled_worker_def
  by (auto split: prod.split
      intro!: moves_bind moves_ret moves_lift m_get_session moves_seq m_spawn m_persist plain_events)

lemma m_nth: "moves R (nth_step E steps i)"
  unfolding nth_step_def by (auto split: option.split intro: moves_raise moves_ret)

lemma m_advance_if:
  assumes "\<And>i root prev. moves R (spawn_step E m k steps i root prev)"
  shows "moves R (advance_chain E sid m t k steps i)"
  unfolding advance_chain_def
  by (auto split: prod.split
      intro!: moves_bind m_list moves_ret m_context assms m_nth m_wake_chain)

lemma m_spawn_step_if:
  assumes "\<And>s th. moves R (save_thread s th)"
  shows "moves R (spawn_step E m k steps i root prev)"
  unfolding spawn_step_def Let_def
  by (auto split: option.split intro!: moves_bind m_nth R_create moves_seq assms moves_ret moves_raise m_fire)

end

text \<open>The advance of a chain may ask something of the thread.\<close>

locale completion_relation = completion_base +
  fixes ok :: "thread \<Rightarrow> bool"
  assumes R_advance: "ok th \<Longrightarrow> th_step_index th \<noteq> None \<Longrightarrow> moves R (advance_chain E sid m th k steps i)"
begin

lemma m_step: "ok t \<Longrightarrow> moves R (handle_step_completion E sid t c)"
  unfolding handle_step_completion_def Let_def
  by (auto split: option.split list.split
      intro!: moves_ret moves_bind m_get_session moves_seq R_advance m_wake_chain)

lemma m_cancelled: "moves R (thread_cancelled s t)"
  unfolding thread_cancelled_def by (intro moves_bind m_get_thread moves_ret)

lemma m_broadcast: "moves R (broadcast_completion E sid d t ro rep)"
  unfolding broadcast_completion_def Let_def
  by (intro moves_bind moves_seq m_cancelled moves_tick R_once thread_worker_event_summary moves_ret)
    (auto split: option.split intro: moves_ret m_read_summary)

lemma m_last_run: "moves R (stamp_last_run sid c)"
  unfolding stamp_last_run_def
  by (auto split: option.split intro!: moves_bind m_get_session moves_ret moves_seq R_session)

lemma m_telegram: "moves R (telegram_notify E n msg)"
  unfolding telegram_notify_def send_telegram_def
  by (auto split: option.split intro!: moves_ret moves_try moves_raise moves_ghost R_telegrams)

lemma m_fallback: "moves R (fallback_notify E sid t ro e)"
  unfolding fallback_notify_def Let_def
  by (intro moves_try moves_bind moves_tick R_once thread_worker_event_summary moves_ret)

lemma m_handover:
  assumes "ok t"
  shows "moves R (seq (telegram_notify E name s)
       (bind (handle_step_completion E sid t c) (\<lambda>owned.
          if owned then ret () else maybe_spawn_reviewer E sid (th_id t) c s whole)))"
  by (auto intro!: moves_seq m_telegram moves_bind m_step [OF assms] moves_ret m_reviewer)

lemma m_notify: "ok t \<Longrightarrow> moves R (notify_completion E sid d t ro rep)"
  unfolding notify_completion_def notify_body_def
  by (auto split: prod.split intro!: moves_try moves_bind m_last_run m_broadcast m_handover m_fallback)

lemma m_effects: "ok t \<Longrightarrow> moves R (run_finalize_effects E sid d t ro sk rep)"
  unfolding run_finalize_effects_def cleanup_worker_directory_def deliver_error_def
  by (auto intro!: moves_bind moves_ret m_remove moves_seq m_deliver plain_events m_notify)

lemma m_report_for: "moves R (verify_report_for_task E v s t)"
  unfolding verify_report_for_task_def by (auto intro!: moves_ret moves_bind moves_lift)

lemma m_finalize: "ok t \<Longrightarrow> moves R (finalize_worker E sid d t ro sk v a)"
  unfolding finalize_worker_def Let_def finalize_status_def
  by (auto intro!: moves_bind m_cancelled m_report_for moves_seq moves_ret R_status m_effects)

lemma m_finalize_safely: "ok t \<Longrightarrow> moves R (finalize_worker_safely E sid d t ro sk v a)"
  unfolding finalize_worker_safely_def
  by (intro moves_try m_finalize moves_seq m_deliver plain_events moves_ret)

lemma m_recomplete: "ok t \<Longrightarrow> moves R (recomplete_finalize_effects E sid d t c v)"
  unfolding recomplete_finalize_effects_def by (intro moves_bind m_report_for m_effects)

end

subsection \<open>At most one summary\<close>

definition summaries :: "string \<Rightarrow> string \<Rightarrow> world \<Rightarrow> nat" where
  "summaries sid tid w = length (filter (\<lambda>ev. is_terminal_worker_summary ev tid) (cs_files (w_store w) sid))"

definition coherent :: "world \<Rightarrow> bool" where
  "coherent w = store_coherent (w_store w)"

definition once_rel :: "env \<Rightarrow> string \<Rightarrow> string \<Rightarrow> world \<Rightarrow> world \<Rightarrow> bool" where
  "once_rel E sid tid w w' \<longleftrightarrow>
     (turn_plain E \<and> coherent w \<longrightarrow>
        coherent w' \<and> (summaries sid tid w \<le> 1 \<longrightarrow> summaries sid tid w' \<le> 1))"

lemma coherent_restart: "coherent w \<Longrightarrow> coherent (restart w)"
  by (auto simp: coherent_def restart_def store_coherent_def session_coherent_def)

lemma files_restart: "cs_files (w_store (restart w)) = cs_files (w_store w)"
  by (simp add: restart_def)

lemma coherent_quiet: "coherent (w\<lparr>w_clock := n\<rparr>) = coherent w" "coherent (w\<lparr>w_budget := b\<rparr>) = coherent w"
  by (simp_all add: coherent_def)

lemma lift_Inr [simp]: "lift_py E (Inr a) w = (Val a, w)"
  by (simp add: lift_py_def ret_def)

lemma settle_lift [simp]: "settle (lift_py E r w) = w"
  by (auto simp: lift_py_def ret_def raise_def settle_def split: sum.split py_error.split)

lemma summaries_restart [simp]: "summaries sid tid (restart w) = summaries sid tid w"
  by (simp add: summaries_def restart_def)

text \<open>An act that leaves the chat files alone.\<close>

definition same_chats :: "world \<Rightarrow> world \<Rightarrow> bool" where
  "same_chats w w' \<longleftrightarrow> (coherent w \<longrightarrow> coherent w') \<and> cs_files (w_store w') = cs_files (w_store w)"

lemma same_chats_once: "same_chats w w' \<Longrightarrow> once_rel E sid tid w w'"
  by (simp add: same_chats_def once_rel_def summaries_def)

interpretation quiet: act_relation same_chats
  by unfold_locales (auto simp: same_chats_def coherent_restart files_restart coherent_quiet)

lemma same_chats_store: "w_store w' = w_store w \<Longrightarrow> same_chats w w'"
  by (simp add: same_chats_def coherent_def)

lemma quiet_durable: "(\<And>w. w_store (f w) = w_store w) \<Longrightarrow> moves same_chats (durable f)"
  by (intro quiet.moves_durable same_chats_store)

lemma load_at:
  assumes "coherent w"
  shows "\<exists>st. store_load E s w = (Val (cs_files (w_store w) s), w\<lparr>w_store := st\<rparr>) \<and> store_coherent st \<and>
    cs_files st = cs_files (w_store w)"
proof -
  have c: "session_coherent (w_store w) s'" for s' using assms by (simp add: coherent_def store_coherent_def)
  have "store_coherent (snd (load_chat_events s (w_store w)))"
    using log_step_coherent [of "w_store w" "Load s"] assms by (simp add: coherent_def)
  moreover obtain r st where "load_chat_events s (w_store w) = (r, st)" by (cases "load_chat_events s (w_store w)")
  ultimately show ?thesis
    using load_coherent [OF c [of s]] by (intro exI [of _ st]) (simp add: store_load_def)
qed

lemma load_keeps: "store_coherent st \<Longrightarrow> store_coherent (snd (load_chat_events s st))"
  using log_step_coherent [of st "Load s"] by simp

lemma judged_loads:
  "snd (finalize_summary_present s t st) = snd (load_chat_events s st)"
  "snd (finalize_master_woke s t st) = snd (load_chat_events s st)"
  by (simp_all add: finalize_summary_present_def finalize_master_woke_def split: prod.split sum.split)

lemma same_chats_load: "same_chats w (w\<lparr>w_store := snd (load_chat_events s (w_store w))\<rparr>)"
  by (simp add: same_chats_def coherent_def load_files load_keeps)

lemma quiet_load:
  "moves same_chats (store_load E s)" "moves same_chats (summary_present E s t)" "moves same_chats (master_woke E s t)"
  using same_chats_load judged_loads
  by (simp_all add: moves_def store_load_def summary_present_def master_woke_def Let_def case_prod_unfold)

lemma quiet_session: "moves same_chats (save_session m)"
  unfolding save_session_def by (rule quiet_durable) simp

lemma quiet_threads: "moves same_chats (save_thread s th)" "moves same_chats (create_thread E s d of_id rr)"
  "moves same_chats (update_status E s t st c a)" "moves same_chats (gc_old_threads s cutoff)"
proof -
  show save: "moves same_chats (save_thread s th)" for s th
    unfolding save_thread_def by (rule quiet_durable) simp
  show "moves same_chats (create_thread E s d of_id rr)"
    unfolding create_thread_def Let_def by (intro quiet.moves_bind quiet.moves_tick quiet.moves_seq save quiet.moves_ret)
  show "moves same_chats (update_status E s t st c a)"
    unfolding update_status_def get_thread_def
    by (auto split: option.split intro!: quiet.moves_bind quiet.moves_read quiet.moves_ret quiet.moves_tick save)
  show "moves same_chats (gc_old_threads s cutoff)"
    unfolding gc_old_threads_def list_threads_def
    by (intro quiet.moves_bind quiet.moves_read quiet.moves_for_each quiet_durable) simp
qed

subsection \<open>Appends\<close>

lemma save_at:
  assumes "coherent w" "typed_event ev"
  shows "\<exists>ev' st. store_coherent st \<and>
     (\<forall>t. is_terminal_worker_summary ev' t = is_terminal_worker_summary ev t) \<and>
     is_master_output ev' = is_master_output ev \<and> typed_event ev' \<and>
     cs_files st = (cs_files (w_store w))(s := cs_files (w_store w) s @ [ev']) \<and>
     (w_budget w \<noteq> Some 0 \<longrightarrow> store_save E s ev w =
        (Val (), w\<lparr>w_clock := Suc (w_clock w), w_store := st, w_budget := map_option (\<lambda>k. k - 1) (w_budget w)\<rparr>))"
proof -
  let ?n = "w_clock w"
  let ?ev = "stamped (e_id E ?n) (e_iso E (e_now E ?n)) ev"
  let ?st = "snd (save_chat_event (e_id E ?n) (e_iso E (e_now E ?n)) s ev (w_store w))"
  have c: "session_coherent (w_store w) s" using assms(1) by (simp add: coherent_def store_coherent_def)
  have ok: "fst (save_chat_event (e_id E ?n) (e_iso E (e_now E ?n)) s ev (w_store w)) = Inr ()"
    using save_coherent [OF c assms(2)] by blast
  have "store_coherent ?st"
    using log_step_coherent [of "w_store w" "Save (e_id E ?n) (e_iso E (e_now E ?n)) s ev"] assms
    by (simp add: coherent_def)
  moreover have "cs_files ?st = (cs_files (w_store w))(s := cs_files (w_store w) s @ [?ev])"
    by (simp add: save_chat_event_def Let_def split: option.split sum.split)
  moreover have "is_terminal_worker_summary ?ev t = is_terminal_worker_summary ev t" for t
    by (simp add: is_terminal_worker_summary_def stamped_def Let_def)
  moreover have "is_master_output ?ev = is_master_output ev"
    by (simp add: is_master_output_def stamped_def Let_def)
  moreover have "typed_event ?ev" using assms(2) by (simp add: stamped_typed)
  moreover have "w_budget w \<noteq> Some 0 \<longrightarrow> store_save E s ev w =
      (Val (), w\<lparr>w_clock := Suc ?n, w_store := ?st, w_budget := map_option (\<lambda>k. k - 1) (w_budget w)\<rparr>)"
    using ok by (auto simp: store_save_def bind_def tick_def Let_def case_prod_unfold split: option.split nat.split)
  ultimately show ?thesis by (intro exI [of _ ?ev] exI [of _ ?st]) blast
qed

lemma save_killed: "w_budget w = Some 0 \<Longrightarrow> settle (store_save E s ev w) = restart (w\<lparr>w_clock := Suc (w_clock w)\<rparr>)"
  by (simp add: store_save_def bind_def tick_def settle_def)

end
