(* ===== verification/Finalize_Once.thy ===== *)
theory Finalize_Once
  imports Finalize_Laws
begin

text \<open>
  The repeatable effects of a completion: at most one summary of a thread in a session's chat, and
  at most one thread per place of a step chain, over any sequence of completions, kills and restarts.
\<close>

subsection \<open>How many summaries an act can add\<close>

text \<open>An act keeps \<open>I\<close> and raises the measure \<open>mu\<close> by at most \<open>k\<close>.\<close>

definition gains :: "(world \<Rightarrow> bool) \<Rightarrow> (world \<Rightarrow> nat) \<Rightarrow> nat \<Rightarrow> 'a act \<Rightarrow> bool" where
  "gains I mu k m \<longleftrightarrow> (\<forall>w. I w \<longrightarrow> I (settle (m w)) \<and> mu (settle (m w)) \<le> mu w + k)"

lemma gains_bind:
  assumes "gains I mu a m" "\<And>x. gains I mu b (f x)"
  shows "gains I mu (a + b) (bind m f)"
  unfolding gains_def
proof (intro allI impI)
  fix w
  assume c: "I w"
  obtain r w1 where m: "m w = (r, w1)" by (cases "m w")
  have first: "I (settle (r, w1)) \<and> mu (settle (r, w1)) \<le> mu w + a"
    using assms(1) c m unfolding gains_def by metis
  show "I (settle (bind m f w)) \<and> mu (settle (bind m f w)) \<le> mu w + (a + b)"
  proof (cases r)
    case (Val x)
    then have w1: "I w1" "mu w1 \<le> mu w + a" using first by (auto simp: settle_def)
    then have "I (settle (f x w1)) \<and> mu (settle (f x w1)) \<le> mu w1 + b"
      using assms(2) [of x] unfolding gains_def by blast
    then show ?thesis using Val m w1 by (simp add: bind_def)
  qed (use first m in \<open>auto simp: bind_def settle_def\<close>)
qed

lemma gains_mono: "gains I mu a m \<Longrightarrow> a \<le> b \<Longrightarrow> gains I mu b m"
  by (force simp: gains_def)

lemma gains_bind0: "gains I mu 0 m \<Longrightarrow> (\<And>x. gains I mu k (f x)) \<Longrightarrow> gains I mu k (bind m f)"
  using gains_bind [of I mu 0 m k f] by simp

lemma gains_ret: "gains I mu 0 (ret x)"
  by (simp add: gains_def ret_def settle_def)

lemma gains_seq_ret: "gains I mu k m \<Longrightarrow> gains I mu k (seq m (ret x))"
  using gains_bind [of I mu k m 0 "\<lambda>_. ret x"] by (simp add: seq_def gains_ret)

abbreviation adds :: "string \<Rightarrow> string \<Rightarrow> nat \<Rightarrow> 'a act \<Rightarrow> bool" where
  "adds sid tid \<equiv> gains coherent (summaries sid tid)"

lemma adds_quiet: "moves same_chats m \<Longrightarrow> adds sid tid 0 m"
  by (simp add: gains_def moves_def same_chats_def summaries_def)

definition weight :: "string \<Rightarrow> dict \<Rightarrow> nat" where
  "weight tid ev = (if is_terminal_worker_summary ev tid then 1 else 0)"

lemma adds_save: assumes "typed_event ev" shows "adds sid tid (weight tid ev) (store_save E s ev)"
  unfolding gains_def
proof (intro allI impI)
  fix w
  assume c: "coherent w"
  show "coherent (settle (store_save E s ev w)) \<and>
        summaries sid tid (settle (store_save E s ev w)) \<le> summaries sid tid w + weight tid ev"
  proof (cases "w_budget w = Some 0")
    case True
    then show ?thesis
      using save_killed [OF True] c coherent_restart by (simp add: coherent_quiet) (simp add: summaries_def)
  next
    case False
    obtain ev' st where st: "store_coherent st" "cs_files st = (cs_files (w_store w))(s := cs_files (w_store w) s @ [ev'])"
      and tm: "is_terminal_worker_summary ev' tid = is_terminal_worker_summary ev tid"
      and run: "store_save E s ev w =
        (Val (), w\<lparr>w_clock := Suc (w_clock w), w_store := st, w_budget := map_option (\<lambda>k. k - 1) (w_budget w)\<rparr>)"
      using save_at [OF c assms, of s E] False by blast
    have "length (filter (\<lambda>ev. is_terminal_worker_summary ev tid) (cs_files st sid)) \<le> summaries sid tid w + weight tid ev"
      unfolding summaries_def st(2) weight_def using tm by simp
    then show ?thesis using run st(1) by (simp add: settle_def coherent_def summaries_def)
  qed
qed

lemma weight_origin: "weight tid (dict_put ev ''origin_session_id'' v) = weight tid ev"
  by (simp add: weight_def is_terminal_worker_summary_def)

lemma typed_origin: "typed_event (dict_put ev ''origin_session_id'' v) = typed_event ev"
  by (simp add: typed_event_def)

lemma quiet_resolve: "moves same_chats (resolve_successor_chain s)"
  unfolding resolve_successor_chain_def get_session_def
  by (auto split: option.split intro!: quiet.moves_bind quiet.moves_read quiet.moves_ret quiet.moves_raise)

lemma adds_persist: "typed_event ev \<Longrightarrow> adds sid tid (weight tid ev) (persist_and_broadcast E s ev)"
  unfolding persist_and_broadcast_def seq_def by (intro gains_bind0 adds_quiet quiet_load adds_save)

lemma adds_attempts: "typed_event ev \<Longrightarrow> adds sid tid (weight tid ev) (deliver_attempts E n s ev)"
proof (induction n)
  case 0
  then show ?case by (auto intro!: gains_mono [OF adds_quiet] quiet.moves_raise)
next
  case (Suc n)
  have none: "adds sid tid (weight tid ev) (ret None)" by (rule gains_mono [OF adds_quiet]) (auto intro: quiet.moves_ret)
  have get: "adds sid tid 0 (get_session x)" for x
    unfolding get_session_def by (intro adds_quiet quiet.moves_read)
  have send: "adds sid tid (weight tid ev) (seq (persist_and_broadcast E x
      (if c then dict_put ev ''origin_session_id'' (JStr s) else ev)) (ret y))" for x c and y :: "string option"
    using adds_persist [of "dict_put ev ''origin_session_id'' (JStr s)" sid tid E x] adds_persist [of ev sid tid E x] Suc.prems
    by (cases c) (simp_all add: gains_seq_ret weight_origin typed_origin)
  have try1: "adds sid tid (weight tid ev)
      (if sm_successor t \<noteq> None then deliver_attempts E n s ev
       else seq (persist_and_broadcast E (sm_id t)
                  (if sm_id t \<noteq> s then dict_put ev ''origin_session_id'' (JStr s) else ev)) (ret (Some (sm_id t))))" for t
    using Suc send by (cases "sm_successor t = None") simp_all
  have fresh: "adds sid tid (weight tid ev) (case f of None \<Rightarrow> ret None
      | Some t \<Rightarrow> if sm_successor t \<noteq> None then deliver_attempts E n s ev
       else seq (persist_and_broadcast E (sm_id t)
                  (if sm_id t \<noteq> s then dict_put ev ''origin_session_id'' (JStr s) else ev)) (ret (Some (sm_id t))))" for f
    using none try1 by (cases f) (simp_all only: option.case)
  have found: "adds sid tid (weight tid ev) (case f of None \<Rightarrow> ret None
      | Some q \<Rightarrow> bind (get_session (sm_id q)) (\<lambda>f. case f of None \<Rightarrow> ret None
      | Some t \<Rightarrow> if sm_successor t \<noteq> None then deliver_attempts E n s ev
       else seq (persist_and_broadcast E (sm_id t)
                  (if sm_id t \<noteq> s then dict_put ev ''origin_session_id'' (JStr s) else ev)) (ret (Some (sm_id t)))))" for f
    using none gains_bind0 [OF get fresh] by (cases f) (simp_all only: option.case)
  show ?case
    unfolding deliver_attempts.simps by (rule gains_bind0 [OF adds_quiet [OF quiet_resolve] found])
qed

lemma adds_deliver: "typed_event ev \<Longrightarrow> adds sid tid (weight tid ev) (deliver_to_successor E s ev)"
  unfolding deliver_to_successor_def by (rule adds_attempts)

lemma quiet_unread: "moves same_chats (mark_unread s)"
  unfolding mark_unread_def get_session_def
  by (auto split: option.split intro!: quiet.moves_bind quiet.moves_read quiet.moves_ret quiet_session)

lemma present_at:
  assumes "coherent w"
  shows "\<exists>st. summary_present E sid tid w =
      (Val (terminal_summary_present (cs_files (w_store w) sid) tid), w\<lparr>w_store := st\<rparr>) \<and>
    store_coherent st \<and> cs_files st = cs_files (w_store w)"
proof -
  have c: "session_coherent (w_store w) sid" using assms by (simp add: coherent_def store_coherent_def)
  obtain r st where r: "finalize_summary_present sid tid (w_store w) = (r, st)"
    by (cases "finalize_summary_present sid tid (w_store w)")
  then have "st = snd (load_chat_events sid (w_store w))" using judged_loads(1) by (metis snd_conv)
  then show ?thesis
    using judged_on_file(1) [OF c, of tid] r load_files load_keeps assms
    by (intro exI [of _ st]) (simp add: summary_present_def coherent_def)
qed

lemma no_summaries: "\<not> terminal_summary_present (cs_files (w_store w) sid) tid \<longleftrightarrow> summaries sid tid w = 0"
  by (auto simp: summaries_def terminal_summary_present_def filter_empty_conv)

lemma once_once:
  assumes "summary_of t ev"
  shows "moves (once_rel E sid tid) (persist_worker_summary_once E sid t ev)"
  unfolding moves_def
proof
  fix w
  have ty: "typed_event ev" using assms by (simp add: summary_of_def typed_event_def)
  have send: "adds sid tid (weight tid ev) (seq (mark_unread sid) (seq (deliver_to_successor E sid ev) (ret ())))"
    unfolding seq_def [of "mark_unread sid"] using ty
    by (intro gains_bind0 adds_quiet quiet_unread gains_seq_ret adds_deliver)
  show "once_rel E sid tid w (settle (persist_worker_summary_once E sid t ev w))"
  proof (cases "coherent w")
    case True
    let ?there = "terminal_summary_present (cs_files (w_store w) sid) t"
    obtain w1 where p: "summary_present E sid t w = (Val ?there, w1)" and w1: "coherent w1"
      "cs_files (w_store w1) = cs_files (w_store w)"
      using present_at [OF True, of E sid t] by (auto simp: coherent_def)
    have same: "summaries sid tid w1 = summaries sid tid w" using w1 by (simp add: summaries_def)
    show ?thesis
    proof (cases ?there)
      case True
      then show ?thesis
        using p w1 same by (simp add: persist_worker_summary_once_def bind_def ret_def settle_def once_rel_def)
    next
      case False
      let ?w' = "settle (seq (mark_unread sid) (seq (deliver_to_successor E sid ev) (ret ())) w1)"
      have bound: "coherent ?w' \<and> summaries sid tid ?w' \<le> summaries sid tid w + weight tid ev"
        using send w1(1) same unfolding gains_def by metis
      have "summaries sid tid w \<le> 1 \<Longrightarrow> summaries sid tid w + weight tid ev \<le> 1"
        using False no_summaries [of w sid tid] assms
        by (auto simp: weight_def is_terminal_worker_summary_def summary_of_def)
      then show ?thesis using bound False p
        by (auto simp: persist_worker_summary_once_def bind_def once_rel_def)
    qed
  qed (simp add: once_rel_def)
qed

subsection \<open>The recycle\<close>

lemma durable_cases:
  obtains "w_budget w = Some 0" "durable f w = (Killed, w)"
  | b where "durable f w = (Val (), f (w\<lparr>w_budget := b\<rparr>))" "w_budget w \<noteq> Some 0"
proof (cases "w_budget w")
  case None
  then show ?thesis using that(2) [of None] by (metis (no_types, lifting) durable_def option.case(1) option.distinct(1)
      world.select_convs(10) world.surjective world.update_convs(10))
next
  case (Some n)
  then show ?thesis by (cases n) (use that in \<open>auto simp: durable_def\<close>)
qed

lemma archive_split_files:
  "archive_split stamp cutoff evs = Inr (old, stay) \<Longrightarrow> evs = old @ stay"
  by (induction evs arbitrary: old stay)
    (auto simp: Let_def py_bind_Inr_iff split: if_splits sum.splits py_error.splits prod.splits)

definition coherent_but :: "string \<Rightarrow> world \<Rightarrow> bool" where
  "coherent_but s w \<longleftrightarrow> (\<forall>ev \<in> set (cs_files (w_store w) s). typed_event ev) \<and>
     (\<forall>s'. s' \<noteq> s \<longrightarrow> session_coherent (w_store w) s')"

lemma coherent_but_restart: "coherent_but s w \<Longrightarrow> coherent (restart w)"
  by (auto simp: coherent_def restart_def coherent_but_def store_coherent_def session_coherent_def)

lemma coherent_but_clear: "coherent_but s w \<Longrightarrow> coherent (w\<lparr>w_store := clear_cache s (w_store w)\<rparr>)"
  unfolding coherent_def store_coherent_def
proof
  fix x
  assume b: "coherent_but s w"
  show "session_coherent (w_store (w\<lparr>w_store := clear_cache s (w_store w)\<rparr>)) x"
  proof (cases "x = s")
    case True
    then show ?thesis using b by (simp add: coherent_but_def session_coherent_def clear_cache_def)
  next
    case False
    then have c0: "session_coherent (w_store w) x" using b by (simp add: coherent_but_def)
    show ?thesis using False by (intro coherent_other [OF c0]) (simp_all add: clear_cache_def)
  qed
qed

text \<open>The rewrite of the file, the new offset, and the dropped cache.\<close>

definition rotate_tail :: "string \<Rightarrow> dict list \<Rightarrow> nat \<Rightarrow> unit act" where
  "rotate_tail s stay n =
     seq (durable (\<lambda>w. w\<lparr>w_store := (w_store w)\<lparr>cs_files := (cs_files (w_store w))(s := stay)\<rparr>\<rparr>))
       (seq (bind (get_session s) (\<lambda>found.
               case found of None \<Rightarrow> ret ()
               | Some m \<Rightarrow> save_session (m\<lparr>sm_archive_offset := sm_archive_offset m + n\<rparr>)))
            (ghost (\<lambda>w. w\<lparr>w_store := clear_cache s (w_store w)\<rparr>)))"

lemma act_monad:
  "bind (ret a) f = f a" "bind (bind m f) g = bind m (\<lambda>x. bind (f x) g)" "bind (raise e) f = raise e"
  "seq (seq m k) k' = seq m (seq k k')" "bind (seq m k) g = seq m (bind k g)"
  by (auto simp: bind_def ret_def raise_def seq_def fun_eq_iff split: outcome.split prod.split)

lemma recycle_eq:
  "recycle_scheduled_session E s cutoff =
     seq (gc_old_threads s cutoff)
       (bind (read (\<lambda>w. archive_split (e_stamp E) cutoff (cs_files (w_store w) s))) (\<lambda>r.
        bind (lift_py E r) (\<lambda>(old, stay).
          if old = [] then ret ()
          else seq (durable (\<lambda>w. w\<lparr>w_archive := (w_archive w)(s := w_archive w s @ old)\<rparr>))
                   (rotate_tail s stay (length old)))))"
proof -
  have "bind (case p of (old, stay) \<Rightarrow>
       if old = [] then ret 0
       else seq (durable (\<lambda>w. w\<lparr>w_archive := (w_archive w)(s := w_archive w s @ old)\<rparr>))
            (seq (durable (\<lambda>w. w\<lparr>w_store := (w_store w)\<lparr>cs_files := (cs_files (w_store w))(s := stay)\<rparr>\<rparr>))
                 (ret (length old)))) (\<lambda>n.
        if n = 0 then ret ()
        else seq (bind (get_session s) (\<lambda>found.
                    case found of None \<Rightarrow> ret ()
                    | Some m \<Rightarrow> save_session (m\<lparr>sm_archive_offset := sm_archive_offset m + n\<rparr>)))
                 (ghost (\<lambda>w. w\<lparr>w_store := clear_cache s (w_store w)\<rparr>))) =
     (case p of (old, stay) \<Rightarrow>
        if old = [] then ret ()
        else seq (durable (\<lambda>w. w\<lparr>w_archive := (w_archive w)(s := w_archive w s @ old)\<rparr>))
                 (rotate_tail s stay (length old)))" for p :: "dict list \<times> dict list"
    by (cases p) (simp add: act_monad rotate_tail_def)
  then show ?thesis
    unfolding recycle_scheduled_session_def archive_old_chat_events_def act_monad(2) by presburger
qed

lemma rotate_tail_at:
  assumes c: "coherent w" and stay: "cs_files (w_store w) s = old @ stay"
  shows "coherent (settle (rotate_tail s stay n w)) \<and>
     (cs_files (w_store (settle (rotate_tail s stay n w))) = cs_files (w_store w) \<or>
      cs_files (w_store (settle (rotate_tail s stay n w))) = (cs_files (w_store w))(s := stay))"
proof (rule durable_cases [of w "\<lambda>w. w\<lparr>w_store := (w_store w)\<lparr>cs_files := (cs_files (w_store w))(s := stay)\<rparr>\<rparr>"])
  assume "durable (\<lambda>w. w\<lparr>w_store := (w_store w)\<lparr>cs_files := (cs_files (w_store w))(s := stay)\<rparr>\<rparr>) w = (Killed, w)"
  then show ?thesis
    using c coherent_restart by (simp add: rotate_tail_def seq_def bind_def settle_def files_restart)
next
  fix b
  let ?w1 = "w\<lparr>w_budget := b, w_store := (w_store w)\<lparr>cs_files := (cs_files (w_store w))(s := stay)\<rparr>\<rparr>"
  assume d: "durable (\<lambda>w. w\<lparr>w_store := (w_store w)\<lparr>cs_files := (cs_files (w_store w))(s := stay)\<rparr>\<rparr>) w =
     (Val (), (w\<lparr>w_budget := b\<rparr>)\<lparr>w_store := (w_store (w\<lparr>w_budget := b\<rparr>))\<lparr>cs_files := (cs_files (w_store (w\<lparr>w_budget := b\<rparr>)))(s := stay)\<rparr>\<rparr>)"
  have s: "session_coherent (w_store w) x" for x using c by (simp add: coherent_def store_coherent_def)
  have "session_coherent (w_store ?w1) x" if "x \<noteq> s" for x
    using that by (intro coherent_other [OF s]) simp_all
  then have but: "coherent_but s ?w1"
    using s [of s] stay by (simp add: coherent_but_def session_coherent_def)
  let ?save = "bind (get_session s) (\<lambda>found.
               case found of None \<Rightarrow> ret ()
               | Some m \<Rightarrow> save_session (m\<lparr>sm_archive_offset := sm_archive_offset m + n\<rparr>))"
  have save: "(\<exists>w2. ?save ?w1 = (Val (), w2) \<and> w_store w2 = w_store ?w1) \<or> ?save ?w1 = (Killed, ?w1)"
  proof (cases "w_sessions ?w1 s")
    case None
    then show ?thesis by (simp add: bind_def get_session_def read_def ret_def)
  next
    case (Some m)
    then show ?thesis
      by (auto simp: bind_def get_session_def read_def save_session_def durable_def split: option.split nat.split)
  qed
  have rt: "rotate_tail s stay n w = seq ?save (ghost (\<lambda>w. w\<lparr>w_store := clear_cache s (w_store w)\<rparr>)) ?w1"
    using d by (simp add: rotate_tail_def seq_def bind_def)
  from save show ?thesis
  proof
    assume "\<exists>w2. ?save ?w1 = (Val (), w2) \<and> w_store w2 = w_store ?w1"
    then obtain w2 where w2: "?save ?w1 = (Val (), w2)" "w_store w2 = w_store ?w1" by blast
    then have "coherent_but s w2" using but by (simp add: coherent_but_def)
    then have "coherent (w2\<lparr>w_store := clear_cache s (w_store w2)\<rparr>)" by (rule coherent_but_clear)
    moreover have "settle (rotate_tail s stay n w) = w2\<lparr>w_store := clear_cache s (w_store w2)\<rparr>"
      unfolding rt using w2(1) by (simp add: seq_def bind_def ghost_def settle_def)
    ultimately show ?thesis using w2(2) by (simp add: clear_cache_def)
  next
    assume "?save ?w1 = (Killed, ?w1)"
    then have "settle (rotate_tail s stay n w) = restart ?w1"
      unfolding rt by (simp add: seq_def bind_def settle_def)
    then show ?thesis using coherent_but_restart [OF but] by (simp add: files_restart)
  qed
qed

text \<open>What the rotation does to the files: nothing, or it drops a prefix of one of them.\<close>

definition rotation :: "env \<Rightarrow> string \<Rightarrow> int \<Rightarrow> unit act" where
  "rotation E s cutoff =
     bind (read (\<lambda>w. archive_split (e_stamp E) cutoff (cs_files (w_store w) s))) (\<lambda>r.
        bind (lift_py E r) (\<lambda>(old, stay).
          if old = [] then ret ()
          else seq (durable (\<lambda>w. w\<lparr>w_archive := (w_archive w)(s := w_archive w s @ old)\<rparr>))
                   (rotate_tail s stay (length old))))"

lemma rotation_at:
  assumes c: "coherent w"
  shows "coherent (settle (rotation E s cutoff w)) \<and>
     (cs_files (w_store (settle (rotation E s cutoff w))) = cs_files (w_store w) \<or>
      (\<exists>old stay. cs_files (w_store w) s = old @ stay \<and>
         cs_files (w_store (settle (rotation E s cutoff w))) = (cs_files (w_store w))(s := stay)))"
proof (cases "archive_split (e_stamp E) cutoff (cs_files (w_store w) s)")
  case (Inl e)
  then have "rotation E s cutoff w = bind (lift_py E (Inl e)) (\<lambda>(old, stay).
          if old = [] then ret ()
          else seq (durable (\<lambda>w. w\<lparr>w_archive := (w_archive w)(s := w_archive w s @ old)\<rparr>))
                   (rotate_tail s stay (length old))) w"
    by (simp add: rotation_def bind_def read_def)
  moreover have "\<exists>msg. lift_py E (Inl e :: (dict list \<times> dict list) py) w = (Exc msg, w)"
    by (cases e) (simp_all add: lift_py_def raise_def)
  ultimately have "settle (rotation E s cutoff w) = w" by (auto simp: bind_def settle_def)
  then show ?thesis using c by simp
next
  case (Inr p)
  obtain old stay where p: "p = (old, stay)" by (cases p)
  have f: "cs_files (w_store w) s = old @ stay" using Inr p archive_split_files by blast
  show ?thesis
  proof (cases "old = []")
    case True
    then have "rotation E s cutoff w = (Val (), w)"
      using Inr p by (simp add: rotation_def bind_def read_def ret_def)
    then show ?thesis using c by (simp add: settle_def)
  next
    case False
    let ?arch = "durable (\<lambda>w. w\<lparr>w_archive := (w_archive w)(s := w_archive w s @ old)\<rparr>)"
    have rot: "rotation E s cutoff w = seq ?arch (rotate_tail s stay (length old)) w"
      using Inr p False by (simp add: rotation_def bind_def read_def)
    show ?thesis
    proof (rule durable_cases [of w "\<lambda>w. w\<lparr>w_archive := (w_archive w)(s := w_archive w s @ old)\<rparr>"])
      assume "?arch w = (Killed, w)"
      then show ?thesis
        using rot c coherent_restart by (simp add: seq_def bind_def settle_def files_restart)
    next
      fix b
      let ?w1 = "(w\<lparr>w_budget := b\<rparr>)\<lparr>w_archive := (w_archive (w\<lparr>w_budget := b\<rparr>))(s := w_archive (w\<lparr>w_budget := b\<rparr>) s @ old)\<rparr>"
      assume d: "?arch w = (Val (), ?w1)"
      have "coherent ?w1" using c by (simp add: coherent_def)
      moreover have "cs_files (w_store ?w1) s = old @ stay" using f by simp
      ultimately have "coherent (settle (rotate_tail s stay (length old) ?w1)) \<and>
         (cs_files (w_store (settle (rotate_tail s stay (length old) ?w1))) = cs_files (w_store ?w1) \<or>
          cs_files (w_store (settle (rotate_tail s stay (length old) ?w1))) = (cs_files (w_store ?w1))(s := stay))"
        by (rule rotate_tail_at)
      moreover have "settle (rotation E s cutoff w) = settle (rotate_tail s stay (length old) ?w1)"
        using rot d by (simp add: seq_def bind_def)
      ultimately show ?thesis using f by auto
    qed
  qed
qed

lemma once_rotation: "moves (once_rel E sid tid) (rotation E s cutoff)"
  unfolding moves_def
proof
  fix w
  show "once_rel E sid tid w (settle (rotation E s cutoff w))"
  proof (cases "coherent w")
    case True
    have r: "coherent (settle (rotation E s cutoff w)) \<and>
     (cs_files (w_store (settle (rotation E s cutoff w))) = cs_files (w_store w) \<or>
      (\<exists>old stay. cs_files (w_store w) s = old @ stay \<and>
         cs_files (w_store (settle (rotation E s cutoff w))) = (cs_files (w_store w))(s := stay)))"
      by (rule rotation_at [OF True])
    then have "summaries sid tid (settle (rotation E s cutoff w)) \<le> summaries sid tid w"
      by (auto simp: summaries_def)
    then show ?thesis using r by (simp add: once_rel_def)
  qed (simp add: once_rel_def)
qed

subsection \<open>The completion sends at most one summary\<close>

lemma quiet_once: "moves same_chats m \<Longrightarrow> moves (once_rel E sid tid) m"
  by (simp add: moves_def same_chats_once)

lemma once_save_plain: "plain_event ev \<Longrightarrow> moves (once_rel E sid tid) (store_save E s ev)"
  using adds_save [of ev sid tid E s]
  by (auto simp: moves_def gains_def once_rel_def weight_def plain_event_def is_terminal_worker_summary_def)

lemma once_turn: "ev \<in> set (fst (e_turn E s p r)) \<Longrightarrow> moves (once_rel E sid tid) (store_save E s ev)"
proof (cases "turn_plain E")
  case True
  moreover assume "ev \<in> set (fst (e_turn E s p r))"
  ultimately show ?thesis by (intro once_save_plain) (simp add: turn_plain_def)
qed (simp add: moves_def once_rel_def)

lemma once_recycle:
  assumes "act_relation (once_rel E sid tid)"
  shows "moves (once_rel E sid tid) (recycle_scheduled_session E s cutoff)"
  unfolding recycle_eq rotation_def [symmetric]
  by (intro act_relation.moves_seq [OF assms] quiet_once quiet_threads once_rotation)

lemma once_act: "act_relation (once_rel E sid tid)"
  by unfold_locales
    (auto simp: once_rel_def coherent_restart coherent_quiet, auto simp: summaries_def)

interpretation once_base: completion_base "once_rel E sid tid" E sid for E sid tid
  by (intro completion_base.intro once_act completion_base_axioms.intro)
    (simp_all add: once_turn quiet_once quiet_load once_save_plain once_once quiet_session quiet_threads
      once_recycle once_act same_chats_once same_chats_store)

interpretation once: completion_relation "once_rel E sid tid" E sid "\<lambda>_. True" for E sid tid
  by unfold_locales (intro once_base.m_advance_if once_base.m_spawn_step_if quiet_once quiet_threads)

text \<open>A life of the server: completions of workers of the session, and chat events of other kinds, each
possibly cut short by a kill; the next one starts after a restart.\<close>

datatype call =
    FinalizeRun string thread worker_outcome bool bool "int option"
  | RecompleteRun string thread int bool
  | OtherEvent string dict

fun do_call :: "env \<Rightarrow> string \<Rightarrow> call \<Rightarrow> unit act" where
  "do_call E sid (FinalizeRun d t ro sk v at) = finalize_worker_safely E sid d t ro sk v at"
| "do_call E sid (RecompleteRun d t c v) = recomplete_finalize_effects E sid d t c v"
| "do_call E sid (OtherEvent s ev) = persist_and_broadcast E s ev"

fun call_plain :: "call \<Rightarrow> bool" where
  "call_plain (OtherEvent s ev) = plain_event ev"
| "call_plain _ = True"

definition life :: "env \<Rightarrow> string \<Rightarrow> (nat option \<times> call) list \<Rightarrow> world \<Rightarrow> world" where
  "life E sid = fold (\<lambda>(b, c) w. settle (do_call E sid c (w\<lparr>w_budget := b\<rparr>)))"

lemma once_call: "call_plain c \<Longrightarrow> moves (once_rel E sid tid) (do_call E sid c)"
  by (cases c) (simp_all add: once.m_finalize_safely once.m_recomplete once_base.m_persist)

lemma once_life:
  assumes "turn_plain E" "\<forall>(b, c) \<in> set calls. call_plain c"
  shows "coherent w \<Longrightarrow> summaries sid tid w \<le> 1 \<Longrightarrow>
    coherent (life E sid calls w) \<and> summaries sid tid (life E sid calls w) \<le> 1"
  using assms(2)
proof (induction calls arbitrary: w)
  case (Cons bc calls)
  obtain b c where bc: "bc = (b, c)" by (cases bc)
  let ?w1 = "settle (do_call E sid c (w\<lparr>w_budget := b\<rparr>))"
  have "once_rel E sid tid (w\<lparr>w_budget := b\<rparr>) ?w1"
    using once_call [of c E sid tid] Cons.prems(3) bc by (simp add: moves_def)
  moreover have "coherent (w\<lparr>w_budget := b\<rparr>)" "summaries sid tid (w\<lparr>w_budget := b\<rparr>) \<le> 1"
    using Cons.prems(1,2) by (simp_all add: coherent_quiet summaries_def)
  ultimately have "coherent ?w1" "summaries sid tid ?w1 \<le> 1" using assms(1) by (simp_all add: once_rel_def)
  then show ?case using Cons.IH [of ?w1] Cons.prems(3) bc by (simp add: life_def)
qed (simp add: life_def)

text \<open>
  C3. However often a session's workers are finalized, by live runs and by re-completions after
  restarts, and wherever a kill cuts each of these short: the session's chat holds at most one
  terminal summary of a thread.
\<close>

theorem summary_at_most_once:
  assumes "turn_plain E" "coherent w" "summaries sid tid w \<le> 1" "\<forall>(b, c) \<in> set calls. call_plain c"
  shows "summaries sid tid (life E sid calls w) \<le> 1"
  using once_life [OF assms(1,4,2,3)] by blast

subsection \<open>A chain advances at most once\<close>

definition at_step :: "string \<Rightarrow> int \<Rightarrow> thread \<Rightarrow> bool" where
  "at_step r k t \<longleftrightarrow> th_chain_root t = Some r \<and> th_step_index t = Some k"

definition steps_at :: "string \<Rightarrow> string \<Rightarrow> int \<Rightarrow> world \<Rightarrow> nat" where
  "steps_at sid r k w = length (filter (at_step r k) (w_threads w sid))"

definition advance_rel :: "string \<Rightarrow> string \<Rightarrow> int \<Rightarrow> world \<Rightarrow> world \<Rightarrow> bool" where
  "advance_rel sid r k w w' \<longleftrightarrow> (steps_at sid r k w \<le> 1 \<longrightarrow> steps_at sid r k w' \<le> 1)"

abbreviation (input) anyway :: "world \<Rightarrow> bool" where "anyway \<equiv> \<lambda>_. True"

text \<open>An act that leaves the threads alone.\<close>

definition same_threads :: "world \<Rightarrow> world \<Rightarrow> bool" where
  "same_threads w w' \<longleftrightarrow> w_threads w' = w_threads w"

interpretation calm: act_relation same_threads
  by unfold_locales (simp_all add: same_threads_def restart_def)

lemma calm_gains: "moves same_threads m \<Longrightarrow> gains anyway (steps_at sid r k) 0 m"
  by (simp add: gains_def moves_def same_threads_def steps_at_def)

lemma gains_advance: "gains anyway (steps_at sid r k) 0 m \<Longrightarrow> moves (advance_rel sid r k) m"
  by (auto simp: gains_def moves_def advance_rel_def intro: le_trans)

lemma calm_lift: "moves same_threads (\<lambda>w. lift_py E (f w) (w\<lparr>w_store := g w\<rparr>))"
  by (simp add: moves_def same_threads_def)

lemma calm_store:
  "moves same_threads (store_load E s)" "moves same_threads (summary_present E s t)"
  "moves same_threads (master_woke E s t)"
  by (simp_all add: moves_def same_threads_def store_load_def summary_present_def master_woke_def Let_def case_prod_unfold)

lemma calm_save: "moves same_threads (store_save E s ev)"
  by (auto simp: moves_def same_threads_def store_save_def bind_def tick_def settle_def restart_def lift_py_def
      ret_def raise_def Let_def case_prod_unfold split: option.split nat.split sum.split py_error.split)

lemma calm_durable: "(\<And>w. w_threads (f w) = w_threads w) \<Longrightarrow> moves same_threads (durable f)"
  by (rule calm.moves_durable) (simp add: same_threads_def)

lemma calm_session: "moves same_threads (save_session m)"
  unfolding save_session_def by (rule calm_durable) simp

lemma put_thread_count:
  "length (filter p (put_thread t ts)) \<le> length (filter p ts) + (if p t then 1 else 0)"
  by (induction ts) auto

lemma put_thread_same:
  "find (\<lambda>u. th_id u = th_id t) ts = Some u \<Longrightarrow> p t = p u \<Longrightarrow>
     length (filter p (put_thread t ts)) = length (filter p ts)"
  by (induction ts) (auto split: if_splits)

lemma gains_durable:
  assumes "\<And>w. mu (f w) \<le> mu w + k" "\<And>w. mu (restart w) = mu w" "\<And>w b. mu (w\<lparr>w_budget := b\<rparr>) = mu w"
  shows "gains anyway mu k (durable f)"
  unfolding gains_def
proof (intro allI impI conjI)
  fix w
  show "mu (settle (durable f w)) \<le> mu w + k"
  proof (rule durable_cases [of w f])
    assume "durable f w = (Killed, w)"
    then show ?thesis using assms(2) by (simp add: settle_def)
  next
    fix b
    assume "durable f w = (Val (), f (w\<lparr>w_budget := b\<rparr>))"
    then show ?thesis using assms(1) [of "w\<lparr>w_budget := b\<rparr>"] assms(3) by (simp add: settle_def)
  qed
qed simp

lemma steps_at_quiet:
  "steps_at sid r k (restart w) = steps_at sid r k w"
  "steps_at sid r k (w\<lparr>w_budget := b\<rparr>) = steps_at sid r k w"
  by (simp_all add: steps_at_def restart_def)

lemma gains_save_thread:
  "gains anyway (steps_at sid r k) (if s = sid \<and> at_step r k t then 1 else 0) (save_thread s t)"
  unfolding save_thread_def
proof (rule gains_durable)
  show "steps_at sid r k (w\<lparr>w_threads := (w_threads w)(s := put_thread t (w_threads w s))\<rparr>)
      \<le> steps_at sid r k w + (if s = sid \<and> at_step r k t then 1 else 0)" for w
    using put_thread_count [of "at_step r k" t "w_threads w s"] by (auto simp: steps_at_def)
qed (simp_all add: steps_at_quiet)

lemma gains_create: "gains anyway (steps_at sid r k) 0 (create_thread E s d of_id rr)"
proof -
  have "gains anyway (steps_at sid r k) 0 (seq (save_thread s t) (ret t))" if "th_step_index t = None" for t
    using gains_save_thread [of sid r k s t] that by (intro gains_seq_ret) (simp add: at_step_def)
  then show ?thesis
    unfolding create_thread_def Let_def by (intro gains_bind0 [OF calm_gains [OF calm.moves_tick]]) simp
qed

lemma gains_status: "gains anyway (steps_at sid r k) 0 (update_status E s tid st c a)"
  unfolding gains_def
proof (intro allI impI conjI)
  fix w
  show "steps_at sid r k (settle (update_status E s tid st c a w)) \<le> steps_at sid r k w + 0"
  proof (cases "thread_of w s tid")
    case None
    then show ?thesis
      by (simp add: update_status_def get_thread_def bind_def read_def ret_def settle_def)
  next
    case (Some u)
    let ?t = "u\<lparr>th_status := st, th_exit_code := (case c of None \<Rightarrow> th_exit_code u | Some c \<Rightarrow> Some c),
                  th_completed_at := (if terminal_status st
                     then (case a of None \<Rightarrow> Some (e_now E (w_clock w)) | Some a \<Rightarrow> Some a)
                     else th_completed_at u)\<rparr>"
    let ?w = "w\<lparr>w_clock := Suc (w_clock w)\<rparr>"
    have eq: "update_status E s tid st c a w = save_thread s ?t ?w"
      using Some by (simp add: update_status_def get_thread_def bind_def read_def tick_def)
    have "th_id u = tid" using Some find_Some_in by (fastforce simp: thread_of_def)
    then have "find (\<lambda>x. th_id x = th_id ?t) (w_threads w s) = Some u" using Some by (simp add: thread_of_def)
    then have "length (filter (at_step r k) (put_thread ?t (w_threads w s))) =
        length (filter (at_step r k) (w_threads w s))"
      by (rule put_thread_same) (simp add: at_step_def)
    then obtain t where run: "update_status E s tid st c a w = save_thread s t ?w"
      and same: "length (filter (at_step r k) (put_thread t (w_threads w s))) =
        length (filter (at_step r k) (w_threads w s))"
      using eq by blast
    have f: "steps_at sid r k (v\<lparr>w_threads := (w_threads v)(s := put_thread t (w_threads v s))\<rparr>) = steps_at sid r k v"
      if "w_threads v = w_threads w" for v
      using that same by (simp add: steps_at_def)
    show ?thesis
      unfolding run save_thread_def
      by (rule durable_cases [of ?w "\<lambda>w. w\<lparr>w_threads := (w_threads w)(s := put_thread t (w_threads w s))\<rparr>"])
        (simp_all add: settle_def steps_at_quiet f, simp_all add: steps_at_def same)
  qed
qed simp

lemma gains_for_each: "(\<And>x. gains anyway mu 0 (f x)) \<Longrightarrow> gains anyway mu 0 (for_each xs f)"
  by (induction xs) (auto simp: seq_def intro!: gains_ret gains_bind0)

lemma filter_filter_le: "length (filter p (filter q xs)) \<le> length (filter p xs)"
  by (induction xs) auto

lemma gains_gc: "gains anyway (steps_at sid r k) 0 (gc_old_threads s cutoff)"
  unfolding gc_old_threads_def list_threads_def
proof (intro gains_bind0 calm_gains [OF calm.moves_read] gains_for_each gains_durable)
  show "steps_at sid r k (w\<lparr>w_threads := (w_threads w)(s := filter (\<lambda>u. th_id u \<noteq> th_id x) (w_threads w s))\<rparr>)
      \<le> steps_at sid r k w + 0" for w x
    by (auto simp: steps_at_def filter_filter_le simp del: filter_filter)
qed (simp_all add: steps_at_quiet)

lemma calm_rotation: "moves same_threads (rotation E s cutoff)"
proof -
  have tail: "moves same_threads (rotate_tail s stay n)" for stay n
    unfolding rotate_tail_def get_session_def
    by (intro calm.moves_seq calm.moves_bind calm.moves_read calm_durable calm.moves_ghost)
      (auto simp: same_threads_def split: option.split intro: calm.moves_ret calm_session)
  show ?thesis
    unfolding rotation_def
    by (auto split: prod.split
        intro!: calm.moves_bind calm.moves_read calm.moves_lift calm.moves_ret calm.moves_seq calm_durable tail)
qed

lemma gains_recycle: "gains anyway (steps_at sid r k) 0 (recycle_scheduled_session E s cutoff)"
  unfolding recycle_eq rotation_def [symmetric] seq_def [of "gc_old_threads s cutoff"]
  by (rule gains_bind0 [OF gains_gc calm_gains [OF calm_rotation]])

lemma advance_act: "act_relation (advance_rel sid r k)"
  by unfold_locales (simp_all add: advance_rel_def steps_at_quiet, simp_all add: steps_at_def)

lemma calm_resolve: "moves same_threads (resolve_successor_chain s)"
  unfolding resolve_successor_chain_def get_session_def
  by (auto split: option.split intro!: calm.moves_bind calm.moves_read calm.moves_ret calm.moves_raise)

lemma calm_persist: "moves same_threads (persist_and_broadcast E s ev)"
  unfolding persist_and_broadcast_def by (intro calm.moves_seq calm_store calm_save)

lemma calm_get: "moves same_threads (get_session s)"
  unfolding get_session_def by (rule calm.moves_read)

lemma calm_attempts: "moves same_threads (deliver_attempts E n s ev)"
  by (induction n)
    (auto split: option.split
      intro!: calm.moves_raise calm.moves_bind calm_resolve calm_get calm.moves_ret calm.moves_seq calm_persist)

lemma calm_deliver: "moves same_threads (deliver_to_successor E s ev)"
  unfolding deliver_to_successor_def by (rule calm_attempts)

lemma calm_once: "moves same_threads (persist_worker_summary_once E s t ev)"
  unfolding persist_worker_summary_once_def mark_unread_def
  by (auto split: option.split
      intro!: calm.moves_bind calm_store calm.moves_ret calm.moves_seq calm_get calm_session calm_deliver)

lemma advance_thread:
  assumes "th_step_index t = None"
  shows "moves (advance_rel sid r k) (save_thread s t)"
  using gains_save_thread [of sid r k s t] assms by (intro gains_advance) (simp add: at_step_def)

interpretation advance_base: completion_base "advance_rel sid r k" E sid for sid r k E
proof (intro completion_base.intro advance_act completion_base_axioms.intro)
  fix w :: world and x1 x2 x3 x4
  show "advance_rel sid r k w (w\<lparr>w_wakes := x1\<rparr>)" "advance_rel sid r k w (w\<lparr>w_spawned := x2\<rparr>)"
    "advance_rel sid r k w (w\<lparr>w_telegrams := x3\<rparr>)" "advance_rel sid r k w (w\<lparr>w_worktrees := x4\<rparr>)"
    by (simp_all add: advance_rel_def steps_at_def)
qed (simp_all add: gains_advance calm_gains calm_store calm_save calm_once calm_session gains_create gains_status
    gains_recycle advance_thread)

text \<open>A thread with a place in a chain knows its chain, as every spawned step does.\<close>

definition chained :: "thread \<Rightarrow> bool" where
  "chained t \<longleftrightarrow> (th_step_index t \<noteq> None \<longrightarrow> th_chain_root t \<noteq> None)"

lemma gains_zero_bind_known:
  assumes "gains anyway mu 0 m" "\<And>w a w'. m w = (Val a, w') \<Longrightarrow> P a" "\<And>a. P a \<Longrightarrow> gains anyway mu k (f a)"
  shows "gains anyway mu k (bind m f)"
  unfolding gains_def
proof (intro allI impI conjI)
  fix w
  obtain r w1 where m: "m w = (r, w1)" by (cases "m w")
  have first: "mu (settle (r, w1)) \<le> mu w" using assms(1) m unfolding gains_def by (metis add_0_right)
  show "mu (settle (bind m f w)) \<le> mu w + k"
  proof (cases r)
    case (Val a)
    then have "mu w1 \<le> mu w" using first by (simp add: settle_def)
    moreover have "mu (settle (f a w1)) \<le> mu w1 + k"
      using assms(2) [of w a w1] assms(3) m Val by (simp add: gains_def)
    ultimately show ?thesis using Val m by (simp add: bind_def)
  qed (use first m in \<open>auto simp: bind_def settle_def\<close>)
qed simp

lemma gains_spawn_step:
  "gains anyway (steps_at sid r k) (if sm_id m = sid \<and> root = Some r \<and> i = k then 1 else 0)
     (spawn_step E m task steps i root prev)" if root: "root \<noteq> None"
proof -
  let ?k = "if sm_id m = sid \<and> root = Some r \<and> i = k then 1 else 0 :: nat"
  obtain y where y: "root = Some y" using root by blast
  have save: "gains anyway (steps_at sid r k) ?k
      (save_thread (sm_id m) (t\<lparr>th_chain_root := Some (case root of Some r \<Rightarrow> r | None \<Rightarrow> th_id t), th_step_index := Some i\<rparr>))" for t
    using gains_save_thread [of sid r k "sm_id m"
      "t\<lparr>th_chain_root := Some (case root of Some r \<Rightarrow> r | None \<Rightarrow> th_id t), th_step_index := Some i\<rparr>"] y
    by (simp add: at_step_def)
  have calm: "moves same_threads (bind p (\<lambda>prompt. fire_scheduled_worker E m task t d b prompt))"
    if "moves same_threads p" for p t d b
    unfolding fire_scheduled_worker_def spawn_worker_def
    by (intro calm.moves_bind that)
      (auto split: prod.split
        intro!: calm.moves_bind calm.moves_ret calm.moves_lift calm_get calm.moves_seq calm_durable calm_persist)
  have nth: "moves same_threads (nth_step E steps j)" for j
    unfolding nth_step_def by (auto split: option.split intro: calm.moves_raise calm.moves_ret)
  have prompt: "moves same_threads (if i > 0 then
                     bind (nth_step E steps (i - 1)) (\<lambda>prev'.
                       case sc_prompt step of
                         None \<Rightarrow> raise (e_text E AttributeError)
                       | Some p \<Rightarrow> ret (g p prev'))
                   else ret (sc_prompt step))" for step g
    by (auto split: option.split intro!: calm.moves_bind nth calm.moves_raise calm.moves_ret)
  have k0: "gains anyway (steps_at sid r k) (?k + 0) (seq (save_thread (sm_id m) t) rest)"
    if "gains anyway (steps_at sid r k) ?k (save_thread (sm_id m) t)" "moves same_threads rest" for t and rest :: "unit act"
    unfolding seq_def using that by (intro gains_bind calm_gains)
  show ?thesis
    unfolding spawn_step_def Let_def
    by (intro gains_bind0 calm_gains nth gains_create) (rule k0 [simplified], rule save, rule calm, rule prompt)
qed

lemma advance_advance:
  assumes "chained t" "th_step_index t \<noteq> None"
  shows "moves (advance_rel sid r k) (advance_chain E sid m t task steps i)"
  unfolding moves_def
proof
  fix w
  let ?act = "bind (extract_review_context E sid (th_id t)) (\<lambda>(_, previous_result).
         if truthy previous_result
         then spawn_step E m task steps (i + 1) (th_chain_root t) previous_result
         else bind (nth_step E steps i) (\<lambda>step.
           wake_master_with_chain E sid t (Some task)
             (Some (''Chain stopped: step '' @ [CHR 0x27] @ sc_name step @ [CHR 0x27] @ '' produced no result.''))))"
  have root: "th_chain_root t \<noteq> None" using assms by (simp add: chained_def)
  show "advance_rel sid r k w (settle (advance_chain E sid m t task steps i w))"
  proof (cases "already_advanced (rev (w_threads w sid)) t (i + 1)")
    case True
    then show ?thesis
      by (simp add: advance_chain_def list_threads_def bind_def read_def ret_def settle_def advance_rel_def)
  next
    case False
    have run: "advance_chain E sid m t task steps i w = ?act w"
      using False by (simp add: advance_chain_def list_threads_def bind_def read_def)
    obtain ur prev where x: "extract_review_context E sid (th_id t) w = (Val (ur, prev), w)"
      by (cases "fst (extract_review_context E sid (th_id t) w)")
        (auto simp: extract_review_context_def read_def)
    show ?thesis
    proof (cases "truthy prev")
      case True
      have "gains anyway (steps_at sid r k)
          (if sm_id m = sid \<and> th_chain_root t = Some r \<and> i + 1 = k then 1 else 0)
          (spawn_step E m task steps (i + 1) (th_chain_root t) prev)"
        by (rule gains_spawn_step [OF root])
      then have "steps_at sid r k (settle (spawn_step E m task steps (i + 1) (th_chain_root t) prev w)) \<le>
          steps_at sid r k w + (if sm_id m = sid \<and> th_chain_root t = Some r \<and> i + 1 = k then 1 else 0)"
        by (simp add: gains_def)
      moreover have "th_chain_root t = Some r \<Longrightarrow> i + 1 = k \<Longrightarrow> steps_at sid r k w = 0"
        using False by (auto simp: already_advanced_def steps_at_def at_step_def filter_empty_conv)
      ultimately have "advance_rel sid r k w (settle (spawn_step E m task steps (i + 1) (th_chain_root t) prev w))"
        by (auto simp: advance_rel_def split: if_splits)
      then show ?thesis using run x True by (simp add: bind_def)
    next
      case False
      have "moves (advance_rel sid r k) (bind (nth_step E steps i) (\<lambda>step.
           wake_master_with_chain E sid t (Some task)
             (Some (''Chain stopped: step '' @ [CHR 0x27] @ sc_name step @ [CHR 0x27] @ '' produced no result.''))))"
        by (intro advance_base.moves_bind advance_base.m_nth advance_base.m_wake_chain)
      then show ?thesis using run x False by (simp add: moves_def bind_def)
    qed
  qed
qed

interpretation advance: completion_relation "advance_rel sid r k" E sid chained for sid r k E
  by unfold_locales (rule advance_advance)

fun call_chained :: "call \<Rightarrow> bool" where
  "call_chained (FinalizeRun d t ro sk v at) = chained t"
| "call_chained (RecompleteRun d t c v) = chained t"
| "call_chained (OtherEvent s ev) = True"

lemma advance_call: "call_chained c \<Longrightarrow> moves (advance_rel sid r k) (do_call E sid c)"
  by (cases c) (simp_all add: advance.m_finalize_safely advance.m_recomplete gains_advance calm_gains calm_persist)

text \<open>
  C4. A cron chain never runs a step twice: through any number of finalizations and re-completions of
  the session's workers, kills included, there is at most one thread at each place of a chain.
\<close>

theorem chain_advances_at_most_once:
  assumes "\<forall>(b, c) \<in> set calls. call_chained c" "steps_at sid r k w \<le> 1"
  shows "steps_at sid r k (life E sid calls w) \<le> 1"
  using assms
proof (induction calls arbitrary: w)
  case (Cons bc calls)
  obtain b c where bc: "bc = (b, c)" by (cases bc)
  have "advance_rel sid r k (w\<lparr>w_budget := b\<rparr>) (settle (do_call E sid c (w\<lparr>w_budget := b\<rparr>)))"
    using advance_call Cons.prems(1) bc by (simp add: moves_def)
  then have "steps_at sid r k (settle (do_call E sid c (w\<lparr>w_budget := b\<rparr>))) \<le> 1"
    using Cons.prems(2) by (simp add: advance_rel_def steps_at_quiet)
  then show ?case using Cons.IH Cons.prems(1) bc by (simp add: life_def)
qed (simp add: life_def)

end
