(* ===== verification/Finalize_Outcome.thy ===== *)
theory Finalize_Outcome
  imports Finalize_Once
begin

text \<open>
  What a completion that is not killed achieves: the summary reaches the chat whatever fails, and the
  master hears of it; and what a session with a successor does to both.
\<close>

subsection \<open>What only grows\<close>

definition told :: "string \<Rightarrow> string \<Rightarrow> world \<Rightarrow> bool" where
  "told sid tid w \<longleftrightarrow> terminal_summary_present (w_archive w sid @ cs_files (w_store w) sid) tid"

definition grow_rel :: "world \<Rightarrow> world \<Rightarrow> bool" where
  "grow_rel w w' \<longleftrightarrow>
     (coherent w \<and> w_budget w = None \<longrightarrow>
        coherent w' \<and> w_budget w' = None \<and> w_archive w' = w_archive w \<and> prefix (w_wakes w) (w_wakes w') \<and>
        (\<forall>s. prefix (cs_files (w_store w) s) (cs_files (w_store w') s)))"

interpretation grow: act_relation grow_rel
  by unfold_locales
    (auto simp: grow_rel_def coherent_quiet dest: prefix_order.trans, meson prefix_order.trans)

lemma grow_quiet:
  assumes "\<And>w. w_store (f w) = w_store w" "\<And>w. w_archive (f w) = w_archive w"
    "\<And>w. w_wakes (f w) = w_wakes w" "\<And>w. w_budget (f w) = w_budget w"
  shows "moves grow_rel (durable f)"
  by (rule grow.moves_durable) (simp add: grow_rel_def assms coherent_def)

lemma grow_load:
  "moves grow_rel (store_load E s)" "moves grow_rel (summary_present E s t)" "moves grow_rel (master_woke E s t)"
  using judged_loads load_files load_keeps
  by (simp_all add: moves_def grow_rel_def coherent_def store_load_def summary_present_def master_woke_def
      Let_def case_prod_unfold)

lemma grow_save: "typed_event ev \<Longrightarrow> moves grow_rel (store_save E s ev)"
  unfolding moves_def
proof
  fix w
  assume ty: "typed_event ev"
  show "grow_rel w (settle (store_save E s ev w))"
  proof (cases "coherent w \<and> w_budget w = None")
    case True
    then obtain ev' st where "store_coherent st"
      "cs_files st = (cs_files (w_store w))(s := cs_files (w_store w) s @ [ev'])"
      "store_save E s ev w = (Val (), w\<lparr>w_clock := Suc (w_clock w), w_store := st, w_budget := None\<rparr>)"
      using save_at [of w ev s E] ty by auto
    then show ?thesis using True by (simp add: grow_rel_def settle_def coherent_def)
  next
    case False
    then show ?thesis by (auto simp: grow_rel_def)
  qed
qed

lemma grow_session: "moves grow_rel (save_session m)"
  unfolding save_session_def by (rule grow_quiet) simp_all

lemma grow_get: "moves grow_rel (get_session s)"
  unfolding get_session_def by (rule grow.moves_read)

lemma grow_threads: "moves grow_rel (save_thread s th)" "moves grow_rel (create_thread E s d of_id rr)"
  "moves grow_rel (update_status E s t st c a)" "moves grow_rel (gc_old_threads s cutoff)"
proof -
  show save: "moves grow_rel (save_thread s th)" for s th
    unfolding save_thread_def by (rule grow_quiet) simp_all
  show "moves grow_rel (create_thread E s d of_id rr)"
    unfolding create_thread_def Let_def by (intro grow.moves_bind grow.moves_tick grow.moves_seq save grow.moves_ret)
  show "moves grow_rel (update_status E s t st c a)"
    unfolding update_status_def get_thread_def
    by (auto split: option.split intro!: grow.moves_bind grow.moves_read grow.moves_ret grow.moves_tick save)
  show "moves grow_rel (gc_old_threads s cutoff)"
    unfolding gc_old_threads_def list_threads_def
    by (intro grow.moves_bind grow.moves_read grow.moves_for_each grow_quiet) simp_all
qed

lemma grow_resolve: "moves grow_rel (resolve_successor_chain s)"
  unfolding resolve_successor_chain_def
  by (auto split: option.split intro!: grow.moves_bind grow_get grow.moves_read grow.moves_ret grow.moves_raise)

lemma grow_persist: "typed_event ev \<Longrightarrow> moves grow_rel (persist_and_broadcast E s ev)"
  unfolding persist_and_broadcast_def by (intro grow.moves_seq grow_load grow_save)

lemma grow_attempts: "typed_event ev \<Longrightarrow> moves grow_rel (deliver_attempts E n s ev)"
  by (induction n)
    (auto split: option.split simp: typed_origin
      intro!: grow.moves_raise grow.moves_bind grow_resolve grow_get grow.moves_ret grow.moves_seq grow_persist)

lemma grow_unread: "moves grow_rel (mark_unread s)"
  unfolding mark_unread_def
  by (auto split: option.split intro!: grow.moves_bind grow_get grow.moves_ret grow_session)

lemma grow_once: "typed_event ev \<Longrightarrow> moves grow_rel (persist_worker_summary_once E s t ev)"
  unfolding persist_worker_summary_once_def deliver_to_successor_def
  by (intro grow.moves_bind grow_load grow.moves_if grow.moves_ret grow.moves_seq grow_unread grow_attempts)

definition kept_rel :: "env \<Rightarrow> string \<Rightarrow> string \<Rightarrow> world \<Rightarrow> world \<Rightarrow> bool" where
  "kept_rel E sid tid w w' \<longleftrightarrow>
     (turn_plain E \<and> coherent w \<and> w_budget w = None \<longrightarrow>
        coherent w' \<and> w_budget w' = None \<and> prefix (w_wakes w) (w_wakes w') \<and> (told sid tid w \<longrightarrow> told sid tid w'))"

lemma grow_kept: "grow_rel w w' \<Longrightarrow> kept_rel E sid tid w w'"
  by (auto simp: grow_rel_def kept_rel_def told_def terminal_summary_present_def dest!: spec [of _ sid] set_mono_prefix)

lemma kept_grow: "moves grow_rel m \<Longrightarrow> moves (kept_rel E sid tid) m"
  by (simp add: moves_def grow_kept)

lemma kept_act: "act_relation (kept_rel E sid tid)"
  by unfold_locales (auto simp: kept_rel_def coherent_quiet told_def dest: prefix_order.trans)

lemma present_append: "terminal_summary_present (a @ b) tid = (terminal_summary_present a tid \<or> terminal_summary_present b tid)"
  by (auto simp: terminal_summary_present_def)

text \<open>With no kill in the way a rotation moves events, and loses none.\<close>

lemma rotate_tail_free:
  assumes "w_budget w = None"
  shows "\<exists>w'. rotate_tail s stay n w = (Val (), w') \<and> w_budget w' = None \<and> w_archive w' = w_archive w \<and>
    w_wakes w' = w_wakes w \<and> cs_files (w_store w') = (cs_files (w_store w))(s := stay)"
proof (cases "w_sessions w s")
  case None
  then show ?thesis using assms
    by (simp add: rotate_tail_def seq_def bind_def durable_def get_session_def read_def ret_def ghost_def clear_cache_def)
next
  case (Some m)
  then show ?thesis using assms
    by (simp add: rotate_tail_def seq_def bind_def durable_def get_session_def read_def ret_def ghost_def
        clear_cache_def save_session_def)
qed

lemma kept_rotation: "moves (kept_rel E sid tid) (rotation E s cutoff)"
  unfolding moves_def
proof
  fix w
  show "kept_rel E sid tid w (settle (rotation E s cutoff w))"
  proof (cases "coherent w \<and> w_budget w = None")
    case True
    have c: "coherent (settle (rotation E s cutoff w))" using rotation_at True by blast
    consider (err) msg where "rotation E s cutoff w = (Exc msg, w)"
      | (none) "rotation E s cutoff w = (Val (), w)"
      | (some) old stay where "cs_files (w_store w) s = old @ stay" "rotation E s cutoff w =
          rotate_tail s stay (length old) (w\<lparr>w_archive := (w_archive w)(s := w_archive w s @ old)\<rparr>)"
    proof (cases "archive_split (e_stamp E) cutoff (cs_files (w_store w) s)")
      case (Inl e)
      moreover have "\<exists>msg. lift_py E (Inl e :: (dict list \<times> dict list) py) w = (Exc msg, w)"
        by (cases e) (simp_all add: lift_py_def raise_def)
      ultimately show ?thesis using err by (auto simp: rotation_def bind_def read_def)
    next
      case (Inr p)
      obtain old stay where p: "p = (old, stay)" by (cases p)
      show ?thesis
      proof (cases "old = []")
        case True
        then show ?thesis using none Inr p by (simp add: rotation_def bind_def read_def ret_def)
      next
        case False
        have f: "cs_files (w_store w) s = old @ stay" using Inr p archive_split_files by blast
        have "rotation E s cutoff w =
            rotate_tail s stay (length old) (w\<lparr>w_archive := (w_archive w)(s := w_archive w s @ old)\<rparr>)"
          using Inr p False True by (simp add: rotation_def bind_def read_def seq_def durable_def)
        then show ?thesis using some f by blast
      qed
    qed
    then show ?thesis
    proof cases
      case (err msg)
      then show ?thesis by (simp add: settle_def kept_rel_def)
    next
      case none
      then show ?thesis by (simp add: settle_def kept_rel_def)
    next
      case (some old stay)
      let ?w1 = "w\<lparr>w_archive := (w_archive w)(s := w_archive w s @ old)\<rparr>"
      obtain w' where w': "rotate_tail s stay (length old) ?w1 = (Val (), w')" "w_budget w' = None"
        "w_archive w' = w_archive ?w1" "w_wakes w' = w_wakes ?w1"
        "cs_files (w_store w') = (cs_files (w_store ?w1))(s := stay)"
        using rotate_tail_free [of ?w1 s stay "length old"] True by auto
      have set: "settle (rotation E s cutoff w) = w'" using some(2) w'(1) by (simp add: settle_def)
      have "told sid tid w \<longrightarrow> told sid tid w'"
        unfolding told_def w'(3,5) using some(1) by (auto simp: present_append)
      then show ?thesis using c w' set by (simp add: kept_rel_def)
    qed
  next
    case False
    then show ?thesis by (auto simp: kept_rel_def)
  qed
qed

lemma kept_recycle: "moves (kept_rel E sid tid) (recycle_scheduled_session E s cutoff)"
  unfolding recycle_eq rotation_def [symmetric]
  by (intro act_relation.moves_seq [OF kept_act] kept_grow grow_threads kept_rotation)

lemma kept_turn: "ev \<in> set (fst (e_turn E s p r)) \<Longrightarrow> moves (kept_rel E sid tid) (store_save E s ev)"
proof (cases "turn_plain E")
  case True
  moreover assume "ev \<in> set (fst (e_turn E s p r))"
  ultimately show ?thesis by (intro kept_grow grow_save) (simp add: turn_plain_def plain_event_def)
qed (simp add: moves_def kept_rel_def)

lemma kept_ghost:
  "kept_rel E sid tid w (w\<lparr>w_wakes := w_wakes w @ x1\<rparr>)" "kept_rel E sid tid w (w\<lparr>w_spawned := x2\<rparr>)"
  "kept_rel E sid tid w (w\<lparr>w_telegrams := x3\<rparr>)" "kept_rel E sid tid w (w\<lparr>w_worktrees := x4\<rparr>)"
  by (simp_all add: kept_rel_def told_def coherent_def)

interpretation kept_base: completion_base "kept_rel E sid tid" E sid for E sid tid
  by (intro completion_base.intro kept_act completion_base_axioms.intro)
    (simp_all add: kept_turn kept_grow grow_load grow_save grow_once grow_session grow_threads kept_recycle
      kept_ghost plain_event_def summary_of_def typed_event_def)

interpretation keeps: completion_relation "kept_rel E sid tid" E sid "\<lambda>_. True" for E sid tid
  by unfold_locales (intro kept_base.m_advance_if kept_base.m_spawn_step_if kept_grow grow_threads)

text \<open>Without a budget nothing is killed.\<close>

lemma kept_alive:
  assumes "moves (kept_rel E sid tid) m" "turn_plain E" "coherent w" "w_budget w = None" "m w = (r, w')"
  shows "r \<noteq> Killed \<and> coherent w' \<and> w_budget w' = None \<and> prefix (w_wakes w) (w_wakes w') \<and>
    (told sid tid w \<longrightarrow> told sid tid w')"
proof -
  have k: "kept_rel E sid tid w (settle (r, w'))" using assms(1,5) unfolding moves_def by metis
  then have "w_budget (settle (r, w')) = None" using assms(2-4) by (simp add: kept_rel_def)
  then have "r \<noteq> Killed" by (auto simp: settle_def restart_def)
  then show ?thesis using k assms(2-4) by (cases r) (simp_all add: kept_rel_def settle_def)
qed

subsection \<open>A session at the end of its chain\<close>

definition healthy :: "string \<Rightarrow> world \<Rightarrow> bool" where
  "healthy sid w \<longleftrightarrow> (\<exists>m. w_sessions w sid = Some m \<and> sm_id m = sid \<and> sm_successor m = None)"

text \<open>The world is running, its store is sound, and the session is at the end of its chain.\<close>

definition up :: "string \<Rightarrow> world \<Rightarrow> bool" where
  "up sid w \<longleftrightarrow> coherent w \<and> w_budget w = None \<and> healthy sid w"

definition frame :: "world \<Rightarrow> world \<Rightarrow> bool" where
  "frame w w' \<longleftrightarrow> w_threads w' = w_threads w \<and> w_archive w' = w_archive w \<and> w_wakes w' = w_wakes w \<and>
     w_worktrees w' = w_worktrees w \<and> w_spawned w' = w_spawned w"

lemma frame_trans: "frame u v \<Longrightarrow> frame v w \<Longrightarrow> frame u w"
  by (simp add: frame_def)

lemma walk_end: "sm_successor m = None \<Longrightarrow> walk_successors n metas m = Some m"
  by (simp add: walk_successors.simps)

lemma resolve_end:
  "w_sessions w sid = Some m \<Longrightarrow> sm_successor m = None \<Longrightarrow> resolve_successor_chain sid w = (Val (Some m), w)"
  by (simp add: resolve_successor_chain_def get_session_def bind_def read_def ret_def walk_end)

lemma persist_free:
  assumes "coherent w" "w_budget w = None" "typed_event ev"
  shows "\<exists>ev' w'. persist_and_broadcast E s ev w = (Val (), w') \<and> coherent w' \<and> w_budget w' = None \<and> frame w w' \<and>
     w_sessions w' = w_sessions w \<and>
     (\<forall>t. is_terminal_worker_summary ev' t = is_terminal_worker_summary ev t) \<and>
     is_master_output ev' = is_master_output ev \<and> typed_event ev' \<and>
     cs_files (w_store w') = (cs_files (w_store w))(s := cs_files (w_store w) s @ [ev'])"
proof -
  obtain st where l: "store_load E s w = (Val (cs_files (w_store w) s), w\<lparr>w_store := st\<rparr>)" "store_coherent st"
    "cs_files st = cs_files (w_store w)"
    using load_at [OF assms(1)] by blast
  have c: "coherent (w\<lparr>w_store := st\<rparr>)" using l(2) by (simp add: coherent_def)
  obtain ev' st' where sv: "store_coherent st'" "\<forall>t. is_terminal_worker_summary ev' t = is_terminal_worker_summary ev t"
      "is_master_output ev' = is_master_output ev" "typed_event ev'"
      "cs_files st' = (cs_files st)(s := cs_files st s @ [ev'])"
      "store_save E s ev (w\<lparr>w_store := st\<rparr>) =
         (Val (), w\<lparr>w_store := st', w_clock := Suc (w_clock w), w_budget := None\<rparr>)"
    using save_at [OF c assms(3), of s E] assms(2) by auto
  show ?thesis
    using l sv by (intro exI [of _ ev'] exI [of _ "w\<lparr>w_store := st', w_clock := Suc (w_clock w), w_budget := None\<rparr>"])
      (simp add: persist_and_broadcast_def seq_def bind_def coherent_def frame_def)
qed

lemma deliver_free:
  assumes "up sid w" "typed_event ev"
  shows "\<exists>ev' w'. deliver_to_successor E sid ev w = (Val (Some sid), w') \<and> up sid w' \<and> frame w w' \<and>
     (\<forall>t. is_terminal_worker_summary ev' t = is_terminal_worker_summary ev t) \<and> typed_event ev' \<and>
     cs_files (w_store w') = (cs_files (w_store w))(sid := cs_files (w_store w) sid @ [ev'])"
proof -
  obtain m where m: "w_sessions w sid = Some m" "sm_id m = sid" "sm_successor m = None"
    using assms(1) by (auto simp: up_def healthy_def)
  obtain ev' w' where p: "persist_and_broadcast E sid ev w = (Val (), w')" "coherent w'" "w_budget w' = None" "frame w w'"
     "w_sessions w' = w_sessions w" "\<forall>t. is_terminal_worker_summary ev' t = is_terminal_worker_summary ev t" "typed_event ev'"
     "cs_files (w_store w') = (cs_files (w_store w))(sid := cs_files (w_store w) sid @ [ev'])"
    using persist_free [of w ev E sid] assms by (auto simp: up_def)
  have "deliver_to_successor E sid ev w = (Val (Some sid), w')"
    using m p(1) resolve_end [OF m(1,3)]
    by (simp add: deliver_to_successor_def bind_def get_session_def read_def seq_def ret_def)
  moreover have "up sid w'" using p m by (simp add: up_def healthy_def)
  ultimately show ?thesis using p by blast
qed

lemma save_session_free:
  assumes "up sid w" "sm_id m = sid" "sm_successor m = None"
  shows "\<exists>w'. save_session m w = (Val (), w') \<and> up sid w' \<and> frame w w' \<and> w_store w' = w_store w"
  using assms by (simp add: save_session_def durable_def up_def healthy_def frame_def coherent_def)

lemma unread_free:
  assumes "up sid w"
  shows "\<exists>w'. mark_unread sid w = (Val (), w') \<and> up sid w' \<and> frame w w' \<and> w_store w' = w_store w"
proof -
  obtain m where m: "w_sessions w sid = Some m" "sm_id m = sid" "sm_successor m = None"
    using assms by (auto simp: up_def healthy_def)
  show ?thesis
  proof (cases "sm_unread m")
    case True
    then show ?thesis using m assms by (simp add: mark_unread_def get_session_def bind_def read_def ret_def frame_def)
  next
    case False
    then show ?thesis
      using m save_session_free [OF assms, of "m\<lparr>sm_unread := True\<rparr>"]
      by (simp add: mark_unread_def get_session_def bind_def read_def)
  qed
qed

lemma once_free:
  assumes "up sid w" "is_terminal_worker_summary ev tid" "typed_event ev"
  shows "\<exists>w'. persist_worker_summary_once E sid tid ev w = (Val (), w') \<and> up sid w' \<and> frame w w' \<and>
     (if terminal_summary_present (cs_files (w_store w) sid) tid then cs_files (w_store w') sid = cs_files (w_store w) sid
      else \<exists>ev'. is_terminal_worker_summary ev' tid \<and> cs_files (w_store w') sid = cs_files (w_store w) sid @ [ev'])"
proof -
  let ?there = "terminal_summary_present (cs_files (w_store w) sid) tid"
  have c: "coherent w" using assms(1) by (simp add: up_def)
  obtain st where p: "summary_present E sid tid w = (Val ?there, w\<lparr>w_store := st\<rparr>)" "store_coherent st"
    "cs_files st = cs_files (w_store w)"
    using present_at [OF c] by blast
  let ?w1 = "w\<lparr>w_store := st\<rparr>"
  have up1: "up sid ?w1" using assms(1) p(2) by (simp add: up_def coherent_def healthy_def)
  show ?thesis
  proof (cases ?there)
    case True
    then show ?thesis using p up1
      by (intro exI [of _ ?w1]) (simp add: persist_worker_summary_once_def bind_def ret_def frame_def)
  next
    case False
    obtain w2 where w2: "mark_unread sid ?w1 = (Val (), w2)" "up sid w2" "frame ?w1 w2" "w_store w2 = w_store ?w1"
      using unread_free [OF up1] by blast
    obtain ev' w3 where w3: "deliver_to_successor E sid ev w2 = (Val (Some sid), w3)" "up sid w3" "frame w2 w3"
       "\<forall>t. is_terminal_worker_summary ev' t = is_terminal_worker_summary ev t"
       "cs_files (w_store w3) = (cs_files (w_store w2))(sid := cs_files (w_store w2) sid @ [ev'])"
      using deliver_free [OF w2(2) assms(3)] by blast
    have "persist_worker_summary_once E sid tid ev w = (Val (), w3)"
      using p(1) False w2(1) w3(1) by (simp add: persist_worker_summary_once_def bind_def seq_def ret_def)
    moreover have "frame w w3" using w2(3) w3(3) by (simp add: frame_def)
    ultimately show ?thesis
      using w3 w2(4) p(3) False assms(2) by (intro exI [of _ w3]) auto
  qed
qed

lemma once_free_told:
  assumes "up sid w" "is_terminal_worker_summary ev tid" "typed_event ev"
  shows "\<exists>w'. persist_worker_summary_once E sid tid ev w = (Val (), w') \<and> up sid w' \<and> told sid tid w' \<and>
    w_wakes w' = w_wakes w"
  using once_free [OF assms, of E]
  by (auto simp: told_def present_append frame_def terminal_summary_present_def split: if_splits)

subsection \<open>The summary is never lost\<close>

lemma worker_event_terminal:
  "status \<noteq> ''running'' \<Longrightarrow> is_terminal_worker_summary (thread_worker_event tid b m status whole content at) tid"
  by (simp add: is_terminal_worker_summary_def thread_worker_event_def dget_def)

lemma worker_event_typed: "typed_event (thread_worker_event tid b m status whole content at)"
  by (simp add: typed_event_def thread_worker_event_def dget_def)

lemma up_clock: "up sid w \<Longrightarrow> up sid (w\<lparr>w_clock := n\<rparr>)"
  by (simp add: up_def coherent_quiet healthy_def)

lemma last_run_free:
  assumes "up sid w"
  shows "\<exists>name w'. stamp_last_run sid c w = (Val name, w') \<and> up sid w' \<and> frame w w' \<and> w_store w' = w_store w"
proof -
  obtain m where m: "w_sessions w sid = Some m" "sm_id m = sid" "sm_successor m = None"
    using assms by (auto simp: up_def healthy_def)
  show ?thesis
  proof (cases "truthy (sm_scheduled m)")
    case True
    obtain w' where "save_session (m\<lparr>sm_last_run := Some (if c = 0 then ''success'' else ''failed'')\<rparr>) w = (Val (), w')"
      "up sid w'" "frame w w'" "w_store w' = w_store w"
      using save_session_free [OF assms, of "m\<lparr>sm_last_run := Some (if c = 0 then ''success'' else ''failed'')\<rparr>"] m
      by auto
    then show ?thesis using m True
      by (simp add: stamp_last_run_def get_session_def bind_def read_def seq_def ret_def)
  next
    case False
    then show ?thesis using m assms
      by (simp add: stamp_last_run_def get_session_def bind_def read_def ret_def frame_def)
  qed
qed

lemma fallback_free:
  assumes "up sid w"
  shows "\<exists>w'. fallback_notify E sid t ro e w = (Val (), w') \<and> told sid (th_id t) w' \<and> w_wakes w' = w_wakes w"
proof -
  let ?ev = "let status = exit_status_label (ro_exit ro);
              fallback = worker_locator_summary (th_id t) status (e_summary_time E (e_now E (w_clock w)));
              whole = fallback @ [newline, newline] @ ''*(summary unavailable: '' @ e @ '')*''
          in thread_worker_event (th_id t) (th_backend t) (th_model t) status whole (Some fallback) []"
  have "is_terminal_worker_summary ?ev (th_id t)" "typed_event ?ev"
    by (simp_all add: Let_def worker_event_terminal worker_event_typed exit_status_label_def)
  then obtain w' where "persist_worker_summary_once E sid (th_id t) ?ev (w\<lparr>w_clock := Suc (w_clock w)\<rparr>) = (Val (), w')"
    "told sid (th_id t) w'" "w_wakes w' = w_wakes w"
    using once_free_told [OF up_clock [OF assms, of "Suc (w_clock w)"], of ?ev "th_id t" E] by auto
  then show ?thesis
    by (simp add: fallback_notify_def try_except_def bind_def tick_def Let_def)
qed

lemma fallback_never_raises: "fallback_notify E sid t ro e w \<noteq> (Exc msg, w')"
  by (auto simp: fallback_notify_def try_except_def ret_def split: prod.splits outcome.splits)

lemma lift_cases: "(\<exists>a. lift_py E r w = (Val a, w)) \<or> (\<exists>msg. lift_py E r w = (Exc msg, w))"
  by (auto simp: lift_py_def ret_def raise_def split: sum.split py_error.split)

lemma broadcast_cases:
  assumes "up sid w"
  obtains (unreadable) msg where "rep = None" "read_summary E sid (th_id t) w = (Exc msg, w)"
      "broadcast_completion E sid d t ro rep w = (Exc msg, w)"
  | (sent) s whole w' where "broadcast_completion E sid d t ro rep w = (Val (s, whole), w')" "up sid w'"
      "told sid (th_id t) w'" "frame w w'"
      "\<not> terminal_summary_present (cs_files (w_store w) sid) (th_id t) \<longrightarrow>
         (\<exists>ev'. is_terminal_worker_summary ev' (th_id t) \<and> cs_files (w_store w') sid = cs_files (w_store w) sid @ [ev'])"
proof -
  have send: "\<exists>whole w'. bind (thread_cancelled sid (th_id t)) (\<lambda>cancelled.
       let status = (if cancelled then ''cancelled'' else exit_status_label (ro_exit ro));
           whole = full_summary d t ro cancelled rep s
       in bind tick (\<lambda>n.
          seq (persist_worker_summary_once E sid (th_id t)
                 (thread_worker_event (th_id t) (th_backend t) (th_model t) status whole None
                    (e_summary_time E (e_now E n))))
              (ret (s, whole)))) w = (Val (s, whole), w') \<and> up sid w' \<and> told sid (th_id t) w' \<and> frame w w' \<and>
      (\<not> terminal_summary_present (cs_files (w_store w) sid) (th_id t) \<longrightarrow>
         (\<exists>ev'. is_terminal_worker_summary ev' (th_id t) \<and> cs_files (w_store w') sid = cs_files (w_store w) sid @ [ev']))" for s
  proof -
    let ?c = "thread_of w sid (th_id t) \<noteq> None \<and> th_status (the (thread_of w sid (th_id t))) = T_CANCELLED"
    let ?status = "if ?c then ''cancelled'' else exit_status_label (ro_exit ro)"
    let ?whole = "full_summary d t ro ?c rep s"
    let ?ev = "thread_worker_event (th_id t) (th_backend t) (th_model t) ?status ?whole None
                    (e_summary_time E (e_now E (w_clock w)))"
    let ?w1 = "w\<lparr>w_clock := Suc (w_clock w)\<rparr>"
    have ev: "is_terminal_worker_summary ?ev (th_id t)" "typed_event ?ev"
      by (simp_all add: worker_event_terminal worker_event_typed exit_status_label_def)
    obtain w' where w': "persist_worker_summary_once E sid (th_id t) ?ev ?w1 = (Val (), w')" "up sid w'" "frame ?w1 w'"
       "if terminal_summary_present (cs_files (w_store ?w1) sid) (th_id t)
        then cs_files (w_store w') sid = cs_files (w_store ?w1) sid
        else \<exists>ev'. is_terminal_worker_summary ev' (th_id t) \<and> cs_files (w_store w') sid = cs_files (w_store ?w1) sid @ [ev']"
      using once_free [OF up_clock [OF assms] ev, of E] by blast
    have "told sid (th_id t) w'"
      using w'(4) by (auto simp: told_def present_append terminal_summary_present_def split: if_splits)
    moreover have "bind (thread_cancelled sid (th_id t)) (\<lambda>cancelled.
       let status = (if cancelled then ''cancelled'' else exit_status_label (ro_exit ro));
           whole = full_summary d t ro cancelled rep s
       in bind tick (\<lambda>n.
          seq (persist_worker_summary_once E sid (th_id t)
                 (thread_worker_event (th_id t) (th_backend t) (th_model t) status whole None
                    (e_summary_time E (e_now E n))))
              (ret (s, whole)))) w = (Val (s, ?whole), w')"
      using w'(1) by (simp add: bind_def thread_cancelled_def get_thread_def read_def ret_def tick_def seq_def Let_def)
    moreover have "\<not> terminal_summary_present (cs_files (w_store w) sid) (th_id t) \<longrightarrow>
         (\<exists>ev'. is_terminal_worker_summary ev' (th_id t) \<and> cs_files (w_store w') sid = cs_files (w_store w) sid @ [ev'])"
      using w'(4) by (simp split: if_splits)
    moreover have "frame w w'" using w'(3) by (simp add: frame_def)
    ultimately show ?thesis using w'(2) by blast
  qed
  show ?thesis
  proof (cases rep)
    case (Some s)
    then show ?thesis using send [of s] sent by (auto simp: broadcast_completion_def act_monad)
  next
    case None
    then consider (bad) msg where "read_summary E sid (th_id t) w = (Exc msg, w)"
      | (good) s where "read_summary E sid (th_id t) w = (Val s, w)"
      using lift_cases [of E "read_events_summary (e_show E) (e_parser E) (e_log E sid (th_id t))" w]
      unfolding read_summary_def by blast
    then show ?thesis
    proof cases
      case (bad msg)
      then show ?thesis using None unreadable by (simp add: broadcast_completion_def bind_def)
    next
      case (good s)
      then show ?thesis using send [of s] None sent
        by (simp add: broadcast_completion_def bind_def [of "read_summary E sid (th_id t)"]) blast
    qed
  qed
qed

lemma notification_returns:
  assumes "turn_plain E" "up sid w"
  shows "\<exists>w'. notify_completion E sid d t ro rep w = (Val (), w') \<and> told sid (th_id t) w'"
proof -
  obtain name w1 where w1: "stamp_last_run sid (ro_exit ro) w = (Val name, w1)" "up sid w1"
    using last_run_free [OF assms(2)] by blast
  show ?thesis
  proof (rule broadcast_cases [where rep = rep and E = E and d = d and t = t and ro = ro, OF w1(2)])
    fix msg
    assume "broadcast_completion E sid d t ro rep w1 = (Exc msg, w1)"
    then show ?thesis
      using w1 fallback_free [OF w1(2), of E t ro msg]
      by (auto simp: notify_completion_def notify_body_def try_except_def bind_def)
  next
    fix s whole w2
    assume b: "broadcast_completion E sid d t ro rep w1 = (Val (s, whole), w2)" and w2: "up sid w2" "told sid (th_id t) w2"
    let ?rest = "seq (telegram_notify E name s)
       (bind (handle_step_completion E sid t (ro_exit ro)) (\<lambda>owned.
          if owned then ret () else maybe_spawn_reviewer E sid (th_id t) (ro_exit ro) s whole))"
    obtain r w3 where r: "?rest w2 = (r, w3)" by (cases "?rest w2")
    have "moves (kept_rel E sid (th_id t)) ?rest" by (rule keeps.m_handover) simp
    note k0 = kept_alive [OF this assms(1) _ _ r]
    have k: "r \<noteq> Killed" "told sid (th_id t) w3" "coherent w3" "w_budget w3 = None"
      using k0 w2 by (auto simp: up_def)
    have body: "notify_body E sid d t ro rep w = (r, w3)"
      using w1(1) b r by (simp add: notify_body_def bind_def)
    show ?thesis
    proof (cases r)
      case (Val u)
      then show ?thesis using body k(2) by (simp add: notify_completion_def try_except_def)
    next
      case (Exc e)
      obtain r' w4 where f: "fallback_notify E sid t ro e w3 = (r', w4)" by (cases "fallback_notify E sid t ro e w3")
      have m: "moves (kept_rel E sid (th_id t)) (fallback_notify E sid t ro e)" by (rule keeps.m_fallback)
      have "r' \<noteq> Killed" "told sid (th_id t) w4"
        using kept_alive [OF m assms(1) k(3,4) f] k(2) by blast+
      moreover have "r' \<noteq> Exc m" for m using f fallback_never_raises [of E sid t ro e w3 m w4] by auto
      ultimately show ?thesis
        using body Exc f by (cases r') (auto simp: notify_completion_def try_except_def)
    next
      case Killed
      then show ?thesis using k(1) by simp
    qed
  qed
qed

text \<open>
  C5. A completion that is not killed always leaves the worker's terminal summary in the session's
  chat and returns, whatever fails on the way: an unreadable log, an unknown backend, a failing
  reviewer spawn, a failing master, a failing Telegram.
\<close>

theorem completion_is_always_told:
  assumes "turn_plain E" "up sid w"
  shows "\<exists>w'. notify_completion E sid d t ro rep w = (Val (), w') \<and> told sid (th_id t) w'"
  using assms by (rule notification_returns)

subsection \<open>The master hears of it\<close>

text \<open>From \<open>w\<close>, the act gets to ask for a master run on the session, and nothing takes that back.\<close>

definition asks :: "string \<Rightarrow> (string \<times> string) list \<Rightarrow> 'a act \<Rightarrow> world \<Rightarrow> bool" where
  "asks sid before m w \<longleftrightarrow>
     (\<exists>r w' p. m w = (r, w') \<and> r \<noteq> Killed \<and> coherent w' \<and> w_budget w' = None \<and>
        prefix (before @ [(sid, p)]) (w_wakes w'))"

lemma asks_later: "m w = (Val a, w1) \<Longrightarrow> asks sid before (f a) w1 \<Longrightarrow> asks sid before (bind m f) w"
  by (simp add: asks_def bind_def)

lemma seq_at: "m w = (Val a, w1) \<Longrightarrow> seq m k w = k w1"
  by (simp add: seq_def bind_def)

lemma asks_eq: "m w = k v \<Longrightarrow> asks sid before k v \<Longrightarrow> asks sid before m w"
  by (simp add: asks_def)

lemma asks_then:
  assumes "asks sid before m w" "turn_plain E" "\<And>a. moves (kept_rel E sid tid) (f a)"
  shows "asks sid before (bind m f) w"
proof -
  obtain r w1 p where m: "m w = (r, w1)" "r \<noteq> Killed" "coherent w1" "w_budget w1 = None"
    "prefix (before @ [(sid, p)]) (w_wakes w1)"
    using assms(1) by (auto simp: asks_def)
  show ?thesis
  proof (cases r)
    case (Val a)
    obtain r2 w2 where f: "f a w1 = (r2, w2)" by (cases "f a w1")
    have "r2 \<noteq> Killed \<and> coherent w2 \<and> w_budget w2 = None \<and> prefix (w_wakes w1) (w_wakes w2)"
      using kept_alive [OF assms(3) assms(2) m(3,4) f] by blast
    then have "prefix (before @ [(sid, p)]) (w_wakes w2)" using m(5) prefix_order.trans by blast
    moreover have "bind m f w = (r2, w2)" using m(1) Val f by (simp add: bind_def)
    ultimately show ?thesis
      using \<open>r2 \<noteq> Killed \<and> coherent w2 \<and> w_budget w2 = None \<and> prefix (w_wakes w1) (w_wakes w2)\<close>
      unfolding asks_def by blast
  qed (use m in \<open>auto simp: asks_def bind_def\<close>)
qed

lemma asks_try:
  assumes "asks sid before m w" "turn_plain E" "\<And>e. moves (kept_rel E sid tid) (h e)"
  shows "asks sid before (try_except m h) w"
proof -
  obtain r w1 p where m: "m w = (r, w1)" "r \<noteq> Killed" "coherent w1" "w_budget w1 = None"
    "prefix (before @ [(sid, p)]) (w_wakes w1)"
    using assms(1) by (auto simp: asks_def)
  show ?thesis
  proof (cases r)
    case (Exc e)
    obtain r2 w2 where f: "h e w1 = (r2, w2)" by (cases "h e w1")
    have k: "r2 \<noteq> Killed \<and> coherent w2 \<and> w_budget w2 = None \<and> prefix (w_wakes w1) (w_wakes w2)"
      using kept_alive [OF assms(3) assms(2) m(3,4) f] by blast
    then have "prefix (before @ [(sid, p)]) (w_wakes w2)" using m(5) prefix_order.trans by blast
    moreover have "try_except m h w = (r2, w2)" using m(1) Exc f by (simp add: try_except_def)
    ultimately show ?thesis using k unfolding asks_def by blast
  qed (use m in \<open>auto simp: asks_def try_except_def\<close>)
qed

lemma asks_run:
  assumes "turn_plain E" "coherent w" "w_budget w = None"
  shows "asks sid (w_wakes w) (master_turn E sid p c) w"
proof -
  obtain evs res where t: "e_turn E sid p c = (evs, res)" by (cases "e_turn E sid p c")
  let ?w1 = "w\<lparr>w_wakes := w_wakes w @ [(sid, p)]\<rparr>"
  let ?rest = "seq (for_each evs (persist_and_broadcast E sid)) (case res of Inl msg \<Rightarrow> raise msg | Inr new \<Rightarrow> ret new)"
  have turn: "ev \<in> set evs \<Longrightarrow> plain_event ev" for ev
    using assms(1) t unfolding turn_plain_def by (metis fst_conv)
  have m: "moves (kept_rel E sid tid) ?rest" for tid
    using turn by (auto split: sum.split intro!: kept_base.moves_seq kept_base.moves_for_each kept_base.m_persist
        kept_base.moves_raise kept_base.moves_ret)
  obtain r w2 where r: "?rest ?w1 = (r, w2)" by (cases "?rest ?w1")
  have c: "coherent ?w1" "w_budget ?w1 = None" using assms(2,3) by (simp_all add: coherent_def)
  have "r \<noteq> Killed \<and> coherent w2 \<and> w_budget w2 = None \<and> prefix (w_wakes ?w1) (w_wakes w2)"
    using kept_alive [OF m assms(1) c r] by blast
  moreover have "master_turn E sid p c w = (r, w2)"
    using t r by (simp add: master_turn_def seq_def bind_def ghost_def)
  ultimately show ?thesis unfolding asks_def by auto
qed

lemma asks_recovery:
  assumes "turn_plain E" "coherent w" "w_budget w = None" "sm_id m = sid"
  shows "asks sid (w_wakes w) (run_message_with_resume_recovery E m p) w"
  unfolding run_message_with_resume_recovery_def assms(4)
  by (rule asks_try [OF asks_run [OF assms(1-3)] assms(1)])
    (auto intro!: kept_base.moves_raise kept_base.m_master_turn)

lemma weekly_returns:
  assumes "w_budget w = None" "weekly_expiry E m w = (r, w')" "r \<noteq> Killed"
  shows "\<exists>m'. r = Val m' \<and> sm_id m' = sm_id m"
proof -
  consider (keep) w1 where "weekly_expiry E m w = (Val m, w1)"
    | (recycle) s c m' v where "weekly_expiry E m w =
        seq (try_except (recycle_scheduled_session E s c) (\<lambda>_. ret ())) (ret m') v" "sm_id m' = sm_id m"
  proof (cases "sm_cc_session m"; cases "sm_cc_started m")
    fix c st
    assume some: "sm_cc_session m = Some c" "sm_cc_started m = Some st"
    let ?now = "e_now E (w_clock w)"
    let ?m = "m\<lparr>sm_cc_session := None, sm_cc_started := None\<rparr>"
    let ?v = "w\<lparr>w_clock := Suc (w_clock w), w_sessions := (w_sessions w)(sm_id m \<mapsto> ?m)\<rparr>"
    have e: "weekly_expiry E m w =
       (if \<not> truthy (sm_scheduled m) \<or> c = [] then (Val m, w)
        else if st < last_saturday E ?now \<and> last_saturday E ?now < ?now
        then seq (try_except (recycle_scheduled_session E (sm_id m) (last_saturday E ?now)) (\<lambda>_. ret ())) (ret ?m) ?v
        else (Val m, w\<lparr>w_clock := Suc (w_clock w)\<rparr>))"
      using some assms(1)
      by (simp add: weekly_expiry_def Let_def bind_def tick_def ret_def seq_def save_session_def durable_def)
    show thesis
    proof (cases "truthy (sm_scheduled m) \<and> c \<noteq> [] \<and> st < last_saturday E ?now \<and> last_saturday E ?now < ?now")
      case True
      then show thesis using e recycle [of "sm_id m" "last_saturday E ?now" ?m ?v] by simp
    next
      case False
      then show thesis using e keep by (auto split: if_splits)
    qed
  qed (use keep in \<open>auto simp: weekly_expiry_def ret_def\<close>)
  then show ?thesis
  proof cases
    case (keep w1)
    then show ?thesis using assms(2) by simp
  next
    case (recycle s c m' v)
    obtain q v' where q: "recycle_scheduled_session E s c v = (q, v')" by (cases "recycle_scheduled_session E s c v")
    then show ?thesis
      using recycle assms(2,3) by (cases q) (auto simp: seq_def bind_def try_except_def ret_def)
  qed
qed

definition same_wakes :: "world \<Rightarrow> world \<Rightarrow> bool" where
  "same_wakes w w' \<longleftrightarrow> w_wakes w' = w_wakes w"

interpretation hush: act_relation same_wakes
  by unfold_locales (simp_all add: same_wakes_def restart_def)

lemma hush_durable: "(\<And>w. w_wakes (f w) = w_wakes w) \<Longrightarrow> moves same_wakes (durable f)"
  by (rule hush.moves_durable) (simp add: same_wakes_def)

lemma hush_session: "moves same_wakes (save_session m)"
  unfolding save_session_def by (rule hush_durable) simp

lemma hush_weekly: "moves same_wakes (weekly_expiry E m)"
proof -
  have tail: "moves same_wakes (rotate_tail s stay n)" for s stay n
    unfolding rotate_tail_def get_session_def
    by (intro hush.moves_seq hush.moves_bind hush.moves_read hush_durable hush.moves_ghost)
      (auto simp: same_wakes_def split: option.split intro: hush.moves_ret hush_session)
  have rot: "moves same_wakes (rotation E s c)" for s c
    unfolding rotation_def
    by (auto split: prod.split
        intro!: hush.moves_bind hush.moves_read hush.moves_lift hush.moves_ret hush.moves_seq hush_durable tail)
  have gc: "moves same_wakes (gc_old_threads s c)" for s c
    unfolding gc_old_threads_def list_threads_def
    by (intro hush.moves_bind hush.moves_read hush.moves_for_each hush_durable) simp
  have "moves same_wakes (recycle_scheduled_session E s c)" for s c
    unfolding recycle_eq rotation_def [symmetric] by (intro hush.moves_seq gc rot)
  then show ?thesis
    unfolding weekly_expiry_def Let_def
    by (auto split: option.split
        intro!: hush.moves_ret hush.moves_bind hush.moves_tick hush.moves_seq hush_session hush.moves_try)
qed

lemma weekly_free:
  assumes "turn_plain E" "coherent w" "w_budget w = None"
  shows "\<exists>m' w'. weekly_expiry E m w = (Val m', w') \<and> coherent w' \<and> w_budget w' = None \<and>
    sm_id m' = sm_id m \<and> w_wakes w' = w_wakes w"
proof -
  obtain r w' where r: "weekly_expiry E m w = (r, w')" by (cases "weekly_expiry E m w")
  have k: "r \<noteq> Killed" "coherent w'" "w_budget w' = None"
    using kept_alive [OF kept_base.m_weekly assms r] by blast+
  obtain m' where m': "r = Val m'" "sm_id m' = sm_id m" using weekly_returns [OF assms(3) r k(1)] by blast
  have "same_wakes w (settle (weekly_expiry E m w))" using hush_weekly by (simp add: moves_def)
  then have "w_wakes w' = w_wakes w" using r m' by (simp add: same_wakes_def settle_def)
  then show ?thesis using r k m' by blast
qed

lemma unarchive_free:
  assumes "up sid w"
  shows "\<exists>w'. unarchive_session sid w = (Val (), w') \<and> up sid w' \<and> frame w w' \<and> w_store w' = w_store w"
proof -
  obtain m where m: "w_sessions w sid = Some m" "sm_id m = sid" "sm_successor m = None"
    using assms by (auto simp: up_def healthy_def)
  then show ?thesis
    using save_session_free [OF assms, of "m\<lparr>sm_archived := False\<rparr>"]
    by (simp add: unarchive_session_def get_session_def bind_def read_def)
qed

lemma asks_found:
  assumes "turn_plain E" "up sid w"
  shows "asks sid (w_wakes w) (bind (get_session sid) (\<lambda>found.
           case found of
             None \<Rightarrow> ret ()
           | Some m \<Rightarrow>
               bind (weekly_expiry E m) (\<lambda>m'.
                 let prompt = (if \<not> truthy (sm_cc_session m') \<and> truthy (sm_scheduled m')
                               then scheduled_prompt (the (sm_scheduled m')) p else p)
                 in seq (run_message_with_resume_recovery E m' prompt) (ret ())))) w"
proof -
  obtain m where m: "w_sessions w sid = Some m" "sm_id m = sid" using assms(2) by (auto simp: up_def healthy_def)
  obtain m' w' where w': "weekly_expiry E m w = (Val m', w')" "coherent w'" "w_budget w' = None" "sm_id m' = sid"
    "w_wakes w' = w_wakes w"
    using weekly_free [OF assms(1), of w m] assms(2) m(2) by (auto simp: up_def)
  have "asks sid (w_wakes w) (seq (run_message_with_resume_recovery E m' q) (ret ())) w'" for q
    unfolding seq_def w'(5) [symmetric]
    by (rule asks_then [OF asks_recovery [OF assms(1) w'(2-4)] assms(1)]) (rule kept_base.moves_ret)
  then show ?thesis
    by (rule asks_eq [rotated]) (simp add: get_session_def read_def m(1) Let_def bind_def w'(1))
qed

lemma asks_wake:
  assumes "turn_plain E" "up sid w" "sm_id m = sid" "sm_successor m = None"
  shows "asks sid (w_wakes w) (wake_resolved E m p True) w"
proof -
  have "\<exists>w'. when_act (sm_archived m) (unarchive_session sid) w = (Val (), w') \<and> up sid w' \<and> frame w w'"
    using unarchive_free [OF assms(2)] assms(2) by (auto simp: when_act_def ret_def frame_def)
  then obtain w' where w': "when_act (sm_archived m) (unarchive_session sid) w = (Val (), w')" "up sid w'" "frame w w'"
    by blast
  have "asks sid (w_wakes w) (bind (get_session sid) (\<lambda>found.
           case found of
             None \<Rightarrow> ret ()
           | Some m \<Rightarrow>
               bind (weekly_expiry E m) (\<lambda>m'.
                 let prompt = (if \<not> truthy (sm_cc_session m') \<and> truthy (sm_scheduled m')
                               then scheduled_prompt (the (sm_scheduled m')) p else p)
                 in seq (run_message_with_resume_recovery E m' prompt) (ret ())))) w'"
    using asks_found [OF assms(1) w'(2), of p] w'(3) by (simp add: frame_def)
  then show ?thesis
    unfolding wake_resolved_def Let_def assms(3)
    by (rule asks_eq [rotated]) (simp only: assms(4) simp_thms if_False not_True_eq_False 
      seq_at [where m = "when_act (sm_archived m) (unarchive_session sid)" and w = w and a = "()" and ?w1.0 = w', OF w'(1)])
qed

lemma asks_trigger:
  assumes "turn_plain E" "up sid w"
  shows "asks sid (w_wakes w) (trigger_master E sid p True) w"
proof -
  obtain m where m: "w_sessions w sid = Some m" "sm_id m = sid" "sm_successor m = None"
    using assms(2) by (auto simp: up_def healthy_def)
  have "asks sid (w_wakes w) (try_except (wake_resolved E m p True) (report_trigger_failure E (sm_id m))) w"
    by (rule asks_try [OF asks_wake [OF assms m(2,3)] assms(1)]) (rule kept_base.m_report)
  then have "asks sid (w_wakes w) (bind (resolve_successor_chain sid) (\<lambda>found.
          case found of
            None \<Rightarrow> ret ()
          | Some resolved \<Rightarrow>
              try_except (wake_resolved E resolved p True) (report_trigger_failure E (sm_id resolved)))) w"
    by (rule asks_eq [rotated]) (simp add: bind_def resolve_end [OF m(1,3)])
  then show ?thesis
    unfolding trigger_master_def by (rule asks_try [OF _ assms(1)]) (rule kept_base.m_report)
qed

lemma woke_at:
  assumes "coherent w"
  shows "\<exists>st b. master_woke E sid tid w = (Val b, w\<lparr>w_store := st\<rparr>) \<and> store_coherent st \<and>
    cs_files st = cs_files (w_store w) \<and> master_woke_after_summary (cs_files (w_store w) sid) tid = Inr b"
proof -
  have c: "session_coherent (w_store w) sid" using assms by (simp add: coherent_def store_coherent_def)
  obtain r st where r: "finalize_master_woke sid tid (w_store w) = (r, st)"
    by (cases "finalize_master_woke sid tid (w_store w)")
  then have st: "st = snd (load_chat_events sid (w_store w))" using judged_loads(2) by (metis snd_conv)
  obtain f where f: "build_fold (cs_files (w_store w) sid) = Inr f" using load_coherent [OF c] by blast
  then have "master_woke_after_summary (cs_files (w_store w) sid) tid = Inr (fold_master_woke f tid)"
    using build_fold_sound by (auto simp: fold_stands_for_def)
  moreover have "r = master_woke_after_summary (cs_files (w_store w) sid) tid"
    using judged_on_file(2) [OF c, of tid] r by simp
  ultimately show ?thesis
    using r st load_files load_keeps assms
    by (intro exI [of _ st] exI [of _ "fold_master_woke f tid"]) (simp add: master_woke_def coherent_def)
qed

lemma asks_judged:
  assumes "turn_plain E" "up sid w" "cs_files (w_store w) sid = es @ [ev]" "is_terminal_worker_summary ev tid"
  shows "asks sid (w_wakes w) (trigger_master_judged E sid p tid) w"
proof -
  have "coherent w" using assms(2) by (simp add: up_def)
  then obtain st b where st: "master_woke E sid tid w = (Val b, w\<lparr>w_store := st\<rparr>)" "store_coherent st"
    "cs_files st = cs_files (w_store w)" "master_woke_after_summary (cs_files (w_store w) sid) tid = Inr b"
    using woke_at by blast
  have "b = False" using st(4) assms(3,4) by (simp add: master_woke_after_summary_def last_summary_idx_snoc)
  have up: "up sid (w\<lparr>w_store := st\<rparr>)" using assms(2) st(2) by (simp add: up_def coherent_def healthy_def)
  have "asks sid (w_wakes w) (trigger_master E sid p True) (w\<lparr>w_store := st\<rparr>)"
    using asks_trigger [OF assms(1) up] by simp
  then show ?thesis
    by (rule asks_eq [rotated]) (simp add: trigger_master_judged_def bind_def st(1) \<open>b = False\<close>)
qed

lemma telegram_free:
  "\<exists>w'. telegram_notify E n msg w = (Val (), w') \<and> w_store w' = w_store w \<and> frame w w' \<and>
     w_sessions w' = w_sessions w \<and> w_budget w' = w_budget w"
  by (auto simp: telegram_notify_def send_telegram_def try_except_def ghost_def ret_def raise_def frame_def
      split: option.split)

text \<open>Whose result goes to the master at once: it failed, or nobody is to review it.\<close>

definition unreviewed :: "thread \<Rightarrow> int \<Rightarrow> bool" where
  "unreviewed t c \<longleftrightarrow> \<not> truthy (th_review_of t) \<and> (c \<noteq> 0 \<or> \<not> th_require_review t)"

lemma asks_reviewer:
  assumes "turn_plain E" "up sid w" "cs_files (w_store w) sid = es @ [ev]" "is_terminal_worker_summary ev tid"
    "thread_of w sid tid = Some tm" "unreviewed tm c"
  shows "asks sid (w_wakes w) (maybe_spawn_reviewer E sid tid c s whole) w"
proof -
  have id: "th_id tm = tid" using assms(5) find_Some_in by (fastforce simp: thread_of_def)
  have "maybe_spawn_reviewer E sid tid c s whole w = trigger_master_judged E sid whole tid w"
    using assms(5,6) id
    by (cases "c = 0") (simp_all add: maybe_spawn_reviewer_def get_thread_def bind_def read_def unreviewed_def)
  then show ?thesis using asks_judged [OF assms(1-4), of whole] by (rule asks_eq)
qed

text \<open>A worker's result can be summed up: it came with a report, or its events log reads.\<close>

definition summed_up :: "env \<Rightarrow> string \<Rightarrow> thread \<Rightarrow> string option \<Rightarrow> bool" where
  "summed_up E sid t rep \<longleftrightarrow>
     rep \<noteq> None \<or> (case read_events_summary (e_show E) (e_parser E) (e_log E sid (th_id t)) of Inl _ \<Rightarrow> False | Inr _ \<Rightarrow> True)"

text \<open>
  C6. The first completion of a worker nobody is to review and that is no step of a chain asks for a
  master run on the session exactly when its result can be summed up: once there is a report or a
  readable events log, the run is asked for whatever fails later; without either, the completion
  still returns and leaves a terminal summary in the chat, and the master is never asked.
\<close>

theorem first_completion_wakes_master:
  assumes "turn_plain E" "up sid w" "\<not> terminal_summary_present (cs_files (w_store w) sid) (th_id t)"
    "thread_of w sid (th_id t) = Some tm" "unreviewed tm (ro_exit ro)" "th_step_index t = None"
  shows "\<exists>w'. notify_completion E sid d t ro rep w = (Val (), w') \<and> told sid (th_id t) w' \<and>
    (if summed_up E sid t rep then \<exists>p. prefix (w_wakes w @ [(sid, p)]) (w_wakes w') else w_wakes w' = w_wakes w)"
proof -
  obtain name w1 where w1: "stamp_last_run sid (ro_exit ro) w = (Val name, w1)" "up sid w1" "frame w w1"
    "w_store w1 = w_store w"
    using last_run_free [OF assms(2)] by blast
  show ?thesis
  proof (rule broadcast_cases [where rep = rep and E = E and d = d and t = t and ro = ro, OF w1(2)])
    fix msg
    assume b: "rep = None" "read_summary E sid (th_id t) w1 = (Exc msg, w1)"
      "broadcast_completion E sid d t ro rep w1 = (Exc msg, w1)"
    then have n: "\<not> summed_up E sid t rep"
      by (auto simp: summed_up_def read_summary_def lift_py_def ret_def split: sum.splits)
    have "w_wakes w1 = w_wakes w" using w1(3) by (simp add: frame_def)
    then show ?thesis
      using fallback_free [OF w1(2), of E t ro msg] w1(1) b(3) n
      by (auto simp: notify_completion_def notify_body_def try_except_def bind_def)
  next
    fix s whole w2
    assume b: "broadcast_completion E sid d t ro rep w1 = (Val (s, whole), w2)" and w2: "up sid w2" "frame w1 w2"
      and new: "\<not> terminal_summary_present (cs_files (w_store w1) sid) (th_id t) \<longrightarrow>
         (\<exists>ev'. is_terminal_worker_summary ev' (th_id t) \<and> cs_files (w_store w2) sid = cs_files (w_store w1) sid @ [ev'])"
    have y: "summed_up E sid t rep"
      using b by (auto simp: summed_up_def broadcast_completion_def read_summary_def lift_py_def bind_def raise_def
          split: sum.splits option.splits py_error.splits)
    obtain ev' where ev': "is_terminal_worker_summary ev' (th_id t)"
      "cs_files (w_store w2) sid = cs_files (w_store w1) sid @ [ev']"
      using new assms(3) w1(4) by auto
    obtain w3 where w3: "telegram_notify E name s w2 = (Val (), w3)" "w_store w3 = w_store w2" "frame w2 w3"
      "w_sessions w3 = w_sessions w2" "w_budget w3 = w_budget w2"
      using telegram_free by blast
    have up3: "up sid w3" using w2(1) w3 by (simp add: up_def coherent_def healthy_def)
    have tm: "thread_of w3 sid (th_id t) = Some tm"
      using assms(4) w1(3) w2(2) w3(3) by (simp add: thread_of_def frame_def)
    have "asks sid (w_wakes w3) (maybe_spawn_reviewer E sid (th_id t) (ro_exit ro) s whole) w3"
      by (rule asks_reviewer [OF assms(1) up3 _ ev'(1) tm assms(5)]) (use ev'(2) w3(2) in simp)
    moreover have "w_wakes w3 = w_wakes w" using w1(3) w2(2) w3(3) by (simp add: frame_def)
    ultimately have "asks sid (w_wakes w) (maybe_spawn_reviewer E sid (th_id t) (ro_exit ro) s whole) w3" by simp
    then have "asks sid (w_wakes w) (notify_body E sid d t ro rep) w"
      by (rule asks_eq [rotated])
        (simp add: notify_body_def bind_def w1(1) b seq_def w3(1) handle_step_completion_def assms(6) ret_def)
    then have "asks sid (w_wakes w) (notify_completion E sid d t ro rep) w"
      unfolding notify_completion_def by (rule asks_try [OF _ assms(1)]) (rule keeps.m_fallback)
    moreover obtain w' where "notify_completion E sid d t ro rep w = (Val (), w')" "told sid (th_id t) w'"
      using notification_returns [OF assms(1,2)] by blast
    ultimately show ?thesis using y by (auto simp: asks_def)
  qed
qed

text \<open>
  A success that cannot be reviewed is never reported to the master: when the worker has to be
  reviewed and its worktree is gone (or repository, branch or worktree were never recorded), the
  completion writes its summary, starts no reviewer and asks for no master run.
\<close>

theorem unreviewable_success_is_silent:
  assumes "up sid w" "thread_of w sid (th_id t) = Some tm" "\<not> truthy (th_review_of tm)" "th_require_review tm"
    "validate_review_prerequisites (w_worktrees w) tm = None" "th_step_index t = None" "ro_exit ro = 0"
    "rep \<noteq> None \<or> read_events_summary (e_show E) (e_parser E) (e_log E sid (th_id t)) = Inr s"
  shows "\<exists>w'. notify_completion E sid d t ro rep w = (Val (), w') \<and> told sid (th_id t) w' \<and>
     w_wakes w' = w_wakes w \<and> w_spawned w' = w_spawned w"
proof -
  obtain name w1 where w1: "stamp_last_run sid 0 w = (Val name, w1)" "up sid w1" "frame w w1"
    using last_run_free [OF assms(1)] by blast
  show ?thesis
  proof (rule broadcast_cases [where rep = rep and E = E and d = d and t = t and ro = ro, OF w1(2)])
    fix msg
    assume "rep = None" "read_summary E sid (th_id t) w1 = (Exc msg, w1)"
    then show ?thesis using assms(8) by (simp add: read_summary_def)
  next
    fix s whole w2
    assume b: "broadcast_completion E sid d t ro rep w1 = (Val (s, whole), w2)" and w2: "frame w1 w2" "told sid (th_id t) w2"
    obtain w3 where w3: "telegram_notify E name s w2 = (Val (), w3)" "w_store w3 = w_store w2" "frame w2 w3"
      using telegram_free by blast
    have f: "frame w w3" using w1(3) w2(1) w3(3) frame_trans by blast
    have tm: "thread_of w3 sid (th_id t) = Some tm" "validate_review_prerequisites (w_worktrees w3) tm = None"
      using assms(2,5) f by (simp_all add: thread_of_def frame_def)
    have "spawn_review_worker E sid tm [] ex w3 =
        (Val (reviewer_thread_exists (rev (w_threads w3 sid)) (th_id tm) ex), w3)" for ex
      using tm(2)
      by (simp add: spawn_review_worker_def list_threads_def resolve_review_spawn_context_def bind_def read_def ret_def)
    then have "maybe_spawn_reviewer E sid (th_id t) 0 s whole w3 = (Val (), w3)"
      using tm(1) assms(3,4) by (simp add: maybe_spawn_reviewer_def get_thread_def read_def bind_def seq_def ret_def)
    then have "notify_body E sid d t ro rep w = (Val (), w3)"
      using w1(1) b w3(1) assms(6,7)
      by (simp add: notify_body_def bind_def seq_def handle_step_completion_def ret_def)
    then show ?thesis
      using f w2(2) w3(2,3) by (simp add: notify_completion_def try_except_def frame_def told_def)
  qed
qed

subsection \<open>A reviewer that failed\<close>

lemma thread_of_id: "thread_of w sid tid = Some t \<Longrightarrow> th_id t = tid"
  using find_Some_in by (fastforce simp: thread_of_def)

lemma put_new_thread: "th_id t \<notin> th_id ` set ts \<Longrightarrow> put_thread t ts = ts @ [t]"
  by (induction ts) auto

lemma put_last_thread: "th_id t \<notin> th_id ` set ts \<Longrightarrow> th_id u = th_id t \<Longrightarrow> put_thread u (ts @ [t]) = ts @ [u]"
  by (induction ts) auto

text \<open>Another reviewer of the same worker, however it ended, passes for the replacement.\<close>

definition other_reviewer :: "world \<Rightarrow> string \<Rightarrow> thread \<Rightarrow> bool" where
  "other_reviewer w sid t \<longleftrightarrow> (\<exists>u \<in> set (w_threads w sid). th_review_of u = th_review_of t \<and> th_id u \<noteq> th_id t)"

lemma failed_reviewer_at:
  assumes "thread_of w sid tid = Some t" "th_review_of t = Some orig" "orig \<noteq> []" "c \<noteq> 0"
    "thread_of w sid orig = Some ot"
  shows "maybe_spawn_reviewer E sid tid c report whole w =
    bind (spawn_review_worker E sid ot (th_tried t) (Some tid))
      (\<lambda>retried. if retried then ret () else review_finished E sid t orig (Some ot) c report) w"
  using assms thread_of_id [OF assms(1)]
  by (simp add: maybe_spawn_reviewer_def get_thread_def bind_def read_def truthy_def retry_failed_reviewer_def
      split: prod.split outcome.split)

lemma review_context_reads:
  "resolve_review_spawn_context E ot tried w = (r, w') \<Longrightarrow> w' = w \<and> r \<noteq> Killed"
  by (auto simp: resolve_review_spawn_context_def bind_def read_def ret_def raise_def lift_py_def
      split: if_splits option.splits sum.splits prod.splits outcome.splits py_error.splits)

lemma review_context_backend:
  assumes "resolve_review_spawn_context E ot tried w = (Val (Some cx), w')"
  shows "rs_backend cx \<notin> set tried \<and> rs_tried cx = tried @ [rs_backend cx] \<and>
    (Some (rs_backend cx) = th_backend ot \<longrightarrow> usable (e_cfg E) (rs_backend cx) \<subseteq> set tried)"
proof -
  obtain b m where s: "select_reviewer_backend (e_cfg E) b m tried = Some (rs_backend cx, rs_model cx, rs_tried cx)"
    "th_backend ot = Some b" "length tried \<le> length (cf_preference (e_cfg E))"
    using assms
    by (auto simp: resolve_review_spawn_context_def bind_def read_def ret_def raise_def lift_py_def Let_def truthy_def
        require_thread_backend_model_def py_bind_Inr_iff
        split: if_splits option.splits sum.splits prod.splits outcome.splits py_error.splits)
  have "rs_backend cx \<notin> set tried"
  proof (cases "cf_preference (e_cfg E) = []")
    case False
    then show ?thesis using select_Some [OF s(1)] by simp
  qed (use s(3) in simp)
  moreover have "usable (e_cfg E) (rs_backend cx) \<subseteq> set tried" if "Some (rs_backend cx) = th_backend ot"
    by (rule select_author [of _ _ m _ "rs_model cx" "rs_tried cx"]) (use s(1,2) that in simp)
  ultimately show ?thesis using select_grows [OF s(1)] by blast
qed

lemma create_thread_free:
  assumes "w_budget w = None" "e_id E (w_clock w) \<notin> th_id ` set (w_threads w sid)"
  shows "\<exists>t. create_thread E sid d of_id rr w =
      (Val t, w\<lparr>w_clock := Suc (w_clock w), w_threads := (w_threads w)(sid := w_threads w sid @ [t])\<rparr>) \<and>
    th_id t = e_id E (w_clock w) \<and> th_review_of t = of_id"
  using assms by (simp add: create_thread_def bind_def tick_def seq_def save_thread_def durable_def ret_def Let_def put_new_thread)

lemma save_thread_free:
  assumes "w_budget w = None" "w_threads w sid = ts @ [t]" "th_id t \<notin> th_id ` set ts" "th_id u = th_id t"
  shows "save_thread sid u w = (Val (), w\<lparr>w_threads := (w_threads w)(sid := ts @ [u])\<rparr>)"
  using assms by (simp add: save_thread_def durable_def put_last_thread)

lemma spawn_review_at:
  assumes "w_budget w = None" "e_id E (w_clock w) \<notin> th_id ` set (w_threads w sid)"
    "\<not> reviewer_thread_exists (rev (w_threads w sid)) (th_id ot) ex"
    "resolve_review_spawn_context E ot tried w = (Val (Some cx), w)" "w_sessions w sid = Some m" "sm_id m = sid"
  shows "\<exists>r sp w'. spawn_review_worker E sid ot tried ex w = (Val True, w') \<and>
    w_threads w' = (w_threads w)(sid := w_threads w sid @ [r]) \<and> w_spawned w' = w_spawned w @ [sp] \<and>
    w_wakes w' = w_wakes w \<and> th_id r = e_id E (w_clock w) \<and> th_review_of r = Some (th_id ot) \<and>
    th_tried r = rs_tried cx \<and> sp_thread sp = th_id r \<and> sp_backend sp = rs_backend cx"
proof -
  obtain user_request worker_summary where ex: "extract_review_context E sid (th_id ot) w = (Val (user_request, worker_summary), w)"
    by (simp add: extract_review_context_def read_def)
  let ?d = "''Review: '' @ (if truthy (th_context ot) then the (th_context ot) else short_desc (th_description ot))"
  obtain t where t: "create_thread E sid ?d (Some (th_id ot)) True w =
      (Val t, w\<lparr>w_clock := Suc (w_clock w), w_threads := (w_threads w)(sid := w_threads w sid @ [t])\<rparr>)"
    "th_id t = e_id E (w_clock w)" "th_review_of t = Some (th_id ot)"
    using create_thread_free [OF assms(1,2)] by blast
  let ?r = "t\<lparr>th_branch := Some (rs_branch cx), th_repo := Some (rs_repo cx), th_worktree := Some (rs_wt cx), th_tried := rs_tried cx\<rparr>"
  let ?w1 = "w\<lparr>w_clock := Suc (w_clock w), w_threads := (w_threads w)(sid := w_threads w sid @ [t])\<rparr>"
  have "save_thread sid ?r ?w1 = (Val (), ?w1\<lparr>w_threads := (w_threads ?w1)(sid := w_threads w sid @ [?r])\<rparr>)"
    by (rule save_thread_free) (use assms(1) in simp, simp, use assms(2) t(2) in metis, simp)
  then show ?thesis
    using assms(1,3-6) ex t
    by (simp add: spawn_review_worker_def list_threads_def bind_def read_def get_session_def seq_def ret_def spawn_worker_def
        durable_def Let_def) (intro exI [of _ ?r], simp)
qed

text \<open>
  C8. What becomes of a worker's review when its reviewer fails. While no other reviewer of that
  worker was ever started, one is, on a backend not tried before, the worker's own only when every
  usable preferred one was tried, and the master is not told yet; if there is none to start the
  review is closed. Once a second reviewer exists, a failure of either starts nothing and tells
  nobody: the two are all there is, whatever backends are left.
\<close>

theorem failed_reviewer_is_replaced_once:
  assumes "up sid w" "thread_of w sid tid = Some t" "th_review_of t = Some orig" "orig \<noteq> []" "c \<noteq> 0"
    "thread_of w sid orig = Some ot" "e_id E (w_clock w) \<notin> th_id ` set (w_threads w sid)"
  shows "if other_reviewer w sid t then maybe_spawn_reviewer E sid tid c report whole w = (Val (), w)
    else case resolve_review_spawn_context E ot (th_tried t) w of
        (Val (Some cx), _) \<Rightarrow>
          \<exists>r sp w'. maybe_spawn_reviewer E sid tid c report whole w = (Val (), w') \<and>
            w_threads w' = (w_threads w)(sid := w_threads w sid @ [r]) \<and> w_spawned w' = w_spawned w @ [sp] \<and>
            w_wakes w' = w_wakes w \<and> th_review_of r = Some orig \<and> sp_thread sp = th_id r \<and>
            sp_backend sp \<notin> set (th_tried t) \<and> th_tried r = th_tried t @ [sp_backend sp] \<and>
            (Some (sp_backend sp) = th_backend ot \<longrightarrow> usable (e_cfg E) (sp_backend sp) \<subseteq> set (th_tried t)) \<and>
            other_reviewer w' sid r
      | (Val None, _) \<Rightarrow>
          maybe_spawn_reviewer E sid tid c report whole w = review_finished E sid t orig (Some ot) c report w
      | (Exc msg, _) \<Rightarrow> maybe_spawn_reviewer E sid tid c report whole w = (Exc msg, w)
      | (Killed, _) \<Rightarrow> False"
proof -
  note at = failed_reviewer_at [OF assms(2-6), of E report whole]
  have id: "th_id t = tid" "th_id ot = orig" using assms(2,6) thread_of_id by blast+
  have tin: "t \<in> set (w_threads w sid)" using assms(2) find_Some_in by (fastforce simp: thread_of_def)
  obtain m where m: "w_sessions w sid = Some m" "sm_id m = sid" and bud: "w_budget w = None"
    using assms(1) by (auto simp: up_def healthy_def)
  have other: "reviewer_thread_exists (rev (w_threads w sid)) (th_id ot) (Some tid) = other_reviewer w sid t"
    using id assms(3) by (auto simp: reviewer_thread_exists_def other_reviewer_def)
  show ?thesis
  proof (cases "other_reviewer w sid t")
    case True
    then have "spawn_review_worker E sid ot (th_tried t) (Some tid) w = (Val True, w)"
      using other by (simp add: spawn_review_worker_def list_threads_def bind_def read_def ret_def)
    then show ?thesis using True at by (simp add: bind_def ret_def)
  next
    case False
    obtain res w1 where r: "resolve_review_spawn_context E ot (th_tried t) w = (res, w1)" by fastforce
    then have w1: "w1 = w" "res \<noteq> Killed" using review_context_reads by blast+
    have none: "spawn_review_worker E sid ot (th_tried t) (Some tid) w = (Val False, w)" if "res = Val None"
      using that r w1 other False by (simp add: spawn_review_worker_def list_threads_def bind_def read_def ret_def)
    have exc: "spawn_review_worker E sid ot (th_tried t) (Some tid) w = (Exc msg, w)" if "res = Exc msg" for msg
      using that r w1 other False by (simp add: spawn_review_worker_def list_threads_def bind_def read_def ret_def)
    have some: "\<exists>r sp w'. maybe_spawn_reviewer E sid tid c report whole w = (Val (), w') \<and>
            w_threads w' = (w_threads w)(sid := w_threads w sid @ [r]) \<and> w_spawned w' = w_spawned w @ [sp] \<and>
            w_wakes w' = w_wakes w \<and> th_review_of r = Some orig \<and> sp_thread sp = th_id r \<and>
            sp_backend sp \<notin> set (th_tried t) \<and> th_tried r = th_tried t @ [sp_backend sp] \<and>
            (Some (sp_backend sp) = th_backend ot \<longrightarrow> usable (e_cfg E) (sp_backend sp) \<subseteq> set (th_tried t)) \<and>
            other_reviewer w' sid r" if v: "res = Val (Some cx)" for cx
    proof -
      have r': "resolve_review_spawn_context E ot (th_tried t) w = (Val (Some cx), w)" using r v w1 by simp
      note b = review_context_backend [OF r']
      obtain rv sp w' where s: "spawn_review_worker E sid ot (th_tried t) (Some tid) w = (Val True, w')"
        "w_threads w' = (w_threads w)(sid := w_threads w sid @ [rv])" "w_spawned w' = w_spawned w @ [sp]"
        "w_wakes w' = w_wakes w" "th_id rv = e_id E (w_clock w)" "th_review_of rv = Some (th_id ot)"
        "th_tried rv = rs_tried cx" "sp_thread sp = th_id rv" "sp_backend sp = rs_backend cx"
        using spawn_review_at [OF bud assms(7) _ r' m, of "Some tid"] other False by blast
      have "th_id t \<noteq> th_id rv" using s(5) assms(7) imageI [OF tin, of th_id] by metis
      then have "other_reviewer w' sid rv" using s(2,6) tin id assms(3) by (auto simp: other_reviewer_def)
      then show ?thesis using s b at id by (intro exI [of _ rv] exI [of _ sp] exI [of _ w']) (simp add: bind_def ret_def)
    qed
    show ?thesis
    proof (cases res)
      case (Val found)
      then show ?thesis using False r none at some by (cases found) (simp_all add: bind_def)
    next
      case (Exc msg)
      then show ?thesis using False r exc at by (simp add: bind_def)
    next
      case Killed
      then show ?thesis using w1 by simp
    qed
  qed
qed

subsection \<open>Succession\<close>

text \<open>A session that another one took over.\<close>

definition succeeded :: "string \<Rightarrow> string \<Rightarrow> world \<Rightarrow> bool" where
  "succeeded sid s2 w \<longleftrightarrow> coherent w \<and> w_budget w = None \<and> s2 \<noteq> sid \<and>
     (\<exists>m. w_sessions w sid = Some m \<and> sm_id m = sid \<and> sm_successor m = Some s2) \<and>
     (\<exists>q. w_sessions w s2 = Some q \<and> sm_id q = s2 \<and> sm_successor q = None)"

lemma resolve_hop:
  assumes "succeeded sid s2 w" "w_sessions w s2 = Some q"
  shows "resolve_successor_chain sid w = (Val (Some q), w)"
proof -
  obtain m where m: "w_sessions w sid = Some m" "sm_successor m = Some s2" using assms(1) by (auto simp: succeeded_def)
  have "sm_successor q = None" using assms by (auto simp: succeeded_def)
  then have "walk_successors successor_hop_limit (w_sessions w) m = Some q"
    using m assms(2) by (simp add: successor_hop_limit_def walk_successors.simps)
  then show ?thesis
    using m by (simp add: resolve_successor_chain_def get_session_def bind_def read_def ret_def)
qed

lemma unread_succeeded:
  assumes "succeeded sid s2 w"
  shows "\<exists>w'. mark_unread sid w = (Val (), w') \<and> succeeded sid s2 w' \<and> w_store w' = w_store w"
proof -
  obtain m where m: "w_sessions w sid = Some m" "sm_id m = sid" "sm_successor m = Some s2"
    using assms by (auto simp: succeeded_def)
  show ?thesis
  proof (cases "sm_unread m")
    case True
    then show ?thesis using m assms by (simp add: mark_unread_def get_session_def bind_def read_def ret_def)
  next
    case False
    let ?w = "w\<lparr>w_sessions := (w_sessions w)(sid \<mapsto> m\<lparr>sm_unread := True\<rparr>)\<rparr>"
    have "mark_unread sid w = (Val (), ?w)"
      using m False assms
      by (simp add: mark_unread_def get_session_def bind_def read_def save_session_def durable_def succeeded_def)
    moreover have "succeeded sid s2 ?w" using assms m by (auto simp: succeeded_def coherent_def)
    ultimately show ?thesis by auto
  qed
qed

lemma send_succeeded:
  assumes "succeeded sid s2 w" "summaries sid tid w = 0" "is_terminal_worker_summary ev tid" "typed_event ev"
  shows "\<exists>w'. persist_worker_summary_once E sid tid ev w = (Val (), w') \<and> succeeded sid s2 w' \<and>
    summaries sid tid w' = 0 \<and> summaries s2 tid w' = Suc (summaries s2 tid w)"
proof -
  have c: "coherent w" using assms(1) by (simp add: succeeded_def)
  have "\<not> terminal_summary_present (cs_files (w_store w) sid) tid" using assms(2) no_summaries by simp
  then obtain st where p: "summary_present E sid tid w = (Val False, w\<lparr>w_store := st\<rparr>)" "store_coherent st"
    "cs_files st = cs_files (w_store w)"
    using present_at [OF c, of E sid tid] by auto
  have s1: "succeeded sid s2 (w\<lparr>w_store := st\<rparr>)" using assms(1) p(2) by (simp add: succeeded_def coherent_def)
  obtain w2 where w2: "mark_unread sid (w\<lparr>w_store := st\<rparr>) = (Val (), w2)" "succeeded sid s2 w2" "w_store w2 = st"
    using unread_succeeded [OF s1] by auto
  obtain q where q: "w_sessions w2 s2 = Some q" "sm_id q = s2" "sm_successor q = None" "s2 \<noteq> sid" "coherent w2" "w_budget w2 = None"
    using w2(2) by (auto simp: succeeded_def)
  let ?ev = "dict_put ev ''origin_session_id'' (JStr sid)"
  obtain ev' w3 where w3: "persist_and_broadcast E s2 ?ev w2 = (Val (), w3)" "coherent w3" "w_budget w3 = None"
     "w_sessions w3 = w_sessions w2" "\<forall>t. is_terminal_worker_summary ev' t = is_terminal_worker_summary ?ev t"
     "cs_files (w_store w3) = (cs_files (w_store w2))(s2 := cs_files (w_store w2) s2 @ [ev'])"
    using persist_free [OF q(5,6), of ?ev E s2] assms(4) by (auto simp: typed_origin)
  have "deliver_to_successor E sid ev w2 = (Val (Some s2), w3)"
    using resolve_hop [OF w2(2) q(1)] q w3(1)
    by (simp add: deliver_to_successor_def bind_def get_session_def read_def seq_def ret_def)
  then have run: "persist_worker_summary_once E sid tid ev w = (Val (), w3)"
    using p(1) w2(1) by (simp add: persist_worker_summary_once_def bind_def seq_def ret_def)
  have "is_terminal_worker_summary ev' tid" using w3(5) assms(3) by (simp add: is_terminal_worker_summary_def)
  then have "summaries s2 tid w3 = Suc (summaries s2 tid w)" "summaries sid tid w3 = summaries sid tid w"
    using w3(6) w2(3) p(3) q(4) by (simp_all add: summaries_def)
  moreover have "succeeded sid s2 w3" using w2(2) w3 by (simp add: succeeded_def)
  ultimately show ?thesis using run assms(2) by auto
qed

text \<open>
  Behind a succession the summary is not sent once: the judgment reads the chat of the worker's
  own session while the summary goes to its successor's, so the successor gets one more terminal
  summary of the same thread each time.
\<close>

theorem successor_gets_every_summary:
  assumes "succeeded sid s2 w" "summaries sid tid w = 0" "\<forall>ev \<in> set evs. is_terminal_worker_summary ev tid"
  shows "summaries s2 tid (fold (\<lambda>ev w. settle (persist_worker_summary_once E sid tid ev w)) evs w) =
     summaries s2 tid w + length evs"
  using assms
proof (induction evs arbitrary: w)
  case (Cons ev evs)
  have ty: "is_terminal_worker_summary ev tid" "typed_event ev"
    using Cons.prems(3) by (simp_all add: typed_event_def is_terminal_worker_summary_def)
  obtain w' where w': "persist_worker_summary_once E sid tid ev w = (Val (), w')" "succeeded sid s2 w'"
    "summaries sid tid w' = 0" "summaries s2 tid w' = Suc (summaries s2 tid w)"
    using send_succeeded [OF Cons.prems(1,2) ty, of E] by blast
  then show ?case using Cons.IH [OF w'(2,3)] Cons.prems(3) by (simp add: settle_def)
qed simp

subsection \<open>Witnesses\<close>

lemma demo_turn: "turn_plain demo_env"
  by (simp add: turn_plain_def demo_env_def plain_event_def typed_event_def)

lemma demo_coherent: "coherent (demo_world ss ts)"
  by (simp add: coherent_def demo_world_def empty_store_coherent)

lemma demo_summaries: "summaries s t (demo_world ss ts) = 0"
  by (simp add: summaries_def demo_world_def empty_store_def)

definition demo_alone :: "string \<rightharpoonup> session" where
  "demo_alone = [''a'' \<mapsto> demo_session ''a'' None]"

lemma demo_up: "up ''a'' (demo_world demo_alone ts)"
  by (simp add: up_def demo_coherent healthy_def) (simp add: demo_world_def demo_alone_def demo_session_def)

definition demo_outcome :: "int \<Rightarrow> worker_outcome" where
  "demo_outcome c = \<lparr>ro_exit = c, ro_quota = False, ro_error = []\<rparr>"

definition demo_calls :: "bool \<Rightarrow> string option \<Rightarrow> int option \<Rightarrow> (nat option \<times> call) list" where
  "demo_calls review root step =
     [(Some 3, FinalizeRun ''d'' (demo_thread review root step) (demo_outcome 0) False False None),
      (None, RecompleteRun ''d'' (demo_thread review root step) 0 False)]"

theorem summary_at_most_once_witness:
  "summaries ''a'' ''w'' (life demo_env ''a'' (demo_calls False None None)
     (demo_world demo_alone [demo_thread False None None])) \<le> 1"
  by (rule summary_at_most_once) (simp_all add: demo_turn demo_coherent demo_summaries demo_calls_def)

theorem chain_advances_at_most_once_witness:
  "steps_at ''a'' ''w'' 1 (life demo_env ''a'' (demo_calls False (Some ''w'') (Some 0))
     (demo_world demo_alone [demo_thread False (Some ''w'') (Some 0)])) \<le> 1"
  by (rule chain_advances_at_most_once)
    (simp_all add: demo_calls_def chained_def demo_thread_def steps_at_def demo_world_def at_step_def)

theorem completion_is_always_told_witness:
  "\<exists>w'. notify_completion demo_env ''a'' ''d'' (demo_thread False None None) (demo_outcome 1) None
      (demo_world demo_alone []) = (Val (), w') \<and> told ''a'' ''w'' w'"
  using completion_is_always_told [OF demo_turn demo_up, of "''d''" "demo_thread False None None" "demo_outcome 1" None "[]"]
  by (simp add: demo_thread_def)

lemma demo_present: "\<not> terminal_summary_present (cs_files (w_store (demo_world ss ts)) s) t"
  by (simp add: demo_world_def empty_store_def terminal_summary_present_def)

lemma demo_fields:
  "w_wakes (demo_world ss ts) = []" "w_spawned (demo_world ss ts) = []" "w_worktrees (demo_world ss ts) = {}"
  "th_id (demo_thread b r k) = ''w''" "th_review_of (demo_thread b r k) = None"
  "th_require_review (demo_thread b r k) = b" "th_step_index (demo_thread b r k) = k"
  "th_repo (demo_thread b r k) = None" "ro_exit (demo_outcome c) = c"
  by (simp_all add: demo_world_def demo_thread_def demo_outcome_def)

lemma demo_found: "thread_of (demo_world ss [demo_thread b r k]) ''a'' ''w'' = Some (demo_thread b r k)"
  by (simp add: thread_of_def demo_world_def demo_thread_def)

theorem first_completion_wakes_master_witness:
  "\<exists>w' p. notify_completion demo_env ''a'' ''d'' (demo_thread True None None) (demo_outcome 1) None
      (demo_world demo_alone [demo_thread True None None]) = (Val (), w') \<and> prefix [(''a'', p)] (w_wakes w')"
proof -
  have "summed_up demo_env ''a'' (demo_thread True None None) None"
    by (simp add: summed_up_def read_events_summary_def read_thread_events_def events_summary_def
        parse_ndjson_tail_parseable_def demo_env_def summary_event_limit_def iter_ndjson_events_from_end_def)
  then show ?thesis
    using first_completion_wakes_master [OF demo_turn demo_up, of "[demo_thread True None None]" "demo_thread True None None"
        "demo_thread True None None" "demo_outcome 1" "''d''" None]
    by (simp add: demo_present demo_found demo_fields unreviewed_def truthy_def) blast
qed

theorem unreviewable_success_is_silent_witness:
  "\<exists>w'. notify_completion demo_env ''a'' ''d'' (demo_thread True None None) (demo_outcome 0) (Some ''r'')
      (demo_world demo_alone [demo_thread True None None]) = (Val (), w') \<and> w_wakes w' = [] \<and> w_spawned w' = []"
  using unreviewable_success_is_silent [OF demo_up, of "[demo_thread True None None]" "demo_thread True None None"
      "demo_thread True None None" "demo_outcome 0" "Some ''r''" demo_env "[]" "''d''"]
  by (auto simp: demo_found demo_fields truthy_def validate_review_prerequisites_def)

text \<open>A worker on backend \<open>a\<close> whose first reviewer, on \<open>b\<close>, failed.\<close>

definition demo_reviewed :: thread where
  "demo_reviewed =
     (demo_thread True None None)\<lparr>th_branch := Some ''x'', th_base_branch := Some ''main'', th_repo := Some ''/r'',
        th_worktree := Some ''/wt'', th_backend := Some ''a'', th_model := Some ''m''\<rparr>"

definition demo_failed :: thread where
  "demo_failed = (demo_thread False None None)\<lparr>th_id := ''v'', th_review_of := Some ''w'', th_tried := [''b'']\<rparr>"

definition demo_review :: world where
  "demo_review = (demo_world demo_alone [demo_reviewed, demo_failed])\<lparr>w_worktrees := {''/wt''}\<rparr>"

lemma demo_review_context:
  "\<exists>cx. resolve_review_spawn_context demo_env demo_reviewed [''b''] demo_review = (Val (Some cx), demo_review)"
  by (simp add: resolve_review_spawn_context_def demo_env_def demo_config_def validate_review_prerequisites_def
      demo_reviewed_def demo_review_def demo_thread_def truthy_def bind_def read_def ret_def lift_py_def
      require_thread_backend_model_def select_reviewer_backend_def resolve_preference_option_def
      require_backend_option_def get_backend_option_def)

theorem failed_reviewer_is_replaced_once_witness:
  "\<exists>r sp w'. maybe_spawn_reviewer demo_env ''a'' ''v'' 1 [] [] demo_review = (Val (), w') \<and>
     w_spawned w' = [sp] \<and> w_wakes w' = [] \<and> sp_backend sp \<noteq> ''b'' \<and> th_tried r = [''b'', sp_backend sp] \<and>
     other_reviewer w' ''a'' r"
proof -
  have up: "up ''a'' demo_review"
    using demo_up [of "[demo_reviewed, demo_failed]"] by (simp add: demo_review_def up_def healthy_def coherent_def)
  have th: "thread_of demo_review ''a'' ''v'' = Some demo_failed" "thread_of demo_review ''a'' ''w'' = Some demo_reviewed"
    by (simp_all add: thread_of_def demo_review_def demo_world_def demo_reviewed_def demo_failed_def demo_thread_def)
  have f: "th_review_of demo_failed = Some ''w''" "th_tried demo_failed = [''b'']"
    "e_id demo_env (w_clock demo_review) \<notin> th_id ` set (w_threads demo_review ''a'')"
    "\<not> other_reviewer demo_review ''a'' demo_failed" "w_wakes demo_review = []" "w_spawned demo_review = []"
    by (simp_all add: demo_failed_def demo_review_def demo_world_def demo_reviewed_def demo_thread_def other_reviewer_def
        demo_env_def digits_of.simps [of 0] char_of_def)
  obtain cx where "resolve_review_spawn_context demo_env demo_reviewed [''b''] demo_review = (Val (Some cx), demo_review)"
    using demo_review_context by blast
  then show ?thesis
    using failed_reviewer_is_replaced_once [OF up th(1) f(1) _ _ th(2) f(3), of 1 "[]" "[]"] f
    by (simp split: if_splits) fastforce
qed

theorem dead_successor_refuses_delivery_witness:
  "\<exists>msg. deliver_to_successor demo_env ''a'' [(''type'', JStr ET_ERROR)]
      (demo_world [''a'' \<mapsto> demo_session ''a'' (Some ''b'')] []) =
    (Exc msg, demo_world [''a'' \<mapsto> demo_session ''a'' (Some ''b'')] [])"
  using dead_successor_refuses_delivery [of "demo_world [''a'' \<mapsto> demo_session ''a'' (Some ''b'')] []" "''a''"
      "demo_session ''a'' (Some ''b'')" "''b''" demo_env "[(''type'', JStr ET_ERROR)]"]
  by (simp add: demo_world_def demo_session_def)

definition demo_pair :: "string \<rightharpoonup> session" where
  "demo_pair = [''a'' \<mapsto> demo_session ''a'' (Some ''b''), ''b'' \<mapsto> demo_session ''b'' None]"

definition demo_summary :: dict where
  "demo_summary = thread_worker_event ''w'' None None ''completed'' ''done'' None ''t''"

theorem successor_gets_every_summary_witness:
  "summaries ''b'' ''w'' (fold (\<lambda>ev w. settle (persist_worker_summary_once demo_env ''a'' ''w'' ev w))
     [demo_summary, demo_summary] (demo_world demo_pair [])) = 2"
proof -
  have "succeeded ''a'' ''b'' (demo_world demo_pair [])"
    by (simp add: succeeded_def demo_coherent) (simp add: demo_world_def demo_pair_def demo_session_def)
  moreover have "is_terminal_worker_summary demo_summary ''w''"
    by (simp add: demo_summary_def worker_event_terminal)
  ultimately show ?thesis
    using successor_gets_every_summary [of "''a''" "''b''" "demo_world demo_pair []" "''w''" "[demo_summary, demo_summary]" demo_env]
    by (simp add: demo_summaries)
qed

end
