(* ===== verification/Worker_Recovery.thy ===== *)
theory Worker_Recovery
  imports Review Runs Memo
begin

text \<open>
  \<open>src/core/init_worker_recovery.py\<close>: after a restart, the scan of the threads' metadata, the
  judgment of every thread that an earlier server started, and the quarantine of the worktrees of
  long failed ones. A background task that recovery starts is an entry of \<open>ds_tasks\<close>. A metadata
  file holds what the thread manager wrote: every field has the type of its schema, the times as
  text.
\<close>

subsection \<open>Threads on disk\<close>

datatype task_type = IMPLEMENT | QUICK_EDIT | SCRIPT_RUN | VERIFY

record thread_meta = thread +
  tm_started_at :: "string option"
  tm_completed_at :: "string option"
  tm_pid :: "int option"
  tm_pid_start :: "string option"
  tm_task_type :: "task_type option"

text \<open>A thread directory whose \<open>metadata.json\<close> can be stat'ed: its mtime, the signature of that stat,
the content when it can be parsed, and the directory's own ctime.\<close>

record thread_file =
  tf_path :: string
  tf_mtime :: int
  tf_sig :: stat_sig
  tf_content :: "thread_meta option"
  tf_ctime :: "int option"

record session_dir =
  sd_name :: string
  sd_archived :: bool
  sd_threads :: "thread_file list"

record interrupted_run =
  in_session :: string
  in_meta :: thread_meta

type_synonym meta_memo = "(string, thread_meta) stat_memo"

definition running_scan_window :: int where "running_scan_window = 30 * day_us"

definition recent_thread_meta :: "thread_file \<Rightarrow> meta_memo \<Rightarrow> thread_meta option \<times> meta_memo" where
  "recent_thread_meta f m =
     (let (served, m1) = stat_fresh (tf_path f) (tf_sig f) m in
      case served of
        Some v \<Rightarrow> (Some v, m1)
      | None \<Rightarrow> (case tf_content f of
                   None \<Rightarrow> (None, m1)
                 | Some v \<Rightarrow> (Some v, stat_record (tf_path f) (tf_sig f) v m1)))"

fun iter_recent_thread_metas ::
  "thread_file list \<Rightarrow> int \<Rightarrow> int \<Rightarrow> meta_memo \<Rightarrow> (thread_file \<times> thread_meta) list \<times> meta_memo" where
  "iter_recent_thread_metas [] now window m = ([], m)"
| "iter_recent_thread_metas (f # fs) now window m =
     (if tf_mtime f < now - window then iter_recent_thread_metas fs now window m
      else let (meta, m1) = recent_thread_meta f m; (rest, m2) = iter_recent_thread_metas fs now window m1
           in (case meta of None \<Rightarrow> rest | Some v \<Rightarrow> (f, v) # rest, m2))"

text \<open>\<open>parse\<close> is \<open>parse_utc_datetime\<close>.\<close>

definition started_before_boot :: "(string \<Rightarrow> int py) \<Rightarrow> thread_meta \<Rightarrow> int option \<Rightarrow> int \<Rightarrow> bool py" where
  "started_before_boot parse meta ctime boot =
     (let fallback = Inr (case ctime of None \<Rightarrow> True | Some c \<Rightarrow> c < boot)
      in if truthy (tm_started_at meta)
         then (case parse (the (tm_started_at meta)) of
                 Inr t \<Rightarrow> Inr (t < boot)
               | Inl (ValueError _) \<Rightarrow> fallback
               | Inl TypeError \<Rightarrow> fallback
               | Inl e \<Rightarrow> Inl e)
         else fallback)"

fun interrupted_of :: "(string \<Rightarrow> int py) \<Rightarrow> int \<Rightarrow> session_dir \<Rightarrow> (thread_file \<times> thread_meta) list \<Rightarrow> interrupted_run list py" where
  "interrupted_of parse boot d [] = Inr []"
| "interrupted_of parse boot d ((f, meta) # rest) =
     py_bind (started_before_boot parse meta (tf_ctime f) boot) (\<lambda>before.
     py_bind (interrupted_of parse boot d rest) (\<lambda>runs.
       Inr (if before \<and> \<not> sd_archived d then \<lparr>in_session = sd_name d, in_meta = meta\<rparr> # runs else runs)))"

text \<open>The interrupted runs, and all recent metadata for the quarantine.\<close>

fun scan_interrupted_runs ::
  "(string \<Rightarrow> int py) \<Rightarrow> int \<Rightarrow> int \<Rightarrow> session_dir list \<Rightarrow> meta_memo \<Rightarrow>
     (interrupted_run list \<times> thread_meta list) py \<times> meta_memo" where
  "scan_interrupted_runs parse boot now [] m = (Inr ([], []), m)"
| "scan_interrupted_runs parse boot now (d # ds) m =
     (let (metas, m1) = iter_recent_thread_metas (sd_threads d) now running_scan_window m
      in case interrupted_of parse boot d metas of
           Inl e \<Rightarrow> (Inl e, m1)
         | Inr runs \<Rightarrow>
             (let (rest, m2) = scan_interrupted_runs parse boot now ds m1
              in (py_bind rest (\<lambda>(runs', threads). Inr (runs @ runs', map snd metas @ threads)), m2)))"

subsection \<open>What recovery starts\<close>

record respawn_request =
  rq_repo :: "string option"
  rq_base_branch :: "string option"
  rq_context :: "string option"
  rq_backend :: string
  rq_model :: "string option"
  rq_branch_override :: "string option"
  rq_worktree_override :: "string option"
  rq_keep_worktree :: bool
  rq_task_type :: task_type

text \<open>\<open>resume_worker\<close> on a run that is over, or on one still to be followed (with whether its
death can be judged at all); \<open>spawn_worker\<close>; \<open>recomplete_finalize_effects\<close>.\<close>

datatype recovery_task =
    DrainFinalize string string string string
  | FollowRun string string bool
  | RespawnWorker string string string respawn_request
  | RecompleteEffects string string thread int bool

record dispatch =
  ds_world :: world
  ds_tasks :: "recovery_task list"
  ds_reported :: "string set"
  ds_signalled :: "int list"

record 's worker_boot =
  wb_env :: env
  wb_parse :: "string \<Rightarrow> int py"
  wb_proc :: proc_stat
  wb_host_boot :: int
  wb_holders :: holders_scan
  wb_now :: int
  wb_own :: int
  wb_raw :: "string \<Rightarrow> string \<Rightarrow> raw_log"
  wb_translate :: "backend_option \<Rightarrow> 's translator"
  wb_identity :: "'s translator"
  wb_fresh :: 's

definition start_task :: "recovery_task \<Rightarrow> dispatch \<Rightarrow> dispatch" where
  "start_task t d = d\<lparr>ds_tasks := ds_tasks d @ [t]\<rparr>"

definition report_recovery_event :: "env \<Rightarrow> string \<Rightarrow> string \<Rightarrow> unit act" where
  "report_recovery_event E sid content =
     try_except
       (seq (deliver_to_successor E sid
               [(''type'', JStr ET_ERROR), (''content'', JStr content), (''source'', JStr ''crash_recovery'')])
            (mark_unread sid))
       (\<lambda>_. ret ())"

definition in_world :: "'a act \<Rightarrow> dispatch \<Rightarrow> 'a outcome \<times> dispatch" where
  "in_world m d = (case m (ds_world d) of (out, w) \<Rightarrow> (out, d\<lparr>ds_world := w\<rparr>))"

definition improve_iteration_prefix :: string where
  "improve_iteration_prefix = ''Iterative improvement '' @ em_dash @ '' iteration''"

definition silence_report_text :: "string \<Rightarrow> string \<Rightarrow> string" where
  "silence_report_text tid reason =
     ''Worker thread '' @ str_take 8 tid @ '' is still alive but produced no output for over '' @
     int_str (no_output_report_threshold div 3600) @ ''h ('' @ reason @ ''). Suspected hung; it is NOT being killed '' @
     em_dash @ '' re-attached and left running.''"

definition follow_silence_recheck :: "env \<Rightarrow> string \<Rightarrow> string \<Rightarrow> dispatch \<Rightarrow> unit outcome \<times> dispatch" where
  "follow_silence_recheck E sid tid d =
     (if tid \<in> ds_reported d then (Val (), d)
      else in_world (report_recovery_event E sid (silence_report_text tid ''silence crossed after re-attach''))
             (d\<lparr>ds_reported := insert tid (ds_reported d)\<rparr>))"

subsection \<open>A thread whose status is terminal\<close>

definition effects_maybe_missing :: "thread_meta \<Rightarrow> dict list \<Rightarrow> thread list \<Rightarrow> bool py" where
  "effects_maybe_missing m evs ts =
     (if \<not> terminal_summary_present evs (th_id m) then Inr True
      else py_bind (master_woke_after_summary evs (th_id m)) (\<lambda>woke.
        if \<not> woke then Inr True
        else if th_status m = T_COMPLETED \<and> th_require_review m \<and> \<not> truthy (th_review_of m) \<and>
                truthy (th_repo m) \<and> truthy (th_branch m) \<and> truthy (th_worktree m)
        then Inr (\<not> reviewer_thread_exists ts (th_id m) (Some (th_id m)))
        else Inr False))"

definition complete_finalize_effects :: "interrupted_run \<Rightarrow> dict list \<Rightarrow> thread list \<Rightarrow> dispatch \<Rightarrow> dispatch py" where
  "complete_finalize_effects item evs ts d =
     (let m = in_meta item in
      if prefix improve_iteration_prefix (th_description m) then Inr d
      else py_bind (effects_maybe_missing m evs ts) (\<lambda>missing.
        Inr (if \<not> missing then d
             else start_task (RecompleteEffects (in_session item) (th_description m) (thread.truncate m)
                    (case th_exit_code m of None \<Rightarrow> - 1 | Some c \<Rightarrow> c) (tm_task_type m = Some VERIFY)) d)))"

subsection \<open>A worker that was registered and never started\<close>

definition task_type_of :: "string \<Rightarrow> task_type py" where
  "task_type_of s =
     (if s = ''implement'' then Inr IMPLEMENT else if s = ''quick-edit'' then Inr QUICK_EDIT
      else if s = ''script-run'' then Inr SCRIPT_RUN else if s = ''verify'' then Inr VERIFY
      else Inl (ValueError (py_repr (Some s) @ '' is not a valid TaskType'')))"

text \<open>The invocation of the last delegation of this thread; a delegation without one counts as empty.\<close>

fun last_delegation :: "dict list \<Rightarrow> string \<Rightarrow> dict option" where
  "last_delegation [] tid = None"
| "last_delegation (ev # evs) tid =
     (case last_delegation evs tid of
        Some e \<Rightarrow> Some e
      | None \<Rightarrow> if dget ev ''type'' = JStr ET_TASK_DELEGATED \<and> dget ev ''thread_id'' = JStr tid then Some ev else None)"

definition invocation_of :: "dict \<Rightarrow> dict py" where
  "invocation_of ev =
     (let v = dget ev ''delegate_invocation'' in
      if \<not> jtruthy v then Inr [] else case v of JObj d \<Rightarrow> Inr d | _ \<Rightarrow> Inl AttributeError)"

text \<open>\<open>invocation.get(k) or alternative\<close>, for a key whose values are strings.\<close>

definition or_str :: "json \<Rightarrow> string option \<Rightarrow> string option" where
  "or_str v alt = (case v of JStr s \<Rightarrow> if s = [] then alt else Some s | _ \<Rightarrow> alt)"

definition respawn_task_type :: "dict \<Rightarrow> thread_meta \<Rightarrow> task_type py" where
  "respawn_task_type invo m =
     (case or_str (dget invo ''task_type'') None of
        Some s \<Rightarrow> task_type_of s
      | None \<Rightarrow> Inr (case tm_task_type m of None \<Rightarrow> IMPLEMENT | Some t \<Rightarrow> t))"

definition respawn_backend :: "config \<Rightarrow> string \<Rightarrow> string option \<Rightarrow> dict \<Rightarrow> task_type \<Rightarrow> (string \<times> string option) py" where
  "respawn_backend cfg sid pin invo ty =
     (let requested = (case dget invo ''backend'' of JNull \<Rightarrow> None | JStr s \<Rightarrow> Some s | _ \<Rightarrow> Some []) in
      if ty = VERIFY \<and> requested = None
      then py_bind (select_verify_backend sid cfg pin []) (\<lambda>sel.
             case sel of None \<Rightarrow> Inl TypeError | Some (b, m, _) \<Rightarrow> Inr (b, m))
      else resolve_requested_subagent_backend_model sid cfg pin requested)"

text \<open>\<open>None\<close>: not to be respawned.\<close>

definition maybe_respawn :: "config \<Rightarrow> string option \<Rightarrow> interrupted_run \<Rightarrow> dict list \<Rightarrow> respawn_request option py" where
  "maybe_respawn cfg pin item evs =
     (let m = in_meta item; sid = in_session item in
      if truthy (th_review_of m) \<or> prefix improve_iteration_prefix (th_description m) then Inr None
      else case last_delegation evs (th_id m) of
             None \<Rightarrow> Inr None
           | Some ev \<Rightarrow>
               py_bind (invocation_of ev) (\<lambda>invo.
               py_bind (respawn_task_type invo m) (\<lambda>ty.
                 case respawn_backend cfg sid pin invo ty of
                   Inl (ValueError _) \<Rightarrow> Inr None
                 | Inl e \<Rightarrow> Inl e
                 | Inr (b, model) \<Rightarrow>
                     Inr (Some \<lparr>rq_repo = or_str (dget invo ''repo_path'') (th_repo m),
                                rq_base_branch = or_str (dget invo ''base_branch'') (th_base_branch m),
                                rq_context = th_context m, rq_backend = b, rq_model = model,
                                rq_branch_override = th_branch m, rq_worktree_override = th_worktree m,
                                rq_keep_worktree = jtruthy (dget invo ''keep_worktree''), rq_task_type = ty\<rparr>))))"

subsection \<open>One interrupted run\<close>

fun backend_type_name :: "backend_type \<Rightarrow> string" where
  "backend_type_name CC_CLAUDE = ''cc-claude''"
| "backend_type_name CC_KIMI = ''cc-kimi''"
| "backend_type_name CC_OPENAI_COMPATIBLE = ''cc-openai-compatible''"
| "backend_type_name CODEX = ''codex''"
| "backend_type_name CHARLIE_CODE = ''charlie-code''"
| "backend_type_name GEMINI = ''gemini''"
| "backend_type_name OPENCODE = ''opencode''"
| "backend_type_name ANTIGRAVITY = ''antigravity''"
| "backend_type_name TUI_CLI = ''tui-cli''"

definition run_backend_type :: "config \<Rightarrow> string option \<Rightarrow> string option" where
  "run_backend_type cfg b =
     (if \<not> truthy b then None else map_option (\<lambda>o'. backend_type_name (bo_type o')) (get_backend_option cfg (the b)))"

definition translate_for_thread :: "'s worker_boot \<Rightarrow> thread_meta \<Rightarrow> 's translator" where
  "translate_for_thread WB m =
     (if truthy (th_backend m)
      then (case resolve_backend_option (e_cfg (wb_env WB)) (the (th_backend m)) (th_model m) of
              Inr opt \<Rightarrow> wb_translate WB opt
            | Inl _ \<Rightarrow> wb_identity WB)
      else wb_identity WB)"

definition parse_started_at :: "(string \<Rightarrow> int py) \<Rightarrow> thread_meta \<Rightarrow> int option py" where
  "parse_started_at parse m =
     (if \<not> truthy (tm_started_at m) then Inr None
      else case parse (the (tm_started_at m)) of
             Inr t \<Rightarrow> Inr (Some t)
           | Inl (ValueError _) \<Rightarrow> Inr None
           | Inl TypeError \<Rightarrow> Inr None
           | Inl e \<Rightarrow> Inl e)"

definition worker_facts :: "'s worker_boot \<Rightarrow> interrupted_run \<Rightarrow> int option \<Rightarrow> 's run_facts" where
  "worker_facts WB item started =
     (let m = in_meta item in
      \<lparr>rf_raw = wb_raw WB (in_session item) (th_id m), rf_pid = tm_pid m, rf_pid_start = tm_pid_start m,
       rf_started_at = map_option Aware started, rf_backend = run_backend_type (e_cfg (wb_env WB)) (th_backend m),
       rf_translate = translate_for_thread WB m, rf_fresh = wb_fresh WB, rf_boot = wb_host_boot WB,
       rf_holders = Some (wb_holders WB), rf_now = wb_now WB, rf_proc = wb_proc WB, rf_own = wb_own WB,
       rf_parser = e_parser (wb_env WB)\<rparr>)"

text \<open>Whether the follow's liveness probe can ever answer that the run is dead.\<close>

definition probe_judges :: "int option \<Rightarrow> string option \<Rightarrow> int option \<Rightarrow> bool" where
  "probe_judges pid pid_start started = (pid \<noteq> None \<and> pid_start \<noteq> None \<and> started \<noteq> None)"

definition named_holders :: "holder list \<Rightarrow> string" where
  "named_holders hs =
     py_join '', '' (map (\<lambda>h. ''pid '' @ int_str (h_pid h) @ '' ('' @
       (if h_cmdline h = [] then ''unknown command'' else h_cmdline h) @ '')'') hs)"

definition unfollowable_text :: "string \<Rightarrow> string \<Rightarrow> string" where
  "unfollowable_text tid reason =
     ''Worker thread '' @ str_take 8 tid @ '' is treated as still alive ('' @ reason @
     ''); it is NOT being killed '' @ em_dash @
     '' left running without re-attach and judged again on the next restart.''"

definition leftover_text :: "string \<Rightarrow> holder list \<Rightarrow> string" where
  "leftover_text tid hs =
     ''Worker thread '' @ str_take 8 tid @
     '' ended but left descendant process(es) holding its output log; terminated: '' @ named_holders hs @ ''.''"

definition as_started :: "unit outcome \<times> dispatch \<Rightarrow> bool outcome \<times> dispatch" where
  "as_started r = (case r of (Val _, d) \<Rightarrow> (Val True, d) | (Exc msg, d) \<Rightarrow> (Exc msg, d) | (Killed, d) \<Rightarrow> (Killed, d))"

text \<open>An alive run: reported when nothing of it can be followed, else followed, a silent one reported
too; the report of a silent run claims the thread's one report of this boot.\<close>

definition reconcile_alive :: "'s worker_boot \<Rightarrow> interrupted_run \<Rightarrow> int option \<Rightarrow> run_resolution \<Rightarrow> dispatch \<Rightarrow> bool outcome \<times> dispatch" where
  "reconcile_alive WB item at r d =
     (let m = in_meta item; sid = in_session item;
          follow = start_task (FollowRun sid (th_id m) (probe_judges (tm_pid m) (tm_pid_start m) at)) in
      if rr_outcome r = RUNNING \<and> rr_reason r \<in> {uncovered_alive_reason, raw_missing_alive_reason}
      then as_started (in_world (report_recovery_event (wb_env WB) sid (unfollowable_text (th_id m) (rr_reason r))) d)
      else if rr_outcome r = STALLED
      then (case in_world (report_recovery_event (wb_env WB) sid (silence_report_text (th_id m) (rr_reason r)))
                   (d\<lparr>ds_reported := insert (th_id m) (ds_reported d)\<rparr>) of
              (Val _, d1) \<Rightarrow> (Val True, follow d1)
            | (out, d1) \<Rightarrow> as_started (out, d1))
      else (Val True, follow d))"

text \<open>A run that is over: drained and finalized; the processes that outlived it are terminated.\<close>

definition reconcile_over :: "'s worker_boot \<Rightarrow> interrupted_run \<Rightarrow> run_resolution \<Rightarrow> dispatch \<Rightarrow> bool outcome \<times> dispatch" where
  "reconcile_over WB item r d =
     (let m = in_meta item; sid = in_session item;
          d1 = start_task (DrainFinalize sid (th_description m) (th_id m) (rr_reason r)) d in
      if rr_leftovers r = [] then (Val True, d1)
      else as_started (in_world (report_recovery_event (wb_env WB) sid (leftover_text (th_id m) (rr_leftovers r)))
             (d1\<lparr>ds_signalled := ds_signalled d1 @ map h_pid (rr_leftovers r)\<rparr>)))"

definition raised_in :: "'s worker_boot \<Rightarrow> py_error \<Rightarrow> 'a outcome" where
  "raised_in WB e = Exc (case e of ValueError msg \<Rightarrow> msg | _ \<Rightarrow> e_text (wb_env WB) e)"

definition reconcile_one ::
  "'s worker_boot \<Rightarrow> interrupted_run \<Rightarrow> dict list \<Rightarrow> thread list \<Rightarrow> dispatch \<Rightarrow> bool outcome \<times> dispatch" where
  "reconcile_one WB item evs ts d =
     (let m = in_meta item; sid = in_session item in
      if terminal_status (th_status m)
      then (case complete_finalize_effects item evs ts d of
              Inl e \<Rightarrow> (raised_in WB e, d) | Inr d1 \<Rightarrow> (Val False, d1))
      else case parse_started_at (wb_parse WB) m of
             Inl e \<Rightarrow> (raised_in WB e, d)
           | Inr at \<Rightarrow>
      (case resolve_run (worker_facts WB item at) of
         Inl e \<Rightarrow> (raised_in WB e, d)
       | Inr r \<Rightarrow>
           if rr_outcome r = NEVER_STARTED
           then (case maybe_respawn (e_cfg (wb_env WB)) (map_option sm_backend (w_sessions (ds_world d) sid)) item evs of
                   Inl e \<Rightarrow> (raised_in WB e, d)
                 | Inr (Some rq) \<Rightarrow> (Val True, start_task (RespawnWorker sid (th_description m) (th_id m) rq) d)
                 | Inr None \<Rightarrow> (Val True, start_task (DrainFinalize sid (th_description m) (th_id m) []) d))
           else if rr_outcome r = RUNNING \<or> rr_outcome r = STALLED then reconcile_alive WB item at r d
           else reconcile_over WB item r d))"

subsection \<open>The pass\<close>

text \<open>The chat and the threads of a session are read once, at its first interrupted run; an exception
skips the run.\<close>

fun reconcile_runs ::
  "'s worker_boot \<Rightarrow> interrupted_run list \<Rightarrow> (string \<rightharpoonup> dict list) \<Rightarrow> (string \<rightharpoonup> thread list) \<Rightarrow> nat \<Rightarrow> dispatch \<Rightarrow>
     nat outcome \<times> dispatch" where
  "reconcile_runs WB [] chats listed n d = (Val n, d)"
| "reconcile_runs WB (item # items) chats listed n d =
     (let sid = in_session item;
          (evs, s) = (case chats sid of
             Some evs \<Rightarrow> (Inr evs, w_store (ds_world d))
           | None \<Rightarrow> load_chat_events sid (w_store (ds_world d)));
          d1 = d\<lparr>ds_world := (ds_world d)\<lparr>w_store := s\<rparr>\<rparr>
      in case evs of
           Inl _ \<Rightarrow> reconcile_runs WB items chats listed n d1
         | Inr events \<Rightarrow>
             (let ts = (case listed sid of Some ts \<Rightarrow> ts | None \<Rightarrow> rev (w_threads (ds_world d1) sid));
                  chats' = chats(sid \<mapsto> events); listed' = listed(sid \<mapsto> ts)
              in case reconcile_one WB item events ts d1 of
                   (Val b, d2) \<Rightarrow> reconcile_runs WB items chats' listed' (if b then Suc n else n) d2
                 | (Exc _, d2) \<Rightarrow> reconcile_runs WB items chats' listed' n d2
                 | (Killed, d2) \<Rightarrow> (Killed, d2)))"

definition reconcile_interrupted_runs :: "'s worker_boot \<Rightarrow> interrupted_run list \<Rightarrow> dispatch \<Rightarrow> nat outcome \<times> dispatch" where
  "reconcile_interrupted_runs WB items d = reconcile_runs WB items Map.empty Map.empty 0 d"

subsection \<open>Quarantine\<close>

definition quarantine_days :: int where "quarantine_days = 7"

record quarantine_call =
  qc_repo :: string
  qc_worktree :: string
  qc_thread :: string
  qc_residue :: string

definition worktree_dir_name :: "string \<Rightarrow> string" where
  "worktree_dir_name branch = map (\<lambda>c. if c = CHR ''/'' then CHR ''-'' else c) branch"

definition active_worktrees :: "thread_meta list \<Rightarrow> string set" where
  "active_worktrees ms =
     {the (th_worktree m) | m. m \<in> set ms \<and> truthy (th_worktree m) \<and> \<not> terminal_status (th_status m)}"

text \<open>One thread: whether its worktree is to go. An exception other than an unparseable time skips it.\<close>

definition quarantine_due :: "(string \<Rightarrow> int py) \<Rightarrow> int \<Rightarrow> string set \<Rightarrow> thread_meta list \<Rightarrow> string set \<Rightarrow> thread_meta \<Rightarrow> bool" where
  "quarantine_due parse now on_disk ms swept m =
     (th_status m = T_FAILED \<and> \<not> th_keep_worktree m \<and>
      truthy (th_repo m) \<and> truthy (th_worktree m) \<and> truthy (th_branch m) \<and> the (th_worktree m) \<notin> swept \<and>
      truthy (tm_completed_at m) \<and>
      (case parse (the (tm_completed_at m)) of Inl _ \<Rightarrow> False | Inr t \<Rightarrow> \<not> now - t < quarantine_days * day_us) \<and>
      the (th_worktree m) \<in> on_disk \<and> the (th_worktree m) \<notin> active_worktrees ms)"

text \<open>\<open>moved\<close> says what a call of \<open>git_quarantine_worktree\<close> leaves on disk; its failure is logged.\<close>

fun quarantine_sweep ::
  "(string \<Rightarrow> int py) \<Rightarrow> int \<Rightarrow> (quarantine_call \<Rightarrow> string set \<Rightarrow> string set) \<Rightarrow> thread_meta list \<Rightarrow> thread_meta list \<Rightarrow>
     string set \<Rightarrow> string set \<Rightarrow> quarantine_call list \<times> string set" where
  "quarantine_sweep parse now moved ms [] swept on_disk = ([], on_disk)"
| "quarantine_sweep parse now moved ms (m # rest) swept on_disk =
     (if quarantine_due parse now on_disk ms swept m
      then let call = \<lparr>qc_repo = the (th_repo m), qc_worktree = the (th_worktree m), qc_thread = th_id m,
                       qc_residue = worktree_dir_name (the (th_branch m))\<rparr>;
               (calls, disk) = quarantine_sweep parse now moved ms rest (insert (the (th_worktree m)) swept) (moved call on_disk)
           in (call # calls, disk)
      else quarantine_sweep parse now moved ms rest swept on_disk)"

definition quarantine_stale_failed_worktrees ::
  "(string \<Rightarrow> int py) \<Rightarrow> int \<Rightarrow> (quarantine_call \<Rightarrow> string set \<Rightarrow> string set) \<Rightarrow> thread_meta list \<Rightarrow> string set \<Rightarrow>
     quarantine_call list \<times> string set" where
  "quarantine_stale_failed_worktrees parse now moved ms on_disk = quarantine_sweep parse now moved ms ms {} on_disk"

subsection \<open>The memo of the scan is transparent\<close>

definition read_metas :: "thread_file list \<Rightarrow> int \<Rightarrow> int \<Rightarrow> (thread_file \<times> thread_meta) list" where
  "read_metas fs now window =
     List.map_filter (\<lambda>f. if tf_mtime f < now - window then None else map_option (Pair f) (tf_content f)) fs"

text \<open>While every held parse is the content of the file of that path and signature, the scan answers
what reading every file would.\<close>

definition truthful :: "thread_file list \<Rightarrow> string \<Rightarrow> stat_sig \<Rightarrow> thread_meta \<Rightarrow> bool" where
  "truthful fs path sig v = (\<forall>f \<in> set fs. tf_path f = path \<and> tf_sig f = sig \<longrightarrow> tf_content f = Some v)"

lemma recent_meta_reads:
  assumes "stat_memo.sound (truthful fs) m" "f \<in> set fs"
    "\<forall>g \<in> set fs. tf_path g = tf_path f \<and> tf_sig g = tf_sig f \<longrightarrow> tf_content g = tf_content f"
  shows "fst (recent_thread_meta f m) = tf_content f"
    and "stat_memo.sound (truthful fs) (snd (recent_thread_meta f m))"
proof -
  obtain served m1 where s: "stat_fresh (tf_path f) (tf_sig f) m = (served, m1)" by fastforce
  have m1: "stat_memo.sound (truthful fs) m1" using stat_memo.sound_look [OF assms(1)] s by (metis snd_conv)
  have hit: "tf_content f = Some v" if "served = Some v" for v
  proof -
    have "truthful fs (tf_path f) (tf_sig f) v" using stat_memo.sound_served [OF assms(1)] s that by simp
    then show ?thesis using assms(2) by (simp add: truthful_def)
  qed
  show "fst (recent_thread_meta f m) = tf_content f"
    using s hit by (cases served; cases "tf_content f") (simp_all add: recent_thread_meta_def)
  have "truthful fs (tf_path f) (tf_sig f) v" if "tf_content f = Some v" for v
    using that assms(3) by (simp add: truthful_def)
  then show "stat_memo.sound (truthful fs) (snd (recent_thread_meta f m))"
    using s m1 stat_memo.sound_put [OF m1] by (cases served; cases "tf_content f") (simp_all add: recent_thread_meta_def)
qed

lemma scan_memo_transparent:
  assumes "stat_memo.sound (truthful fs) m" "set gs \<subseteq> set fs" "distinct (map tf_path fs)"
  shows "fst (iter_recent_thread_metas gs now window m) = read_metas gs now window"
    and "stat_memo.sound (truthful fs) (snd (iter_recent_thread_metas gs now window m))"
  using assms(1,2)
proof (induction gs arbitrary: m)
  case (Cons g gs)
  have same: "\<forall>h \<in> set fs. tf_path h = tf_path g \<and> tf_sig h = tf_sig g \<longrightarrow> tf_content h = tf_content g"
    if "g \<in> set fs"
    using assms(3) that by (auto simp: distinct_map inj_on_def)
  { case 1
    then have g: "g \<in> set fs" by simp
    obtain meta m1 where r: "recent_thread_meta g m = (meta, m1)" by fastforce
    have "meta = tf_content g" "stat_memo.sound (truthful fs) m1"
      using recent_meta_reads [OF 1(1) g same [OF g]] r by simp_all
    then show ?case
      using Cons.IH(1) [of m1] Cons.IH(1) [of m] 1 r
      by (cases "tf_content g") (auto simp: read_metas_def map_filter_simps split: prod.split) }
  { case 2
    then have g: "g \<in> set fs" by simp
    obtain meta m1 where r: "recent_thread_meta g m = (meta, m1)" by fastforce
    have "stat_memo.sound (truthful fs) m1"
      using recent_meta_reads(2) [OF 2(1) g same [OF g]] r by simp
    then show ?case using Cons.IH(2) [of m1] Cons.IH(2) [of m] 2 r by (auto split: prod.split) }
qed (simp_all add: read_metas_def map_filter_simps)

subsection \<open>What one reconciliation adds\<close>

text \<open>Tasks and signals are only ever appended; \<open>P\<close> holds of what an item adds.\<close>

definition adds_only :: "(recovery_task \<Rightarrow> bool) \<Rightarrow> (int \<Rightarrow> bool) \<Rightarrow> dispatch \<Rightarrow> dispatch \<Rightarrow> bool" where
  "adds_only P Q d d' \<longleftrightarrow>
     (\<exists>ts ps. ds_tasks d' = ds_tasks d @ ts \<and> ds_signalled d' = ds_signalled d @ ps \<and>
        (\<forall>t \<in> set ts. P t) \<and> (\<forall>p \<in> set ps. Q p))"

lemma adds_only_refl: "adds_only P Q d d" by (simp add: adds_only_def)

lemma adds_only_trans: "adds_only P Q a b \<Longrightarrow> adds_only P Q b c \<Longrightarrow> adds_only P Q a c"
proof -
  assume "adds_only P Q a b" "adds_only P Q b c"
  then obtain ts ps us qs where
    "ds_tasks b = ds_tasks a @ ts" "ds_signalled b = ds_signalled a @ ps" "\<forall>t \<in> set ts. P t" "\<forall>p \<in> set ps. Q p"
    "ds_tasks c = ds_tasks b @ us" "ds_signalled c = ds_signalled b @ qs" "\<forall>t \<in> set us. P t" "\<forall>p \<in> set qs. Q p"
    unfolding adds_only_def by blast
  then show ?thesis unfolding adds_only_def by (intro exI [of _ "ts @ us"] exI [of _ "ps @ qs"]) auto
qed

lemma adds_only_mono: "adds_only P Q a b \<Longrightarrow> (\<And>t. P t \<Longrightarrow> P' t) \<Longrightarrow> (\<And>p. Q p \<Longrightarrow> Q' p) \<Longrightarrow> adds_only P' Q' a b"
  unfolding adds_only_def by blast

lemma adds_only_same: "ds_tasks d' = ds_tasks d \<Longrightarrow> ds_signalled d' = ds_signalled d \<Longrightarrow> adds_only P Q d d'"
  by (simp add: adds_only_def)

lemma adds_only_task: "P t \<Longrightarrow> adds_only P Q d (start_task t d)"
  by (simp add: adds_only_def start_task_def)

lemma in_world_adds: "adds_only P Q d (snd (in_world m d))"
  by (simp add: in_world_def adds_only_def split: prod.split)

lemma in_world_adds_from: "adds_only P Q d d0 \<Longrightarrow> adds_only P Q d (snd (in_world m d0))"
  by (rule adds_only_trans [OF _ in_world_adds])

lemma adds_only_task_from: "adds_only P Q d d0 \<Longrightarrow> P t \<Longrightarrow> adds_only P Q d (start_task t d0)"
  by (rule adds_only_trans [OF _ adds_only_task])

lemma as_started_snd [simp]: "snd (as_started r) = snd r"
  by (simp add: as_started_def split: prod.split outcome.split)

text \<open>When a run may be finalized: it never started, its log holds a result, or its death is proven.\<close>

definition over :: "'s worker_boot \<Rightarrow> interrupted_run \<Rightarrow> bool" where
  "over WB item \<longleftrightarrow>
     (\<exists>at. parse_started_at (wb_parse WB) (in_meta item) = Inr at \<and>
        (let f = worker_facts WB item at in
         (rl_bytes (rf_raw f) = None \<and> rf_pid f = None) \<or>
         (\<exists>result. raw_result f = Inr (Some result)) \<or>
         (is_run_alive (rf_proc f) (rf_pid f) (rf_pid_start f) (rf_started_at f) (rf_boot f) = Inr False \<and> \<not> unverifiable f)))"

text \<open>A process that may be signalled on behalf of a run.\<close>

definition leftover_of :: "'s worker_boot \<Rightarrow> interrupted_run \<Rightarrow> int \<Rightarrow> bool" where
  "leftover_of WB item p \<longleftrightarrow>
     (\<exists>at mtime dev ino hs. parse_started_at (wb_parse WB) (in_meta item) = Inr at \<and>
        is_run_alive (wb_proc WB) (tm_pid (in_meta item)) (tm_pid_start (in_meta item)) (map_option Aware at) (wb_host_boot WB) = Inr False \<and>
        rl_stat (wb_raw WB (in_session item) (th_id (in_meta item))) = Some (mtime, dev, ino) \<and>
        map_of (wb_holders WB) (dev, ino) = Some hs \<and> p \<in> h_pid ` set hs \<and>
        Some p \<noteq> tm_pid (in_meta item) \<and> p \<noteq> wb_own WB \<and> p \<noteq> 0 \<and> p \<noteq> 1)"

definition task_allowed :: "'s worker_boot \<Rightarrow> interrupted_run list \<Rightarrow> recovery_task \<Rightarrow> bool" where
  "task_allowed WB items t =
     (\<forall>sid desc tid reason. t = DrainFinalize sid desc tid reason \<longrightarrow>
        (\<exists>item \<in> set items. in_session item = sid \<and> th_id (in_meta item) = tid \<and>
           \<not> terminal_status (th_status (in_meta item)) \<and> over WB item))"

lemma resolved_over:
  assumes "resolve_run f = Inr r" "rr_outcome r \<noteq> RUNNING" "rr_outcome r \<noteq> STALLED"
  shows "(rl_bytes (rf_raw f) = None \<and> rf_pid f = None) \<or> (\<exists>result. raw_result f = Inr (Some result)) \<or>
    (is_run_alive (rf_proc f) (rf_pid f) (rf_pid_start f) (rf_started_at f) (rf_boot f) = Inr False \<and> \<not> unverifiable f)"
proof (cases "rl_bytes (rf_raw f) = None \<and> rf_pid f = None")
  case False
  then obtain alive result where a: "is_run_alive (rf_proc f) (rf_pid f) (rf_pid_start f) (rf_started_at f) (rf_boot f) = Inr alive"
    "raw_result f = Inr result" "r = resolve_rows f alive result"
    using assms(1) by (auto simp: resolve_run_def py_bind_Inr_iff)
  then show ?thesis
    using resolve_rows_outcome [OF a(2), of alive] assms(2,3) by (cases result) (auto split: if_splits)
qed simp

lemma worker_facts_fields [simp]:
  "rf_pid (worker_facts WB item at) = tm_pid (in_meta item)"
  "rf_pid_start (worker_facts WB item at) = tm_pid_start (in_meta item)"
  "rf_started_at (worker_facts WB item at) = map_option Aware at"
  "rf_proc (worker_facts WB item at) = wb_proc WB" "rf_boot (worker_facts WB item at) = wb_host_boot WB"
  "rf_own (worker_facts WB item at) = wb_own WB" "rf_holders (worker_facts WB item at) = Some (wb_holders WB)"
  "rf_raw (worker_facts WB item at) = wb_raw WB (in_session item) (th_id (in_meta item))"
  by (simp_all add: worker_facts_def Let_def)

lemma leftover_signal:
  assumes "parse_started_at (wb_parse WB) (in_meta item) = Inr at" "resolve_run (worker_facts WB item at) = Inr r"
    "h \<in> set (rr_leftovers r)"
  shows "leftover_of WB item (h_pid h)"
  using leftover_facts [OF assms(2,3)] assms(1) unfolding leftover_of_def by auto

lemma task_allowed_other: "(\<And>sid desc tid reason. t \<noteq> DrainFinalize sid desc tid reason) \<Longrightarrow> task_allowed WB items t"
  by (simp add: task_allowed_def)

lemma reconcile_alive_adds: "adds_only (task_allowed WB items) Q d (snd (reconcile_alive WB item at r d))"
proof -
  let ?m = "in_meta item" and ?sid = "in_session item"
  let ?follow = "start_task (FollowRun ?sid (th_id ?m) (probe_judges (tm_pid ?m) (tm_pid_start ?m) at))"
  let ?stalled = "in_world (report_recovery_event (wb_env WB) ?sid (silence_report_text (th_id ?m) (rr_reason r)))
                   (d\<lparr>ds_reported := insert (th_id ?m) (ds_reported d)\<rparr>)"
  have ok: "task_allowed WB items (FollowRun s t b)" for s t b by (rule task_allowed_other) simp
  have st: "adds_only (task_allowed WB items) Q d (snd ?stalled)"
    by (rule in_world_adds_from) (simp add: adds_only_same)
  have f: "adds_only (task_allowed WB items) Q d (?follow (snd ?stalled))"
    by (rule adds_only_task_from [where P = "task_allowed WB items"]) (rule st, rule ok)
  have f0: "adds_only (task_allowed WB items) Q d (?follow d)"
    by (rule adds_only_task [where P = "task_allowed WB items"]) (rule ok)
  have "snd (reconcile_alive WB item at r d) \<in>
      {snd (in_world (report_recovery_event (wb_env WB) ?sid (unfollowable_text (th_id ?m) (rr_reason r))) d),
       ?follow (snd ?stalled), snd ?stalled, ?follow d}"
    by (cases ?stalled; cases "fst ?stalled") (simp_all add: reconcile_alive_def Let_def)
  then show ?thesis
    using st f f0 by (auto simp: in_world_adds)
qed

lemma reconcile_over_adds:
  assumes "parse_started_at (wb_parse WB) (in_meta item) = Inr at" "resolve_run (worker_facts WB item at) = Inr r"
    and "task_allowed WB items (DrainFinalize (in_session item) (th_description (in_meta item)) (th_id (in_meta item)) (rr_reason r))"
  shows "adds_only (task_allowed WB items) (leftover_of WB item) d (snd (reconcile_over WB item r d))"
proof -
  let ?t = "DrainFinalize (in_session item) (th_description (in_meta item)) (th_id (in_meta item)) (rr_reason r)"
  let ?d = "start_task ?t d"
  have d: "adds_only (task_allowed WB items) (leftover_of WB item) d ?d" by (rule adds_only_task [where P = "task_allowed WB items"]) (rule assms(3))
  have "adds_only (task_allowed WB items) (leftover_of WB item) d
      (?d\<lparr>ds_signalled := ds_signalled ?d @ map h_pid (rr_leftovers r)\<rparr>)"
    using leftover_signal [OF assms(1,2)] assms(3) by (auto simp: adds_only_def start_task_def)
  then show ?thesis
    using d by (simp add: reconcile_over_def Let_def in_world_adds_from)
qed

lemma complete_effects_adds:
  "complete_finalize_effects item evs ts d = Inr d' \<Longrightarrow> adds_only (task_allowed WB items) Q d d'"
  by (auto simp: complete_finalize_effects_def Let_def py_bind_Inr_iff adds_only_refl intro!: adds_only_task task_allowed_other split: if_splits)

lemma reconcile_one_adds:
  "adds_only (task_allowed WB [item]) (leftover_of WB item) d (snd (reconcile_one WB item evs ts d))"
proof (cases "terminal_status (th_status (in_meta item))")
  case True
  then show ?thesis
    by (auto simp: reconcile_one_def Let_def adds_only_refl intro: complete_effects_adds split: sum.split)
next
  case False
  note running = False
  show ?thesis
  proof (cases "parse_started_at (wb_parse WB) (in_meta item)")
    case (Inl e)
    then show ?thesis using running by (simp add: reconcile_one_def Let_def adds_only_refl)
  next
    case (Inr at)
    note at = Inr
    show ?thesis
    proof (cases "resolve_run (worker_facts WB item at)")
      case (Inl e)
      then show ?thesis using running at by (simp add: reconcile_one_def Let_def adds_only_refl)
    next
      case (Inr r)
      have drain: "task_allowed WB [item] (DrainFinalize (in_session item) (th_description (in_meta item)) (th_id (in_meta item)) reason)"
        if "rr_outcome r \<noteq> RUNNING" "rr_outcome r \<noteq> STALLED" for reason
        using resolved_over [OF Inr that] at running by (auto simp: task_allowed_def over_def Let_def)
      have spawn: "task_allowed WB [item] (RespawnWorker a b c q)" for a b c q by (rule task_allowed_other) simp
      consider "rr_outcome r = NEVER_STARTED" | "rr_outcome r = RUNNING \<or> rr_outcome r = STALLED"
        | "rr_outcome r = COMPLETED_RUN \<or> rr_outcome r = DIED"
        by (cases "rr_outcome r") auto
      then show ?thesis
      proof cases
        case 1
        then show ?thesis using running at Inr drain spawn
          by (auto simp: reconcile_one_def Let_def adds_only_refl intro!: adds_only_task split: sum.split option.split)
      next
        case 2
        then have "snd (reconcile_one WB item evs ts d) = snd (reconcile_alive WB item at r d)"
          using running at Inr by (auto simp: reconcile_one_def Let_def)
        then show ?thesis using reconcile_alive_adds by metis
      next
        case 3
        then have "snd (reconcile_one WB item evs ts d) = snd (reconcile_over WB item r d)"
          using running at Inr by (auto simp: reconcile_one_def Let_def)
        moreover have "task_allowed WB [item] (DrainFinalize (in_session item) (th_description (in_meta item)) (th_id (in_meta item)) (rr_reason r))"
          using 3 drain by auto
        ultimately show ?thesis using reconcile_over_adds [OF at Inr] by metis
      qed
    qed
  qed
qed

lemma reconcile_runs_adds:
  "adds_only (task_allowed WB items) (\<lambda>p. \<exists>item \<in> set items. leftover_of WB item p) d
     (snd (reconcile_runs WB items chats listed n d))"
proof (induction items arbitrary: chats listed n d)
  case Nil
  show ?case by (simp add: adds_only_refl)
next
  case (Cons item items)
  let ?P = "task_allowed WB (item # items)" and ?Q = "\<lambda>p. \<exists>i \<in> set (item # items). leftover_of WB i p"
  have later: "adds_only ?P ?Q d0 (snd (reconcile_runs WB items chats listed n d0))" for chats listed n d0
    by (rule adds_only_mono [OF Cons.IH]) (auto simp: task_allowed_def)
  obtain evs s where es: "(case chats (in_session item) of Some evs \<Rightarrow> (Inr evs, w_store (ds_world d))
      | None \<Rightarrow> load_chat_events (in_session item) (w_store (ds_world d))) = (evs, s)" by fastforce
  let ?d1 = "d\<lparr>ds_world := (ds_world d)\<lparr>w_store := s\<rparr>\<rparr>"
  have d1: "adds_only ?P ?Q d ?d1" by (simp add: adds_only_same)
  show ?case
  proof (cases evs)
    case (Inl e)
    then show ?thesis using es adds_only_trans [OF d1 later] by (simp add: Let_def)
  next
    case (Inr events)
    let ?ts = "case listed (in_session item) of Some ts \<Rightarrow> ts | None \<Rightarrow> rev (w_threads (ds_world ?d1) (in_session item))"
    obtain out d2 where r: "reconcile_one WB item events ?ts ?d1 = (out, d2)" by fastforce
    have d2: "adds_only ?P ?Q d d2"
      using adds_only_trans [OF d1 adds_only_mono [OF reconcile_one_adds [of WB item ?d1 events ?ts]]] r
      by (fastforce simp: task_allowed_def)
    have "snd (reconcile_runs WB (item # items) chats listed n d) \<in>
        {d2} \<union> {snd (reconcile_runs WB items c l k d2) | c l k. True}"
      using es Inr r by (cases out) (auto simp: Let_def)
    then show ?thesis using d2 adds_only_trans [OF d2 later] by auto
  qed
qed

text \<open>
  C10. Recovery finalizes no living run. A thread is drained and finalized only when it never
  started, its raw log holds the result, or all of its recorded identity is there and the
  process is gone; everything else is followed, reported or respawned.
\<close>

theorem only_finished_runs_are_finalized:
  assumes "DrainFinalize sid desc tid reason \<in> set (ds_tasks (snd (reconcile_interrupted_runs WB items d)))"
    and "DrainFinalize sid desc tid reason \<notin> set (ds_tasks d)"
  shows "\<exists>item \<in> set items. in_session item = sid \<and> th_id (in_meta item) = tid \<and>
    \<not> terminal_status (th_status (in_meta item)) \<and> over WB item"
  using reconcile_runs_adds [of WB items d Map.empty Map.empty 0] assms
  unfolding reconcile_interrupted_runs_def adds_only_def by (auto simp: task_allowed_def)

text \<open>
  Recovery signals only what a dead run left behind: a process that holds the very raw log of a
  run proven dead, and is neither its recorded process, nor the server, nor pid 0 or 1.
\<close>

theorem recovery_signals_only_leftovers:
  assumes "p \<in> set (ds_signalled (snd (reconcile_interrupted_runs WB items d)))" "p \<notin> set (ds_signalled d)"
  shows "\<exists>item \<in> set items. leftover_of WB item p"
  using reconcile_runs_adds [of WB items d Map.empty Map.empty 0] assms
  unfolding reconcile_interrupted_runs_def adds_only_def by auto

subsection \<open>The quarantine\<close>

definition long_failed :: "(string \<Rightarrow> int py) \<Rightarrow> int \<Rightarrow> thread_meta \<Rightarrow> bool" where
  "long_failed parse now m \<longleftrightarrow>
     th_status m = T_FAILED \<and> \<not> th_keep_worktree m \<and>
     (\<exists>text t. tm_completed_at m = Some text \<and> parse text = Inr t \<and> 7 * day_us \<le> now - t)"

lemma quarantine_due_facts:
  assumes "quarantine_due parse now disk ms swept m"
  shows "long_failed parse now m" "th_worktree m = Some (the (th_worktree m))" "the (th_worktree m) \<notin> swept"
    "the (th_worktree m) \<in> disk" "the (th_worktree m) \<notin> active_worktrees ms"
  using assms by (auto simp: quarantine_due_def long_failed_def quarantine_days_def truthy_def split: sum.splits)

lemma quarantine_sweep_calls:
  "distinct (map qc_worktree (fst (quarantine_sweep parse now moved ms rest swept disk))) \<and>
   (\<forall>c \<in> set (fst (quarantine_sweep parse now moved ms rest swept disk)). qc_worktree c \<notin> swept \<and>
      qc_worktree c \<notin> active_worktrees ms \<and>
      (\<exists>m \<in> set rest. long_failed parse now m \<and> th_worktree m = Some (qc_worktree c) \<and> th_id m = qc_thread c))"
proof (induction rest arbitrary: swept disk)
  case (Cons m rest)
  show ?case
  proof (cases "quarantine_due parse now disk ms swept m")
    case True
    note due = quarantine_due_facts [OF True]
    let ?call = "\<lparr>qc_repo = the (th_repo m), qc_worktree = the (th_worktree m), qc_thread = th_id m,
                       qc_residue = worktree_dir_name (the (th_branch m))\<rparr>"
    let ?later = "quarantine_sweep parse now moved ms rest (insert (the (th_worktree m)) swept) (moved ?call disk)"
    have "fst (quarantine_sweep parse now moved ms (m # rest) swept disk) = ?call # fst ?later"
      using True by (simp add: Let_def split: prod.split)
    then show ?thesis using Cons.IH [of "insert (the (th_worktree m)) swept" "moved ?call disk"] due by fastforce
  next
    case False
    then show ?thesis using Cons.IH [of swept disk] by auto
  qed
qed simp

text \<open>
  C11. The quarantine moves only what nobody uses: each worktree once, one of a thread that failed at
  least seven days ago without being kept, and none that a thread not yet finished refers to.
\<close>

theorem quarantine_spares_the_living:
  assumes "c \<in> set (fst (quarantine_stale_failed_worktrees parse now moved ms disk))"
  shows "distinct (map qc_worktree (fst (quarantine_stale_failed_worktrees parse now moved ms disk))) \<and>
    (\<exists>m \<in> set ms. long_failed parse now m \<and> th_worktree m = Some (qc_worktree c) \<and> th_id m = qc_thread c) \<and>
    (\<forall>m \<in> set ms. th_worktree m = Some (qc_worktree c) \<and> qc_worktree c \<noteq> [] \<longrightarrow> terminal_status (th_status m))"
proof -
  have s: "distinct (map qc_worktree (fst (quarantine_stale_failed_worktrees parse now moved ms disk)))"
    "qc_worktree c \<notin> active_worktrees ms"
    "\<exists>m \<in> set ms. long_failed parse now m \<and> th_worktree m = Some (qc_worktree c) \<and> th_id m = qc_thread c"
    using quarantine_sweep_calls [of parse now moved ms ms "{}" disk] assms
    unfolding quarantine_stale_failed_worktrees_def by blast+
  have "terminal_status (th_status m)" if "m \<in> set ms" "th_worktree m = Some (qc_worktree c)" "qc_worktree c \<noteq> []" for m
  proof (rule ccontr)
    assume "\<not> terminal_status (th_status m)"
    then have "qc_worktree c \<in> active_worktrees ms"
      using that unfolding active_worktrees_def by (intro CollectI exI [of _ m]) (simp add: truthy_def)
    then show False using s(2) by simp
  qed
  then show ?thesis using s by blast
qed

text \<open>The pin of another thread does not count: a reviewer that failed on a kept worktree has it moved.\<close>

lemma failed_review_moves_kept_worktree:
  assumes "quarantine_due parse now disk [m, r] {} r" "th_worktree m = th_worktree r" "th_keep_worktree m" "th_status m = T_COMPLETED"
  shows "the (th_worktree r) \<in> qc_worktree ` set (fst (quarantine_stale_failed_worktrees parse now moved [m, r] disk))"
proof -
  have "\<not> quarantine_due parse now disk [m, r] {} m" using assms(3) by (simp add: quarantine_due_def)
  then show ?thesis using assms(1) by (simp add: quarantine_stale_failed_worktrees_def Let_def)
qed

subsection \<open>Respawning\<close>

lemma last_delegation_append:
  "\<forall>e \<in> set post. \<not> (dget e ''type'' = JStr ET_TASK_DELEGATED \<and> dget e ''thread_id'' = JStr tid) \<Longrightarrow>
   dget ev ''type'' = JStr ET_TASK_DELEGATED \<Longrightarrow> dget ev ''thread_id'' = JStr tid \<Longrightarrow>
   last_delegation (pre @ ev # post) tid = Some ev"
proof -
  assume post: "\<forall>e \<in> set post. \<not> (dget e ''type'' = JStr ET_TASK_DELEGATED \<and> dget e ''thread_id'' = JStr tid)"
    and ev: "dget ev ''type'' = JStr ET_TASK_DELEGATED" "dget ev ''thread_id'' = JStr tid"
  have "last_delegation post tid = None" using post by (induction post) auto
  then have "last_delegation (ev # post) tid = Some ev" using ev by simp
  then show ?thesis by (induction pre) auto
qed

text \<open>
  A scheduled worker that never started is respawned without its task. The delegation event of
  a scheduled worker carries no invocation, which counts as an empty one rather than a missing
  one: the worker is started again from its description alone, without repository or prompt.
\<close>

theorem scheduled_respawn_forgets_the_task:
  assumes "dget ev ''type'' = JStr ET_TASK_DELEGATED" "dget ev ''thread_id'' = JStr (th_id (in_meta item))"
    "dget ev ''delegate_invocation'' = JNull"
    "\<forall>e \<in> set post. \<not> (dget e ''type'' = JStr ET_TASK_DELEGATED \<and> dget e ''thread_id'' = JStr (th_id (in_meta item)))"
    "\<not> truthy (th_review_of (in_meta item))" "\<not> prefix improve_iteration_prefix (th_description (in_meta item))"
    "th_repo (in_meta item) = None" "th_worktree (in_meta item) = None" "tm_task_type (in_meta item) = None"
    "resolve_requested_subagent_backend_model (in_session item) cfg pin None = Inr (b, model)"
  shows "\<exists>rq. maybe_respawn cfg pin item (pre @ ev # post) = Inr (Some rq) \<and> rq_repo rq = None \<and>
    rq_worktree_override rq = None \<and> rq_task_type rq = IMPLEMENT \<and> rq_backend rq = b"
proof -
  have "last_delegation (pre @ ev # post) (th_id (in_meta item)) = Some ev"
    by (rule last_delegation_append [OF assms(4,1,2)])
  moreover have "invocation_of ev = Inr []" using assms(3) by (simp add: invocation_of_def)
  moreover have "respawn_task_type [] (in_meta item) = Inr IMPLEMENT"
    using assms(9) by (simp add: respawn_task_type_def or_str_def)
  moreover have "respawn_backend cfg (in_session item) pin [] IMPLEMENT = Inr (b, model)"
    using assms(10) by (simp add: respawn_backend_def)
  ultimately show ?thesis
    using assms(5-8) by (simp add: maybe_respawn_def Let_def or_str_def)
qed

subsection \<open>One report of silence per boot\<close>

lemma silence_recheck_once:
  "tid \<in> ds_reported d \<Longrightarrow> follow_silence_recheck E sid tid d = (Val (), d)"
  "tid \<in> ds_reported (snd (follow_silence_recheck E sid tid d))"
  by (simp_all add: follow_silence_recheck_def in_world_def split: prod.split)

subsection \<open>Witnesses\<close>

definition demo_meta :: "thread_status \<Rightarrow> int option \<Rightarrow> thread_meta" where
  "demo_meta st pid =
     \<lparr>th_id = ''w'', th_description = ''d'', th_status = st, th_completed_at = None,
      th_exit_code = None, th_branch = Some ''b'', th_base_branch = None, th_repo = (if pid = None then None else Some ''/r''),
      th_worktree = (if pid = None then None else Some ''/w''), th_review_of = None,
      th_context = None, th_backend = None, th_model = None, th_require_review = False, th_skip_cleanup = False,
      th_keep_worktree = False, th_tried = [], th_chain_root = None, th_step_index = None,
      tm_started_at = Some ''s'', tm_completed_at = Some ''c'', tm_pid = pid, tm_pid_start = Some ''100'', tm_task_type = None\<rparr>"

definition demo_item :: interrupted_run where
  "demo_item = \<lparr>in_session = ''a'', in_meta = demo_meta T_RUNNING (Some 7)\<rparr>"

definition demo_wb :: "unit worker_boot" where
  "demo_wb =
     \<lparr>wb_env = demo_env, wb_parse = (\<lambda>_. Inr 5), wb_proc = (\<lambda>_. None), wb_host_boot = 0,
      wb_holders = [((1, 2), [\<lparr>h_pid = 9, h_cmdline = []\<rparr>])], wb_now = 10, wb_own = 5,
      wb_raw = (\<lambda>_ _. \<lparr>rl_bytes = Some [], rl_stat = Some (0, 1, 2)\<rparr>), wb_translate = (\<lambda>_ s e. Inr ([], s)),
      wb_identity = (\<lambda>s e. Inr ([], s)), wb_fresh = ()\<rparr>"

definition demo_dispatch :: dispatch where
  "demo_dispatch = \<lparr>ds_world = demo_world Map.empty [], ds_tasks = [], ds_reported = {}, ds_signalled = []\<rparr>"

lemma demo_resolved:
  "resolve_run (worker_facts demo_wb demo_item (Some 5)) =
     Inr (resolution DIED died_without_result_reason (Some 0) [\<lparr>h_pid = 9, h_cmdline = []\<rparr>])"
proof -
  let ?f = "worker_facts demo_wb demo_item (Some 5)"
  have a: "is_run_alive (rf_proc ?f) (rf_pid ?f) (rf_pid_start ?f) (rf_started_at ?f) (rf_boot ?f) = Inr False"
    by (simp add: is_run_alive_def read_pid_stat_def demo_wb_def demo_item_def demo_meta_def)
  have b: "raw_result ?f = Inr None"
    by (simp add: raw_result_def project_raw_file_def parse_raw_lines.simps summarize_result_def demo_wb_def)
  have c: "resolve_rows ?f False None = resolution DIED died_without_result_reason (Some 0) [\<lparr>h_pid = 9, h_cmdline = []\<rparr>]"
    by (simp add: resolve_rows_def Let_def missing_liveness_fields_def raw_completion_time_def demo_wb_def demo_item_def
        demo_meta_def leftover_holders_for_def never_kill_pids_def) (simp add: worker_facts_def run_backend_type_def truthy_def Let_def)
  have "rl_bytes (rf_raw ?f) = Some []" by (simp add: demo_wb_def)
  then show ?thesis using a b c by (simp add: resolve_run_def)
qed

lemma demo_reconciled:
  "DrainFinalize ''a'' ''d'' ''w'' died_without_result_reason \<in> set (ds_tasks (snd (reconcile_interrupted_runs demo_wb [demo_item] demo_dispatch)))"
  "9 \<in> set (ds_signalled (snd (reconcile_interrupted_runs demo_wb [demo_item] demo_dispatch)))"
proof -
  have at: "parse_started_at (wb_parse demo_wb) (in_meta demo_item) = Inr (Some 5)"
    by (simp add: parse_started_at_def demo_item_def demo_meta_def demo_wb_def truthy_def)
  have one: "snd (reconcile_one demo_wb demo_item evs ts d) =
      snd (reconcile_over demo_wb demo_item (resolution DIED died_without_result_reason (Some 0) [\<lparr>h_pid = 9, h_cmdline = []\<rparr>]) d)" for evs ts d
    using at demo_resolved by (simp add: reconcile_one_def Let_def resolution_def) (simp add: demo_item_def demo_meta_def terminal_status_def)
  have over: "ds_tasks (snd (reconcile_over demo_wb demo_item (resolution o' reason at [h]) d)) =
        ds_tasks d @ [DrainFinalize ''a'' ''d'' ''w'' reason]"
    "ds_signalled (snd (reconcile_over demo_wb demo_item (resolution o' reason at [h]) d)) = ds_signalled d @ [h_pid h]" for o' reason at h d
    by (simp_all add: reconcile_over_def Let_def resolution_def in_world_def start_task_def demo_item_def demo_meta_def split: prod.split)
  have "snd (reconcile_interrupted_runs demo_wb [demo_item] demo_dispatch) \<in>
      {snd (reconcile_one demo_wb demo_item evs ts d) | evs ts d. True}"
    by (auto simp: reconcile_interrupted_runs_def Let_def demo_item_def demo_dispatch_def load_chat_events_def demo_world_def
        empty_store_def build_fold_def split: prod.split outcome.split) (metis snd_conv)+
  then show "DrainFinalize ''a'' ''d'' ''w'' died_without_result_reason \<in> set (ds_tasks (snd (reconcile_interrupted_runs demo_wb [demo_item] demo_dispatch)))"
    "9 \<in> set (ds_signalled (snd (reconcile_interrupted_runs demo_wb [demo_item] demo_dispatch)))"
    using one over by auto
qed

theorem only_finished_runs_are_finalized_witness:
  "\<not> terminal_status (th_status (in_meta demo_item)) \<and> over demo_wb demo_item"
  using only_finished_runs_are_finalized [OF demo_reconciled(1)] by (simp add: demo_dispatch_def)

theorem recovery_signals_only_leftovers_witness: "leftover_of demo_wb demo_item 9"
  using recovery_signals_only_leftovers [OF demo_reconciled(2)] by (simp add: demo_dispatch_def)

theorem quarantine_spares_the_living_witness:
  "long_failed (\<lambda>_. Inr 5) (30 * day_us) (demo_meta T_FAILED (Some 7)) \<and>
   fst (quarantine_stale_failed_worktrees (\<lambda>_. Inr 5) (30 * day_us) (\<lambda>_ s. s) [demo_meta T_FAILED (Some 7)] {''/w''}) =
     [\<lparr>qc_repo = ''/r'', qc_worktree = ''/w'', qc_thread = ''w'', qc_residue = ''b''\<rparr>]"
proof -
  have "active_worktrees [demo_meta T_FAILED (Some 7)] = {}"
    by (simp add: active_worktrees_def demo_meta_def terminal_status_def)
  then have c: "fst (quarantine_stale_failed_worktrees (\<lambda>_. Inr 5) (30 * day_us) (\<lambda>_ s. s) [demo_meta T_FAILED (Some 7)] {''/w''}) =
     [\<lparr>qc_repo = ''/r'', qc_worktree = ''/w'', qc_thread = ''w'', qc_residue = ''b''\<rparr>]"
    by (simp add: quarantine_stale_failed_worktrees_def quarantine_due_def Let_def truthy_def quarantine_days_def day_us_def
        worktree_dir_name_def) (simp add: demo_meta_def worktree_dir_name_def)
  show ?thesis
    using quarantine_spares_the_living [of "\<lparr>qc_repo = ''/r'', qc_worktree = ''/w'', qc_thread = ''w'', qc_residue = ''b''\<rparr>"
        "\<lambda>_. Inr 5" "30 * day_us" "\<lambda>_ s. s" "[demo_meta T_FAILED (Some 7)]" "{''/w''}"] c by simp
qed

theorem scheduled_respawn_forgets_the_task_witness:
  "\<exists>rq. maybe_respawn demo_config (Some ''a'') \<lparr>in_session = ''a'', in_meta = demo_meta T_IDLE None\<rparr>
      [[(''type'', JStr ET_TASK_DELEGATED), (''task'', JStr ''nightly''), (''thread_id'', JStr ''w'')]] = Inr (Some rq) \<and>
     rq_repo rq = None \<and> rq_backend rq = ''a''"
proof -
  have "resolve_requested_subagent_backend_model ''a'' demo_config (Some ''a'') None = Inr (''a'', Some ''m'')"
    by (simp add: resolve_requested_subagent_backend_model_def require_session_def resolve_session_default_backend_model_def
        demo_config_def get_backend_option_def option_default_backend_model_def backend_type_allows_missing_model_def truthy_def)
  then show ?thesis
    using scheduled_respawn_forgets_the_task [of "[(''type'', JStr ET_TASK_DELEGATED), (''task'', JStr ''nightly''), (''thread_id'', JStr ''w'')]"
        "\<lparr>in_session = ''a'', in_meta = demo_meta T_IDLE None\<rparr>" "[]" demo_config "Some ''a''" "''a''" "Some ''m''" "[]"]
    by (simp add: demo_meta_def truthy_def improve_iteration_prefix_def) blast
qed

end
