(* ===== verification/Master_Recovery.thy ===== *)
theory Master_Recovery
  imports Worker_Recovery Master_Queue
begin

text \<open>
  \<open>src/core/init_master_recovery.py\<close>: after a restart, what becomes of the master turns recorded
  in the sessions' metadata and of the user messages no turn has answered. The identity pass
  judges every recorded turn with \<open>Runs\<close> and re-attaches it to the queue of \<open>Master_Queue\<close>, keeps
  it or clears it; the replay pass redelivers the unanswered messages. Reports go to the chat as
  every delivery does (\<open>Session_World\<close>).
\<close>

subsection \<open>State and surroundings\<close>

record recorded_turn =
  mt_pid :: "int option"
  mt_pid_start :: "string option"
  mt_started_at :: int
  mt_raw_log :: string
  mt_user_event_id :: "string option"

text \<open>The metadata of an active session, as far as recovery reads it. Each pass lists the sessions
anew: \<open>am_ref\<close> and \<open>am_replay_ref\<close> are the two objects the work items share.\<close>

record active_meta =
  am_id :: string
  am_backend :: string
  am_run :: "recorded_turn option"
  am_ref :: nat
  am_replay_ref :: nat

record recovery =
  rc_world :: world
  rc_queue :: mq_world
  rc_active :: "active_meta list"

text \<open>
  \<open>be_raw\<close> is the transport file at a path, \<open>be_translate\<close> the translation of a backend type and
  \<open>be_fresh\<close> its fresh state; \<open>be_stat_lines\<close> is \<open>/proc/stat\<close>. \<open>be_lists\<close> is false when the
  sessions directory cannot be listed.
\<close>

record 's boot_env =
  be_env :: env
  be_options :: "(string \<times> string) list"
  be_boot :: int
  be_stat_lines :: "string list"
  be_proc :: proc_stat
  be_now :: int
  be_own :: int
  be_raw :: "string \<Rightarrow> raw_log"
  be_translate :: "string \<Rightarrow> 's translator"
  be_fresh :: 's
  be_lists :: bool

type_synonym exclusions = "string \<Rightarrow> string set"

subsection \<open>The identity pass\<close>

definition master_alive_unfollowable_message :: "string \<Rightarrow> string" where
  "master_alive_unfollowable_message reason =
     ''The recorded master turn on this session is treated as still alive ('' @ reason @
     ''); it is NOT being killed or re-answered '' @ em_dash @
     '' left running without re-attach and judged again on the next restart.''"

definition turn_facts :: "'s boot_env \<Rightarrow> int \<Rightarrow> string \<Rightarrow> recorded_turn \<Rightarrow> 's run_facts" where
  "turn_facts BE host_boot btype r =
     \<lparr>rf_raw = be_raw BE (mt_raw_log r), rf_pid = mt_pid r, rf_pid_start = mt_pid_start r,
      rf_started_at = Some (Aware (mt_started_at r)), rf_backend = Some btype,
      rf_translate = be_translate BE btype, rf_fresh = be_fresh BE, rf_boot = host_boot,
      rf_holders = None, rf_now = be_now BE, rf_proc = be_proc BE, rf_own = be_own BE,
      rf_parser = e_parser (be_env BE)\<rparr>"

definition treated_alive :: "run_resolution \<Rightarrow> bool" where
  "treated_alive r = (rr_outcome r = RUNNING \<and> rr_reason r \<in> {uncovered_alive_reason, raw_missing_alive_reason})"

definition followable :: "recorded_turn \<Rightarrow> run_resolution \<Rightarrow> bool" where
  "followable rec r =
     (rr_outcome r \<in> {COMPLETED_RUN, RUNNING, STALLED} \<or>
      (rr_outcome r = DIED \<and> rr_reason r = died_without_result_reason \<and> \<not> Master_Queue.truthy (mt_user_event_id rec)))"

datatype verdict = Spared | Unfollowable string | Followed | Cleared

definition judge_record :: "'s boot_env \<Rightarrow> int \<Rightarrow> active_meta \<Rightarrow> recorded_turn \<Rightarrow> verdict py" where
  "judge_record BE host_boot m r =
     (if mt_started_at r \<ge> be_boot BE then Inr Spared
      else case Master_Queue.get_backend_option (be_options BE) (am_backend m) of
             None \<Rightarrow>
               py_bind (is_run_alive (be_proc BE) (mt_pid r) (mt_pid_start r) (Some (Aware (mt_started_at r))) host_boot) (\<lambda>alive.
                 Inr (if alive
                      then Unfollowable (''backend option '' @ py_repr (Some (am_backend m)) @ '' unresolved'')
                      else Cleared))
           | Some opt \<Rightarrow>
               py_bind (resolve_run (turn_facts BE host_boot (snd opt) r)) (\<lambda>res.
                 Inr (if treated_alive res then Unfollowable (rr_reason res)
                      else if followable r res then Followed else Cleared)))"

definition exclude_event :: "string \<Rightarrow> recorded_turn \<Rightarrow> exclusions \<Rightarrow> exclusions" where
  "exclude_event sid r ex =
     (if Master_Queue.truthy (mt_user_event_id r) then ex(sid := insert (the (mt_user_event_id r)) (ex sid)) else ex)"

text \<open>\<open>persist_master_run(id, None)\<close>.\<close>

definition clear_record :: "string \<Rightarrow> recovery \<Rightarrow> unit Session_World.outcome \<times> recovery" where
  "clear_record sid b =
     (case durable (\<lambda>w. w) (rc_world b) of
        (Val _, w) \<Rightarrow> (Val (), b\<lparr>rc_world := w,
           rc_active := map (\<lambda>m. if am_id m = sid then m\<lparr>am_run := None\<rparr> else m) (rc_active b)\<rparr>)
      | (out, w) \<Rightarrow> (out, b\<lparr>rc_world := w\<rparr>))"

definition act_on_verdict ::
  "'s boot_env \<Rightarrow> active_meta \<Rightarrow> recorded_turn \<Rightarrow> exclusions \<Rightarrow> verdict \<Rightarrow> recovery \<Rightarrow>
     exclusions Session_World.outcome \<times> recovery" where
  "act_on_verdict BE m r ex v b =
     (case v of
        Spared \<Rightarrow> (Val (exclude_event (am_id m) r ex), b)
      | Unfollowable why \<Rightarrow>
          (case report_recovery_event (be_env BE) (am_id m) (master_alive_unfollowable_message why) (rc_world b) of
             (Val _, w) \<Rightarrow> (Val (exclude_event (am_id m) r ex), b\<lparr>rc_world := w\<rparr>)
           | (Exc msg, w) \<Rightarrow> (Exc msg, b\<lparr>rc_world := w\<rparr>)
           | (Killed, w) \<Rightarrow> (Killed, b\<lparr>rc_world := w\<rparr>))
      | Followed \<Rightarrow>
          (Val (exclude_event (am_id m) r ex),
           b\<lparr>rc_queue := enqueue_master_resume (am_id m) (am_ref m) (mt_user_event_id r) (mt_started_at r) True
                           (be_now BE) (rc_queue b)\<rparr>)
      | Cleared \<Rightarrow>
          (case clear_record (am_id m) b of
             (Val _, b') \<Rightarrow> (Val ex, b') | (Exc msg, b') \<Rightarrow> (Exc msg, b') | (Killed, b') \<Rightarrow> (Killed, b')))"

definition identity_one ::
  "'s boot_env \<Rightarrow> int \<Rightarrow> active_meta \<Rightarrow> exclusions \<Rightarrow> recovery \<Rightarrow> exclusions Session_World.outcome \<times> recovery" where
  "identity_one BE host_boot m ex b =
     (case am_run m of
        None \<Rightarrow> (Val ex, b)
      | Some r \<Rightarrow>
          (case judge_record BE host_boot m r of
             Inl e \<Rightarrow> (Exc (case e of ValueError msg \<Rightarrow> msg | _ \<Rightarrow> e_text (be_env BE) e), b)
           | Inr v \<Rightarrow> act_on_verdict BE m r ex v b))"

fun identity_pass ::
  "'s boot_env \<Rightarrow> int \<Rightarrow> active_meta list \<Rightarrow> exclusions \<Rightarrow> recovery \<Rightarrow> exclusions Session_World.outcome \<times> recovery" where
  "identity_pass BE host_boot [] ex b = (Val ex, b)"
| "identity_pass BE host_boot (m # ms) ex b =
     (case identity_one BE host_boot m ex b of
        (Val ex', b') \<Rightarrow> identity_pass BE host_boot ms ex' b'
      | (out, b') \<Rightarrow> (out, b'))"

text \<open>A failing listing is \<open>_MasterScanFailed\<close>: the left answer.\<close>

definition reconcile_master_identity ::
  "'s boot_env \<Rightarrow> recovery \<Rightarrow> (unit + exclusions Session_World.outcome) \<times> recovery" where
  "reconcile_master_identity BE b =
     (if \<not> be_lists BE then (Inl (), b)
      else case read_host_boot_time (be_stat_lines BE) of
             Inl e \<Rightarrow> (Inr (Exc (case e of ValueError msg \<Rightarrow> msg | _ \<Rightarrow> e_text (be_env BE) e)), b)
           | Inr host_boot \<Rightarrow>
               (case identity_pass BE host_boot (rc_active b) (\<lambda>_. {}) b of (out, b') \<Rightarrow> (Inr out, b')))"

subsection \<open>The replay pass\<close>

text \<open>The index of the last MASTER_DONE, \<open>-1\<close> without one.\<close>

fun last_done :: "dict list \<Rightarrow> int \<Rightarrow> int \<Rightarrow> int" where
  "last_done [] idx found = found"
| "last_done (ev # evs) idx found =
     last_done evs (idx + 1) (if dget ev ''type'' = JStr ET_MASTER_DONE then idx else found)"

text \<open>The comprehension: an id that cannot be hashed raises where it is looked up.\<close>

fun keep_unanswered :: "string set \<Rightarrow> dict list \<Rightarrow> dict list py" where
  "keep_unanswered ex [] = Inr []"
| "keep_unanswered ex (ev # evs) =
     (if dget ev ''type'' = JStr ET_USER \<and> (case dget ev ''content'' of JStr _ \<Rightarrow> True | _ \<Rightarrow> False)
      then if \<not> hashable (dget ev ''id'') then Inl TypeError
           else py_bind (keep_unanswered ex evs) (\<lambda>rest.
                  Inr (if dget ev ''id'' \<in> JStr ` ex then rest else ev # rest))
      else keep_unanswered ex evs)"

definition unanswered_user_events :: "dict list \<Rightarrow> string set \<Rightarrow> dict list py" where
  "unanswered_user_events evs ex = keep_unanswered ex (drop (nat (last_done evs 0 (-1) + 1)) evs)"

definition replay_events :: "'s boot_env \<Rightarrow> active_meta \<Rightarrow> dict list \<Rightarrow> mq_world \<Rightarrow> mq_world" where
  "replay_events BE m evs q =
     fold (replay_user_message (am_id m) (be_options BE) (am_replay_ref m) (Some (am_backend m)) True) evs q"

text \<open>An exception skips the session.\<close>

definition replay_session :: "'s boot_env \<Rightarrow> exclusions \<Rightarrow> active_meta \<Rightarrow> recovery \<Rightarrow> recovery" where
  "replay_session BE ex m b =
     (case load_chat_events (am_id m) (w_store (rc_world b)) of
        (loaded, s) \<Rightarrow>
          (let b' = b\<lparr>rc_world := (rc_world b)\<lparr>w_store := s\<rparr>\<rparr>
           in case loaded of
                Inl _ \<Rightarrow> b'
              | Inr evs \<Rightarrow>
                  (case unanswered_user_events evs (ex (am_id m) \<union> queued_user_event_ids (am_id m) (rc_queue b)) of
                     Inl _ \<Rightarrow> b'
                   | Inr us \<Rightarrow> b'\<lparr>rc_queue := replay_events BE m us (rc_queue b)\<rparr>)))"

definition replay_unanswered_user_messages :: "'s boot_env \<Rightarrow> exclusions \<Rightarrow> recovery \<Rightarrow> recovery" where
  "replay_unanswered_user_messages BE ex b = fold (replay_session BE ex) (rc_active b) b"

definition reconcile_master_runs :: "'s boot_env \<Rightarrow> recovery \<Rightarrow> unit Session_World.outcome \<times> recovery" where
  "reconcile_master_runs BE b =
     (case reconcile_master_identity BE b of
        (Inl _, b') \<Rightarrow> (Val (), b')
      | (Inr (Val ex), b') \<Rightarrow> (Val (), replay_unanswered_user_messages BE ex b')
      | (Inr (Exc msg), b') \<Rightarrow> (Exc msg, b')
      | (Inr Killed, b') \<Rightarrow> (Killed, b'))"

subsection \<open>Who answers an event\<close>

definition answers :: "string \<Rightarrow> string \<Rightarrow> mq_world \<Rightarrow> nat" where
  "answers sid i q = length (filter (\<lambda>(s, it). s = sid \<and> wi_user_event_id it = Some i) (mq_accepted q @ mq_callers q))"

definition verdict_of :: "'s boot_env \<Rightarrow> int \<Rightarrow> active_meta \<Rightarrow> verdict option" where
  "verdict_of BE hb m =
     (case am_run m of None \<Rightarrow> None
      | Some r \<Rightarrow> (case judge_record BE hb m r of Inl _ \<Rightarrow> None | Inr v \<Rightarrow> Some v))"

definition turn_event :: "active_meta \<Rightarrow> string option" where
  "turn_event m = (case am_run m of None \<Rightarrow> None | Some r \<Rightarrow> if Master_Queue.truthy (mt_user_event_id r) then mt_user_event_id r else None)"

text \<open>The pass keeps a turn's event from the replay; it puts an item for it in the queue.\<close>

definition holds_back :: "'s boot_env \<Rightarrow> int \<Rightarrow> string \<Rightarrow> active_meta \<Rightarrow> bool" where
  "holds_back BE hb i m = (turn_event m = Some i \<and> verdict_of BE hb m \<noteq> Some Cleared)"

definition follows :: "'s boot_env \<Rightarrow> int \<Rightarrow> string \<Rightarrow> active_meta \<Rightarrow> bool" where
  "follows BE hb i m = (turn_event m = Some i \<and> verdict_of BE hb m = Some Followed)"

lemma submit_callers [simp]: "mq_callers (submit_item sid item now w) = mq_callers w"
  by (simp add: submit_item_def enqueue_work_item_def broadcast_running_changed_def Let_def)

lemma answers_frame:
  "mq_accepted q' = mq_accepted q \<Longrightarrow> mq_callers q' = mq_callers q \<Longrightarrow> answers sid i q' = answers sid i q"
  by (simp add: answers_def)

lemma answers_resume:
  "answers sid i (enqueue_master_resume s ref ev at p now q) = answers sid i q + (if s = sid \<and> ev = Some i then 1 else 0)"
  by (simp add: answers_def enqueue_master_resume_def submit_fields(7) [OF refl])

lemma owned_resume:
  "queued_user_event_ids sid (enqueue_master_resume s ref ev at p now q) =
   queued_user_event_ids sid q \<union> (if s = sid \<and> Master_Queue.truthy ev then {the ev} else {})"
proof -
  have one: "event_ids [it] = (if Master_Queue.truthy (wi_user_event_id it) then {the (wi_user_event_id it)} else {})" for it
    by (auto simp: event_ids_def List.map_filter_def Master_Queue.truthy_def split: option.splits)
  show ?thesis
    by (auto simp: enqueue_master_resume_def queued_user_event_ids_def queue_of_def
        submit_fields(1,3) [OF refl] event_ids_append one simp del: append_Cons)
qed

lemma owned_run_message: "queued_user_event_ids sid (run_message s options m stamp e q) = queued_user_event_ids sid q"
  by (simp add: queued_user_event_ids_def queue_of_def)

lemma owned_replay: "queued_user_event_ids sid (replay_user_message s options ref backend p ev q) = queued_user_event_ids sid q"
  by (simp add: replay_user_message_def owned_run_message split: option.split)

lemma answers_replay:
  assumes "\<not> skips_backend options backend"
  shows "answers sid i (replay_user_message s options ref backend p ev q) =
    answers sid i q + (if s = sid \<and> dget ev ''id'' = JStr i \<and> (\<exists>c. dget ev ''content'' = JStr c \<and> c \<noteq> []) then 1 else 0)"
proof (cases "dget ev ''content''")
  case (JStr c)
  show ?thesis
    using assms JStr by (cases "dget ev ''id''")
      (simp_all add: answers_def replay_user_message_def replay_message_def run_message_def message_item_def)
qed (simp_all add: replay_user_message_def replay_message_def)

lemma answers_replay_other:
  "s \<noteq> sid \<Longrightarrow> answers sid i (replay_user_message s options ref backend p ev q) = answers sid i q"
  by (simp add: answers_def replay_user_message_def run_message_def split: option.split)

subsection \<open>The identity pass, session by session\<close>

lemma verdict_shape:
  assumes "act_on_verdict BE m r ex v b = (Val ex', b')"
  shows "ex' = (if v = Cleared then ex else exclude_event (am_id m) r ex)"
    and "rc_queue b' = (if v = Followed then enqueue_master_resume (am_id m) (am_ref m) (mt_user_event_id r)
           (mt_started_at r) True (be_now BE) (rc_queue b) else rc_queue b)"
    and "rc_active b' = (if v = Cleared then map (\<lambda>n. if am_id n = am_id m then n\<lparr>am_run := None\<rparr> else n) (rc_active b)
           else rc_active b)"
  using assms unfolding act_on_verdict_def clear_record_def
  by (cases v; force split: prod.splits Session_World.outcome.splits)+

lemma act_on_verdict_effect:
  assumes "act_on_verdict BE m r ex v b = (Val ex', b')" "am_run m = Some r" "judge_record BE hb m r = Inr v"
  shows "ex' sid = ex sid \<union> {i. am_id m = sid \<and> holds_back BE hb i m}"
    and "i \<noteq> [] \<Longrightarrow> answers sid i (rc_queue b') = answers sid i (rc_queue b) + (if am_id m = sid \<and> follows BE hb i m then 1 else 0)"
    and "queued_user_event_ids sid (rc_queue b') = queued_user_event_ids sid (rc_queue b) \<union> {i. am_id m = sid \<and> follows BE hb i m}"
proof -
  note shape = verdict_shape [OF assms(1)]
  have h: "holds_back BE hb i m \<longleftrightarrow> v \<noteq> Cleared \<and> Master_Queue.truthy (mt_user_event_id r) \<and> mt_user_event_id r = Some i"
    "follows BE hb i m \<longleftrightarrow> v = Followed \<and> Master_Queue.truthy (mt_user_event_id r) \<and> mt_user_event_id r = Some i" for i
    using assms(2,3) by (auto simp: holds_back_def follows_def turn_event_def verdict_of_def)
  show "ex' sid = ex sid \<union> {i. am_id m = sid \<and> holds_back BE hb i m}"
    unfolding h shape by (auto simp: exclude_event_def Master_Queue.truthy_def split: option.splits)
  show "answers sid i (rc_queue b') = answers sid i (rc_queue b) + (if am_id m = sid \<and> follows BE hb i m then 1 else 0)"
    if "i \<noteq> []"
    using that unfolding h shape by (auto simp: answers_resume Master_Queue.truthy_def)
  show "queued_user_event_ids sid (rc_queue b') = queued_user_event_ids sid (rc_queue b) \<union> {i. am_id m = sid \<and> follows BE hb i m}"
    unfolding h shape by (auto simp: owned_resume Master_Queue.truthy_def split: option.splits)
qed

text \<open>All of a pass, from any exclusions and state; the metadata a pass walks is the listing.\<close>

lemma identity_one_effect:
  assumes "identity_one BE hb m ex b = (Val ex', b')"
  shows "ex' sid = ex sid \<union> {i. am_id m = sid \<and> holds_back BE hb i m}"
    and "i \<noteq> [] \<Longrightarrow> answers sid i (rc_queue b') = answers sid i (rc_queue b) + (if am_id m = sid \<and> follows BE hb i m then 1 else 0)"
    and "queued_user_event_ids sid (rc_queue b') = queued_user_event_ids sid (rc_queue b) \<union> {i. am_id m = sid \<and> follows BE hb i m}"
    and "rc_active b' = (if verdict_of BE hb m = Some Cleared
           then map (\<lambda>n. if am_id n = am_id m then n\<lparr>am_run := None\<rparr> else n) (rc_active b) else rc_active b)"
proof -
  consider (idle) "am_run m = None" "ex' = ex" "b' = b"
    | (judged) r v where "am_run m = Some r" "judge_record BE hb m r = Inr v" "act_on_verdict BE m r ex v b = (Val ex', b')"
    using assms by (auto simp: identity_one_def split: option.splits sum.splits)
  then have "ex' sid = ex sid \<union> {i. am_id m = sid \<and> holds_back BE hb i m} \<and>
    (i \<noteq> [] \<longrightarrow> answers sid i (rc_queue b') = answers sid i (rc_queue b) + (if am_id m = sid \<and> follows BE hb i m then 1 else 0)) \<and>
    queued_user_event_ids sid (rc_queue b') = queued_user_event_ids sid (rc_queue b) \<union> {i. am_id m = sid \<and> follows BE hb i m} \<and>
    rc_active b' = (if verdict_of BE hb m = Some Cleared
           then map (\<lambda>n. if am_id n = am_id m then n\<lparr>am_run := None\<rparr> else n) (rc_active b) else rc_active b)"
  proof cases
    case idle
    then show ?thesis by (auto simp: holds_back_def follows_def turn_event_def verdict_of_def)
  next
    case judged
    note effect = act_on_verdict_effect [OF judged(3,1,2)]
    have "verdict_of BE hb m = Some v" using judged(1,2) by (simp add: verdict_of_def)
    then show ?thesis using effect(1) [of sid] effect(2) [of i sid] effect(3) [of sid] verdict_shape(3) [OF judged(3)] by simp
  qed
  then show "ex' sid = ex sid \<union> {i. am_id m = sid \<and> holds_back BE hb i m}"
    and "i \<noteq> [] \<Longrightarrow> answers sid i (rc_queue b') = answers sid i (rc_queue b) + (if am_id m = sid \<and> follows BE hb i m then 1 else 0)"
    and "queued_user_event_ids sid (rc_queue b') = queued_user_event_ids sid (rc_queue b) \<union> {i. am_id m = sid \<and> follows BE hb i m}"
    and "rc_active b' = (if verdict_of BE hb m = Some Cleared
           then map (\<lambda>n. if am_id n = am_id m then n\<lparr>am_run := None\<rparr> else n) (rc_active b) else rc_active b)"
    by blast+
qed

lemma identity_pass_Cons:
  "identity_pass BE hb (m # ms) ex b = (Val ex', b') \<longleftrightarrow>
   (\<exists>ex1 b1. identity_one BE hb m ex b = (Val ex1, b1) \<and> identity_pass BE hb ms ex1 b1 = (Val ex', b'))"
  by (simp split: prod.split Session_World.outcome.split)

lemma identity_pass_queue:
  assumes "identity_pass BE hb ms ex b = (Val ex', b')"
  shows "ex' sid = ex sid \<union> {i. \<exists>m \<in> set ms. am_id m = sid \<and> holds_back BE hb i m}"
    and "i \<noteq> [] \<Longrightarrow> answers sid i (rc_queue b') =
           answers sid i (rc_queue b) + length (filter (\<lambda>m. am_id m = sid \<and> follows BE hb i m) ms)"
    and "queued_user_event_ids sid (rc_queue b') =
           queued_user_event_ids sid (rc_queue b) \<union> {i. \<exists>m \<in> set ms. am_id m = sid \<and> follows BE hb i m}"
  using assms
proof (induction ms arbitrary: ex b)
  case (Cons m ms)
  { case 1
    then obtain ex1 b1 where s: "identity_one BE hb m ex b = (Val ex1, b1)" "identity_pass BE hb ms ex1 b1 = (Val ex', b')"
      unfolding identity_pass_Cons by blast
    show ?case using Cons.IH(1) [OF s(2)] identity_one_effect(1) [OF s(1), of sid] by auto }
  { case 2
    then obtain ex1 b1 where s: "identity_one BE hb m ex b = (Val ex1, b1)" "identity_pass BE hb ms ex1 b1 = (Val ex', b')"
      unfolding identity_pass_Cons by blast
    show ?case using Cons.IH(2) [OF 2(1) s(2)] identity_one_effect(2) [OF s(1) 2(1), of sid] by simp }
  { case 3
    then obtain ex1 b1 where s: "identity_one BE hb m ex b = (Val ex1, b1)" "identity_pass BE hb ms ex1 b1 = (Val ex', b')"
      unfolding identity_pass_Cons by blast
    show ?case using Cons.IH(3) [OF s(2)] identity_one_effect(3) [OF s(1), of sid] by auto }
qed simp_all

lemma identity_pass_active:
  assumes "identity_pass BE hb ms ex b = (Val ex', b')"
  shows "rc_active b' = map (\<lambda>n. if \<exists>m \<in> set ms. am_id m = am_id n \<and> verdict_of BE hb m = Some Cleared
                                  then n\<lparr>am_run := None\<rparr> else n) (rc_active b)"
  using assms
proof (induction ms arbitrary: ex b)
  case (Cons m ms)
  then obtain ex1 b1 where s: "identity_one BE hb m ex b = (Val ex1, b1)" "identity_pass BE hb ms ex1 b1 = (Val ex', b')"
    unfolding identity_pass_Cons by blast
  show ?case using Cons.IH [OF s(2)] identity_one_effect(4) [OF s(1)] by (auto simp: comp_def)
qed simp

lemma identity_pass_metas:
  assumes "identity_pass BE hb ms ex b = (Val ex', b')"
  shows "map am_id (rc_active b') = map am_id (rc_active b)"
    and "m \<in> set (rc_active b) \<Longrightarrow> \<exists>m' \<in> set (rc_active b'). am_id m' = am_id m \<and> am_backend m' = am_backend m"
proof -
  show "map am_id (rc_active b') = map am_id (rc_active b)"
    unfolding identity_pass_active [OF assms] by (auto simp: comp_def)
  assume m: "m \<in> set (rc_active b)"
  show "\<exists>m' \<in> set (rc_active b'). am_id m' = am_id m \<and> am_backend m' = am_backend m"
    unfolding identity_pass_active [OF assms] set_map bex_simps using m by (intro bexI [of _ m]) auto
qed

subsection \<open>The replay pass, session by session\<close>

lemma keep_unanswered_filter:
  "keep_unanswered {} evs = Inr us \<Longrightarrow> keep_unanswered ex evs = Inr (filter (\<lambda>ev. dget ev ''id'' \<notin> JStr ` ex) us)"
  by (induction evs arbitrary: us) (auto simp: py_bind_Inr_iff split: if_split_asm)

lemma keep_unanswered_sub: "keep_unanswered ex evs = Inr us \<Longrightarrow> set us \<subseteq> set evs"
  by (induction evs arbitrary: us) (auto simp: py_bind_Inr_iff split: if_split_asm)

lemma last_done_found: "found < idx \<Longrightarrow> found \<le> last_done evs idx found"
proof (induction evs arbitrary: idx found)
  case (Cons ev evs)
  have "idx \<le> last_done evs (idx + 1) idx" "found \<le> last_done evs (idx + 1) found"
    using Cons.IH [of idx "idx + 1"] Cons.IH [of found "idx + 1"] Cons.prems by simp_all
  then show ?case using Cons.prems by auto
qed simp

lemma last_done_append: "last_done (xs @ ys) idx found = last_done ys (idx + int (length xs)) (last_done xs idx found)"
  by (induction xs arbitrary: idx found) (simp_all add: ac_simps)

lemma unanswered_after_done:
  assumes "unanswered_user_events (pre @ d # post) ex = Inr us" "dget d ''type'' = JStr ET_MASTER_DONE"
  shows "set us \<subseteq> set post"
proof -
  let ?k = "last_done (pre @ d # post) 0 (-1)"
  have "int (length pre) \<le> ?k"
    using assms(2) by (simp add: last_done_append last_done_found)
  then have "nat (?k + 1) = Suc (length pre) + (nat (?k + 1) - Suc (length pre))" by linarith
  then obtain n where n: "nat (?k + 1) = Suc (length pre) + n" by blast
  have "drop (nat (?k + 1)) (pre @ d # post) = drop n post" unfolding n by simp
  then have "set us \<subseteq> set (drop n post)"
    using assms(1) keep_unanswered_sub unfolding unanswered_user_events_def by metis
  then show ?thesis using set_drop_subset by fast
qed

lemma replay_events_own:
  assumes "\<not> skips_backend (be_options BE) (Some (am_backend m))"
  shows "answers (am_id m) i (replay_events BE m us q) = answers (am_id m) i q +
    length (filter (\<lambda>ev. dget ev ''id'' = JStr i \<and> (\<exists>c. dget ev ''content'' = JStr c \<and> c \<noteq> [])) us)"
  unfolding replay_events_def by (induction us arbitrary: q) (simp_all add: answers_replay [OF assms])

lemma replay_events_other:
  "am_id m \<noteq> sid \<Longrightarrow> answers sid i (replay_events BE m us q) = answers sid i q"
  unfolding replay_events_def by (induction us arbitrary: q) (simp_all add: answers_replay_other)

lemma owned_replay_events: "queued_user_event_ids sid (replay_events BE m us q) = queued_user_event_ids sid q"
  unfolding replay_events_def by (induction us arbitrary: q) (simp_all add: owned_replay)

definition log_of :: "string \<Rightarrow> recovery \<Rightarrow> dict list py" where
  "log_of sid b = fst (load_chat_events sid (w_store (rc_world b)))"

lemma log_of_other:
  assumes "s \<noteq> sid" "w_store w' = snd (load_chat_events s (w_store (rc_world b)))"
  shows "log_of sid (b\<lparr>rc_world := w', rc_queue := q\<rparr>) = log_of sid b"
  using load_other [of sid s "w_store (rc_world b)"] assms
  by (simp add: log_of_def load_chat_events_def Let_def split: option.split sum.split)

definition replayed :: "'s boot_env \<Rightarrow> exclusions \<Rightarrow> active_meta \<Rightarrow> recovery \<Rightarrow> mq_world" where
  "replayed BE ex m b =
     (case log_of (am_id m) b of
        Inl _ \<Rightarrow> rc_queue b
      | Inr evs \<Rightarrow>
          (case unanswered_user_events evs (ex (am_id m) \<union> queued_user_event_ids (am_id m) (rc_queue b)) of
             Inl _ \<Rightarrow> rc_queue b
           | Inr us \<Rightarrow> replay_events BE m us (rc_queue b)))"

lemma replay_session_eq:
  "replay_session BE ex m b =
   b\<lparr>rc_world := (rc_world b)\<lparr>w_store := snd (load_chat_events (am_id m) (w_store (rc_world b)))\<rparr>,
     rc_queue := replayed BE ex m b\<rparr>"
  by (cases "load_chat_events (am_id m) (w_store (rc_world b))")
    (simp add: replay_session_def replayed_def log_of_def Let_def split: sum.split)

lemma replay_session_owned: "queued_user_event_ids sid (rc_queue (replay_session BE ex m b)) = queued_user_event_ids sid (rc_queue b)"
  by (simp add: replay_session_eq replayed_def owned_replay_events split: sum.split)

lemma replay_session_other:
  assumes "am_id m \<noteq> sid"
  shows "log_of sid (replay_session BE ex m b) = log_of sid b"
    and "answers sid i (rc_queue (replay_session BE ex m b)) = answers sid i (rc_queue b)"
proof -
  show "log_of sid (replay_session BE ex m b) = log_of sid b"
    unfolding replay_session_eq by (rule log_of_other [OF assms]) simp
  show "answers sid i (rc_queue (replay_session BE ex m b)) = answers sid i (rc_queue b)"
    using assms by (simp add: replay_session_eq replayed_def replay_events_other split: sum.split)
qed

lemma replay_session_own:
  assumes "log_of (am_id m) b = Inr evs" "unanswered_user_events evs {} = Inr us"
    and "\<not> skips_backend (be_options BE) (Some (am_backend m))"
  shows "answers (am_id m) i (rc_queue (replay_session BE ex m b)) = answers (am_id m) i (rc_queue b) +
    (if i \<in> ex (am_id m) \<union> queued_user_event_ids (am_id m) (rc_queue b) then 0
     else length (filter (\<lambda>ev. dget ev ''id'' = JStr i \<and> (\<exists>c. dget ev ''content'' = JStr c \<and> c \<noteq> [])) us))"
proof -
  let ?skip = "ex (am_id m) \<union> queued_user_event_ids (am_id m) (rc_queue b)"
  have "unanswered_user_events evs ?skip = Inr (filter (\<lambda>ev. dget ev ''id'' \<notin> JStr ` ?skip) us)"
    using assms(2) keep_unanswered_filter unfolding unanswered_user_events_def by blast
  then have "rc_queue (replay_session BE ex m b) =
      replay_events BE m (filter (\<lambda>ev. dget ev ''id'' \<notin> JStr ` ?skip) us) (rc_queue b)"
    using assms(1) by (simp add: replay_session_eq replayed_def)
  moreover have "filter (\<lambda>ev. dget ev ''id'' = JStr i \<and> (\<exists>c. dget ev ''content'' = JStr c \<and> c \<noteq> []))
        (filter (\<lambda>ev. dget ev ''id'' \<notin> JStr ` ?skip) us) =
      (if i \<in> ?skip then [] else filter (\<lambda>ev. dget ev ''id'' = JStr i \<and> (\<exists>c. dget ev ''content'' = JStr c \<and> c \<noteq> [])) us)"
    by (auto simp: filter_empty_conv intro!: filter_cong)
  ultimately show ?thesis by (simp add: replay_events_own [OF assms(3)])
qed

lemma replay_pass_own:
  assumes "distinct (map am_id ms)" "m \<in> set ms" "log_of (am_id m) b = Inr evs" "unanswered_user_events evs {} = Inr us"
    and "\<not> skips_backend (be_options BE) (Some (am_backend m))"
  shows "answers (am_id m) i (rc_queue (fold (replay_session BE ex) ms b)) = answers (am_id m) i (rc_queue b) +
    (if i \<in> ex (am_id m) \<union> queued_user_event_ids (am_id m) (rc_queue b) then 0
     else length (filter (\<lambda>ev. dget ev ''id'' = JStr i \<and> (\<exists>c. dget ev ''content'' = JStr c \<and> c \<noteq> [])) us))"
  using assms(1,2,3)
proof (induction ms arbitrary: b)
  case (Cons n ms)
  have later: "answers (am_id m) i (rc_queue (fold (replay_session BE ex) ms b')) = answers (am_id m) i (rc_queue b')"
    if "am_id m \<notin> am_id ` set ms" for b'
    using that by (induction ms arbitrary: b') (auto simp: replay_session_other(2))
  show ?case
  proof (cases "n = m")
    case True
    then show ?thesis
      using Cons.prems later replay_session_own [OF Cons.prems(3) assms(4,5)] by simp
  next
    case False
    then have "am_id n \<noteq> am_id m" using Cons.prems by auto
    then show ?thesis
      using Cons.IH [of "replay_session BE ex n b"] Cons.prems False
      by (simp add: replay_session_other replay_session_owned)
  qed
qed simp

lemma one_event:
  assumes "distinct (map (\<lambda>ev. dget ev ''id'') us)" "ev \<in> set us" "dget ev ''id'' = JStr i" "p ev"
  shows "length (filter (\<lambda>e. dget e ''id'' = JStr i \<and> p e) us) = 1"
  using assms
proof (induction us)
  case (Cons u us)
  show ?case
  proof (cases "u = ev")
    case True
    then have "\<forall>e \<in> set us. dget e ''id'' \<noteq> JStr i" using Cons.prems by (auto simp: image_iff)
    then have "filter (\<lambda>e. dget e ''id'' = JStr i \<and> p e) us = []" by (simp add: filter_empty_conv)
    then show ?thesis using True Cons.prems by simp
  next
    case False
    then have "dget u ''id'' \<noteq> JStr i" using Cons.prems by (auto simp: image_iff)
    then show ?thesis using False Cons by simp
  qed
qed simp

lemma replay_pass_metas:
  assumes "identity_pass BE hb (rc_active b) (\<lambda>_. {}) b = (Val ex, b1)" "distinct (map am_id (rc_active b))" "m \<in> set (rc_active b)"
  obtains m' where "distinct (map am_id (rc_active b1))" "m' \<in> set (rc_active b1)" "am_id m' = am_id m" "am_backend m' = am_backend m"
  using identity_pass_metas [OF assms(1)] assms(2,3) by metis

lemma one_session:
  assumes "distinct (map am_id ms)" "m \<in> set ms"
  shows "(\<exists>n \<in> set ms. am_id n = am_id m \<and> P n) \<longleftrightarrow> P m"
    and "length (filter (\<lambda>n. am_id n = am_id m \<and> P n) ms) = (if P m then 1 else 0)"
proof -
  have n: "n = m" if "n \<in> set ms" "am_id n = am_id m" for n
    using that assms by (auto simp: distinct_map inj_on_def)
  then show "(\<exists>n \<in> set ms. am_id n = am_id m \<and> P n) \<longleftrightarrow> P m" using assms(2) by auto
  show "length (filter (\<lambda>n. am_id n = am_id m \<and> P n) ms) = (if P m then 1 else 0)"
    using assms
  proof (induction ms)
    case (Cons k ms)
    show ?case
    proof (cases "k = m")
      case True
      then have "\<forall>n \<in> set ms. am_id n \<noteq> am_id m" using Cons.prems by (auto simp: image_iff)
      then have "filter (\<lambda>n. am_id n = am_id m \<and> P n) ms = []" by (simp add: filter_empty_conv)
      then show ?thesis using True by simp
    next
      case False
      then show ?thesis using Cons by (auto simp: image_iff)
    qed
  qed simp
qed

text \<open>
  C9. Recovery answers a message once. After a restart, a user message that no turn has answered
  since the last finished round gets exactly one new work item: the re-attached turn that was
  answering it, or its redelivery; none when a turn that is treated as alive still owns it or
  the queue holds it already.
\<close>

theorem recovery_answers_once:
  assumes "identity_pass BE hb (rc_active b) (\<lambda>_. {}) b = (Val ex, b1)"
    and "distinct (map am_id (rc_active b))" "m \<in> set (rc_active b)"
    and "\<not> skips_backend (be_options BE) (Some (am_backend m))"
    and "log_of (am_id m) b1 = Inr evs" "unanswered_user_events evs {} = Inr us" "distinct (map (\<lambda>ev. dget ev ''id'') us)"
    and "ev \<in> set us" "dget ev ''id'' = JStr i" "i \<noteq> []" "dget ev ''content'' = JStr c" "c \<noteq> []"
  shows "answers (am_id m) i (rc_queue (replay_unanswered_user_messages BE ex b1)) =
    answers (am_id m) i (rc_queue b) +
    (if follows BE hb i m then 1
     else if holds_back BE hb i m \<or> i \<in> queued_user_event_ids (am_id m) (rc_queue b) then 0 else 1)"
proof -
  obtain m' where m': "distinct (map am_id (rc_active b1))" "m' \<in> set (rc_active b1)" "am_id m' = am_id m" "am_backend m' = am_backend m"
    using replay_pass_metas [OF assms(1,2,3)] .
  have one: "length (filter (\<lambda>ev. dget ev ''id'' = JStr i \<and> (\<exists>c. dget ev ''content'' = JStr c \<and> c \<noteq> [])) us) = 1"
    using assms(7,8,9,11,12) by (intro one_event) auto
  have ex: "i \<in> ex (am_id m) \<longleftrightarrow> holds_back BE hb i m"
    unfolding identity_pass_queue(1) [OF assms(1)] using one_session(1) [OF assms(2,3)] by simp
  have q: "i \<in> queued_user_event_ids (am_id m) (rc_queue b1) \<longleftrightarrow>
      i \<in> queued_user_event_ids (am_id m) (rc_queue b) \<or> follows BE hb i m"
    unfolding identity_pass_queue(3) [OF assms(1)] using one_session(1) [OF assms(2,3)] by simp
  have fh: "follows BE hb i m \<Longrightarrow> holds_back BE hb i m" by (simp add: follows_def holds_back_def)
  show ?thesis
    unfolding replay_unanswered_user_messages_def
    using replay_pass_own [OF m'(1,2), of b1 evs us BE i ex] m'(3,4) assms(4,5,6) one ex q fh
      identity_pass_queue(2) [OF assms(1) assms(10), of "am_id m"] one_session(2) [OF assms(2,3), of "follows BE hb i"]
    by auto
qed

subsection \<open>Recovery keeps the queue's invariants\<close>

text \<open>Both passes act on the queue by steps of \<open>Master_Queue\<close>, so what holds of every reachable
queue holds after a restart.\<close>

lemma identity_pass_reach:
  "identity_pass BE hb ms ex b = (Val ex', b') \<Longrightarrow> mq_reach (rc_queue b) \<Longrightarrow> mq_reach (rc_queue b')"
proof (induction ms arbitrary: ex b)
  case (Cons m ms)
  then obtain ex1 b1 where s: "identity_one BE hb m ex b = (Val ex1, b1)" "identity_pass BE hb ms ex1 b1 = (Val ex', b')"
    unfolding identity_pass_Cons by blast
  have "mq_reach (rc_queue b1)"
  proof (cases "am_run m")
    case None
    then show ?thesis using s(1) Cons.prems(2) by (simp add: identity_one_def)
  next
    case (Some r)
    then obtain v where "act_on_verdict BE m r ex v b = (Val ex1, b1)"
      using s(1) by (auto simp: identity_one_def split: sum.splits)
    then show ?thesis using verdict_shape(2) Cons.prems(2) mq_reach.step [OF Cons.prems(2) mq_step.reattaches] by metis
  qed
  then show ?case using Cons.IH s(2) by blast
qed simp

lemma replay_events_reach: "mq_reach q \<Longrightarrow> mq_reach (replay_events BE m us q)"
  unfolding replay_events_def by (induction us arbitrary: q) (auto intro: mq_reach.step mq_step.replay)

lemma replay_pass_reach: "mq_reach (rc_queue b) \<Longrightarrow> mq_reach (rc_queue (fold (replay_session BE ex) ms b))"
  by (induction ms arbitrary: b) (auto simp: replay_session_eq replayed_def replay_events_reach split: sum.split)

subsection \<open>A message queued behind a turn\<close>

lemma answers_replay_else:
  "dget ev ''id'' \<noteq> JStr i \<Longrightarrow> answers sid i (replay_user_message s options ref backend p ev q) = answers sid i q"
  by (auto simp: answers_def replay_user_message_def replay_message_def run_message_def message_item_def
      split: json.split option.split if_split)

lemma replay_events_else:
  "\<forall>ev \<in> set us. dget ev ''id'' \<noteq> JStr i \<Longrightarrow> answers sid i (replay_events BE m us q) = answers sid i q"
  unfolding replay_events_def by (induction us arbitrary: q) (simp_all add: answers_replay_else)

lemma replay_session_else:
  assumes "log_of (am_id m) b = Inr (pre @ d # post)" "dget d ''type'' = JStr ET_MASTER_DONE"
    and "\<forall>ev \<in> set post. dget ev ''id'' \<noteq> JStr i"
  shows "answers sid i (rc_queue (replay_session BE ex m b)) = answers sid i (rc_queue b)"
proof -
  have "answers sid i (replay_events BE m us q) = answers sid i q"
    if "unanswered_user_events (pre @ d # post) skip = Inr us" for us skip q
    using unanswered_after_done [OF that assms(2)] assms(3) by (intro replay_events_else) blast
  then show ?thesis using assms(1) by (simp add: replay_session_eq replayed_def split: sum.split)
qed

lemma replay_pass_else:
  assumes "log_of sid b = Inr (pre @ d # post)" "dget d ''type'' = JStr ET_MASTER_DONE"
    and "\<forall>ev \<in> set post. dget ev ''id'' \<noteq> JStr i" "distinct (map am_id ms)"
  shows "answers sid i (rc_queue (fold (replay_session BE ex) ms b)) = answers sid i (rc_queue b)"
  using assms(1,4)
proof (induction ms arbitrary: b)
  case (Cons n ms)
  show ?case
  proof (cases "am_id n = sid")
    case True
    have "answers sid i (rc_queue (fold (replay_session BE ex) ms b')) = answers sid i (rc_queue b')"
      if "sid \<notin> am_id ` set ms" for b'
      using that by (induction ms arbitrary: b') (auto simp: replay_session_other(2))
    then show ?thesis using True Cons.prems replay_session_else [OF _ assms(2,3), of n b pre] by simp
  next
    case False
    then show ?thesis
      using Cons.IH [of "replay_session BE ex n b"] Cons.prems by (simp add: replay_session_other)
  qed
qed simp

lemma replay_pass_active: "rc_active (fold (replay_session BE ex) ms b) = rc_active b"
  by (induction ms arbitrary: b) (simp_all add: replay_session_eq)

text \<open>
  A message queued behind a turn can be lost. Its event precedes the MASTER_DONE of the turn it
  waited for; when the server dies in the middle of its own turn, recovery clears that turn's
  record for the replay to answer the message, and the replay, which starts after the last
  MASTER_DONE, passes over it: nothing answers it and no record of it is left.
\<close>

theorem queued_message_is_lost:
  assumes "identity_pass BE hb (rc_active b) (\<lambda>_. {}) b = (Val ex, b1)"
    and "distinct (map am_id (rc_active b))" "m \<in> set (rc_active b)"
    and "turn_event m = Some i" "verdict_of BE hb m = Some Cleared" "i \<noteq> []"
    and "log_of (am_id m) b1 = Inr (pre @ d # post)" "dget d ''type'' = JStr ET_MASTER_DONE"
    and "\<forall>ev \<in> set post. dget ev ''id'' \<noteq> JStr i"
  shows "answers (am_id m) i (rc_queue (replay_unanswered_user_messages BE ex b1)) = answers (am_id m) i (rc_queue b) \<and>
    (\<forall>n \<in> set (rc_active (replay_unanswered_user_messages BE ex b1)). am_id n = am_id m \<longrightarrow> am_run n = None)"
proof -
  have d: "distinct (map am_id (rc_active b1))" using identity_pass_metas(1) [OF assms(1)] assms(2) by simp
  have nf: "\<not> follows BE hb i m" using assms(5) by (simp add: follows_def)
  have "\<forall>n \<in> set (rc_active b1). am_id n = am_id m \<longrightarrow> am_run n = None"
    unfolding identity_pass_active [OF assms(1)] using assms(3,5) by auto
  then show ?thesis
    unfolding replay_unanswered_user_messages_def replay_pass_active replay_pass_else [OF assms(7,8,9) d]
    using identity_pass_queue(2) [OF assms(1,6), of "am_id m"] one_session(2) [OF assms(2,3), of "follows BE hb i"] nf
    by simp
qed

subsection \<open>A message sent during the replay\<close>

lemma resume_callers:
  assumes "resume sid now ans w = Some w'"
  shows "mq_callers w' = mq_callers w"
proof -
  obtain c where c: "on_answer sid now c (co_phase c) ans w = Some w'"
    using assms by (auto simp: resume_def split: option.splits)
  have "moves_on sid item w w' \<Longrightarrow> mq_callers w' = mq_callers w" for item
    by (auto simp: moves_on_def round_work_def dest: arg_cong [where f = mq_callers])
  moreover have "mq_callers (take_item sid c item rest w) = mq_callers w" for item rest w
    by (simp add: take_item_def)
  ultimately show ?thesis
    using on_answer_cases [OF c] by (auto simp: finish_item_def teardown_def settle_future_def Let_def split: list.split option.split)
qed

lemma callers_fresh: "mq_reach q \<Longrightarrow> \<forall>(s, it) \<in> set (mq_callers q). wi_resume_started it = None"
proof (induction rule: mq_reach.induct)
  case (start metas)
  show ?case by (simp add: empty_world_def)
next
  case (step w w')
  show ?case using step(2,3)
  proof (induction rule: mq_step.induct)
    case (consumer_runs sid now ans w w')
    then show ?case by (simp add: resume_callers)
  qed (auto simp: run_message_def message_item_def replay_user_message_def enqueue_master_resume_def
         broadcast_running_changed_def split: option.splits)
qed

lemma callers_enter:
  assumes "mq_callers q = cs" "\<forall>(s, it) \<in> set cs. wi_resume_started it = None"
  shows "\<exists>q'. mq_step\<^sup>*\<^sup>* q q' \<and> mq_callers q' = [] \<and> answers sid i q' = answers sid i q"
  using assms
proof (induction cs arbitrary: q)
  case (Cons c cs)
  obtain s it where c: "c = (s, it)" by (cases c)
  let ?q = "submit_item s it 0 (q\<lparr>mq_callers := cs\<rparr>)"
  have step: "mq_step q ?q"
    using mq_step.enters [of q "[]" s it cs 0] Cons.prems c by simp
  have "answers sid i ?q = answers sid i q"
    using Cons.prems(1) c by (simp add: answers_def submit_fields(7) [OF refl])
  then show ?case using Cons.IH [of ?q] Cons.prems(2) step by (auto intro: converse_rtranclp_into_rtranclp)
qed auto

text \<open>
  A message sent while the replay pass runs can be answered twice. A sender has written its
  message to the chat and waits to enter the queue; the replay, which spares what the queue
  holds but not what waits before it, redelivers the same message, and both items are accepted.
\<close>

theorem replay_races_a_sender:
  assumes "mq_reach (rc_queue b)" "(am_id m, it) \<in> set (mq_callers (rc_queue b))" "wi_user_event_id it = Some i"
    and "i \<notin> ex (am_id m)" "i \<notin> queued_user_event_ids (am_id m) (rc_queue b)"
    and "distinct (map am_id (rc_active b))" "m \<in> set (rc_active b)" "\<not> skips_backend (be_options BE) (Some (am_backend m))"
    and "log_of (am_id m) b = Inr evs" "unanswered_user_events evs {} = Inr us" "distinct (map (\<lambda>ev. dget ev ''id'') us)"
    and "ev \<in> set us" "dget ev ''id'' = JStr i" "dget ev ''content'' = JStr c" "c \<noteq> []"
  shows "\<exists>q'. mq_step\<^sup>*\<^sup>* (rc_queue (replay_unanswered_user_messages BE ex b)) q' \<and>
    2 \<le> length (filter (\<lambda>(s, it). s = am_id m \<and> wi_user_event_id it = Some i) (mq_accepted q'))"
proof -
  let ?b = "replay_unanswered_user_messages BE ex b"
  have "length (filter (\<lambda>ev. dget ev ''id'' = JStr i \<and> (\<exists>c. dget ev ''content'' = JStr c \<and> c \<noteq> [])) us) = 1"
    using assms(11-15) by (intro one_event) auto
  then have a: "answers (am_id m) i (rc_queue ?b) = answers (am_id m) i (rc_queue b) + 1"
    unfolding replay_unanswered_user_messages_def
    using replay_pass_own [OF assms(6,7,9,10,8), of i ex] assms(4,5) by simp
  have "(am_id m, it) \<in> set (filter (\<lambda>(s, it). s = am_id m \<and> wi_user_event_id it = Some i)
      (mq_accepted (rc_queue b) @ mq_callers (rc_queue b)))"
    using assms(2,3) by simp
  then have "1 \<le> answers (am_id m) i (rc_queue b)"
    unfolding answers_def by (metis One_nat_def Suc_leI length_pos_if_in_set)
  then have two: "2 \<le> answers (am_id m) i (rc_queue ?b)" using a by simp
  have "mq_reach (rc_queue ?b)" unfolding replay_unanswered_user_messages_def by (rule replay_pass_reach [OF assms(1)])
  then obtain q' where "mq_step\<^sup>*\<^sup>* (rc_queue ?b) q'" "mq_callers q' = []" "answers (am_id m) i q' = answers (am_id m) i (rc_queue ?b)"
    using callers_enter [OF refl callers_fresh, of "rc_queue ?b" "am_id m" i] by blast
  then show ?thesis using two by (auto simp: answers_def)
qed

subsection \<open>Witnesses\<close>

definition demo_boot :: "unit boot_env" where
  "demo_boot =
     \<lparr>be_env = demo_env, be_options = [(''a'', ''cc-claude'')], be_boot = 10, be_stat_lines = [''btime 0''],
      be_proc = (\<lambda>_. None), be_now = 20, be_own = 5, be_raw = (\<lambda>_. \<lparr>rl_bytes = Some [], rl_stat = Some (0, 1, 2)\<rparr>),
      be_translate = (\<lambda>_ s e. Inr ([], s)), be_fresh = (), be_lists = True\<rparr>"

text \<open>A turn on the message \<open>u1\<close> that died without a result.\<close>

definition demo_dead_turn :: active_meta where
  "demo_dead_turn =
     \<lparr>am_id = ''s'', am_backend = ''a'',
      am_run = Some \<lparr>mt_pid = Some 7, mt_pid_start = Some ''100'', mt_started_at = 5, mt_raw_log = ''r'',
                    mt_user_event_id = Some ''u1''\<rparr>, am_ref = 0, am_replay_ref = 1\<rparr>"

definition demo_message :: "string \<Rightarrow> dict" where
  "demo_message i = [(''type'', JStr ET_USER), (''content'', JStr ''hi''), (''id'', JStr i)]"

definition demo_done :: dict where "demo_done = [(''type'', JStr ET_MASTER_DONE)]"

definition demo_store :: "dict list \<Rightarrow> chat_store" where
  "demo_store evs = \<lparr>cs_files = (\<lambda>_. evs), cs_cache = [''s'' \<mapsto> evs], cs_folds = [''s'' \<mapsto> new_fold]\<rparr>"

definition demo_recovery :: "dict list \<Rightarrow> active_meta \<Rightarrow> mq_world \<Rightarrow> recovery" where
  "demo_recovery evs m q =
     \<lparr>rc_world = (demo_world Map.empty [])\<lparr>w_store := demo_store evs\<rparr>, rc_queue = q, rc_active = [m]\<rparr>"

lemma boot_judged: "judge_record demo_boot 0 demo_dead_turn (the (am_run demo_dead_turn)) = Inr Cleared"
proof -
  let ?f = "turn_facts demo_boot 0 ''cc-claude'' (the (am_run demo_dead_turn))"
  have "is_run_alive (rf_proc ?f) (rf_pid ?f) (rf_pid_start ?f) (rf_started_at ?f) (rf_boot ?f) = Inr False"
    by (simp add: is_run_alive_def read_pid_stat_def turn_facts_def demo_boot_def demo_dead_turn_def)
  moreover have "raw_result ?f = Inr None"
    by (simp add: raw_result_def project_raw_file_def parse_raw_lines.simps summarize_result_def turn_facts_def demo_boot_def)
  moreover have "resolve_rows ?f False None = resolution DIED died_without_result_reason (Some 0) []"
    by (simp add: resolve_rows_def turn_facts_def demo_boot_def demo_dead_turn_def Let_def missing_liveness_fields_def
        raw_completion_time_def uncovered_backend_types_def)
  moreover have "rl_bytes (rf_raw ?f) = Some []" by (simp add: turn_facts_def demo_boot_def)
  ultimately have "resolve_run ?f = Inr (resolution DIED died_without_result_reason (Some 0) [])"
    by (simp add: resolve_run_def)
  moreover have "Master_Queue.get_backend_option (be_options demo_boot) (am_backend demo_dead_turn) = Some (''a'', ''cc-claude'')"
    by (simp add: demo_boot_def demo_dead_turn_def Master_Queue.get_backend_option_def)
  moreover have "\<not> be_boot demo_boot \<le> mt_started_at (the (am_run demo_dead_turn))"
    "mt_user_event_id (the (am_run demo_dead_turn)) = Some ''u1''"
    by (simp_all add: demo_boot_def demo_dead_turn_def)
  ultimately show ?thesis
    by (simp add: judge_record_def treated_alive_def followable_def resolution_def Master_Queue.truthy_def)
qed

lemma boot_verdict: "verdict_of demo_boot 0 demo_dead_turn = Some Cleared"
  using boot_judged by (simp add: verdict_of_def demo_dead_turn_def)

lemma boot_identity:
  "identity_pass demo_boot 0 (rc_active (demo_recovery evs demo_dead_turn q)) (\<lambda>_. {}) (demo_recovery evs demo_dead_turn q) =
     (Val (\<lambda>_. {}), demo_recovery evs (demo_dead_turn\<lparr>am_run := None\<rparr>) q)"
proof -
  let ?b = "demo_recovery evs demo_dead_turn q"
  have c: "clear_record ''s'' ?b = (Val (), demo_recovery evs (demo_dead_turn\<lparr>am_run := None\<rparr>) q)"
    by (simp add: clear_record_def durable_def demo_recovery_def demo_world_def demo_dead_turn_def)
  obtain r where r: "am_run demo_dead_turn = Some r" "am_id demo_dead_turn = ''s''" by (simp add: demo_dead_turn_def)
  have "identity_one demo_boot 0 demo_dead_turn (\<lambda>_. {}) ?b = (Val (\<lambda>_. {}), demo_recovery evs (demo_dead_turn\<lparr>am_run := None\<rparr>) q)"
    using boot_judged c r by (simp add: identity_one_def act_on_verdict_def)
  moreover have "rc_active ?b = [demo_dead_turn]" by (simp add: demo_recovery_def)
  ultimately show ?thesis by simp
qed

lemma boot_log: "log_of ''s'' (demo_recovery evs m q) = Inr evs"
  by (simp add: log_of_def demo_recovery_def load_chat_events_def demo_store_def)

lemma boot_log_events:
  "unanswered_user_events [demo_message ''u1''] {} = Inr [demo_message ''u1'']"
  by (simp add: unanswered_user_events_def demo_message_def)

lemma boot_meta: "am_id demo_dead_turn = ''s''" "am_backend demo_dead_turn = ''a''"
  by (simp_all add: demo_dead_turn_def)

lemma boot_fields: "rc_active (demo_recovery evs m q) = [m]" "rc_queue (demo_recovery evs m q) = q"
  by (simp_all add: demo_recovery_def)

lemma boot_backend: "\<not> skips_backend (be_options demo_boot) (Some ''a'')"
  by (simp add: skips_backend_def demo_boot_def Master_Queue.truthy_def Master_Queue.get_backend_option_def)

theorem recovery_answers_once_witness:
  "answers ''s'' ''u1'' (rc_queue (replay_unanswered_user_messages demo_boot (\<lambda>_. {})
     (demo_recovery [demo_message ''u1''] (demo_dead_turn\<lparr>am_run := None\<rparr>) (empty_world demo_metas)))) = 1"
proof -
  let ?q = "empty_world demo_metas"
  have "follows demo_boot 0 ''u1'' demo_dead_turn = False" "holds_back demo_boot 0 ''u1'' demo_dead_turn = False"
    by (simp_all add: follows_def holds_back_def boot_verdict)
  moreover have "queued_user_event_ids ''s'' ?q = {}" "answers ''s'' ''u1'' ?q = 0"
    by (simp_all add: queued_user_event_ids_def queue_of_def empty_world_def event_ids_def answers_def List.map_filter_def)
  ultimately show ?thesis
    using recovery_answers_once [OF boot_identity [of "[demo_message ''u1'']" ?q], where m = demo_dead_turn and us = "[demo_message ''u1'']" and i = "''u1''" and c = "''hi''"
        and ev = "demo_message ''u1''" and evs = "[demo_message ''u1'']"]
    by (simp add: boot_fields boot_meta boot_backend boot_log boot_log_events) (simp add: demo_message_def)
qed

theorem queued_message_is_lost_witness:
  "answers ''s'' ''u1'' (rc_queue (replay_unanswered_user_messages demo_boot (\<lambda>_. {})
     (demo_recovery [demo_message ''u0'', demo_message ''u1'', demo_done] (demo_dead_turn\<lparr>am_run := None\<rparr>) (empty_world demo_metas)))) = 0"
proof -
  let ?q = "empty_world demo_metas"
  have "answers ''s'' ''u1'' ?q = 0" by (simp add: empty_world_def answers_def)
  moreover have "turn_event demo_dead_turn = Some ''u1''" by (simp add: turn_event_def demo_dead_turn_def Master_Queue.truthy_def)
  ultimately show ?thesis
    using queued_message_is_lost [OF boot_identity [of "[demo_message ''u0'', demo_message ''u1'', demo_done]" ?q], where m = demo_dead_turn and i = "''u1''" and pre = "[demo_message ''u0'', demo_message ''u1'']"
        and d = demo_done and post = "[]"]
    by (simp add: boot_fields boot_meta boot_log boot_verdict demo_done_def)
qed

definition demo_sending :: mq_world where
  "demo_sending =
     run_message ''s'' [(''a'', ''cc-claude'')]
       \<lparr>ms_meta = 0, ms_backend = Some ''a'', ms_user_content = ''hi'', ms_display_content = None, ms_uploaded_files = None,
        ms_is_voice = False, ms_skip_user_event = False, ms_auto_trigger = False, ms_expect_fresh = False,
        ms_user_event_id = None, ms_persists_account = True\<rparr> ''t'' (Some ''u1'') (empty_world demo_metas)"

theorem replay_races_a_sender_witness:
  "\<exists>q'. mq_step\<^sup>*\<^sup>* (rc_queue (replay_unanswered_user_messages demo_boot (\<lambda>_. {})
      (demo_recovery [demo_message ''u1''] (demo_dead_turn\<lparr>am_run := None\<rparr>) demo_sending))) q' \<and>
     2 \<le> length (filter (\<lambda>(s, it). s = ''s'' \<and> wi_user_event_id it = Some ''u1'') (mq_accepted q'))"
proof -
  let ?m = "demo_dead_turn\<lparr>am_run := None\<rparr>"
  have r: "mq_reach demo_sending" unfolding demo_sending_def by (rule mq_reach.step [OF mq_reach.start mq_step.message])
  obtain it where it: "mq_callers demo_sending = [(''s'', it)]" "wi_user_event_id it = Some ''u1''"
    by (simp add: demo_sending_def run_message_def skips_backend_def Master_Queue.truthy_def
        Master_Queue.get_backend_option_def empty_world_def message_item_def)
  have q: "queued_user_event_ids ''s'' demo_sending = {}"
    by (simp add: demo_sending_def queued_user_event_ids_def queue_of_def empty_world_def event_ids_def List.map_filter_def)
  show ?thesis
    using replay_races_a_sender [where b = "demo_recovery [demo_message ''u1''] ?m demo_sending" and m = ?m and it = it and i = "''u1''"
        and ex = "\<lambda>_. {}" and BE = demo_boot and evs = "[demo_message ''u1'']" and us = "[demo_message ''u1'']" and ev = "demo_message ''u1''" and c = "''hi''"]
    by (simp add: boot_fields boot_meta boot_backend boot_log boot_log_events r it q) (simp add: demo_message_def)
qed

subsection \<open>Crash recovery as a whole\<close>

text \<open>
  \<open>run_crash_recovery\<close> without an identity task of the caller: the workers' pass, then the
  masters', then the quarantine over the metadata the scan read.
\<close>

definition run_crash_recovery ::
  "'s worker_boot \<Rightarrow> 't boot_env \<Rightarrow> session_dir list \<Rightarrow> meta_memo \<Rightarrow> (quarantine_call \<Rightarrow> string set \<Rightarrow> string set) \<Rightarrow>
     string set \<Rightarrow> dispatch \<Rightarrow> recovery \<Rightarrow> (nat \<times> quarantine_call list) Session_World.outcome \<times> dispatch \<times> recovery" where
  "run_crash_recovery WB BE dirs memo moved disk d b =
     (case fst (scan_interrupted_runs (wb_parse WB) (be_boot BE) (wb_now WB) dirs memo) of
        Inl e \<Rightarrow> (raised_in WB e, d, b)
      | Inr (items, threads) \<Rightarrow>
          (case reconcile_interrupted_runs WB items d of
             (Exc msg, d1) \<Rightarrow> (Exc msg, d1, b)
           | (Killed, d1) \<Rightarrow> (Killed, d1, b)
           | (Val n, d1) \<Rightarrow>
               (case reconcile_master_runs BE (b\<lparr>rc_world := ds_world d1\<rparr>) of
                  (Exc msg, b1) \<Rightarrow> (Exc msg, d1, b1)
                | (Killed, b1) \<Rightarrow> (Killed, d1, b1)
                | (Val _, b1) \<Rightarrow>
                    (Val (n, fst (quarantine_stale_failed_worktrees (wb_parse WB) (wb_now WB) moved threads disk)), d1, b1))))"

lemma crash_recovery_signals:
  assumes "p \<in> set (ds_signalled (fst (snd (run_crash_recovery WB BE dirs memo moved disk d b))))" "p \<notin> set (ds_signalled d)"
  shows "\<exists>items threads. fst (scan_interrupted_runs (wb_parse WB) (be_boot BE) (wb_now WB) dirs memo) = Inr (items, threads) \<and>
    (\<exists>item \<in> set items. leftover_of WB item p)"
proof -
  obtain items threads where sc: "fst (scan_interrupted_runs (wb_parse WB) (be_boot BE) (wb_now WB) dirs memo) = Inr (items, threads)"
    using assms by (auto simp: run_crash_recovery_def split: sum.splits)
  have "fst (snd (run_crash_recovery WB BE dirs memo moved disk d b)) = snd (reconcile_interrupted_runs WB items d)"
    using sc by (auto simp: run_crash_recovery_def split: prod.split Session_World.outcome.split)
  then show ?thesis
    using reconcile_runs_adds [of WB items d Map.empty Map.empty 0] assms sc
    unfolding reconcile_interrupted_runs_def adds_only_def by auto
qed

end
