(* ===== verification/Trigger_Watch.thy ===== *)
theory Trigger_Watch
  imports Runs "HOL-Library.Multiset"
begin

text \<open>
  The waiting half of \<open>src/core/triggers.py\<close>: what a delayed trigger watches (local processes by
  pidfd, remote ones by \<open>kill -0\<close> over ssh, SLURM jobs by \<open>sacct\<close>), how one probe is read, and the
  loops that poll until everything has finished or the trigger is due. Times are microseconds; the
  clock moves by at least what was slept and does not run backwards. A set of pids or job ids is a
  list without repetitions.
\<close>

subsection \<open>Targets and constants\<close>

datatype watch_target = LocalPid int | RemotePid string int | SlurmJob "string option" int

definition second_us :: int where "second_us = 1000000"

definition remote_probe_intervals :: "int list" where "remote_probe_intervals = [10, 20, 40, 80, 160, 320]"
definition remote_probe_plateau :: int where "remote_probe_plateau = 600"
definition remote_probe_noise_max :: int where "remote_probe_noise_max = 10"
definition sacct_poll_interval :: int where "sacct_poll_interval = 30"
definition remote_sacct_unreachable_grace :: int where "remote_sacct_unreachable_grace = 900"

definition slurm_active_states :: "string list" where
  "slurm_active_states =
     [''PENDING'', ''RUNNING'', ''CONFIGURING'', ''COMPLETING'', ''REQUEUED'', ''RESIZING'', ''SUSPENDED'']"

definition slurm_terminal_states :: "string list" where
  "slurm_terminal_states =
     [''COMPLETED'', ''FAILED'', ''CANCELLED'', ''TIMEOUT'', ''OUT_OF_MEMORY'', ''NODE_FAIL'', ''BOOT_FAIL'',
      ''DEADLINE'', ''PREEMPTED'', ''REVOKED'', ''SPECIAL_EXIT'']"

subsection \<open>One probe\<close>

text \<open>What becomes of a started command: its output and exit code, or it never ends.\<close>

datatype command_answer = SpawnFails string | Ends string string int | Hangs

datatype probe_run = ProbeFailed string | ProbeRan string string int

definition ssh_cmd :: "string \<Rightarrow> string \<Rightarrow> string list" where
  "ssh_cmd host remote = [''ssh'', ''-o'', ''BatchMode=yes'', ''-o'', ''ConnectTimeout=10'', host, remote]"

text \<open>\<open>None\<close>: without a deadline a command that hangs is waited for forever.\<close>

definition run_probe_cmd :: "bool \<Rightarrow> command_answer \<Rightarrow> probe_run option" where
  "run_probe_cmd deadline answer =
     (case answer of
        SpawnFails e \<Rightarrow> Some (ProbeFailed (''spawn failed: '' @ e))
      | Ends stdout stderr code \<Rightarrow> Some (ProbeRan stdout stderr code)
      | Hangs \<Rightarrow> if deadline then Some (ProbeFailed ''ssh timeout after 60.0s'') else None)"

datatype probe_status = P_ALIVE | P_DEAD | P_ERROR

text \<open>\<open>decode\<close> is the decoding of bytes with replacement characters.\<close>

definition read_kill_probe :: "(string \<Rightarrow> string) \<Rightarrow> probe_run \<Rightarrow> probe_status \<times> string" where
  "read_kill_probe decode run =
     (case run of
        ProbeFailed e \<Rightarrow> (P_ERROR, e)
      | ProbeRan out err code \<Rightarrow>
          (let stdout = decode out; stderr = decode err; raw = stdout @ stderr;
               last_line = (if str_strip stdout \<noteq> [] then str_strip (last (str_splitlines (str_strip stdout))) else [])
           in if last_line = ''ALIVE'' then (P_ALIVE, raw)
              else if last_line = ''DEAD'' then (P_DEAD, raw)
              else (P_ERROR, if str_strip raw \<noteq> [] then str_strip raw else ''ssh exit '' @ int_str code)))"

definition kill_probe_command :: "string \<Rightarrow> int \<Rightarrow> string list" where
  "kill_probe_command host pid =
     ssh_cmd host (''kill -0 '' @ int_str pid @ '' 2>&1 && echo ALIVE || echo DEAD'')"

text \<open>
  The surroundings of a waiter: what a command answers in a probing round, how long a round of
  probes takes, the random part of a sleep, and how much later than asked a sleep ends.
\<close>

record watch_env =
  we_run :: "nat \<Rightarrow> string list \<Rightarrow> command_answer"
  we_took :: "nat \<Rightarrow> nat"
  we_noise :: "nat \<Rightarrow> nat"
  we_late :: "nat \<Rightarrow> nat"
  we_decode :: "string \<Rightarrow> string"

definition ssh_probe_pid :: "watch_env \<Rightarrow> nat \<Rightarrow> string \<Rightarrow> int \<Rightarrow> probe_status \<times> string" where
  "ssh_probe_pid E round host pid =
     (case run_probe_cmd True (we_run E round (kill_probe_command host pid)) of
        Some run \<Rightarrow> read_kill_probe (we_decode E) run
      | None \<Rightarrow> (P_ERROR, []))"

text \<open>The pids still watched, by host.\<close>

type_synonym watched = "(string \<times> int list) list"

fun watch_pid :: "string \<Rightarrow> int \<Rightarrow> watched \<Rightarrow> watched" where
  "watch_pid host pid [] = [(host, [pid])]"
| "watch_pid host pid ((h, ps) # ws) =
     (if h = host then (h, if pid \<in> set ps then ps else ps @ [pid]) # ws else (h, ps) # watch_pid host pid ws)"

definition watched_pids :: "(string \<times> int) list \<Rightarrow> watched" where
  "watched_pids targets = fold (\<lambda>(host, pid). watch_pid host pid) targets []"

definition remote_label :: "string \<Rightarrow> int \<Rightarrow> string" where
  "remote_label host pid = host @ '':'' @ int_str pid"

definition watched_labels :: "watched \<Rightarrow> string list" where
  "watched_labels ws = concat (map (\<lambda>(h, ps). map (remote_label h) ps) ws)"

text \<open>\<open>_probe_remaining_remote_pids\<close>: every watched pid is probed; the dead ones leave, and a host
with none left.\<close>

definition probe_remaining_remote_pids :: "watch_env \<Rightarrow> nat \<Rightarrow> watched \<Rightarrow> string list \<times> watched" where
  "probe_remaining_remote_pids E round ws =
     (let dead = (\<lambda>h p. fst (ssh_probe_pid E round h p) = P_DEAD) in
      (concat (map (\<lambda>(h, ps). map (remote_label h) (filter (dead h) ps)) ws),
       filter (\<lambda>(h, ps). ps \<noteq> []) (map (\<lambda>(h, ps). (h, filter (\<lambda>p. \<not> dead h p) ps)) ws)))"

subsection \<open>Reading sacct\<close>

type_synonym job_rows = "(int \<times> string \<times> string) list"

text \<open>The value of a string of decimal digits.\<close>

definition digits_value :: "string \<Rightarrow> int" where
  "digits_value s = foldl (\<lambda>n c. n * 10 + int (of_char c - 48)) 0 s"

text \<open>The line of one row: a step, array or heterogeneous id is no plain number and is passed over.\<close>

definition sacct_row :: "string \<Rightarrow> (int \<times> string \<times> string) option" where
  "sacct_row line =
     (case split_on (CHR ''|'') (str_strip line) of
        jid # state # code # rest \<Rightarrow>
          if is_digits jid then Some (digits_value jid, str_strip state, str_strip code) else None
      | _ \<Rightarrow> None)"

text \<open>A later row of the same job replaces an earlier one.\<close>

fun job_put :: "int \<Rightarrow> string \<times> string \<Rightarrow> job_rows \<Rightarrow> job_rows" where
  "job_put j v [] = [(j, v)]"
| "job_put j v ((k, u) # rows) = (if k = j then (k, v) # rows else (k, u) # job_put j v rows)"

definition sacct_states :: "string \<Rightarrow> job_rows" where
  "sacct_states out =
     fold (\<lambda>line rows. case sacct_row line of None \<Rightarrow> rows | Some (j, v) \<Rightarrow> job_put j v rows) (str_splitlines out) []"

definition sacct_args :: "int list \<Rightarrow> string list" where
  "sacct_args ids =
     [''sacct'', ''-j'', py_join '','' (map int_str ids), ''-X'', ''-n'', ''-P'', ''--format=JobID,State,ExitCode'']"

definition sacct_command :: "string option \<Rightarrow> int list \<Rightarrow> string list" where
  "sacct_command host ids =
     (case host of None \<Rightarrow> sacct_args ids | Some h \<Rightarrow> ssh_cmd h (py_join '' '' (sacct_args ids)))"

text \<open>\<open>None\<close>: the probe never returns.\<close>

definition probe_sacct :: "watch_env \<Rightarrow> nat \<Rightarrow> string option \<Rightarrow> int list \<Rightarrow> (job_rows \<times> string option) option" where
  "probe_sacct E round host ids =
     (case run_probe_cmd (host \<noteq> None) (we_run E round (sacct_command host ids)) of
        None \<Rightarrow> None
      | Some (ProbeFailed e) \<Rightarrow> Some ([], Some e)
      | Some (ProbeRan out err code) \<Rightarrow>
          if code \<noteq> 0
          then Some ([], Some (''sacct exit '' @ int_str code @ '': '' @ str_strip (we_decode E err)))
          else Some (sacct_states (we_decode E out), None))"

definition slurm_label :: "string option \<Rightarrow> int \<Rightarrow> string" where
  "slurm_label host job =
     (case host of None \<Rightarrow> ''slurm:'' @ int_str job | Some h \<Rightarrow> h @ '':slurm:'' @ int_str job)"

text \<open>The first word of a state: a cancelled job's names who cancelled it.\<close>

definition state_key :: "string \<Rightarrow> string" where
  "state_key state = (if state = [] then [] else case str_split state of [] \<Rightarrow> [] | w # _ \<Rightarrow> w)"

definition job_finished :: "job_rows \<Rightarrow> int \<Rightarrow> (string \<times> string) option" where
  "job_finished rows job =
     (case map_of rows job of
        None \<Rightarrow> None
      | Some (state, code) \<Rightarrow>
          if state_key state \<in> set slurm_active_states then None
          else if state_key state \<notin> set slurm_terminal_states then None
          else Some (state, code))"

lemma job_finished_Nil [simp]: "job_finished [] job = None"
  by (simp add: job_finished_def)

definition finished_label :: "string option \<Rightarrow> job_rows \<Rightarrow> int \<Rightarrow> string" where
  "finished_label host rows job =
     (case job_finished rows job of
        None \<Rightarrow> []
      | Some (state, code) \<Rightarrow> slurm_label host job @ '': '' @ state @ '' '' @ code)"

subsection \<open>The polling loops\<close>

definition ladder :: "nat \<Rightarrow> int" where
  "ladder step =
     (if step < length remote_probe_intervals then remote_probe_intervals ! step else remote_probe_plateau)"

lemma ladder_bounds: "10 \<le> ladder step" "ladder step \<le> 600"
proof -
  have "step < 6 \<Longrightarrow> 10 \<le> [10, 20, 40, 80, 160, 320 :: int] ! step \<and> [10, 20, 40, 80, 160, 320 :: int] ! step \<le> 600"
    by (auto simp: nth_Cons less_Suc_eq_0_disj split: nat.splits)
  then show "10 \<le> ladder step" "ladder step \<le> 600"
    by (auto simp: ladder_def remote_probe_intervals_def remote_probe_plateau_def)
qed

definition remote_sleep :: "watch_env \<Rightarrow> nat \<Rightarrow> int" where
  "remote_sleep E step = ladder step * second_us + int (we_noise E step)"

lemma remote_sleep_pos: "0 < remote_sleep E step"
  using ladder_bounds [of step] by (simp add: remote_sleep_def second_us_def)

text \<open>The clock after \<open>asyncio.sleep(min(sleep, time_to_fire))\<close>.\<close>

definition wakes_at :: "watch_env \<Rightarrow> nat \<Rightarrow> int \<Rightarrow> int \<Rightarrow> int \<Rightarrow> int" where
  "wakes_at E step sleep fire_at now = now + min sleep (fire_at - now) + int (we_late E step)"

lemma wakes_later: "0 < sleep \<Longrightarrow> now < fire_at \<Longrightarrow> now < wakes_at E step sleep fire_at now"
  by (simp add: wakes_at_def min_def)

lemma wakes_in_time: "int (we_late E step) \<le> L \<Longrightarrow> wakes_at E step sleep fire_at now \<le> fire_at + L"
  by (simp add: wakes_at_def min_def)

text \<open>How a waiter ends: what has finished, what is still watched, and when.\<close>

record 'w waited =
  wt_finished :: "string list"
  wt_alive :: 'w
  wt_end :: int

function wait_with_remote_probe :: "watch_env \<Rightarrow> int \<Rightarrow> nat \<Rightarrow> int \<Rightarrow> watched \<Rightarrow> string list \<Rightarrow> watched waited" where
  "wait_with_remote_probe E fire_at step now remaining finished =
     (if fire_at - now \<le> 0 then \<lparr>wt_finished = finished, wt_alive = remaining, wt_end = now\<rparr>
      else
        let now1 = wakes_at E step (remote_sleep E step) fire_at now
        in if fire_at - now1 \<le> 0 then \<lparr>wt_finished = finished, wt_alive = remaining, wt_end = now1\<rparr>
           else
             let (exited, remaining') = probe_remaining_remote_pids E step remaining;
                 now2 = now1 + int (we_took E step)
             in if remaining' = [] then \<lparr>wt_finished = finished @ exited, wt_alive = [], wt_end = now2\<rparr>
                else wait_with_remote_probe E fire_at (Suc step) now2 remaining' (finished @ exited))"
  by pat_completeness auto
termination
proof (relation "measure (\<lambda>(E, fire_at, step, now, remaining, finished). nat (fire_at - now))")
  fix E :: watch_env and fire_at :: int and step now remaining finished now1 x exited remaining' now2
  assume a: "\<not> fire_at - now \<le> 0" "now1 = wakes_at E step (remote_sleep E step) fire_at now"
    "now2 = now1 + int (we_took E step)"
  then show "((E, fire_at, Suc step, now2, remaining', finished @ exited), E, fire_at, step, now, remaining, finished)
      \<in> measure (\<lambda>(E, fire_at, step, now, remaining, finished). nat (fire_at - now))"
    using a wakes_later [OF remote_sleep_pos, of now fire_at E step E step] by auto
qed simp

declare wait_with_remote_probe.simps [simp del]

text \<open>
  One host's jobs. \<open>remaining\<close> is sorted. \<open>None\<close>: a probe never returned. A remote host that has
  answered nothing for too long ends the wait, its jobs marked as unreachable; an error text is
  never empty, and its first line is shown.
\<close>

datatype 'a group_end = Jobs_left 'a | Unreachable 'a int string

definition first_line :: "string \<Rightarrow> string" where
  "first_line e = (case str_splitlines e of [] \<Rightarrow> [] | l # _ \<Rightarrow> str_take 120 l)"

definition dark_too_long :: "string option \<Rightarrow> string option \<Rightarrow> int \<Rightarrow> bool" where
  "dark_too_long host failed dark =
     (failed \<noteq> None \<and> host \<noteq> None \<and> remote_sacct_unreachable_grace * second_us \<le> dark)"

definition group_sleep :: "watch_env \<Rightarrow> string option \<Rightarrow> nat \<Rightarrow> int" where
  "group_sleep E host step = (case host of None \<Rightarrow> sacct_poll_interval * second_us | Some _ \<Rightarrow> remote_sleep E step)"

lemma group_sleep_pos: "0 < group_sleep E host step"
  by (auto simp: group_sleep_def remote_sleep_pos second_us_def sacct_poll_interval_def split: option.splits)

function wait_sacct_loop ::
  "watch_env \<Rightarrow> string option \<Rightarrow> int \<Rightarrow> nat \<Rightarrow> int \<Rightarrow> int \<Rightarrow> int list \<Rightarrow> string list \<Rightarrow> int list group_end waited option" where
  "wait_sacct_loop E host fire_at step now last_success remaining finished =
     (case probe_sacct E step host remaining of
        None \<Rightarrow> None
      | Some (rows, failed) \<Rightarrow>
          let now1 = now + int (we_took E step);
              last_success' = (if failed = None then now1 else last_success);
              dark = now1 - last_success'
          in if dark_too_long host failed dark
             then Some \<lparr>wt_finished = finished, wt_alive = Unreachable remaining (dark div (60 * second_us)) (first_line (the failed)),
                        wt_end = now1\<rparr>
             else
               let done = filter (\<lambda>j. job_finished rows j \<noteq> None) remaining;
                   finished' = finished @ map (finished_label host rows) done;
                   remaining' = filter (\<lambda>j. job_finished rows j = None) remaining
               in if remaining' = [] \<or> fire_at - now1 \<le> 0
                  then Some \<lparr>wt_finished = finished', wt_alive = Jobs_left remaining', wt_end = now1\<rparr>
                  else wait_sacct_loop E host fire_at (Suc step)
                         (wakes_at E step (group_sleep E host step) fire_at now1)
                         last_success' remaining' finished')"
  by pat_completeness auto
termination
proof (relation "measure (\<lambda>(E, host, fire_at, step, now, last_success, remaining, finished). nat (fire_at - now))", goal_cases)
  case (2 E host fire_at step now last_success remaining finished res rows failed now1 last' dark jobs finished' remaining')
  then show ?case using wakes_later [OF group_sleep_pos, of now1 fire_at E step E host step] by auto
qed simp

declare wait_sacct_loop.simps [simp del]

fun group_labels :: "string option \<Rightarrow> int list group_end \<Rightarrow> string list" where
  "group_labels host (Jobs_left js) = map (slurm_label host) js"
| "group_labels host (Unreachable js minutes why) =
     map (\<lambda>j. slurm_label host j @ '' (unreachable '' @ int_str minutes @ ''m: '' @ why @ '')'') js"

text \<open>Without \<open>sacct\<close> the local group waits out the deadline.\<close>

definition wait_sacct_group ::
  "watch_env \<Rightarrow> bool \<Rightarrow> string option \<Rightarrow> int \<Rightarrow> int \<Rightarrow> int list \<Rightarrow> (string list \<times> string list) option" where
  "wait_sacct_group E sacct_available host fire_at now jobs =
     (let remaining = sort (remdups jobs) in
      if host = None \<and> \<not> sacct_available then Some ([], map (slurm_label host) remaining)
      else map_option (\<lambda>r. (wt_finished r, group_labels host (wt_alive r)))
             (wait_sacct_loop E host fire_at 0 now now remaining []))"

text \<open>The groups run side by side; their answers are joined in the order the hosts first occur.\<close>

definition in_order :: "'a list \<Rightarrow> 'a list" where
  "in_order xs = rev (remdups (rev xs))"

fun join_groups :: "('a list \<times> 'b list) option list \<Rightarrow> ('a list \<times> 'b list) option" where
  "join_groups [] = Some ([], [])"
| "join_groups (None # rs) = None"
| "join_groups (Some (f, a) # rs) = map_option (\<lambda>(fs, as). (f @ fs, a @ as)) (join_groups rs)"

definition jobs_of :: "(string option \<times> int) list \<Rightarrow> string option \<Rightarrow> int list" where
  "jobs_of targets host = map snd (filter (\<lambda>t. fst t = host) targets)"

definition wait_with_sacct ::
  "(string option \<Rightarrow> watch_env) \<Rightarrow> bool \<Rightarrow> int \<Rightarrow> int \<Rightarrow> (string option \<times> int) list \<Rightarrow> (string list \<times> string list) option" where
  "wait_with_sacct env sacct_available fire_at now targets =
     join_groups (map (\<lambda>host. wait_sacct_group (env host) sacct_available host fire_at now (jobs_of targets host))
                      (in_order (map fst targets)))"

subsection \<open>Local processes\<close>

text \<open>What \<open>pidfd_open\<close> answers for the n-th target, which also names its descriptor.\<close>

datatype pidfd_answer = Opened | Gone_at_start | Open_fails

text \<open>The labels of the gone ones and the open descriptors; a failing open leaves the earlier ones open.\<close>

fun open_pidfds :: "(nat \<Rightarrow> pidfd_answer) \<Rightarrow> nat \<Rightarrow> int list \<Rightarrow> string list \<Rightarrow> (nat \<times> int) list \<Rightarrow>
    (py_error + string list) \<times> (nat \<times> int) list" where
  "open_pidfds answer n [] finished fds = (Inr finished, fds)"
| "open_pidfds answer n (pid # pids) finished fds =
     (case answer n of
        Gone_at_start \<Rightarrow> open_pidfds answer (Suc n) pids (finished @ [int_str pid @ '' (gone at start)'']) fds
      | Open_fails \<Rightarrow> (Inl OSError, fds)
      | Opened \<Rightarrow> open_pidfds answer (Suc n) pids finished (fds @ [(n, pid)]))"

definition on_ready :: "nat \<Rightarrow> (nat \<times> int) list \<times> string list \<Rightarrow> (nat \<times> int) list \<times> string list" where
  "on_ready fd st =
     (case map_of (fst st) fd of
        None \<Rightarrow> st
      | Some pid \<Rightarrow> (filter (\<lambda>e. fst e \<noteq> fd) (fst st), snd st @ [int_str pid]))"

text \<open>\<open>ready\<close> are the descriptors reported readable before the deadline. The answer comes with the
descriptors left open.\<close>

definition wait_with_pidfd ::
  "(nat \<Rightarrow> pidfd_answer) \<Rightarrow> nat list \<Rightarrow> int list \<Rightarrow> (py_error + string list \<times> string list) \<times> nat list" where
  "wait_with_pidfd answer ready pids =
     (case open_pidfds answer 0 pids [] [] of
        (Inl e, fds) \<Rightarrow> (Inl e, map fst fds)
      | (Inr finished, fds) \<Rightarrow>
          (case fold on_ready ready (fds, finished) of
             (left, finished') \<Rightarrow> (Inr (finished', map (\<lambda>e. int_str (snd e)) left), [])))"

subsection \<open>All groups\<close>

datatype watch_kind = LOCAL_PID | REMOTE_PID | SLURM_JOB

fun kind_of :: "watch_target \<Rightarrow> watch_kind" where
  "kind_of (LocalPid pid) = LOCAL_PID"
| "kind_of (RemotePid host pid) = REMOTE_PID"
| "kind_of (SlurmJob host job) = SLURM_JOB"

definition local_pids :: "watch_target list \<Rightarrow> int list" where
  "local_pids ts = List.map_filter (\<lambda>t. case t of LocalPid p \<Rightarrow> Some p | _ \<Rightarrow> None) ts"

definition remote_pids :: "watch_target list \<Rightarrow> (string \<times> int) list" where
  "remote_pids ts = List.map_filter (\<lambda>t. case t of RemotePid h p \<Rightarrow> Some (h, p) | _ \<Rightarrow> None) ts"

definition slurm_jobs :: "watch_target list \<Rightarrow> (string option \<times> int) list" where
  "slurm_jobs ts = List.map_filter (\<lambda>t. case t of SlurmJob h j \<Rightarrow> Some (h, j) | _ \<Rightarrow> None) ts"

record surroundings =
  su_open :: "nat \<Rightarrow> pidfd_answer"
  su_ready :: "nat list"
  su_remote :: watch_env
  su_slurm :: "string option \<Rightarrow> watch_env"
  su_sacct :: bool

definition wait_kind :: "surroundings \<Rightarrow> int \<Rightarrow> int \<Rightarrow> watch_target list \<Rightarrow> watch_kind \<Rightarrow> (py_error + string list \<times> string list) option" where
  "wait_kind S fire_at now ts k =
     (case k of
        LOCAL_PID \<Rightarrow> Some (fst (wait_with_pidfd (su_open S) (su_ready S) (local_pids ts)))
      | REMOTE_PID \<Rightarrow>
          (let r = wait_with_remote_probe (su_remote S) fire_at 0 now (watched_pids (remote_pids ts)) []
           in Some (Inr (wt_finished r, watched_labels (wt_alive r))))
      | SLURM_JOB \<Rightarrow> map_option Inr (wait_with_sacct (su_slurm S) (su_sacct S) fire_at now (slurm_jobs ts)))"

definition raised_by :: "(py_error + 'a) option list \<Rightarrow> py_error option" where
  "raised_by rs = map_option (\<lambda>r. projl (the r)) (find (\<lambda>r. case r of Some (Inl _) \<Rightarrow> True | _ \<Rightarrow> False) rs)"

text \<open>
  \<open>_existing_wait\<close>: reason, finished, still alive. \<open>None\<close>: a waiter never ends. Only the local group
  raises, at its start; then the gather raises although the other groups go on.
\<close>

definition existing_wait ::
  "surroundings \<Rightarrow> int \<Rightarrow> int \<Rightarrow> watch_target list \<Rightarrow> (py_error + string \<times> string list \<times> string list) option" where
  "existing_wait S fire_at now ts =
     (if ts = [] then Some (Inr (''timeout'', [], []))
      else let results = map (wait_kind S fire_at now ts) (in_order (map kind_of ts))
           in case raised_by results of
                Some e \<Rightarrow> Some (Inl e)
              | None \<Rightarrow> map_option (\<lambda>(finished, alive).
                    Inr (if alive \<noteq> [] then ''timeout'' else ''completed'', finished, alive))
                  (join_groups (map (\<lambda>r. case r of Some (Inr g) \<Rightarrow> Some g | _ \<Rightarrow> None) results)))"

definition format_suffix :: "string \<Rightarrow> string list \<Rightarrow> string list \<Rightarrow> string" where
  "format_suffix reason finished alive =
     (let finished_part = py_join '', '' finished; alive_part = py_join '', '' alive in
      if reason = ''completed'' then '' (finished: '' @ finished_part @ '')''
      else if finished_part \<noteq> [] then '' (finished: '' @ finished_part @ ''; still alive: '' @ alive_part @ '')''
      else '' (still alive: '' @ alive_part @ '')'')"

subsection \<open>Rules for the loops\<close>

lemma remote_wait_rule:
  assumes "I step now remaining finished"
    and step: "\<And>step now rem fin exited rem'. I step now rem fin \<Longrightarrow> now < fire_at \<Longrightarrow>
      probe_remaining_remote_pids E step rem = (exited, rem') \<Longrightarrow>
      wakes_at E step (remote_sleep E step) fire_at now < fire_at \<Longrightarrow>
      I (Suc step) (wakes_at E step (remote_sleep E step) fire_at now + int (we_took E step)) rem' (fin @ exited)"
    and late: "\<And>step now rem fin. I step now rem fin \<Longrightarrow> now < fire_at \<Longrightarrow>
      Q \<lparr>wt_finished = fin, wt_alive = rem, wt_end = wakes_at E step (remote_sleep E step) fire_at now\<rparr>"
    and ended: "\<And>step now rem fin. I step now rem fin \<Longrightarrow> Q \<lparr>wt_finished = fin, wt_alive = rem, wt_end = now\<rparr>"
  shows "Q (wait_with_remote_probe E fire_at step now remaining finished)"
  using assms(1)
proof (induction "nat (fire_at - now)" arbitrary: step now remaining finished rule: less_induct)
  case less
  define now1 where "now1 = wakes_at E step (remote_sleep E step) fire_at now"
  define now2 where "now2 = now1 + int (we_took E step)"
  obtain exited rem' where pr: "probe_remaining_remote_pids E step remaining = (exited, rem')" by fastforce
  have eq: "wait_with_remote_probe E fire_at step now remaining finished =
     (if fire_at - now \<le> 0 then \<lparr>wt_finished = finished, wt_alive = remaining, wt_end = now\<rparr>
      else if fire_at - now1 \<le> 0 then \<lparr>wt_finished = finished, wt_alive = remaining, wt_end = now1\<rparr>
      else if rem' = [] then \<lparr>wt_finished = finished @ exited, wt_alive = [], wt_end = now2\<rparr>
      else wait_with_remote_probe E fire_at (Suc step) now2 rem' (finished @ exited))"
    by (subst wait_with_remote_probe.simps) (simp add: Let_def pr now1_def now2_def)
  show ?case
  proof (cases "fire_at \<le> now \<or> fire_at \<le> now1")
    case True
    then show ?thesis using ended [OF less.prems] late [OF less.prems] by (auto simp: eq now1_def)
  next
    case False
    then have I: "I (Suc step) now2 rem' (finished @ exited)"
      using step [OF less.prems _ pr] by (simp add: now1_def now2_def)
    have "nat (fire_at - now2) < nat (fire_at - now)"
      using False wakes_later [OF remote_sleep_pos, of now fire_at E step E step] by (simp add: now1_def now2_def)
    then show ?thesis using False less.hyps [OF _ I] ended [OF I] by (auto simp: eq)
  qed
qed

lemma sacct_wait_rule:
  assumes "wait_sacct_loop E host fire_at step now heard remaining finished = Some r" "I step now heard remaining finished"
    and step: "\<And>step now heard rem fin rows failed now1 heard'. I step now heard rem fin \<Longrightarrow>
      probe_sacct E step host rem = Some (rows, failed) \<Longrightarrow> now1 = now + int (we_took E step) \<Longrightarrow>
      heard' = (if failed = None then now1 else heard) \<Longrightarrow> \<not> dark_too_long host failed (now1 - heard') \<Longrightarrow> now1 < fire_at \<Longrightarrow>
      I (Suc step) (wakes_at E step (group_sleep E host step) fire_at now1) heard'
        (filter (\<lambda>j. job_finished rows j = None) rem)
        (fin @ map (finished_label host rows) (filter (\<lambda>j. job_finished rows j \<noteq> None) rem))"
    and dark: "\<And>step now heard rem fin rows failed now1. I step now heard rem fin \<Longrightarrow>
      probe_sacct E step host rem = Some (rows, Some failed) \<Longrightarrow> now1 = now + int (we_took E step) \<Longrightarrow>
      dark_too_long host (Some failed) (now1 - heard) \<Longrightarrow>
      Q \<lparr>wt_finished = fin, wt_alive = Unreachable rem ((now1 - heard) div (60 * second_us)) (first_line failed), wt_end = now1\<rparr>"
    and ended: "\<And>step now heard rem fin rows failed now1 heard'. I step now heard rem fin \<Longrightarrow>
      probe_sacct E step host rem = Some (rows, failed) \<Longrightarrow> now1 = now + int (we_took E step) \<Longrightarrow>
      heard' = (if failed = None then now1 else heard) \<Longrightarrow> \<not> dark_too_long host failed (now1 - heard') \<Longrightarrow>
      filter (\<lambda>j. job_finished rows j = None) rem = [] \<or> fire_at \<le> now1 \<Longrightarrow>
      Q \<lparr>wt_finished = fin @ map (finished_label host rows) (filter (\<lambda>j. job_finished rows j \<noteq> None) rem),
         wt_alive = Jobs_left (filter (\<lambda>j. job_finished rows j = None) rem), wt_end = now1\<rparr>"
  shows "Q r"
  using assms(1,2)
proof (induction "nat (fire_at - now)" arbitrary: step now heard remaining finished rule: less_induct)
  case less
  obtain rows failed where pr: "probe_sacct E step host remaining = Some (rows, failed)"
    using less.prems(1) by (subst (asm) wait_sacct_loop.simps) (auto split: option.splits)
  define now1 where "now1 = now + int (we_took E step)"
  define heard' where "heard' = (if failed = None then now1 else heard)"
  define rem' where "rem' = filter (\<lambda>j. job_finished rows j = None) remaining"
  define fin' where "fin' = finished @ map (finished_label host rows) (filter (\<lambda>j. job_finished rows j \<noteq> None) remaining)"
  define later where "later = wakes_at E step (group_sleep E host step) fire_at now1"
  have eq: "wait_sacct_loop E host fire_at step now heard remaining finished =
     (if dark_too_long host failed (now1 - heard')
      then Some \<lparr>wt_finished = finished, wt_alive = Unreachable remaining ((now1 - heard') div (60 * second_us)) (first_line (the failed)),
                 wt_end = now1\<rparr>
      else if rem' = [] \<or> fire_at - now1 \<le> 0 then Some \<lparr>wt_finished = fin', wt_alive = Jobs_left rem', wt_end = now1\<rparr>
      else wait_sacct_loop E host fire_at (Suc step) later heard' rem' fin')"
    by (subst wait_sacct_loop.simps) (simp add: Let_def pr now1_def heard'_def rem'_def fin'_def later_def)
  note I = less.prems(2)
  consider (dark) "dark_too_long host failed (now1 - heard')"
    | (ended) "\<not> dark_too_long host failed (now1 - heard')" "rem' = [] \<or> fire_at \<le> now1"
    | (again) "\<not> dark_too_long host failed (now1 - heard')" "rem' \<noteq> []" "now1 < fire_at"
    by linarith
  then show ?case
  proof cases
    case dark
    then obtain e where "failed = Some e" "heard' = heard" by (auto simp: dark_too_long_def heard'_def)
    then show ?thesis using dark assms(4) [OF I, of rows e now1] pr less.prems(1) by (simp add: eq now1_def)
  next
    case ended
    then show ?thesis using assms(5) [OF I pr now1_def heard'_def] less.prems(1) by (auto simp: eq rem'_def fin'_def)
  next
    case again
    have I': "I (Suc step) later heard' rem' fin'"
      using step [OF I pr now1_def heard'_def] again by (simp add: later_def rem'_def fin'_def)
    have "now1 < later" using again wakes_later [OF group_sleep_pos] by (simp add: later_def)
    then have "nat (fire_at - later) < nat (fire_at - now)" using again(3) by (simp add: now1_def)
    then show ?thesis using less.hyps [OF _ _ I'] less.prems(1) again by (simp add: eq)
  qed
qed

text \<open>A remote group's probes have a deadline each, so its wait ends.\<close>

lemma remote_probe_answers: "\<exists>rows failed. probe_sacct E round (Some h) ids = Some (rows, failed)"
  by (auto simp: probe_sacct_def run_probe_cmd_def split: command_answer.splits probe_run.splits)

lemma remote_sacct_ends: "\<exists>r. wait_sacct_loop E (Some h) fire_at step now heard remaining finished = Some r"
proof (induction "nat (fire_at - now)" arbitrary: step now heard remaining finished rule: less_induct)
  case less
  obtain rows failed where pr: "probe_sacct E step (Some h) remaining = Some (rows, failed)"
    using remote_probe_answers by blast
  let ?now1 = "now + int (we_took E step)"
  have "?now1 < fire_at \<Longrightarrow> nat (fire_at - wakes_at E step (group_sleep E (Some h) step) fire_at ?now1) < nat (fire_at - now)"
    using wakes_later [OF group_sleep_pos, of ?now1 fire_at E step E "Some h" step] by simp
  then show ?case
    using less by (subst wait_sacct_loop.simps) (simp add: pr Let_def not_le)
qed

subsection \<open>Deadlines\<close>

definition timely :: "watch_env \<Rightarrow> int \<Rightarrow> int \<Rightarrow> bool" where
  "timely E T L \<longleftrightarrow> (\<forall>i. int (we_took E i) \<le> T \<and> int (we_late E i) \<le> L \<and> int (we_noise E i) \<le> remote_probe_noise_max * second_us)"

lemma timelyD:
  assumes "timely E T L"
  shows "int (we_took E i) \<le> T" "int (we_late E i) \<le> L" "remote_sleep E i \<le> 610 * second_us" "0 \<le> T" "0 \<le> L"
proof -
  have t: "int (we_took E i) \<le> T" "int (we_late E i) \<le> L" "int (we_noise E i) \<le> 10 * second_us" for i
    using assms by (auto simp: timely_def remote_probe_noise_max_def)
  then show "int (we_took E i) \<le> T" "int (we_late E i) \<le> L" by blast+
  show "remote_sleep E i \<le> 610 * second_us" using t(3) [of i] ladder_bounds [of i] by (simp add: remote_sleep_def second_us_def)
  show "0 \<le> T" "0 \<le> L" using t(1,2) [of 0] by linarith+
qed

text \<open>
  The remote waits end by the deadline. Polling processes over ssh ends at the latest when the
  trigger is due, one probing round and one late wake-up later; so does polling the jobs of a
  remote cluster, whose probes have a deadline of their own even when the command hangs.
\<close>

theorem remote_waits_end_by_deadline:
  assumes "timely E T L" "now \<le> fire_at"
  shows "wt_end (wait_with_remote_probe E fire_at 0 now remaining []) \<le> fire_at + L + T \<and>
    (\<exists>r. wait_sacct_loop E (Some h) fire_at 0 now now jobs [] = Some r \<and> wt_end r \<le> fire_at + L + T)"
proof
  have wake: "wakes_at E i sleep fire_at t \<le> fire_at + L" for i sleep t
    by (rule wakes_in_time [OF timelyD(2) [OF assms(1)]])
  show "wt_end (wait_with_remote_probe E fire_at 0 now remaining []) \<le> fire_at + L + T"
  proof (rule remote_wait_rule [where I = "\<lambda>_ now _ _. now \<le> fire_at + L + T"])
    fix step now
    show "wakes_at E step (remote_sleep E step) fire_at now + int (we_took E step) \<le> fire_at + L + T"
      using wake [of step "remote_sleep E step" now] timelyD(1) [OF assms(1), of step] by linarith
    show "wt_end \<lparr>wt_finished = fin, wt_alive = rem, wt_end = wakes_at E step (remote_sleep E step) fire_at now\<rparr> \<le> fire_at + L + T"
      for fin and rem :: watched
      using add_increasing2 [OF timelyD(4) [OF assms(1)] wake [of step "remote_sleep E step" now]] by simp
  qed (use assms(2) timelyD(4,5) [OF assms(1)] in auto)
  obtain r where r: "wait_sacct_loop E (Some h) fire_at 0 now now jobs [] = Some r" using remote_sacct_ends by blast
  have "wt_end r \<le> fire_at + L + T"
  proof (rule sacct_wait_rule [OF r, where I = "\<lambda>_ now _ _ _. now \<le> fire_at + L"])
    show "now \<le> fire_at + L" using assms(2) timelyD(5) [OF assms(1)] by linarith
  qed (use wake timelyD(1) [OF assms(1)] in \<open>simp_all add: add_mono\<close>)
  then show "\<exists>r. wait_sacct_loop E (Some h) fire_at 0 now now jobs [] = Some r \<and> wt_end r \<le> fire_at + L + T" using r by blast
qed

text \<open>
  A remote cluster that answers nothing is reported. When every \<open>sacct\<close> probe of a host fails, the
  wait for its jobs ends within 900 seconds plus one longest sleep of the ladder and one round,
  naming all the jobs as unreachable, unless the trigger was due before; nothing is ever
  reported as finished.
\<close>

theorem unreachable_host_is_reported:
  assumes "timely E T L" "jobs \<noteq> []" "now \<le> fire_at"
    and "\<And>i ids. \<exists>e. probe_sacct E i (Some h) ids = Some ([], Some e)"
    and "wait_sacct_loop E (Some h) fire_at 0 now now jobs [] = Some r"
  shows "wt_finished r = [] \<and> wt_end r \<le> now + 1510 * second_us + L + T \<and>
    ((\<exists>minutes why. 15 \<le> minutes \<and> wt_alive r = Unreachable jobs minutes why) \<or>
     (fire_at \<le> wt_end r \<and> wt_alive r = Jobs_left jobs))"
proof -
  let ?Q = "\<lambda>r. wt_finished r = [] \<and> wt_end r \<le> now + 1510 * second_us + L + T \<and>
    ((\<exists>minutes why. 15 \<le> minutes \<and> wt_alive r = Unreachable jobs minutes why) \<or>
     (fire_at \<le> wt_end r \<and> wt_alive r = Jobs_left jobs))"
  let ?I = "\<lambda>(step :: nat) t heard rem fin. heard = now \<and> rem = jobs \<and> fin = ([] :: string list) \<and> t \<le> now + 1510 * second_us + L"
  note took = timelyD(1) [OF assms(1)]
  have silent: "rows = [] \<and> failed \<noteq> None" if "probe_sacct E step (Some h) rem = Some (rows, failed)" for step rem rows failed
    using assms(4) [of step rem] that by auto
  show "?Q r"
  proof (rule sacct_wait_rule [OF assms(5), where I = ?I])
    show "?I 0 now now jobs []" using timelyD(5) [OF assms(1)] by (simp add: second_us_def)
  next
    fix step t heard rem fin rows failed now1 heard'
    assume I: "?I step t heard rem fin" and pr: "probe_sacct E step (Some h) rem = Some (rows, failed)"
      and heard': "heard' = (if failed = None then now1 else heard)"
      and light: "\<not> dark_too_long (Some h) failed (now1 - heard')"
    have "now1 < now + 900 * second_us"
      using light heard' silent [OF pr] I by (simp add: dark_too_long_def remote_sacct_unreachable_grace_def)
    moreover have "wakes_at E step (group_sleep E (Some h) step) fire_at now1 \<le> now1 + 610 * second_us + L"
      using timelyD(2,3) [OF assms(1), of step] by (simp add: wakes_at_def group_sleep_def min_def)
    ultimately show "?I (Suc step) (wakes_at E step (group_sleep E (Some h) step) fire_at now1) heard'
        (filter (\<lambda>j. job_finished rows j = None) rem)
        (fin @ map (finished_label (Some h) rows) (filter (\<lambda>j. job_finished rows j \<noteq> None) rem))"
      using heard' silent [OF pr] I by (simp add: second_us_def)
  next
    fix step t heard rem fin rows failed now1
    assume I: "?I step t heard rem fin" and now1: "now1 = t + int (we_took E step)"
      and dark: "dark_too_long (Some h) (Some failed) (now1 - heard)"
    have "15 \<le> (now1 - heard) div (60 * second_us)"
      using dark by (simp add: dark_too_long_def remote_sacct_unreachable_grace_def second_us_def)
    then show "?Q \<lparr>wt_finished = fin, wt_alive = Unreachable rem ((now1 - heard) div (60 * second_us)) (first_line failed), wt_end = now1\<rparr>"
      using I now1 took [of step] by (simp add: second_us_def)
  next
    fix step t heard rem fin rows failed now1 heard'
    assume I: "?I step t heard rem fin" and pr: "probe_sacct E step (Some h) rem = Some (rows, failed)"
      and now1: "now1 = t + int (we_took E step)"
      and ends: "filter (\<lambda>j. job_finished rows j = None) rem = [] \<or> fire_at \<le> now1"
    then show "?Q \<lparr>wt_finished = fin @ map (finished_label (Some h) rows) (filter (\<lambda>j. job_finished rows j \<noteq> None) rem),
        wt_alive = Jobs_left (filter (\<lambda>j. job_finished rows j = None) rem), wt_end = now1\<rparr>"
      using silent [OF pr] I assms(2) took [of step] by (simp add: second_us_def)
  qed
qed

subsection \<open>Every target is reported once\<close>

fun target_label :: "watch_target \<Rightarrow> string" where
  "target_label (LocalPid pid) = int_str pid"
| "target_label (RemotePid host pid) = remote_label host pid"
| "target_label (SlurmJob host job) = slurm_label host job"

definition names :: "watch_target \<Rightarrow> string \<Rightarrow> bool" where
  "names t label \<longleftrightarrow> prefix (target_label t) label"

text \<open>The targets fall into those the finished labels name and those the others name, in order.\<close>

definition tells :: "watch_target list \<Rightarrow> string list \<Rightarrow> string list \<Rightarrow> bool" where
  "tells ts finished alive \<longleftrightarrow>
     (\<exists>F A. mset F + mset A = mset ts \<and> list_all2 names F finished \<and> list_all2 names A alive)"

lemma tellsI: "mset F + mset A = mset ts \<Longrightarrow> list_all2 names F finished \<Longrightarrow> list_all2 names A alive \<Longrightarrow> tells ts finished alive"
  unfolding tells_def by blast

lemma names_simps [simp]:
  "names (LocalPid p) (int_str p)" "names (LocalPid p) (int_str p @ x)" "names (RemotePid h p) (remote_label h p)"
  "names (SlurmJob g j) (slurm_label g j)" "names (SlurmJob g j) (slurm_label g j @ x)"
  by (simp_all add: names_def)

lemma names_map: "(\<And>x. x \<in> set xs \<Longrightarrow> names (t x) (l x)) \<Longrightarrow> list_all2 names (map t xs) (map l xs)"
  by (simp add: list_all2_map1 list_all2_map2 list_all2_same)

lemma tells_mset: "tells ts f a \<Longrightarrow> mset ts = mset us \<Longrightarrow> tells us f a"
  unfolding tells_def by simp

lemma tells_append:
  assumes "tells ts f a" "tells us g b"
  shows "tells (ts @ us) (f @ g) (a @ b)"
proof -
  obtain F A where 1: "mset F + mset A = mset ts" "list_all2 names F f" "list_all2 names A a"
    using assms(1) unfolding tells_def by blast
  obtain G B where 2: "mset G + mset B = mset us" "list_all2 names G g" "list_all2 names B b"
    using assms(2) unfolding tells_def by blast
  have "mset (F @ G) + mset (A @ B) = (mset F + mset A) + (mset G + mset B)" by simp
  then have "mset (F @ G) + mset (A @ B) = mset (ts @ us)" unfolding 1(1) 2(1) by simp
  then show ?thesis using 1 2 by (intro tellsI [of "F @ G" "A @ B"]) (simp_all add: list_all2_appendI)
qed

lemma join_groups_tell:
  assumes "join_groups rs = Some (f, a)" "list_all2 (\<lambda>ts r. \<forall>g b. r = Some (g, b) \<longrightarrow> tells ts g b) tss rs"
  shows "tells (concat tss) f a"
  using assms
proof (induction rs arbitrary: f a tss rule: join_groups.induct)
  case 1
  then show ?case by (auto intro: tellsI [of "[]" "[]"])
next
  case (3 g b rs)
  obtain fs as ts tss' where *: "join_groups rs = Some (fs, as)" "f = g @ fs" "a = b @ as" "tss = ts # tss'"
    "tells ts g b" "list_all2 (\<lambda>ts r. \<forall>g b. r = Some (g, b) \<longrightarrow> tells ts g b) tss' rs"
    using 3(2,3) by (auto simp: list_all2_Cons2)
  show ?case using tells_append [OF *(5) 3(1) [OF *(1,6)]] * by simp
qed simp

text \<open>Splitting a list by the keys that occur in it.\<close>

lemma mset_by_key:
  assumes "distinct ks" "set ks = g ` set xs"
  shows "mset (concat (map (\<lambda>k. filter (\<lambda>x. g x = k) xs) ks)) = mset xs"
proof -
  have "mset (concat (map (\<lambda>k. filter (\<lambda>x. g x = k) xs) ks)) = mset (filter (\<lambda>x. g x \<in> set ks) xs)"
    using assms(1)
  proof (induction ks)
    case (Cons k ks)
    have "mset (filter (\<lambda>x. g x \<in> set (k # ks)) xs) = mset (filter (\<lambda>x. g x = k) xs) + mset (filter (\<lambda>x. g x \<in> set ks) xs)"
      using Cons.prems by (induction xs) auto
    then show ?case using Cons by simp
  qed simp
  also have "filter (\<lambda>x. g x \<in> set ks) xs = xs" using assms(2) by (auto simp: filter_id_conv)
  finally show ?thesis .
qed

lemma in_order [simp]: "distinct (in_order xs)" "set (in_order xs) = set xs"
  by (simp_all add: in_order_def)

text \<open>Remote processes.\<close>

definition watched_targets :: "watched \<Rightarrow> watch_target list" where
  "watched_targets ws = concat (map (\<lambda>(h, ps). map (RemotePid h) ps) ws)"

lemma watched_names: "list_all2 names (watched_targets ws) (watched_labels ws)"
  by (induction ws) (auto simp: watched_targets_def watched_labels_def intro!: list_all2_appendI names_map)

lemma watch_pid_targets:
  "RemotePid h p \<notin> set (watched_targets ws) \<Longrightarrow>
   mset (watched_targets (watch_pid h p ws)) = add_mset (RemotePid h p) (mset (watched_targets ws))"
  by (induction ws) (auto simp: watched_targets_def)

lemma watched_pids_targets:
  "distinct pairs \<Longrightarrow> mset (watched_targets (watched_pids pairs)) = mset (map (\<lambda>(h, p). RemotePid h p) pairs)"
proof (induction pairs rule: rev_induct)
  case (snoc x pairs)
  obtain h p where x: "x = (h, p)" by fastforce
  have IH: "mset (watched_targets (watched_pids pairs)) = mset (map (\<lambda>(h, p). RemotePid h p) pairs)" using snoc by simp
  then have "set (watched_targets (watched_pids pairs)) = (\<lambda>(h, p). RemotePid h p) ` set pairs"
    by (metis list.set_map mset_eq_setD)
  then have "RemotePid h p \<notin> set (watched_targets (watched_pids pairs))" using snoc.prems x by auto
  then show ?case using watch_pid_targets IH x by (simp add: watched_pids_def)
qed (simp add: watched_pids_def watched_targets_def)

lemma probe_remaining_tells:
  assumes "probe_remaining_remote_pids E round ws = (exited, ws')"
  shows "\<exists>F. mset F + mset (watched_targets ws') = mset (watched_targets ws) \<and> list_all2 names F exited"
proof -
  define dead where "dead = (\<lambda>h p. fst (ssh_probe_pid E round h p) = P_DEAD)"
  have e: "exited = concat (map (\<lambda>(h, ps). map (remote_label h) (filter (dead h) ps)) ws)"
    "ws' = filter (\<lambda>(h, ps). ps \<noteq> []) (map (\<lambda>(h, ps). (h, filter (\<lambda>p. \<not> dead h p) ps)) ws)"
    using assms by (simp_all add: probe_remaining_remote_pids_def dead_def)
  let ?F = "concat (map (\<lambda>(h, ps). map (RemotePid h) (filter (dead h) ps)) ws)"
  have "list_all2 names ?F exited"
    unfolding e by (induction ws) (auto intro!: list_all2_appendI names_map)
  moreover have "mset ?F + mset (watched_targets (map (\<lambda>(h, ps). (h, filter (\<lambda>p. \<not> dead h p) ps)) ws)) = mset (watched_targets ws)"
  proof (induction ws)
    case (Cons a ws)
    obtain h ps where a: "a = (h, ps)" by fastforce
    have "image_mset (RemotePid h) (mset ps) =
        image_mset (RemotePid h) (mset (filter (dead h) ps)) + image_mset (RemotePid h) (mset (filter (\<lambda>p. \<not> dead h p) ps))"
      by (induction ps) auto
    then show ?case using Cons a by (simp add: watched_targets_def)
  qed (simp add: watched_targets_def)
  moreover have ne: "mset (watched_targets (filter (\<lambda>(h, ps). ps \<noteq> []) us)) = mset (watched_targets us)" for us
    by (induction us) (auto simp: watched_targets_def)
  have "mset (watched_targets ws') = mset (watched_targets (map (\<lambda>(h, ps). (h, filter (\<lambda>p. \<not> dead h p) ps)) ws))"
    unfolding e(2) by (rule ne)
  ultimately show ?thesis by (intro exI [of _ ?F]) simp
qed

lemma remote_wait_tells:
  assumes "r = wait_with_remote_probe E fire_at 0 now (watched_pids pairs) []" "distinct pairs"
  shows "tells (map (\<lambda>(h, p). RemotePid h p) pairs) (wt_finished r) (watched_labels (wt_alive r))"
proof -
  let ?I = "\<lambda>rem fin. \<exists>F. mset F + mset (watched_targets rem) = mset (map (\<lambda>(h, p). RemotePid h p) pairs) \<and> list_all2 names F fin"
  let ?Q = "\<lambda>r. ?I (wt_alive r) (wt_finished r)"
  have "?Q r"
    unfolding assms(1)
  proof (rule remote_wait_rule [where I = "\<lambda>_ _. ?I" and Q = ?Q])
    show "?I (watched_pids pairs) []" using watched_pids_targets [OF assms(2)] by (intro exI [of _ "[]"]) simp
  next
    fix step rem fin exited rem'
    assume "?I rem fin" "probe_remaining_remote_pids E step rem = (exited, rem')"
    then obtain F G where "mset F + mset (watched_targets rem) = mset (map (\<lambda>(h, p). RemotePid h p) pairs)" "list_all2 names F fin"
      "mset G + mset (watched_targets rem') = mset (watched_targets rem)" "list_all2 names G exited"
      using probe_remaining_tells by blast
    then show "?I rem' (fin @ exited)" by (intro exI [of _ "F @ G"]) (auto simp: add.assoc intro: list_all2_appendI)
  qed auto
  then show ?thesis using watched_names unfolding tells_def by blast
qed

text \<open>SLURM jobs.\<close>

lemma label_starts: "prefix a (a @ b)"
  by simp

lemma group_labels_names: "list_all2 names (map (SlurmJob host) js) (group_labels host (Jobs_left js))"
  "list_all2 names (map (SlurmJob host) js) (group_labels host (Unreachable js m why))"
  by (auto intro!: names_map)

lemma sacct_group_tells:
  assumes "wait_sacct_group E avail host fire_at now jobs = Some (f, a)" "distinct jobs"
  shows "tells (map (SlurmJob host) jobs) f a"
proof (cases "host = None \<and> \<not> avail")
  case True
  then have "f = []" "a = group_labels host (Jobs_left (sort (remdups jobs)))"
    using assms(1) by (auto simp: wait_sacct_group_def)
  then show ?thesis using group_labels_names(1) [of host "sort (remdups jobs)"] assms(2)
    by (intro tellsI [of "[]" "map (SlurmJob host) (sort (remdups jobs))"]) (simp_all add: distinct_remdups_id)
next
  case False
  obtain r where r: "wait_sacct_loop E host fire_at 0 now now (sort (remdups jobs)) [] = Some r"
    "f = wt_finished r" "a = group_labels host (wt_alive r)"
    using assms(1) False by (auto simp: wait_sacct_group_def Let_def split: if_splits)
  let ?I = "\<lambda>rem fin. \<exists>F. mset F + mset (map (SlurmJob host) rem) = mset (map (SlurmJob host) jobs) \<and> list_all2 names F fin"
  let ?Q = "\<lambda>r. \<exists>js F. mset F + mset (map (SlurmJob host) js) = mset (map (SlurmJob host) jobs) \<and> list_all2 names F (wt_finished r) \<and>
    list_all2 names (map (SlurmJob host) js) (group_labels host (wt_alive r))"
  have moved: "?I (filter (\<lambda>j. job_finished rows j = None) rem)
      (fin @ map (finished_label host rows) (filter (\<lambda>j. job_finished rows j \<noteq> None) rem))" if "?I rem fin" for rows rem fin
  proof -
    let ?d = "filter (\<lambda>j. job_finished rows j \<noteq> None) rem"
    note I = that
    obtain F where F: "mset F + mset (map (SlurmJob host) rem) = mset (map (SlurmJob host) jobs)" "list_all2 names F fin"
      using I by blast
    have "list_all2 names (map (SlurmJob host) ?d) (map (finished_label host rows) ?d)"
      by (rule names_map) (auto simp: finished_label_def)
    moreover have "image_mset (SlurmJob host) (mset rem) = image_mset (SlurmJob host) (mset ?d) +
        image_mset (SlurmJob host) (mset (filter (\<lambda>j. job_finished rows j = None) rem))"
      by (induction rem) auto
    ultimately show ?thesis using F
      by (intro exI [of _ "F @ map (SlurmJob host) ?d"]) (auto simp: add.assoc intro: list_all2_appendI)
  qed
  have "?Q r"
  proof (rule sacct_wait_rule [OF r(1), where I = "\<lambda>_ _ _. ?I"])
    show "?I (sort (remdups jobs)) []" using assms(2) by (intro exI [of _ "[]"]) (simp add: distinct_remdups_id)
  next
    fix step now heard rem fin rows failed now1
    assume "?I rem fin"
    then show "?Q \<lparr>wt_finished = fin, wt_alive = Unreachable rem ((now1 - heard) div (60 * second_us)) (first_line failed), wt_end = now1\<rparr>"
      using group_labels_names(2) by fastforce
  next
    fix step now heard rem fin rows failed now1 heard'
    assume I: "?I rem fin"
    show "?Q \<lparr>wt_finished = fin @ map (finished_label host rows) (filter (\<lambda>j. job_finished rows j \<noteq> None) rem),
        wt_alive = Jobs_left (filter (\<lambda>j. job_finished rows j = None) rem), wt_end = now1\<rparr>"
      using moved [OF I] group_labels_names(1) by fastforce
  qed (rule moved)
  then show ?thesis unfolding r(2,3) tells_def by blast
qed

lemma jobs_of_targets: "map (SlurmJob host) (jobs_of pairs host) = filter (\<lambda>t. t \<in> range (SlurmJob host)) (map (\<lambda>(h, j). SlurmJob h j) pairs)"
  by (induction pairs) (auto simp: jobs_of_def)

lemma wait_with_sacct_tells:
  assumes "wait_with_sacct env avail fire_at now pairs = Some (f, a)" "distinct pairs"
  shows "tells (map (\<lambda>(h, j). SlurmJob h j) pairs) f a"
proof -
  let ?hosts = "in_order (map fst pairs)"
  have d: "distinct (jobs_of pairs host)" for host
    using assms(2) unfolding jobs_of_def by (auto simp: distinct_map inj_on_def prod_eq_iff)
  have "tells (concat (map (\<lambda>host. map (SlurmJob host) (jobs_of pairs host)) ?hosts)) f a"
    using assms(1) unfolding wait_with_sacct_def
    by (rule join_groups_tell) (auto simp: list_all2_map1 list_all2_map2 list_all2_same intro: sacct_group_tells [OF _ d])
  moreover have "concat (map (\<lambda>host. map (SlurmJob host) (jobs_of pairs host)) ?hosts) =
      map (\<lambda>(h, j). SlurmJob h j) (concat (map (\<lambda>host. filter (\<lambda>t. fst t = host) pairs) ?hosts))"
    unfolding map_concat by (intro arg_cong [where f = concat]) (auto simp: jobs_of_def)
  moreover have "mset (concat (map (\<lambda>host. filter (\<lambda>t. fst t = host) pairs) ?hosts)) = mset pairs"
    by (rule mset_by_key) simp_all
  ultimately show ?thesis by (auto intro: tells_mset)
qed

text \<open>Local processes.\<close>

lemma open_pidfds_tells:
  assumes "open_pidfds answer n pids fin fds = (Inr fin', fds')" "list_all2 names F fin" "distinct (map fst fds)" "\<forall>e \<in> set fds. fst e < n"
  shows "distinct (map fst fds') \<and>
    (\<exists>F'. mset F' + mset (map (\<lambda>e. LocalPid (snd e)) fds') = mset F + mset (map (\<lambda>e. LocalPid (snd e)) fds) + mset (map LocalPid pids) \<and>
          list_all2 names F' fin')"
  using assms
proof (induction answer n pids fin fds arbitrary: F rule: open_pidfds.induct)
  case (2 answer n pid pids fin fds)
  show ?case
  proof (cases "answer n")
    case Opened
    then show ?thesis using 2(1) [OF Opened, of F] 2(3-6) by (auto simp: less_Suc_eq)
  next
    case Gone_at_start
    have "list_all2 names (F @ [LocalPid pid]) (fin @ [int_str pid @ '' (gone at start)''])"
      using 2(4) by (intro list_all2_appendI) simp_all
    then show ?thesis using 2(2) [OF Gone_at_start, of "F @ [LocalPid pid]"] 2(3,5,6) Gone_at_start by (auto simp: less_Suc_eq)
  qed (use 2(3) in simp)
qed auto

lemma on_ready_tells:
  assumes "list_all2 names F (snd st)" "distinct (map fst (fst st))"
  shows "distinct (map fst (fst (on_ready fd st))) \<and>
    (\<exists>F'. mset F' + mset (map (\<lambda>e. LocalPid (snd e)) (fst (on_ready fd st))) = mset F + mset (map (\<lambda>e. LocalPid (snd e)) (fst st)) \<and>
          list_all2 names F' (snd (on_ready fd st)))"
proof (cases "map_of (fst st) fd")
  case None
  then show ?thesis using assms by (auto simp: on_ready_def)
next
  case (Some pid)
  have "distinct (map fst (filter (\<lambda>e. fst e \<noteq> fd) (fst st)))" using assms(2) by (simp add: distinct_map_filter)
  moreover have split: "mset (fst st) = add_mset (fd, pid) (mset (filter (\<lambda>e. fst e \<noteq> fd) (fst st)))"
    using Some assms(2)
  proof (induction "fst st" arbitrary: st)
    case (Cons e es)
    then show ?case
    proof (cases "fst e = fd")
      case True
      then have "filter (\<lambda>e. fst e \<noteq> fd) es = es" using Cons.hyps(2) Cons.prems(2) by (auto simp: filter_id_conv image_iff Cons.hyps(2) [symmetric])
      then show ?thesis using True Cons.prems(1) by (cases e) (simp add: Cons.hyps(2) [symmetric])
    next
      case False
      then show ?thesis using Cons.hyps(1) [of "(es, snd st)"] Cons.prems by (simp add: Cons.hyps(2) [symmetric])
    qed
  qed simp
  have "image_mset (\<lambda>e. LocalPid (snd e)) (mset (fst st)) =
      add_mset (LocalPid pid) (image_mset (\<lambda>e. LocalPid (snd e)) (mset (filter (\<lambda>e. fst e \<noteq> fd) (fst st))))"
    using arg_cong [OF split, of "image_mset (\<lambda>e. LocalPid (snd e))"] by simp
  moreover have "list_all2 names (F @ [LocalPid pid]) (snd st @ [int_str pid])"
    using assms(1) by (intro list_all2_appendI) simp_all
  ultimately show ?thesis using Some by (auto simp: on_ready_def intro!: exI [of _ "F @ [LocalPid pid]"])
qed

lemma ready_fold_tells:
  assumes "list_all2 names F (snd st)" "distinct (map fst (fst st))"
  shows "\<exists>F'. mset F' + mset (map (\<lambda>e. LocalPid (snd e)) (fst (fold on_ready ready st))) = mset F + mset (map (\<lambda>e. LocalPid (snd e)) (fst st)) \<and>
          list_all2 names F' (snd (fold on_ready ready st))"
  using assms
proof (induction ready arbitrary: st F)
  case (Cons fd ready)
  obtain F' where F': "distinct (map fst (fst (on_ready fd st)))"
    "mset F' + mset (map (\<lambda>e. LocalPid (snd e)) (fst (on_ready fd st))) = mset F + mset (map (\<lambda>e. LocalPid (snd e)) (fst st))"
    "list_all2 names F' (snd (on_ready fd st))"
    using on_ready_tells [OF Cons.prems] by blast
  show ?case using Cons.IH [OF F'(3,1)] F'(2) by simp
qed auto

lemma wait_with_pidfd_tells:
  assumes "wait_with_pidfd answer ready pids = (Inr (f, a), left_open)"
  shows "tells (map LocalPid pids) f a"
proof -
  obtain fin fds where o: "open_pidfds answer 0 pids [] [] = (Inr fin, fds)"
    using assms by (auto simp: wait_with_pidfd_def split: prod.splits sum.splits)
  obtain F where F: "distinct (map fst fds)" "mset F + mset (map (\<lambda>e. LocalPid (snd e)) fds) = mset (map LocalPid pids)" "list_all2 names F fin"
    using open_pidfds_tells [OF o, of "[]"] by auto
  obtain left f' where l: "fold on_ready ready (fds, fin) = (left, f')" by fastforce
  have fa: "f = f'" "a = map (\<lambda>e. int_str (snd e)) left" using assms by (simp_all add: wait_with_pidfd_def o l)
  obtain F' where F': "mset F' + mset (map (\<lambda>e. LocalPid (snd e)) left) = mset F + mset (map (\<lambda>e. LocalPid (snd e)) fds)" "list_all2 names F' f'"
    using ready_fold_tells [of F "(fds, fin)" ready] F l by auto
  have "list_all2 names (map (\<lambda>e. LocalPid (snd e)) left) a"
    unfolding fa by (rule list_all2_all_nthI) simp_all
  then show ?thesis using F F' fa(1) by (intro tellsI) auto
qed

text \<open>
  C27. Every watched target is reported exactly once. However the probes answer, a wait that ends
  names each target either among the finished or among the still living ones, and calls itself
  completed exactly when none is left.
\<close>

theorem wait_reports_every_target_once:
  assumes "existing_wait S fire_at now ts = Some (Inr (reason, finished, alive))" "distinct ts" "ts \<noteq> []"
  shows "tells ts finished alive \<and> (reason = ''completed'' \<longleftrightarrow> alive = []) \<and> (reason = ''timeout'' \<longleftrightarrow> alive \<noteq> [])"
proof -
  let ?ks = "in_order (map kind_of ts)"
  let ?rs = "map (wait_kind S fire_at now ts) ?ks"
  have j: "join_groups (map (\<lambda>r. case r of Some (Inr g) \<Rightarrow> Some g | _ \<Rightarrow> None) ?rs) = Some (finished, alive)"
    "reason = (if alive \<noteq> [] then ''timeout'' else ''completed'')"
    using assms(1,3) by (auto simp: existing_wait_def Let_def split: option.splits)
  have one: "tells (filter (\<lambda>t. kind_of t = k) ts) g b" if "wait_kind S fire_at now ts k = Some (Inr (g, b))" for k g b
  proof (cases k)
    case LOCAL_PID
    have "filter (\<lambda>t. kind_of t = LOCAL_PID) us = map LocalPid (local_pids us)" for us
      by (induction us) (auto simp: local_pids_def map_filter_simps split: watch_target.splits)
    then show ?thesis using that LOCAL_PID wait_with_pidfd_tells [of "su_open S" "su_ready S" "local_pids ts" g b]
      by (cases "wait_with_pidfd (su_open S) (su_ready S) (local_pids ts)") (simp add: wait_kind_def)
  next
    case REMOTE_PID
    have f: "filter (\<lambda>t. kind_of t = REMOTE_PID) us = map (\<lambda>(h, p). RemotePid h p) (remote_pids us)" for us
      by (induction us) (auto simp: remote_pids_def map_filter_simps split: watch_target.splits)
    have "distinct (map (\<lambda>(h, p). RemotePid h p) (remote_pids ts))" unfolding f [symmetric] using assms(2) by simp
    then have "distinct (remote_pids ts)" by (simp add: distinct_map)
    then show ?thesis using that REMOTE_PID remote_wait_tells [OF refl, of "remote_pids ts" "su_remote S" fire_at now]
      by (auto simp: wait_kind_def Let_def f)
  next
    case SLURM_JOB
    have f: "filter (\<lambda>t. kind_of t = SLURM_JOB) us = map (\<lambda>(h, j). SlurmJob h j) (slurm_jobs us)" for us
      by (induction us) (auto simp: slurm_jobs_def map_filter_simps split: watch_target.splits)
    have "distinct (map (\<lambda>(h, j). SlurmJob h j) (slurm_jobs ts))" unfolding f [symmetric] using assms(2) by simp
    then have "distinct (slurm_jobs ts)" by (simp add: distinct_map)
    then show ?thesis using that SLURM_JOB wait_with_sacct_tells [of "su_slurm S" "su_sacct S" fire_at now "slurm_jobs ts" g b]
      by (auto simp: wait_kind_def f)
  qed
  have "tells (concat (map (\<lambda>k. filter (\<lambda>t. kind_of t = k) ts) ?ks)) finished alive"
    using j(1) by (rule join_groups_tell)
      (auto simp: list_all2_map1 list_all2_map2 list_all2_same intro: one split: option.splits sum.splits)
  moreover have "mset (concat (map (\<lambda>k. filter (\<lambda>t. kind_of t = k) ts) ?ks)) = mset ts"
    by (rule mset_by_key) simp_all
  ultimately show ?thesis using j(2) by (auto intro: tells_mset)
qed

subsection \<open>Concrete runs\<close>

definition dead_cluster :: watch_env where
  "dead_cluster = \<lparr>we_run = (\<lambda>_ _. Hangs), we_took = (\<lambda>_. 60000000), we_noise = (\<lambda>_. 0), we_late = (\<lambda>_. 0), we_decode = (\<lambda>s. s)\<rparr>"

lemma dead_cluster_timely: "timely dead_cluster 60000000 0"
  by (simp add: timely_def dead_cluster_def remote_probe_noise_max_def second_us_def)

lemma dead_cluster_fails: "\<exists>e. probe_sacct dead_cluster i (Some h) ids = Some ([], Some e)"
  by (simp add: probe_sacct_def run_probe_cmd_def dead_cluster_def)

theorem remote_waits_end_by_deadline_witness:
  "\<exists>r. wait_sacct_loop dead_cluster (Some ''h'') 3600000000 0 0 0 [7] [] = Some r \<and> wt_end r \<le> 3660000000"
  using remote_waits_end_by_deadline [OF dead_cluster_timely, of 0 3600000000 "[]" "''h''" "[7]"] by simp

theorem unreachable_host_is_reported_witness:
  "\<exists>r. wait_sacct_loop dead_cluster (Some ''h'') 3600000000 0 0 0 [7] [] = Some r \<and> wt_finished r = [] \<and>
     wt_end r \<le> 1570000000 \<and> (\<exists>minutes why. 15 \<le> minutes \<and> wt_alive r = Unreachable [7] minutes why)"
proof -
  obtain r where r: "wait_sacct_loop dead_cluster (Some ''h'') 3600000000 0 0 0 [7] [] = Some r"
    using remote_sacct_ends by blast
  show ?thesis
    using unreachable_host_is_reported [OF dead_cluster_timely _ _ dead_cluster_fails r] r by (auto simp: second_us_def)
qed

definition two_pids :: surroundings where
  "two_pids = \<lparr>su_open = (\<lambda>_. Opened), su_ready = [0], su_remote = dead_cluster, su_slurm = (\<lambda>_. dead_cluster), su_sacct = False\<rparr>"

theorem wait_reports_every_target_once_witness:
  "existing_wait two_pids 10 0 [LocalPid 1, LocalPid 2] = Some (Inr (''timeout'', [''1''], [''2''])) \<and>
   tells [LocalPid 1, LocalPid 2] [''1''] [''2'']"
proof -
  have run: "existing_wait two_pids 10 0 [LocalPid 1, LocalPid 2] = Some (Inr (''timeout'', [''1''], [''2'']))"
    by (simp add: existing_wait_def in_order_def wait_kind_def wait_with_pidfd_def two_pids_def local_pids_def
        map_filter_simps raised_by_def on_ready_def int_str_def digits_of.simps) code_simp
  show ?thesis using wait_reports_every_target_once [OF run] run by simp
qed

end
