(* ===== verification/Triggers.thy ===== *)
theory Triggers
  imports Trigger_Watch Session_World Memo "HOL-Library.List_Lexorder" "HOL-Library.Char_ord"
begin

text \<open>
  The manager of \<open>src/core/triggers.py\<close>: delayed triggers on disk, created, listed, cancelled,
  recovered after a restart, and fired when their wait (\<open>Trigger_Watch\<close>) is over by delivering an
  event down the succession chain and waking the master (\<open>Session_World\<close>).
\<close>

subsection \<open>Triggers on disk\<close>

datatype trigger_status = TG_PENDING | TG_FIRED | TG_CANCELLED

record trigger =
  tg_id :: string
  tg_session :: string
  tg_fire_at :: int
  tg_message :: string
  tg_created_at :: int
  tg_status :: trigger_status
  tg_fired_at :: "int option"
  tg_targets :: "watch_target list"
  tg_reason :: "string option"

text \<open>
  \<open>_migrate_legacy_watch_pids\<close> on the parsed object: \<open>watch_pids\<close> becomes \<open>watch_targets\<close>, and a
  target without a kind gets one. \<open>to_int\<close> is \<open>int(p)\<close>. A target that is no object has no item to
  assign to.
\<close>

definition legacy_targets :: "(json \<Rightarrow> int py) \<Rightarrow> json \<Rightarrow> json py" where
  "legacy_targets to_int legacy =
     (if \<not> jtruthy legacy then Inr (JArr [])
      else py_bind (jiter legacy) (\<lambda>ps.
           py_bind (py_map to_int ps) (\<lambda>pids.
             Inr (JArr (map (\<lambda>p. JObj [(''host'', JNull), (''pid'', JInt p)]) pids)))))"

definition convert_watch_pids :: "(json \<Rightarrow> int py) \<Rightarrow> dict \<Rightarrow> (dict \<times> bool) py" where
  "convert_watch_pids to_int data =
     (if \<not> dhas data ''watch_pids'' then Inr (data, False)
      else let rest = dict_del data ''watch_pids'' in
           if dhas rest ''watch_targets'' then Inr (rest, True)
           else py_bind (legacy_targets to_int (dget data ''watch_pids'')) (\<lambda>v.
                  Inr (dict_put rest ''watch_targets'' v, True)))"

fun kinded :: "json \<Rightarrow> (json \<times> bool) py" where
  "kinded (JObj t) =
     (if dhas t ''kind'' then Inr (JObj t, False)
      else Inr (JObj (dict_put t ''kind'' (JStr (if dget t ''host'' \<noteq> JNull then ''remote_pid'' else ''local_pid''))), True))"
| "kinded (JStr s) = (if contains ''kind'' s then Inr (JStr s, False) else Inl TypeError)"
| "kinded (JArr xs) = (if JStr ''kind'' \<in> set xs then Inr (JArr xs, False) else Inl TypeError)"
| "kinded v = Inl TypeError"

definition kinded_targets :: "dict \<Rightarrow> (dict \<times> bool) py" where
  "kinded_targets data =
     (let v = dget data ''watch_targets'' in
      if \<not> jtruthy v then Inr (data, False)
      else py_bind (jiter v) (\<lambda>ts.
           py_bind (py_map kinded ts) (\<lambda>rs.
             Inr (case v of JArr _ \<Rightarrow> dict_put data ''watch_targets'' (JArr (map fst rs)) | _ \<Rightarrow> data,
                  \<exists>r \<in> set rs. snd r))))"

definition migrate_fields :: "(json \<Rightarrow> int py) \<Rightarrow> dict \<Rightarrow> (dict \<times> bool) py" where
  "migrate_fields to_int data =
     py_bind (convert_watch_pids to_int data) (\<lambda>(data1, converted).
     py_bind (kinded_targets data1) (\<lambda>(data2, kinded_some). Inr (data2, converted \<or> kinded_some)))"

text \<open>\<open>validate\<close> is the schema's \<open>model_validate\<close>.\<close>

definition migrate_legacy_watch_pids :: "(json \<Rightarrow> int py) \<Rightarrow> (dict \<Rightarrow> trigger py) \<Rightarrow> dict \<Rightarrow> (trigger \<times> bool) py" where
  "migrate_legacy_watch_pids to_int validate data =
     py_bind (migrate_fields to_int data) (\<lambda>(data', migrated).
     py_bind (validate data') (\<lambda>tg. Inr (tg, migrated)))"

text \<open>What a file reads as: unparseable, or a trigger and whether the read migrated it.\<close>

datatype stored = Broken | Stored trigger bool

subsection \<open>The manager\<close>

text \<open>
  \<open>tr_files\<close> are the trigger files of a session by name (the trigger's id), \<open>tr_tasks\<close> the handles of
  \<open>_tasks\<close> with the trigger each waits for.
\<close>

record trigger_world =
  tr_world :: world
  tr_files :: "string \<Rightarrow> (string \<times> stored) list"
  tr_tasks :: "trigger list"

type_synonym 'a tact = "trigger_world \<Rightarrow> 'a outcome \<times> trigger_world"

definition tret :: "'a \<Rightarrow> 'a tact" where
  "tret a = (\<lambda>s. (Val a, s))"

definition tbind :: "'a tact \<Rightarrow> ('a \<Rightarrow> 'b tact) \<Rightarrow> 'b tact" where
  "tbind m f = (\<lambda>s. case m s of (Val a, s') \<Rightarrow> f a s' | (Exc msg, s') \<Rightarrow> (Exc msg, s') | (Killed, s') \<Rightarrow> (Killed, s'))"

definition on_world :: "'a act \<Rightarrow> 'a tact" where
  "on_world m = (\<lambda>s. case m (tr_world s) of (out, w) \<Rightarrow> (out, s\<lparr>tr_world := w\<rparr>))"

fun put_file :: "string \<Rightarrow> stored \<Rightarrow> (string \<times> stored) list \<Rightarrow> (string \<times> stored) list" where
  "put_file name v [] = [(name, v)]"
| "put_file name v ((n, u) # fs) = (if n = name then (n, v) # fs else (n, u) # put_file name v fs)"

definition write_file :: "string \<Rightarrow> string \<Rightarrow> trigger \<Rightarrow> unit tact" where
  "write_file sid name tg =
     tbind (on_world (durable (\<lambda>w. w))) (\<lambda>_ s.
       (Val (), s\<lparr>tr_files := (tr_files s)(sid := put_file name (Stored tg False) (tr_files s sid))\<rparr>))"

definition save_trigger :: "trigger \<Rightarrow> unit tact" where
  "save_trigger tg = write_file (tg_session tg) (tg_id tg) tg"

text \<open>\<open>None\<close> is \<open>FileNotFoundError\<close>.\<close>

definition load_trigger :: "string \<Rightarrow> string \<Rightarrow> trigger option tact" where
  "load_trigger sid tid = (\<lambda>s.
     case map_of (tr_files s sid) tid of
       None \<Rightarrow> (Val None, s)
     | Some Broken \<Rightarrow> (Exc ''unreadable trigger file'', s)
     | Some (Stored tg _) \<Rightarrow> (Val (Some tg), s))"

definition start_trigger :: "trigger \<Rightarrow> unit tact" where
  "start_trigger tg = (\<lambda>s. (Val (), s\<lparr>tr_tasks := filter (\<lambda>t. tg_id t \<noteq> tg_id tg) (tr_tasks s) @ [tg]\<rparr>))"

definition drop_task :: "string \<Rightarrow> unit tact" where
  "drop_task tid = (\<lambda>s. (Val (), s\<lparr>tr_tasks := filter (\<lambda>t. tg_id t \<noteq> tid) (tr_tasks s)\<rparr>))"

definition is_dormant_target :: "string \<Rightarrow> bool act" where
  "is_dormant_target sid =
     bind (resolve_successor_chain sid) (\<lambda>found.
       ret (case found of None \<Rightarrow> False | Some tail \<Rightarrow> sm_archived tail \<and> sm_successor tail = None))"

subsection \<open>Creating\<close>

datatype create_answer =
    Created trigger "(string \<times> string) list"
  | Archived_session_error string
  | Runtime_error string
  | Remote_verify_error string

record create_env =
  ce_env :: env
  ce_watch :: watch_env
  ce_repr :: "string \<Rightarrow> string"
  ce_pidfd :: bool
  ce_sacct :: bool

definition status_name :: "probe_status \<Rightarrow> string" where
  "status_name st = (case st of P_ALIVE \<Rightarrow> ''ALIVE'' | P_DEAD \<Rightarrow> ''DEAD'' | P_ERROR \<Rightarrow> ''ERROR'')"

definition verify_remote_targets :: "create_env \<Rightarrow> (string \<times> int) list \<Rightarrow> string option" where
  "verify_remote_targets C pids =
     (let bad = List.map_filter (\<lambda>(h, p).
            let (st, raw) = ssh_probe_pid (ce_watch C) 0 h p in
            if st \<noteq> P_ALIVE
            then Some (h @ '':'' @ int_str p @ '' -> '' @ status_name st @ '' ('' @ ce_repr C (str_strip raw) @ '')'')
            else None) pids
      in if bad = [] then None
         else Some (''verify-on-create failed for remote watch target(s): '' @ py_join ''; '' bad))"

fun str_put :: "string \<Rightarrow> string \<Rightarrow> (string \<times> string) list \<Rightarrow> (string \<times> string) list" where
  "str_put k v [] = [(k, v)]"
| "str_put k v ((k', u) # es) = (if k' = k then (k, v) # es else (k', u) # str_put k v es)"

definition observed_states :: "string \<Rightarrow> int list \<Rightarrow> job_rows \<Rightarrow> (string \<times> string) list \<Rightarrow> (string \<times> string) list" where
  "observed_states host jobs rows acc =
     fold (\<lambda>j. str_put (slurm_label (Some host) j)
                 (case map_of rows j of None \<Rightarrow> ''not-yet-registered'' | Some (state, _) \<Rightarrow> state)) jobs acc"

text \<open>The hosts in order; a host whose probe failed, else what was seen of its jobs.\<close>

fun probe_hosts :: "create_env \<Rightarrow> (string \<times> int) list \<Rightarrow> string list \<Rightarrow> (string \<times> string) list \<Rightarrow> string list \<Rightarrow>
    (string \<times> string) list \<times> string list" where
  "probe_hosts C targets [] observed bad = (observed, bad)"
| "probe_hosts C targets (h # hs) observed bad =
     (let jobs = sort (map snd (filter (\<lambda>t. fst t = h) targets)) in
      case probe_sacct (ce_watch C) 0 (Some h) jobs of
        Some (rows, None) \<Rightarrow> probe_hosts C targets hs (observed_states h jobs rows observed) bad
      | Some (_, Some e) \<Rightarrow> probe_hosts C targets hs observed (bad @ [h @ '' -> '' @ e])
      | None \<Rightarrow> probe_hosts C targets hs observed bad)"

definition verify_remote_slurm_targets :: "create_env \<Rightarrow> (string \<times> int) list \<Rightarrow> string + (string \<times> string) list" where
  "verify_remote_slurm_targets C targets =
     (case probe_hosts C targets (sort (remdups (map fst targets))) [] [] of
        (observed, bad) \<Rightarrow>
          if bad \<noteq> [] then Inl (''verify-on-create failed for remote SLURM host(s): '' @ py_join ''; '' bad)
          else Inr observed)"

definition remote_slurm :: "watch_target list \<Rightarrow> (string \<times> int) list" where
  "remote_slurm ts = List.map_filter (\<lambda>t. case t of SlurmJob (Some h) j \<Rightarrow> Some (h, j) | _ \<Rightarrow> None) ts"

text \<open>The checks before anything is written: the refusal, or what the clusters answered.\<close>

definition check_targets :: "create_env \<Rightarrow> watch_target list \<Rightarrow> create_answer + (string \<times> string) list" where
  "check_targets C ts =
     (if local_pids ts \<noteq> [] \<and> \<not> ce_pidfd C
      then Inl (Runtime_error ''pidfd_open unavailable: need Linux 5.3+ with kernel pidfd_open support'')
      else if (\<exists>t \<in> set (slurm_jobs ts). fst t = None) \<and> \<not> ce_sacct C
      then Inl (Runtime_error ''sacct unavailable: cannot watch a SLURM job on a host without slurm'')
      else case (if remote_pids ts = [] then None else verify_remote_targets C (remote_pids ts)) of
             Some msg \<Rightarrow> Inl (Remote_verify_error msg)
           | None \<Rightarrow>
               if remote_slurm ts = [] then Inr []
               else case verify_remote_slurm_targets C (remote_slurm ts) of
                      Inl msg \<Rightarrow> Inl (Remote_verify_error msg)
                    | Inr observed \<Rightarrow> Inr observed)"

definition create_trigger ::
  "create_env \<Rightarrow> string \<Rightarrow> int \<Rightarrow> string \<Rightarrow> watch_target list \<Rightarrow> int option \<Rightarrow> create_answer tact" where
  "create_trigger C sid delay message targets created_at =
     tbind (on_world (is_dormant_target sid)) (\<lambda>dormant.
       if dormant
       then tret (Archived_session_error (''session '' @ sid @ '' is archived with no successor; trigger rejected''))
       else case check_targets C targets of
              Inl refused \<Rightarrow> tret refused
            | Inr observed \<Rightarrow>
                tbind (on_world tick) (\<lambda>n. tbind (on_world tick) (\<lambda>k.
                  let tg = \<lparr>tg_id = e_id (ce_env C) k, tg_session = sid, tg_fire_at = e_now (ce_env C) n + delay * second_us,
                            tg_message = message,
                            tg_created_at = (case created_at of None \<Rightarrow> e_now (ce_env C) k | Some t \<Rightarrow> t), tg_status = TG_PENDING,
                            tg_fired_at = None, tg_targets = targets, tg_reason = None\<rparr>
                  in tbind (save_trigger tg) (\<lambda>_. tbind (start_trigger tg) (\<lambda>_. tret (Created tg observed))))))"

subsection \<open>Cancelling and recovering\<close>

text \<open>The answer of \<open>cancel_trigger\<close>: false when the file is missing (\<open>FileNotFoundError\<close>).\<close>

definition cancel_trigger :: "string \<Rightarrow> string \<Rightarrow> bool tact" where
  "cancel_trigger sid tid =
     tbind (load_trigger sid tid) (\<lambda>found.
       case found of
         None \<Rightarrow> tret False
       | Some tg \<Rightarrow>
           if tg_status tg \<noteq> TG_PENDING then tret True
           else tbind (save_trigger (tg\<lparr>tg_status := TG_CANCELLED\<rparr>)) (\<lambda>_. tbind (drop_task tid) (\<lambda>_. tret True)))"

text \<open>One file of the startup scan: a legacy one is rewritten once, a pending one waited for again.\<close>

definition recover_file :: "string \<Rightarrow> string \<times> stored \<Rightarrow> unit tact" where
  "recover_file sid f =
     (case snd f of
        Broken \<Rightarrow> tret ()
      | Stored tg migrated \<Rightarrow>
          tbind (if migrated then write_file sid (fst f) tg else tret ()) (\<lambda>_.
            if tg_status tg = TG_PENDING then start_trigger tg else tret ()))"

fun recover_files :: "string \<Rightarrow> (string \<times> stored) list \<Rightarrow> unit tact" where
  "recover_files sid [] = tret ()"
| "recover_files sid (f # fs) = tbind (recover_file sid f) (\<lambda>_. recover_files sid fs)"

fun recover_sessions :: "string list \<Rightarrow> unit tact" where
  "recover_sessions [] = tret ()"
| "recover_sessions (sid # sids) =
     tbind (\<lambda>s. recover_files sid (tr_files s sid) s) (\<lambda>_. recover_sessions sids)"

definition recover_pending :: "string list \<Rightarrow> unit tact" where
  "recover_pending session_dirs = recover_sessions session_dirs"

subsection \<open>Firing\<close>

definition reload_pending :: "trigger \<Rightarrow> trigger option tact" where
  "reload_pending tg =
     tbind (load_trigger (tg_session tg) (tg_id tg)) (\<lambda>found.
       tret (case found of None \<Rightarrow> None | Some fresh \<Rightarrow> if tg_status fresh = TG_PENDING then Some fresh else None))"

definition cancel_undeliverable :: "trigger \<Rightarrow> unit tact" where
  "cancel_undeliverable fresh =
     tbind (save_trigger (fresh\<lparr>tg_status := TG_CANCELLED\<rparr>)) (\<lambda>_. drop_task (tg_id fresh))"

definition scheduled_trigger_event :: "env \<Rightarrow> nat \<Rightarrow> string \<Rightarrow> dict" where
  "scheduled_trigger_event E n content =
     [(''type'', JStr ET_SCHEDULED_TRIGGER), (''content'', JStr content), (''timestamp'', JStr (e_iso E (e_now E n)))]"

definition trigger_message :: "trigger \<Rightarrow> string \<Rightarrow> string list \<Rightarrow> string list \<Rightarrow> string" where
  "trigger_message fresh reason finished alive =
     (if tg_targets fresh \<noteq> []
      then ''[Scheduled trigger fired | '' @ reason @ ''] '' @ tg_message fresh @ format_suffix reason finished alive
      else ''[Scheduled trigger fired] '' @ tg_message fresh)"

text \<open>
  Who won the race of the wait against the dormancy watchdog; a racer that failed surfaces its
  exception.
\<close>

datatype wait_end = Went_dormant | Waited string "string list" "string list" | Racer_raised string

text \<open>
  The code between the end of the wait and the wake: \<open>None\<close> when there is nothing to wake for, else
  the trigger as read from disk and its message, whose event the chain end has received.
\<close>

definition deliver_trigger :: "env \<Rightarrow> trigger \<Rightarrow> string \<Rightarrow> string list \<Rightarrow> string list \<Rightarrow> (trigger \<times> string) option tact" where
  "deliver_trigger E tg reason finished alive =
     tbind (reload_pending tg) (\<lambda>found.
       case found of
         None \<Rightarrow> tret None
       | Some fresh \<Rightarrow>
           (let msg = trigger_message fresh reason finished alive in
            tbind (on_world (resolve_successor_chain (tg_session fresh))) (\<lambda>tail.
              if tail = None then tbind (cancel_undeliverable fresh) (\<lambda>_. tret None)
              else tbind (on_world (is_dormant_target (tg_session fresh))) (\<lambda>dormant.
                if dormant then tbind (cancel_undeliverable fresh) (\<lambda>_. tret None)
                else tbind (on_world tick) (\<lambda>n.
                     tbind (on_world (deliver_to_successor E (tg_session fresh) (scheduled_trigger_event E n msg))) (\<lambda>delivered.
                       if delivered = None then tbind (cancel_undeliverable fresh) (\<lambda>_. tret None)
                       else tret (Some (fresh, msg))))))))"

definition wake_trigger :: "env \<Rightarrow> trigger \<Rightarrow> string \<Rightarrow> unit tact" where
  "wake_trigger E fresh msg = on_world (trigger_master E (tg_session fresh) msg False)"

definition stamp_fired :: "env \<Rightarrow> trigger \<Rightarrow> string \<Rightarrow> unit tact" where
  "stamp_fired E fresh reason =
     tbind (on_world tick) (\<lambda>n.
     tbind (save_trigger (fresh\<lparr>tg_status := TG_FIRED, tg_fired_at := Some (e_now E n), tg_reason := Some reason\<rparr>)) (\<lambda>_.
       drop_task (tg_id fresh)))"

definition wait_and_fire :: "env \<Rightarrow> trigger \<Rightarrow> wait_end \<Rightarrow> unit tact" where
  "wait_and_fire E tg ended =
     (case ended of
        Racer_raised msg \<Rightarrow> (\<lambda>s. (Exc msg, s))
      | Went_dormant \<Rightarrow>
          tbind (reload_pending tg) (\<lambda>found.
            case found of None \<Rightarrow> tret () | Some fresh \<Rightarrow> cancel_undeliverable fresh)
      | Waited reason finished alive \<Rightarrow>
          tbind (deliver_trigger E tg reason finished alive) (\<lambda>delivered.
            case delivered of
              None \<Rightarrow> tret ()
            | Some (fresh, msg) \<Rightarrow> tbind (wake_trigger E fresh msg) (\<lambda>_. stamp_fired E fresh reason)))"

text \<open>The watchdog looks every minute: the first look that finds the target dormant, before the wait
ends, wins.\<close>

definition dormancy_check_seconds :: int where "dormancy_check_seconds = 60"

definition race :: "(int \<Rightarrow> bool) \<Rightarrow> int \<Rightarrow> int \<Rightarrow> wait_end \<Rightarrow> wait_end" where
  "race dormant_at start wait_over ended =
     (if list_ex (\<lambda>k. dormant_at (start + int k * (dormancy_check_seconds * second_us)))
           [1 ..< Suc (nat ((wait_over - start) div (dormancy_check_seconds * second_us)))]
      then Went_dormant else ended)"

subsection \<open>Listing\<close>

text \<open>
  \<open>ls_memo\<close> keeps each file's parse under the file's signature, by session; \<open>ls_verdicts\<close> a whole
  listing under the directory's.
\<close>

type_synonym parsed_files = "(string \<times> (stat_sig \<times> trigger)) list"

record listing_state =
  ls_memo :: "(string, parsed_files) bounded_memo"
  ls_verdicts :: "(string, trigger list) stat_memo"

type_synonym trigger_dir = "(string \<times> stat_sig \<times> stored) list"

definition trigger_list_memo_session_limit :: nat where "trigger_list_memo_session_limit = 32"

definition new_listing_state :: listing_state where
  "new_listing_state =
     \<lparr>ls_memo = memo_new trigger_list_memo_session_limit, ls_verdicts = memo_new trigger_list_memo_session_limit\<rparr>"

definition memo_hit :: "parsed_files \<Rightarrow> string \<times> stat_sig \<times> stored \<Rightarrow> trigger option" where
  "memo_hit memo f =
     (case map_of memo (fst f) of
        None \<Rightarrow> None
      | Some (sig, tg) \<Rightarrow> if sig = fst (snd f) then Some tg else None)"

definition read_stale :: "parsed_files \<Rightarrow> trigger_dir \<Rightarrow> (string \<times> (stat_sig \<times> trigger)) list" where
  "read_stale memo files =
     List.map_filter (\<lambda>(name, sig, content).
       if memo_hit memo (name, sig, content) \<noteq> None then None
       else case content of Broken \<Rightarrow> None | Stored tg _ \<Rightarrow> Some (name, sig, tg)) files"

definition list_triggers :: "string \<Rightarrow> (stat_sig \<times> trigger_dir) option \<Rightarrow> listing_state \<Rightarrow> trigger list \<times> listing_state" where
  "list_triggers sid dir ls =
     (case dir of
        None \<Rightarrow> ([], \<lparr>ls_memo = memo_drop sid (ls_memo ls), ls_verdicts = memo_drop sid (ls_verdicts ls)\<rparr>)
      | Some (dsig, files) \<Rightarrow>
          (case stat_fresh sid dsig (ls_verdicts ls) of
             (Some verdict, v) \<Rightarrow> (verdict, ls\<lparr>ls_verdicts := v\<rparr>)
           | (None, v) \<Rightarrow>
               (let (found, m) = memo_get sid (ls_memo ls);
                    memo = filter (\<lambda>e. fst e \<in> fst ` set files) (case found of None \<Rightarrow> [] | Some memo \<Rightarrow> memo);
                    fresh = read_stale memo files;
                    triggers = sort_key (\<lambda>t. - tg_created_at t)
                                 (List.map_filter (memo_hit memo) files @ map (\<lambda>e. snd (snd e)) fresh)
                in (triggers,
                    \<lparr>ls_memo = memo_store sid (fresh @ filter (\<lambda>e. fst e \<notin> fst ` set fresh) memo) m,
                     ls_verdicts = stat_record sid dsig triggers v\<rparr>))))"

end
