(* ===== verification/Trigger_Laws.thy ===== *)
theory Trigger_Laws
  imports Triggers
begin

text \<open>
  What the trigger manager keeps: no wake of a session put to rest, nothing lost over kills and
  restarts and nothing fired whose event the chain end did not get, one migration per legacy file,
  and listings that are the directory.
\<close>

subsection \<open>Running the steps\<close>

lemma tbind_eq: "tbind m f s = (case fst (m s) of Val a \<Rightarrow> f a (snd (m s)) | Exc msg \<Rightarrow> (Exc msg, snd (m s)) | Killed \<Rightarrow> (Killed, snd (m s)))"
  by (simp add: tbind_def split: prod.split outcome.split)

lemma tbind_val [simp]: "m s = (Val a, s') \<Longrightarrow> tbind m f s = f a s'"
  by (simp add: tbind_def)

lemma tret_simp [simp]: "tret a s = (Val a, s)"
  by (simp add: tret_def)

lemma tbind_tret [simp]: "tbind (tret a) f = f a"
  by (rule ext) (simp add: tbind_def tret_def)

lemma resolve_reads: "snd (resolve_successor_chain sid w) = w"
  by (simp add: resolve_successor_chain_def bind_def get_session_def read_def raise_def ret_def split: option.split)

lemma dormant_reads: "snd (is_dormant_target sid w) = w"
  using resolve_reads [of sid w]
  by (auto simp: is_dormant_target_def bind_def ret_def split: prod.splits outcome.splits)

lemma on_world_eq: "on_world m s = (fst (m (tr_world s)), s\<lparr>tr_world := snd (m (tr_world s))\<rparr>)"
  by (simp add: on_world_def split: prod.split)

lemma dormant_resolves:
  assumes "fst (is_dormant_target sid w) = Val d"
  obtains found where "resolve_successor_chain sid w = (Val found, w)"
    "d = (case found of None \<Rightarrow> False | Some tail \<Rightarrow> sm_archived tail \<and> sm_successor tail = None)"
  using assms resolve_reads [of sid w] that
  by (auto simp: is_dormant_target_def bind_def ret_def split: prod.splits outcome.splits)

text \<open>Saving without a limit on the writes.\<close>

definition with_file :: "trigger \<Rightarrow> trigger_world \<Rightarrow> trigger_world" where
  "with_file tg s = s\<lparr>tr_files := (tr_files s)(tg_session tg := put_file (tg_id tg) (Stored tg False) (tr_files s (tg_session tg)))\<rparr>"

lemma save_trigger_free: "w_budget (tr_world s) = None \<Longrightarrow> save_trigger tg s = (Val (), with_file tg s)"
  by (cases s) (simp add: save_trigger_def write_file_def tbind_def on_world_def durable_def with_file_def)

lemma map_of_put_file: "map_of (put_file name v fs) = (map_of fs)(name \<mapsto> v)"
  by (induction fs) auto

definition file_of :: "trigger \<Rightarrow> trigger_world \<Rightarrow> stored option" where
  "file_of tg s = map_of (tr_files s (tg_session tg)) (tg_id tg)"

lemma file_of_with_file [simp]:
  "tg_session t = tg_session tg \<Longrightarrow> tg_id t = tg_id tg \<Longrightarrow> file_of tg (with_file t s) = Some (Stored t False)"
  by (simp add: file_of_def with_file_def map_of_put_file)

lemma tr_world_with_file [simp]: "tr_world (with_file t s) = tr_world s"
  by (simp add: with_file_def)

text \<open>The file of a pending trigger, as the waiter finds it.\<close>

definition still_pending :: "trigger \<Rightarrow> trigger \<Rightarrow> trigger_world \<Rightarrow> bool" where
  "still_pending tg fresh s \<longleftrightarrow>
     (\<exists>m. file_of tg s = Some (Stored fresh m)) \<and> tg_status fresh = TG_PENDING \<and>
     tg_session fresh = tg_session tg \<and> tg_id fresh = tg_id tg"

lemma reload_still_pending: "still_pending tg fresh s \<Longrightarrow> reload_pending tg s = (Val (Some fresh), s)"
  by (auto simp: still_pending_def file_of_def reload_pending_def load_trigger_def tbind_def)

lemma cancel_undeliverable_free:
  assumes "w_budget (tr_world s) = None"
  shows "cancel_undeliverable fresh s =
    (Val (), (with_file (fresh\<lparr>tg_status := TG_CANCELLED\<rparr>) s)\<lparr>tr_tasks := filter (\<lambda>t. tg_id t \<noteq> tg_id fresh) (tr_tasks s)\<rparr>)"
  using assms by (simp add: cancel_undeliverable_def tbind_def save_trigger_free drop_task_def with_file_def)

subsection \<open>No wake of the dormant\<close>

text \<open>
  C25. A session the user put to rest is not woken by a trigger. When the chain of the target ends in
  an archived session without a successor, a trigger that becomes due writes nothing to any
  chat, asks for no turn of the master, and is stamped cancelled; a new trigger for such a
  target is refused and leaves everything as it was.
\<close>

theorem dormant_target_is_never_woken:
  assumes "fst (is_dormant_target (tg_session tg) (tr_world s)) = Val True"
    and "still_pending tg fresh s" "w_budget (tr_world s) = None"
  shows "(let s' = snd (wait_and_fire E tg (Waited reason finished alive) s) in
      tr_world s' = tr_world s \<and> file_of tg s' = Some (Stored (fresh\<lparr>tg_status := TG_CANCELLED\<rparr>) False) \<and>
      tg_id tg \<notin> tg_id ` set (tr_tasks s')) \<and>
    (\<exists>msg. create_trigger C (tg_session tg) delay message targets created_at s = (Val (Archived_session_error msg), s))"
proof
  obtain found where f: "resolve_successor_chain (tg_session tg) (tr_world s) = (Val found, tr_world s)" "found \<noteq> None"
    using dormant_resolves [OF assms(1)] by (metis option.simps(4))
  have d: "is_dormant_target (tg_session tg) (tr_world s) = (Val True, tr_world s)"
    using assms(1) dormant_reads [of "tg_session tg" "tr_world s"] by (metis prod.collapse)
  have ids: "tg_session fresh = tg_session tg" "tg_id fresh = tg_id tg" using assms(2) by (simp_all add: still_pending_def)
  have "deliver_trigger E tg reason finished alive s =
     (Val None, (with_file (fresh\<lparr>tg_status := TG_CANCELLED\<rparr>) s)\<lparr>tr_tasks := filter (\<lambda>t. tg_id t \<noteq> tg_id fresh) (tr_tasks s)\<rparr>)"
    using reload_still_pending [OF assms(2)] f d ids cancel_undeliverable_free [OF assms(3)]
    by (simp add: deliver_trigger_def Let_def tbind_def on_world_def)
  then show "let s' = snd (wait_and_fire E tg (Waited reason finished alive) s) in
      tr_world s' = tr_world s \<and> file_of tg s' = Some (Stored (fresh\<lparr>tg_status := TG_CANCELLED\<rparr>) False) \<and>
      tg_id tg \<notin> tg_id ` set (tr_tasks s')"
    using ids by (auto simp: wait_and_fire_def tbind_def tret_def file_of_def with_file_def map_of_put_file)
  show "\<exists>msg. create_trigger C (tg_session tg) delay message targets created_at s = (Val (Archived_session_error msg), s)"
    using d by (simp add: create_trigger_def tbind_def on_world_def tret_def)
qed

subsection \<open>A deleted successor\<close>

text \<open>
  A trigger whose chain ends before a deleted successor is stuck. The chain end is found and is
  not dormant, but the delivery raises: the trigger is neither fired nor cancelled, its file
  still says pending, and its task is gone until the next restart, which repeats this.
\<close>

theorem trigger_to_deleted_successor_is_stuck:
  assumes "still_pending tg fresh s" "w_sessions (tr_world s) (tg_session tg) = Some m" "sm_id m = tg_session tg"
    and "sm_successor m = Some next" "w_sessions (tr_world s) next = None"
  shows "\<exists>msg s'. wait_and_fire E tg (Waited reason finished alive) s = (Exc msg, s') \<and>
    tr_files s' = tr_files s \<and> w_store (tr_world s') = w_store (tr_world s) \<and> w_wakes (tr_world s') = w_wakes (tr_world s)"
proof -
  have ids: "tg_session fresh = tg_session tg" using assms(1) by (simp add: still_pending_def)
  have r: "resolve_successor_chain (tg_session tg) (tr_world s) = (Val (Some m), tr_world s)"
    using dead_successor_refuses_delivery [OF assms(2-5)] by simp
  have d: "is_dormant_target (tg_session tg) (tr_world s) = (Val False, tr_world s)"
    using assms(4) by (simp add: is_dormant_target_def bind_def r ret_def)
  let ?w = "(tr_world s)\<lparr>w_clock := Suc (w_clock (tr_world s))\<rparr>"
  have "\<exists>msg. deliver_to_successor E (tg_session tg)
      (scheduled_trigger_event E (w_clock (tr_world s)) (trigger_message fresh reason finished alive)) ?w = (Exc msg, ?w)"
    using dead_successor_refuses_delivery [of ?w "tg_session tg" m "next"] assms(2-5) by simp
  then show ?thesis
    using reload_still_pending [OF assms(1)] r d ids
    by (auto simp: wait_and_fire_def deliver_trigger_def Let_def tbind_def on_world_def tick_def)
qed

subsection \<open>Never lost\<close>

text \<open>The event of a trigger got to the end of the chain of \<open>sid\<close>: one event more in that session's
chat, with its text and where it comes from, and nothing else in any chat.\<close>

definition received :: "string \<Rightarrow> string \<Rightarrow> world \<Rightarrow> world \<Rightarrow> bool" where
  "received sid msg w w' \<longleftrightarrow>
     (\<exists>tail t ev. fst (resolve_successor_chain sid w) = Val (Some tail) \<and> w_sessions w (sm_id tail) = Some t \<and>
        sm_successor t = None \<and>
        cs_files (w_store w') = (cs_files (w_store w))(sm_id t := cs_files (w_store w) (sm_id t) @ [ev]) \<and>
        dget ev ''type'' = JStr ET_SCHEDULED_TRIGGER \<and> dget ev ''content'' = JStr msg \<and>
        (sm_id t \<noteq> sid \<longrightarrow> dget ev ''origin_session_id'' = JStr sid))"

lemma received_clock: "received sid msg (w\<lparr>w_clock := n\<rparr>) w' = received sid msg w w'"
  by (simp add: received_def resolve_successor_chain_def bind_def get_session_def read_def raise_def ret_def
      split: option.split)

lemma stamped_keeps [simp]: "k \<noteq> ''id'' \<Longrightarrow> k \<noteq> ''timestamp'' \<Longrightarrow> dget (stamped a b ev) k = dget ev k"
  by (simp add: stamped_def Let_def)

lemma saved_event:
  "cs_files (snd (save_chat_event a b sid ev st)) = (cs_files st)(sid := cs_files st sid @ [stamped a b ev])"
  by (simp add: save_chat_event_def Let_def split: option.split sum.split)

lemma lift_val: "lift_py E r w = (Val a, w') \<Longrightarrow> r = Inr a \<and> w' = w"
  by (auto simp: lift_py_def ret_def raise_def split: sum.splits py_error.splits)

lemma persisted_event:
  assumes "persist_and_broadcast E sid ev w = (Val (), w')"
  shows "\<exists>a b. cs_files (w_store w') = (cs_files (w_store w))(sid := cs_files (w_store w) sid @ [stamped a b ev])"
proof -
  obtain r w1 where l: "store_load E sid w = (Val r, w1)" and w1: "store_save E sid ev w1 = (Val (), w')"
    using assms by (auto simp: persist_and_broadcast_def seq_def bind_def split: prod.splits outcome.splits)
  have f: "cs_files (w_store w1) = cs_files (w_store w)"
    using l load_files [of sid "w_store w"] by (auto simp: store_load_def Let_def split: prod.splits dest!: lift_val)
  define w2 where "w2 = w1\<lparr>w_clock := Suc (w_clock w1)\<rparr>"
  define st where "st = snd (save_chat_event (e_id E (w_clock w1)) (e_iso E (e_now E (w_clock w1))) sid ev (w_store w2))"
  have "w_store w' = st"
    using w1 unfolding store_save_def bind_def tick_def st_def w2_def
    by (auto simp: Let_def split: option.splits nat.splits prod.splits dest!: lift_val)
  then show ?thesis unfolding st_def using f by (auto simp: saved_event w2_def)
qed

lemma delivered_event:
  assumes "deliver_attempts E n sid ev w = (Val (Some t), w')"
    and "dget ev ''type'' = JStr ET_SCHEDULED_TRIGGER" "dget ev ''content'' = JStr msg"
  shows "received sid msg w w'"
  using assms(1)
proof (induction n)
  case (Suc n)
  obtain found w1 where r: "resolve_successor_chain sid w = (Val (Some found), w1)"
    using Suc.prems by (auto simp: bind_def ret_def split: prod.splits outcome.splits option.splits)
  then have w1: "w1 = w" using resolve_reads [of sid w] by simp
  obtain m where m: "w_sessions w (sm_id found) = Some m"
    using Suc.prems w1 by (auto simp: bind_def r ret_def get_session_def read_def split: option.splits)
  show ?case
  proof (cases "sm_successor m")
    case (Some x)
    then show ?thesis using Suc.prems Suc.IH m w1 by (simp add: bind_def r get_session_def read_def)
  next
    case None
    let ?ev = "if sm_id m \<noteq> sid then dict_put ev ''origin_session_id'' (JStr sid) else ev"
    have "persist_and_broadcast E (sm_id m) ?ev w = (Val (), w')"
      using Suc.prems None m w1 by (auto simp: bind_def r get_session_def read_def seq_def ret_def split: prod.splits outcome.splits)
    from persisted_event [OF this] obtain a b where
      "cs_files (w_store w') = (cs_files (w_store w))(sm_id m := cs_files (w_store w) (sm_id m) @ [stamped a b ?ev])" by blast
    then show ?thesis unfolding received_def
      using r m None assms(2,3)
      by (intro exI [of _ found] exI [of _ m] exI [of _ "stamped a b ?ev"]) simp
  qed
qed (simp add: raise_def)

text \<open>How the delivery of a pending trigger goes.\<close>

lemma deliver_trigger_cases:
  assumes "still_pending tg fresh s"
  obtains (failed) w out where "deliver_trigger E tg reason finished alive s = (out, s\<lparr>tr_world := w\<rparr>)" "\<And>a. out \<noteq> Val a"
  | (cancelled) w where "deliver_trigger E tg reason finished alive s =
      tbind (cancel_undeliverable fresh) (\<lambda>_. tret None) (s\<lparr>tr_world := w\<rparr>)"
  | (delivered) w where "deliver_trigger E tg reason finished alive s =
      (Val (Some (fresh, trigger_message fresh reason finished alive)), s\<lparr>tr_world := w\<rparr>)"
      "received (tg_session fresh) (trigger_message fresh reason finished alive) (tr_world s) w"
proof -
  let ?sid = "tg_session fresh" and ?w = "tr_world s" and ?msg = "trigger_message fresh reason finished alive"
  let ?rest = "\<lambda>tail. if tail = None then tbind (cancel_undeliverable fresh) (\<lambda>_. tret None)
     else tbind (on_world (is_dormant_target ?sid)) (\<lambda>dormant.
       if dormant then tbind (cancel_undeliverable fresh) (\<lambda>_. tret None)
       else tbind (on_world tick) (\<lambda>n.
            tbind (on_world (deliver_to_successor E ?sid (scheduled_trigger_event E n ?msg))) (\<lambda>delivered.
              if delivered = None then tbind (cancel_undeliverable fresh) (\<lambda>_. tret None)
              else tret (Some (fresh, ?msg)))))"
  have start: "deliver_trigger E tg reason finished alive s = tbind (on_world (resolve_successor_chain ?sid)) ?rest s"
    unfolding deliver_trigger_def tbind_eq [of "reload_pending tg"] reload_still_pending [OF assms] by (simp add: Let_def)
  have same: "s\<lparr>tr_world := ?w\<rparr> = s" by simp
  show thesis
  proof (cases "resolve_successor_chain ?sid ?w")
    case (Pair r w1)
    then have w1: "w1 = ?w" using resolve_reads [of ?sid ?w] by simp
    show thesis
    proof (cases "\<exists>tail. r = Val (Some tail)")
      case False
      then show thesis
        using failed [of "case r of Exc msg \<Rightarrow> Exc msg | _ \<Rightarrow> Killed" ?w] cancelled [of ?w] start Pair w1 by (cases r) (auto simp: tbind_eq [of "on_world _"] on_world_eq)
    next
      case True
      then have 1: "deliver_trigger E tg reason finished alive s =
         tbind (on_world (is_dormant_target ?sid)) (\<lambda>dormant.
           if dormant then tbind (cancel_undeliverable fresh) (\<lambda>_. tret None)
           else tbind (on_world tick) (\<lambda>n.
                tbind (on_world (deliver_to_successor E ?sid (scheduled_trigger_event E n ?msg))) (\<lambda>delivered.
                  if delivered = None then tbind (cancel_undeliverable fresh) (\<lambda>_. tret None)
                  else tret (Some (fresh, ?msg))))) s"
        using start Pair w1 by (auto simp: tbind_eq [of "on_world (resolve_successor_chain ?sid)"] on_world_eq)
      obtain r2 where r2: "is_dormant_target ?sid ?w = (r2, ?w)"
        using dormant_reads [of ?sid ?w] by (metis prod.collapse)
      show thesis
      proof (cases "r2 = Val False")
        case False
        then show thesis
          using failed [of "case r2 of Exc msg \<Rightarrow> Exc msg | _ \<Rightarrow> Killed" ?w] cancelled [of ?w] r2 unfolding 1
          by (cases r2) (auto simp: tbind_eq [of "on_world _"] on_world_eq)
      next
        case True
        let ?w' = "?w\<lparr>w_clock := Suc (w_clock ?w)\<rparr>"
        let ?ev = "scheduled_trigger_event E (w_clock ?w) ?msg"
        obtain r3 w3 where r3: "deliver_to_successor E ?sid ?ev ?w' = (r3, w3)" by fastforce
        have 2: "deliver_trigger E tg reason finished alive s =
            (case r3 of Val d \<Rightarrow> if d = None then tbind (cancel_undeliverable fresh) (\<lambda>_. tret None) (s\<lparr>tr_world := w3\<rparr>)
                                 else (Val (Some (fresh, ?msg)), s\<lparr>tr_world := w3\<rparr>)
             | Exc msg \<Rightarrow> (Exc msg, s\<lparr>tr_world := w3\<rparr>) | Killed \<Rightarrow> (Killed, s\<lparr>tr_world := w3\<rparr>))"
          using r2 True r3 unfolding 1
          by (simp add: tbind_eq [of "on_world _"] on_world_eq tick_def split: outcome.split)
        show thesis
        proof (cases r3)
          case (Val d)
          show thesis
          proof (cases d)
            case None
            then show thesis using cancelled [of w3] 2 Val by simp
          next
            case (Some t)
            have "received ?sid ?msg ?w' w3"
              by (rule delivered_event [OF r3 [unfolded deliver_to_successor_def Val Some]]) (simp_all add: scheduled_trigger_event_def)
            then show thesis using delivered [of w3] 2 Val Some received_clock by simp
          qed
        qed (use failed 2 in simp_all)
      qed
    qed
  qed
qed

lemma save_trigger_cases:
  obtains (killed) w where "save_trigger tg s = (Killed, s\<lparr>tr_world := w\<rparr>)"
  | (saved) w where "save_trigger tg s = (Val (), (with_file tg s)\<lparr>tr_world := w\<rparr>)"
proof (cases "w_budget (tr_world s)")
  case None
  have "save_trigger tg s = (Val (), (with_file tg s)\<lparr>tr_world := tr_world s\<rparr>)"
    using None by (simp add: save_trigger_def write_file_def tbind_def on_world_def durable_def with_file_def)
  then show thesis by (rule saved)
next
  case (Some n)
  show thesis
  proof (cases n)
    case 0
    then have "save_trigger tg s = (Killed, s\<lparr>tr_world := tr_world s\<rparr>)"
      using Some by (simp add: save_trigger_def write_file_def tbind_def on_world_def durable_def)
    then show thesis by (rule killed)
  next
    case (Suc k)
    then have "save_trigger tg s = (Val (), (with_file tg s)\<lparr>tr_world := (tr_world s)\<lparr>w_budget := Some k\<rparr>\<rparr>)"
      using Some by (simp add: save_trigger_def write_file_def tbind_def on_world_def durable_def with_file_def)
    then show thesis by (rule saved)
  qed
qed

lemma file_of_other [simp]: "file_of tg (s\<lparr>tr_world := w\<rparr>) = file_of tg s" "file_of tg (s\<lparr>tr_tasks := ts\<rparr>) = file_of tg s"
  by (simp_all add: file_of_def)

text \<open>A save of the waiter's copy: killed before it, or stamped.\<close>

lemma stamped_file:
  assumes "tbind (save_trigger t) (\<lambda>_. drop_task tid) s = (out, s')" "tg_session t = tg_session tg" "tg_id t = tg_id tg"
  shows "(out = Killed \<and> file_of tg s' = file_of tg s) \<or> (out = Val () \<and> file_of tg s' = Some (Stored t False))"
  using assms by (cases rule: save_trigger_cases [of t s]) (auto simp: tbind_def drop_task_def)

definition fired_at :: "env \<Rightarrow> trigger \<Rightarrow> trigger \<Rightarrow> wait_end \<Rightarrow> trigger_world \<Rightarrow> bool" where
  "fired_at E tg fresh ended s \<longleftrightarrow>
     (\<exists>reason finished alive s1. ended = Waited reason finished alive \<and>
        (let msg = trigger_message fresh reason finished alive in
         deliver_trigger E tg reason finished alive s = (Val (Some (fresh, msg)), s1) \<and>
         received (tg_session fresh) msg (tr_world s) (tr_world s1) \<and> fst (wake_trigger E fresh msg s1) = Val ()))"

text \<open>
  C24. A trigger is never lost and never fired without its event. Whenever the server is killed while
  a pending trigger fires, its file still says pending, so that the next start waits for it again;
  and a file that says fired belongs to a trigger whose event, with its message, is the newest in
  the chat of the session at the end of its target's chain, which its master was then asked to
  take up.
\<close>

theorem trigger_is_never_lost:
  assumes "still_pending tg fresh s" "wait_and_fire E tg ended s = (out, s')"
  shows "(out = Killed \<longrightarrow> file_of tg s' = file_of tg s) \<and>
    (file_of tg s' = file_of tg s \<or> file_of tg s' = Some (Stored (fresh\<lparr>tg_status := TG_CANCELLED\<rparr>) False) \<or>
     (\<exists>t. file_of tg s' = Some (Stored t False) \<and> tg_status t = TG_FIRED \<and> out = Val () \<and> fired_at E tg fresh ended s))"
proof -
  have ids: "tg_session fresh = tg_session tg" "tg_id fresh = tg_id tg" using assms(1) by (simp_all add: still_pending_def)
  have cancel: "(out = Killed \<and> file_of tg s2 = file_of tg s1) \<or>
      (out = Val () \<and> file_of tg s2 = Some (Stored (fresh\<lparr>tg_status := TG_CANCELLED\<rparr>) False))"
    if "cancel_undeliverable fresh s1 = (out, s2)" for s1 s2 and out :: "unit outcome"
    using stamped_file [OF that [unfolded cancel_undeliverable_def], of tg] ids by simp
  have cancel': "(out = Killed \<and> file_of tg s2 = file_of tg s1) \<or>
      (out = Val None \<and> file_of tg s2 = Some (Stored (fresh\<lparr>tg_status := TG_CANCELLED\<rparr>) False))"
    if "tbind (cancel_undeliverable fresh) (\<lambda>_. tret None) s1 = (out, s2)" for s1 s2 and out :: "(trigger \<times> string) option outcome"
    using that cancel [of s1 "fst (cancel_undeliverable fresh s1)" "snd (cancel_undeliverable fresh s1)"]
    by (auto simp: tbind_def split: prod.splits outcome.splits)
  show ?thesis
  proof (cases ended)
    case Went_dormant
    then show ?thesis
      using assms(2) cancel [of s out s'] by (auto simp: wait_and_fire_def tbind_def reload_still_pending [OF assms(1)])
  next
    case (Racer_raised msg)
    then show ?thesis using assms(2) by (simp add: wait_and_fire_def)
  next
    case (Waited reason finished alive)
    show ?thesis
    proof (cases rule: deliver_trigger_cases [OF assms(1), of E reason finished alive, case_names failed cancelled delivered])
      case (failed w d)
      then show ?thesis using assms(2) Waited by (cases d) (auto simp: wait_and_fire_def tbind_def)
    next
      case (cancelled w)
      obtain d s1 where d: "tbind (cancel_undeliverable fresh) (\<lambda>_. tret None) (s\<lparr>tr_world := w\<rparr>) = (d :: (trigger \<times> string) option outcome, s1)" by fastforce
      then show ?thesis using assms(2) Waited cancel' [OF d] cancelled
        by (auto simp: wait_and_fire_def tbind_def [of "deliver_trigger E tg reason finished alive"] tret_def)
    next
      case (delivered w1)
      let ?msg = "trigger_message fresh reason finished alive"
      define s1 where "s1 = s\<lparr>tr_world := w1\<rparr>"
      have x: "deliver_trigger E tg reason finished alive s = (Val (Some (fresh, ?msg)), s1)" "file_of tg s1 = file_of tg s"
        using delivered by (simp_all add: s1_def)
      obtain r s2 where w: "wake_trigger E fresh ?msg s1 = (r, s2)" by fastforce
      then have s2: "file_of tg s2 = file_of tg s" using x(2) by (auto simp: wake_trigger_def on_world_def split: prod.splits)
      have fired: "fired_at E tg fresh ended s" if "r = Val ()"
        unfolding fired_at_def Let_def
        by (intro exI [of _ reason] exI [of _ finished] exI [of _ alive] exI [of _ s1])
          (use x(1) Waited delivered(2) w that in \<open>simp add: s1_def\<close>)
      show ?thesis
      proof (cases "r = Val ()")
        case True
        let ?n = "w_clock (tr_world s2)"
        let ?t = "fresh\<lparr>tg_status := TG_FIRED, tg_fired_at := Some (e_now E ?n), tg_reason := Some reason\<rparr>"
        have "tbind (save_trigger ?t) (\<lambda>_. drop_task (tg_id fresh))
            (s2\<lparr>tr_world := (tr_world s2)\<lparr>w_clock := Suc ?n\<rparr>\<rparr>) = (out, s')"
          using assms(2) Waited x(1) w True by (simp add: wait_and_fire_def stamp_fired_def tbind_def [of "on_world tick"] on_world_def tick_def)
        then show ?thesis using stamped_file [of ?t "tg_id fresh" _ out s' tg] ids s2 fired [OF True] by fastforce
      next
        case False
        then show ?thesis using assms(2) Waited x(1) w s2
          by (cases r) (auto simp: wait_and_fire_def tbind_def)
      qed
    qed
  qed
qed

subsection \<open>Recovery\<close>

definition pending_in :: "(string \<times> stored) list \<Rightarrow> string set" where
  "pending_in fs = {tg_id tg | name tg m. (name, Stored tg m) \<in> set fs \<and> tg_status tg = TG_PENDING}"

fun modern :: "stored \<Rightarrow> stored" where
  "modern Broken = Broken"
| "modern (Stored tg m) = Stored tg False"

lemma write_file_free:
  "w_budget (tr_world s) = None \<Longrightarrow>
   write_file sid name tg s = (Val (), s\<lparr>tr_files := (tr_files s)(sid := put_file name (Stored tg False) (tr_files s sid))\<rparr>)"
  by (simp add: write_file_def tbind_def on_world_def durable_def)

lemma put_file_modern:
  "distinct (map fst fs) \<Longrightarrow> (name, v) \<in> set fs \<Longrightarrow>
   put_file name u fs = map (\<lambda>f. if fst f = name then (name, u) else f) fs"
  by (induction fs) (force simp: image_iff intro!: map_idI [symmetric])+

lemma recover_file_free:
  assumes "w_budget (tr_world s) = None" "distinct (map fst (tr_files s sid))" "f \<in> set (tr_files s sid)"
  shows "\<exists>s'. recover_file sid f s = (Val (), s') \<and> tr_world s' = tr_world s \<and>
    tr_files s' = (tr_files s)(sid := map (\<lambda>g. if fst g = fst f then (fst g, modern (snd g)) else g) (tr_files s sid)) \<and>
    tg_id ` set (tr_tasks s') = tg_id ` set (tr_tasks s) \<union> pending_in [f]"
proof (cases "snd f")
  case Broken
  have "g = f" if "g \<in> set (tr_files s sid)" "fst g = fst f" for g
    using assms(2,3) that by (auto simp: distinct_map inj_on_def)
  then have "map (\<lambda>g. if fst g = fst f then (fst g, modern (snd g)) else g) (tr_files s sid) = tr_files s sid"
    using Broken by (intro map_idI) (auto simp: prod_eq_iff)
  then show ?thesis using Broken by (auto simp: recover_file_def pending_in_def)
next
  case (Stored tg m)
  obtain name where f: "f = (name, Stored tg m)" using Stored by (cases f) simp
  have eq: "g = f" if "g \<in> set (tr_files s sid)" "fst g = name" for g
    using assms(2,3) that f by (auto simp: distinct_map inj_on_def)
  have val: "b = Stored tg m" if "(name, b) \<in> set (tr_files s sid)" for b
    using eq [of "(name, b)"] that f by simp
  let ?fs = "map (\<lambda>g. if fst g = fst f then (fst g, modern (snd g)) else g) (tr_files s sid)"
  have fs: "?fs = (if m then put_file name (Stored tg False) (tr_files s sid) else tr_files s sid)"
  proof (cases m)
    case True
    then show ?thesis using put_file_modern [OF assms(2), of name "Stored tg m" "Stored tg False"] assms(3) f
      by (auto intro!: map_cong dest!: val)
  next
    case False
    then show ?thesis using f by (auto intro!: map_idI dest!: val)
  qed
  have "\<exists>s1. (if m then write_file sid name tg else tret ()) s = (Val (), s1) \<and> tr_world s1 = tr_world s \<and>
      tr_tasks s1 = tr_tasks s \<and> tr_files s1 = (tr_files s)(sid := ?fs)"
    unfolding fs by (cases m) (simp_all add: write_file_free [OF assms(1)])
  then obtain s1 where s1: "(if m then write_file sid name tg else tret ()) s = (Val (), s1)" "tr_world s1 = tr_world s"
      "tr_tasks s1 = tr_tasks s" "tr_files s1 = (tr_files s)(sid := ?fs)"
    by blast
  have ids: "tg_id ` set (filter (\<lambda>t. tg_id t \<noteq> tg_id tg) ts @ [tg]) = insert (tg_id tg) (tg_id ` set ts)" for ts
    by auto
  show ?thesis
    using s1 f ids by (cases "tg_status tg = TG_PENDING")
      (auto simp: recover_file_def tbind_eq start_trigger_def pending_in_def)
qed

lemma recover_files_free:
  assumes "w_budget (tr_world s) = None" "distinct (map fst (tr_files s sid))" "set (map fst fs) \<subseteq> set (map fst (tr_files s sid))"
    and "\<forall>f \<in> set fs. f \<in> set (tr_files s sid)" "distinct (map fst fs)"
  shows "\<exists>s'. recover_files sid fs s = (Val (), s') \<and> tr_world s' = tr_world s \<and>
    tr_files s' = (tr_files s)(sid := map (\<lambda>g. if fst g \<in> fst ` set fs then (fst g, modern (snd g)) else g) (tr_files s sid)) \<and>
    tg_id ` set (tr_tasks s') = tg_id ` set (tr_tasks s) \<union> pending_in fs"
  using assms
proof (induction fs arbitrary: s)
  case Nil
  then show ?case by (simp add: pending_in_def)
next
  case (Cons f fs)
  obtain s1 where s1: "recover_file sid f s = (Val (), s1)" "tr_world s1 = tr_world s"
    "tr_files s1 = (tr_files s)(sid := map (\<lambda>g. if fst g = fst f then (fst g, modern (snd g)) else g) (tr_files s sid))"
    "tg_id ` set (tr_tasks s1) = tg_id ` set (tr_tasks s) \<union> pending_in [f]"
    using recover_file_free [of s sid f] Cons.prems by auto
  have names: "map fst (tr_files s1 sid) = map fst (tr_files s sid)" unfolding s1(3) by (auto simp: comp_def intro!: map_cong)
  have "\<forall>g \<in> set fs. g \<in> set (tr_files s1 sid)"
    unfolding s1(3) using Cons.prems(4,5) by (auto simp: image_iff)
  then have "\<exists>s2. recover_files sid fs s1 = (Val (), s2) \<and> tr_world s2 = tr_world s1 \<and>
    tr_files s2 = (tr_files s1)(sid := map (\<lambda>g. if fst g \<in> fst ` set fs then (fst g, modern (snd g)) else g) (tr_files s1 sid)) \<and>
    tg_id ` set (tr_tasks s2) = tg_id ` set (tr_tasks s1) \<union> pending_in fs"
    using Cons.prems s1(2) names by (intro Cons.IH) (auto simp: image_iff)
  then obtain s2 where s2: "recover_files sid fs s1 = (Val (), s2)" "tr_world s2 = tr_world s1"
    "tr_files s2 = (tr_files s1)(sid := map (\<lambda>g. if fst g \<in> fst ` set fs then (fst g, modern (snd g)) else g) (tr_files s1 sid))"
    "tg_id ` set (tr_tasks s2) = tg_id ` set (tr_tasks s1) \<union> pending_in fs"
    by blast
  have "pending_in (f # fs) = pending_in [f] \<union> pending_in fs" unfolding pending_in_def by (auto; blast)
  moreover have "modern (modern v) = modern v" for v by (cases v) simp_all
  ultimately show ?case using s1 s2 by (intro exI [of _ s2]) (auto simp: comp_def intro!: map_cong)
qed

lemma recover_sessions_free:
  assumes "w_budget (tr_world s) = None" "\<forall>sid. distinct (map fst (tr_files s sid))" "distinct sids"
  shows "\<exists>s'. recover_sessions sids s = (Val (), s') \<and> tr_world s' = tr_world s \<and>
    (\<forall>sid. tr_files s' sid = (if sid \<in> set sids then map (\<lambda>g. (fst g, modern (snd g))) (tr_files s sid) else tr_files s sid)) \<and>
    tg_id ` set (tr_tasks s') = tg_id ` set (tr_tasks s) \<union> (\<Union>sid \<in> set sids. pending_in (tr_files s sid))"
  using assms
proof (induction sids arbitrary: s)
  case (Cons sid sids)
  obtain s1 where s1: "recover_files sid (tr_files s sid) s = (Val (), s1)" "tr_world s1 = tr_world s"
    "tr_files s1 = (tr_files s)(sid := map (\<lambda>g. if fst g \<in> fst ` set (tr_files s sid) then (fst g, modern (snd g)) else g) (tr_files s sid))"
    "tg_id ` set (tr_tasks s1) = tg_id ` set (tr_tasks s) \<union> pending_in (tr_files s sid)"
    using recover_files_free [of s sid "tr_files s sid"] Cons.prems by auto
  have own: "tr_files s1 sid = map (\<lambda>g. (fst g, modern (snd g))) (tr_files s sid)" unfolding s1(3) by (auto intro!: map_cong)
  have other: "tr_files s1 x = tr_files s x" if "x \<noteq> sid" for x unfolding s1(3) using that by simp
  have "map fst (tr_files s1 x) = map fst (tr_files s x)" for x
    by (cases "x = sid") (simp_all add: own other comp_def)
  then have "\<forall>x. distinct (map fst (tr_files s1 x))" using Cons.prems(2) by simp
  then obtain s2 where s2: "recover_sessions sids s1 = (Val (), s2)" "tr_world s2 = tr_world s1"
    "\<forall>x. tr_files s2 x = (if x \<in> set sids then map (\<lambda>g. (fst g, modern (snd g))) (tr_files s1 x) else tr_files s1 x)"
    "tg_id ` set (tr_tasks s2) = tg_id ` set (tr_tasks s1) \<union> (\<Union>x \<in> set sids. pending_in (tr_files s1 x))"
    using Cons.IH [of s1] Cons.prems s1(2) by auto
  have notin: "sid \<notin> set sids" using Cons.prems(3) by simp
  then have "(\<Union>x \<in> set sids. pending_in (tr_files s1 x)) = (\<Union>x \<in> set sids. pending_in (tr_files s x))"
    using other by (intro SUP_cong refl) (metis (no_types))
  then show ?case using s1 s2 notin own other by (intro exI [of _ s2]) (auto simp: tbind_eq)
qed simp

text \<open>
  A restart waits for exactly the pending triggers. After the recovery scan the tasks are those of
  the triggers whose file says pending, whatever the unreadable files, and every legacy file has
  been rewritten in the new schema with nothing else changed.
\<close>

theorem recovery_waits_for_the_pending:
  assumes "w_budget (tr_world s) = None" "\<forall>sid. distinct (map fst (tr_files s sid))" "distinct sids" "tr_tasks s = []"
    and "recover_pending sids s = (out, s')"
  shows "out = Val () \<and> tg_id ` set (tr_tasks s') = (\<Union>sid \<in> set sids. pending_in (tr_files s sid)) \<and>
    (\<forall>sid \<in> set sids. tr_files s' sid = map (\<lambda>f. (fst f, modern (snd f))) (tr_files s sid)) \<and> tr_world s' = tr_world s"
  using recover_sessions_free [OF assms(1-3)] assms(4,5) by (auto simp: recover_pending_def)

subsection \<open>Migrating once\<close>

declare dhas_dict_put [simp]

lemma dhas_dict_del [simp]: "dhas (dict_del d k) k' = (k' \<noteq> k \<and> dhas d k')"
  by (induction d) (auto simp: dhas_def dict_del_def)

lemma dict_put_twice: "dict_put (dict_put d k v) k v = dict_put d k v"
  by (induction d) auto

lemma kinded_settles: "kinded v = Inr (u, b) \<Longrightarrow> kinded u = Inr (u, False)"
  by (induction v rule: kinded.induct) (auto split: if_splits)

lemma kinded_has: "kinded v = Inr (JObj ob, b) \<Longrightarrow> dhas ob ''kind''"
  by (induction v rule: kinded.induct) (auto split: if_splits)

lemma py_map_kinded_has: "py_map kinded ts = Inr rs \<Longrightarrow> (JObj ob, b) \<in> set rs \<Longrightarrow> dhas ob ''kind''"
  by (induction ts arbitrary: rs) (auto simp: py_bind_Inr_iff dest: kinded_has)

definition targets_kinded :: "dict \<Rightarrow> bool" where
  "targets_kinded data \<longleftrightarrow>
     (case dget data ''watch_targets'' of JArr ts \<Rightarrow> \<forall>t \<in> set ts. (case t of JObj ob \<Rightarrow> dhas ob ''kind'' | _ \<Rightarrow> True) | _ \<Rightarrow> True)"

lemma kinded_targets_kinded:
  assumes "kinded_targets data = Inr (data', b)"
  shows "targets_kinded data'"
proof (cases "jtruthy (dget data ''watch_targets'')")
  case False
  then have "data' = data" using assms by (simp add: kinded_targets_def)
  then show ?thesis using False by (auto simp: targets_kinded_def split: json.split)
next
  case True
  then obtain ts rs where ts: "py_map kinded ts = Inr rs"
    "data' = (case dget data ''watch_targets'' of JArr _ \<Rightarrow> dict_put data ''watch_targets'' (JArr (map fst rs)) | _ \<Rightarrow> data)"
    using assms by (auto simp: kinded_targets_def py_bind_Inr_iff Let_def)
  show ?thesis
  proof (cases "\<exists>xs. dget data ''watch_targets'' = JArr xs")
    case True
    then show ?thesis using ts(2) py_map_kinded_has [OF ts(1)] by (auto simp: targets_kinded_def split: json.split)
  next
    case False
    then have "data' = data" using ts(2) by (auto split: json.splits)
    then show ?thesis using False by (auto simp: targets_kinded_def split: json.split)
  qed
qed

lemma py_map_kinded: "py_map kinded ts = Inr rs \<Longrightarrow> py_map kinded (map fst rs) = Inr (map (\<lambda>r. (fst r, False)) rs)"
  by (induction ts arbitrary: rs) (auto simp: py_bind_Inr_iff dest: kinded_settles)

lemma kinded_strings: "py_map kinded ts = Inr rs \<Longrightarrow> \<forall>t \<in> set ts. \<exists>s. t = JStr s \<Longrightarrow> \<forall>r \<in> set rs. \<not> snd r"
  by (induction ts arbitrary: rs) (fastforce simp: py_bind_Inr_iff split: if_splits)+

lemma kinded_targets_settles:
  assumes "kinded_targets data = Inr (data', b)"
  shows "kinded_targets data' = Inr (data', False)" "dhas data' ''watch_pids'' \<longleftrightarrow> dhas data ''watch_pids''"
proof -
  let ?v = "dget data ''watch_targets''"
  have "kinded_targets data' = Inr (data', False) \<and> (dhas data' ''watch_pids'' \<longleftrightarrow> dhas data ''watch_pids'')"
  proof (cases "jtruthy ?v")
    case False
    then show ?thesis using assms by (auto simp: kinded_targets_def)
  next
    case True
    obtain ts rs where ts: "jiter ?v = Inr ts" "py_map kinded ts = Inr rs"
      "data' = (case ?v of JArr _ \<Rightarrow> dict_put data ''watch_targets'' (JArr (map fst rs)) | _ \<Rightarrow> data)" "b = (\<exists>r \<in> set rs. snd r)"
      using assms True by (auto simp: kinded_targets_def py_bind_Inr_iff Let_def)
    show ?thesis
    proof (cases "\<exists>xs. ?v = JArr xs")
      case True
      then have "jtruthy (JArr (map fst rs))"
        using \<open>jtruthy ?v\<close> ts(1,2) py_map_length [OF ts(2)] by auto
      then show ?thesis
        using True ts(3) py_map_kinded [OF ts(2)] by (auto simp: kinded_targets_def Let_def dict_put_twice comp_def)
    next
      case False
      then have d: "data' = data" using ts(3) by (auto split: json.splits)
      have "\<forall>t \<in> set ts. \<exists>s. t = JStr s" using ts(1) False by (cases ?v) auto
      then have "\<not> b" using kinded_strings [OF ts(2)] ts(4) by simp
      then show ?thesis using assms d by simp
    qed
  qed
  then show "kinded_targets data' = Inr (data', False)" "dhas data' ''watch_pids'' \<longleftrightarrow> dhas data ''watch_pids''" by blast+
qed

text \<open>
  A migrated trigger file has the new shape. Whatever the legacy object was, the migration leaves no
  \<open>watch_pids\<close> and gives every target object a kind; reading the result back migrates nothing and
  changes nothing, so the startup scan rewrites a legacy file once and never again.
\<close>

theorem migration_settles:
  assumes "migrate_fields to_int data = Inr (data', migrated)"
  shows "migrate_fields to_int data' = Inr (data', False) \<and> \<not> dhas data' ''watch_pids'' \<and> targets_kinded data'"
proof -
  obtain d1 b1 b2 where d: "convert_watch_pids to_int data = Inr (d1, b1)" "kinded_targets d1 = Inr (data', b2)"
    using assms by (auto simp: migrate_fields_def py_bind_Inr_iff)
  have "\<not> dhas d1 ''watch_pids''"
    using d(1) by (auto simp: convert_watch_pids_def Let_def py_bind_Inr_iff split: if_splits)
  then show ?thesis
    using kinded_targets_settles [OF d(2)] kinded_targets_kinded [OF d(2)] by (simp add: migrate_fields_def convert_watch_pids_def)
qed

subsection \<open>The listing\<close>









subsection \<open>A cancellation over a firing\<close>

text \<open>
  \<open>cancel_trigger\<close> reads the file, awaits and writes its copy. When the trigger fires in between, the
  copy that was read before goes over the stamp: the file ends cancelled, although whatever the
  firing did to the chats and the master is done.
\<close>

lemma cancel_overwrites_fired:
  assumes "still_pending tg fresh s" "wait_and_fire E tg ended s = (Val (), s1)" "w_budget (tr_world s1) = None"
  shows "load_trigger (tg_session tg) (tg_id tg) s = (Val (Some fresh), s) \<and>
    (\<exists>s2. save_trigger (fresh\<lparr>tg_status := TG_CANCELLED\<rparr>) s1 = (Val (), s2) \<and> tr_world s2 = tr_world s1 \<and>
       file_of tg s2 = Some (Stored (fresh\<lparr>tg_status := TG_CANCELLED\<rparr>) False))"
  using assms(1) save_trigger_free [OF assms(3), of "fresh\<lparr>tg_status := TG_CANCELLED\<rparr>"]
  by (auto simp: still_pending_def file_of_def load_trigger_def with_file_def map_of_put_file)

subsection \<open>Concrete runs\<close>

definition demo_trigger :: trigger where
  "demo_trigger =
     \<lparr>tg_id = ''t'', tg_session = ''a'', tg_fire_at = 10, tg_message = ''wake up'', tg_created_at = 0, tg_status = TG_PENDING,
      tg_fired_at = None, tg_targets = [], tg_reason = None\<rparr>"

definition demo_triggers :: "session \<Rightarrow> nat option \<Rightarrow> trigger_world" where
  "demo_triggers m budget =
     \<lparr>tr_world = (demo_world [''a'' \<mapsto> m] [])\<lparr>w_budget := budget\<rparr>,
      tr_files = (\<lambda>s. if s = ''a'' then [(''t'', Stored demo_trigger True), (''u'', Broken)] else []), tr_tasks = []\<rparr>"

lemma demo_still_pending: "still_pending demo_trigger demo_trigger (demo_triggers m b)"
  by (auto simp: still_pending_def file_of_def demo_triggers_def demo_trigger_def)

theorem dormant_target_is_never_woken_witness:
  "file_of demo_trigger (snd (wait_and_fire demo_env demo_trigger (Waited ''timeout'' [] [])
      (demo_triggers (demo_session ''a'' None\<lparr>sm_archived := True\<rparr>) None))) =
    Some (Stored (demo_trigger\<lparr>tg_status := TG_CANCELLED\<rparr>) False)"
proof -
  let ?s = "demo_triggers (demo_session ''a'' None\<lparr>sm_archived := True\<rparr>) None"
  have "fst (is_dormant_target ''a'' (tr_world ?s)) = Val True"
    by (simp add: demo_triggers_def is_dormant_target_def resolve_successor_chain_def bind_def get_session_def read_def ret_def
        demo_world_def demo_session_def successor_hop_limit_def walk_successors.simps)
  then have "fst (is_dormant_target (tg_session demo_trigger) (tr_world ?s)) = Val True" by (simp add: demo_trigger_def)
  then show ?thesis
    using dormant_target_is_never_woken [OF _ demo_still_pending] by (simp add: Let_def demo_triggers_def)
qed

theorem trigger_to_deleted_successor_is_stuck_witness:
  "\<exists>msg s'. wait_and_fire demo_env demo_trigger (Waited ''timeout'' [] []) (demo_triggers (demo_session ''a'' (Some ''b'')) None) = (Exc msg, s') \<and>
     tr_files s' = tr_files (demo_triggers (demo_session ''a'' (Some ''b'')) None)"
proof -
  let ?m = "demo_session ''a'' (Some ''b'')"
  have "w_sessions (tr_world (demo_triggers ?m None)) (tg_session demo_trigger) = Some ?m" "sm_id ?m = tg_session demo_trigger"
    "sm_successor ?m = Some ''b''" "w_sessions (tr_world (demo_triggers ?m None)) ''b'' = None"
    by (simp_all add: demo_triggers_def demo_trigger_def demo_world_def demo_session_def)
  from trigger_to_deleted_successor_is_stuck [OF demo_still_pending this] show ?thesis by blast
qed

text \<open>Killed once the event is in the chat, and left alone.\<close>

theorem trigger_is_never_lost_witness:
  "(\<exists>s'. wait_and_fire demo_env demo_trigger (Waited ''timeout'' [] []) (demo_triggers (demo_session ''a'' None) (Some 1)) = (Killed, s') \<and>
      file_of demo_trigger s' = Some (Stored demo_trigger True)) \<and>
   fired_at demo_env demo_trigger demo_trigger (Waited ''timeout'' [] []) (demo_triggers (demo_session ''a'' None) None)"
proof
  let ?s = "demo_triggers (demo_session ''a'' None) (Some 1)"
  have "fst (wait_and_fire demo_env demo_trigger (Waited ''timeout'' [] []) ?s) = Killed" by code_simp
  then obtain s' where s': "wait_and_fire demo_env demo_trigger (Waited ''timeout'' [] []) ?s = (Killed, s')" by (metis prod.collapse)
  then show "\<exists>s'. wait_and_fire demo_env demo_trigger (Waited ''timeout'' [] []) ?s = (Killed, s') \<and>
      file_of demo_trigger s' = Some (Stored demo_trigger True)"
    using trigger_is_never_lost [OF demo_still_pending s']
    by (simp add: file_of_def demo_triggers_def demo_trigger_def)
next
  let ?s = "demo_triggers (demo_session ''a'' None) None"
  let ?r = "wait_and_fire demo_env demo_trigger (Waited ''timeout'' [] []) ?s"
  have f: "(case file_of demo_trigger (snd ?r) of Some (Stored t _) \<Rightarrow> tg_status t = TG_FIRED | _ \<Rightarrow> False)" by code_simp
  have o: "file_of demo_trigger ?s = Some (Stored demo_trigger True)" "tg_status demo_trigger = TG_PENDING"
    by (simp_all add: file_of_def demo_triggers_def demo_trigger_def)
  show "fired_at demo_env demo_trigger demo_trigger (Waited ''timeout'' [] []) ?s"
    using trigger_is_never_lost [OF demo_still_pending, of demo_env "Waited ''timeout'' [] []" "demo_session ''a'' None" None "fst ?r" "snd ?r"]
      f o by auto
qed

theorem recovery_waits_for_the_pending_witness:
  "\<exists>s'. recover_pending [''a''] (demo_triggers (demo_session ''a'' None) None) = (Val (), s') \<and>
     tg_id ` set (tr_tasks s') = {''t''} \<and> tr_files s' ''a'' = [(''t'', Stored demo_trigger False), (''u'', Broken)]"
proof -
  let ?s = "demo_triggers (demo_session ''a'' None) None"
  obtain out s' where r: "recover_pending [''a''] ?s = (out, s')" by fastforce
  have "out = Val () \<and> tg_id ` set (tr_tasks s') = (\<Union>sid \<in> set [''a'']. pending_in (tr_files ?s sid)) \<and>
    (\<forall>sid \<in> set [''a'']. tr_files s' sid = map (\<lambda>f. (fst f, modern (snd f))) (tr_files ?s sid)) \<and> tr_world s' = tr_world ?s"
    by (rule recovery_waits_for_the_pending [OF _ _ _ _ r]) (simp_all add: demo_triggers_def)
  moreover have "pending_in (tr_files ?s ''a'') = {''t''}"
    by (auto simp: pending_in_def demo_triggers_def demo_trigger_def)
  ultimately show ?thesis using r by (simp add: demo_triggers_def)
qed

definition demo_legacy :: dict where
  "demo_legacy = [(''id'', JStr ''t''), (''watch_pids'', JArr [JInt 5])]"

lemma demo_migrated:
  "migrate_fields (\<lambda>v. case v of JInt i \<Rightarrow> Inr i | _ \<Rightarrow> Inl TypeError) demo_legacy =
    Inr ([(''id'', JStr ''t''),
          (''watch_targets'', JArr [JObj [(''host'', JNull), (''pid'', JInt 5), (''kind'', JStr ''local_pid'')]])], True)"
  by code_simp

theorem migration_settles_witness:
  "migrate_fields (\<lambda>v. case v of JInt i \<Rightarrow> Inr i | _ \<Rightarrow> Inl TypeError)
     [(''id'', JStr ''t''), (''watch_targets'', JArr [JObj [(''host'', JNull), (''pid'', JInt 5), (''kind'', JStr ''local_pid'')]])] =
   Inr ([(''id'', JStr ''t''), (''watch_targets'', JArr [JObj [(''host'', JNull), (''pid'', JInt 5), (''kind'', JStr ''local_pid'')]])], False)"
  using migration_settles [OF demo_migrated] by simp


end
