(* ===== verification/Account_Pool.thy ===== *)
theory Account_Pool
  imports Complex_Main Backends Event_Types
begin

text \<open>
  \<open>src/core/claude_accounts.py\<close>: the pool of subscription logins. What the process remembers of an
  account (its newest rate-limit event, its newest usage panel, its last failed login), the
  headroom read from it, and the account chosen for the next process. A time is an instant in
  microseconds; a float is the double nearest to the exact result of each operation, as a rational.
\<close>

subsection \<open>Doubles\<close>

definition round_half_even :: "rat \<Rightarrow> int" where
  "round_half_even x =
     (let f = \<lfloor>x\<rfloor>; d = x - of_int f
      in if d < 1 / 2 then f else if 1 / 2 < d then f + 1 else if even f then f else f + 1)"

fun bits :: "nat \<Rightarrow> nat" where
  "bits n = (if n = 0 then 0 else Suc (bits (n div 2)))"

declare bits.simps [simp del]

text \<open>The exponent of a positive number: \<open>2 ^ e \<le> x < 2 ^ (e + 1)\<close>.\<close>

definition exponent :: "rat \<Rightarrow> int" where
  "exponent x = (if 1 \<le> x then int (bits (nat \<lfloor>x\<rfloor>)) - 1 else - int (bits (nat (\<lceil>1 / x\<rceil> - 1))))"

text \<open>Round to 53 bits, to even on a tie; overflow and subnormal numbers are left out.\<close>

definition double :: "rat \<Rightarrow> rat" where
  "double x =
     (if x = 0 then 0
      else let ulp = 2 powi (exponent \<bar>x\<bar> - 52)
           in (if x < 0 then - 1 else 1) * of_int (round_half_even (\<bar>x\<bar> / ulp)) * ulp)"

text \<open>\<open>float(v)\<close> of a JSON number that is not a bool.\<close>

fun jnumber :: "json \<Rightarrow> rat option" where
  "jnumber (JInt i) = Some (double (of_int i))"
| "jnumber (JFloat m e) = Some (double (of_int m * 10 powi e))"
| "jnumber _ = None"

text \<open>\<open>datetime.fromtimestamp(x, UTC)\<close>: the microseconds are rounded, the year must be in range.\<close>

definition from_timestamp :: "rat \<Rightarrow> int py" where
  "from_timestamp x =
     (let whole = (if x < 0 then \<lceil>x\<rceil> else \<lfloor>x\<rfloor>);
          us = whole * 1000000 + round_half_even (double ((x - of_int whole) * 1000000))
      in if datetime_min \<le> us \<and> us \<le> datetime_max then Inr us
         else Inl (ValueError ''year is out of range''))"

subsection \<open>State\<close>

record claude_account =
  ca_label :: string
  ca_dir :: string

record reading =
  rd_at :: int
  rd_used :: rat
  rd_rejected_until :: "int option"

text \<open>The module's dictionaries; a panel is its sample time and its windows.\<close>

record pool_state =
  ps_events :: "string \<rightharpoonup> reading"
  ps_panels :: "string \<rightharpoonup> int \<times> dict list"
  ps_auth :: "string \<rightharpoonup> int"
  ps_notified :: "string set"

definition reset_for_tests :: pool_state where
  "reset_for_tests = \<lparr>ps_events = Map.empty, ps_panels = Map.empty, ps_auth = Map.empty, ps_notified = {}\<rparr>"

text \<open>
  \<open>accounts.claude\<close>, \<open>Path.expanduser\<close>, the parsed credential file of a login (\<open>None\<close> when it is
  missing or does not parse), \<open>datetime.fromisoformat\<close>, \<open>str.lower\<close>, and \<open>str\<close> of a container or float.
\<close>

record pool_env =
  pe_accounts :: "claude_account list"
  pe_expand :: "string \<Rightarrow> string"
  pe_credentials :: "string \<Rightarrow> json option"
  pe_iso :: "string \<Rightarrow> stamp option"
  pe_lower :: "string \<Rightarrow> string"
  pe_show :: "json \<Rightarrow> string"

definition warning_utilization :: rat where "warning_utilization = double (90 / 100)"
definition auth_failure_cooldown :: int where "auth_failure_cooldown = 15 * 60 * 1000000"
definition event_windows :: "string list" where "event_windows = [''five_hour'', ''seven_day'']"
definition rejected_without_reset :: int where "rejected_without_reset = 3600 * 1000000"
definition never_active :: int where "never_active = datetime_min"
definition reset_bonus_scale :: rat where "reset_bonus_scale = double (10 / 100)"
definition reset_bonus_horizon :: rat where "reset_bonus_horizon = 86400"
definition reset_bonus_min_headroom :: rat where "reset_bonus_min_headroom = double (10 / 100)"
definition score_tie :: rat where "score_tie = double (2 / 100)"

subsection \<open>Membership and health\<close>

definition pool :: "pool_env \<Rightarrow> claude_account list" where
  "pool P = map (\<lambda>a. \<lparr>ca_label = ca_label a, ca_dir = pe_expand P (ca_dir a)\<rparr>) (pe_accounts P)"

definition is_pooled :: "pool_env \<Rightarrow> backend_option \<Rightarrow> bool" where
  "is_pooled P opt = (bo_type opt = CC_CLAUDE \<and> pe_accounts P \<noteq> [])"

definition account_by_label :: "pool_env \<Rightarrow> string option \<Rightarrow> claude_account option" where
  "account_by_label P label = (if \<not> truthy label then None else find (\<lambda>a. Some (ca_label a) = label) (pool P))"

definition credentials_present :: "pool_env \<Rightarrow> claude_account \<Rightarrow> bool" where
  "credentials_present P a =
     (case pe_credentials P (ca_dir a) of
        Some (JObj d) \<Rightarrow> (case dget d ''claudeAiOauth'' of JObj o' \<Rightarrow> jtruthy (dget o' ''accessToken'') | _ \<Rightarrow> False)
      | _ \<Rightarrow> False)"

definition record_auth_failure :: "string \<Rightarrow> int \<Rightarrow> pool_state \<Rightarrow> pool_state" where
  "record_auth_failure label now S = S\<lparr>ps_auth := (ps_auth S)(label \<mapsto> now)\<rparr>"

definition auth_failed_recently :: "pool_state \<Rightarrow> string \<Rightarrow> int \<Rightarrow> bool" where
  "auth_failed_recently S label now =
     (case ps_auth S label of None \<Rightarrow> False | Some t \<Rightarrow> now - t < auth_failure_cooldown)"

definition login_notice_due :: "string \<Rightarrow> bool \<Rightarrow> pool_state \<Rightarrow> bool \<times> pool_state" where
  "login_notice_due label unhealthy S =
     (if \<not> unhealthy then (False, S\<lparr>ps_notified := ps_notified S - {label}\<rparr>)
      else if label \<in> ps_notified S then (False, S)
      else (True, S\<lparr>ps_notified := insert label (ps_notified S)\<rparr>))"

definition healthy :: "pool_env \<Rightarrow> pool_state \<Rightarrow> claude_account \<Rightarrow> int \<Rightarrow> bool" where
  "healthy P S a now = (credentials_present P a \<and> \<not> auth_failed_recently S (ca_label a) now)"

subsection \<open>Readings\<close>

definition model_family :: "pool_env \<Rightarrow> string option \<Rightarrow> string" where
  "model_family P model =
     (if \<not> truthy model then []
      else case split_on (CHR ''-'') (pe_lower P (the model)) of
             p0 # p1 # _ \<Rightarrow> if p0 = ''claude'' then p1 else p0
           | p0 # _ \<Rightarrow> p0
           | [] \<Rightarrow> [])"

definition event_window_values :: "dict \<Rightarrow> rat list" where
  "event_window_values info =
     (case dget info ''unifiedWindows'' of
        JObj ws \<Rightarrow> List.map_filter (\<lambda>name. case dget ws name of JObj w \<Rightarrow> jnumber (dget w ''utilization'') | _ \<Rightarrow> None) event_windows
      | _ \<Rightarrow> [])"

fun max_of :: "'a :: linorder list \<Rightarrow> 'a" where
  "max_of [x] = x"
| "max_of (x # y # ys) = max x (max_of (y # ys))"

definition rejection_reset :: "dict \<Rightarrow> int \<Rightarrow> int option py" where
  "rejection_reset info now =
     (if dget info ''status'' \<noteq> JStr ''rejected'' then Inr None
      else case jnumber (dget info ''resetsAt'') of
             None \<Rightarrow> Inr (Some (now + rejected_without_reset))
           | Some x \<Rightarrow> py_bind (from_timestamp x) (\<lambda>t. Inr (Some t)))"

text \<open>The result is the reading stored, \<open>None\<close> when there is nothing to learn.\<close>

definition observe_rate_limit :: "string \<Rightarrow> dict \<Rightarrow> int \<Rightarrow> pool_state \<Rightarrow> (reading option \<times> pool_state) py" where
  "observe_rate_limit label info now S =
     (let values = event_window_values info in
      if values = [] \<and> dget info ''status'' \<noteq> JStr ''rejected'' then Inr (None, S)
      else py_bind (rejection_reset info now) (\<lambda>back.
        let r = \<lparr>rd_at = now, rd_used = (if values = [] then 1 else max_of values), rd_rejected_until = back\<rparr>
        in Inr (Some r, S\<lparr>ps_events := (ps_events S)(label \<mapsto> r)\<rparr>)))"

fun utc_of :: "stamp \<Rightarrow> int" where
  "utc_of (Naive t) = t"
| "utc_of (Aware t) = t"

definition is_obj :: "json \<Rightarrow> bool" where
  "is_obj v = (case v of JObj _ \<Rightarrow> True | _ \<Rightarrow> False)"

definition observe_usage_panel :: "pool_env \<Rightarrow> string \<Rightarrow> json \<Rightarrow> int \<Rightarrow> pool_state \<Rightarrow> pool_state" where
  "observe_usage_panel P label usage now S =
     (case usage of
        JObj u \<Rightarrow>
          (case dget u ''windows'' of
             JArr ws \<Rightarrow>
               (let sampled = (case dget u ''fetched_at'' of
                            JStr s \<Rightarrow> (case pe_iso P s of Some t \<Rightarrow> utc_of t | None \<Rightarrow> now)
                          | _ \<Rightarrow> now)
                in S\<lparr>ps_panels := (ps_panels S)(label \<mapsto>
                       (sampled, List.map_filter (\<lambda>w. case w of JObj d \<Rightarrow> Some d | _ \<Rightarrow> None) ws))\<rparr>)
           | _ \<Rightarrow> S)
      | _ \<Rightarrow> S)"

definition parse_iso_utc :: "pool_env \<Rightarrow> json \<Rightarrow> int option" where
  "parse_iso_utc P v = (case v of JStr s \<Rightarrow> if s = [] then None else map_option utc_of (pe_iso P s) | _ \<Rightarrow> None)"

definition panel_window_expired :: "pool_env \<Rightarrow> dict \<Rightarrow> int option \<Rightarrow> int \<Rightarrow> bool" where
  "panel_window_expired P window sampled now =
     (case sampled of
        None \<Rightarrow> False
      | Some s \<Rightarrow>
          if (case parse_iso_utc P (dget window ''resets_at'') of Some r \<Rightarrow> r \<le> now \<and> s < r | None \<Rightarrow> False) then True
          else (case dget window ''window_minutes'' of JInt m \<Rightarrow> now - s > m * 60 * 1000000 | _ \<Rightarrow> False))"

text \<open>Whether a window is read for a model: a scoped one names the model's family.\<close>

definition readable_by :: "pool_env \<Rightarrow> string option \<Rightarrow> dict \<Rightarrow> bool" where
  "readable_by P model window =
     (let scope = dget window ''scope_label''; family = model_family P model
      in \<not> jtruthy scope \<or> (family \<noteq> [] \<and> contains family (pe_lower P (py_str (pe_show P) scope))))"

definition live_windows :: "pool_env \<Rightarrow> pool_state \<Rightarrow> string \<Rightarrow> string option \<Rightarrow> int \<Rightarrow> dict list" where
  "live_windows P S label model now =
     (case ps_panels S label of
        None \<Rightarrow> []
      | Some (sampled, ws) \<Rightarrow> filter (\<lambda>w. \<not> panel_window_expired P w (Some sampled) now \<and> readable_by P model w) ws)"

definition window_values :: "dict list \<Rightarrow> rat list" where
  "window_values ws = List.map_filter (\<lambda>w. map_option (\<lambda>v. double (v / 100)) (jnumber (dget w ''utilization''))) ws"

definition panel_reading :: "pool_env \<Rightarrow> pool_state \<Rightarrow> string \<Rightarrow> string option \<Rightarrow> int \<Rightarrow> reading option" where
  "panel_reading P S label model now =
     (case ps_panels S label of
        None \<Rightarrow> None
      | Some (sampled, _) \<Rightarrow>
          (let values = window_values (live_windows P S label model now) in
           if values = [] then None
           else Some \<lparr>rd_at = sampled, rd_used = max_of values, rd_rejected_until = None\<rparr>))"

text \<open>The newest of two readings, the first one on a tie.\<close>

fun newest_reading :: "reading option \<Rightarrow> reading option \<Rightarrow> reading option" where
  "newest_reading None r = r"
| "newest_reading (Some r) None = Some r"
| "newest_reading (Some r) (Some q) = Some (if rd_at q > rd_at r then q else r)"

definition general_reading :: "pool_env \<Rightarrow> pool_state \<Rightarrow> string \<Rightarrow> int \<Rightarrow> reading option" where
  "general_reading P S label now = newest_reading (ps_events S label) (panel_reading P S label None now)"

definition fuse :: "reading option \<Rightarrow> reading \<Rightarrow> int \<Rightarrow> reading" where
  "fuse general scoped now =
     \<lparr>rd_at = max (case general of Some g \<Rightarrow> rd_at g | None \<Rightarrow> never_active) (rd_at scoped),
      rd_used = max (case general of Some g \<Rightarrow> rd_used g | None \<Rightarrow> 0) (rd_used scoped),
      rd_rejected_until =
        (case general of
           Some g \<Rightarrow> (case rd_rejected_until g of Some t \<Rightarrow> if t > now then Some t else None | None \<Rightarrow> None)
         | None \<Rightarrow> None)\<rparr>"

definition latest_reading :: "pool_env \<Rightarrow> pool_state \<Rightarrow> string \<Rightarrow> string option \<Rightarrow> int \<Rightarrow> reading option" where
  "latest_reading P S label model now =
     (let general = general_reading P S label now in
      if model = None \<or> \<not> (\<exists>w \<in> set (live_windows P S label model now). jtruthy (dget w ''scope_label'')) then general
      else case panel_reading P S label model now of
             None \<Rightarrow> general
           | Some scoped \<Rightarrow> Some (fuse general scoped now))"

definition headroom :: "pool_env \<Rightarrow> pool_state \<Rightarrow> string \<Rightarrow> string option \<Rightarrow> int \<Rightarrow> rat" where
  "headroom P S label model now =
     (case latest_reading P S label model now of
        None \<Rightarrow> 1
      | Some r \<Rightarrow>
          if (case rd_rejected_until r of Some t \<Rightarrow> t > now | None \<Rightarrow> False) then 0
          else max 0 (double (1 - rd_used r)))"

subsection \<open>Selection\<close>

definition last_active_at :: "pool_state \<Rightarrow> string \<Rightarrow> int" where
  "last_active_at S label = (case ps_events S label of Some r \<Rightarrow> rd_at r | None \<Rightarrow> never_active)"

text \<open>The window with the highest utilization, the first one on a tie.\<close>

fun limiting_window :: "dict list \<Rightarrow> (rat \<times> dict) option \<Rightarrow> (rat \<times> dict) option" where
  "limiting_window [] acc = acc"
| "limiting_window (w # ws) acc =
     limiting_window ws
       (case jnumber (dget w ''utilization'') of
          None \<Rightarrow> acc
        | Some v \<Rightarrow> (case acc of None \<Rightarrow> Some (v, w) | Some (u, _) \<Rightarrow> if v > u then Some (v, w) else acc))"

definition time_to_reset :: "pool_env \<Rightarrow> pool_state \<Rightarrow> string \<Rightarrow> string option \<Rightarrow> int \<Rightarrow> rat option" where
  "time_to_reset P S label model now =
     (case limiting_window (live_windows P S label model now) None of
        None \<Rightarrow> None
      | Some (_, w) \<Rightarrow>
          map_option (\<lambda>r. double (of_int (r - now) / 1000000)) (parse_iso_utc P (dget w ''resets_at'')))"

definition reset_bonus :: "pool_env \<Rightarrow> pool_state \<Rightarrow> string \<Rightarrow> string option \<Rightarrow> int \<Rightarrow> rat \<Rightarrow> rat" where
  "reset_bonus P S label model now left =
     (if left \<le> reset_bonus_min_headroom then 0
      else case time_to_reset P S label model now of
             None \<Rightarrow> 0
           | Some ttr \<Rightarrow>
               if 0 \<le> ttr \<and> ttr < reset_bonus_horizon
               then double (reset_bonus_scale * double (1 - double (ttr / reset_bonus_horizon)))
               else 0)"

definition available :: "pool_env \<Rightarrow> pool_state \<Rightarrow> string option \<Rightarrow> string list \<Rightarrow> int \<Rightarrow> (claude_account \<times> rat) list" where
  "available P S model exclude now =
     List.map_filter (\<lambda>a.
       if ca_label a \<in> set exclude \<or> \<not> healthy P S a now then None
       else let hr = headroom P S (ca_label a) model now in if hr > 0 then Some (a, hr) else None) (pool P)"

definition score :: "pool_env \<Rightarrow> pool_state \<Rightarrow> string option \<Rightarrow> int \<Rightarrow> claude_account \<times> rat \<Rightarrow> rat" where
  "score P S model now = (\<lambda>(a, hr). double (hr + reset_bonus P S (ca_label a) model now hr))"

definition contenders :: "string set option \<Rightarrow> (claude_account \<times> rat) list \<Rightarrow> (claude_account \<times> rat) list" where
  "contenders busy avail =
     (let idle = filter (\<lambda>(a, _). case busy of None \<Rightarrow> True | Some b \<Rightarrow> ca_label a \<notin> b) avail
      in if idle \<noteq> [] then idle else avail)"

definition select ::
  "pool_env \<Rightarrow> pool_state \<Rightarrow> string option \<Rightarrow> string list \<Rightarrow> string set option \<Rightarrow> int \<Rightarrow> claude_account option" where
  "select P S model exclude busy now =
     (let avail = available P S model exclude now in
      if avail = [] then None
      else let scored = map (\<lambda>x. (score P S model now x, fst x)) (contenders busy avail);
               best = max_of (map fst scored);
               tied = List.map_filter (\<lambda>(s, a). if double (best - s) \<le> score_tie then Some a else None) scored
           in Some (arg_min_list (\<lambda>a. last_active_at S (ca_label a)) tied))"

definition earliest_reset :: "pool_env \<Rightarrow> pool_state \<Rightarrow> int \<Rightarrow> int option" where
  "earliest_reset P S now =
     (let resets = List.map_filter (\<lambda>a.
        case ps_events S (ca_label a) of
          None \<Rightarrow> None
        | Some r \<Rightarrow> (case rd_rejected_until r of Some t \<Rightarrow> if t > now then Some t else None | None \<Rightarrow> None)) (pool P)
      in if resets = [] then None else Some (Min (set resets)))"

end
