(* ===== verification/Account_Relay.thy ===== *)
theory Account_Relay
  imports Account_Pool "HOL-Library.List_Lexorder" "HOL-Library.Char_ord"
begin

text \<open>
  \<open>src/core/claude_relay.py\<close>, \<open>src/core/claude_compaction.py\<close>, the transcripts of
  \<open>src/core/claude_accounts.py\<close> and \<open>src/agents/master_cc_relay.py\<close>: which events move a run to the
  next account, how its transcript goes there, and what the transcript is compacted with.
\<close>

abbreviation ET_RATE_LIMIT_EVENT :: string where "ET_RATE_LIMIT_EVENT \<equiv> ''rate_limit_event''"
abbreviation ET_RATE_LIMIT_INFO :: string where "ET_RATE_LIMIT_INFO \<equiv> ''rate_limit_info''"
abbreviation ET_CONTEXT_COMPACTED :: string where "ET_CONTEXT_COMPACTED \<equiv> ''context_compacted''"
abbreviation ET_CONTEXT_COMPACT_FAILED :: string where "ET_CONTEXT_COMPACT_FAILED \<equiv> ''context_compact_failed''"
abbreviation ET_COMPACT_BOUNDARY :: string where "ET_COMPACT_BOUNDARY \<equiv> ''compact_boundary''"
abbreviation ET_CLAUDE_ACCOUNT_LOGIN_REQUIRED :: string
  where "ET_CLAUDE_ACCOUNT_LOGIN_REQUIRED \<equiv> ''claude_account_login_required''"

subsection \<open>Transcripts\<close>

text \<open>
  A conversation file: its size, the \<open>compact_boundary\<close> rows in it, and the files of the directory
  beside it with their sizes. A store answers, for a login directory and a conversation, the
  project directories that hold it, in the order of the sorted glob.
\<close>

record transcript =
  ts_size :: nat
  ts_rows :: "dict list"
  ts_sidecar :: "(string \<times> nat) list option"

type_synonym transcripts = "string \<Rightarrow> string \<Rightarrow> (string \<times> transcript) list"

definition transcript_path :: "transcripts \<Rightarrow> string \<Rightarrow> string \<Rightarrow> (string \<times> transcript) option" where
  "transcript_path T dir cc = (case T dir cc of [] \<Rightarrow> None | x # _ \<Rightarrow> Some x)"

definition find_transcript_account :: "pool_env \<Rightarrow> transcripts \<Rightarrow> string \<Rightarrow> claude_account option" where
  "find_transcript_account P T cc = find (\<lambda>a. transcript_path T (ca_dir a) cc \<noteq> None) (pool P)"

definition tree_bytes :: "(string \<times> nat) list \<Rightarrow> nat" where
  "tree_bytes files = sum_list (map snd files)"

text \<open>\<open>copytree(\<dots>, dirs_exist_ok=True)\<close>: a file of the source replaces its namesake, others stay.\<close>

definition copy_tree :: "(string \<times> nat) list \<Rightarrow> (string \<times> nat) list \<Rightarrow> (string \<times> nat) list" where
  "copy_tree src dst = filter (\<lambda>f. fst f \<notin> fst ` set src) dst @ src"

definition put_project :: "string \<Rightarrow> transcript \<Rightarrow> (string \<times> transcript) list \<Rightarrow> (string \<times> transcript) list" where
  "put_project slug t ps = insort_key fst (slug, t) (filter (\<lambda>p. fst p \<noteq> slug) ps)"

definition put_transcript :: "string \<Rightarrow> string \<Rightarrow> string \<Rightarrow> transcript \<Rightarrow> transcripts \<Rightarrow> transcripts" where
  "put_transcript dir cc slug t T = T(dir := (T dir)(cc := put_project slug t (T dir cc)))"

datatype move_result = Moved | MoveError string | MoveRaised py_error

definition landed :: "transcript \<Rightarrow> transcript option \<Rightarrow> transcript" where
  "landed t old =
     t\<lparr>ts_sidecar :=
         (let there = (case old of None \<Rightarrow> None | Some o' \<Rightarrow> ts_sidecar o') in
          case ts_sidecar t of
            None \<Rightarrow> there
          | Some files \<Rightarrow> Some (copy_tree files (case there of None \<Rightarrow> [] | Some fs \<Rightarrow> fs)))\<rparr>"

text \<open>Copying a file onto itself raises; a copy whose size differs is refused after the fact.\<close>

definition transcript_file :: "string \<Rightarrow> string \<Rightarrow> string \<Rightarrow> string" where
  "transcript_file dir slug name = dir @ ''/projects/'' @ slug @ ''/'' @ name"

definition mismatch_text :: "string \<Rightarrow> string \<Rightarrow> string \<Rightarrow> string \<Rightarrow> string \<Rightarrow> string" where
  "mismatch_text what src dst slug name =
     what @ '' size mismatch: '' @ transcript_file src slug name @ '' -> '' @ transcript_file dst slug name"

definition move_transcript :: "string \<Rightarrow> string \<Rightarrow> string \<Rightarrow> transcripts \<Rightarrow> move_result \<times> transcripts" where
  "move_transcript cc src dst T =
     (case transcript_path T src cc of
        None \<Rightarrow> (MoveError (''no transcript '' @ cc @ ''.jsonl under '' @ src @ ''/projects''), T)
      | Some (slug, t) \<Rightarrow>
          if src = dst then (MoveRaised OSError, T)
          else
            let t' = landed t (map_of (T dst cc) slug); T' = put_transcript dst cc slug t' T in
            if ts_size t' \<noteq> ts_size t then (MoveError (mismatch_text ''transcript copy'' src dst slug (cc @ ''.jsonl'')), T')
            else case (ts_sidecar t, ts_sidecar t') of
                   (Some files, Some files') \<Rightarrow>
                     if tree_bytes files' \<noteq> tree_bytes files
                     then (MoveError (mismatch_text ''transcript sidecar'' src dst slug cc), T') else (Moved, T')
                 | _ \<Rightarrow> (Moved, T'))"

subsection \<open>Reading the events of a run\<close>

definition relay_min_reset_ahead :: int where "relay_min_reset_ahead = 45 * 60 * 1000000"
definition max_relays_per_turn :: nat where "max_relays_per_turn = 3"

definition continuation_prompt :: string where
  "continuation_prompt =
     ''The previous process was interrupted right after a tool call completed. Continue from '' @
     ''where it stopped; do not redo the steps that are already done.''"

definition auth_failure_marker :: string where "auth_failure_marker = ''Failed to authenticate''"

datatype relay_reason = RELAY_REJECTED | RELAY_WARNING | LOGIN_FAILED

definition message_content :: "dict \<Rightarrow> json" where
  "message_content ev = (case dget ev ''message'' of JObj m \<Rightarrow> dget m ''content'' | _ \<Rightarrow> JNull)"

definition is_tool_result_event :: "dict \<Rightarrow> bool" where
  "is_tool_result_event ev =
     (dget ev ''type'' = JStr ET_USER \<and>
      (case message_content ev of
         JArr bs \<Rightarrow> list_ex (\<lambda>b. case b of JObj d \<Rightarrow> dget d ''type'' = JStr ET_TOOL_RESULT | _ \<Rightarrow> False) bs
       | _ \<Rightarrow> False))"

definition assistant_texts :: "dict \<Rightarrow> string list" where
  "assistant_texts ev =
     (case message_content ev of
        JArr bs \<Rightarrow> List.map_filter (\<lambda>b. case b of
                     JObj d \<Rightarrow> (case dget d ''text'' of JStr s \<Rightarrow> Some s | _ \<Rightarrow> None) | _ \<Rightarrow> None) bs
      | _ \<Rightarrow> [])"

definition reset_far_enough :: "dict \<Rightarrow> int \<Rightarrow> bool py" where
  "reset_far_enough info now =
     (case jnumber (dget info ''resetsAt'') of
        None \<Rightarrow> Inr True
      | Some x \<Rightarrow> py_bind (from_timestamp x) (\<lambda>t. Inr (t - now > relay_min_reset_ahead)))"

record relay_watch =
  rw_label :: string
  rw_model :: "string option"
  rw_reason :: "relay_reason option"
  rw_armed :: bool
  rw_auth_failed :: bool

definition new_watch :: "string \<Rightarrow> string option \<Rightarrow> relay_watch" where
  "new_watch label model =
     \<lparr>rw_label = label, rw_model = model, rw_reason = None, rw_armed = False, rw_auth_failed = False\<rparr>"

definition observe_limits :: "relay_watch \<Rightarrow> dict \<Rightarrow> int \<Rightarrow> pool_state \<Rightarrow> (relay_watch \<times> pool_state) py" where
  "observe_limits W info now S =
     py_bind (observe_rate_limit (rw_label W) info now S) (\<lambda>(r, S').
       let status = dget info ''status'' in
       if status = JStr ''rejected'' then Inr (W\<lparr>rw_reason := Some RELAY_REJECTED, rw_armed := False\<rparr>, S')
       else if status = JStr ''allowed_warning'' \<and> (case r of Some q \<Rightarrow> rd_used q \<ge> warning_utilization | None \<Rightarrow> False)
       then py_bind (reset_far_enough info now) (\<lambda>far. Inr (if far then W\<lparr>rw_armed := True\<rparr> else W, S'))
       else Inr (W, S'))"

text \<open>The first component is true when the process must be terminated now.\<close>

definition observe :: "relay_watch \<Rightarrow> dict \<Rightarrow> int \<Rightarrow> pool_state \<Rightarrow> (bool \<times> relay_watch \<times> pool_state) py" where
  "observe W ev now S =
     (if dget ev ''type'' = JStr ET_RATE_LIMIT_EVENT
      then (case dget ev ET_RATE_LIMIT_INFO of
              JObj info \<Rightarrow> py_bind (observe_limits W info now S) (\<lambda>(W', S'). Inr (False, W', S'))
            | _ \<Rightarrow> Inr (False, W, S))
      else if dget ev ''type'' = JStr ET_ASSISTANT \<and> list_ex (contains auth_failure_marker) (assistant_texts ev)
      then Inr (False, W\<lparr>rw_auth_failed := True\<rparr>, S)
      else if rw_armed W \<and> rw_reason W = None \<and> is_tool_result_event ev
      then Inr (True, W\<lparr>rw_reason := Some RELAY_WARNING\<rparr>, S)
      else Inr (False, W, S))"

definition decision :: "relay_watch \<Rightarrow> int \<Rightarrow> string \<Rightarrow> relay_reason option" where
  "decision W exit_code stderr =
     (if exit_code \<noteq> 0 \<and> (rw_auth_failed W \<or> contains auth_failure_marker stderr) then Some LOGIN_FAILED
      else rw_reason W)"

subsection \<open>Moving on\<close>

definition two_digits :: "int \<Rightarrow> string" where
  "two_digits n = (if n < 10 then ''0'' @ int_str n else int_str n)"

definition clock_utc :: "int \<Rightarrow> string" where
  "clock_utc t = two_digits (t div 3600000000 mod 24) @ '':'' @ two_digits (t div 60000000 mod 60)"

definition pool_exhausted_message :: "pool_env \<Rightarrow> pool_state \<Rightarrow> int \<Rightarrow> string" where
  "pool_exhausted_message P S now =
     ''Claude account pool has no available account ('' @
     (case earliest_reset P S now of
        Some t \<Rightarrow> ''earliest reset '' @ clock_utc t @ '' UTC'' | None \<Rightarrow> ''no reset time known'') @
     ''); this run did not complete.''"

definition relay_limit_message :: string where
  "relay_limit_message =
     ''Claude account relay limit reached ('' @ int_str (int max_relays_per_turn) @ '' relays in one run); '' @
     ''this run did not complete.''"

definition login_required_event :: "claude_account \<Rightarrow> string \<Rightarrow> dict" where
  "login_required_event a reason =
     [(''type'', JStr ET_CLAUDE_ACCOUNT_LOGIN_REQUIRED), (''account'', JStr (ca_label a)),
      (''config_dir'', JStr (ca_dir a)), (''reason'', JStr reason)]"

text \<open>An account or the text of the error; \<open>OSError\<close> and the like end the caller.\<close>

definition move_to_next_account ::
  "pool_env \<Rightarrow> pool_state \<Rightarrow> string option \<Rightarrow> claude_account \<Rightarrow> string option \<Rightarrow> int \<Rightarrow> transcripts \<Rightarrow>
     (string + claude_account) py \<times> transcripts" where
  "move_to_next_account P S model current cc now T =
     (if \<not> truthy cc
      then (Inr (Inl ''Claude account relay impossible: the run produced no session id to resume.''), T)
      else case select P S model [ca_label current] None now of
             None \<Rightarrow> (Inr (Inl (pool_exhausted_message P S now)), T)
           | Some nxt \<Rightarrow>
               (case move_transcript (the cc) (ca_dir current) (ca_dir nxt) T of
                  (Moved, T') \<Rightarrow> (Inr (Inr nxt), T')
                | (MoveError msg, T') \<Rightarrow> (Inr (Inl (''Claude account relay failed: '' @ msg)), T')
                | (MoveRaised e, T') \<Rightarrow> (Inl e, T')))"

text \<open>The account for an entry: none outside the pool, or the text of \<open>PoolExhaustedError\<close>.\<close>

definition pin_pool_account ::
  "pool_env \<Rightarrow> pool_state \<Rightarrow> backend_option \<Rightarrow> int \<Rightarrow> string + claude_account option" where
  "pin_pool_account P S opt now =
     (if \<not> is_pooled P opt then Inr None
      else case select P S (bo_model opt) [] None now of
             None \<Rightarrow> Inl (pool_exhausted_message P S now)
           | Some a \<Rightarrow> Inr (Some a))"

subsection \<open>Compaction\<close>

definition cache_ttl :: int where "cache_ttl = 60 * 60 * 1000000"
definition compaction_model :: string where "compaction_model = ''claude-sonnet-5''"
definition compaction_family :: string where "compaction_family = ''sonnet''"
definition fable_family :: string where "fable_family = ''fable''"

definition is_fable :: "pool_env \<Rightarrow> string option \<Rightarrow> bool" where
  "is_fable P model = (model_family P model = fable_family)"

definition cache_expired :: "int option \<Rightarrow> int \<Rightarrow> bool" where
  "cache_expired last_request now = (case last_request of None \<Rightarrow> False | Some t \<Rightarrow> now - t > cache_ttl)"

text \<open>The floors of \<open>accounts.claude_compaction\<close>.\<close>

record compaction_floors =
  fl_relay :: int
  fl_expired :: int

definition expired_cache_compaction_wanted ::
  "pool_env \<Rightarrow> compaction_floors \<Rightarrow> string option \<Rightarrow> int option \<Rightarrow> int option \<Rightarrow> int \<Rightarrow> bool" where
  "expired_cache_compaction_wanted P F model tokens last_request now =
     (is_fable P model \<and> (case tokens of None \<Rightarrow> False | Some n \<Rightarrow> n \<ge> fl_expired F) \<and> cache_expired last_request now)"

definition relay_compaction_wanted :: "pool_env \<Rightarrow> compaction_floors \<Rightarrow> string option \<Rightarrow> int option \<Rightarrow> bool" where
  "relay_compaction_wanted P F model tokens =
     (is_fable P model \<and> (case tokens of None \<Rightarrow> False | Some n \<Rightarrow> n \<ge> fl_relay F))"

definition newest_boundary_pre_tokens :: "transcript \<Rightarrow> int option" where
  "newest_boundary_pre_tokens t =
     (if ts_rows t = [] then None
      else case dget (last (ts_rows t)) ''compactMetadata'' of
             JObj m \<Rightarrow> (case dget m ''preTokens'' of JInt i \<Rightarrow> Some i | _ \<Rightarrow> None)
           | _ \<Rightarrow> None)"

text \<open>
  The answer of the compacting process: it cannot be started, it times out, or it exits with a
  code and the JSON its output parses to. Its second part is the transcript it leaves.
\<close>

datatype compaction_run = CannotStart string | CompactTimeout | CompactExit int "json option"

definition key_names :: "pool_env \<Rightarrow> json \<Rightarrow> string list py" where
  "key_names P v = py_bind (if jtruthy v then jiter v else Inr []) (\<lambda>xs. Inr (map (py_str (pe_show P)) xs))"

definition comma_names :: "string list \<Rightarrow> string" where
  "comma_names names = py_join '', '' names"

text \<open>\<open>_judge\<close>: \<open>None\<close> is success, otherwise the error; \<open>modelUsage\<close> is an object of model names.\<close>

definition judge_compaction :: "pool_env \<Rightarrow> int \<Rightarrow> json option \<Rightarrow> nat \<Rightarrow> nat \<Rightarrow> string option py" where
  "judge_compaction P code out before after =
     (case out of
        Some (JObj res) \<Rightarrow>
          py_bind (key_names P (dget res ''modelUsage'')) (\<lambda>models.
            if code \<noteq> 0 \<or> jtruthy (dget res ''is_error'')
            then let detail = (if jtruthy (dget res ''result'')
                               then str_take 200 (str_strip (py_str (pe_show P) (dget res ''result''))) else [])
                 in Inr (Some (''exit '' @ int_str code @ '': '' @ (if detail \<noteq> [] then detail else ''run reported an error'')))
            else if after \<le> before then Inr (Some ''transcript gained no compact_boundary row'')
            else if models = [] \<or> list_ex (\<lambda>n. model_family P (Some n) \<noteq> compaction_family) models
            then Inr (Some (''compaction served by '' @ (if models = [] then ''no model'' else comma_names models)))
            else Inr None)
      | _ \<Rightarrow> Inr (Some (''exit '' @ int_str code @ '', no JSON result on stdout'')))"

definition int_or_null :: "int option \<Rightarrow> json" where
  "int_or_null v = (case v of None \<Rightarrow> JNull | Some i \<Rightarrow> JInt i)"

text \<open>\<open>make_context_compacted_event\<close> and \<open>make_context_compact_failed_event\<close>.\<close>

definition context_compacted_event :: "json \<Rightarrow> json \<Rightarrow> string option \<Rightarrow> dict" where
  "context_compacted_event trigger pre model =
     [(''type'', JStr ET_CONTEXT_COMPACTED), (''trigger'', trigger), (''pre_tokens'', pre)] @
     (case model of None \<Rightarrow> [] | Some m \<Rightarrow> [(''model'', JStr m)])"

definition context_compact_failed_event :: "json \<Rightarrow> string option \<Rightarrow> dict" where
  "context_compact_failed_event err model =
     [(''type'', JStr ET_CONTEXT_COMPACT_FAILED), (''error'', err)] @
     (case model of None \<Rightarrow> [] | Some m \<Rightarrow> [(''model'', JStr m)])"

definition compact_failed :: "string \<Rightarrow> bool \<times> dict" where
  "compact_failed err = (False, context_compact_failed_event (JStr err) (Some compaction_model))"

text \<open>Whether it worked, and the one event it emits; the transcript is the run's.\<close>

definition compact_with_sonnet ::
  "pool_env \<Rightarrow> (transcript \<Rightarrow> compaction_run \<times> transcript) \<Rightarrow> string \<Rightarrow> string \<Rightarrow> int option \<Rightarrow> transcripts \<Rightarrow>
     (bool \<times> dict) py \<times> transcripts" where
  "compact_with_sonnet P run cc dir pre T =
     (case transcript_path T dir cc of
        None \<Rightarrow> (Inr (compact_failed (''no transcript for '' @ cc @ '' under '' @ dir)), T)
      | Some (slug, t) \<Rightarrow>
          let (answer, t') = run t; T' = put_transcript dir cc slug t' T in
          (case answer of
             CannotStart err \<Rightarrow> (Inr (compact_failed (''could not start claude: '' @ err)), T')
           | CompactTimeout \<Rightarrow> (Inr (compact_failed ''timed out after 900 s''), T')
           | CompactExit code out \<Rightarrow>
               (py_bind (judge_compaction P code out (length (ts_rows t)) (length (ts_rows t'))) (\<lambda>err.
                  case err of
                    Some msg \<Rightarrow> Inr (compact_failed msg)
                  | None \<Rightarrow>
                      Inr (True, context_compacted_event (JStr ''manual'')
                             (int_or_null (case pre of Some n \<Rightarrow> Some n | None \<Rightarrow> newest_boundary_pre_tokens t'))
                             (Some compaction_model))), T')))"

subsection \<open>The master's turn\<close>

definition choose_turn_account ::
  "pool_env \<Rightarrow> pool_state \<Rightarrow> string option \<Rightarrow> string option \<Rightarrow> string set \<Rightarrow> int option \<Rightarrow> int \<Rightarrow>
     claude_account option \<times> bool" where
  "choose_turn_account P S held model busy last_request now =
     (let cold = cache_expired last_request now;
          stays = (case account_by_label P held of
                     None \<Rightarrow> None
                   | Some a \<Rightarrow>
                       if ca_label a \<notin> busy \<and> \<not> cold \<and> healthy P S a now \<and>
                          (case latest_reading P S (ca_label a) model now of
                             None \<Rightarrow> True
                           | Some r \<Rightarrow> rd_used r < warning_utilization \<and>
                               \<not> (case rd_rejected_until r of Some t \<Rightarrow> t > now | None \<Rightarrow> False))
                       then Some a else None)
      in (case stays of Some a \<Rightarrow> Some a | None \<Rightarrow> select P S model [] (Some busy) now, cold))"

fun report_empty_credentials :: "pool_env \<Rightarrow> claude_account list \<Rightarrow> pool_state \<Rightarrow> dict list \<times> pool_state" where
  "report_empty_credentials P [] S = ([], S)"
| "report_empty_credentials P (a # as) S =
     (let (due, S1) = login_notice_due (ca_label a) (\<not> credentials_present P a) S;
          (evs, S2) = report_empty_credentials P as S1
      in (if due then login_required_event a ''empty_credentials'' # evs else evs, S2))"

definition report_login_failure :: "claude_account \<Rightarrow> int \<Rightarrow> pool_state \<Rightarrow> dict \<times> pool_state" where
  "report_login_failure a now S =
     (login_required_event a ''auth_failed'', record_auth_failure (ca_label a) now S)"

text \<open>What placing a turn changes: the session's account, the pool's memory, transcripts, events.\<close>

record placing =
  pl_held :: "string option"
  pl_pool :: pool_state
  pl_transcripts :: transcripts
  pl_events :: "dict list"

definition switch_account ::
  "pool_env \<Rightarrow> claude_account \<Rightarrow> string option \<Rightarrow> placing \<Rightarrow> string option py \<times> placing" where
  "switch_account P chosen resume L =
     (case account_by_label P (pl_held L) of
        None \<Rightarrow> (Inr None, L)
      | Some prev \<Rightarrow>
          if ca_label prev = ca_label chosen \<or> \<not> truthy resume then (Inr None, L)
          else (case move_transcript (the resume) (ca_dir prev) (ca_dir chosen) (pl_transcripts L) of
                  (Moved, T) \<Rightarrow> (Inr None, L\<lparr>pl_transcripts := T\<rparr>)
                | (MoveError msg, T) \<Rightarrow>
                    (Inr (Some (''Claude account switch failed: '' @ msg)), L\<lparr>pl_transcripts := T\<rparr>)
                | (MoveRaised e, T) \<Rightarrow> (Inl e, L\<lparr>pl_transcripts := T\<rparr>)))"

definition place_turn ::
  "pool_env \<Rightarrow> compaction_floors \<Rightarrow> (transcript \<Rightarrow> compaction_run \<times> transcript) \<Rightarrow> string option \<Rightarrow> string option \<Rightarrow>
     string set \<Rightarrow> int option \<Rightarrow> int option \<Rightarrow> int \<Rightarrow> placing \<Rightarrow> (string + claude_account) py \<times> placing" where
  "place_turn P F run model resume busy tokens last_request now L =
     (case choose_turn_account P (pl_pool L) (pl_held L) model busy last_request now of
        (None, _) \<Rightarrow> (Inr (Inl (pool_exhausted_message P (pl_pool L) now)), L)
      | (Some chosen, cold) \<Rightarrow>
          (case switch_account P chosen resume L of
             (Inl e, L1) \<Rightarrow> (Inl e, L1)
           | (Inr (Some msg), L1) \<Rightarrow> (Inr (Inl msg), L1)
           | (Inr None, L1) \<Rightarrow>
               let (notices, S) = report_empty_credentials P (pool P) (pl_pool L1);
                   L2 = L1\<lparr>pl_held := Some (ca_label chosen), pl_pool := S, pl_events := pl_events L1 @ notices\<rparr>
               in if truthy resume \<and> cold \<and> expired_cache_compaction_wanted P F model tokens last_request now
                  then (case compact_with_sonnet P run (the resume) (ca_dir chosen) tokens (pl_transcripts L2) of
                          (Inl e, T) \<Rightarrow> (Inl e, L2\<lparr>pl_transcripts := T\<rparr>)
                        | (Inr (_, ev), T) \<Rightarrow>
                            (Inr (Inr chosen), L2\<lparr>pl_transcripts := T, pl_events := pl_events L2 @ [ev]\<rparr>))
                  else (Inr (Inr chosen), L2)))"

definition prepare_relay ::
  "pool_env \<Rightarrow> compaction_floors \<Rightarrow> (transcript \<Rightarrow> compaction_run \<times> transcript) \<Rightarrow> string option \<Rightarrow> string option \<Rightarrow>
     claude_account \<Rightarrow> int option \<Rightarrow> int \<Rightarrow> placing \<Rightarrow> (string + claude_account) py \<times> placing" where
  "prepare_relay P F run model cc current tokens now L =
     (case move_to_next_account P (pl_pool L) model current cc now (pl_transcripts L) of
        (Inl e, T) \<Rightarrow> (Inl e, L\<lparr>pl_transcripts := T\<rparr>)
      | (Inr (Inl msg), T) \<Rightarrow> (Inr (Inl msg), L\<lparr>pl_transcripts := T\<rparr>)
      | (Inr (Inr nxt), T) \<Rightarrow>
          if relay_compaction_wanted P F model tokens
          then (case compact_with_sonnet P run (the cc) (ca_dir nxt) tokens T of
                  (Inl e, T') \<Rightarrow> (Inl e, L\<lparr>pl_transcripts := T'\<rparr>)
                | (Inr (_, ev), T') \<Rightarrow>
                    (Inr (Inr nxt), L\<lparr>pl_transcripts := T', pl_events := pl_events L @ [ev]\<rparr>))
          else (Inr (Inr nxt), L\<lparr>pl_transcripts := T\<rparr>))"

end
