(* ===== verification/Account_Laws.thy ===== *)
theory Account_Laws
  imports Account_Relay
begin

text \<open>
  What the pool promises of the account it chooses, what a reading can hide, when the operator is
  told of a login, and where the transcript of a placed turn is.
\<close>

subsection \<open>Lists\<close>

lemma max_of_mem: "xs \<noteq> [] \<Longrightarrow> max_of xs \<in> set xs"
  by (induction xs rule: max_of.induct) (auto simp: max_def)

lemma max_of_upper: "x \<in> set xs \<Longrightarrow> x \<le> max_of xs"
  by (induction xs rule: max_of.induct) (auto simp: le_max_iff_disj)

lemma set_map_filter: "set (List.map_filter f xs) = {y. \<exists>x \<in> set xs. f x = Some y}"
  by (force simp: List.map_filter_def)

lemma arg_min_list_mem: "xs \<noteq> [] \<Longrightarrow> arg_min_list f xs \<in> set xs"
  by (rule arg_min_list_in)

lemma arg_min_list_le: "x \<in> set xs \<Longrightarrow> f (arg_min_list f xs) \<le> f x"
  using f_arg_min_list_f [of xs f] by (cases xs) auto

subsection \<open>Doubles\<close>

lemma double_0 [simp]: "double 0 = 0" by (simp add: double_def)

lemma score_tie_pos: "0 \<le> score_tie" by code_simp

subsection \<open>The choice\<close>

definition available_account ::
  "pool_env \<Rightarrow> pool_state \<Rightarrow> string option \<Rightarrow> string list \<Rightarrow> int \<Rightarrow> claude_account \<Rightarrow> bool" where
  "available_account P S model exclude now a =
     (a \<in> set (pool P) \<and> ca_label a \<notin> set exclude \<and> healthy P S a now \<and> headroom P S (ca_label a) model now > 0)"

lemma set_available:
  "set (available P S model exclude now) =
     {(a, headroom P S (ca_label a) model now) | a. available_account P S model exclude now a}"
  by (auto simp: available_def set_map_filter available_account_def Let_def split: if_splits)

lemma contenders_sub: "set (contenders busy av) \<subseteq> set av"
  by (auto simp: contenders_def Let_def)

lemma contenders_Nil: "contenders busy av = [] \<longleftrightarrow> av = []"
  by (auto simp: contenders_def Let_def)

lemma contenders_busy:
  assumes "(a, h) \<in> set (contenders (Some B) av)" "ca_label a \<in> B" "(b, k) \<in> set av"
  shows "ca_label b \<in> B"
proof (rule ccontr)
  assume "ca_label b \<notin> B"
  then have "filter (\<lambda>(a, _). ca_label a \<notin> B) av \<noteq> []" using assms(3) by (auto simp: filter_empty_conv)
  then have "(a, h) \<in> set (filter (\<lambda>(a, _). ca_label a \<notin> B) av)"
    using assms(1) unfolding contenders_def Let_def option.case if_P [OF \<open>filter _ _ \<noteq> []\<close>] by simp
  then show False using assms(2) by simp
qed

definition tied_accounts :: "pool_env \<Rightarrow> pool_state \<Rightarrow> string option \<Rightarrow> int \<Rightarrow> (claude_account \<times> rat) list \<Rightarrow> claude_account list" where
  "tied_accounts P S model now C =
     map fst (filter (\<lambda>c. double (max_of (map (score P S model now) C) - score P S model now c) \<le> score_tie) C)"

lemma select_eq:
  "select P S model exclude busy now =
     (let C = contenders busy (available P S model exclude now)
      in if C = [] then None
         else Some (arg_min_list (\<lambda>a. last_active_at S (ca_label a)) (tied_accounts P S model now C)))"
proof -
  have "List.map_filter (\<lambda>(s, a). if double (b - s) \<le> score_tie then Some a else None)
            (map (\<lambda>x. (score P S model now x, fst x)) C) =
        map fst (filter (\<lambda>c. double (b - score P S model now c) \<le> score_tie) C)" for b C
    by (induction C) (auto simp: List.map_filter_simps)
  then show ?thesis by (simp add: select_def tied_accounts_def contenders_Nil Let_def comp_def)
qed

lemma tied_nonempty:
  assumes "C \<noteq> []" shows "tied_accounts P S model now C \<noteq> []"
proof -
  let ?f = "score P S model now"
  obtain c where c: "c \<in> set C" "?f c = max_of (map ?f C)"
    using max_of_mem [of "map ?f C"] assms by auto
  then have "c \<in> set (filter (\<lambda>c. double (max_of (map ?f C) - ?f c) \<le> score_tie) C)"
    using score_tie_pos by simp
  then show ?thesis unfolding tied_accounts_def by (metis empty_iff list.set(1) map_is_Nil_conv)
qed

lemma select_cases:
  assumes "select P S model exclude busy now = Some a"
  obtains hr where "(a, hr) \<in> set (contenders busy (available P S model exclude now))"
    "double (max_of (map (score P S model now) (contenders busy (available P S model exclude now))) - score P S model now (a, hr)) \<le> score_tie"
    "\<And>b. b \<in> set (tied_accounts P S model now (contenders busy (available P S model exclude now))) \<Longrightarrow>
        last_active_at S (ca_label a) \<le> last_active_at S (ca_label b)"
proof -
  define C where "C = contenders busy (available P S model exclude now)"
  let ?t = "tied_accounts P S model now C" and ?f = "\<lambda>a. last_active_at S (ca_label a)"
  have ne: "C \<noteq> []" and a: "a = arg_min_list ?f ?t"
    using assms unfolding select_eq C_def [symmetric] by (auto simp: Let_def split: if_splits)
  have "a \<in> set ?t" using a arg_min_list_mem [OF tied_nonempty [OF ne], of ?f] by simp
  then obtain hr where "(a, hr) \<in> set C" "double (max_of (map (score P S model now) C) - score P S model now (a, hr)) \<le> score_tie"
    by (auto simp: tied_accounts_def)
  moreover have "?f a \<le> ?f b" if "b \<in> set ?t" for b using a arg_min_list_le [OF that, of ?f] by simp
  ultimately show thesis using that unfolding C_def by blast
qed

lemma select_available:
  assumes "select P S model exclude busy now = Some a" shows "available_account P S model exclude now a"
proof -
  obtain hr where "(a, hr) \<in> set (contenders busy (available P S model exclude now))"
    using select_cases [OF assms] by metis
  then have "(a, hr) \<in> set (available P S model exclude now)" using contenders_sub by blast
  then show ?thesis unfolding set_available by blast
qed

lemma headroom_nonneg: "0 \<le> headroom P S label model now"
  by (simp add: headroom_def split: option.splits)

text \<open>
  C22. An account is chosen for the next process exactly when one is available: in the pool, not the
  one being left, logged in, not recently refused, and with headroom. The chosen one is available;
  when it is held by another session every available one is; no contender scores more than the
  tie margin above it, and of those in the margin none has been idle for longer.
\<close>

theorem selection_rule:
  "case select P S model exclude busy now of
     None \<Rightarrow> \<forall>a. \<not> available_account P S model exclude now a
   | Some a \<Rightarrow>
       available_account P S model exclude now a \<and>
       (\<forall>B b. busy = Some B \<longrightarrow> ca_label a \<in> B \<longrightarrow> available_account P S model exclude now b \<longrightarrow> ca_label b \<in> B) \<and>
       (let C = set (contenders busy (available P S model exclude now));
            value = (\<lambda>b. score P S model now (b, headroom P S (ca_label b) model now));
            margin = (\<lambda>b. double (Max (score P S model now ` C) - value b))
        in margin a \<le> score_tie \<and>
           (\<forall>(b, _) \<in> C. margin b \<le> score_tie \<longrightarrow> last_active_at S (ca_label a) \<le> last_active_at S (ca_label b)))"
proof (cases "select P S model exclude busy now")
  case None
  then have "available P S model exclude now = []" by (simp add: select_def Let_def split: if_splits)
  then have "set (available P S model exclude now) = {}" by simp
  then show ?thesis using None unfolding set_available by simp
next
  case (Some a)
  let ?f = "score P S model now"
  define C where "C = contenders busy (available P S model exclude now)"
  obtain hr where a: "(a, hr) \<in> set C" "double (max_of (map ?f C) - ?f (a, hr)) \<le> score_tie"
    "\<And>b. b \<in> set (tied_accounts P S model now C) \<Longrightarrow> last_active_at S (ca_label a) \<le> last_active_at S (ca_label b)"
    using select_cases [OF Some] unfolding C_def by metis
  have sub: "set C \<subseteq> set (available P S model exclude now)" unfolding C_def by (rule contenders_sub)
  have hr: "h = headroom P S (ca_label b) model now" if "(b, h) \<in> set C" for b h
    using that sub unfolding set_available by blast
  have av: "available_account P S model exclude now a" using a(1) sub unfolding set_available by blast
  have "C \<noteq> []" using a(1) by auto
  then have mx: "Max (?f ` set C) = max_of (map ?f C)"
    using max_of_mem [of "map ?f C"] max_of_upper [of _ "map ?f C"] by (intro Max_eqI) auto
  have busy: "ca_label b \<in> B" if "busy = Some B" "ca_label a \<in> B" "available_account P S model exclude now b" for B b
    using contenders_busy [of a hr B "available P S model exclude now" b] a(1) that
    unfolding C_def set_available by blast
  have last: "last_active_at S (ca_label a) \<le> last_active_at S (ca_label b)"
    if "(b, h) \<in> set C" "double (max_of (map ?f C) - ?f (b, h)) \<le> score_tie" for b h
    using a(3) that by (force simp: tied_accounts_def)
  show ?thesis
    using av busy a(2) hr [OF a(1)] last hr
    unfolding Some option.case C_def [symmetric] Let_def mx by blast
qed

definition demo_pool_env :: pool_env where
  "demo_pool_env =
     \<lparr>pe_accounts = [\<lparr>ca_label = ''a'', ca_dir = ''/a''\<rparr>, \<lparr>ca_label = ''b'', ca_dir = ''/b''\<rparr>],
      pe_expand = (\<lambda>d. d),
      pe_credentials = (\<lambda>_. Some (JObj [(''claudeAiOauth'', JObj [(''accessToken'', JStr ''t'')])])),
      pe_iso = (\<lambda>_. None), pe_lower = (\<lambda>s. s), pe_show = (\<lambda>_. [])\<rparr>"

definition demo_pool :: pool_state where
  "demo_pool =
     reset_for_tests\<lparr>ps_events := [''a'' \<mapsto> \<lparr>rd_at = 10, rd_used = 1, rd_rejected_until = Some 1000\<rparr>]\<rparr>"

lemma demo_select: "select demo_pool_env demo_pool None [] (Some {''b''}) 20 = Some \<lparr>ca_label = ''b'', ca_dir = ''/b''\<rparr>"
  by code_simp

theorem selection_rule_witness:
  "ca_label \<lparr>ca_label = ''b'', ca_dir = ''/b''\<rparr> \<in> {''b''} \<and>
   \<not> available_account demo_pool_env demo_pool None [] 20 \<lparr>ca_label = ''a'', ca_dir = ''/a''\<rparr>"
  using selection_rule [where P = demo_pool_env and S = demo_pool and model = None and exclude = "[]" and
      busy = "Some {''b''}" and now = 20]
  unfolding demo_select option.case by (auto simp: Let_def)

subsection \<open>Rejections\<close>

lemma rejected_headroom:
  assumes "ps_events S l = Some r" "rd_rejected_until r = Some t" "now < t"
    and "\<And>q. panel_reading P S l None now = Some q \<Longrightarrow> rd_at q \<le> rd_at r"
  shows "headroom P S l model now = 0"
proof -
  have g: "general_reading P S l now = Some r"
    using assms(1,4) by (cases "panel_reading P S l None now") (auto simp: general_reading_def)
  show ?thesis
    using assms(2,3) by (auto simp: headroom_def latest_reading_def Let_def g fuse_def split: option.splits)
qed

text \<open>
  An account whose newest event is a rejection is not chosen before the rejection's reset,
  whatever its panel says of a model, as long as the panel is not newer.
\<close>

theorem rejected_account_is_left_alone:
  assumes "ps_events S (ca_label a) = Some r" "rd_rejected_until r = Some t" "now < t"
    and "\<forall>q. panel_reading P S (ca_label a) None now = Some q \<longrightarrow> rd_at q \<le> rd_at r"
  shows "select P S model exclude busy now \<noteq> Some a"
proof
  assume sel: "select P S model exclude busy now = Some a"
  have "headroom P S (ca_label a) model now = 0"
    using assms(4) by (intro rejected_headroom [OF assms(1-3)]) blast
  moreover have "available_account P S model exclude now a" using sel by (rule select_available)
  ultimately show False by (simp add: available_account_def)
qed

theorem rejected_account_is_left_alone_witness:
  "select demo_pool_env demo_pool (Some ''claude-fable-5'') [] None 20 \<noteq> Some \<lparr>ca_label = ''a'', ca_dir = ''/a''\<rparr>"
  by (rule rejected_account_is_left_alone [where r = "\<lparr>rd_at = 10, rd_used = 1, rd_rejected_until = Some 1000\<rparr>" and t = 1000])
    (simp_all add: demo_pool_def reset_for_tests_def panel_reading_def)

text \<open>A newer panel takes the rejection's place: the headroom is read from the panel alone.\<close>

theorem newer_panel_hides_rejection:
  assumes "ps_events S l = Some r" "rd_rejected_until r = Some t" "now < t"
    and "panel_reading P S l None now = Some q" "rd_at r < rd_at q"
  shows "headroom P S l None now = max 0 (double (1 - rd_used q))"
proof -
  have "rd_rejected_until q = None"
    using assms(4) by (auto simp: panel_reading_def Let_def split: option.splits if_splits)
  then show ?thesis
    using assms by (simp add: headroom_def latest_reading_def general_reading_def Let_def)
qed

definition masked_pool :: pool_state where
  "masked_pool =
     demo_pool\<lparr>ps_panels := [''a'' \<mapsto> (15, [[(''utilization'', JInt 40), (''window_minutes'', JInt 300)]])]\<rparr>"

theorem newer_panel_hides_rejection_witness:
  "headroom demo_pool_env masked_pool ''a'' None 20 = 5404319552844595 / 9007199254740992 \<and>
   available_account demo_pool_env masked_pool None [] 20 \<lparr>ca_label = ''a'', ca_dir = ''/a''\<rparr>"
proof -
  let ?q = "\<lparr>rd_at = 15, rd_used = double (40 / 100), rd_rejected_until = None\<rparr>"
  have "panel_reading demo_pool_env masked_pool ''a'' None 20 = Some ?q" by code_simp
  then have "headroom demo_pool_env masked_pool ''a'' None 20 = max 0 (double (1 - rd_used ?q))"
    by (intro newer_panel_hides_rejection [where r = "\<lparr>rd_at = 10, rd_used = 1, rd_rejected_until = Some 1000\<rparr>" and t = 1000])
      (simp_all add: masked_pool_def demo_pool_def)
  moreover have "max 0 (double (1 - rd_used ?q)) = 5404319552844595 / 9007199254740992" by code_simp
  ultimately have h: "headroom demo_pool_env masked_pool ''a'' None 20 = 5404319552844595 / 9007199254740992" by simp
  moreover have "healthy demo_pool_env masked_pool \<lparr>ca_label = ''a'', ca_dir = ''/a''\<rparr> 20" by code_simp
  ultimately show ?thesis by (simp add: available_account_def pool_def demo_pool_env_def)
qed

subsection \<open>Scoped windows\<close>

text \<open>
  A live window of the model's own weekly bucket is never masked: whatever newer and lower
  readings there are, the reading used for that model is at least the window's utilization.
\<close>

theorem scoped_window_never_masked:
  assumes "w \<in> set (live_windows P S l (Some m) now)" "jtruthy (dget w ''scope_label'')"
    and "jnumber (dget w ''utilization'') = Some v"
  shows "\<exists>r. latest_reading P S l (Some m) now = Some r \<and> double (v / 100) \<le> rd_used r"
proof -
  let ?vs = "window_values (live_windows P S l (Some m) now)"
  have mem: "double (v / 100) \<in> set ?vs"
    unfolding window_values_def set_map_filter using assms(1,3) by force
  then have "double (v / 100) \<le> max_of ?vs" "?vs \<noteq> []" by (auto intro: max_of_upper)
  moreover obtain sampled ws where "ps_panels S l = Some (sampled, ws)"
    using assms(1) by (cases "ps_panels S l") (auto simp: live_windows_def)
  ultimately obtain q where q: "panel_reading P S l (Some m) now = Some q" "double (v / 100) \<le> rd_used q"
    by (simp add: panel_reading_def)
  have "latest_reading P S l (Some m) now = Some (fuse (general_reading P S l now) q now)"
    using assms(1,2) q(1) unfolding latest_reading_def Let_def by auto
  then show ?thesis using q(2) by (simp add: fuse_def le_max_iff_disj)
qed

definition scoped_pool :: pool_state where
  "scoped_pool =
     reset_for_tests\<lparr>ps_events := [''a'' \<mapsto> \<lparr>rd_at = 20, rd_used = 1 / 5, rd_rejected_until = None\<rparr>],
       ps_panels := [''a'' \<mapsto> (15, [[(''utilization'', JInt 85), (''scope_label'', JStr ''fable'')]])]\<rparr>"

theorem scoped_window_never_masked_witness:
  "\<exists>r. latest_reading demo_pool_env scoped_pool ''a'' (Some ''claude-fable-5'') 30 = Some r \<and>
       double (85 / 100) \<le> rd_used r"
proof -
  let ?w = "[(''utilization'', JInt 85), (''scope_label'', JStr ''fable'')]"
  have "live_windows demo_pool_env scoped_pool ''a'' (Some ''claude-fable-5'') 30 = [?w]" by code_simp
  moreover have "jnumber (dget ?w ''utilization'') = Some 85" by code_simp
  ultimately show ?thesis by (intro scoped_window_never_masked [where w = ?w]) simp_all
qed

subsection \<open>Login notices\<close>

fun notices :: "(string \<times> bool) list \<Rightarrow> pool_state \<Rightarrow> bool list" where
  "notices [] S = []"
| "notices ((l, u) # cs) S = (let (due, S') = login_notice_due l u S in due # notices cs S')"

text \<open>Whether the last call on an account found it unhealthy; before any call, what is remembered.\<close>

fun last_unhealthy :: "string \<Rightarrow> (string \<times> bool) list \<Rightarrow> pool_state \<Rightarrow> bool" where
  "last_unhealthy l [] S = (l \<in> ps_notified S)"
| "last_unhealthy l ((k, u) # cs) S = last_unhealthy l cs (snd (login_notice_due k u S))"

lemma notified_after: "l \<in> ps_notified (snd (login_notice_due k u S)) \<longleftrightarrow> (if k = l then u else l \<in> ps_notified S)"
  by (auto simp: login_notice_due_def)

text \<open>
  One notice per spell: a call announces a login exactly when it finds the account unhealthy and
  the previous call on the same account, whatever was called on others between, did not.
\<close>

lemma notice_once_per_spell:
  "i < length cs \<Longrightarrow> cs ! i = (l, u) \<Longrightarrow> notices cs S ! i = (u \<and> \<not> last_unhealthy l (take i cs) S)"
proof (induction cs arbitrary: i S)
  case (Cons c cs)
  obtain k v where c: "c = (k, v)" by fastforce
  show ?case
  proof (cases i)
    case 0
    then show ?thesis using Cons.prems c by (auto simp: login_notice_due_def split: if_splits)
  next
    case (Suc j)
    then show ?thesis using Cons c by (auto simp: split_beta)
  qed
qed simp

lemma last_unhealthy_is_last:
  "last_unhealthy l cs S =
     (case filter (\<lambda>c. fst c = l) (rev cs) of [] \<Rightarrow> l \<in> ps_notified S | c # _ \<Rightarrow> snd c)"
proof (induction cs arbitrary: S)
  case (Cons c cs)
  obtain k v where "c = (k, v)" by fastforce
  then show ?case using Cons by (auto simp: notified_after split: list.splits)
qed simp

subsection \<open>Moving transcripts\<close>

definition stale_files :: "(string \<times> nat) list \<Rightarrow> (string \<times> nat) list \<Rightarrow> (string \<times> nat) list" where
  "stale_files files there = filter (\<lambda>f. fst f \<notin> fst ` set files) there"

definition sidecar_there :: "transcript option \<Rightarrow> (string \<times> nat) list" where
  "sidecar_there old = (case old of None \<Rightarrow> [] | Some t \<Rightarrow> (case ts_sidecar t of None \<Rightarrow> [] | Some fs \<Rightarrow> fs))"

lemma tree_bytes_copy: "tree_bytes (copy_tree files there) = tree_bytes (stale_files files there) + tree_bytes files"
  by (simp add: tree_bytes_def copy_tree_def stale_files_def)

lemma move_moved_iff:
  "fst (move_transcript cc src dst T) = Moved \<longleftrightarrow>
     src \<noteq> dst \<and> (\<exists>slug t. transcript_path T src cc = Some (slug, t) \<and>
        (\<forall>files. ts_sidecar t = Some files \<longrightarrow>
           tree_bytes (stale_files files (sidecar_there (map_of (T dst cc) slug))) = 0))"
  by (auto simp: move_transcript_def landed_def Let_def tree_bytes_copy sidecar_there_def split: option.splits)

lemma put_project_ne: "put_project slug t ps \<noteq> []"
  by (simp add: put_project_def)

text \<open>Some project directory of the login holds the conversation.\<close>

definition holds_transcript :: "transcripts \<Rightarrow> string \<Rightarrow> string \<Rightarrow> bool" where
  "holds_transcript T dir cc = (T dir cc \<noteq> [])"

lemma holds_iff: "holds_transcript T dir cc \<longleftrightarrow> transcript_path T dir cc \<noteq> None"
  by (auto simp: holds_transcript_def transcript_path_def split: list.splits)

lemma holds_put [simp]:
  "holds_transcript (put_transcript d c slug t T) dir cc \<longleftrightarrow> (d = dir \<and> c = cc) \<or> holds_transcript T dir cc"
  using put_project_ne by (auto simp: holds_transcript_def put_transcript_def)

lemma move_keeps:
  "holds_transcript T dir cc \<Longrightarrow> holds_transcript (snd (move_transcript c src dst T)) dir cc"
  by (auto simp: move_transcript_def Let_def split: option.splits prod.splits)

lemma move_arrives:
  "move_transcript cc src dst T = (Moved, T') \<Longrightarrow> holds_transcript T' dst cc"
  by (auto simp: move_transcript_def Let_def split: option.splits if_splits)

lemma compact_keeps:
  "holds_transcript T dir cc \<Longrightarrow> holds_transcript (snd (compact_with_sonnet P run c d pre T)) dir cc"
  by (auto simp: compact_with_sonnet_def Let_def split: option.splits compaction_run.splits prod.splits)

subsection \<open>Placing a turn\<close>

lemma account_by_label_Some:
  assumes "account_by_label P l = Some a"
  shows "a \<in> set (pool P)" "l = Some (ca_label a)"
proof -
  have "find (\<lambda>b. Some (ca_label b) = l) (pool P) = Some a"
    using assms unfolding account_by_label_def by (cases "truthy l") (simp_all only: simp_thms if_True if_False option.distinct)
  from find_Some_in [OF this] show "a \<in> set (pool P)" "l = Some (ca_label a)" by simp_all
qed

lemma pool_labels:
  assumes "distinct (map ca_label (pe_accounts P))" "a \<in> set (pool P)" "b \<in> set (pool P)" "ca_label a = ca_label b"
  shows "a = b"
proof -
  obtain x y where "a = \<lparr>ca_label = ca_label x, ca_dir = pe_expand P (ca_dir x)\<rparr>" "x \<in> set (pe_accounts P)"
    "b = \<lparr>ca_label = ca_label y, ca_dir = pe_expand P (ca_dir y)\<rparr>" "y \<in> set (pe_accounts P)"
    using assms(2,3) unfolding pool_def by auto
  moreover from this have "x = y" using assms(1,4) inj_onD [of ca_label "set (pe_accounts P)" x y] by (simp add: distinct_map)
  ultimately show ?thesis by simp
qed

lemma choose_turn_account_cases:
  assumes "choose_turn_account P S held model busy last_request now = (Some a, cold)"
  shows "a \<in> set (pool P) \<and> healthy P S a now \<and>
    (ca_label a \<in> busy \<longrightarrow> (\<forall>b. available_account P S model [] now b \<longrightarrow> ca_label b \<in> busy))"
proof -
  consider "account_by_label P held = Some a" "ca_label a \<notin> busy" "healthy P S a now"
    | "select P S model [] (Some busy) now = Some a"
    using assms by (auto simp: choose_turn_account_def Let_def split: option.splits if_splits)
  then show ?thesis
  proof cases
    case 1
    then show ?thesis using account_by_label_Some(1) [OF 1(1)] by simp
  next
    case 2
    obtain hr where hr: "(a, hr) \<in> set (contenders (Some busy) (available P S model [] now))"
      using select_cases [OF 2] by metis
    have "ca_label b \<in> busy" if "ca_label a \<in> busy" "available_account P S model [] now b" for b
      using contenders_busy [OF hr that(1)] that(2) unfolding set_available by blast
    then show ?thesis using select_available [OF 2] by (auto simp: available_account_def)
  qed
qed

lemma switch_holds:
  assumes "switch_account P chosen (Some cc) L = (Inr None, L1)" "cc \<noteq> []"
    and "account_by_label P (pl_held L) = Some prev" "holds_transcript (pl_transcripts L) (ca_dir prev) cc"
    and "distinct (map ca_label (pe_accounts P))" "chosen \<in> set (pool P)"
  shows "holds_transcript (pl_transcripts L1) (ca_dir chosen) cc"
proof (cases "ca_label prev = ca_label chosen")
  case True
  then have "prev = chosen" using pool_labels [OF assms(5) account_by_label_Some(1) [OF assms(3)] assms(6)] by simp
  then show ?thesis using True assms(1,3,4) by (simp add: switch_account_def)
next
  case False
  then show ?thesis
    using assms(1-3) by (auto simp: switch_account_def truthy_def intro: move_arrives split: prod.splits move_result.splits)
qed

text \<open>
  C23. A placed turn resumes where its conversation is: when the session's account holds the
  transcript, the login the turn is given holds it after any move and compaction, the session is
  recorded on that login, the login is healthy, and it is shared with another running session only
  when every available one is.
\<close>

theorem placed_turn_finds_its_transcript:
  assumes "place_turn P F run model (Some cc) busy tokens last_request now L = (Inr (Inr a), L')" "cc \<noteq> []"
    and "account_by_label P (pl_held L) = Some prev" "holds_transcript (pl_transcripts L) (ca_dir prev) cc"
    and "distinct (map ca_label (pe_accounts P))"
  shows "holds_transcript (pl_transcripts L') (ca_dir a) cc \<and> pl_held L' = Some (ca_label a) \<and>
         healthy P (pl_pool L) a now \<and>
         (ca_label a \<in> busy \<longrightarrow> (\<forall>b. available_account P (pl_pool L) model [] now b \<longrightarrow> ca_label b \<in> busy))"
proof -
  obtain chosen cold where ch: "choose_turn_account P (pl_pool L) (pl_held L) model busy last_request now = (chosen, cold)"
    by fastforce
  then obtain c L1 where c: "chosen = Some c" "switch_account P c (Some cc) L = (Inr None, L1)"
    using assms(1) by (auto simp: place_turn_def split: option.splits sum.splits prod.splits)
  note h = choose_turn_account_cases [OF ch [unfolded c(1)]]
  have t: "holds_transcript (pl_transcripts L1) (ca_dir c) cc"
    using switch_holds [OF c(2) assms(2-5)] h by blast
  obtain ns S where n: "report_empty_credentials P (pool P) (pl_pool L1) = (ns, S)" by fastforce
  have eq: "a = c \<and> pl_held L' = Some (ca_label c) \<and>
      (pl_transcripts L' = pl_transcripts L1 \<or>
       pl_transcripts L' = snd (compact_with_sonnet P run cc (ca_dir c) tokens (pl_transcripts L1)))"
    using assms(1) ch c n by (auto simp: place_turn_def Let_def split: if_splits sum.splits prod.splits)
  then have "holds_transcript (pl_transcripts L') (ca_dir a) cc" using t compact_keeps by metis
  then show ?thesis using eq h by simp
qed

definition demo_transcript :: transcript where
  "demo_transcript = \<lparr>ts_size = 5, ts_rows = [], ts_sidecar = Some [(''s'', 3)]\<rparr>"

definition demo_placing :: placing where
  "demo_placing =
     \<lparr>pl_held = Some ''a'', pl_pool = demo_pool,
      pl_transcripts = (\<lambda>d c. if d = ''/a'' \<and> c = ''c'' then [(''p'', demo_transcript)] else []), pl_events = []\<rparr>"

theorem placed_turn_finds_its_transcript_witness:
  "\<exists>L'. place_turn demo_pool_env \<lparr>fl_relay = 1, fl_expired = 1\<rparr> (\<lambda>t. (CompactTimeout, t)) None (Some ''c'') {} None None 20
          demo_placing = (Inr (Inr \<lparr>ca_label = ''b'', ca_dir = ''/b''\<rparr>), L') \<and>
        holds_transcript (pl_transcripts L') ''/b'' ''c''"
proof -
  define r where "r = place_turn demo_pool_env \<lparr>fl_relay = 1, fl_expired = 1\<rparr> (\<lambda>t. (CompactTimeout, t)) None
      (Some ''c'') {} None None 20 demo_placing"
  have "fst r = Inr (Inr \<lparr>ca_label = ''b'', ca_dir = ''/b''\<rparr>)" unfolding r_def by code_simp
  then have r: "r = (Inr (Inr \<lparr>ca_label = ''b'', ca_dir = ''/b''\<rparr>), snd r)" by (cases r) simp
  have "holds_transcript (pl_transcripts (snd r)) (ca_dir \<lparr>ca_label = ''b'', ca_dir = ''/b''\<rparr>) ''c''"
    using placed_turn_finds_its_transcript [OF r [unfolded r_def], folded r_def, of "\<lparr>ca_label = ''a'', ca_dir = ''/a''\<rparr>"]
    by (simp add: demo_placing_def account_by_label_def pool_def demo_pool_env_def truthy_def holds_transcript_def)
  then show ?thesis using r unfolding r_def by auto
qed

end
