(* ===== verification/Worker_Run.thy ===== *)
theory Worker_Run
  imports Account_Laws Finalize Runs
begin

text \<open>
  \<open>src/agents/worker.py\<close> and \<open>handle_compaction_events\<close> of \<open>src/core/streaming.py\<close>: the processes of
  one task, the events they print, the relays between accounts, and the events synthesized at the
  end. A process is an answer of the environment: the events it yields whatever was asked of it,
  and how it ended.
\<close>

abbreviation ET_COMPLETE :: string where "ET_COMPLETE \<equiv> ''complete''"

text \<open>What ends a run without an exit code; the text of a quota is not read by anybody.\<close>

datatype run_error = RunQuota | RunPool string | RunRaised string

record process_run =
  pr_events :: "dict list"
  pr_raised :: "string option"
  pr_exit :: int
  pr_stderr :: string
  pr_hang :: dict
  pr_cgroup :: string

text \<open>
  \<open>re_process n\<close> is the process started as the \<open>n\<close>-th one, on an account, with a prompt and the
  session it resumes; \<open>re_text\<close> the text of a built-in exception; \<open>re_completed\<close> the mtime of the
  raw log when the run is over; \<open>re_diag\<close> the path of the hang diagnostics.
\<close>

record run_env =
  re_pool :: pool_env
  re_floors :: compaction_floors
  re_text :: "py_error \<Rightarrow> string"
  re_now :: "nat \<Rightarrow> int"
  re_iso :: "int \<Rightarrow> string"
  re_process :: "nat \<Rightarrow> claude_account option \<Rightarrow> string \<Rightarrow> string option \<Rightarrow> process_run"
  re_compact :: "transcript \<Rightarrow> compaction_run \<times> transcript"
  re_completed :: "int option"
  re_diag :: string

record worker =
  wk_option :: "backend_option option"
  wk_session :: "string option"
  wk_prompt :: string
  wk_account :: "claude_account option"
  wk_watch :: "relay_watch option"
  wk_relays :: nat
  wk_resume :: "string option"
  wk_tokens :: "int option"
  wk_log :: "dict list"
  wk_sent :: "dict list"
  wk_notices :: "dict list"
  wk_stops :: nat
  wk_started :: "(claude_account option \<times> string \<times> string option) list"
  wk_pool :: pool_state
  wk_transcripts :: transcripts
  wk_clock :: nat

text \<open>\<open>Worker.__init__\<close>.\<close>

definition new_worker ::
  "backend_option option \<Rightarrow> string option \<Rightarrow> string \<Rightarrow> claude_account option \<Rightarrow> pool_state \<Rightarrow> transcripts \<Rightarrow> nat \<Rightarrow> worker" where
  "new_worker opt session prompt account S T clock =
     \<lparr>wk_option = opt, wk_session = session, wk_prompt = prompt, wk_account = account, wk_watch = None, wk_relays = 0,
      wk_resume = None, wk_tokens = None, wk_log = [], wk_sent = [], wk_notices = [], wk_stops = 0, wk_started = [],
      wk_pool = S, wk_transcripts = T, wk_clock = clock\<rparr>"

subsection \<open>Steps that may end the run\<close>

type_synonym 'a run = "worker \<Rightarrow> (run_error + 'a) \<times> worker"

definition run_ret :: "'a \<Rightarrow> 'a run" where "run_ret a = (\<lambda>W. (Inr a, W))"

definition run_fail :: "run_error \<Rightarrow> 'a run" where "run_fail e = (\<lambda>W. (Inl e, W))"

definition run_bind :: "'a run \<Rightarrow> ('a \<Rightarrow> 'b run) \<Rightarrow> 'b run" where
  "run_bind m f = (\<lambda>W. case m W of (Inl e, W') \<Rightarrow> (Inl e, W') | (Inr a, W') \<Rightarrow> f a W')"

definition run_seq :: "'a run \<Rightarrow> 'b run \<Rightarrow> 'b run" where "run_seq m k = run_bind m (\<lambda>_. k)"

definition run_modify :: "(worker \<Rightarrow> worker) \<Rightarrow> unit run" where "run_modify f = (\<lambda>W. (Inr (), f W))"

definition run_get :: "(worker \<Rightarrow> 'a) \<Rightarrow> 'a run" where "run_get f = (\<lambda>W. (Inr (f W), W))"

definition run_lift :: "run_env \<Rightarrow> 'a py \<Rightarrow> 'a run" where
  "run_lift E r = (case r of Inr a \<Rightarrow> run_ret a
                     | Inl (ValueError msg) \<Rightarrow> run_fail (RunRaised msg)
                     | Inl e \<Rightarrow> run_fail (RunRaised (re_text E e)))"

definition run_now :: "run_env \<Rightarrow> int run" where
  "run_now E = (\<lambda>W. (Inr (re_now E (wk_clock W)), W\<lparr>wk_clock := Suc (wk_clock W)\<rparr>))"

definition append_event :: "dict \<Rightarrow> unit run" where
  "append_event ev = run_modify (\<lambda>W. W\<lparr>wk_log := wk_log W @ [ev]\<rparr>)"

definition broadcast :: "dict \<Rightarrow> unit run" where
  "broadcast ev = run_modify (\<lambda>W. W\<lparr>wk_sent := wk_sent W @ [ev]\<rparr>)"

definition append_and_broadcast :: "dict \<Rightarrow> unit run" where
  "append_and_broadcast ev = run_seq (append_event ev) (broadcast ev)"

definition timed :: "run_env \<Rightarrow> dict \<Rightarrow> dict run" where
  "timed E ev =
     (if jtruthy (dget ev ''timestamp'') then run_ret ev
      else run_bind (run_now E) (\<lambda>n. run_ret (dict_put ev ''timestamp'' (JStr (re_iso E n)))))"

text \<open>\<open>Worker._persist_and_broadcast\<close>.\<close>

definition worker_persist :: "run_env \<Rightarrow> dict \<Rightarrow> unit run" where
  "worker_persist E ev = run_bind (timed E ev) append_and_broadcast"

subsection \<open>One event\<close>

definition quota_error_patterns :: "string list" where
  "quota_error_patterns = [''quota exceeded'', ''rate limit'', ''resource_exhausted'', ''429'', ''quota'']"

text \<open>\<open>str(event.get(k, "")).lower()\<close>.\<close>

definition lowered_field :: "run_env \<Rightarrow> dict \<Rightarrow> string \<Rightarrow> string" where
  "lowered_field E ev k = pe_lower (re_pool E) (py_str (pe_show (re_pool E)) (dget_or ev k (JStr [])))"

definition quota_error :: "run_env \<Rightarrow> dict \<Rightarrow> bool" where
  "quota_error E ev =
     (dget ev ''type'' = JStr ET_ERROR \<and>
      list_ex (\<lambda>p. contains p (lowered_field E ev ''message'') \<or> contains p (lowered_field E ev ''content''))
        quota_error_patterns)"

text \<open>A token count, of a usage block whose counts are integers.\<close>

fun token_count :: "json \<Rightarrow> int py" where
  "token_count (JInt i) = Inr i"
| "token_count (JBool b) = Inr (if b then 1 else 0)"
| "token_count _ = Inl TypeError"

definition prompt_token_sum :: "dict \<Rightarrow> int py" where
  "prompt_token_sum u =
     py_bind (token_count (dget_or u ''input_tokens'' (JInt 0))) (\<lambda>a.
     py_bind (token_count (dget_or u ''cache_creation_input_tokens'' (JInt 0))) (\<lambda>b.
     py_bind (token_count (dget_or u ''cache_read_input_tokens'' (JInt 0))) (\<lambda>c. Inr (a + b + c))))"

definition note_tokens :: "run_env \<Rightarrow> dict \<Rightarrow> unit run" where
  "note_tokens E ev =
     (if dget ev ''type'' \<noteq> JStr ET_ASSISTANT then run_ret ()
      else case dget ev ''message'' of
             JObj m \<Rightarrow>
               (case dget m ''usage'' of
                  JObj u \<Rightarrow>
                    run_bind (run_lift E (prompt_token_sum u)) (\<lambda>n.
                      if n > 0 then run_modify (\<lambda>W. W\<lparr>wk_tokens := Some n\<rparr>) else run_ret ())
                | _ \<Rightarrow> run_ret ())
           | _ \<Rightarrow> run_ret ())"

text \<open>The synthesized event, if the event calls for one.\<close>

definition compaction_event :: "dict \<Rightarrow> dict option py" where
  "compaction_event ev =
     (if dget ev ''type'' \<noteq> JStr ET_SYSTEM then Inr None
      else if dget ev ''subtype'' = JStr ET_COMPACT_BOUNDARY
      then (case dget_or ev ''compact_metadata'' (JObj []) of
              JObj meta \<Rightarrow>
                Inr (Some (context_compacted_event (dget_or meta ''trigger'' (JStr ''unknown'')) (dget meta ''pre_tokens'') None))
            | _ \<Rightarrow> Inl AttributeError)
      else if dget ev ''subtype'' = JStr ''status'' \<and> dget ev ''compact_result'' = JStr ''failed''
      then Inr (Some (context_compact_failed_event (dget ev ''compact_error'') None))
      else Inr None)"

definition watch_event :: "run_env \<Rightarrow> dict \<Rightarrow> bool run" where
  "watch_event E ev =
     run_bind (run_get wk_watch) (\<lambda>w.
       case w of
         None \<Rightarrow> run_ret False
       | Some w' \<Rightarrow>
           run_bind (run_now E) (\<lambda>n.
           run_bind (run_get wk_pool) (\<lambda>S.
           run_bind (run_lift E (observe w' ev n S)) (\<lambda>(stop, w'', S').
             run_seq (run_modify (\<lambda>W. W\<lparr>wk_watch := Some w'', wk_pool := S'\<rparr>)) (run_ret stop)))))"

definition reject_event :: "run_env \<Rightarrow> dict \<Rightarrow> unit run" where
  "reject_event E ev =
     (if dget ev ''type'' \<noteq> JStr ET_RATE_LIMIT_EVENT then run_ret ()
      else run_bind (run_lift E (jget (dget_or ev ET_RATE_LIMIT_INFO (JObj [])) ''status'')) (\<lambda>status.
        run_bind (run_get wk_watch) (\<lambda>w.
          if status = JStr ''rejected'' \<and> w = None then run_seq (append_event ev) (run_fail RunQuota)
          else run_ret ())))"

definition process_event :: "run_env \<Rightarrow> dict \<Rightarrow> unit run" where
  "process_event E ev0 =
     run_bind (timed E ev0) (\<lambda>ev.
     run_bind (watch_event E ev) (\<lambda>stop.
     run_seq (reject_event E ev)
     (run_seq (note_tokens E ev)
     (if quota_error E ev then run_seq (append_event ev) (run_fail RunQuota)
      else run_seq (append_and_broadcast ev)
           (run_seq (run_bind (run_lift E (compaction_event ev)) (\<lambda>synth.
                       case synth of None \<Rightarrow> run_ret () | Some s \<Rightarrow> append_and_broadcast s))
                    (if stop then run_modify (\<lambda>W. W\<lparr>wk_stops := Suc (wk_stops W)\<rparr>) else run_ret ()))))))"

fun process_events :: "run_env \<Rightarrow> dict list \<Rightarrow> unit run" where
  "process_events E [] = run_ret ()"
| "process_events E (ev # evs) = run_seq (process_event E ev) (process_events E evs)"

subsection \<open>Relaying\<close>

definition report_login :: "run_env \<Rightarrow> claude_account \<Rightarrow> unit run" where
  "report_login E a =
     run_bind (run_now E) (\<lambda>n.
     run_seq (run_modify (\<lambda>W. W\<lparr>wk_pool := record_auth_failure (ca_label a) n (wk_pool W)\<rparr>))
     (run_bind (timed E (login_required_event a ''auth_failed'')) (\<lambda>notice.
        run_seq (append_and_broadcast notice)
                (run_modify (\<lambda>W. W\<lparr>wk_notices := wk_notices W @ [notice]\<rparr>)))))"

definition move_account :: "run_env \<Rightarrow> string option \<Rightarrow> claude_account \<Rightarrow> claude_account run" where
  "move_account E model current =
     run_bind (run_now E) (\<lambda>n. \<lambda>W.
       case move_to_next_account (re_pool E) (wk_pool W) model current (wk_session W) n (wk_transcripts W) of
         (Inl e, T) \<Rightarrow> run_lift E (Inl e) (W\<lparr>wk_transcripts := T\<rparr>)
       | (Inr (Inl msg), T) \<Rightarrow> (Inl (RunPool msg), W\<lparr>wk_transcripts := T\<rparr>)
       | (Inr (Inr nxt), T) \<Rightarrow> (Inr nxt, W\<lparr>wk_transcripts := T\<rparr>))"

definition compact_relayed :: "run_env \<Rightarrow> string option \<Rightarrow> claude_account \<Rightarrow> unit run" where
  "compact_relayed E model nxt = (\<lambda>W.
     if relay_compaction_wanted (re_pool E) (re_floors E) model (wk_tokens W)
     then (case compact_with_sonnet (re_pool E) (re_compact E) (case wk_session W of None \<Rightarrow> [] | Some s \<Rightarrow> s) (ca_dir nxt)
                  (wk_tokens W) (wk_transcripts W) of
             (Inl e, T) \<Rightarrow> run_lift E (Inl e) (W\<lparr>wk_transcripts := T\<rparr>)
           | (Inr (_, ev), T) \<Rightarrow> worker_persist E ev (W\<lparr>wk_transcripts := T\<rparr>))
     else run_ret () W)"

definition relay_to :: "claude_account \<Rightarrow> unit run" where
  "relay_to nxt =
     run_modify (\<lambda>W. W\<lparr>wk_relays := Suc (wk_relays W), wk_account := Some nxt, wk_prompt := continuation_prompt,
                       wk_resume := wk_session W\<rparr>)"

definition relay :: "run_env \<Rightarrow> relay_reason \<Rightarrow> string option \<Rightarrow> claude_account \<Rightarrow> unit run" where
  "relay E reason model current =
     run_seq (if reason = LOGIN_FAILED then report_login E current else run_ret ())
     (run_bind (run_get wk_relays) (\<lambda>n.
        if n \<ge> max_relays_per_turn then run_fail (RunRaised relay_limit_message)
        else run_bind (move_account E model current) (\<lambda>nxt.
               run_seq (compact_relayed E model nxt) (relay_to nxt))))"

subsection \<open>The processes of a task\<close>

definition start_process :: "run_env \<Rightarrow> process_run run" where
  "start_process E = (\<lambda>W.
     let p = re_process E (length (wk_started W)) (wk_account W) (wk_prompt W) (wk_resume W);
         watch = (case (wk_account W, wk_option W) of
                    (Some a, Some opt) \<Rightarrow> Some (new_watch (ca_label a) (bo_model opt))
                  | _ \<Rightarrow> None)
     in (Inr p, W\<lparr>wk_started := wk_started W @ [(wk_account W, wk_prompt W, wk_resume W)], wk_watch := watch\<rparr>))"

text \<open>One process to its end; the relay it asks for, with the account and model it ran on.\<close>

definition run_process :: "run_env \<Rightarrow> (process_run \<times> (relay_reason \<times> string option \<times> claude_account) option) run" where
  "run_process E =
     run_bind (start_process E) (\<lambda>p.
     run_seq (process_events E (pr_events p))
     (case pr_raised p of
        Some msg \<Rightarrow> run_fail (RunRaised msg)
      | None \<Rightarrow>
          run_get (\<lambda>W.
            (p, case (wk_watch W, wk_account W, wk_option W) of
                  (Some w, Some a, Some opt) \<Rightarrow>
                    map_option (\<lambda>reason. (reason, bo_model opt, a)) (decision w (pr_exit p) (pr_stderr p))
                | _ \<Rightarrow> None))))"

subsection \<open>Relations along a run\<close>

definition run_rel :: "(worker \<Rightarrow> worker \<Rightarrow> bool) \<Rightarrow> 'a run \<Rightarrow> bool" where
  "run_rel R m = (\<forall>W. R W (snd (m W)))"

text \<open>What holds between the worker before and after any composition of steps it holds for.\<close>

locale run_relation =
  fixes R :: "worker \<Rightarrow> worker \<Rightarrow> bool"
  assumes rel_refl: "R W W"
    and rel_trans: "R W W' \<Longrightarrow> R W' W'' \<Longrightarrow> R W W''"
begin

lemma rel_ret: "run_rel R (run_ret a)" by (simp add: run_rel_def run_ret_def rel_refl)

lemma rel_fail: "run_rel R (run_fail e)" by (simp add: run_rel_def run_fail_def rel_refl)

lemma rel_get: "run_rel R (run_get f)" by (simp add: run_rel_def run_get_def rel_refl)

lemma rel_bind:
  assumes "run_rel R m" "\<And>a. run_rel R (k a)" shows "run_rel R (run_bind m k)"
  unfolding run_rel_def
proof
  fix W
  have "R W (snd (m W))" using assms(1) by (simp add: run_rel_def)
  moreover have "R (snd (m W)) (snd (k a (snd (m W))))" for a using assms(2) by (simp add: run_rel_def)
  ultimately show "R W (snd (run_bind m k W))"
    using rel_trans by (auto simp: run_bind_def split: prod.splits sum.splits)
qed

lemma rel_seq: "run_rel R m \<Longrightarrow> run_rel R k \<Longrightarrow> run_rel R (run_seq m k)"
  unfolding run_seq_def by (rule rel_bind)

lemma rel_lift: "run_rel R (run_lift E r)"
  unfolding run_lift_def using rel_ret rel_fail by (auto split: sum.splits py_error.splits)

lemma rel_modify: "(\<And>W. R W (f W)) \<Longrightarrow> run_rel R (run_modify f)"
  by (simp add: run_rel_def run_modify_def)

lemmas rel_basic = rel_ret rel_fail rel_get rel_lift rel_bind rel_seq

end

text \<open>Relations that every step but a start and a relay satisfies.\<close>

locale event_relation = run_relation +
  assumes on_clock: "R W (W\<lparr>wk_clock := n\<rparr>)" and on_log: "R W (W\<lparr>wk_log := wk_log W @ [ev]\<rparr>)"
    and on_sent: "R W (W\<lparr>wk_sent := evs\<rparr>)" and on_notices: "R W (W\<lparr>wk_notices := evs\<rparr>)"
    and on_stops: "R W (W\<lparr>wk_stops := k\<rparr>)" and on_tokens: "R W (W\<lparr>wk_tokens := t\<rparr>)"
    and on_watch: "R W (W\<lparr>wk_watch := w, wk_pool := S\<rparr>)" and on_pool: "R W (W\<lparr>wk_pool := S\<rparr>)"
    and on_transcripts: "R W (W\<lparr>wk_transcripts := T\<rparr>)"
begin

lemma rel_now: "run_rel R (run_now E)" by (simp add: run_rel_def run_now_def on_clock)

lemma rel_append: "run_rel R (append_event ev)"
  unfolding append_event_def by (intro rel_modify on_log)

lemma rel_broadcast: "run_rel R (broadcast ev)"
  unfolding broadcast_def by (intro rel_modify on_sent)

lemma rel_both: "run_rel R (append_and_broadcast ev)"
  unfolding append_and_broadcast_def by (intro rel_seq rel_append rel_broadcast)

lemma rel_timed: "run_rel R (timed E ev)"
  unfolding timed_def by (auto intro!: rel_basic rel_now)

lemma rel_persist: "run_rel R (worker_persist E ev)"
  unfolding worker_persist_def by (intro rel_bind rel_timed rel_both)

lemma rel_note_tokens: "run_rel R (note_tokens E ev)"
  unfolding note_tokens_def by (auto intro!: rel_basic rel_modify on_tokens split: json.splits)

lemma rel_watch_event: "run_rel R (watch_event E ev)"
  unfolding watch_event_def
  by (auto intro!: rel_basic rel_now rel_modify on_watch split: option.splits prod.splits)

lemma rel_reject: "run_rel R (reject_event E ev)"
  unfolding reject_event_def by (auto intro!: rel_basic rel_append)

lemma rel_process_event: "run_rel R (process_event E ev)"
  unfolding process_event_def
  by (auto intro!: rel_basic rel_timed rel_watch_event rel_reject rel_note_tokens rel_append rel_both rel_modify
      on_stops split: option.splits)

lemma rel_process_events: "run_rel R (process_events E evs)"
  by (induction evs) (auto intro!: rel_basic rel_process_event)

lemma rel_report_login: "run_rel R (report_login E a)"
  unfolding report_login_def
  by (auto intro!: rel_basic rel_now rel_timed rel_both rel_modify on_pool on_notices)

lemma rel_move_account: "run_rel R (move_account E model a)"
proof -
  have "R W (snd (run_lift E r (W\<lparr>wk_transcripts := T\<rparr>)))" for W T and r :: "claude_account py"
    using rel_lift [of E r] rel_trans [OF on_transcripts] unfolding run_rel_def by blast
  then show ?thesis
    unfolding move_account_def
    by (intro rel_bind rel_now) (auto simp: run_rel_def on_transcripts split: prod.splits sum.splits)
qed

lemma rel_compact_relayed: "run_rel R (compact_relayed E model a)"
  unfolding run_rel_def
proof
  fix W
  have lift: "R W (snd (run_lift E r (W\<lparr>wk_transcripts := T\<rparr>)))" for T and r :: "unit py"
    using rel_lift [of E r] rel_trans [OF on_transcripts] unfolding run_rel_def by blast
  have persist: "R W (snd (worker_persist E ev (W\<lparr>wk_transcripts := T\<rparr>)))" for T ev
    using rel_persist [of E ev] rel_trans [OF on_transcripts] unfolding run_rel_def by blast
  show "R W (snd (compact_relayed E model a W))"
    using lift persist rel_refl
    by (auto simp: compact_relayed_def run_ret_def split: prod.splits sum.splits)
qed

lemma rel_relay: "(\<And>nxt. run_rel R (relay_to nxt)) \<Longrightarrow> run_rel R (relay E reason model a)"
  unfolding relay_def
  by (auto intro!: rel_basic rel_report_login rel_move_account rel_compact_relayed)

end

interpretation keeps_started: event_relation "\<lambda>W W'. wk_started W' = wk_started W"
  by unfold_locales simp_all

text \<open>What only a start and a relay change.\<close>

definition task_of :: "worker \<Rightarrow> _" where
  "task_of W = (wk_relays W, wk_started W, wk_account W, wk_session W, wk_option W, wk_prompt W, wk_resume W)"

definition same_task :: "worker \<Rightarrow> worker \<Rightarrow> bool" where
  "same_task W W' = (task_of W' = task_of W)"

interpretation same_task: event_relation same_task
  by unfold_locales (simp_all add: same_task_def task_of_def)

lemma same_taskD: "run_rel same_task m \<Longrightarrow> m W = (r, W') \<Longrightarrow> task_of W' = task_of W"
  by (metis run_rel_def same_task_def snd_conv)

subsection \<open>The loop\<close>

lemma run_bind_get: "run_bind (run_get f) k W = k (f W) W"
  by (simp add: run_bind_def run_get_def)

lemma run_bind_now: "run_bind (run_now E) k W = k (re_now E (wk_clock W)) (W\<lparr>wk_clock := Suc (wk_clock W)\<rparr>)"
  by (simp add: run_bind_def run_now_def)

lemma run_bind_InrE:
  assumes "run_bind m k W = (Inr b, W')"
  obtains a W1 where "m W = (Inr a, W1)" "k a W1 = (Inr b, W')"
  using assms by (auto simp: run_bind_def split: prod.splits sum.splits)

lemma run_seq_InrE:
  assumes "run_seq m k W = (Inr b, W')"
  obtains a W1 where "m W = (Inr a, W1)" "k W1 = (Inr b, W')"
  using assms unfolding run_seq_def by (rule run_bind_InrE)

text \<open>A process starts the list of processes anew by one entry; its events change nothing of the task.\<close>

definition started_one :: "worker \<Rightarrow> worker" where
  "started_one W = W\<lparr>wk_started := wk_started W @ [(wk_account W, wk_prompt W, wk_resume W)]\<rparr>"

lemma run_process_task: "task_of (snd (run_process E W)) = task_of (started_one W)"
proof -
  obtain p W1 where st: "start_process E W = (Inr p, W1)" by (simp add: start_process_def Let_def)
  have "task_of W1 = task_of (started_one W)"
    using st by (auto simp: start_process_def Let_def started_one_def task_of_def)
  moreover have "run_rel same_task
      (run_seq (process_events E (pr_events p))
        (case pr_raised p of
           Some msg \<Rightarrow> run_fail (RunRaised msg)
         | None \<Rightarrow>
             run_get (\<lambda>W.
               (p, case (wk_watch W, wk_account W, wk_option W) of
                     (Some w, Some a, Some opt) \<Rightarrow>
                       map_option (\<lambda>reason. (reason, bo_model opt, a)) (decision w (pr_exit p) (pr_stderr p))
                   | _ \<Rightarrow> None))))" (is "run_rel _ ?rest")
    by (auto intro!: same_task.rel_seq same_task.rel_process_events same_task.rel_basic split: option.splits)
  then have "task_of (snd (?rest W1)) = task_of W1" by (simp add: run_rel_def same_task_def)
  ultimately show ?thesis by (simp add: run_process_def run_bind_def st)
qed

text \<open>What a relay that returns has done: one more, below the limit, to another account.\<close>

lemma relay_done:
  assumes "relay E reason model current W = (Inr u, W')"
  obtains nxt where "wk_relays W < max_relays_per_turn" "ca_label nxt \<noteq> ca_label current"
    "task_of W' = (Suc (wk_relays W), wk_started W, Some nxt, wk_session W, wk_option W, continuation_prompt, wk_session W)"
proof -
  have "run_rel same_task (if reason = LOGIN_FAILED then report_login E current else run_ret ())"
    by (simp add: same_task.rel_report_login same_task.rel_ret)
  from assms obtain u1 W1 where 1: "(if reason = LOGIN_FAILED then report_login E current else run_ret ()) W = (Inr u1, W1)"
      "(run_bind (run_get wk_relays) (\<lambda>n.
        if n \<ge> max_relays_per_turn then run_fail (RunRaised relay_limit_message)
        else run_bind (move_account E model current) (\<lambda>nxt.
               run_seq (compact_relayed E model nxt) (relay_to nxt)))) W1 = (Inr u, W')"
    unfolding relay_def by (rule run_seq_InrE)
  have t1: "task_of W1 = task_of W"
    by (rule same_taskD [OF \<open>run_rel same_task (if _ then _ else _)\<close> 1(1)])
  have lt: "wk_relays W1 < max_relays_per_turn"
  proof (rule ccontr)
    assume "\<not> wk_relays W1 < max_relays_per_turn"
    then show False using 1(2) by (simp add: run_bind_get run_fail_def)
  qed
  then have "run_bind (move_account E model current) (\<lambda>nxt. run_seq (compact_relayed E model nxt) (relay_to nxt)) W1 =
      (Inr u, W')"
    using 1(2) by (simp add: run_bind_get)
  then obtain nxt u' W2 W3 where 2: "move_account E model current W1 = (Inr nxt, W2)"
      "compact_relayed E model nxt W2 = (Inr u', W3)" "relay_to nxt W3 = (Inr u, W')"
    by (elim run_bind_InrE run_seq_InrE)
  have t3: "task_of W3 = task_of W"
    using same_taskD [OF same_task.rel_move_account 2(1)] same_taskD [OF same_task.rel_compact_relayed 2(2)] t1 by simp
  obtain n where "select (re_pool E) (wk_pool (snd (run_now E W1))) model [ca_label current] None n = Some nxt"
    using 2(1) by (auto simp: move_account_def run_bind_def run_now_def move_to_next_account_def run_lift_def
        split: if_splits prod.splits sum.splits option.splits move_result.splits py_error.splits)
      (auto simp: run_ret_def run_fail_def)
  then have "ca_label nxt \<noteq> ca_label current" by (auto dest: select_available simp: available_account_def)
  moreover have "task_of W' = (Suc (wk_relays W), wk_started W, Some nxt, wk_session W, wk_option W, continuation_prompt, wk_session W)"
    using 2(3) t3 by (auto simp: relay_to_def run_modify_def task_of_def)
  ultimately show thesis using that lt t1 by (simp add: task_of_def)
qed

lemma relay_fails_in_place:
  assumes "relay E reason model current W = (Inl e, W')"
  shows "wk_started W' = wk_started W"
proof -
  have "run_rel (\<lambda>W W'. wk_started W' = wk_started W) (relay_to nxt)" for nxt
    by (simp add: run_rel_def relay_to_def run_modify_def)
  from keeps_started.rel_relay [OF this, of E reason model current] show ?thesis
    using assms unfolding run_rel_def by (metis snd_conv)
qed

lemma loop_step:
  assumes "run_process E W = (r, W1)" "relay E reason model a W1 = (Inr u, W2)"
  shows "Suc max_relays_per_turn - wk_relays W2 < Suc max_relays_per_turn - wk_relays W"
proof -
  have "wk_relays W1 = wk_relays W"
    using run_process_task [of E W] assms(1) by (simp add: task_of_def started_one_def)
  moreover obtain nxt where "wk_relays W1 < max_relays_per_turn"
    "task_of W2 = (Suc (wk_relays W1), wk_started W1, Some nxt, wk_session W1, wk_option W1, continuation_prompt, wk_session W1)"
    using relay_done [OF assms(2)] by metis
  ultimately show ?thesis by (auto simp: task_of_def)
qed

function run_loop :: "run_env \<Rightarrow> worker \<Rightarrow> (run_error + process_run) \<times> worker" where
  "run_loop E W =
     (case run_process E W of
        (Inl e, W1) \<Rightarrow> (Inl e, W1)
      | (Inr (p, None), W1) \<Rightarrow> (Inr p, W1)
      | (Inr (p, Some (reason, model, a)), W1) \<Rightarrow>
          (case relay E reason model a W1 of
             (Inl e, W2) \<Rightarrow> (Inl e, W2)
           | (Inr _, W2) \<Rightarrow> run_loop E W2))"
  by pat_completeness auto
termination
  by (relation "measure (\<lambda>(E, W). Suc max_relays_per_turn - wk_relays W)")
    (auto intro: loop_step loop_step [OF sym sym])

declare run_loop.simps [simp del]

subsection \<open>The end of a run\<close>

text \<open>\<open>_clamp_ts\<close>: a synthesized event is not later than the end of the run.\<close>

definition clamp_ts :: "run_env \<Rightarrow> int option \<Rightarrow> string run" where
  "clamp_ts E clamp =
     run_bind (run_now E) (\<lambda>n. run_ret (re_iso E (case clamp of Some c \<Rightarrow> if c < n then c else n | None \<Rightarrow> n)))"

definition emit_terminal_events ::
  "run_env \<Rightarrow> int \<Rightarrow> string \<Rightarrow> dict \<Rightarrow> string \<Rightarrow> int option \<Rightarrow> unit run" where
  "emit_terminal_events E exit_code stderr hang cgroup clamp =
     run_seq (if hang = [] then run_ret ()
              else run_bind (clamp_ts E clamp) (\<lambda>ts.
                append_and_broadcast [(''type'', JStr ET_SYSTEM), (''subtype'', JStr ''hang_diagnostics''),
                  (''diagnostics_path'', JStr (re_diag E)), (''exit_code'', JInt exit_code), (''timestamp'', JStr ts)]))
     (run_seq (if stderr = [] then run_ret ()
               else run_bind (clamp_ts E clamp) (\<lambda>ts.
                 append_and_broadcast
                   ([(''type'', JStr (if exit_code \<noteq> 0 then ET_ERROR else ET_SYSTEM)), (''content'', JStr stderr),
                     (''timestamp'', JStr ts)] @ (if exit_code \<noteq> 0 then [] else [(''subtype'', JStr ''stderr'')]))))
     (run_seq (if cgroup = [] then run_ret ()
               else run_bind (clamp_ts E clamp) (\<lambda>ts.
                 append_and_broadcast [(''type'', JStr ET_ERROR), (''content'', JStr cgroup), (''timestamp'', JStr ts)]))
     (run_bind (clamp_ts E clamp) (\<lambda>ts.
        broadcast [(''type'', JStr (if exit_code = 0 then ET_COMPLETE else ET_ERROR)),
          (''status'', JStr (if exit_code = 0 then ''success'' else ''failed'')), (''exit_code'', JInt exit_code),
          (''timestamp'', JStr ts)]))))"

definition worker_run :: "run_env \<Rightarrow> int run" where
  "worker_run E =
     run_bind (run_loop E) (\<lambda>p.
       run_seq (emit_terminal_events E (pr_exit p) (pr_stderr p) (pr_hang p) (pr_cgroup p) (re_completed E))
               (run_ret (pr_exit p)))"

text \<open>
  \<open>Worker.resume\<close>: what the followed stream yields and how following ended, the raw log it was
  read from, whether the process is alive after it, and its diagnostics and standard error. The
  second part of the result is whether the process group was killed.
\<close>

record follow =
  fw_events :: "dict list"
  fw_raised :: "string option"
  fw_raw :: raw_log
  fw_alive :: bool
  fw_pid :: "int option"
  fw_diag :: dict
  fw_stderr :: string

definition worker_resume :: "run_env \<Rightarrow> parser \<Rightarrow> 's translator \<Rightarrow> 's \<Rightarrow> follow \<Rightarrow> (int \<times> bool) run" where
  "worker_resume E P tr fresh F =
     run_seq (process_events E (fw_events F))
     (case fw_raised F of
        Some msg \<Rightarrow> run_fail (RunRaised msg)
      | None \<Rightarrow>
          run_bind (run_lift E (scan_result_exit P tr fresh (fw_raw F))) (\<lambda>(_, _, exit_code).
            run_seq (emit_terminal_events E exit_code (fw_stderr F) (if fw_alive F then fw_diag F else []) []
                       (raw_completion_time (fw_raw F)))
                    (run_ret (exit_code, fw_alive F \<and> fw_pid F \<noteq> None))))"

text \<open>How the run ends for \<open>_stream_worker_events\<close>.\<close>

fun end_of_run :: "run_error + int \<Rightarrow> worker_end" where
  "end_of_run (Inr c) = Exited c"
| "end_of_run (Inl RunQuota) = QuotaExhausted"
| "end_of_run (Inl (RunPool msg)) = PoolExhausted msg"
| "end_of_run (Inl (RunRaised msg)) = WorkerRaised msg"

subsection \<open>What a run does\<close>

text \<open>The processes so far, at the head of the loop: one more than the relays would allow is next.\<close>

definition next_account :: "(claude_account option \<times> string \<times> string option) list \<Rightarrow> claude_account option \<Rightarrow> bool" where
  "next_account ps a = (\<exists>b. a = Some b \<and> (\<exists>c. fst (last ps) = Some c \<and> ca_label b \<noteq> ca_label c))"

definition relay_chain ::
  "claude_account option \<Rightarrow> string \<Rightarrow> string option \<Rightarrow> (claude_account option \<times> string \<times> string option) list \<Rightarrow> bool" where
  "relay_chain account prompt session ps =
     (ps \<noteq> [] \<longrightarrow> hd ps = (account, prompt, None) \<and>
        (\<forall>i. 0 < i \<and> i < length ps \<longrightarrow>
           next_account (take i ps) (fst (ps ! i)) \<and> snd (ps ! i) = (continuation_prompt, session)))"

lemma relay_chain_snoc:
  assumes "relay_chain account prompt session ps"
    and "ps = [] \<Longrightarrow> q = (account, prompt, None)"
    and "ps \<noteq> [] \<Longrightarrow> next_account ps (fst q) \<and> snd q = (continuation_prompt, session)"
  shows "relay_chain account prompt session (ps @ [q])"
proof (cases "ps = []")
  case True
  then show ?thesis using assms(2) by (simp add: relay_chain_def)
next
  case False
  then show ?thesis using assms(1) assms(3) [OF False]
    by (auto simp: relay_chain_def nth_append less_Suc_eq)
qed

definition loop_head :: "claude_account option \<Rightarrow> string \<Rightarrow> string option \<Rightarrow> worker \<Rightarrow> bool" where
  "loop_head account prompt session W =
     (wk_session W = session \<and> relay_chain account prompt session (wk_started W) \<and>
      length (wk_started W) = wk_relays W \<and> wk_relays W \<le> max_relays_per_turn \<and>
      (if wk_started W = [] then wk_account W = account \<and> wk_prompt W = prompt \<and> wk_resume W = None
       else next_account (wk_started W) (wk_account W) \<and> wk_prompt W = continuation_prompt \<and> wk_resume W = session))"

lemma loop_head_process:
  assumes "loop_head account prompt session W" "run_process E W = (r, W1)"
  shows "relay_chain account prompt session (wk_started W1)" "length (wk_started W1) = Suc (wk_relays W)"
    "wk_relays W1 = wk_relays W" "wk_session W1 = session" "fst (last (wk_started W1)) = wk_account W1"
proof -
  have t: "task_of W1 = task_of (started_one W)" using run_process_task [of E W] assms(2) by simp
  have "relay_chain account prompt session (wk_started W @ [(wk_account W, wk_prompt W, wk_resume W)])"
    using assms(1) by (intro relay_chain_snoc) (auto simp: loop_head_def split: if_splits)
  then show "relay_chain account prompt session (wk_started W1)" "length (wk_started W1) = Suc (wk_relays W)"
    "wk_relays W1 = wk_relays W" "wk_session W1 = session" "fst (last (wk_started W1)) = wk_account W1"
    using t assms(1) by (simp_all add: task_of_def started_one_def loop_head_def)
qed

lemma asks_with_account:
  "run_process E W = (Inr (p, Some (reason, model, a)), W1) \<Longrightarrow> wk_account W1 = Some a"
  unfolding run_process_def
  by (elim run_bind_InrE run_seq_InrE)
    (auto simp: run_fail_def run_get_def split: option.splits)

lemma loop_head_relay:
  assumes "loop_head account prompt session W" "run_process E W = (Inr (p, Some (reason, model, a)), W1)"
    and "relay E reason model a W1 = (Inr u, W2)"
  shows "loop_head account prompt session W2"
proof -
  note h = loop_head_process [OF assms(1,2)]
  obtain nxt where n: "wk_relays W1 < max_relays_per_turn" "ca_label nxt \<noteq> ca_label a"
    "task_of W2 = (Suc (wk_relays W1), wk_started W1, Some nxt, wk_session W1, wk_option W1, continuation_prompt, wk_session W1)"
    using relay_done [OF assms(3)] .
  have "wk_started W1 \<noteq> []" using h(2) by auto
  moreover have "next_account (wk_started W1) (Some nxt)"
    using h(5) asks_with_account [OF assms(2)] n(2) by (simp add: next_account_def)
  ultimately show ?thesis using h n by (simp add: loop_head_def task_of_def)
qed

lemma run_loop_chain:
  "loop_head account prompt session W \<Longrightarrow>
     relay_chain account prompt session (wk_started (snd (run_loop E W))) \<and>
     wk_started (snd (run_loop E W)) \<noteq> [] \<and> length (wk_started (snd (run_loop E W))) \<le> Suc max_relays_per_turn"
proof (induction E W rule: run_loop.induct)
  case (1 E W)
  obtain r W1 where rp: "run_process E W = (r, W1)" by fastforce
  note h = loop_head_process [OF 1(2) rp]
  have le: "wk_relays W \<le> max_relays_per_turn" using 1(2) by (simp add: loop_head_def)
  show ?case
  proof (cases "\<exists>p reason model a W2 u. r = Inr (p, Some (reason, model, a)) \<and> relay E reason model a W1 = (Inr u, W2)")
    case True
    then obtain p reason model a W2 u where
      t: "r = Inr (p, Some (reason, model, a))" "relay E reason model a W1 = (Inr u, W2)" by blast
    have "run_loop E W = run_loop E W2" using rp t by (simp add: run_loop.simps [of E W])
    moreover have "loop_head account prompt session W2" using loop_head_relay [OF 1(2)] rp t by blast
    ultimately show ?thesis using 1(1) rp t by simp
  next
    case False
    then have "wk_started (snd (run_loop E W)) = wk_started W1"
    proof (cases r)
      case (Inr q)
      obtain p o' where q: "q = (p, o')" by fastforce
      show ?thesis
      proof (cases o')
        case (Some ask)
        obtain reason model a where ask: "ask = (reason, model, a)" by (cases ask)
        obtain r2 W2 where r2: "relay E reason model a W1 = (r2, W2)" by fastforce
        then obtain e where "r2 = Inl e" using False Inr q Some ask by (cases r2) auto
        moreover have "wk_started W2 = wk_started W1" using relay_fails_in_place [OF r2 [unfolded calculation]] .
        ultimately show ?thesis using rp Inr q Some ask r2 by (simp add: run_loop.simps [of E W])
      qed (use rp Inr q in \<open>simp add: run_loop.simps [of E W]\<close>)
    qed (use rp in \<open>simp add: run_loop.simps [of E W]\<close>)
    then show ?thesis using h le by auto
  qed
qed

text \<open>
  C15. A task is at most four processes. The first gets the task on the account it was given; every
  later one resumes the same session with the continuation prompt, on another account than the
  process before it. However the processes and the pool answer, the run ends.
\<close>

theorem relays_are_bounded:
  "let ps = wk_started (snd (run_loop E (new_worker opt session prompt account S T n)))
   in 0 < length ps \<and> length ps \<le> 4 \<and> ps ! 0 = (account, prompt, None) \<and>
      (\<forall>i. 0 < i \<and> i < length ps \<longrightarrow>
         snd (ps ! i) = (continuation_prompt, session) \<and>
         (\<exists>a b. fst (ps ! i) = Some a \<and> fst (ps ! (i - 1)) = Some b \<and> ca_label a \<noteq> ca_label b))"
proof -
  let ?W = "new_worker opt session prompt account S T n"
  define ps where "ps = wk_started (snd (run_loop E ?W))"
  have "loop_head account prompt session ?W"
    by (simp add: loop_head_def new_worker_def relay_chain_def)
  then have c: "relay_chain account prompt session ps" "ps \<noteq> []" "length ps \<le> 4"
    using run_loop_chain unfolding ps_def by (force simp: max_relays_per_turn_def)+
  have "\<exists>a b. fst (ps ! i) = Some a \<and> fst (ps ! (i - 1)) = Some b \<and> ca_label a \<noteq> ca_label b"
    if "0 < i" "i < length ps" for i
  proof -
    have "take i ps \<noteq> []" using that by (cases ps) auto
    then have "last (take i ps) = ps ! (i - 1)" using that by (simp add: last_conv_nth)
    then show ?thesis using c(1,2) that by (auto simp: relay_chain_def next_account_def)
  qed
  then show ?thesis using c unfolding ps_def [symmetric] Let_def by (auto simp: relay_chain_def hd_conv_nth)
qed

subsection \<open>The log of a run\<close>

definition untimed :: "dict \<Rightarrow> dict" where
  "untimed ev = dict_del ev ''timestamp''"

lemma dict_del_put: "dict_del (dict_put d k v) k = dict_del d k"
  by (induction d k v rule: dict_put.induct) (auto simp: dict_del_def)

lemma dget_or_put [simp]: "k' \<noteq> k \<Longrightarrow> dget_or (dict_put d k v) k' w = dget_or d k' w"
  by (simp add: dget_or_def map_of_dict_put)

lemma timed_cases:
  obtains ev' W' where "timed E ev W = (Inr ev', W')" "untimed ev' = untimed ev" "wk_log W' = wk_log W"
    "wk_watch W' = wk_watch W" "quota_error E ev' = quota_error E ev" "dget ev' ''type'' = dget ev ''type''"
    "\<And>v. dget_or ev' ET_RATE_LIMIT_INFO v = dget_or ev ET_RATE_LIMIT_INFO v"
proof (cases "jtruthy (dget ev ''timestamp'')")
  case True
  then show thesis using that by (simp add: timed_def run_ret_def)
next
  case False
  then show thesis
    using that [of "dict_put ev ''timestamp'' (JStr (re_iso E (re_now E (wk_clock W))))" "W\<lparr>wk_clock := Suc (wk_clock W)\<rparr>"]
    by (simp add: timed_def run_bind_def run_now_def run_ret_def untimed_def dict_del_put quota_error_def lowered_field_def)
qed

text \<open>What a step answers and leaves, and its composition along a bind.\<close>

definition run_post :: "'a run \<Rightarrow> worker \<Rightarrow> (run_error + 'a \<Rightarrow> worker \<Rightarrow> bool) \<Rightarrow> bool" where
  "run_post m W Q = Q (fst (m W)) (snd (m W))"

lemma post_bind:
  assumes "run_post m W R"
    and "\<And>e W1. R (Inl e) W1 \<Longrightarrow> Q (Inl e) W1"
    and "\<And>a W1. R (Inr a) W1 \<Longrightarrow> run_post (k a) W1 Q"
  shows "run_post (run_bind m k) W Q"
  using assms unfolding run_post_def run_bind_def by (cases "m W"; cases "fst (m W)") auto

lemma post_seq:
  assumes "run_post m W R"
    and "\<And>e W1. R (Inl e) W1 \<Longrightarrow> Q (Inl e) W1"
    and "\<And>a W1. R (Inr a) W1 \<Longrightarrow> run_post k W1 Q"
  shows "run_post (run_seq m k) W Q"
  using assms unfolding run_seq_def by (rule post_bind)

text \<open>A step that is silent about quotas and leaves the log, and whether there is a watch.\<close>

definition quietly :: "worker \<Rightarrow> run_error + 'a \<Rightarrow> worker \<Rightarrow> bool" where
  "quietly W r W' = (r \<noteq> Inl RunQuota \<and> wk_log W' = wk_log W \<and> (wk_watch W' = None \<longleftrightarrow> wk_watch W = None))"

lemma lift_quietly: "run_post (run_lift E r) W (quietly W)"
  by (auto simp: run_post_def quietly_def run_lift_def run_ret_def run_fail_def split: sum.splits py_error.splits)

lemma ret_quietly: "run_post (run_ret a) W (quietly W)"
  by (simp add: run_post_def quietly_def run_ret_def)

lemma tokens_quietly: "run_post (note_tokens E ev) W (quietly W)"
proof -
  have set: "run_post (run_bind (run_lift E r) (\<lambda>n. if (0 :: int) < n then run_modify (\<lambda>W. W\<lparr>wk_tokens := Some n\<rparr>) else run_ret ()))
      W (quietly W)" for r
    by (rule post_bind [OF lift_quietly]) (auto simp: run_post_def quietly_def run_modify_def run_ret_def)
  show ?thesis
    unfolding note_tokens_def using set ret_quietly [of "()" W] by (auto split: json.splits)
qed

lemma watch_quietly: "run_post (watch_event E ev) W (quietly W)"
proof (cases "wk_watch W")
  case None
  then show ?thesis by (simp add: watch_event_def run_bind_get run_post_def run_ret_def quietly_def)
next
  case (Some w)
  have "run_post (run_bind (run_lift E r) (\<lambda>(stop, w, S).
      run_seq (run_modify (\<lambda>W. W\<lparr>wk_watch := Some w, wk_pool := S\<rparr>)) (run_ret stop))) W1 (quietly W)"
    if "wk_log W1 = wk_log W" "wk_watch W1 = wk_watch W" for r W1
    by (rule post_bind [OF lift_quietly])
      (use that Some in \<open>auto simp: run_post_def quietly_def run_modify_def run_ret_def run_seq_def run_bind_def split: prod.splits\<close>)
  note after = this [of "W\<lparr>wk_clock := Suc (wk_clock W)\<rparr>" "observe w ev (re_now E (wk_clock W)) (wk_pool W)"]
  show ?thesis
    using after Some unfolding run_post_def watch_event_def run_bind_get by (simp add: run_bind_get run_bind_now)
qed

definition rejection :: "dict \<Rightarrow> bool" where
  "rejection ev =
     (dget ev ''type'' = JStr ET_RATE_LIMIT_EVENT \<and>
      (case dget_or ev ET_RATE_LIMIT_INFO (JObj []) of JObj info \<Rightarrow> dget info ''status'' = JStr ''rejected'' | _ \<Rightarrow> False))"

text \<open>A step on an event that may end the run on a quota, having written the event down.\<close>

definition quota_or_quiet :: "(worker \<Rightarrow> bool) \<Rightarrow> dict \<Rightarrow> worker \<Rightarrow> run_error + 'a \<Rightarrow> worker \<Rightarrow> bool" where
  "quota_or_quiet p ev W r W' =
     ((wk_watch W' = None \<longleftrightarrow> wk_watch W = None) \<and>
      (if r = Inl RunQuota then p W \<and> wk_log W' = wk_log W @ [ev] else wk_log W' = wk_log W))"

lemma reject_post:
  "run_post (reject_event E ev) W (quota_or_quiet (\<lambda>W. rejection ev \<and> wk_watch W = None) ev W)"
proof (cases "dget ev ''type'' = JStr ET_RATE_LIMIT_EVENT")
  case True
  have st: "run_post (run_lift E (jget (dget_or ev ET_RATE_LIMIT_INFO (JObj [])) ''status'')) W
      (\<lambda>r W'. W' = W \<and> r \<noteq> Inl RunQuota \<and> (r = Inr (JStr ''rejected'') \<longrightarrow> rejection ev))"
    using True by (auto simp: run_post_def run_lift_def run_ret_def run_fail_def rejection_def split: sum.splits py_error.splits json.splits
        elim: jget.elims)
  have got: "run_post (run_bind (run_get wk_watch) (\<lambda>w.
      if status = JStr ''rejected'' \<and> w = None then run_seq (append_event ev) (run_fail RunQuota) else run_ret ())) W
      (quota_or_quiet (\<lambda>W. rejection ev \<and> wk_watch W = None) ev W)"
    if "status = JStr ''rejected'' \<longrightarrow> rejection ev" for status
    using that by (auto simp: quota_or_quiet_def run_post_def run_get_def run_seq_def append_event_def run_modify_def
        run_fail_def run_ret_def run_bind_def)
  have "run_post (run_bind (run_lift E (jget (dget_or ev ET_RATE_LIMIT_INFO (JObj [])) ''status'')) (\<lambda>status.
      run_bind (run_get wk_watch) (\<lambda>w.
        if status = JStr ''rejected'' \<and> w = None then run_seq (append_event ev) (run_fail RunQuota) else run_ret ()))) W
      (quota_or_quiet (\<lambda>W. rejection ev \<and> wk_watch W = None) ev W)"
    by (rule post_bind [OF st]) (auto simp: quota_or_quiet_def intro: got)
  then show ?thesis unfolding reject_event_def using True by simp
qed (simp add: reject_event_def run_post_def run_ret_def quota_or_quiet_def)

text \<open>What one event adds to the log, and when it ends the run on a quota.\<close>

definition event_done :: "run_env \<Rightarrow> dict \<Rightarrow> worker \<Rightarrow> run_error + unit \<Rightarrow> worker \<Rightarrow> bool" where
  "event_done E ev W r W' =
     ((wk_watch W' = None \<longleftrightarrow> wk_watch W = None) \<and>
      (case r of
         Inr _ \<Rightarrow> \<exists>ev' more. wk_log W' = wk_log W @ ev' # more \<and> untimed ev' = untimed ev
       | Inl RunQuota \<Rightarrow>
           (\<exists>ev'. wk_log W' = wk_log W @ [ev'] \<and> untimed ev' = untimed ev) \<and>
           (quota_error E ev \<or> (rejection ev \<and> wk_watch W = None))
       | Inl _ \<Rightarrow> prefix (wk_log W) (wk_log W')))"

lemma written_post:
  assumes "untimed ev' = untimed ev" "wk_log W1 = wk_log W" "wk_watch W1 = None \<longleftrightarrow> wk_watch W = None"
  shows "run_post
     (run_seq (append_and_broadcast ev')
       (run_seq (run_bind (run_lift E s) (\<lambda>synth. case synth of None \<Rightarrow> run_ret () | Some s \<Rightarrow> append_and_broadcast s))
         (if stop then run_modify (\<lambda>W. W\<lparr>wk_stops := Suc (wk_stops W)\<rparr>) else run_ret ()))) W1 (event_done E ev W)"
  using assms
  by (auto simp: event_done_def run_post_def run_seq_def run_bind_def append_and_broadcast_def append_event_def broadcast_def
      run_modify_def run_ret_def run_lift_def run_fail_def prefix_def split: sum.splits option.splits py_error.splits)

lemma quietly_then:
  assumes "run_post m W1 (quietly W1)" "wk_log W1 = wk_log W" "wk_watch W1 = None \<longleftrightarrow> wk_watch W = None"
    and "\<And>a W2. wk_log W2 = wk_log W \<Longrightarrow> (wk_watch W2 = None \<longleftrightarrow> wk_watch W = None) \<Longrightarrow>
           run_post (k a) W2 (event_done E ev W)"
  shows "run_post (run_bind m k) W1 (event_done E ev W)"
proof (rule post_bind [OF assms(1)], goal_cases)
  case (1 e W2)
  then show ?case using assms(2,3) by (cases e) (simp_all add: quietly_def event_done_def)
next
  case (2 a W2)
  then show ?case using assms(2,3) by (intro assms(4)) (simp_all add: quietly_def)
qed

lemma process_event_post: "run_post (process_event E ev) W (event_done E ev W)"
proof -
  obtain ev' W1 where st: "timed E ev W = (Inr ev', W1)" "untimed ev' = untimed ev" "wk_log W1 = wk_log W"
      "wk_watch W1 = wk_watch W" "quota_error E ev' = quota_error E ev" "dget ev' ''type'' = dget ev ''type''"
      "\<And>v. dget_or ev' ET_RATE_LIMIT_INFO v = dget_or ev ET_RATE_LIMIT_INFO v"
    using timed_cases [of E ev W] by metis
  have rj: "rejection ev' = rejection ev" using st(6,7) by (simp add: rejection_def)
  let ?tail = "\<lambda>stop. run_seq (append_and_broadcast ev')
       (run_seq (run_bind (run_lift E (compaction_event ev')) (\<lambda>synth. case synth of None \<Rightarrow> run_ret () | Some s \<Rightarrow> append_and_broadcast s))
         (if stop then run_modify (\<lambda>W. W\<lparr>wk_stops := Suc (wk_stops W)\<rparr>) else run_ret ()))"
  have last: "run_post (if quota_error E ev' then run_seq (append_event ev') (run_fail RunQuota) else ?tail stop) W4 (event_done E ev W)"
    if "wk_log W4 = wk_log W" "wk_watch W4 = None \<longleftrightarrow> wk_watch W = None" for stop W4
  proof (cases "quota_error E ev'")
    case True
    then show ?thesis
      using that st(2,5) by (auto simp: event_done_def run_post_def run_seq_def run_bind_def append_event_def run_modify_def run_fail_def)
  next
    case False
    then show ?thesis using written_post [OF st(2) that] by simp
  qed
  have noted: "run_post (run_seq (note_tokens E ev')
      (if quota_error E ev' then run_seq (append_event ev') (run_fail RunQuota) else ?tail stop)) W3 (event_done E ev W)"
    if "wk_log W3 = wk_log W" "wk_watch W3 = None \<longleftrightarrow> wk_watch W = None" for stop W3
    unfolding run_seq_def [of "note_tokens E ev'"] by (rule quietly_then [OF tokens_quietly that last])
  have rejected: "run_post (run_seq (reject_event E ev') (run_seq (note_tokens E ev')
      (if quota_error E ev' then run_seq (append_event ev') (run_fail RunQuota) else ?tail stop))) W2 (event_done E ev W)"
    if w: "wk_log W2 = wk_log W" "wk_watch W2 = None \<longleftrightarrow> wk_watch W = None" for stop W2
  proof (rule post_seq [OF reject_post], goal_cases)
    case (1 e W3)
    then show ?case using w st(2) rj by (cases e) (simp_all add: quota_or_quiet_def event_done_def)
  next
    case (2 a W3)
    then show ?case using w by (intro noted) (simp_all add: quota_or_quiet_def)
  qed
  have "run_post (run_bind (watch_event E ev') (\<lambda>stop. run_seq (reject_event E ev') (run_seq (note_tokens E ev')
      (if quota_error E ev' then run_seq (append_event ev') (run_fail RunQuota) else ?tail stop)))) W1 (event_done E ev W)"
    using st(3,4) by (intro quietly_then [OF watch_quietly _ _ rejected]) simp_all
  then show ?thesis
    unfolding process_event_def by (simp add: run_post_def run_bind_def [of "timed E ev"] st(1))
qed

text \<open>
  C16. Every event a process yields is written down, in order, with nothing changed but its time:
  all of them when the run goes through, all up to and including the one that ends it on a quota,
  and all before the one on which an exception ends it. A run ends on a quota only on an error
  event whose text names one, or, outside the account pool, on a rejected rate limit: a pooled run
  whose login is rejected goes on.
\<close>

theorem events_are_kept:
  assumes "process_events E evs W = (r, W')"
  shows "\<exists>gained k. wk_log W' = wk_log W @ gained \<and> k \<le> length evs \<and>
           subseq (map untimed (take k evs)) (map untimed gained) \<and>
           (r = Inr () \<longrightarrow> k = length evs) \<and>
           (r = Inl RunQuota \<longrightarrow> 0 < k \<and> untimed (last gained) = untimed (evs ! (k - 1)) \<and>
              (quota_error E (evs ! (k - 1)) \<or> (rejection (evs ! (k - 1)) \<and> wk_watch W = None))) \<and>
           (\<forall>e. r = Inl e \<and> e \<noteq> RunQuota \<longrightarrow> k < length evs \<and>
              (\<exists>W1. process_events E (take k evs) W = (Inr (), W1) \<and> process_event E (evs ! k) W1 = (Inl e, W')))"
  using assms
proof (induction evs arbitrary: W r W')
  case Nil
  then show ?case by (auto simp: run_ret_def)
next
  case (Cons ev evs)
  obtain r1 W1 where p: "process_event E ev W = (r1, W1)" by fastforce
  have d: "event_done E ev W r1 W1" using process_event_post [of E ev W] p by (simp add: run_post_def)
  show ?case
  proof (cases r1)
    case (Inl e)
    then have eq: "r = Inl e" "W' = W1" using Cons.prems p by (auto simp: run_seq_def run_bind_def)
    show ?thesis
    proof (cases "e = RunQuota")
      case True
      then obtain ev' where "wk_log W1 = wk_log W @ [ev']" "untimed ev' = untimed ev"
        "quota_error E ev \<or> (rejection ev \<and> wk_watch W = None)"
        using d Inl by (auto simp: event_done_def)
      then show ?thesis using eq True by (intro exI [of _ "[ev']"] exI [of _ 1]) auto
    next
      case False
      then have "prefix (wk_log W) (wk_log W1)" using d Inl by (auto simp: event_done_def split: run_error.splits)
      then obtain g where "wk_log W1 = wk_log W @ g" by (auto simp: prefix_def)
      then show ?thesis using eq Inl False p by (intro exI [of _ g] exI [of _ 0]) (auto simp: run_ret_def)
    qed
  next
    case (Inr u)
    then obtain ev' more where l: "wk_log W1 = wk_log W @ ev' # more" "untimed ev' = untimed ev"
      "wk_watch W1 = None \<longleftrightarrow> wk_watch W = None"
      using d by (auto simp: event_done_def)
    have "process_events E evs W1 = (r, W')" using Cons.prems p Inr by (simp add: run_seq_def run_bind_def)
    from Cons.IH [OF this] obtain gained k where g: "wk_log W' = wk_log W1 @ gained" "k \<le> length evs"
      "subseq (map untimed (take k evs)) (map untimed gained)" "r = Inr () \<longrightarrow> k = length evs"
      "r = Inl RunQuota \<longrightarrow> 0 < k \<and> untimed (last gained) = untimed (evs ! (k - 1)) \<and>
         (quota_error E (evs ! (k - 1)) \<or> (rejection (evs ! (k - 1)) \<and> wk_watch W1 = None))"
      "\<forall>e. r = Inl e \<and> e \<noteq> RunQuota \<longrightarrow> k < length evs \<and>
         (\<exists>W2. process_events E (take k evs) W1 = (Inr (), W2) \<and> process_event E (evs ! k) W2 = (Inl e, W'))" by blast
    have x: "Suc k < length (ev # evs) \<and>
        (\<exists>W2. process_events E (take (Suc k) (ev # evs)) W = (Inr (), W2) \<and> process_event E ((ev # evs) ! Suc k) W2 = (Inl e, W'))"
      if "r = Inl e" "e \<noteq> RunQuota" for e
      using g(6) that p Inr by (simp add: run_seq_def run_bind_def)
    have "subseq (map untimed (take k evs)) (map untimed (more @ gained))"
      using g(3) by (simp add: subseq_drop_many)
    then have s: "subseq (map untimed (take (Suc k) (ev # evs))) (map untimed (ev' # more @ gained))" using l(2) by simp
    have q: "untimed (last (ev' # more @ gained)) = untimed ((ev # evs) ! (Suc k - 1)) \<and>
        (quota_error E ((ev # evs) ! (Suc k - 1)) \<or> (rejection ((ev # evs) ! (Suc k - 1)) \<and> wk_watch W = None))"
      if "r = Inl RunQuota"
    proof -
      have "gained \<noteq> []" using g(3,5) g(2) that by auto
      then show ?thesis using g(5) l(3) that by (auto simp: nth_Cons')
    qed
    show ?thesis
      by (rule exI [of _ "ev' # more @ gained"], rule exI [of _ "Suc k"]) (use g(1,2,4) l(1) s q x in \<open>auto simp del: process_events.simps\<close>)
  qed
qed

definition demo_process :: process_run where
  "demo_process = \<lparr>pr_events = [], pr_raised = None, pr_exit = 0, pr_stderr = [], pr_hang = [], pr_cgroup = []\<rparr>"

definition demo_run_env :: run_env where
  "demo_run_env =
     \<lparr>re_pool = demo_pool_env, re_floors = \<lparr>fl_relay = 1, fl_expired = 1\<rparr>, re_text = (\<lambda>_. ''error''), re_now = int,
      re_iso = (\<lambda>_. ''t''), re_process = (\<lambda>_ _ _ _. demo_process), re_compact = (\<lambda>t. (CompactTimeout, t)),
      re_completed = None, re_diag = ''d''\<rparr>"

definition demo_worker :: worker where
  "demo_worker = new_worker None None ''task'' None reset_for_tests (\<lambda>_ _. []) 0"

definition demo_rejection :: dict where
  "demo_rejection =
     [(''type'', JStr ET_RATE_LIMIT_EVENT), (ET_RATE_LIMIT_INFO, JObj [(''status'', JStr ''rejected'')])]"

theorem events_are_kept_witness:
  "\<exists>W' gained. process_events demo_run_env [demo_rejection] demo_worker = (Inl RunQuota, W') \<and>
     wk_log W' = wk_log demo_worker @ gained \<and> untimed (last gained) = untimed demo_rejection"
proof -
  obtain r W' where p: "process_events demo_run_env [demo_rejection] demo_worker = (r, W')" by fastforce
  have "fst (process_events demo_run_env [demo_rejection] demo_worker) = Inl RunQuota" by code_simp
  then have r: "r = Inl RunQuota" using p by simp
  from events_are_kept [OF p] obtain gained k where g: "wk_log W' = wk_log demo_worker @ gained" "k \<le> 1" "0 < k"
    "untimed (last gained) = untimed ([demo_rejection] ! (k - 1))"
    unfolding r by auto
  then have "k - 1 = 0" by simp
  then show ?thesis using p r g by auto
qed

text \<open>The first process is rejected on account \<open>a\<close>, where the conversation is; the second is not.\<close>

definition demo_relaying :: run_env where
  "demo_relaying =
     demo_run_env\<lparr>re_process := (\<lambda>n _ _ _. if n = 0 then demo_process\<lparr>pr_events := [demo_rejection]\<rparr> else demo_process)\<rparr>"

theorem relays_are_bounded_witness:
  "snd (wk_started (snd (run_loop demo_relaying
     (new_worker (Some \<lparr>bo_id = ''a'', bo_type = CC_CLAUDE, bo_model = None\<rparr>) (Some ''c'') ''task''
        (Some \<lparr>ca_label = ''a'', ca_dir = ''/a''\<rparr>) reset_for_tests
        (\<lambda>d c. if d = ''/a'' \<and> c = ''c'' then [(''p'', demo_transcript)] else []) 0))) ! 1) = (continuation_prompt, Some ''c'')"
proof -
  let ?opt = "Some \<lparr>bo_id = ''a'', bo_type = CC_CLAUDE, bo_model = None\<rparr>"
  let ?a = "Some \<lparr>ca_label = ''a'', ca_dir = ''/a''\<rparr>"
  let ?T = "\<lambda>d c. if d = ''/a'' \<and> c = ''c'' then [(''p'', demo_transcript)] else []"
  define ps where "ps = wk_started (snd (run_loop demo_relaying (new_worker ?opt (Some ''c'') ''task'' ?a reset_for_tests ?T 0)))"
  have "length ps = 2" unfolding ps_def by code_simp
  moreover have "\<forall>i. 0 < i \<and> i < length ps \<longrightarrow> snd (ps ! i) = (continuation_prompt, Some ''c'')"
    using relays_are_bounded [of demo_relaying ?opt "Some ''c''" "''task''" ?a reset_for_tests ?T 0]
    unfolding ps_def Let_def by blast
  ultimately show ?thesis unfolding ps_def by simp
qed

text \<open>A synthesized compaction event is written without a time.\<close>

lemma compaction_event_untimed:
  "compaction_event ev = Inr (Some synth) \<Longrightarrow> dget synth ''timestamp'' = JNull"
  by (auto simp: compaction_event_def context_compacted_event_def context_compact_failed_event_def
      split: if_splits json.splits)

end
