(* ===== verification/Memory_Store.thy ===== *)
theory Memory_Store
  imports Memo "HOL-Library.List_Lexorder" "HOL-Library.Char_ord"
begin

text \<open>
  \<open>src/core/memory.py\<close>: the store of labeled entries. One entry's grammar, the topics vocabulary, the
  rules an entry has to meet, the memoised load, the lint, and the blocks given to a master and to a
  worker. The files are UTF-8; a \<open>MemoryFormatError\<close> is its text.
\<close>

subsection \<open>Grammar\<close>

definition slug_char :: "char \<Rightarrow> bool" where
  "slug_char c =
     (let n = (of_char c :: nat) in
      (65 \<le> n \<and> n \<le> 90) \<or> (97 \<le> n \<and> n \<le> 122) \<or> (48 \<le> n \<and> n \<le> 57) \<or> n = 46 \<or> n = 95 \<or> n = 45)"

definition topic_char :: "char \<Rightarrow> bool" where
  "topic_char c = (let n = (of_char c :: nat) in (97 \<le> n \<and> n \<le> 122) \<or> (48 \<le> n \<and> n \<le> 57) \<or> n = 45)"

definition field_char :: "char \<Rightarrow> bool" where
  "field_char c = (let n = (of_char c :: nat) in (97 \<le> n \<and> n \<le> 122) \<or> n = 95)"

definition slug_line :: "string \<Rightarrow> bool" where "slug_line s = (s \<noteq> [] \<and> list_all slug_char s)"

definition slug_re :: "string \<Rightarrow> bool" where "slug_re s = slug_line (drop_final_newline s)"

definition topic_line_name :: "string \<Rightarrow> bool" where
  "topic_line_name s = (s \<noteq> [] \<and> list_all topic_char s \<and> hd s \<noteq> CHR ''-'')"

definition digit_char :: "char \<Rightarrow> bool" where
  "digit_char c = (let n = (of_char c :: nat) in 48 \<le> n \<and> n \<le> 57)"

definition created_re :: "string \<Rightarrow> bool" where
  "created_re s =
     (length s = 10 \<and> list_all digit_char (take 4 s) \<and> s ! 4 = CHR ''-'' \<and> list_all digit_char (take 2 (drop 5 s)) \<and>
      s ! 7 = CHR ''-'' \<and> list_all digit_char (drop 8 s))"

text \<open>Slugs separated by commas, with spaces around the commas only.\<close>

definition lstrip_spaces :: "string \<Rightarrow> string" where "lstrip_spaces s = dropWhile (\<lambda>c. c = CHR '' '') s"

definition rstrip_spaces :: "string \<Rightarrow> string" where "rstrip_spaces s = rev (dropWhile (\<lambda>c. c = CHR '' '') (rev s))"

definition audience_value_re :: "string \<Rightarrow> bool" where
  "audience_value_re v =
     (case split_on (CHR '','') v of
        [] \<Rightarrow> False
      | [p] \<Rightarrow> slug_line p
      | p # ps \<Rightarrow>
          slug_line (rstrip_spaces p) \<and> list_all (\<lambda>q. slug_line (rstrip_spaces (lstrip_spaces q))) (butlast ps) \<and>
          slug_line (lstrip_spaces (last ps)))"

definition known_fields :: "string list" where
  "known_fields = [''scope'', ''topic'', ''audience'', ''title'', ''created'', ''source'', ''revises'']"

definition scopes :: "string list" where "scopes = [''user'', ''host'']"

definition audience_elements :: "string list" where "audience_elements = [''master'', ''worker'']"

text \<open>\<open>^([a-z_]+): (.+)$\<close>.\<close>

definition header_line :: "string \<Rightarrow> (string \<times> string) option" where
  "header_line l =
     (let key = takeWhile field_char l; rest = dropWhile field_char l
      in if key \<noteq> [] \<and> prefix '': '' rest \<and> drop 2 rest \<noteq> [] then Some (key, drop 2 rest) else None)"

definition in_quotes :: "string \<Rightarrow> string" where "in_quotes s = [CHR 0x27] @ s @ [CHR 0x27]"

subsection \<open>An entry\<close>

text \<open>A path: as text, the name of its directory, and its stem.\<close>

record entry_path =
  ep_text :: string
  ep_parent :: string
  ep_stem :: string

record entry =
  en_path :: entry_path
  en_topic :: "string option"
  en_slug :: string
  en_scope :: "string option"
  en_audience :: "string list option"
  en_audience_raw :: "string option"
  en_created :: "string option"
  en_source :: "string option"
  en_revises :: "string option"
  en_title :: string
  en_title_in_header :: bool
  en_body :: string

definition parse_audience :: "string \<Rightarrow> string list" where
  "parse_audience raw =
     (if raw = ''both'' then [''master'', ''worker''] else map str_strip (split_on (CHR '','') raw))"

definition at_line :: "entry_path \<Rightarrow> nat \<Rightarrow> string \<Rightarrow> string" where
  "at_line p n msg = ep_text p @ '': line '' @ int_str (int n) @ '': '' @ msg"

text \<open>The value as it is stored, or the text of the error.\<close>

definition header_value :: "entry_path \<Rightarrow> nat \<Rightarrow> string \<Rightarrow> string \<Rightarrow> string \<Rightarrow> string + string" where
  "header_value p n l key value =
     (if key = ''title''
      then (if str_strip value = [] then Inl (at_line p n (''empty '' @ in_quotes ''title'' @ '' header value'')) else Inr (str_strip value))
      else if key = ''audience''
      then (if audience_value_re value then Inr value
            else Inl (at_line p n (''malformed header line: '' @ py_repr (Some l))))
      else if slug_line value then Inr value
      else Inl (at_line p n (''malformed header line: '' @ py_repr (Some l))))"

text \<open>The header from line \<open>n\<close> on, and the lines after its closer with the closer's number.\<close>

fun parse_header ::
  "entry_path \<Rightarrow> nat \<Rightarrow> string list \<Rightarrow> (string \<times> string) list \<Rightarrow> string + (string \<times> string) list \<times> nat \<times> string list" where
  "parse_header p n [] h = Inl (ep_text p @ ('': missing closing '' @ in_quotes ''---'' @ '' after header''))"
| "parse_header p n (l # ls) h =
     (if l = ''---'' then Inr (h, n, ls)
      else case header_line l of
             None \<Rightarrow> Inl (at_line p n (''malformed header line: '' @ py_repr (Some l)))
           | Some (key, value) \<Rightarrow>
               if key \<notin> set known_fields then Inl (at_line p n (''unknown header field '' @ py_repr (Some key)))
               else if map_of h key \<noteq> None then Inl (at_line p n (''duplicate header field '' @ py_repr (Some key)))
               else py_bind (header_value p n l key value) (\<lambda>v. parse_header p (Suc n) ls (h @ [(key, v)])))"

definition entry_title :: "entry_path \<Rightarrow> nat \<Rightarrow> (string \<times> string) list \<Rightarrow> string \<Rightarrow> string + string \<times> bool" where
  "entry_title p n h first =
     (case map_of h ''title'' of
        Some t \<Rightarrow> Inr (t, True)
      | None \<Rightarrow>
          if \<not> prefix ''# '' first
          then Inl (at_line p n (''no frontmatter '' @ in_quotes ''title'' @ '' and body must start with '' @ in_quotes ''# <title>''))
          else if str_strip (drop 2 first) = [] then Inl (at_line p n (''empty title after '' @ in_quotes ''# ''))
          else Inr (str_strip (drop 2 first), False))"

definition parse_entry_text :: "string \<Rightarrow> entry_path \<Rightarrow> string + entry" where
  "parse_entry_text text p =
     (case split_on newline text of
        [] \<Rightarrow> Inl (at_line p 1 (''expected '' @ in_quotes ''---'' @ '' front matter opener''))
      | l # ls \<Rightarrow>
          if l \<noteq> ''---'' then Inl (at_line p 1 (''expected '' @ in_quotes ''---'' @ '' front matter opener''))
          else py_bind (parse_header p 2 ls []) (\<lambda>(h, n, body).
            if body = [] \<or> body = [[]] then Inl (at_line p (Suc n) ''empty body'')
            else py_bind (entry_title p (Suc n) h (hd body)) (\<lambda>(title, in_header).
              Inr \<lparr>en_path = p, en_topic = map_of h ''topic'', en_slug = ep_stem p, en_scope = map_of h ''scope'',
                   en_audience = map_option parse_audience (map_of h ''audience''),
                   en_audience_raw = map_of h ''audience'', en_created = map_of h ''created'',
                   en_source = map_of h ''source'', en_revises = map_of h ''revises'', en_title = title,
                   en_title_in_header = in_header, en_body = py_join [newline] body\<rparr>)))"

subsection \<open>Rules\<close>

type_synonym topics = "(string \<times> bool) list"

text \<open>\<open>^([a-z0-9][a-z0-9-]*)( resident)?$\<close>.\<close>

definition topic_line :: "string \<Rightarrow> (string \<times> bool) option" where
  "topic_line l =
     (let name = takeWhile topic_char l; rest = dropWhile topic_char l
      in if topic_line_name name \<and> (rest = [] \<or> rest = '' resident'') then Some (name, rest \<noteq> []) else None)"

fun parse_topics :: "string \<Rightarrow> nat \<Rightarrow> string list \<Rightarrow> topics \<Rightarrow> string + topics" where
  "parse_topics path n [] ts = Inr ts"
| "parse_topics path n (l # ls) ts =
     (if l = [] then parse_topics path (Suc n) ls ts
      else case topic_line l of
             None \<Rightarrow> Inl (path @ '': line '' @ int_str (int n) @ '': malformed topic line: '' @ py_repr (Some l))
           | Some (name, res) \<Rightarrow>
               if map_of ts name \<noteq> None
               then Inl (path @ '': line '' @ int_str (int n) @ '': duplicate topic '' @ py_repr (Some name))
               else parse_topics path (Suc n) ls (ts @ [(name, res)]))"

definition violation_text :: "bool \<Rightarrow> entry \<Rightarrow> string \<Rightarrow> string" where
  "violation_text relaxed e msg =
     (if relaxed then ''staging'' else ''entries'') @ ''/'' @
     (case en_topic e of Some t \<Rightarrow> if t \<noteq> [] then t else ''?'' | None \<Rightarrow> ''?'') @ ''/'' @ en_slug e @ ''.md: '' @ msg"

definition audience_violations :: "entry \<Rightarrow> string list" where
  "audience_violations e =
     (case en_audience e of
        None \<Rightarrow> []
      | Some els \<Rightarrow>
          map (\<lambda>el. ''audience element '' @ py_repr (Some el) @ '' not in {master, worker}'')
            (filter (\<lambda>el. el \<notin> set audience_elements) els))"

definition complain :: "bool \<Rightarrow> string \<Rightarrow> string list" where "complain b msg = (if b then [msg] else [])"

text \<open>\<open>entry.topic\<close> as a truth value, and a field's value in a message.\<close>

definition named :: "string option \<Rightarrow> bool" where "named s = (s \<noteq> None \<and> s \<noteq> Some [])"

definition common_violations :: "entry \<Rightarrow> string list" where
  "common_violations e =
     complain (\<not> slug_re (en_slug e))
       (''filename slug '' @ py_repr (Some (en_slug e)) @ '' does not match slug charset [A-Za-z0-9._-]'') @
     (if \<not> named (en_topic e) then [(''missing required header field '' @ in_quotes ''topic'')]
      else complain (\<not> topic_line_name (drop_final_newline (the (en_topic e))))
             (''topic '' @ py_repr (en_topic e) @ '' is not a valid topic name''))"

definition scope_violations :: "entry \<Rightarrow> string list" where
  "scope_violations e =
     complain (en_scope e \<noteq> None \<and> the (en_scope e) \<notin> set scopes) (''scope '' @ py_repr (en_scope e) @ '' not in {user, host}'')"

definition created_violations :: "entry \<Rightarrow> string list" where
  "created_violations e =
     complain (en_created e \<noteq> None \<and> \<not> created_re (the (en_created e)))
       (''created '' @ py_repr (en_created e) @ '' not YYYY-MM-DD'')"

definition relaxed_violations :: "entry \<Rightarrow> string list" where
  "relaxed_violations e =
     scope_violations e @ audience_violations e @ created_violations e @
     complain (en_revises e \<noteq> None \<and> \<not> slug_re (the (en_revises e)))
       (''revises '' @ py_repr (en_revises e) @ '' does not match slug charset'')"

definition entries_violations :: "entry \<Rightarrow> topics \<Rightarrow> string list" where
  "entries_violations e ts =
     complain (named (en_topic e) \<and> map_of ts (the (en_topic e)) = None)
       (''topic '' @ py_repr (en_topic e) @ '' not in topics vocabulary'') @
     complain (named (en_topic e) \<and> Some (ep_parent (en_path e)) \<noteq> en_topic e)
       (''directory name '' @ py_repr (Some (ep_parent (en_path e))) @ '' != topic '' @ py_repr (en_topic e)) @
     complain (en_scope e = None) ((''missing required header field '' @ in_quotes ''scope'')) @
     complain (en_audience e = None) ((''missing required header field '' @ in_quotes ''audience'')) @
     scope_violations e @ audience_violations e @ created_violations e @
     complain (en_source e \<noteq> None \<and> \<not> slug_re (the (en_source e)))
       (''source '' @ py_repr (en_source e) @ '' does not match slug charset'') @
     complain (en_revises e \<noteq> None) (in_quotes ''revises'' @ '' is forbidden in entries/ (only staging candidates may carry it)'')"

definition strict_v2_violations :: "entry \<Rightarrow> string list" where
  "strict_v2_violations e =
     complain (\<not> en_title_in_header e) ((''missing required header field '' @ in_quotes ''title'')) @
     complain (en_audience_raw e = Some ''both'') ((''literal audience '' @ in_quotes ''both'' @ '' is forbidden in entries/; write '' @ in_quotes ''master, worker'')) @
     complain (en_created e \<noteq> None) (in_quotes ''created'' @ '' is forbidden in entries/ (dropped in entry format v2)'') @
     complain (en_source e \<noteq> None) (in_quotes ''source'' @ '' is forbidden in entries/ (dropped in entry format v2)'')"

definition validate_entry :: "entry \<Rightarrow> topics \<Rightarrow> bool \<Rightarrow> bool \<Rightarrow> string list" where
  "validate_entry e ts relaxed strict_v2 =
     map (violation_text relaxed e)
       (common_violations e @
        (if relaxed then relaxed_violations e
         else entries_violations e ts @ (if strict_v2 then strict_v2_violations e else [])))"

definition entry_violations :: "entry \<Rightarrow> topics \<Rightarrow> bool \<Rightarrow> string list" where
  "entry_violations e ts strict_v2 = validate_entry e ts False strict_v2"

subsection \<open>Loading\<close>

text \<open>
  The directory as it is on disk: the topics file, the topic directories with their files, and the
  staging files; \<open>None\<close> for a directory that does not exist. Names are without their directory.
\<close>

record memory_dir =
  md_path :: string
  md_topics :: "string option"
  md_entries :: "(string \<times> (string \<times> string) list) list option"
  md_staging :: "(string \<times> string) list option"

definition md_name :: "string \<Rightarrow> bool" where "md_name s = suffix ''.md'' s"

text \<open>\<open>Path.stem\<close> of a name that ends in \<open>.md\<close>.\<close>

definition stem :: "string \<Rightarrow> string" where
  "stem name = (if name = ''.md'' then name else take (length name - 3) name)"

definition iter_entry_files :: "memory_dir \<Rightarrow> (entry_path \<times> string) list" where
  "iter_entry_files M =
     (case md_entries M of
        None \<Rightarrow> []
      | Some dirs \<Rightarrow>
          concat (map (\<lambda>(topic, files).
            map (\<lambda>(name, text).
                (\<lparr>ep_text = md_path M @ ''/entries/'' @ topic @ ''/'' @ name, ep_parent = topic, ep_stem = stem name\<rparr>, text))
              (sort_key fst (filter (\<lambda>f. md_name (fst f)) files))) (sort_key fst dirs)))"

definition topics_path :: "memory_dir \<Rightarrow> string" where "topics_path M = md_path M @ ''/topics''"

definition load_topics :: "memory_dir \<Rightarrow> string + topics" where
  "load_topics M =
     (case md_topics M of
        None \<Rightarrow> Inl (topics_path M @ '': topics vocabulary file not found'')
      | Some text \<Rightarrow> parse_topics (topics_path M) 1 (split_on newline text) [])"

record store =
  st_dir :: string
  st_topics :: topics
  st_entries :: "entry list"

definition load_entry :: "topics \<Rightarrow> entry_path \<times> string \<Rightarrow> string + entry" where
  "load_entry ts = (\<lambda>(p, text).
     py_bind (parse_entry_text text p) (\<lambda>e.
       case validate_entry e ts False False of [] \<Rightarrow> Inr e | v # _ \<Rightarrow> Inl v))"

definition load_store_uncached :: "memory_dir \<Rightarrow> string + store" where
  "load_store_uncached M =
     py_bind (load_topics M) (\<lambda>ts.
     py_bind (py_map (load_entry ts) (iter_entry_files M)) (\<lambda>es.
       Inr \<lparr>st_dir = md_path M, st_topics = ts, st_entries = es\<rparr>))"

text \<open>The stat-only signature, \<open>None\<close> when a file could not be stat'ed.\<close>

type_synonym store_sig = "(string \<times> int \<times> int) list option"

type_synonym store_memo = "(string, (string \<times> int \<times> int) list \<times> store) bounded_memo"

definition store_memo_limit :: nat where "store_memo_limit = 8"

definition load_store :: "store_sig \<Rightarrow> memory_dir \<Rightarrow> store_memo \<Rightarrow> (string + store) \<times> store_memo" where
  "load_store sig M m =
     (let (hit, m1) = (case sig of None \<Rightarrow> (None, m) | Some _ \<Rightarrow> memo_get (md_path M) m)
      in case (sig, hit) of
           (Some s, Some (s', v)) \<Rightarrow>
             if s' = s then (Inr v, m1)
             else (case load_store_uncached M of
                     Inl e \<Rightarrow> (Inl e, memo_drop (md_path M) m1)
                   | Inr v' \<Rightarrow> (Inr v', memo_store (md_path M) (s, v') m1))
         | (Some s, None) \<Rightarrow>
             (case load_store_uncached M of
                Inl e \<Rightarrow> (Inl e, memo_drop (md_path M) m1)
              | Inr v' \<Rightarrow> (Inr v', memo_store (md_path M) (s, v') m1))
         | (None, _) \<Rightarrow> (load_store_uncached M, m1))"

subsection \<open>Lint\<close>

definition lint_entry :: "topics \<Rightarrow> entry_path \<times> string \<Rightarrow> string list" where
  "lint_entry ts = (\<lambda>(p, text).
     case parse_entry_text text p of Inl err \<Rightarrow> [err] | Inr e \<Rightarrow> validate_entry e ts False True)"

definition lint_staging :: "topics \<Rightarrow> entry_path \<times> string \<Rightarrow> string list" where
  "lint_staging ts = (\<lambda>(p, text).
     let first = hd (split_on newline text) in
     if first = ''---''
     then (case parse_entry_text text p of Inl err \<Rightarrow> [err] | Inr e \<Rightarrow> validate_entry e ts True False)
     else if text = [] then [ep_text p @ '': empty capture file'']
     else if \<not> prefix ''# '' first then [ep_text p @ ('': line 1: capture must start with '' @ in_quotes ''# <title>'')]
     else if str_strip (drop 2 first) = [] then [ep_text p @ ('': line 1: empty title after '' @ in_quotes ''# '')] else [])"

definition staging_files :: "memory_dir \<Rightarrow> (entry_path \<times> string) list" where
  "staging_files M =
     (case md_staging M of
        None \<Rightarrow> []
      | Some files \<Rightarrow>
          map (\<lambda>(name, text). (\<lparr>ep_text = md_path M @ ''/staging/'' @ name, ep_parent = ''staging'', ep_stem = stem name\<rparr>, text))
            (sort_key fst (filter (\<lambda>f. md_name (fst f)) files)))"

definition lint :: "memory_dir \<Rightarrow> string list" where
  "lint M =
     (let (bad, ts) = (case load_topics M of Inl err \<Rightarrow> ([err], []) | Inr ts \<Rightarrow> ([], ts))
      in bad @ concat (map (lint_entry ts) (iter_entry_files M)) @ concat (map (lint_staging ts) (staging_files M)))"

subsection \<open>Assembling\<close>

definition full_text :: "entry \<Rightarrow> string" where
  "full_text e =
     (let body = rev (dropWhile (\<lambda>c. c = newline) (rev (en_body e)))
      in if prefix ''# '' body then body else ''# '' @ en_title e @ [newline, newline] @ body)"

definition index_header :: string where
  "index_header =
     ''# Memory index '' @ em_dash @ '' full text via `charliebot memory query --topic <topic>` (topic = segment before '' @
     [CHR 0x22] @ ''/'' @ [CHR 0x22] @ '', e.g. `--topic integrations`)''"

definition entry_id :: "entry \<Rightarrow> string" where
  "entry_id e = (case en_topic e of Some t \<Rightarrow> t | None \<Rightarrow> ''None'') @ ''/'' @ en_slug e"

definition index_line :: "entry \<Rightarrow> string" where
  "index_line e = entry_id e @ '' '' @ [CHR 0xC2, CHR 0xB7] @ '' '' @ en_title e"

definition format_block :: "entry list \<Rightarrow> entry list \<Rightarrow> string" where
  "format_block full index =
     py_join [newline, newline]
       ((if full = [] then [] else [py_join [newline, newline] (map full_text full)]) @
        (if index = [] then [] else [py_join [newline] (index_header # map index_line index)]))"

definition entry_key :: "entry \<Rightarrow> string list" where
  "entry_key e = [(case en_topic e of Some t \<Rightarrow> t | None \<Rightarrow> []), en_slug e]"

definition addressed :: "string \<Rightarrow> entry \<Rightarrow> bool" where
  "addressed who e = (case en_audience e of None \<Rightarrow> False | Some els \<Rightarrow> who \<in> set els)"

definition sorted_entries :: "(entry \<Rightarrow> bool) \<Rightarrow> store \<Rightarrow> entry list" where
  "sorted_entries p S = sort_key entry_key (filter p (st_entries S))"

definition resident :: "store \<Rightarrow> entry \<Rightarrow> bool" where
  "resident S e = (\<exists>(name, res) \<in> set (st_topics S). res \<and> en_topic e = Some name)"

text \<open>\<open>None\<close> for the directory that is missing; the store is loaded otherwise.\<close>

definition assemble_master :: "store option \<Rightarrow> string option" where
  "assemble_master loaded =
     (case loaded of
        None \<Rightarrow> None
      | Some S \<Rightarrow>
          let full = sorted_entries (\<lambda>e. addressed ''master'' e \<and> resident S e) S;
              index = sorted_entries (\<lambda>e. addressed ''master'' e \<and> \<not> resident S e) S
          in if full = [] \<and> index = [] then None else Some (format_block full index))"

definition usage_line :: string where
  "usage_line =
     ''On-demand knowledge: `charliebot memory query --topic <topic>` (full text) or `--index` '' @
     ''for the index only. Stage a capture with `charliebot memory add [--file F]`: a capture '' @
     ''is one file, first line `# <title>`, stating one fact to record or one change to '' @
     ''propose, naming the target entry in the body when proposing a change (writes staging/, '' @
     ''never entries/).''"

definition assemble_worker :: "store option \<Rightarrow> string \<Rightarrow> string option" where
  "assemble_worker loaded repo =
     (case loaded of
        None \<Rightarrow> None
      | Some S \<Rightarrow>
          let full = sorted_entries (\<lambda>e. addressed ''worker'' e \<and> en_topic e = Some repo) S;
              index = sorted_entries (\<lambda>e. addressed ''worker'' e \<and> en_topic e \<noteq> Some repo) S;
              block = format_block full index
          in Some (py_join [newline, newline] (filter (\<lambda>c. c \<noteq> []) [block, usage_line])))"

subsection \<open>What a loaded store is\<close>

text \<open>What the rules ask of an entry under \<open>entries/\<close>.\<close>

definition proper_entry :: "topics \<Rightarrow> entry \<Rightarrow> bool" where
  "proper_entry ts e =
     (slug_re (en_slug e) \<and> (\<exists>t. en_topic e = Some t \<and> t \<noteq> [] \<and> map_of ts t \<noteq> None \<and> ep_parent (en_path e) = t) \<and>
      (\<exists>s \<in> set scopes. en_scope e = Some s) \<and>
      (\<exists>els. en_audience e = Some els \<and> set els \<subseteq> set audience_elements) \<and> en_revises e = None)"

lemma complain_Nil [simp]: "complain b msg = [] \<longleftrightarrow> \<not> b"
  by (simp add: complain_def)

lemma audience_violations_Nil:
  "audience_violations e = [] \<longleftrightarrow> (\<forall>els. en_audience e = Some els \<longrightarrow> set els \<subseteq> set audience_elements)"
  by (auto simp: audience_violations_def filter_empty_conv split: option.splits)

lemma entries_violations_Nil:
  assumes "common_violations e @ entries_violations e ts = []"
  shows "proper_entry ts e"
proof -
  obtain t where t: "en_topic e = Some t" "t \<noteq> []"
    using assms by (auto simp: common_violations_def named_def split: if_splits)
  obtain s els where "en_scope e = Some s" "en_audience e = Some els"
    using assms by (auto simp: entries_violations_def)
  then show ?thesis
    using assms t
    by (auto simp: proper_entry_def common_violations_def entries_violations_def scope_violations_def named_def
        audience_violations_Nil)
qed

lemma validate_Nil:
  "validate_entry e ts False strict = [] \<Longrightarrow> proper_entry ts e"
  unfolding validate_entry_def by (intro entries_violations_Nil) (auto split: if_splits)

lemma validate_strict_Nil:
  "validate_entry e ts False True = [] \<Longrightarrow> validate_entry e ts False False = []"
  by (simp add: validate_entry_def)

lemma header_value_ne: "header_value p n l key v = Inr w \<Longrightarrow> key = ''title'' \<Longrightarrow> w \<noteq> []"
  by (auto simp: header_value_def split: if_splits)

lemma parse_header_title:
  "parse_header p n ls h = Inr (h', k, rest) \<Longrightarrow> (\<And>t. map_of h ''title'' = Some t \<Longrightarrow> t \<noteq> []) \<Longrightarrow>
     map_of h' ''title'' = Some t \<Longrightarrow> t \<noteq> []"
proof (induction p n ls h rule: parse_header.induct)
  case (2 p n l ls h)
  show ?case
  proof (cases "l = ''---''")
    case True
    then show ?thesis using 2 by auto
  next
    case False
    with 2(2) obtain key val v where kv: "header_line l = Some (key, val)" "key \<in> set known_fields" "map_of h key = None"
      "header_value p n l key val = Inr v" "parse_header p (Suc n) ls (h @ [(key, v)]) = Inr (h', k, rest)"
      by (auto simp: py_bind_Inr_iff split: option.splits if_splits)
    have "u \<noteq> []" if "map_of (h @ [(key, v)]) ''title'' = Some u" for u
      using that 2(3) header_value_ne [OF kv(4)] by (auto simp: map_add_def split: option.splits if_splits)
    then show ?thesis using 2(1) False kv 2(4) by simp
  qed
qed simp

lemma parse_entry_shape:
  assumes "parse_entry_text text p = Inr e"
  shows "en_path e = p" "en_slug e = ep_stem p" "en_title e \<noteq> []"
    "en_audience e = map_option parse_audience (en_audience_raw e)"
proof -
  obtain ls h n body title b where *: "split_on newline text = ''---'' # ls" "parse_header p 2 ls [] = Inr (h, n, body)"
    "entry_title p (Suc n) h (hd body) = Inr (title, b)"
    "e = \<lparr>en_path = p, en_topic = map_of h ''topic'', en_slug = ep_stem p, en_scope = map_of h ''scope'',
          en_audience = map_option parse_audience (map_of h ''audience''), en_audience_raw = map_of h ''audience'',
          en_created = map_of h ''created'', en_source = map_of h ''source'', en_revises = map_of h ''revises'',
          en_title = title, en_title_in_header = b, en_body = py_join [newline] body\<rparr>"
    using assms by (auto simp: parse_entry_text_def py_bind_Inr_iff split: list.splits if_splits)
  have "title \<noteq> []"
    using *(3) parse_header_title [OF *(2)] by (auto simp: entry_title_def split: option.splits if_splits)
  then show "en_path e = p" "en_slug e = ep_stem p" "en_title e \<noteq> []"
    "en_audience e = map_option parse_audience (en_audience_raw e)"
    using *(4) by simp_all
qed

lemma py_map_all2: "py_map f xs = Inr ys \<longleftrightarrow> list_all2 (\<lambda>x y. f x = Inr y) xs ys"
  by (induction xs arbitrary: ys) (auto simp: py_bind_Inr_iff list_all2_Cons1)

lemma load_store_Inr:
  assumes "load_store_uncached M = Inr S"
  shows "load_topics M = Inr (st_topics S)"
    "list_all2 (\<lambda>f e. load_entry (st_topics S) f = Inr e) (iter_entry_files M) (st_entries S)"
  using assms by (auto simp: load_store_uncached_def py_bind_Inr_iff py_map_all2)

lemma load_entry_Inr:
  assumes "load_entry ts (p, text) = Inr e"
  shows "parse_entry_text text p = Inr e" "proper_entry ts e"
proof -
  obtain e' where "parse_entry_text text p = Inr e'" "(case validate_entry e' ts False False of [] \<Rightarrow> Inr e' | v # _ \<Rightarrow> Inl v) = Inr e"
    using assms by (auto simp: load_entry_def py_bind_Inr_iff)
  then show "parse_entry_text text p = Inr e" "proper_entry ts e"
    by (cases "validate_entry e' ts False False"; auto intro: validate_Nil)+
qed

text \<open>
  C18. A store that loads has, for every entry file in order, one entry whose topic is the file's
  directory and in the vocabulary, with a title, a known scope, an audience among master and
  worker, and no revision mark.
\<close>

theorem loaded_store_is_proper:
  assumes "load_store_uncached M = Inr S"
  shows "map en_path (st_entries S) = map fst (iter_entry_files M) \<and>
         (\<forall>e \<in> set (st_entries S). proper_entry (st_topics S) e \<and> en_title e \<noteq> [])"
proof -
  have "list_all2 (\<lambda>f e. en_path e = fst f \<and> proper_entry (st_topics S) e \<and> en_title e \<noteq> [])
      (iter_entry_files M) (st_entries S)"
    using load_store_Inr(2) [OF assms]
  proof (rule list_all2_mono)
    fix f e
    assume l: "load_entry (st_topics S) f = Inr e"
    obtain p content where f: "f = (p, content)" by fastforce
    note parsed = load_entry_Inr [OF l [unfolded f]]
    show "en_path e = fst f \<and> proper_entry (st_topics S) e \<and> en_title e \<noteq> []"
      using parsed(2) parse_entry_shape(1,3) [OF parsed(1)] f by simp
  qed
  then show ?thesis by (auto simp: list_all2_conv_all_nth in_set_conv_nth intro!: nth_equalityI)
qed

definition demo_entry_text :: string where
  "demo_entry_text =
     py_join [newline] [''---'', ''scope: user'', ''topic: git'', ''audience: master, worker'', ''title: A fact'', ''---'', ''It holds.'']"

definition demo_memory :: memory_dir where
  "demo_memory =
     \<lparr>md_path = ''/m'', md_topics = Some (''git resident'' @ [newline]), md_entries = Some [(''git'', [(''a.md'', demo_entry_text)])],
      md_staging = None\<rparr>"

definition demo_store :: store where
  "demo_store =
     \<lparr>st_dir = ''/m'', st_topics = [(''git'', True)],
      st_entries = [\<lparr>en_path = \<lparr>ep_text = ''/m/entries/git/a.md'', ep_parent = ''git'', ep_stem = ''a''\<rparr>, en_topic = Some ''git'',
        en_slug = ''a'', en_scope = Some ''user'', en_audience = Some [''master'', ''worker''],
        en_audience_raw = Some ''master, worker'', en_created = None, en_source = None, en_revises = None,
        en_title = ''A fact'', en_title_in_header = True, en_body = ''It holds.''\<rparr>]\<rparr>"

lemma demo_loads: "load_store_uncached demo_memory = Inr demo_store" by code_simp

theorem loaded_store_is_proper_witness:
  "proper_entry (st_topics demo_store) (hd (st_entries demo_store)) \<and> en_title (hd (st_entries demo_store)) = ''A fact''"
  using loaded_store_is_proper [OF demo_loads] by (simp add: demo_store_def)

subsection \<open>Lint and load\<close>

text \<open>
  A clean store loads, and by the newer rules: when lint finds nothing, the load succeeds and
  every entry has its title in its header, no legacy audience, and no dropped field.
\<close>

theorem clean_store_loads:
  assumes "lint M = []"
  shows "\<exists>S. load_store_uncached M = Inr S \<and>
           (\<forall>e \<in> set (st_entries S). en_title_in_header e \<and> en_audience_raw e \<noteq> Some ''both'' \<and>
              en_created e = None \<and> en_source e = None)"
proof -
  obtain ts where ts: "load_topics M = Inr ts" using assms by (auto simp: lint_def split: sum.splits)
  have clean: "\<exists>e. load_entry ts f = Inr e \<and> strict_v2_violations e = []" if "f \<in> set (iter_entry_files M)" for f
  proof -
    obtain p content where f: "f = (p, content)" by fastforce
    have "lint_entry ts f = []" using assms that ts by (auto simp: lint_def)
    then obtain e where e: "parse_entry_text content p = Inr e" "validate_entry e ts False True = []"
      using f by (auto simp: lint_entry_def split: sum.splits)
    then have "load_entry ts f = Inr e" using f validate_strict_Nil by (simp add: load_entry_def)
    moreover have "strict_v2_violations e = []" using e(2) by (simp add: validate_entry_def)
    ultimately show ?thesis by blast
  qed
  then obtain g where g: "\<And>f. f \<in> set (iter_entry_files M) \<Longrightarrow> load_entry ts f = Inr (g f) \<and> strict_v2_violations (g f) = []"
    by metis
  then have "py_map (load_entry ts) (iter_entry_files M) = Inr (map g (iter_entry_files M))"
    by (intro py_map_total) blast
  then have "load_store_uncached M = Inr \<lparr>st_dir = md_path M, st_topics = ts, st_entries = map g (iter_entry_files M)\<rparr>"
    using ts by (simp add: load_store_uncached_def)
  then show ?thesis using g by (auto simp: strict_v2_violations_def)
qed

theorem clean_store_loads_witness:
  "lint demo_memory = [] \<and> (\<exists>S. load_store_uncached demo_memory = Inr S)"
proof -
  have "lint demo_memory = []" by code_simp
  then show ?thesis using clean_store_loads [of demo_memory] by blast
qed

subsection \<open>The memo\<close>

fun loads :: "(store_sig \<times> memory_dir) list \<Rightarrow> store_memo \<Rightarrow> (string + store) list" where
  "loads [] m = []"
| "loads ((sig, M) # ds) m = (let (r, m') = load_store sig M m in r # loads ds m')"

text \<open>What the memo holds was loaded from a directory seen under that signature.\<close>

definition memo_licensed :: "(store_sig \<times> memory_dir) set \<Rightarrow> store_memo \<Rightarrow> bool" where
  "memo_licensed D m =
     (memo_ok m \<and> (\<forall>k s v. map_of (memo_entries m) k = Some (s, v) \<longrightarrow>
        (\<exists>M. (Some s, M) \<in> D \<and> md_path M = k \<and> load_store_uncached M = Inr v)))"

lemma licensed_get: "memo_licensed D m \<Longrightarrow> memo_licensed D (snd (memo_get k m))"
  by (simp add: memo_licensed_def memo_get_lookup step_intros)

lemma licensed_store:
  assumes "memo_licensed D m" "(Some s, M) \<in> D" "load_store_uncached M = Inr v"
  shows "memo_licensed D (memo_store (md_path M) (s, v) m)"
  using assms by (fastforce simp: memo_licensed_def step_intros dest!: memo_store_sub [rotated])

lemma licensed_drop: "memo_licensed D m \<Longrightarrow> memo_licensed D (memo_drop k m)"
  by (simp add: memo_licensed_def step_intros) (simp add: memo_drop_def map_of_without_key)

lemma load_store_step:
  assumes "memo_licensed D m" "(sig, M) \<in> D"
    and moves: "\<And>s M M'. (Some s, M) \<in> D \<Longrightarrow> (Some s, M') \<in> D \<Longrightarrow> md_path M = md_path M' \<Longrightarrow>
      load_store_uncached M = load_store_uncached M'"
  shows "fst (load_store sig M m) = load_store_uncached M \<and> memo_licensed D (snd (load_store sig M m))"
proof (cases sig)
  case None
  then show ?thesis using assms(1) by (simp add: load_store_def)
next
  case (Some s)
  note lic = licensed_get [OF assms(1), of "md_path M"]
  show ?thesis
  proof (cases "\<exists>v. fst (memo_get (md_path M) m) = Some (s, v)")
    case True
    then obtain v where v: "fst (memo_get (md_path M) m) = Some (s, v)" by blast
    then have "map_of (memo_entries m) (md_path M) = Some (s, v)" by (simp add: memo_get_value)
    then obtain M' where "(Some s, M') \<in> D" "md_path M' = md_path M" "load_store_uncached M' = Inr v"
      using assms(1) unfolding memo_licensed_def by blast
    then have "load_store_uncached M = Inr v" using moves assms(2) Some by metis
    then show ?thesis using v lic Some by (auto simp: load_store_def split: prod.splits)
  next
    case False
    then have "load_store sig M m =
        (case load_store_uncached M of
           Inl e \<Rightarrow> (Inl e, memo_drop (md_path M) (snd (memo_get (md_path M) m)))
         | Inr v' \<Rightarrow> (Inr v', memo_store (md_path M) (s, v') (snd (memo_get (md_path M) m))))"
      using Some by (cases "memo_get (md_path M) m") (auto simp: load_store_def split: option.splits sum.splits)
    then show ?thesis
      using lic licensed_drop licensed_store assms(2) Some by (auto split: sum.splits)
  qed
qed

text \<open>
  However the directories change between loads, the memoised load answers what an uncached one
  would, success or error, as long as two states of one directory with the same signature load alike.
\<close>

theorem memoised_loads_are_current:
  assumes "\<forall>s M M'. (Some s, M) \<in> set ds \<longrightarrow> (Some s, M') \<in> set ds \<longrightarrow> md_path M = md_path M' \<longrightarrow>
      load_store_uncached M = load_store_uncached M'"
  shows "loads ds (memo_new store_memo_limit) = map (\<lambda>(_, M). load_store_uncached M) ds"
proof -
  have "loads es m = map (\<lambda>(_, M). load_store_uncached M) es" if "memo_licensed (set ds) m" "set es \<subseteq> set ds" for es m
    using that
  proof (induction es arbitrary: m)
    case (Cons d es)
    obtain sig M where d: "d = (sig, M)" by fastforce
    have "fst (load_store sig M m) = load_store_uncached M \<and> memo_licensed (set ds) (snd (load_store sig M m))"
    proof (rule load_store_step)
      show "memo_licensed (set ds) m" "(sig, M) \<in> set ds" using Cons.prems d by auto
      show "load_store_uncached M = load_store_uncached M'"
        if "(Some s, M) \<in> set ds" "(Some s, M') \<in> set ds" "md_path M = md_path M'" for s M M'
        using assms that by blast
    qed
    then show ?case using Cons d by (auto split: prod.splits)
  qed simp
  moreover have "memo_licensed (set ds) (memo_new store_memo_limit)"
    by (simp add: memo_licensed_def step_intros) (simp add: memo_new_def)
  ultimately show ?thesis by blast
qed

theorem memoised_loads_are_current_witness:
  "loads [(Some [], demo_memory), (Some [(''topics'', 1, 1)], demo_memory\<lparr>md_topics := None\<rparr>), (Some [], demo_memory)]
     (memo_new store_memo_limit) =
   [Inr demo_store, Inl ''/m/topics: topics vocabulary file not found'', Inr demo_store]"
proof -
  have "load_store_uncached (demo_memory\<lparr>md_topics := None\<rparr>) = Inl ''/m/topics: topics vocabulary file not found''"
    by code_simp
  then show ?thesis
    by (subst memoised_loads_are_current) (auto simp: demo_loads)
qed

subsection \<open>What an agent is given\<close>

lemma contains_append: "contains p b \<Longrightarrow> contains p (a @ b)"
  unfolding contains_iff by (metis append.assoc)

lemma contains_prepend: "contains p a \<Longrightarrow> contains p (a @ b)"
  unfolding contains_iff by (metis append.assoc)

lemma contains_refl: "contains p p"
  unfolding contains_iff by (metis append_Nil append_Nil2)

lemma contains_join: "x \<in> set xs \<Longrightarrow> contains p x \<Longrightarrow> contains p (py_join sep xs)"
  by (induction sep xs rule: py_join.induct) (auto simp: contains_append contains_prepend)

lemma block_full: "e \<in> set full \<Longrightarrow> contains (full_text e) (format_block full index)"
  unfolding format_block_def
  by (rule contains_join [where x = "py_join [newline, newline] (map full_text full)"])
    (auto intro: contains_join [OF _ contains_refl])

lemma block_index: "e \<in> set index \<Longrightarrow> contains (index_line e) (format_block full index)"
  unfolding format_block_def
  by (rule contains_join [where x = "py_join [newline] (index_header # map index_line index)"])
    (auto intro: contains_join [OF _ contains_refl])

lemma usage_line_ne: "usage_line \<noteq> []" by (simp add: usage_line_def)

lemma full_text_ne: "full_text e \<noteq> []"
proof -
  have "(if prefix ''# '' b then b else ''# '' @ t) \<noteq> []" for b t by (cases b) simp_all
  then show ?thesis unfolding full_text_def Let_def by blast
qed

lemma index_line_ne: "index_line e \<noteq> []" by (simp add: index_line_def)

lemma set_sorted_entries: "set (sorted_entries p S) = {e \<in> set (st_entries S). p e}"
  by (simp add: sorted_entries_def)

text \<open>
  C19. The master's block has every entry addressed to it, in full when its topic is resident and as
  an index line otherwise, and there is no block exactly when no entry is; a worker's block is
  always there and has every entry addressed to it, in full when its topic is the repository.
\<close>

theorem agents_see_their_entries:
  "(assemble_master (Some S) = None \<longleftrightarrow> (\<forall>e \<in> set (st_entries S). \<not> addressed ''master'' e)) \<and>
   (\<forall>e \<in> set (st_entries S). addressed ''master'' e \<longrightarrow>
      contains (if resident S e then full_text e else index_line e) (the (assemble_master (Some S)))) \<and>
   (\<exists>block. assemble_worker (Some S) repo = Some block \<and> contains usage_line block \<and>
      (\<forall>e \<in> set (st_entries S). addressed ''worker'' e \<longrightarrow>
         contains (if en_topic e = Some repo then full_text e else index_line e) block))"
proof -
  let ?mf = "sorted_entries (\<lambda>e. addressed ''master'' e \<and> resident S e) S"
  let ?mi = "sorted_entries (\<lambda>e. addressed ''master'' e \<and> \<not> resident S e) S"
  let ?wf = "sorted_entries (\<lambda>e. addressed ''worker'' e \<and> en_topic e = Some repo) S"
  let ?wi = "sorted_entries (\<lambda>e. addressed ''worker'' e \<and> en_topic e \<noteq> Some repo) S"
  have none: "?mf = [] \<and> ?mi = [] \<longleftrightarrow> (\<forall>e \<in> set (st_entries S). \<not> addressed ''master'' e)"
    by (auto simp: set_sorted_entries set_empty [symmetric] simp del: set_empty)
  have master: "contains (if resident S e then full_text e else index_line e) (the (assemble_master (Some S)))"
    if "e \<in> set (st_entries S)" "addressed ''master'' e" for e
  proof -
    have "\<not> (?mf = [] \<and> ?mi = [])" using none that by blast
    then have "the (assemble_master (Some S)) = format_block ?mf ?mi"
      unfolding assemble_master_def option.case Let_def if_not_P [OF \<open>\<not> (?mf = [] \<and> ?mi = [])\<close>] by simp
    moreover have "e \<in> set (if resident S e then ?mf else ?mi)" using that by (simp add: set_sorted_entries)
    ultimately show ?thesis using block_full block_index by (simp split: if_splits)
  qed
  define chunks where "chunks = filter (\<lambda>c. c \<noteq> []) [format_block ?wf ?wi, usage_line]"
  have w: "assemble_worker (Some S) repo = Some (py_join [newline, newline] chunks)"
    by (simp add: assemble_worker_def Let_def chunks_def)
  have u: "usage_line \<in> set chunks" using usage_line_ne by (simp add: chunks_def)
  have worker: "contains (if en_topic e = Some repo then full_text e else index_line e) (py_join [newline, newline] chunks)"
    if "e \<in> set (st_entries S)" "addressed ''worker'' e" for e
  proof -
    have "e \<in> set (if en_topic e = Some repo then ?wf else ?wi)" using that by (simp add: set_sorted_entries)
    then have c: "contains (if en_topic e = Some repo then full_text e else index_line e) (format_block ?wf ?wi)"
      using block_full block_index by (simp split: if_splits)
    moreover have "(if en_topic e = Some repo then full_text e else index_line e) \<noteq> []"
      using full_text_ne index_line_ne by simp
    ultimately have "format_block ?wf ?wi \<in> set chunks" by (auto simp: chunks_def)
    then show ?thesis using c by (rule contains_join)
  qed
  have "assemble_master (Some S) = None \<longleftrightarrow> (\<forall>e \<in> set (st_entries S). \<not> addressed ''master'' e)"
    using none by (simp add: assemble_master_def Let_def)
  then show ?thesis using master w contains_join [OF u contains_refl] worker by blast
qed

theorem agents_see_their_entries_witness:
  "\<exists>e. e \<in> set (st_entries demo_store) \<and> resident demo_store e \<and>
     contains (full_text e) (the (assemble_master (Some demo_store)))"
proof -
  define e where "e = hd (st_entries demo_store)"
  have e: "e \<in> set (st_entries demo_store)" "addressed ''master'' e" "resident demo_store e"
    by (simp_all add: e_def demo_store_def addressed_def resident_def)
  have "\<forall>e \<in> set (st_entries demo_store). addressed ''master'' e \<longrightarrow>
      contains (if resident demo_store e then full_text e else index_line e) (the (assemble_master (Some demo_store)))"
    using agents_see_their_entries [of demo_store "[]"] by (elim conjE)
  from bspec [OF this e(1)] have "contains (full_text e) (the (assemble_master (Some demo_store)))"
    unfolding if_P [OF e(3)] using e(2) by (rule mp)
  then show ?thesis by (intro exI [of _ e] conjI e)
qed

end
