(* ===== verification/Worker_Prompt.thy ===== *)
theory Worker_Prompt
  imports Memory_Store Worker_Recovery
begin

text \<open>
  \<open>src/core/spawner_prompt.py\<close>: the sections of a prompt template, the substitution of its tokens, and
  the assembled prompt of a worker. An exception is its text, which is all its handler reads.
\<close>

subsection \<open>Sections\<close>

definition marker_prefix :: string where "marker_prefix = ''<!-- section: ''"
definition marker_suffix :: string where "marker_suffix = '' -->''"

definition workflow_prompt_section :: "task_type \<Rightarrow> string option" where
  "workflow_prompt_section ty =
     (case ty of IMPLEMENT \<Rightarrow> Some ''workflow_implement'' | QUICK_EDIT \<Rightarrow> Some ''workflow_quick_edit''
      | SCRIPT_RUN \<Rightarrow> Some ''workflow_script_run'' | VERIFY \<Rightarrow> None)"

definition required_worker_sections :: "string list" where
  "required_worker_sections =
     [''session_info'', ''coding_principles'', ''skills_discovery'', ''remote_scratch'', ''role'', ''intro_new'',
      ''intro_continuation'', ''worktree_workflow_header'', ''workflow_implement'', ''workflow_quick_edit'',
      ''workflow_script_run'', ''task_spec_source_files'', ''task'', ''iteration_reports'', ''worktree_persistence'', ''memory'']"

definition required_verify_sections :: "string list" where
  "required_verify_sections = [''preamble'', ''scope'']"

definition is_marker :: "string \<Rightarrow> bool" where
  "is_marker l = (prefix marker_prefix l \<and> suffix marker_suffix l)"

definition marker_id :: "string \<Rightarrow> string" where
  "marker_id l = drop (length marker_prefix) (take (length l - length marker_suffix) l)"

text \<open>The loop over the lines: the sections closed so far, and the open one with its lines.\<close>

fun split_sections ::
  "string list \<Rightarrow> (string \<rightharpoonup> string) \<Rightarrow> (string \<times> string list) option \<Rightarrow> (string \<rightharpoonup> string)" where
  "split_sections [] secs cur =
     (case cur of None \<Rightarrow> secs | Some (k, ls) \<Rightarrow> secs(k \<mapsto> py_join [newline] ls))"
| "split_sections (l # rest) secs cur =
     (if is_marker l
      then split_sections rest (case cur of None \<Rightarrow> secs | Some (k, ls) \<Rightarrow> secs(k \<mapsto> py_join [newline] ls))
             (Some (marker_id l, []))
      else split_sections rest secs (case cur of None \<Rightarrow> None | Some (k, ls) \<Rightarrow> Some (k, ls @ [l])))"

definition checkout_text :: "string \<Rightarrow> string" where
  "checkout_text extraction =
     '' '' @ em_dash @ '' the repo checkout most likely predates the '' @ extraction @ '' extraction commit''"

definition load_prompt_sections ::
  "string \<Rightarrow> string option \<Rightarrow> string list \<Rightarrow> string \<Rightarrow> string + (string \<rightharpoonup> string)" where
  "load_prompt_sections path content required extraction =
     (case content of
        None \<Rightarrow> Inl (''prompt template not found at '' @ path @ checkout_text extraction)
      | Some text \<Rightarrow>
          let secs = split_sections (split_on newline text) Map.empty None;
              missing = filter (\<lambda>k. secs k = None) required
          in if missing \<noteq> []
             then Inl (path @ '' is missing required section(s): '' @ py_join '', '' missing @ checkout_text extraction)
             else Inr secs)"

subsection \<open>Tokens\<close>

text \<open>\<open>str.replace\<close> of a token that is not empty: leftmost occurrences, not overlapping.\<close>

function replace_all :: "string \<Rightarrow> string \<Rightarrow> string \<Rightarrow> string" where
  "replace_all tok val [] = []"
| "replace_all tok val (c # cs) =
     (if tok \<noteq> [] \<and> prefix tok (c # cs) then val @ replace_all tok val (drop (length tok) (c # cs))
      else c # replace_all tok val cs)"
  by pat_completeness auto
termination
  by (relation "measure (\<lambda>(_, _, s). length s)") auto

definition token :: "string \<Rightarrow> string" where "token name = ''{{'' @ name @ ''}}''"

definition substitute_tokens :: "string \<Rightarrow> (string \<times> string) list \<Rightarrow> string" where
  "substitute_tokens template tokens = foldl (\<lambda>s (name, val). replace_all (token name) val s) template tokens"

definition require_tokens_resolved :: "string \<Rightarrow> string \<Rightarrow> string + unit" where
  "require_tokens_resolved assembled prompt =
     (if contains ''{{'' assembled then Inl (prompt @ '' prompt assembly left an unresolved {{token}} in the output'')
      else Inr ())"

subsection \<open>The worker's prompt\<close>

text \<open>What a prompt is built from; the memory store is loaded, fails to load, or has no directory.\<close>

record prompt_args =
  pa_description :: string
  pa_repo :: string
  pa_repo_name :: string
  pa_base_branch :: string
  pa_branch :: string
  pa_worktree :: string
  pa_session_name :: string
  pa_task_type :: task_type
  pa_loop_dir :: "string option"
  pa_iteration :: "int option"
  pa_continuation :: bool
  pa_keep_worktree :: bool
  pa_start_point :: "string option"

text \<open>\<open>f"{n:04d}"\<close>.\<close>

definition padded4 :: "int \<Rightarrow> string" where
  "padded4 n =
     (let d = digits_of (nat \<bar>n\<bar>); w = (if n < 0 then 3 else 4)
      in (if n < 0 then ''-'' else []) @ replicate (w - length d) (CHR ''0'') @ d)"

definition task_type_repr :: "task_type \<Rightarrow> string" where
  "task_type_repr ty =
     (case ty of
        IMPLEMENT \<Rightarrow> ''<TaskType.IMPLEMENT: '' @ in_quotes ''implement'' @ ''>''
      | QUICK_EDIT \<Rightarrow> ''<TaskType.QUICK_EDIT: '' @ in_quotes ''quick-edit'' @ ''>''
      | SCRIPT_RUN \<Rightarrow> ''<TaskType.SCRIPT_RUN: '' @ in_quotes ''script-run'' @ ''>''
      | VERIFY \<Rightarrow> ''<TaskType.VERIFY: '' @ in_quotes ''verify'' @ ''>'')"

definition branch_origin :: "prompt_args \<Rightarrow> string" where
  "branch_origin A =
     ''`'' @ pa_base_branch A @ ''`'' @
     (if truthy (pa_start_point A) then '' @ `'' @ the (pa_start_point A) @ ''`'' else [])"

definition branch_tokens :: "prompt_args \<Rightarrow> (string \<times> string) list" where
  "branch_tokens A =
     [(''branch_name'', pa_branch A), (''base_branch_origin'', branch_origin A), (''wt_path'', pa_worktree A),
      (''repo_path'', pa_repo A)]"

definition task_section :: "(string \<Rightarrow> string) \<Rightarrow> prompt_args \<Rightarrow> string" where
  "task_section sec A = replace_all (token ''description'') (pa_description A) (sec ''task'')"

definition worktree_section :: "(string \<Rightarrow> string) \<Rightarrow> prompt_args \<Rightarrow> string \<Rightarrow> string" where
  "worktree_section sec A workflow =
     sec ''worktree_workflow_header'' @ [newline] @
     substitute_tokens (sec workflow)
       ((''intro_line'', if pa_continuation A then sec ''intro_continuation'' else sec ''intro_new'') # branch_tokens A) @
     [newline, newline] @ sec ''task_spec_source_files'' @ [newline] @ task_section sec A"

definition iteration_section :: "(string \<Rightarrow> string) \<Rightarrow> prompt_args \<Rightarrow> string" where
  "iteration_section sec A =
     (case pa_iteration A of
        Some n \<Rightarrow>
          if truthy (pa_loop_dir A)
          then [newline, newline] @ substitute_tokens (sec ''iteration_reports'')
                 [(''loop_dir'', the (pa_loop_dir A)), (''iteration_number_padded'', padded4 n), (''iteration_number'', int_str n)]
          else []
      | None \<Rightarrow> [])"

definition memory_section :: "(string \<Rightarrow> string) \<Rightarrow> string option \<Rightarrow> string" where
  "memory_section sec block =
     (if truthy block then [newline] @ replace_all (token ''memory_block'') (the block) (sec ''memory'') else [])"

definition assembled_prompt :: "(string \<Rightarrow> string) \<Rightarrow> prompt_args \<Rightarrow> string \<Rightarrow> string option \<Rightarrow> string" where
  "assembled_prompt sec A workflow block =
     replace_all (token ''session_name'') (pa_session_name A) (sec ''session_info'') @ [newline] @
     sec ''coding_principles'' @ [newline] @ sec ''skills_discovery'' @ [newline] @ sec ''remote_scratch'' @ [newline] @
     sec ''role'' @ memory_section sec block @ [newline] @ worktree_section sec A workflow @ iteration_section sec A @
     (if pa_keep_worktree A then [newline, newline] @ sec ''worktree_persistence'' else [])"

definition build_worker_prompt ::
  "string \<Rightarrow> string option \<Rightarrow> (string + store option) \<Rightarrow> prompt_args \<Rightarrow> string + string" where
  "build_worker_prompt path content memory A =
     py_bind (load_prompt_sections path content required_worker_sections ''worker-prompt'') (\<lambda>secs.
       case workflow_prompt_section (pa_task_type A) of
         None \<Rightarrow> Inl (''unsupported task_type: '' @ task_type_repr (pa_task_type A))
       | Some workflow \<Rightarrow>
           py_bind memory (\<lambda>loaded.
             let result = assembled_prompt (\<lambda>k. the (secs k)) A workflow (assemble_worker loaded (pa_repo_name A))
             in py_bind (require_tokens_resolved result ''worker'') (\<lambda>_. Inr result)))"

text \<open>The contract of a verifier and its task, whose text is not looked at.\<close>

definition strip_newlines :: "string \<Rightarrow> string" where
  "strip_newlines s = strip_by (\<lambda>c. c = newline) s"

definition build_verify_prompt :: "string \<Rightarrow> string option \<Rightarrow> string \<Rightarrow> string \<Rightarrow> string \<Rightarrow> string + string" where
  "build_verify_prompt path content expected canonical description =
     py_bind (load_prompt_sections path content required_verify_sections ''verify-prompt'') (\<lambda>secs.
       let contract = substitute_tokens
             (py_join [newline] (map (\<lambda>k. strip_newlines (the (secs k))) required_verify_sections))
             [(''result_trailer_expected'', expected), (''canonical_template_path'', canonical)]
       in py_bind (require_tokens_resolved contract ''verify'') (\<lambda>_. Inr (contract @ [newline, newline] @ description)))"

subsection \<open>Templates round trip\<close>

definition marker_line :: "string \<Rightarrow> string" where
  "marker_line k = marker_prefix @ k @ marker_suffix"

definition render_sections :: "(string \<times> string list) list \<Rightarrow> string list" where
  "render_sections secs = concat (map (\<lambda>(k, ls). marker_line k # ls) secs)"

lemma marker_line_is_marker [simp]: "is_marker (marker_line k)" "marker_id (marker_line k) = k"
  by (simp_all add: is_marker_def marker_id_def marker_line_def suffix_def)

lemma split_sections_body:
  "list_all (\<lambda>l. \<not> is_marker l) ls \<Longrightarrow>
     split_sections (ls @ rest) secs (Some (k, ls0)) = split_sections rest secs (Some (k, ls0 @ ls))"
  by (induction ls arbitrary: ls0) auto

lemma split_rendered:
  assumes "\<forall>(k, ls) \<in> set ss. list_all (\<lambda>l. \<not> is_marker l) ls"
  shows "split_sections (render_sections ss) secs cur =
    foldl (\<lambda>m (k, ls). m(k \<mapsto> py_join [newline] ls))
      (case cur of None \<Rightarrow> secs | Some (k, ls) \<Rightarrow> secs(k \<mapsto> py_join [newline] ls)) ss"
  using assms
proof (induction ss arbitrary: secs cur)
  case (Cons s ss)
  obtain k ls where s: "s = (k, ls)" by fastforce
  have "split_sections (render_sections (s # ss)) secs cur =
      split_sections (ls @ render_sections ss) (case cur of None \<Rightarrow> secs | Some (k, ls) \<Rightarrow> secs(k \<mapsto> py_join [newline] ls))
        (Some (k, []))"
    using s by (simp add: render_sections_def)
  also have "\<dots> = split_sections (render_sections ss)
      (case cur of None \<Rightarrow> secs | Some (k, ls) \<Rightarrow> secs(k \<mapsto> py_join [newline] ls)) (Some (k, ls))"
    using Cons.prems s by (simp add: split_sections_body)
  finally show ?case using Cons s by simp
qed (simp add: render_sections_def)

lemma foldl_upd_other:
  "k \<notin> fst ` set ss \<Longrightarrow> foldl (\<lambda>m (k, ls). m(k \<mapsto> f ls)) m ss k = m k"
  by (induction ss arbitrary: m) auto

lemma foldl_upd_in:
  "distinct (map fst ss) \<Longrightarrow> (k, ls) \<in> set ss \<Longrightarrow> foldl (\<lambda>m (k, ls). m(k \<mapsto> f ls)) m ss k = Some (f ls)"
proof (induction ss arbitrary: m)
  case (Cons s ss)
  show ?case
  proof (cases "s = (k, ls)")
    case True
    then have "k \<notin> fst ` set ss" using Cons.prems(1) by simp
    then show ?thesis
      using True foldl_upd_other [of k ss f "m(k \<mapsto> f ls)"] by (simp del: fun_upd_apply) simp
  next
    case False
    then show ?thesis using Cons by simp
  qed
qed simp

text \<open>
  A template is read back as it was written: whatever lines precede the first marker, each
  section is found with exactly its lines, and no other section is.
\<close>

theorem sections_round_trip:
  assumes "distinct (map fst ss)" "\<forall>(k, ls) \<in> set ss. list_all (\<lambda>l. \<not> is_marker l) ls"
    and "list_all (\<lambda>l. \<not> is_marker l) preamble"
  shows "split_sections (preamble @ render_sections ss) Map.empty None =
         map_of (map (\<lambda>(k, ls). (k, py_join [newline] ls)) ss)"
proof
  fix k
  have "split_sections (preamble @ rest) secs None = split_sections rest secs None" for rest secs
    using assms(3) by (induction preamble) auto
  then have e: "split_sections (preamble @ render_sections ss) Map.empty None =
      foldl (\<lambda>m (k, ls). m(k \<mapsto> py_join [newline] ls)) Map.empty ss"
    using split_rendered [OF assms(2)] by simp
  show "split_sections (preamble @ render_sections ss) Map.empty None k =
      map_of (map (\<lambda>(k, ls). (k, py_join [newline] ls)) ss) k"
  proof (cases "k \<in> fst ` set ss")
    case True
    then obtain ls where ls: "(k, ls) \<in> set ss" by auto
    have "map_of (map (\<lambda>(k, ls). (k, py_join [newline] ls)) ss) k = Some (py_join [newline] ls)"
      using ls assms(1) by (intro map_of_is_SomeI) (auto simp: comp_def split_beta intro!: rev_image_eqI [of "(k, ls)"])
    then show ?thesis unfolding e using foldl_upd_in [OF assms(1) ls] by simp
  next
    case False
    then have "map_of (map (\<lambda>(k, ls). (k, py_join [newline] ls)) ss) k = None"
      unfolding map_of_eq_None_iff by (force simp: image_iff)
    then show ?thesis unfolding e using foldl_upd_other [OF False] by simp
  qed
qed

theorem sections_round_trip_witness:
  "split_sections ([''note''] @ render_sections [(''a'', [''x'', ''y'']), (''b'', [])]) Map.empty None ''a'' =
     Some ([CHR ''x'', newline, CHR ''y''])"
proof -
  have n: "\<not> is_marker ''note''" "\<not> is_marker ''x''" "\<not> is_marker ''y''"
    by (simp_all add: is_marker_def marker_prefix_def)
  show ?thesis
    by (subst sections_round_trip) (simp_all add: n)
qed

subsection \<open>Braces\<close>

lemma contains_Cons: "contains p s \<Longrightarrow> contains p (c # s)"
  using contains_append [of p s "[c]"] by simp

lemma replace_puts:
  "tok \<noteq> [] \<Longrightarrow> contains tok s \<Longrightarrow> contains val (replace_all tok val s)"
proof (induction tok val s rule: replace_all.induct)
  case (1 tok val)
  then show ?case by simp
next
  case (2 tok val c cs)
  show ?case
  proof (cases "prefix tok (c # cs)")
    case True
    then show ?thesis using 2(3) contains_prepend [OF contains_refl] by (simp del: contains.simps)
  next
    case False
    then have "contains tok cs" using 2(4) by simp
    then show ?thesis using 2(2,3) False contains_Cons by (simp del: contains.simps)
  qed
qed

lemma contains_trans: "contains p q \<Longrightarrow> contains q s \<Longrightarrow> contains p s"
  unfolding contains_iff by (metis append.assoc)

lemma prompt_has_task: "contains (task_section sec A) (assembled_prompt sec A workflow block)"
proof -
  have "contains (task_section sec A) (worktree_section sec A workflow)"
    unfolding worktree_section_def by (intro contains_append contains_refl)
  then show ?thesis
    unfolding assembled_prompt_def by (intro contains_append contains_prepend)
qed

text \<open>A template that asks for the task's description.\<close>

definition asks_for_task :: "string \<Rightarrow> string option \<Rightarrow> bool" where
  "asks_for_task path content =
     (case load_prompt_sections path content required_worker_sections ''worker-prompt'' of
        Inl _ \<Rightarrow> True
      | Inr secs \<Rightarrow> contains (token ''description'') (the (secs ''task'')))"

lemma built_prompt:
  assumes "build_worker_prompt path content memory A = Inr prompt"
  shows "\<not> contains ''{{'' prompt \<and> (asks_for_task path content \<longrightarrow> contains (pa_description A) prompt)"
proof -
  obtain secs workflow loaded where l: "load_prompt_sections path content required_worker_sections ''worker-prompt'' = Inr secs"
    "prompt = assembled_prompt (\<lambda>k. the (secs k)) A workflow (assemble_worker loaded (pa_repo_name A))"
    "require_tokens_resolved prompt ''worker'' = Inr ()"
    using assms by (auto simp: build_worker_prompt_def py_bind_Inr_iff Let_def split: option.splits)
  have "contains (pa_description A) (task_section (\<lambda>k. the (secs k)) A)" if "asks_for_task path content"
    unfolding task_section_def using that l(1) by (intro replace_puts) (auto simp: token_def asks_for_task_def)
  then have "contains (pa_description A) prompt" if "asks_for_task path content"
    using that contains_trans [OF _ prompt_has_task] unfolding l(2) by blast
  then show ?thesis using l(3) by (simp add: require_tokens_resolved_def del: contains.simps split: if_splits)
qed

text \<open>What is checked is the prompt with the task in it: a task with open braces has no prompt.\<close>

lemma braces_in_a_task_are_refused:
  assumes "asks_for_task path content" "contains ''{{'' (pa_description A)"
  shows "\<exists>msg. build_worker_prompt path content memory A = Inl msg"
  using assms built_prompt contains_trans by (cases "build_worker_prompt path content memory A") blast+

definition demo_template :: string where
  "demo_template =
     py_join [newline] (render_sections (map (\<lambda>k. (k, [if k = ''task'' then ''{{description}}'' else ''x''])) required_worker_sections))"

definition demo_args :: "string \<Rightarrow> prompt_args" where
  "demo_args description =
     \<lparr>pa_description = description, pa_repo = ''/r'', pa_repo_name = ''r'', pa_base_branch = ''main'', pa_branch = ''b'',
      pa_worktree = ''/w'', pa_session_name = ''s'', pa_task_type = IMPLEMENT, pa_loop_dir = None, pa_iteration = None,
      pa_continuation = False, pa_keep_worktree = False, pa_start_point = None\<rparr>"

lemma demo_template_asks: "asks_for_task ''p'' (Some demo_template)"
  by code_simp

lemma demo_braces:
  "(\<exists>msg. build_worker_prompt ''p'' (Some demo_template) (Inr None) (demo_args ''fix {{ in the template'') = Inl msg) \<and>
   (\<exists>prompt. build_worker_prompt ''p'' (Some demo_template) (Inr None) (demo_args ''fix it'') = Inr prompt)"
proof
  have "contains ''{{'' (pa_description (demo_args ''fix {{ in the template''))" by code_simp
  then show "\<exists>msg. build_worker_prompt ''p'' (Some demo_template) (Inr None) (demo_args ''fix {{ in the template'') = Inl msg"
    by (rule braces_in_a_task_are_refused [OF demo_template_asks])
  have "isl (build_worker_prompt ''p'' (Some demo_template) (Inr None) (demo_args ''fix it'')) = False" by code_simp
  then show "\<exists>prompt. build_worker_prompt ''p'' (Some demo_template) (Inr None) (demo_args ''fix it'') = Inr prompt"
    by (cases "build_worker_prompt ''p'' (Some demo_template) (Inr None) (demo_args ''fix it'')") auto
qed

end
