(* ===== verification/Worker_Lifecycle.thy ===== *)
theory Worker_Lifecycle
  imports Worker_Run Worker_Prompt Finalize_Laws
begin

text \<open>
  \<open>src/core/spawner_launch.py\<close> and \<open>src/core/spawner_lifecycle.py\<close>: how a worker is constructed
  (its worktree, prompt, backend and account), how its run is driven to the finalize chain, and
  how a restarted server takes an interrupted run up again. Git, the file system and the host are
  \<open>launch_env\<close>. The server's shutdown, which cancels the coroutine at an \<open>await\<close> of the launch, is an argument.
  The run's events log is the one \<open>e_log\<close> of the environment answers.
\<close>

subsection \<open>What a launch is given\<close>

record spawn_request = respawn_request +
  rq_prompt :: "string option"
  rq_loop_dir :: "string option"
  rq_iteration :: "int option"
  rq_skip_cleanup :: bool
  rq_skip_notify :: bool
  rq_continuation :: bool

text \<open>
  \<open>le_run n\<close> is the host of the \<open>n\<close>-th worker of a launch; \<open>le_default_branch\<close> and
  \<open>le_create_worktree\<close> the two git commands, an error's text or their answer;
  \<open>le_claude_session\<close> the conversation id of a thread's metadata.
\<close>

record launch_env =
  le_env :: env
  le_run :: "nat \<Rightarrow> run_env"
  le_resolve :: "string \<Rightarrow> string"
  le_path_name :: "string \<Rightarrow> string"
  le_session_name :: "session \<Rightarrow> string"
  le_claude_session :: "thread \<Rightarrow> string option"
  le_thread_dir :: "string \<Rightarrow> string \<Rightarrow> string"
  le_worktree_dir :: string
  le_worker_template :: "string \<times> string option"
  le_verify_template :: "string \<times> string option"
  le_plan_template :: string
  le_memory :: "string + store option"
  le_default_branch :: "string \<Rightarrow> string + (string \<times> string option)"
  le_create_worktree :: "string \<Rightarrow> string \<Rightarrow> string \<Rightarrow> string \<Rightarrow> string option \<Rightarrow> string + (string \<times> string)"
  le_completed :: "int option"

text \<open>
  The objects a launch mutates: the thread and its conversation, the worker of the enclosing
  binding with its directory, the accounts and transcripts; \<open>lv_runs\<close> the backends of the workers
  constructed so far.
\<close>

record live =
  lv_thread :: thread
  lv_session :: "string option"
  lv_worker :: "worker option"
  lv_dir :: string
  lv_pool :: pool_state
  lv_transcripts :: transcripts
  lv_runs :: "string list"

definition with_thread :: "(thread \<Rightarrow> thread) \<Rightarrow> live \<Rightarrow> live" where
  "with_thread f L = L\<lparr>lv_thread := f (lv_thread L)\<rparr>"

text \<open>Where the shutdown strikes: before or after the thread is saved, or once the worker runs.\<close>

datatype cancel_point = Before_Save | After_Save | In_Run

datatype creation = Created | CreateRaised string | CreatePool string | CreateCancelled

definition error_text :: "env \<Rightarrow> py_error \<Rightarrow> string" where
  "error_text E e = (case e of ValueError msg \<Rightarrow> msg | _ \<Rightarrow> e_text E e)"

subsection \<open>Construction\<close>

text \<open>A worker reads the clock where the one before it left off.\<close>

definition bind_worker ::
  "backend_option \<Rightarrow> claude_account option \<Rightarrow> string \<Rightarrow> string \<Rightarrow> live \<Rightarrow> live" where
  "bind_worker opt account dir prompt L =
     L\<lparr>lv_worker := Some (new_worker (Some opt) (lv_session L) prompt account (lv_pool L) (lv_transcripts L)
                           (case lv_worker L of None \<Rightarrow> 0 | Some W \<Rightarrow> wk_clock W)),
       lv_dir := dir, lv_runs := lv_runs L @ [bo_id opt]\<rparr>"

definition on_backend :: "task_type \<Rightarrow> backend_option \<Rightarrow> thread \<Rightarrow> thread" where
  "on_backend ty opt t =
     t\<lparr>th_backend := Some (bo_id opt), th_model := bo_model opt,
       th_tried := (if ty = VERIFY \<and> bo_id opt \<notin> set (th_tried t) then th_tried t @ [bo_id opt] else th_tried t)\<rparr>"

definition construct_worker ::
  "launch_env \<Rightarrow> string \<Rightarrow> spawn_request \<Rightarrow> cancel_point option \<Rightarrow> string \<Rightarrow> string \<Rightarrow> live \<Rightarrow> (creation \<times> live) act" where
  "construct_worker LE sid rq cp dir prompt L =
     (case resolve_backend_option (e_cfg (le_env LE)) (rq_backend rq) (rq_model rq) of
        Inl e \<Rightarrow> ret (CreateRaised (error_text (le_env LE) e), L)
      | Inr opt \<Rightarrow>
          bind tick (\<lambda>n.
            let L1 = (with_thread (on_backend (rq_task_type rq) opt) L)
                  \<lparr>lv_session := (if bo_type opt = CC_CLAUDE \<and> lv_session L = None then Some (e_id (le_env LE) n)
                                 else lv_session L)\<rparr>
            in if cp = Some Before_Save then ret (CreateCancelled, L1)
               else seq (save_thread sid (lv_thread L1))
                 (bind tick (\<lambda>k.
                    case pin_pool_account (re_pool (le_run LE (length (lv_runs L)))) (lv_pool L1) opt (e_now (le_env LE) k) of
                      Inl msg \<Rightarrow> ret (CreatePool msg, L1)
                    | Inr account \<Rightarrow>
                        if cp = Some After_Save then ret (CreateCancelled, L1)
                        else ret (Created, bind_worker opt account dir prompt L1)))))"

text \<open>A task of a repository: the directory it works in, with what is told of it in the prompt.\<close>

record place =
  pl_dir :: string
  pl_base :: string
  pl_continuation :: bool
  pl_start :: "string option"

definition base_of_request :: "launch_env \<Rightarrow> spawn_request \<Rightarrow> string \<Rightarrow> string + (string \<times> string option)" where
  "base_of_request LE rq repo =
     (if truthy (rq_base_branch rq) then Inr (the (rq_base_branch rq), None)
      else case le_default_branch LE repo of
             Inl msg \<Rightarrow> Inl msg
           | Inr (branch, tip) \<Rightarrow> Inr (''origin/'' @ branch, tip))"

definition branch_of_request :: "launch_env \<Rightarrow> spawn_request \<Rightarrow> thread \<Rightarrow> nat \<Rightarrow> string" where
  "branch_of_request LE rq t n =
     (if truthy (rq_branch_override rq) then the (rq_branch_override rq)
      else ''charliebot/task-'' @ int_str (e_now (le_env LE) n div 1000000) @ ''-'' @ str_take 8 (th_id t))"

definition place_worker ::
  "launch_env \<Rightarrow> spawn_request \<Rightarrow> string \<Rightarrow> string \<Rightarrow> string option \<Rightarrow> string \<Rightarrow> (string + place) act" where
  "place_worker LE rq repo base tip branch =
     (if truthy (rq_worktree_override rq)
      then ret (Inr \<lparr>pl_dir = the (rq_worktree_override rq), pl_base = base, pl_continuation = rq_continuation rq,
                     pl_start = None\<rparr>)
      else let dir = le_worktree_dir LE @ ''/'' @ worktree_dir_name branch
           in case le_create_worktree LE repo base branch dir tip of
                Inl msg \<Rightarrow> ret (Inl msg)
              | Inr (canonical, start) \<Rightarrow>
                  seq (durable (\<lambda>w. w\<lparr>w_worktrees := insert dir (w_worktrees w)\<rparr>))
                      (ret (Inr \<lparr>pl_dir = dir, pl_base = canonical, pl_continuation = False, pl_start = Some start\<rparr>)))"

definition placed :: "spawn_request \<Rightarrow> string \<Rightarrow> string \<Rightarrow> place \<Rightarrow> thread \<Rightarrow> thread" where
  "placed rq repo branch p t =
     t\<lparr>th_skip_cleanup := (if truthy (rq_worktree_override rq) then rq_skip_cleanup rq else th_skip_cleanup t),
       th_branch := Some branch, th_repo := Some repo, th_worktree := Some (pl_dir p), th_base_branch := Some (pl_base p),
       th_keep_worktree := rq_keep_worktree rq, th_context := rq_context rq\<rparr>"

definition prompt_of_place ::
  "launch_env \<Rightarrow> spawn_request \<Rightarrow> string \<Rightarrow> string \<Rightarrow> string \<Rightarrow> place \<Rightarrow> session \<Rightarrow> string + string" where
  "prompt_of_place LE rq description repo branch p m =
     build_worker_prompt (fst (le_worker_template LE)) (snd (le_worker_template LE)) (le_memory LE)
       \<lparr>pa_description = description, pa_repo = repo, pa_repo_name = le_path_name LE repo, pa_base_branch = pl_base p,
        pa_branch = branch, pa_worktree = pl_dir p, pa_session_name = le_session_name LE m,
        pa_task_type = rq_task_type rq, pa_loop_dir = rq_loop_dir rq, pa_iteration = rq_iteration rq,
        pa_continuation = pl_continuation p, pa_keep_worktree = rq_keep_worktree rq, pa_start_point = pl_start p\<rparr>"

text \<open>The end both branches share: the checkout itself is refused as a working directory.\<close>

definition construct_outside ::
  "launch_env \<Rightarrow> string \<Rightarrow> spawn_request \<Rightarrow> cancel_point option \<Rightarrow> string \<Rightarrow> string \<Rightarrow> string \<Rightarrow> live \<Rightarrow> (creation \<times> live) act" where
  "construct_outside LE sid rq cp repo dir prompt L =
     (if dir = repo
      then ret (CreateRaised ''refusing to run subagent in repo root; worktree isolation required'', L)
      else construct_worker LE sid rq cp dir prompt L)"

definition create_worktree_and_process ::
  "launch_env \<Rightarrow> string \<Rightarrow> string \<Rightarrow> string \<Rightarrow> spawn_request \<Rightarrow> cancel_point option \<Rightarrow> live \<Rightarrow> (creation \<times> live) act" where
  "create_worktree_and_process LE sid description repo rq cp L =
     (if truthy (rq_prompt rq)
      then if \<not> truthy (th_worktree (lv_thread L))
           then ret (CreateRaised ''thread metadata missing worktree_path'', L)
           else construct_outside LE sid rq cp repo (le_resolve LE (the (th_worktree (lv_thread L)))) (the (rq_prompt rq)) L
      else case base_of_request LE rq repo of
        Inl msg \<Rightarrow> ret (CreateRaised msg, L)
      | Inr (base, tip) \<Rightarrow>
          bind tick (\<lambda>n.
            let branch = branch_of_request LE rq (lv_thread L) n
            in bind (place_worker LE rq repo base tip branch) (\<lambda>r.
                 case r of
                   Inl msg \<Rightarrow> ret (CreateRaised msg, L)
                 | Inr p \<Rightarrow>
                     let L1 = with_thread (placed rq repo branch p) L
                     in bind (get_session sid) (\<lambda>found.
                          case require_session found sid of
                            Inl e \<Rightarrow> ret (CreateRaised (error_text (le_env LE) e), L1)
                          | Inr m \<Rightarrow>
                              (case prompt_of_place LE rq description repo branch p m of
                                 Inl msg \<Rightarrow> ret (CreateRaised msg, L1)
                               | Inr prompt \<Rightarrow>
                                   construct_outside LE sid rq cp repo (le_resolve LE (pl_dir p)) prompt L1)))))"

definition repoless_prompt :: "launch_env \<Rightarrow> string \<Rightarrow> spawn_request \<Rightarrow> string + string" where
  "repoless_prompt LE description rq =
     (if rq_task_type rq = VERIFY
      then build_verify_prompt (fst (le_verify_template LE)) (snd (le_verify_template LE)) trailer_expected
             (le_plan_template LE) description
      else Inr (if truthy (rq_prompt rq) then the (rq_prompt rq) else description))"

definition repoless :: "spawn_request \<Rightarrow> string \<Rightarrow> thread \<Rightarrow> thread" where
  "repoless rq dir t =
     t\<lparr>th_branch := None, th_repo := None, th_worktree := Some dir, th_require_review := False, th_context := rq_context rq\<rparr>"

definition create_repoless_process ::
  "launch_env \<Rightarrow> string \<Rightarrow> string \<Rightarrow> spawn_request \<Rightarrow> cancel_point option \<Rightarrow> live \<Rightarrow> (creation \<times> live) act" where
  "create_repoless_process LE sid description rq cp L =
     (case repoless_prompt LE description rq of
        Inl msg \<Rightarrow> ret (CreateRaised msg, L)
      | Inr prompt \<Rightarrow>
          let dir = le_thread_dir LE sid (th_id (lv_thread L))
          in construct_worker LE sid rq cp dir prompt (with_thread (repoless rq dir) L))"

definition create_run_worker ::
  "launch_env \<Rightarrow> string \<Rightarrow> string \<Rightarrow> spawn_request \<Rightarrow> cancel_point option \<Rightarrow> live \<Rightarrow> (creation \<times> live) act" where
  "create_run_worker LE sid description rq cp L =
     (case rq_repo rq of
        None \<Rightarrow> create_repoless_process LE sid description rq cp L
      | Some repo \<Rightarrow> create_worktree_and_process LE sid description (le_resolve LE repo) rq cp L)"

subsection \<open>A launch\<close>

text \<open>How one worker of a launch ends: with an outcome, an exception, or the shutdown.\<close>

datatype attempt = Ended worker_outcome | Broke string | Interrupted

definition ran :: "run_env \<Rightarrow> live \<Rightarrow> worker_end \<times> live" where
  "ran RE L =
     (case lv_worker L of
        None \<Rightarrow> (WorkerRaised [], L)
      | Some W0 \<Rightarrow>
          let (r, W) = worker_run RE W0
          in (end_of_run r, L\<lparr>lv_worker := Some W, lv_pool := wk_pool W, lv_transcripts := wk_transcripts W\<rparr>))"

definition running :: "thread \<Rightarrow> thread" where "running t = t\<lparr>th_status := T_RUNNING\<rparr>"

definition spawn_and_stream ::
  "launch_env \<Rightarrow> string \<Rightarrow> nat \<Rightarrow> cancel_point option \<Rightarrow> (live \<Rightarrow> (creation \<times> live) act) \<Rightarrow> live \<Rightarrow> (attempt \<times> live) act" where
  "spawn_and_stream LE sid k cp create L =
     bind (create L) (\<lambda>(c, L1).
       case c of
         CreateCancelled \<Rightarrow> ret (Interrupted, L1)
       | CreateRaised msg \<Rightarrow> ret (Broke msg, L1)
       | CreatePool msg \<Rightarrow> ret (Ended (outcome_of (PoolExhausted msg)), L1)
       | Created \<Rightarrow>
           let (ending, L2) = ran (le_run LE k) (with_thread running L1)
           in try_except
                (bind (stream_worker_events (le_env LE) sid (lv_thread L1) ending) (\<lambda>ro.
                   ret (if cp = Some In_Run then Interrupted else Ended ro, L2)))
                (\<lambda>msg. ret (Broke msg, with_thread running L1)))"

text \<open>A verifier whose backend is out of quota is run once more, on a backend other than its own.\<close>

definition verify_retry ::
  "launch_env \<Rightarrow> string \<Rightarrow> string \<Rightarrow> spawn_request \<Rightarrow> cancel_point option \<Rightarrow> worker_outcome \<Rightarrow> live \<Rightarrow> (attempt \<times> live) act" where
  "verify_retry LE sid description rq cp ro L =
     (let E = le_env LE; t = lv_thread L in
      case require_thread_backend_model t (e_cfg E) of
        Inl e \<Rightarrow> ret (Broke (error_text E e), L)
      | Inr (current, _) \<Rightarrow>
          bind (get_session sid) (\<lambda>found.
            case select_verify_backend sid (e_cfg E) (map_option sm_backend found) (th_tried t) of
              Inl e \<Rightarrow> ret (Broke (error_text E e), L)
            | Inr None \<Rightarrow> ret (Ended ro, L)
            | Inr (Some (b, m, tried)) \<Rightarrow>
                if b = current then ret (Ended ro, L)
                else spawn_and_stream LE sid 1 cp
                       (create_repoless_process LE sid description (rq\<lparr>rq_backend := b, rq_model := m\<rparr>) cp)
                       (with_thread (\<lambda>t. t\<lparr>th_tried := tried\<rparr>) L)))"

definition settle_exit :: "launch_env \<Rightarrow> string \<Rightarrow> attempt \<times> live \<Rightarrow> (attempt \<times> live) act" where
  "settle_exit LE sid r =
     (case r of
        (Ended ro, L) \<Rightarrow>
          if run_failed ro \<and> ro_error ro = []
          then try_except
                 (bind (override_exit_code (le_env LE) (ro_exit ro) sid (th_id (lv_thread L))) (\<lambda>code.
                    ret (Ended (ro\<lparr>ro_exit := code\<rparr>), L)))
                 (\<lambda>msg. ret (Broke msg, L))
          else ret r
      | _ \<Rightarrow> ret r)"

definition spawn_body ::
  "launch_env \<Rightarrow> string \<Rightarrow> string \<Rightarrow> spawn_request \<Rightarrow> (nat \<Rightarrow> cancel_point option) \<Rightarrow> live \<Rightarrow> (attempt \<times> live) act" where
  "spawn_body LE sid description rq cps L =
     bind (spawn_and_stream LE sid 0 (cps 0) (create_run_worker LE sid description rq (cps 0)) L) (\<lambda>(a, L1).
     bind (case a of
             Ended ro \<Rightarrow> if rq_task_type rq = VERIFY \<and> ro_quota ro
                         then verify_retry LE sid description rq (cps 1) ro L1 else ret (a, L1)
           | _ \<Rightarrow> ret (a, L1)) (settle_exit LE sid))"

datatype cancel_action = LetGo | Terminated | NothingToStop

definition cancel_action_of :: "config \<Rightarrow> string \<Rightarrow> live \<Rightarrow> cancel_action" where
  "cancel_action_of cfg description L =
     (if lv_worker L = None then NothingToStop
      else if (case run_backend_type cfg (th_backend (lv_thread L)) of
                 None \<Rightarrow> True | Some ty \<Rightarrow> ty \<notin> set uncovered_backend_types) \<and>
              \<not> prefix improve_iteration_prefix description
      then LetGo else Terminated)"

datatype spawn_end = ThreadMissing | Cancelled cancel_action | Finalized worker_outcome

definition new_live :: "launch_env \<Rightarrow> pool_state \<Rightarrow> transcripts \<Rightarrow> thread \<Rightarrow> live" where
  "new_live LE S T t =
     \<lparr>lv_thread = t, lv_session = le_claude_session LE t, lv_worker = None, lv_dir = [], lv_pool = S,
      lv_transcripts = T, lv_runs = []\<rparr>"

text \<open>What the handlers make of a body's end.\<close>

fun outcome_of_attempt :: "attempt \<Rightarrow> worker_outcome option" where
  "outcome_of_attempt (Ended ro) = Some ro"
| "outcome_of_attempt (Broke msg) = Some \<lparr>ro_exit = -1, ro_quota = False, ro_error = msg\<rparr>"
| "outcome_of_attempt Interrupted = None"

text \<open>
  The \<open>finally\<close> block. A cancellation that strikes while the finalization is awaited is no
  \<open>Exception\<close>: no handler of the finalize chain catches it, and it ends the chain between two
  writes as the server's end does. Here that is the end at a durable write, the answer \<open>Killed\<close>.
\<close>

definition spawn_finally ::
  "launch_env \<Rightarrow> string \<Rightarrow> string \<Rightarrow> spawn_request \<Rightarrow> attempt \<times> live \<Rightarrow> spawn_end act" where
  "spawn_finally LE sid description rq r =
     (case outcome_of_attempt (fst r) of
        None \<Rightarrow> ret (Cancelled (cancel_action_of (e_cfg (le_env LE)) description (snd r)))
      | Some ro \<Rightarrow>
          seq (finalize_worker_safely (le_env LE) sid description (lv_thread (snd r)) ro (rq_skip_notify rq)
                 (rq_task_type rq = VERIFY) (le_completed LE))
              (ret (Finalized ro)))"

definition run_spawn ::
  "launch_env \<Rightarrow> pool_state \<Rightarrow> transcripts \<Rightarrow> string \<Rightarrow> string \<Rightarrow> string \<Rightarrow> spawn_request \<Rightarrow>
     (nat \<Rightarrow> cancel_point option) \<Rightarrow> spawn_end act" where
  "run_spawn LE S T sid description tid rq cps =
     bind (get_thread sid tid) (\<lambda>found.
       case found of
         None \<Rightarrow> ret ThreadMissing
       | Some t \<Rightarrow>
           bind (spawn_body LE sid description rq cps (new_live LE S T t)) (spawn_finally LE sid description rq))"

subsection \<open>A run taken up again\<close>

text \<open>
  \<open>rs_alive\<close> is the liveness probe when the drain ends, \<open>rs_alive_quota\<close> when it stops on a quota;
  \<open>rs_cancelled\<close> whether the shutdown cancels the drain; \<open>rs_translate\<close> the backend's reader.
\<close>

record 's resume_case =
  rs_parser :: parser
  rs_translate :: "backend_option option \<Rightarrow> 's translator"
  rs_fresh :: 's
  rs_follow :: follow
  rs_alive_quota :: bool
  rs_alive :: bool
  rs_cancelled :: bool
  rs_reason :: string
  rs_task_type :: "task_type option"

definition resume_option :: "config \<Rightarrow> thread \<Rightarrow> backend_option option py" where
  "resume_option cfg t =
     (if truthy (th_backend t)
      then case resolve_backend_option cfg (the (th_backend t)) (th_model t) of
             Inr opt \<Rightarrow> Inr (Some opt)
           | Inl (ValueError _) \<Rightarrow> Inr None
           | Inl e \<Rightarrow> Inl e
      else Inr None)"

definition drained :: "launch_env \<Rightarrow> 's resume_case \<Rightarrow> string \<Rightarrow> live \<Rightarrow> py_error + (run_error + int \<times> bool)" where
  "drained LE RC description L =
     py_bind (resume_option (e_cfg (le_env LE)) (lv_thread L)) (\<lambda>opt.
       Inr (fst (worker_resume (le_run LE 0) (rs_parser RC) (rs_translate RC opt) (rs_fresh RC) (rs_follow RC)
              (new_worker opt (lv_session L) description None (lv_pool L) (lv_transcripts L) 0))))"

text \<open>The outcome, and whether the process group is signalled.\<close>

definition resume_outcome :: "launch_env \<Rightarrow> 's resume_case \<Rightarrow> string \<Rightarrow> live \<Rightarrow> worker_outcome \<times> bool" where
  "resume_outcome LE RC description L =
     (let (ro, killed) =
        (if rs_cancelled RC then (\<lparr>ro_exit = -1, ro_quota = False, ro_error = []\<rparr>, False)
         else case drained LE RC description L of
           Inl e \<Rightarrow> (\<lparr>ro_exit = -1, ro_quota = False, ro_error = error_text (le_env LE) e\<rparr>, False)
         | Inr (Inr (code, killed)) \<Rightarrow> (\<lparr>ro_exit = code, ro_quota = False, ro_error = []\<rparr>, killed)
         | Inr (Inl RunQuota) \<Rightarrow>
             (\<lparr>ro_exit = -1, ro_quota = True, ro_error = []\<rparr>, rs_alive_quota RC \<and> fw_pid (rs_follow RC) \<noteq> None)
         | Inr (Inl (RunPool msg)) \<Rightarrow> (\<lparr>ro_exit = -1, ro_quota = False, ro_error = msg\<rparr>, False)
         | Inr (Inl (RunRaised msg)) \<Rightarrow> (\<lparr>ro_exit = -1, ro_quota = False, ro_error = msg\<rparr>, False))
      in (if run_failed ro \<and> ro_error ro = [] \<and> rs_reason RC \<noteq> [] then ro\<lparr>ro_error := rs_reason RC\<rparr> else ro, killed))"

definition resume_alive_text :: "string \<Rightarrow> string" where
  "resume_alive_text tid =
     ''Worker thread '' @ str_take 8 tid @
     '' hit a resume error but its process cannot be proven dead (resume-exception-alive). It is NOT being killed '' @
     em_dash @ '' left running and judged again on the next restart.''"

datatype resume_end = ResumeMissing | LeftRunning bool | Resumed worker_outcome bool

definition resume_worker ::
  "launch_env \<Rightarrow> pool_state \<Rightarrow> transcripts \<Rightarrow> 's resume_case \<Rightarrow> string \<Rightarrow> string \<Rightarrow> string \<Rightarrow> resume_end act" where
  "resume_worker LE S T RC sid description tid =
     bind (get_thread sid tid) (\<lambda>found.
       case found of
         None \<Rightarrow> ret ResumeMissing
       | Some t \<Rightarrow>
           let (ro, killed) = resume_outcome LE RC description (new_live LE S T t)
           in if run_failed ro \<and> rs_alive RC
              then seq (report_recovery_event (le_env LE) sid (resume_alive_text tid)) (ret (LeftRunning killed))
              else seq (finalize_worker_safely (le_env LE) sid description t ro False (rs_task_type RC = Some VERIFY)
                          (le_completed LE))
                       (ret (Resumed ro killed)))"

end
