(* ===== verification/Lifecycle_Laws.thy ===== *)
theory Lifecycle_Laws
  imports Worker_Lifecycle
begin

text \<open>
  What a launch and a resumed run leave behind (\<open>src/core/spawner_launch.py\<close>,
  \<open>src/core/spawner_lifecycle.py\<close>): the relations a cancelled launch and a recovery report stay in,
  with the locale both are an instance of, and the properties of launch, retry and resume.
\<close>

subsection \<open>Acts that finish no work\<close>

definition same_work :: "world \<Rightarrow> world \<Rightarrow> bool" where
  "same_work w w' \<longleftrightarrow> w_threads w' = w_threads w \<and> w_spawned w' = w_spawned w \<and> w_wakes w' = w_wakes w"

definition unfinished :: "world \<Rightarrow> world \<Rightarrow> bool" where
  "unfinished w w' \<longleftrightarrow> w_spawned w' = w_spawned w \<and> w_wakes w' = w_wakes w \<and>
     (\<forall>s u x. thread_of w' s u = Some x \<and> terminal_status (th_status x) \<longrightarrow> thread_of w s u = Some x)"

locale bystander =
  fixes R :: "world \<Rightarrow> world \<Rightarrow> bool"
  assumes trans_by: "R u v \<Longrightarrow> R v w \<Longrightarrow> R u w"
    and same_by: "same_work w w' \<Longrightarrow> R w w'"

sublocale bystander \<subseteq> act_relation R
  by unfold_locales (auto intro: trans_by same_by simp: same_work_def restart_def)

context bystander begin

lemma by_settle: "(\<And>w. same_work w (settle (m w))) \<Longrightarrow> moves R m"
  by (simp add: moves_def same_by)

lemma by_load: "moves R (store_load E s)"
  by (auto simp: moves_def store_load_def Let_def same_work_def intro: same_by split: prod.split)

lemma by_save: "moves R (store_save E s ev)"
  unfolding store_save_def
proof (intro moves_bind moves_tick)
  fix n
  show "moves R (\<lambda>w. case w_budget w of Some 0 \<Rightarrow> (Killed, w)
      | b \<Rightarrow> let (r, s') = save_chat_event (e_id E n) (e_iso E (e_now E n)) s ev (w_store w)
             in lift_py E r (w\<lparr>w_store := s', w_budget := map_option (\<lambda>k. k - 1) b\<rparr>))"
    unfolding moves_def
  proof
    fix w :: world
    obtain r s' where sv: "save_chat_event (e_id E n) (e_iso E (e_now E n)) s ev (w_store w) = (r, s')" by fastforce
    have "R w (w\<lparr>w_store := s', w_budget := b\<rparr>)" for b by (simp add: same_by same_work_def)
    moreover have "R w (settle (Killed, w))" by (simp add: settle_def same_by same_work_def restart_def)
    ultimately show "R w (settle (case w_budget w of Some 0 \<Rightarrow> (Killed, w)
      | b \<Rightarrow> let (r, s') = save_chat_event (e_id E n) (e_iso E (e_now E n)) s ev (w_store w)
             in lift_py E r (w\<lparr>w_store := s', w_budget := map_option (\<lambda>k. k - 1) b\<rparr>)))"
      using sv by (auto split: option.split nat.split)
  qed
qed

lemma by_persist: "moves R (persist_and_broadcast E s ev)"
  unfolding persist_and_broadcast_def by (intro moves_seq by_load by_save)

lemma by_get: "moves R (get_session s)" "moves R (get_thread s t)"
  by (simp_all add: get_session_def get_thread_def moves_read)

lemma by_session: "moves R (save_session m)"
  unfolding save_session_def by (intro moves_durable same_by) (simp add: same_work_def)

lemma by_unread: "moves R (mark_unread s)"
  unfolding mark_unread_def by (intro moves_bind by_get) (auto split: option.split intro: moves_ret by_session)

lemma by_resolve: "moves R (resolve_successor_chain s)"
  unfolding resolve_successor_chain_def
  by (intro moves_bind by_get) (auto split: option.split intro!: moves_bind moves_ret moves_read moves_raise)

lemma by_attempts: "moves R (deliver_attempts E n s ev)"
  by (induction n)
    (auto intro!: moves_raise moves_bind by_resolve by_get moves_ret moves_seq by_persist split: option.split)

lemma by_deliver: "moves R (deliver_to_successor E s ev)"
  unfolding deliver_to_successor_def by (rule by_attempts)

lemma by_report: "moves R (report_recovery_event E s content)"
  unfolding report_recovery_event_def by (intro moves_try moves_seq by_deliver by_unread moves_ret)

lemma by_worktree: "moves R (durable (\<lambda>w. w\<lparr>w_worktrees := f (w_worktrees w)\<rparr>))"
  by (intro moves_durable same_by) (simp add: same_work_def)

lemmas by_basic = moves_basic by_get by_deliver by_worktree

end

lemma same_work_threads: "same_work w w' \<Longrightarrow> thread_of w' s u = thread_of w s u"
  by (simp add: same_work_def thread_of_def)

interpretation idle: bystander same_work
  by unfold_locales (auto simp: same_work_def)

interpretation open_end: bystander unfinished
  by unfold_locales (auto simp: unfinished_def same_work_def thread_of_def)

lemma find_put_thread:
  "find (\<lambda>u. th_id u = k) (put_thread t us) = (if th_id t = k then Some t else find (\<lambda>u. th_id u = k) us)"
  by (induction us) auto

lemma save_unfinished: "\<not> terminal_status (th_status t) \<Longrightarrow> moves unfinished (save_thread s t)"
  unfolding save_thread_def
  by (intro open_end.moves_durable) (auto simp: unfinished_def thread_of_def find_put_thread split: if_splits)

subsection \<open>A launch keeps its thread open\<close>

definition yields :: "'a act \<Rightarrow> ('a \<Rightarrow> bool) \<Rightarrow> bool" where
  "yields m P = (\<forall>w a w'. m w = (Val a, w') \<longrightarrow> P a)"

lemma yields_ret: "P a \<Longrightarrow> yields (ret a) P"
  by (simp add: yields_def ret_def)

lemma bind_ValE:
  assumes "bind m f w = (Val b, w')"
  obtains a w1 where "m w = (Val a, w1)" "f a w1 = (Val b, w')"
  using assms by (auto simp: bind_def split: prod.splits outcome.splits)

lemma yields_mono: "yields m P \<Longrightarrow> (\<And>a. P a \<Longrightarrow> Q a) \<Longrightarrow> yields m Q"
  by (auto simp: yields_def)

lemma yields_bind: "yields m Q \<Longrightarrow> (\<And>a. Q a \<Longrightarrow> yields (f a) P) \<Longrightarrow> yields (bind m f) P"
  unfolding yields_def by (metis bind_ValE)

lemma yields_then: "(\<And>a. yields (f a) P) \<Longrightarrow> yields (bind m f) P"
  unfolding yields_def by (metis bind_ValE)

lemma yields_seq: "yields k P \<Longrightarrow> yields (seq m k) P"
  unfolding seq_def by (rule yields_then)

lemma yields_try: "yields m P \<Longrightarrow> (\<And>e. yields (h e) P) \<Longrightarrow> yields (try_except m h) P"
  by (auto simp: yields_def try_except_def split: prod.splits outcome.splits)

lemmas yields_basic = yields_ret yields_then yields_seq yields_try

text \<open>An act on a live launch that leaves the status of the thread as it is, and whose writes do too.\<close>

definition keeps_open :: "live \<Rightarrow> ('a \<times> live) act \<Rightarrow> bool" where
  "keeps_open L m \<longleftrightarrow>
     (\<not> terminal_status (th_status (lv_thread L)) \<longrightarrow>
        moves unfinished m \<and> yields m (\<lambda>(a, L'). \<not> terminal_status (th_status (lv_thread L'))))"

lemma open_ret: "(\<not> terminal_status (th_status (lv_thread L)) \<Longrightarrow> \<not> terminal_status (th_status (lv_thread L'))) \<Longrightarrow>
    keeps_open L (ret (a, L'))"
  by (auto simp: keeps_open_def intro: open_end.moves_ret yields_ret)

lemma open_after: "moves unfinished m \<Longrightarrow> (\<And>a. keeps_open L (f a)) \<Longrightarrow> keeps_open L (bind m f)"
  by (auto simp: keeps_open_def intro!: open_end.moves_bind yields_then)

lemma open_write:
  assumes "\<not> terminal_status (th_status (lv_thread L)) \<Longrightarrow> moves unfinished m" "keeps_open L k"
  shows "keeps_open L (seq m k)"
  using assms by (auto simp: keeps_open_def intro!: open_end.moves_seq yields_seq)

lemma open_bind:
  assumes "keeps_open L m" "\<And>a L'. keeps_open L' (f (a, L'))"
  shows "keeps_open L (bind m f)"
  unfolding keeps_open_def
proof (intro impI conjI)
  assume o: "\<not> terminal_status (th_status (lv_thread L))"
  then have m: "moves unfinished m" "yields m (\<lambda>(a, L'). \<not> terminal_status (th_status (lv_thread L')))"
    using assms(1) by (simp_all add: keeps_open_def)
  show "moves unfinished (bind m f)"
  proof (rule open_end.moves_bind_known [OF m(1), where P = "\<lambda>(a, L'). \<not> terminal_status (th_status (lv_thread L'))"])
    show "case r of (a, L') \<Rightarrow> \<not> terminal_status (th_status (lv_thread L'))" if "m w = (Val r, w')" for w r w'
      using m(2) that unfolding yields_def by blast
    show "moves unfinished (f r)" if "case r of (a, L') \<Rightarrow> \<not> terminal_status (th_status (lv_thread L'))" for r
      using that assms(2) [of "snd r" "fst r"] by (simp add: keeps_open_def split_beta)
  qed
  show "yields (bind m f) (\<lambda>(a, L'). \<not> terminal_status (th_status (lv_thread L')))"
    using assms(2) by (intro yields_bind [OF m(2)]) (auto simp: keeps_open_def)
qed

lemma open_same: "th_status (lv_thread L') = th_status (lv_thread L) \<Longrightarrow> keeps_open L' m \<Longrightarrow> keeps_open L m"
  by (simp add: keeps_open_def)

lemma open_try: "keeps_open L m \<Longrightarrow> (\<And>e. keeps_open L (h e)) \<Longrightarrow> keeps_open L (try_except m h)"
  by (auto simp: keeps_open_def intro!: open_end.moves_try yields_try)

lemma status_kept [simp]:
  "th_status (on_backend ty opt t) = th_status t" "th_status (placed rq repo branch p t) = th_status t"
  "th_status (repoless rq dir t) = th_status t" "th_status (running t) = T_RUNNING"
  "lv_thread (with_thread f L) = f (lv_thread L)" "lv_thread (bind_worker opt account dir prompt L) = lv_thread L"
  by (simp_all add: on_backend_def placed_def repoless_def running_def with_thread_def bind_worker_def)

lemma open_construct: "keeps_open L (construct_worker LE sid rq cp dir prompt L)"
  unfolding construct_worker_def Let_def
  by (auto split: sum.split intro!: open_ret open_after open_end.moves_tick open_write save_unfinished)

lemma open_outside: "keeps_open L (construct_outside LE sid rq cp repo dir prompt L)"
  unfolding construct_outside_def by (auto intro!: open_ret open_construct)

lemma place_moves: "moves unfinished (place_worker LE rq repo base tip branch)"
  unfolding place_worker_def Let_def
  by (auto split: sum.split intro!: open_end.moves_ret open_end.moves_seq open_end.by_worktree)

lemma open_worktree: "keeps_open L (create_worktree_and_process LE sid description repo rq cp L)"
  unfolding create_worktree_and_process_def Let_def
  by (auto split: sum.split
      intro!: open_ret open_outside open_after open_end.moves_tick place_moves open_end.by_get
        open_same [OF _ open_outside])

lemma open_repoless: "keeps_open L (create_repoless_process LE sid description rq cp L)"
  unfolding create_repoless_process_def Let_def
  by (auto split: sum.split intro!: open_ret open_same [OF _ open_construct])

lemma open_create: "keeps_open L (create_run_worker LE sid description rq cp L)"
  unfolding create_run_worker_def by (auto split: option.split intro: open_repoless open_worktree)

lemma ran_status: "ran RE L = (e, L') \<Longrightarrow> lv_thread L' = lv_thread L"
  by (auto simp: ran_def Let_def split: option.splits prod.splits)

lemma stream_moves: "moves unfinished (stream_worker_events E sid t e)"
  unfolding stream_worker_events_def
  by (intro open_end.moves_seq open_end.moves_bind save_unfinished open_end.moves_tick open_end.by_deliver open_end.moves_ret)
    (simp add: terminal_status_def)

lemma open_stream:
  assumes "\<And>L. keeps_open L (create L)"
  shows "keeps_open L (spawn_and_stream LE sid k cp create L)"
  unfolding spawn_and_stream_def
proof (rule open_bind [OF assms])
  fix c L1
  obtain e L2 where r: "ran (le_run LE k) (with_thread running L1) = (e, L2)" by fastforce
  then have "\<not> terminal_status (th_status (lv_thread L2))" by (simp add: ran_status terminal_status_def)
  then show "keeps_open L1 (case (c, L1) of (c, L1) \<Rightarrow>
      (case c of CreateCancelled \<Rightarrow> ret (Interrupted, L1) | CreateRaised msg \<Rightarrow> ret (Broke msg, L1)
       | CreatePool msg \<Rightarrow> ret (Ended (outcome_of (PoolExhausted msg)), L1)
       | Created \<Rightarrow>
           let (ending, L2) = ran (le_run LE k) (with_thread running L1)
           in try_except
                (bind (stream_worker_events (le_env LE) sid (lv_thread L1) ending) (\<lambda>ro.
                   ret (if cp = Some In_Run then Interrupted else Ended ro, L2)))
                (\<lambda>msg. ret (Broke msg, with_thread running L1))))"
    using r by (auto simp: terminal_status_def split: creation.split
        intro!: open_ret open_try open_after stream_moves)
qed

lemma open_retry: "keeps_open L (verify_retry LE sid description rq cp ro L)"
  unfolding verify_retry_def Let_def
  by (auto split: sum.split option.split
      intro!: open_ret open_after open_end.by_get open_stream [THEN open_same [rotated]] open_repoless)

lemma open_settle: "keeps_open L (settle_exit LE sid (a, L))"
  unfolding settle_exit_def override_exit_code_def
  by (auto split: attempt.split intro!: open_ret open_try open_after open_end.moves_bind open_end.moves_ret open_end.moves_lift)

lemma open_body: "keeps_open L (spawn_body LE sid description rq cps L)"
  unfolding spawn_body_def
proof (rule open_bind [OF open_stream [OF open_create]])
  fix a L1
  have "keeps_open L1 (case a of Ended ro \<Rightarrow> if rq_task_type rq = VERIFY \<and> ro_quota ro
                         then verify_retry LE sid description rq (cps 1) ro L1 else ret (a, L1) | _ \<Rightarrow> ret (a, L1))"
    by (auto split: attempt.split intro: open_ret open_retry)
  then show "keeps_open L1 (case (a, L1) of (a, L1) \<Rightarrow> bind (case a of
             Ended ro \<Rightarrow> if rq_task_type rq = VERIFY \<and> ro_quota ro
                         then verify_retry LE sid description rq (cps 1) ro L1 else ret (a, L1)
           | _ \<Rightarrow> ret (a, L1)) (settle_exit LE sid))"
    by (auto intro: open_bind open_settle)
qed

text \<open>The run of a launch has its outcome: what follows is its finalization.\<close>

definition has_outcome ::
  "launch_env \<Rightarrow> pool_state \<Rightarrow> transcripts \<Rightarrow> string \<Rightarrow> string \<Rightarrow> spawn_request \<Rightarrow> (nat \<Rightarrow> cancel_point option) \<Rightarrow>
     thread \<Rightarrow> world \<Rightarrow> bool" where
  "has_outcome LE S T sid description rq cps t w =
     (case fst (spawn_body LE sid description rq cps (new_live LE S T t) w) of
        Val (a, _) \<Rightarrow> a \<noteq> Interrupted
      | _ \<Rightarrow> False)"

text \<open>
  C12. A launch that is stopped before its run has an outcome, by the shutdown's cancellation or by
  the server's end at any durable write, is left to the next boot: no thread gets a terminal status
  it did not have, the master is not woken and nothing is spawned. A cancelled iteration of the
  improvement loop is not left running by itself. Once the outcome stands the stop falls into the
  finalization, whose writes are made one by one: that is the subject of C3 to C5.
\<close>

theorem interrupted_launch_is_left_to_boot:
  assumes "thread_of w sid tid = Some t" "\<not> terminal_status (th_status t)"
    and "\<not> has_outcome LE S T sid description rq cps t w"
    and "run_spawn LE S T sid description tid rq cps w = (res, w')"
  shows "(\<forall>s u x. thread_of w' s u = Some x \<and> terminal_status (th_status x) \<longrightarrow> thread_of w s u = Some x) \<and>
         w_spawned w' = w_spawned w \<and> w_wakes w' = w_wakes w \<and>
         (\<forall>ro. res \<noteq> Val (Finalized ro)) \<and>
         (res = Val (Cancelled LetGo) \<longrightarrow> \<not> prefix improve_iteration_prefix description)"
proof -
  let ?L = "new_live LE S T t"
  obtain r w1 where b: "spawn_body LE sid description rq cps ?L w = (r, w1)" by fastforce
  have e: "bind (spawn_body LE sid description rq cps ?L) (spawn_finally LE sid description rq) w = (res, w')"
    using assms(1,4) by (simp add: run_spawn_def bind_def get_thread_def read_def)
  have "w' = w1 \<and> (\<forall>ro. res \<noteq> Val (Finalized ro)) \<and>
    (res = Val (Cancelled LetGo) \<longrightarrow> \<not> prefix improve_iteration_prefix description)"
    using b e assms(3)
    by (auto simp: has_outcome_def bind_def spawn_finally_def ret_def cancel_action_of_def
        split: outcome.splits option.splits if_splits)
  moreover have "moves unfinished (spawn_body LE sid description rq cps ?L)"
    using open_body [of ?L] assms(2) by (simp add: keeps_open_def new_live_def)
  then have "unfinished w (settle (r, w1))" using open_end.moves_at b by metis
  then have "unfinished w w1" by (cases r) (auto simp: settle_def unfinished_def restart_def thread_of_def)
  ultimately show ?thesis by (auto simp: unfinished_def)
qed


subsection \<open>A verifier is retried once, elsewhere\<close>

text \<open>The backends of the workers so far, and how the thread and its worker stand to the last.\<close>

definition runs_ok :: "task_type \<Rightarrow> live \<Rightarrow> bool" where
  "runs_ok ty L \<longleftrightarrow>
     distinct (lv_runs L) \<and> length (lv_runs L) \<le> 2 \<and> (length (lv_runs L) = 2 \<longrightarrow> ty = VERIFY)"

definition at_most_one :: "live \<Rightarrow> bool" where
  "at_most_one L \<longleftrightarrow> lv_runs L = [] \<or> (\<exists>b. lv_runs L = [b] \<and> th_backend (lv_thread L) = Some b)"

lemma resolved_id: "resolve_backend_option cfg b m = Inr opt \<Longrightarrow> bo_id opt = b"
  unfolding resolve_backend_option_def require_backend_option_def get_backend_option_def
  by (auto simp: py_bind_Inr_iff dest: find_Some_in split: if_splits option.splits)

lemma with_runs [simp]: "lv_runs (with_thread f L) = lv_runs L" "lv_worker (with_thread f L) = lv_worker L"
  "th_backend (running t) = th_backend t"
  by (simp_all add: with_thread_def running_def)

lemma construct_runs:
  "yields (construct_worker LE sid rq cp dir prompt L) (\<lambda>(c, L').
     lv_runs L' = lv_runs L \<and> c \<noteq> Created \<or>
     c = Created \<and> lv_runs L' = lv_runs L @ [rq_backend rq] \<and> th_backend (lv_thread L') = Some (rq_backend rq) \<and>
       lv_dir L' = dir)"
proof (cases "resolve_backend_option (e_cfg (le_env LE)) (rq_backend rq) (rq_model rq)")
  case (Inr opt)
  then show ?thesis
    using resolved_id [OF Inr] unfolding construct_worker_def Let_def
    by (auto split: sum.split intro!: yields_basic simp: bind_worker_def with_thread_def on_backend_def)
qed (simp add: construct_worker_def yields_ret)

lemma run_starts:
  assumes "yields (create L) (\<lambda>(c, L').
     lv_runs L' = lv_runs L \<and> c \<noteq> Created \<or>
     c = Created \<and> lv_runs L' = lv_runs L @ [b] \<and> th_backend (lv_thread L') = Some b \<and> D L')"
  shows "yields (spawn_and_stream LE sid k cp create L) (\<lambda>(a, L').
     lv_runs L' = lv_runs L \<or> lv_runs L' = lv_runs L @ [b] \<and> th_backend (lv_thread L') = Some b)"
proof -
  have r: "lv_runs L2 = lv_runs L1 \<and> th_backend (lv_thread L2) = th_backend (lv_thread L1)"
    if "ran RE (with_thread running L1) = (e, L2)" for RE L1 e L2
    using that by (auto simp: ran_def Let_def split: option.splits prod.splits)
  show ?thesis
    unfolding spawn_and_stream_def
    by (rule yields_bind [OF assms])
      (auto dest!: r split: creation.split prod.split intro!: yields_basic)
qed

lemma outside_runs:
  "yields (construct_outside LE sid rq cp repo dir prompt L) (\<lambda>(c, L').
     lv_runs L' = lv_runs L \<and> c \<noteq> Created \<or>
     c = Created \<and> lv_runs L' = lv_runs L @ [rq_backend rq] \<and> th_backend (lv_thread L') = Some (rq_backend rq) \<and>
       lv_dir L' \<noteq> repo)"
  unfolding construct_outside_def
  using construct_runs [of LE sid rq cp dir prompt L] by (auto simp: yields_def ret_def)

lemma worktree_runs:
  "yields (create_worktree_and_process LE sid description repo rq cp L) (\<lambda>(c, L').
     lv_runs L' = lv_runs L \<and> c \<noteq> Created \<or>
     c = Created \<and> lv_runs L' = lv_runs L @ [rq_backend rq] \<and> th_backend (lv_thread L') = Some (rq_backend rq) \<and>
       lv_dir L' \<noteq> repo)"
  unfolding create_worktree_and_process_def Let_def
  using outside_runs [of LE sid rq cp repo _ _ "with_thread _ L"]
  by (auto split: sum.split intro!: yields_ret yields_then outside_runs)

lemma repoless_runs:
  "yields (create_repoless_process LE sid description rq cp L) (\<lambda>(c, L').
     lv_runs L' = lv_runs L \<and> c \<noteq> Created \<or>
     c = Created \<and> lv_runs L' = lv_runs L @ [rq_backend rq] \<and> th_backend (lv_thread L') = Some (rq_backend rq) \<and>
       lv_dir L' = le_thread_dir LE sid (th_id (lv_thread L)))"
  unfolding create_repoless_process_def Let_def
  using construct_runs [of LE sid rq cp _ _ "with_thread _ L"]
  by (auto split: sum.split intro!: yields_ret)

lemma create_runs:
  "yields (create_run_worker LE sid description rq cp L) (\<lambda>(c, L').
     lv_runs L' = lv_runs L \<and> c \<noteq> Created \<or>
     c = Created \<and> lv_runs L' = lv_runs L @ [rq_backend rq] \<and> th_backend (lv_thread L') = Some (rq_backend rq) \<and>
       (\<forall>repo. rq_repo rq = Some repo \<longrightarrow> lv_dir L' \<noteq> le_resolve LE repo))"
  unfolding create_run_worker_def
  using repoless_runs [of LE sid description rq cp L] worktree_runs [of LE sid description _ rq cp L]
  by (auto simp: yields_def split: option.split)

lemma thread_backend_of: "require_thread_backend_model t cfg = Inr (b, m) \<Longrightarrow> th_backend t = Some b"
  by (auto simp: require_thread_backend_model_def py_bind_Inr_iff truthy_def Let_def split: if_splits)

lemma retry_runs:
  assumes "at_most_one L" "rq_task_type rq = VERIFY"
  shows "yields (verify_retry LE sid description rq cp ro L) (\<lambda>(a, L'). runs_ok VERIFY L')"
proof (cases "require_thread_backend_model (lv_thread L) (e_cfg (le_env LE))")
  case (Inl e)
  then show ?thesis
    using assms by (auto simp: verify_retry_def Let_def at_most_one_def runs_ok_def intro!: yields_ret)
next
  case (Inr r)
  obtain current m where r: "r = (current, m)" by fastforce
  have c: "th_backend (lv_thread L) = Some current" using thread_backend_of Inr r by blast
  have one: "runs_ok VERIFY L" using assms(1) by (auto simp: at_most_one_def runs_ok_def)
  have two: "yields (spawn_and_stream LE sid 1 cp
         (create_repoless_process LE sid description (rq\<lparr>rq_backend := b, rq_model := m'\<rparr>) cp) (with_thread f L))
       (\<lambda>(a, L'). runs_ok VERIFY L')" if "b \<noteq> current" for b m' f
  proof -
    have "yields (spawn_and_stream LE sid 1 cp
         (create_repoless_process LE sid description (rq\<lparr>rq_backend := b, rq_model := m'\<rparr>) cp) (with_thread f L))
       (\<lambda>(a, L'). lv_runs L' = lv_runs L \<or> lv_runs L' = lv_runs L @ [b] \<and> th_backend (lv_thread L') = Some b)"
      using run_starts [where create = "create_repoless_process LE sid description (rq\<lparr>rq_backend := b, rq_model := m'\<rparr>) cp"
          and L = "with_thread f L",
        OF repoless_runs [of LE sid description "rq\<lparr>rq_backend := b, rq_model := m'\<rparr>" cp "with_thread f L"]]
      by simp
    then show ?thesis
      by (rule yields_mono) (use assms(1) c that in \<open>auto simp: at_most_one_def runs_ok_def\<close>)
  qed
  show ?thesis
    using Inr r unfolding verify_retry_def Let_def
    by (auto split: sum.split option.split intro!: yields_ret yields_then one two [unfolded One_nat_def])
qed

lemma settle_live: "yields (settle_exit LE sid (a, L)) (\<lambda>(a', L'). L' = L)"
  unfolding settle_exit_def by (auto split: attempt.split intro!: yields_basic)

text \<open>
  C13. A launch starts at most two workers. A second one is started for a verifier only, after the
  first ran out of quota, and on another backend than the first's.
\<close>

theorem verifier_is_retried_once_elsewhere:
  assumes "spawn_body LE sid description rq cps (new_live LE S T t) w = (Val (a, L), w')"
  shows "length (lv_runs L) \<le> 2 \<and> distinct (lv_runs L) \<and> (length (lv_runs L) = 2 \<longrightarrow> rq_task_type rq = VERIFY)"
proof -
  let ?L = "new_live LE S T t"
  have "yields (spawn_and_stream LE sid 0 (cps 0) (create_run_worker LE sid description rq (cps 0)) ?L)
      (\<lambda>(a, L1). at_most_one L1)"
    by (rule yields_mono [OF run_starts [where create = "create_run_worker LE sid description rq (cps 0)" and L = ?L,
        OF create_runs [of LE sid description rq "cps 0" ?L]]]) (auto simp: new_live_def at_most_one_def)
  moreover have "yields (bind (case a of
             Ended ro \<Rightarrow> if rq_task_type rq = VERIFY \<and> ro_quota ro
                         then verify_retry LE sid description rq (cps 1) ro L1 else ret (a, L1)
           | _ \<Rightarrow> ret (a, L1)) (settle_exit LE sid)) (\<lambda>(a, L'). runs_ok (rq_task_type rq) L')"
    if "at_most_one L1" for a L1
  proof (rule yields_bind)
    have one: "runs_ok (rq_task_type rq) L1" using that by (auto simp: at_most_one_def runs_ok_def)
    show "yields (case a of
             Ended ro \<Rightarrow> if rq_task_type rq = VERIFY \<and> ro_quota ro
                         then verify_retry LE sid description rq (cps 1) ro L1 else ret (a, L1)
           | _ \<Rightarrow> ret (a, L1)) (\<lambda>(a, L'). runs_ok (rq_task_type rq) L')"
      using retry_runs [OF that] by (auto split: attempt.split intro!: yields_ret one)
    show "yields (settle_exit LE sid r) (\<lambda>(a, L'). runs_ok (rq_task_type rq) L')"
      if "case r of (a, L') \<Rightarrow> runs_ok (rq_task_type rq) L'" for r
      using that settle_live [of LE sid "fst r" "snd r"] by (auto simp: yields_def split_beta)
  qed
  ultimately have "yields (spawn_body LE sid description rq cps ?L) (\<lambda>(a, L'). runs_ok (rq_task_type rq) L')"
    unfolding spawn_body_def by (intro yields_bind [where Q = "\<lambda>(a, L1). at_most_one L1"]) auto
  then show ?thesis using assms by (auto simp: yields_def runs_ok_def)
qed

subsection \<open>A worker is on disk before it runs\<close>

definition recorded :: "string \<Rightarrow> (creation \<times> live) act \<Rightarrow> bool" where
  "recorded sid m = (\<forall>w L' w'. m w = (Val (Created, L'), w') \<longrightarrow>
     thread_of w' sid (th_id (lv_thread L')) = Some (lv_thread L'))"

lemma recorded_then: "(\<And>a. recorded sid (f a)) \<Longrightarrow> recorded sid (bind m f)"
  unfolding recorded_def by (metis bind_ValE)

lemma recorded_ret: "c \<noteq> Created \<Longrightarrow> recorded sid (ret (c, L))"
  by (simp add: recorded_def ret_def)

lemma save_recorded:
  assumes "yields k (\<lambda>(c, L'). c = Created \<longrightarrow> lv_thread L' = t)" "moves same_work k"
  shows "recorded sid (seq (save_thread sid t) k)"
  unfolding recorded_def
proof (intro allI impI)
  fix w L' w'
  assume "seq (save_thread sid t) k w = (Val (Created, L'), w')"
  then obtain w1 where w: "save_thread sid t w = (Val (), w1)" "k w1 = (Val (Created, L'), w')"
    unfolding seq_def by (elim bind_ValE) auto
  have "lv_thread L' = t" using assms(1) w(2) unfolding yields_def by blast
  moreover have "same_work w1 w'" using idle.moves_at [OF assms(2), of w1] w(2) by (simp add: settle_def)
  moreover have "w_threads w1 sid = put_thread t (w_threads w sid)"
    using w(1) by (auto simp: save_thread_def durable_def split: option.splits nat.splits)
  ultimately show "thread_of w' sid (th_id (lv_thread L')) = Some (lv_thread L')"
    by (simp add: thread_of_def find_put_thread same_work_def)
qed

lemma construct_recorded: "recorded sid (construct_worker LE sid rq cp dir prompt L)"
  unfolding construct_worker_def Let_def
  by (auto split: sum.split
      intro!: recorded_ret recorded_then save_recorded yields_ret yields_then idle.moves_bind idle.moves_tick idle.moves_ret)

lemma outside_recorded: "recorded sid (construct_outside LE sid rq cp repo dir prompt L)"
  unfolding construct_outside_def by (auto intro: recorded_ret construct_recorded)

lemma create_recorded: "recorded sid (create_run_worker LE sid description rq cp L)"
  unfolding create_run_worker_def create_repoless_process_def create_worktree_and_process_def Let_def
  by (auto split: sum.split option.split intro!: recorded_ret recorded_then construct_recorded outside_recorded)

text \<open>
  When a worker has been created, the metadata on disk is that of its thread, the backend it
  runs on included, and the worker of a repository's task is not to work in the repository's own
  checkout.
\<close>

theorem worker_is_recorded_before_it_runs:
  assumes "create_run_worker LE sid description rq cp L w = (Val (Created, L'), w')"
  shows "thread_of w' sid (th_id (lv_thread L')) = Some (lv_thread L') \<and>
         th_backend (lv_thread L') = Some (rq_backend rq) \<and>
         (\<forall>repo. rq_repo rq = Some repo \<longrightarrow> lv_dir L' \<noteq> le_resolve LE repo)"
  using assms create_recorded [of sid LE description rq cp L] create_runs [of LE sid description rq cp L]
  unfolding recorded_def yields_def by blast

subsection \<open>What a worker is told\<close>

definition told_prompt :: "string \<Rightarrow> creation \<times> live \<Rightarrow> bool" where
  "told_prompt prompt r \<longleftrightarrow> fst r = Created \<longrightarrow> (\<exists>W. lv_worker (snd r) = Some W \<and> wk_prompt W = prompt)"

lemma construct_tells: "yields (construct_worker LE sid rq cp dir prompt L) (told_prompt prompt)"
  unfolding construct_worker_def Let_def
  by (auto split: sum.split intro!: yields_basic simp: told_prompt_def bind_worker_def new_worker_def)

lemma outside_tells: "yields (construct_outside LE sid rq cp repo dir prompt L) (told_prompt prompt)"
  unfolding construct_outside_def by (auto intro!: yields_ret construct_tells simp: told_prompt_def)

text \<open>What the worker of a request is told: an override as it is, a repository's task by the
template, anything else as it is, a verifier after its contract.\<close>

definition told_task :: "launch_env \<Rightarrow> string \<Rightarrow> spawn_request \<Rightarrow> string \<Rightarrow> bool" where
  "told_task LE description rq prompt =
     (case rq_repo rq of
        Some repo \<Rightarrow>
          if truthy (rq_prompt rq) then prompt = the (rq_prompt rq)
          else \<not> contains ''{{'' prompt \<and>
               (case le_worker_template LE of (path, content) \<Rightarrow> asks_for_task path content \<longrightarrow>
                  contains description prompt \<and> \<not> contains ''{{'' description)
      | None \<Rightarrow>
          if rq_task_type rq = VERIFY
          then \<exists>contract. prompt = contract @ [newline, newline] @ description \<and> \<not> contains ''{{'' contract
          else prompt = (if truthy (rq_prompt rq) then the (rq_prompt rq) else description))"

lemma place_prompt:
  assumes "prompt_of_place LE rq description repo branch p m = Inr prompt" "rq_repo rq = Some r" "\<not> truthy (rq_prompt rq)"
  shows "told_task LE description rq prompt"
  using built_prompt [OF assms(1) [unfolded prompt_of_place_def]] contains_trans assms(2,3)
  by (auto simp: told_task_def split: prod.split)

lemma repoless_told:
  assumes "repoless_prompt LE description rq = Inr prompt" "rq_repo rq = None"
  shows "told_task LE description rq prompt"
  using assms
  by (auto simp: repoless_prompt_def told_task_def build_verify_prompt_def require_tokens_resolved_def py_bind_Inr_iff Let_def
      split: if_splits)

lemma told_creation:
  "yields m (told_prompt prompt) \<Longrightarrow> told_task LE description rq prompt \<Longrightarrow>
     yields m (\<lambda>r. fst r = Created \<longrightarrow> (\<exists>W. lv_worker (snd r) = Some W \<and> told_task LE description rq (wk_prompt W)))"
  by (erule yields_mono) (auto simp: told_prompt_def)

lemma create_tells:
  "yields (create_run_worker LE sid description rq cp L)
     (\<lambda>r. fst r = Created \<longrightarrow> (\<exists>W. lv_worker (snd r) = Some W \<and> told_task LE description rq (wk_prompt W)))"
proof (cases "rq_repo rq")
  case None
  then show ?thesis
    unfolding create_run_worker_def create_repoless_process_def Let_def
    by (auto split: sum.split intro!: yields_ret told_creation [OF construct_tells] repoless_told)
next
  case (Some repo)
  show ?thesis
  proof (cases "truthy (rq_prompt rq)")
    case True
    then have "told_task LE description rq (the (rq_prompt rq))" using Some by (simp add: told_task_def)
    then show ?thesis
      using True Some unfolding create_run_worker_def create_worktree_and_process_def
      by (auto intro!: yields_ret told_creation [OF outside_tells])
  next
    case False
    then show ?thesis
      using Some unfolding create_run_worker_def create_worktree_and_process_def Let_def
      by (auto split: sum.split
          intro!: yields_ret yields_then told_creation [OF outside_tells] place_prompt [where r = repo])
  qed
qed

text \<open>
  C17. What a created worker is told. A repository's task goes through the template: its prompt has
  no open braces left, it has the description in it where the template asks for one, and so a task
  whose description has two opening braces in a row never gets a worker there. An override, and the
  task of a request without a repository, is passed on as it is, braces and all; a verifier gets the
  description after a contract that has none.
\<close>

theorem worker_is_told_its_task:
  assumes "create_run_worker LE sid description rq cp L w = (Val (Created, L'), w')"
  shows "\<exists>W. lv_worker L' = Some W \<and>
    (case rq_repo rq of
       Some repo \<Rightarrow>
         if truthy (rq_prompt rq) then wk_prompt W = the (rq_prompt rq)
         else \<not> contains ''{{'' (wk_prompt W) \<and>
              (case le_worker_template LE of (path, content) \<Rightarrow> asks_for_task path content \<longrightarrow>
                 contains description (wk_prompt W) \<and> \<not> contains ''{{'' description)
     | None \<Rightarrow>
         if rq_task_type rq = VERIFY
         then \<exists>contract. wk_prompt W = contract @ [newline, newline] @ description \<and> \<not> contains ''{{'' contract
         else wk_prompt W = (if truthy (rq_prompt rq) then the (rq_prompt rq) else description))"
proof -
  obtain W where "lv_worker L' = Some W" "told_task LE description rq (wk_prompt W)"
    using create_tells [of LE sid description rq cp L] assms unfolding yields_def by (metis fst_conv snd_conv)
  then show ?thesis unfolding told_task_def by blast
qed

subsection \<open>A run taken up again\<close>

text \<open>
  C14. When the run of a thread fails for the server that took it up again while its process may be
  alive, nothing is finalized: no thread changes, nothing is spawned, the master is not woken. A
  run that is proven over has its outcome finalized.
\<close>

theorem live_run_is_never_failed:
  assumes "thread_of w sid tid = Some t" "resume_outcome LE RC description (new_live LE S T t) = (ro, killed)"
  shows "(run_failed ro \<and> rs_alive RC \<longrightarrow>
            fst (resume_worker LE S T RC sid description tid w) \<in> {Val (LeftRunning killed), Killed} \<and>
            same_work w (snd (resume_worker LE S T RC sid description tid w))) \<and>
         (\<not> (run_failed ro \<and> rs_alive RC) \<longrightarrow>
            resume_worker LE S T RC sid description tid w =
              seq (finalize_worker_safely (le_env LE) sid description t ro False (rs_task_type RC = Some VERIFY)
                     (le_completed LE)) (ret (Resumed ro killed)) w)"
proof (intro conjI impI)
  have r: "resume_worker LE S T RC sid description tid w =
      (if run_failed ro \<and> rs_alive RC
       then seq (report_recovery_event (le_env LE) sid (resume_alive_text tid)) (ret (LeftRunning killed)) w
       else seq (finalize_worker_safely (le_env LE) sid description t ro False (rs_task_type RC = Some VERIFY)
                     (le_completed LE)) (ret (Resumed ro killed)) w)"
    using assms by (simp add: resume_worker_def bind_def get_thread_def read_def)
  show "resume_worker LE S T RC sid description tid w =
              seq (finalize_worker_safely (le_env LE) sid description t ro False (rs_task_type RC = Some VERIFY)
                     (le_completed LE)) (ret (Resumed ro killed)) w" if "\<not> (run_failed ro \<and> rs_alive RC)"
    using r that by simp
  assume "run_failed ro \<and> rs_alive RC"
  then have e: "resume_worker LE S T RC sid description tid w =
      seq (report_recovery_event (le_env LE) sid (resume_alive_text tid)) (ret (LeftRunning killed)) w"
    using r by simp
  obtain out w1 where o: "report_recovery_event (le_env LE) sid (resume_alive_text tid) w = (out, w1)" by fastforce
  have never: "\<nexists>msg. out = Exc msg"
    using o by (auto simp: report_recovery_event_def try_except_def ret_def split: prod.splits outcome.splits)
  have "same_work w (settle (out, w1))"
    using idle.moves_at [OF idle.by_report] o by metis
  then have "same_work w w1" by (cases out) (auto simp: settle_def same_work_def restart_def)
  then show "fst (resume_worker LE S T RC sid description tid w) \<in> {Val (LeftRunning killed), Killed}"
    "same_work w (snd (resume_worker LE S T RC sid description tid w))"
    using e o never by (cases out; simp add: seq_def bind_def ret_def)+
qed

text \<open>
  A shutdown that cancels the drain of a run whose process is gone does not leave the run to the
  next boot: the run is finalized with exit code -1, whatever result its log holds, while the same
  drain left alone finalizes it with the result's exit code.
\<close>

theorem cancelled_drain_fails_the_run:
  assumes "thread_of w sid tid = Some t" "\<not> rs_alive RC" "rs_cancelled RC"
    and "drained LE RC description (new_live LE S T t) = Inr (Inr (0, killed))"
  shows "resume_worker LE S T RC sid description tid w =
           (let ro = \<lparr>ro_exit = -1, ro_quota = False, ro_error = rs_reason RC\<rparr>
            in seq (finalize_worker_safely (le_env LE) sid description t ro False (rs_task_type RC = Some VERIFY)
                      (le_completed LE)) (ret (Resumed ro False)) w) \<and>
         resume_worker LE S T (RC\<lparr>rs_cancelled := False\<rparr>) sid description tid w =
           (let ro = \<lparr>ro_exit = 0, ro_quota = False, ro_error = []\<rparr>
            in seq (finalize_worker_safely (le_env LE) sid description t ro False (rs_task_type RC = Some VERIFY)
                      (le_completed LE)) (ret (Resumed ro killed)) w)"
proof -
  have "drained LE (RC\<lparr>rs_cancelled := False\<rparr>) description (new_live LE S T t) = Inr (Inr (0, killed))"
    using assms(4) by (simp add: drained_def)
  then show ?thesis
    using assms by (simp add: resume_worker_def resume_outcome_def run_failed_def bind_def get_thread_def read_def Let_def)
qed


subsection \<open>Witnesses\<close>

text \<open>A host whose first worker is out of quota at once, and a request of one backend.\<close>

definition demo_launch :: launch_env where
  "demo_launch =
     \<lparr>le_env = demo_env,
      le_run = (\<lambda>n. if n = 0 then demo_run_env\<lparr>re_process := (\<lambda>_ _ _ _. demo_process\<lparr>pr_events := [demo_rejection]\<rparr>)\<rparr>
                    else demo_run_env),
      le_resolve = (\<lambda>p. p), le_path_name = (\<lambda>p. p), le_session_name = (\<lambda>_. ''s''), le_claude_session = (\<lambda>_. None),
      le_thread_dir = (\<lambda>_ _. ''/t''), le_worktree_dir = ''/wt'', le_worker_template = (''p'', None),
      le_verify_template =
        (''v'', Some (py_join [newline] (render_sections [(''preamble'', [''x'']), (''scope'', [''y''])]))),
      le_plan_template = ''/plan'', le_memory = Inr None, le_default_branch = (\<lambda>_. Inl ''offline''),
      le_create_worktree = (\<lambda>_ _ _ _ _. Inl ''offline''), le_completed = None\<rparr>"

definition demo_request :: "task_type \<Rightarrow> string option \<Rightarrow> spawn_request" where
  "demo_request ty repo =
     \<lparr>rq_repo = repo, rq_base_branch = None, rq_context = None, rq_backend = ''b'', rq_model = Some ''n'',
      rq_branch_override = None, rq_worktree_override = None, rq_keep_worktree = False, rq_task_type = ty,
      rq_prompt = Some ''go'', rq_loop_dir = None, rq_iteration = None, rq_skip_cleanup = False, rq_skip_notify = False,
      rq_continuation = False\<rparr>"

definition demo_launched :: world where
  "demo_launched =
     demo_world [''a'' \<mapsto> demo_session ''a'' None] [(demo_thread False None None)\<lparr>th_worktree := Some ''/w''\<rparr>]"

definition demo_resume :: "bool \<Rightarrow> bool \<Rightarrow> unit resume_case" where
  "demo_resume alive cancelled =
     \<lparr>rs_parser = \<lparr>loads_strict = (\<lambda>_. Some (JInt 1)), loads_replace = (\<lambda>_. Some (JInt 1))\<rparr>,
      rs_translate = (\<lambda>_ s e. Inr ([[(''type'', JStr ET_RESULT)]], s)), rs_fresh = (),
      rs_follow = \<lparr>fw_events = [], fw_raised = (if alive then Some ''disk full'' else None),
                   fw_raw = \<lparr>rl_bytes = Some ''x'', rl_stat = None\<rparr>, fw_alive = False, fw_pid = Some 7, fw_diag = [],
                   fw_stderr = []\<rparr>,
      rs_alive_quota = False, rs_alive = alive, rs_cancelled = cancelled, rs_reason = [], rs_task_type = None\<rparr>"

lemma demo_launched_thread:
  "thread_of demo_launched ''a'' ''w'' = Some ((demo_thread False None None)\<lparr>th_worktree := Some ''/w''\<rparr>)"
  by (simp add: demo_launched_def thread_of_def demo_world_def demo_thread_def)

theorem interrupted_launch_is_left_to_boot_witness:
  "\<exists>w'. run_spawn demo_launch reset_for_tests (\<lambda>_ _. []) ''a'' ''d'' ''w'' (demo_request IMPLEMENT None) (\<lambda>_. Some In_Run)
            demo_launched = (Val (Cancelled LetGo), w') \<and> w_wakes w' = w_wakes demo_launched"
proof -
  let ?r = "run_spawn demo_launch reset_for_tests (\<lambda>_ _. []) ''a'' ''d'' ''w'' (demo_request IMPLEMENT None)
              (\<lambda>_. Some In_Run) demo_launched"
  have "fst ?r = Val (Cancelled LetGo)" by code_simp
  then have r: "?r = (Val (Cancelled LetGo), snd ?r)" by (metis prod.collapse)
  have "\<not> terminal_status (th_status ((demo_thread False None None)\<lparr>th_worktree := Some ''/w''\<rparr>))"
    by (simp add: demo_thread_def terminal_status_def)
  moreover have "\<not> has_outcome demo_launch reset_for_tests (\<lambda>_ _. []) ''a'' ''d'' (demo_request IMPLEMENT None)
      (\<lambda>_. Some In_Run) ((demo_thread False None None)\<lparr>th_worktree := Some ''/w''\<rparr>) demo_launched"
    by code_simp
  ultimately show ?thesis using interrupted_launch_is_left_to_boot [OF demo_launched_thread _ _ r] r by metis
qed

theorem verifier_is_retried_once_elsewhere_witness:
  "\<exists>a L w'. spawn_body demo_launch ''a'' ''d'' (demo_request VERIFY None) (\<lambda>_. None)
       (new_live demo_launch reset_for_tests (\<lambda>_ _. []) (demo_thread False None None)) demo_launched = (Val (a, L), w') \<and>
     lv_runs L = [''b'', ''a''] \<and> distinct (lv_runs L)"
proof -
  let ?r = "spawn_body demo_launch ''a'' ''d'' (demo_request VERIFY None) (\<lambda>_. None)
       (new_live demo_launch reset_for_tests (\<lambda>_ _. []) (demo_thread False None None)) demo_launched"
  have e: "(case fst ?r of Val (a, L) \<Rightarrow> lv_runs L = [''b'', ''a''] | _ \<Rightarrow> False)" by code_simp
  obtain out w' where o: "?r = (out, w')" by fastforce
  obtain a L where l: "out = Val (a, L)" "lv_runs L = [''b'', ''a'']"
    using e unfolding o by (cases out) auto
  from verifier_is_retried_once_elsewhere [OF o [unfolded l(1)]] l o show ?thesis by blast
qed

theorem worker_is_recorded_before_it_runs_witness:
  "\<exists>L w'. create_run_worker demo_launch ''a'' ''d'' (demo_request IMPLEMENT (Some ''/r'')) None
       (new_live demo_launch reset_for_tests (\<lambda>_ _. []) ((demo_thread False None None)\<lparr>th_worktree := Some ''/w''\<rparr>))
       demo_launched = (Val (Created, L), w') \<and>
     th_backend (lv_thread L) = Some ''b'' \<and> lv_dir L \<noteq> ''/r''"
proof -
  let ?r = "create_run_worker demo_launch ''a'' ''d'' (demo_request IMPLEMENT (Some ''/r'')) None
       (new_live demo_launch reset_for_tests (\<lambda>_ _. []) ((demo_thread False None None)\<lparr>th_worktree := Some ''/w''\<rparr>))
       demo_launched"
  have e: "(case fst ?r of Val (c, L) \<Rightarrow> c = Created | _ \<Rightarrow> False)" by code_simp
  obtain out w' where o: "?r = (out, w')" by fastforce
  obtain L where l: "out = Val (Created, L)" using e unfolding o by (cases out) auto
  from worker_is_recorded_before_it_runs [OF o [unfolded l]]
  have "th_backend (lv_thread L) = Some ''b'' \<and> lv_dir L \<noteq> ''/r''"
    by (simp add: demo_request_def demo_launch_def)
  then show ?thesis using o l by blast
qed

text \<open>A repository's task in a worktree that is there already.\<close>

theorem worker_is_told_its_task_witness:
  "\<exists>L W w'. create_run_worker (demo_launch\<lparr>le_worker_template := (''p'', Some demo_template)\<rparr>) ''a'' ''fix it''
       ((demo_request IMPLEMENT (Some ''/r''))\<lparr>rq_prompt := None, rq_base_branch := Some ''main'', rq_worktree_override := Some ''/w''\<rparr>)
       None (new_live demo_launch reset_for_tests (\<lambda>_ _. []) (demo_thread False None None)) demo_launched =
         (Val (Created, L), w') \<and>
     lv_worker L = Some W \<and> contains ''fix it'' (wk_prompt W) \<and> \<not> contains ''{{'' (wk_prompt W)"
proof -
  let ?LE = "demo_launch\<lparr>le_worker_template := (''p'', Some demo_template)\<rparr>"
  let ?rq = "(demo_request IMPLEMENT (Some ''/r''))\<lparr>rq_prompt := None, rq_base_branch := Some ''main'', rq_worktree_override := Some ''/w''\<rparr>"
  let ?r = "create_run_worker ?LE ''a'' ''fix it'' ?rq None
       (new_live demo_launch reset_for_tests (\<lambda>_ _. []) (demo_thread False None None)) demo_launched"
  have e: "(case fst ?r of Val (c, L) \<Rightarrow> c = Created | _ \<Rightarrow> False)" by code_simp
  obtain out w' where o: "?r = (out, w')" by fastforce
  obtain L where l: "out = Val (Created, L)" using e unfolding o by (cases out) auto
  from worker_is_told_its_task [OF o [unfolded l]]
  show ?thesis using o l demo_template_asks by (auto simp: demo_request_def truthy_def simp del: contains.simps)
qed

theorem live_run_is_never_failed_witness:
  "\<exists>killed. fst (resume_worker demo_launch reset_for_tests (\<lambda>_ _. []) (demo_resume True False) ''a'' ''d'' ''w'' demo_launched)
       \<in> {Val (LeftRunning killed), Killed}"
proof -
  let ?L = "new_live demo_launch reset_for_tests (\<lambda>_ _. []) ((demo_thread False None None)\<lparr>th_worktree := Some ''/w''\<rparr>)"
  obtain ro killed where o: "resume_outcome demo_launch (demo_resume True False) ''d'' ?L = (ro, killed)" by fastforce
  have "run_failed (fst (resume_outcome demo_launch (demo_resume True False) ''d'' ?L))" by code_simp
  then have "run_failed ro \<and> rs_alive (demo_resume True False)" using o by (simp add: demo_resume_def)
  with live_run_is_never_failed [OF demo_launched_thread o] show ?thesis by blast
qed

text \<open>The drained run of the log has succeeded; cancelled, its thread ends as failed.\<close>

theorem cancelled_drain_fails_the_run_witness:
  "\<exists>ro w'. resume_worker demo_launch reset_for_tests (\<lambda>_ _. []) (demo_resume False True) ''a'' ''d'' ''w'' demo_launched =
       (Val (Resumed ro False), w') \<and> ro_exit ro = -1 \<and> ro_error ro = []"
proof -
  let ?RC = "demo_resume False True"
  let ?t = "(demo_thread False None None)\<lparr>th_worktree := Some ''/w''\<rparr>"
  have d: "drained demo_launch ?RC ''d'' (new_live demo_launch reset_for_tests (\<lambda>_ _. []) ?t) = Inr (Inr (0, False))"
    by code_simp
  have f: "\<not> rs_alive ?RC" "rs_cancelled ?RC" by (simp_all add: demo_resume_def)
  have r: "resume_worker demo_launch reset_for_tests (\<lambda>_ _. []) ?RC ''a'' ''d'' ''w'' demo_launched =
      (let ro = \<lparr>ro_exit = -1, ro_quota = False, ro_error = rs_reason ?RC\<rparr>
       in seq (finalize_worker_safely (le_env demo_launch) ''a'' ''d'' ?t ro False (rs_task_type ?RC = Some VERIFY)
                 (le_completed demo_launch)) (ret (Resumed ro False)) demo_launched)"
    using cancelled_drain_fails_the_run [OF demo_launched_thread f d] by (rule conjunct1)
  have "(case fst (resume_worker demo_launch reset_for_tests (\<lambda>_ _. []) ?RC ''a'' ''d'' ''w'' demo_launched) of
      Val _ \<Rightarrow> True | _ \<Rightarrow> False)" by code_simp
  then show ?thesis
    unfolding r by (auto simp: Let_def seq_def bind_def ret_def demo_resume_def split: prod.splits outcome.splits)
qed

end
