(* ===== verification/Git_Base.thy ===== *)
theory Git_Base
  imports Prelude Worker_Recovery
begin

text \<open>
  The base of a worktree (\<open>src/core/git.py\<close>): what \<open>git ls-remote\<close> said, and the matrix by which
  \<open>resolve_base_branch\<close> turns a requested base into a start point. The \<open>git\<close> executable is a
  function of its arguments on a repository of any type.
\<close>

subsection \<open>Running git\<close>

datatype git_answer = GitTimeout | GitExit int string string

type_synonym 'r git = "string list \<Rightarrow> 'r \<Rightarrow> git_answer \<times> 'r"

definition git_read_timeout :: string where "git_read_timeout = ''30.0''"
definition git_write_timeout :: string where "git_write_timeout = ''60.0''"

text \<open>Whether it succeeded, its output and its error text.\<close>

definition git_stdout :: "'r git \<Rightarrow> string list \<Rightarrow> string \<Rightarrow> string \<Rightarrow> 'r \<Rightarrow> (bool \<times> string \<times> string) \<times> 'r" where
  "git_stdout g args timeout label r =
     (case g args r of
        (GitTimeout, r') \<Rightarrow> ((False, [], label @ '' timed out after '' @ timeout @ ''s''), r')
      | (GitExit code out err, r') \<Rightarrow>
          if code \<noteq> 0 then ((False, str_strip out, str_strip err), r') else ((True, str_strip out, []), r'))"

definition git_rev_parse :: "'r git \<Rightarrow> string \<Rightarrow> 'r \<Rightarrow> string option \<times> 'r" where
  "git_rev_parse g ref r =
     (let ((ok, out, _), r') = git_stdout g [''rev-parse'', ''--verify'', ''--quiet'', ref] git_read_timeout ''git rev-parse'' r
      in (if ok \<and> out \<noteq> [] then Some out else None, r'))"

definition git_fetch :: "'r git \<Rightarrow> string \<Rightarrow> string \<Rightarrow> 'r \<Rightarrow> (bool \<times> string) \<times> 'r" where
  "git_fetch g remote branch r =
     (let ((ok, _, err), r') = git_stdout g [''fetch'', remote, branch] git_write_timeout ''git fetch'' r in ((ok, err), r'))"

definition heads_ref :: "string \<Rightarrow> string" where "heads_ref branch = ''refs/heads/'' @ branch"
definition origin_tracking_ref :: "string \<Rightarrow> string" where "origin_tracking_ref branch = ''refs/remotes/origin/'' @ branch"

definition git_push_branch :: "'r git \<Rightarrow> string \<Rightarrow> 'r \<Rightarrow> (bool \<times> string) \<times> 'r" where
  "git_push_branch g branch r =
     (let ((ok, _, err), r') = git_stdout g [''push'', ''origin'', branch] git_write_timeout ''git push'' r in ((ok, err), r'))"

definition git_push_refspec :: "'r git \<Rightarrow> string \<Rightarrow> string \<Rightarrow> 'r \<Rightarrow> (bool \<times> string) \<times> 'r" where
  "git_push_refspec g local_branch remote_branch r =
     (let ((ok, _, err), r') = git_stdout g [''push'', ''origin'', local_branch @ '':'' @ heads_ref remote_branch]
              git_write_timeout ''git push refspec'' r in ((ok, err), r'))"

definition git_current_branch :: "'r git \<Rightarrow> string \<Rightarrow> 'r \<Rightarrow> (string + string) \<times> 'r" where
  "git_current_branch g repo r =
     (case g [''rev-parse'', ''--abbrev-ref'', ''HEAD''] r of
        (GitTimeout, r') \<Rightarrow> (Inl (''git rev-parse timed out after '' @ git_read_timeout @ ''s in '' @ repo), r')
      | (GitExit code out err, r') \<Rightarrow>
          if code = 0 then (Inr (str_strip out), r')
          else if contains ''unknown revision'' (str_strip err) then (Inr ''main'', r')
          else (Inl (''git rev-parse failed: '' @ str_strip err), r'))"

definition git_worktree_prune :: "'r git \<Rightarrow> 'r \<Rightarrow> 'r" where
  "git_worktree_prune g r = snd (g [''worktree'', ''prune''] r)"

text \<open>Commands that must each succeed; a failure or a timeout ends the sequence with a warning.\<close>

fun run_checked :: "'r git \<Rightarrow> string list list \<Rightarrow> 'r \<Rightarrow> 'r" where
  "run_checked g [] r = r"
| "run_checked g (c # cs) r =
     (case g c r of
        (GitTimeout, r') \<Rightarrow> r'
      | (GitExit code _ _, r') \<Rightarrow> if code = 0 then run_checked g cs r' else r')"

definition git_add_commit_push :: "'r git \<Rightarrow> string list \<Rightarrow> string \<Rightarrow> 'r \<Rightarrow> 'r" where
  "git_add_commit_push g files message =
     run_checked g [''add'' # files, [''commit'', ''-m'', message], [''push'']]"

subsection \<open>What the remote advertises\<close>

definition symref_prefix :: string where "symref_prefix = ''ref: refs/heads/''"

abbreviation (input) tab :: char where "tab \<equiv> CHR 0x09"

fun symref_branch :: "string list \<Rightarrow> string option" where
  "symref_branch [] = None"
| "symref_branch (l # ls) =
     (if prefix symref_prefix l \<and> str_strip (takeWhile (\<lambda>c. c \<noteq> tab) (drop (length symref_prefix) l)) \<noteq> []
      then Some (str_strip (takeWhile (\<lambda>c. c \<noteq> tab) (drop (length symref_prefix) l)))
      else symref_branch ls)"

definition default_branch_from_ls_remote :: "string \<Rightarrow> string \<Rightarrow> string \<Rightarrow> string + string" where
  "default_branch_from_ls_remote out source repo =
     (case symref_branch (str_splitlines out) of
        Some b \<Rightarrow> Inr b
      | None \<Rightarrow> Inl (source @ '' in '' @ repo @ '' advertised no '' @ symref_prefix @
                     ''<branch> symref line; refusing to infer a default from local refs. Output: '' @ py_repr (Some out)))"

definition listed_sha :: "string \<Rightarrow> string \<Rightarrow> string option" where
  "listed_sha ref l =
     (let sha = takeWhile (\<lambda>c. c \<noteq> tab) l; rest = drop (Suc (length sha)) l
      in if str_strip rest = ref \<and> sha \<noteq> [] then Some sha else None)"

definition ls_remote_ref_sha :: "string \<Rightarrow> string \<Rightarrow> string option" where
  "ls_remote_ref_sha out ref =
     (case List.map_filter (listed_sha ref) (str_splitlines out) of [] \<Rightarrow> None | s # _ \<Rightarrow> Some s)"

definition git_remote_default_branch_and_tip ::
  "'r git \<Rightarrow> string \<Rightarrow> 'r \<Rightarrow> (string + string \<times> string option) \<times> 'r" where
  "git_remote_default_branch_and_tip g repo r =
     (let ((ok, out, err), r') = git_stdout g [''ls-remote'', ''--symref'', ''origin''] git_write_timeout ''git ls-remote'' r in
      if \<not> ok then (Inl (''cannot read origin'' @ [CHR 0x27] @ ''s default branch in '' @ repo @ '' via git ls-remote: '' @ err), r')
      else case default_branch_from_ls_remote out ''git ls-remote --symref origin'' repo of
             Inl msg \<Rightarrow> (Inl msg, r')
           | Inr b \<Rightarrow> (Inr (b, ls_remote_ref_sha out (heads_ref b)), r'))"

subsection \<open>The matrix\<close>

record base_resolution =
  br_canonical :: string
  br_start :: string
  br_detail :: string

definition hex_char :: "char \<Rightarrow> bool" where
  "hex_char c = (let n = (of_char c :: nat) in (48 \<le> n \<and> n \<le> 57) \<or> (97 \<le> n \<and> n \<le> 102))"

definition full_sha :: "string \<Rightarrow> bool" where "full_sha s = (length s = 40 \<and> list_all hex_char s)"

text \<open>A pinned commit: only looked up.\<close>

definition resolve_pinned :: "'r git \<Rightarrow> string \<Rightarrow> 'r \<Rightarrow> (string + base_resolution) \<times> 'r" where
  "resolve_pinned g raw r =
     (let ((ok, _, err), r') = git_stdout g [''cat-file'', ''-e'', raw @ ''^{commit}''] git_read_timeout ''git cat-file'' r in
      if \<not> ok then (Inl (''base commit '' @ raw @ '' not found in repo: '' @ err), r')
      else (Inr \<lparr>br_canonical = raw, br_start = raw, br_detail = ''pinned commit '' @ take 12 raw\<rparr>, r'))"

text \<open>Whether \<open>origin\<close> is configured, and its tip of the branch.\<close>

definition probe_origin ::
  "'r git \<Rightarrow> string \<Rightarrow> string option \<Rightarrow> 'r \<Rightarrow> (string + bool \<times> string option) \<times> 'r" where
  "probe_origin g branch tip r =
     (if tip \<noteq> None then (Inr (True, tip), r)
      else let ((configured, _, _), r1) = git_stdout g [''remote'', ''get-url'', ''origin''] git_read_timeout ''git remote get-url'' r in
        if \<not> configured then (Inr (False, None), r1)
        else let ((ok, out, err), r2) = git_stdout g [''ls-remote'', ''origin'', heads_ref branch] git_write_timeout ''git ls-remote'' r1 in
          if \<not> ok
          then (Inl (''cannot reach origin to resolve base branch '' @ py_repr (Some branch) @ '': '' @ err @
                     ''. Retry when the remote is reachable, or pass a full commit SHA to pin the base.''), r2)
          else (Inr (True, ls_remote_ref_sha out (heads_ref branch)), r2))"

text \<open>The tracking ref brought to the tip: fetched unless it is there already.\<close>

definition refresh_tracking :: "'r git \<Rightarrow> string \<Rightarrow> string \<Rightarrow> string \<Rightarrow> 'r \<Rightarrow> (string + string) \<times> 'r" where
  "refresh_tracking g repo branch tip r =
     (let (held, r1) = git_rev_parse g (origin_tracking_ref branch) r in
      if held = Some tip then (Inr tip, r1)
      else let ((ok, err), r2) = git_fetch g ''origin'' branch r1 in
        if \<not> ok then (Inl (''git fetch origin '' @ branch @ '' failed: '' @ err), r2)
        else let (sha, r3) = git_rev_parse g (origin_tracking_ref branch) r2 in
          case sha of
            None \<Rightarrow> (Inl (''origin/'' @ branch @ '' listed by ls-remote but missing after fetch in '' @ repo), r3)
          | Some s \<Rightarrow> (Inr s, r3))"

definition divergence_text :: "string \<Rightarrow> string \<Rightarrow> string \<Rightarrow> string" where
  "divergence_text branch here there =
     ''local '' @ branch @ '' ('' @ take 12 here @ '') differs from origin/'' @ branch @ '' ('' @ take 12 there @
     ''). A local base must match its remote exactly: push the local commits, fast-forward the local branch, pass origin/'' @
     branch @ '' to use the remote explicitly, or pass a full commit SHA to pin the base.''"

definition resolve_published ::
  "'r git \<Rightarrow> string \<Rightarrow> bool \<Rightarrow> string \<Rightarrow> string \<Rightarrow> 'r \<Rightarrow> (string + base_resolution) \<times> 'r" where
  "resolve_published g repo explicit branch tip r =
     (case refresh_tracking g repo branch tip r of
        (Inl msg, r1) \<Rightarrow> (Inl msg, r1)
      | (Inr there, r1) \<Rightarrow>
          let answer = Inr \<lparr>br_canonical = branch, br_start = ''origin/'' @ branch,
                            br_detail = ''branch '' @ branch @ '' at origin tip '' @ take 12 there\<rparr>
          in if explicit then (answer, r1)
             else let (here, r2) = git_rev_parse g (heads_ref branch) r1 in
               case here of
                 None \<Rightarrow> (answer, r2)
               | Some h \<Rightarrow> if h \<noteq> there then (Inl (divergence_text branch h there), r2) else (answer, r2))"

definition resolve_unpublished ::
  "'r git \<Rightarrow> bool \<Rightarrow> bool \<Rightarrow> string \<Rightarrow> 'r \<Rightarrow> (string + base_resolution) \<times> 'r" where
  "resolve_unpublished g explicit configured branch r =
     (if explicit
      then (Inl (''origin/'' @ branch @ '' was requested explicitly but that remote branch does not exist on origin.''), r)
      else let (here, r1) = git_rev_parse g (heads_ref branch) r in
        case here of
          None \<Rightarrow> (Inl (''base branch '' @ py_repr (Some branch) @ '' exists neither locally nor on origin (origin '' @
                        (if configured then ''has no such branch'' else ''unreachable or not configured'') @ '').''), r1)
        | Some h \<Rightarrow> (Inr \<lparr>br_canonical = branch, br_start = branch,
                          br_detail = ''local branch '' @ branch @ '' at '' @ take 12 h @ '' (no matching origin branch)''\<rparr>, r1))"

definition branch_of_base :: "string \<Rightarrow> bool \<times> string" where
  "branch_of_base raw = (if prefix ''origin/'' raw then (True, drop 7 raw) else (False, raw))"

definition invalid_branch :: "string \<Rightarrow> bool" where
  "invalid_branch b = (b = [] \<or> contains ''..'' b \<or> list_ex ws_char (utf8_chars b))"

definition resolve_base_branch ::
  "'r git \<Rightarrow> string \<Rightarrow> string \<Rightarrow> string option \<Rightarrow> 'r \<Rightarrow> (string + base_resolution) \<times> 'r" where
  "resolve_base_branch g repo base tip r =
     (let raw = str_strip base; (explicit, branch) = branch_of_base raw in
      if raw = [] then (Inl ''base branch is empty'', r)
      else if full_sha raw then resolve_pinned g raw r
      else if invalid_branch branch then (Inl (''invalid branch name in --base-branch: '' @ py_repr (Some raw)), r)
      else case probe_origin g branch tip r of
             (Inl msg, r1) \<Rightarrow> (Inl msg, r1)
           | (Inr (configured, Some t), r1) \<Rightarrow> resolve_published g repo explicit branch t r1
           | (Inr (configured, None), r1) \<Rightarrow> resolve_unpublished g explicit configured branch r1)"

definition git_create_worktree ::
  "'r git \<Rightarrow> string \<Rightarrow> string \<Rightarrow> string \<Rightarrow> string \<Rightarrow> string option \<Rightarrow> 'r \<Rightarrow> (string + base_resolution) \<times> 'r" where
  "git_create_worktree g repo base branch path tip r =
     (case resolve_base_branch g repo base tip r of
        (Inl msg, r1) \<Rightarrow> (Inl msg, r1)
      | (Inr b, r1) \<Rightarrow>
          (case g [''worktree'', ''add'', ''-b'', branch, path, br_start b] r1 of
             (GitTimeout, r2) \<Rightarrow> (Inl (''git worktree add timed out after '' @ git_write_timeout @ ''s for '' @ branch), r2)
           | (GitExit code out err, r2) \<Rightarrow>
               if code \<noteq> 0
               then (Inl (''git worktree add failed for '' @ branch @ '': '' @
                          (if str_strip err \<noteq> [] then str_strip err
                           else if str_strip out \<noteq> [] then str_strip out else ''unknown error'')), r2)
               else (Inr b, r2)))"

subsection \<open>What git is documented to do\<close>

text \<open>
  \<open>refs\<close> reads a repository's refs and \<open>tips\<close> the branches of its remote: reading commands change
  nothing, a ref is read in time, the listing of a branch answers its tip, a fetch that succeeds brings the one tracking ref to the remote's tip.
  A resolved ref is a non-empty name without surrounding blanks.
\<close>

definition reading_command :: "string list \<Rightarrow> bool" where
  "reading_command args \<longleftrightarrow>
     args = [''remote'', ''get-url'', ''origin''] \<or> take 1 args = [''cat-file''] \<or> take 1 args = [''ls-remote'']"

definition reads_refs :: "'r git \<Rightarrow> ('r \<Rightarrow> string \<Rightarrow> string option) \<Rightarrow> bool" where
  "reads_refs g refs \<longleftrightarrow>
     (\<forall>r ref. git_rev_parse g ref r = (refs r ref, r)) \<and>
     (\<forall>r args. reading_command args \<longrightarrow> snd (g args r) = r)"

definition lists_tips :: "'r git \<Rightarrow> (string \<Rightarrow> string option) \<Rightarrow> bool" where
  "lists_tips g tips \<longleftrightarrow>
     (\<forall>r r' b out. git_stdout g [''ls-remote'', ''origin'', heads_ref b] git_write_timeout ''git ls-remote'' r = ((True, out, []), r') \<longrightarrow>
        ls_remote_ref_sha out (heads_ref b) = tips b)"

definition fetches :: "'r git \<Rightarrow> ('r \<Rightarrow> string \<Rightarrow> string option) \<Rightarrow> (string \<Rightarrow> string option) \<Rightarrow> bool" where
  "fetches g refs tips \<longleftrightarrow>
     (\<forall>r r' b err. git_fetch g ''origin'' b r = ((True, err), r') \<longrightarrow>
        refs r' (origin_tracking_ref b) = tips b \<and> (\<forall>b'. refs r' (heads_ref b') = refs r (heads_ref b')))"

definition documented_git :: "'r git \<Rightarrow> ('r \<Rightarrow> string \<Rightarrow> string option) \<Rightarrow> (string \<Rightarrow> string option) \<Rightarrow> bool" where
  "documented_git g refs tips \<longleftrightarrow> reads_refs g refs \<and> lists_tips g tips \<and> fetches g refs tips"

lemma stdout_state: "snd (git_stdout g args t l r) = snd (g args r)"
  by (auto simp: git_stdout_def split: prod.splits git_answer.splits)

lemma stdout_ok: "git_stdout g args t l r = ((True, out, err), r') \<Longrightarrow> err = []"
  by (auto simp: git_stdout_def split: prod.splits git_answer.splits if_splits)

lemma tracking_not_head: "origin_tracking_ref b \<noteq> heads_ref b'"
  by (simp add: origin_tracking_ref_def heads_ref_def)

lemma reading_state:
  "documented_git g refs tips \<Longrightarrow> reading_command args \<Longrightarrow>
     git_stdout g args t l r = (ans, r') \<Longrightarrow> r' = r"
  using stdout_state [of g args t l r] by (force simp: documented_git_def reads_refs_def)

lemma rev_parse_documented: "documented_git g refs tips \<Longrightarrow> git_rev_parse g ref r = (refs r ref, r)"
  by (simp add: documented_git_def reads_refs_def)

lemma listing_documented:
  assumes "documented_git g refs tips"
    and "git_stdout g [''ls-remote'', ''origin'', heads_ref b] git_write_timeout ''git ls-remote'' r = ((True, out, err), r')"
  shows "ls_remote_ref_sha out (heads_ref b) = tips b"
proof -
  have "err = []" using assms(2) by (rule stdout_ok)
  moreover have "lists_tips g tips" using assms(1) by (simp add: documented_git_def)
  ultimately show ?thesis using assms(2) unfolding lists_tips_def by blast
qed

lemma probe_documented:
  assumes "documented_git g refs tips" "probe_origin g b tip r = (res, r')" "tip = None \<or> tip = tips b"
  shows "r' = r \<and> (\<forall>c t. res = Inr (c, t) \<longrightarrow> (c \<longrightarrow> t = tips b) \<and> (t \<noteq> None \<longrightarrow> c))"
proof (cases "tip = None")
  case True
  obtain c o1 e1 r1 where s1: "git_stdout g [''remote'', ''get-url'', ''origin''] git_read_timeout ''git remote get-url'' r = ((c, o1, e1), r1)"
    by (metis surj_pair)
  have r1: "r1 = r" by (rule reading_state [OF assms(1) _ s1]) (simp add: reading_command_def)
  obtain ok out err r2 where s2: "git_stdout g [''ls-remote'', ''origin'', heads_ref b] git_write_timeout ''git ls-remote'' r = ((ok, out, err), r2)"
    by (metis surj_pair)
  have r2: "r2 = r" by (rule reading_state [OF assms(1) _ s2]) (simp add: reading_command_def)
  have l: "ls_remote_ref_sha out (heads_ref b) = tips b" if ok
    using listing_documented [OF assms(1)] s2 that by simp
  show ?thesis
  proof (cases "c \<and> ok")
    case True
    then have "(res, r') = (Inr (True, tips b), r)"
      using assms(2) \<open>tip = None\<close> s1 s2 r1 r2 l by (simp add: probe_origin_def)
    then show ?thesis by simp
  next
    case False
    then show ?thesis
      using assms(2) \<open>tip = None\<close> s1 s2 r1 r2 by (cases c) (auto simp: probe_origin_def)
  qed
next
  case False
  then show ?thesis using assms(2,3) by (auto simp: probe_origin_def)
qed

lemma refresh_documented:
  assumes "documented_git g refs tips" "refresh_tracking g repo b t r = (Inr s, r')" "tips b = Some t"
  shows "s = t \<and> refs r' (origin_tracking_ref b) = Some t \<and> (\<forall>b'. refs r' (heads_ref b') = refs r (heads_ref b'))"
proof (cases "refs r (origin_tracking_ref b) = Some t")
  case True
  then show ?thesis using assms(2) by (auto simp: refresh_tracking_def rev_parse_documented [OF assms(1)])
next
  case False
  obtain ok err r2 where f: "git_fetch g ''origin'' b r = ((ok, err), r2)" by (metis surj_pair)
  then have e: "refresh_tracking g repo b t r =
      (if \<not> ok then (Inl (''git fetch origin '' @ b @ '' failed: '' @ err), r2)
       else case refs r2 (origin_tracking_ref b) of
         None \<Rightarrow> (Inl (''origin/'' @ b @ '' listed by ls-remote but missing after fetch in '' @ repo), r2)
       | Some s \<Rightarrow> (Inr s, r2))"
    using False by (simp add: refresh_tracking_def rev_parse_documented [OF assms(1)])
  then have ok by (cases ok) (use assms(2) in simp_all)
  then have t: "git_fetch g ''origin'' b r = ((True, err), r2)" using f by simp
  have "fetches g refs tips" using assms(1) by (simp add: documented_git_def)
  then have "refs r2 (origin_tracking_ref b) = tips b \<and> (\<forall>b'. refs r2 (heads_ref b') = refs r (heads_ref b'))"
    unfolding fetches_def using t by meson
  then have "refs r2 (origin_tracking_ref b) = Some t \<and> (\<forall>b'. refs r2 (heads_ref b') = refs r (heads_ref b'))"
    using assms(3) by simp
  then show ?thesis using e assms(2) \<open>ok\<close> by (auto split: option.splits)
qed

subsection \<open>A base is never stale\<close>

text \<open>
  C20. The start point of a worktree is a pinned commit, the remote's current tip, or a branch
  the remote does not have: whenever the remote has the requested branch, the tracking ref the
  worktree starts at is the remote's tip, and a local branch of that name is absent or at the same
  commit unless the remote's was asked for. No local branch is changed, and asking for the
  remote's branch explicitly never starts from a local one.
\<close>

theorem base_is_never_stale:
  assumes "documented_git g refs tips" "tip = None \<or> tip = tips (snd (branch_of_base (str_strip base)))"
    and "resolve_base_branch g repo base tip r = (Inr res, r')"
  shows "let raw = str_strip base; (explicit, b) = branch_of_base raw in
           (full_sha raw \<and> br_start res = raw) \<or>
           (br_canonical res = b \<and> (\<forall>b'. refs r' (heads_ref b') = refs r (heads_ref b')) \<and>
            ((br_start res = ''origin/'' @ b \<and> tips b \<noteq> None \<and> refs r' (origin_tracking_ref b) = tips b \<and>
                (explicit \<or> refs r (heads_ref b) = None \<or> refs r (heads_ref b) = tips b)) \<or>
             (br_start res = b \<and> \<not> explicit \<and> refs r (heads_ref b) \<noteq> None \<and>
                (tips b = None \<or> (\<exists>msg. fst (git_stdout g [''remote'', ''get-url'', ''origin''] git_read_timeout ''git remote get-url'' r) = (False, msg))))))"
proof -
  obtain explicit b where b: "branch_of_base (str_strip base) = (explicit, b)" by fastforce
  have tip: "tip = None \<or> tip = tips b" using assms(2) b by auto
  note rp = rev_parse_documented [OF assms(1)]
  show ?thesis
  proof (cases "full_sha (str_strip base)")
    case True
    then have "resolve_pinned g (str_strip base) r = (Inr res, r')"
      using assms(3) b by (auto simp: resolve_base_branch_def full_sha_def Let_def split: if_splits)
    then show ?thesis using True b by (auto simp: resolve_pinned_def split: prod.splits if_splits)
  next
    case False
    obtain probed r1 where p: "probe_origin g b tip r = (probed, r1)" by fastforce
    have r1: "r1 = r" and c: "\<And>c t. probed = Inr (c, t) \<Longrightarrow> (c \<longrightarrow> t = tips b) \<and> (t \<noteq> None \<longrightarrow> c)"
      using probe_documented [OF assms(1) p tip] by auto
    have run: "(case probed of Inl msg \<Rightarrow> (Inl msg, r)
        | Inr (configured, Some t) \<Rightarrow> resolve_published g repo explicit b t r
        | Inr (configured, None) \<Rightarrow> resolve_unpublished g explicit configured b r) = (Inr res, r')"
      using assms(3) False b p r1
      by (auto simp: resolve_base_branch_def Let_def split: if_splits sum.splits option.splits)
    obtain configured t where q: "probed = Inr (configured, t)" using run by (cases probed) auto
    show ?thesis
    proof (cases t)
      case (Some s)
      then have tips: "tips b = Some s" using c [OF q] by auto
      have pub: "resolve_published g repo explicit b s r = (Inr res, r')" using run q Some by simp
      then obtain there r2 where t: "refresh_tracking g repo b s r = (Inr there, r2)"
        by (auto simp: resolve_published_def split: prod.splits sum.splits)
      note d = refresh_documented [OF assms(1) t tips]
      have "br_canonical res = b \<and> br_start res = ''origin/'' @ b \<and> r' = r2 \<and>
          (explicit \<or> refs r2 (heads_ref b) = None \<or> refs r2 (heads_ref b) = Some there)"
        using pub t by (auto simp: resolve_published_def rp Let_def split: if_splits option.splits)
      then show ?thesis using b d tips by auto
    next
      case None
      have un: "resolve_unpublished g explicit configured b r = (Inr res, r')" using run q None by simp
      then have u: "\<not> explicit \<and> r' = r \<and> br_canonical res = b \<and> br_start res = b \<and> refs r (heads_ref b) \<noteq> None"
        by (auto simp: resolve_unpublished_def rp split: if_splits option.splits)
      have "tips b = None" if configured using c [OF q] None that by simp
      moreover have "\<exists>msg. fst (git_stdout g [''remote'', ''get-url'', ''origin''] git_read_timeout ''git remote get-url'' r) = (False, msg)"
        if "\<not> configured"
        using p q that by (auto simp: probe_origin_def split: if_splits prod.splits)
      ultimately show ?thesis using b u by (cases configured) (auto simp: Let_def)
    qed
  qed
qed

text \<open>
  The caller's own fresh answer of \<open>git ls-remote\<close> saves the probe and nothing else: with it, a
  base resolves as without it whenever the remote answers.
\<close>

theorem known_tip_changes_nothing:
  assumes "documented_git g refs tips" "tips (snd (branch_of_base (str_strip base))) = Some t"
    and "\<exists>out. fst (git_stdout g [''remote'', ''get-url'', ''origin''] git_read_timeout ''git remote get-url'' r) = (True, out)"
    and "\<exists>out. fst (git_stdout g [''ls-remote'', ''origin'', heads_ref (snd (branch_of_base (str_strip base)))]
                     git_write_timeout ''git ls-remote'' r) = (True, out)"
  shows "resolve_base_branch g repo base (Some t) r = resolve_base_branch g repo base None r"
proof -
  let ?b = "snd (branch_of_base (str_strip base))"
  obtain explicit b where b: "branch_of_base (str_strip base) = (explicit, b)" by fastforce
  obtain o1 r1 where s1: "git_stdout g [''remote'', ''get-url'', ''origin''] git_read_timeout ''git remote get-url'' r = ((True, o1), r1)"
    using assms(3) by (metis prod.collapse)
  have r1: "r1 = r" by (rule reading_state [OF assms(1) _ s1]) (simp add: reading_command_def)
  obtain out err r2 where s2: "git_stdout g [''ls-remote'', ''origin'', heads_ref b] git_write_timeout ''git ls-remote'' r = ((True, out, err), r2)"
    using assms(4) b by (metis prod.collapse snd_conv)
  have r2: "r2 = r" by (rule reading_state [OF assms(1) _ s2]) (simp add: reading_command_def)
  have "probe_origin g b None r = (Inr (True, Some t), r)"
    using s1 s2 r1 r2 listing_documented [OF assms(1) s2] assms(2) b by (cases o1) (simp add: probe_origin_def)
  moreover have "probe_origin g b (Some t) r = (Inr (True, Some t), r)" by (simp add: probe_origin_def)
  ultimately show ?thesis using b by (simp add: resolve_base_branch_def Let_def)
qed

subsection \<open>Witnesses\<close>

text \<open>A repository whose tracking ref is behind until it is fetched, and that has no local branch.\<close>

definition demo_git :: "bool git" where
  "demo_git args r =
     (if args = [''fetch'', ''origin'', ''m''] then (GitExit 0 [] [], True)
      else if args \<noteq> [] \<and> hd args = ''fetch'' then (GitExit 1 [] [], r)
      else if args = [''rev-parse'', ''--verify'', ''--quiet'', origin_tracking_ref ''m'']
      then (GitExit 0 (if r then ''t1'' else ''t0'') [], r)
      else if args \<noteq> [] \<and> hd args = ''rev-parse'' then (GitExit 1 [] [], r)
      else if args = [''ls-remote'', ''origin'', heads_ref ''m'']
      then (GitExit 0 (''t1'' @ [tab] @ heads_ref ''m'') [], r)
      else (GitExit 0 [] [], r))"

definition demo_refs :: "bool \<Rightarrow> string \<Rightarrow> string option" where
  "demo_refs r ref = (if ref = origin_tracking_ref ''m'' then Some (if r then ''t1'' else ''t0'') else None)"

definition demo_tips :: "string \<Rightarrow> string option" where
  "demo_tips b = (if b = ''m'' then Some ''t1'' else None)"

lemma demo_documented: "documented_git demo_git demo_refs demo_tips"
proof -
  have s: "str_strip ''t1'' = ''t1''" "str_strip ''t0'' = ''t0''" "str_strip [] = []" by code_simp+
  have "\<not> reading_command [''fetch'', ''origin'', ''m'']" by (simp add: reading_command_def)
  then have "reading_command args \<Longrightarrow> snd (demo_git args r) = r" for args r
    unfolding demo_git_def by (cases "args = [''fetch'', ''origin'', ''m'']") (simp_all only: if_False if_True HOL.simp_thms snd_conv split: if_split)
  moreover have "git_rev_parse demo_git ref r = (demo_refs r ref, r)" for ref r
    by (auto simp: git_rev_parse_def git_stdout_def demo_git_def demo_refs_def s)
  ultimately have "reads_refs demo_git demo_refs" unfolding reads_refs_def by blast
  moreover have l: "ls_remote_ref_sha (str_strip (''t1'' @ [tab] @ heads_ref ''m'')) (heads_ref ''m'') = Some ''t1''"
    "ls_remote_ref_sha [] ref = None" for ref
    by code_simp (simp add: ls_remote_ref_sha_def str_splitlines_def List.map_filter_simps)
  have "lists_tips demo_git demo_tips"
    using l by (auto simp: lists_tips_def git_stdout_def demo_git_def demo_tips_def s heads_ref_def split: if_splits)
  moreover have "fetches demo_git demo_refs demo_tips"
    by (auto simp: fetches_def git_fetch_def git_stdout_def demo_git_def demo_tips_def demo_refs_def
        heads_ref_def origin_tracking_ref_def split: if_splits)
  ultimately show ?thesis by (simp add: documented_git_def)
qed

lemma demo_resolved_base:
  "resolve_base_branch demo_git ''/r'' ''m'' None False =
     (Inr \<lparr>br_canonical = ''m'', br_start = ''origin/m'', br_detail = ''branch m at origin tip t1''\<rparr>, True)"
  by code_simp

theorem base_is_never_stale_witness:
  "br_start (projr (fst (resolve_base_branch demo_git ''/r'' ''m'' None False))) = ''origin/m'' \<and>
   demo_refs True (origin_tracking_ref ''m'') = demo_tips ''m''"
proof -
  have b: "branch_of_base (str_strip ''m'') = (False, ''m'')" "\<not> full_sha (str_strip ''m'')" by code_simp+
  from base_is_never_stale [OF demo_documented disjI1 [OF refl] demo_resolved_base] b
  have "demo_refs True (origin_tracking_ref ''m'') = demo_tips ''m''" by (simp add: Let_def)
  then show ?thesis by (simp add: demo_resolved_base)
qed

theorem known_tip_changes_nothing_witness:
  "resolve_base_branch demo_git ''/r'' ''m'' (Some ''t1'') False = resolve_base_branch demo_git ''/r'' ''m'' None False"
proof -
  have b: "snd (branch_of_base (str_strip ''m'')) = ''m''" by code_simp
  have "fst (git_stdout demo_git [''remote'', ''get-url'', ''origin''] git_read_timeout ''git remote get-url'' False) = (True, [], [])"
    by code_simp
  moreover have "fst (git_stdout demo_git [''ls-remote'', ''origin'', heads_ref ''m''] git_write_timeout ''git ls-remote'' False) =
      (True, ''t1'' @ [tab] @ ''refs/heads/m'', [])"
    by code_simp
  ultimately show ?thesis
    by (intro known_tip_changes_nothing [OF demo_documented]) (simp_all add: b demo_tips_def)
qed

end
