(* ===== verification/Git_Worktree.thy ===== *)
theory Git_Worktree
  imports Git_Base
begin

text \<open>
  The removal of a worktree (\<open>src/core/git.py\<close>): which directories may be cleaned, what of a
  worktree is regenerable and taken out first, what git leaves behind, and the quarantine that
  moves a worktree aside. A directory is a tree; \<open>Link True\<close> is a symbolic link to a directory.
\<close>

subsection \<open>Trees\<close>

datatype node = File | Link bool | Dir "(string \<times> node) list"

type_synonym listing = "(string \<times> node) list"

definition has_marker :: "listing \<Rightarrow> bool" where "has_marker cs = (\<exists>c \<in> set cs. fst c = ''.git'')"

definition artifact_names :: "string list" where
  "artifact_names = [''.pixi'', ''.pixi-cache'', ''.uv-cache'', ''.venv'', ''.local'', ''build'']"

text \<open>What \<open>os.walk\<close> lists among the directories.\<close>

definition listed_dir :: "node \<Rightarrow> bool" where
  "listed_dir n = (case n of Dir _ \<Rightarrow> True | Link d \<Rightarrow> d | File \<Rightarrow> False)"

definition own_artifacts :: "string list \<Rightarrow> listing \<Rightarrow> string list list" where
  "own_artifacts path cs =
     map (\<lambda>c. path @ [fst c]) (filter (\<lambda>c. listed_dir (snd c) \<and> fst c \<in> set artifact_names) cs)"

text \<open>The walk below a directory: not into \<open>.git\<close>, artifacts, links, or a nested worktree.\<close>

fun artifacts_below :: "string list \<Rightarrow> listing \<Rightarrow> string list list" where
  "artifacts_below path [] = []"
| "artifacts_below path ((n, Dir cs) # rest) =
     (if n = ''.git'' \<or> n \<in> set artifact_names \<or> has_marker cs then []
      else own_artifacts (path @ [n]) cs @ artifacts_below (path @ [n]) cs) @ artifacts_below path rest"
| "artifacts_below path ((n, File) # rest) = artifacts_below path rest"
| "artifacts_below path ((n, Link d) # rest) = artifacts_below path rest"

definition local_artifacts :: "listing \<Rightarrow> string list list" where
  "local_artifacts cs = own_artifacts [] cs @ artifacts_below [] cs"

fun marker_below :: "listing \<Rightarrow> bool" where
  "marker_below [] = False"
| "marker_below ((n, Dir cs) # rest) = (n = ''.git'' \<or> marker_below cs \<or> marker_below rest)"
| "marker_below ((n, File) # rest) = (n = ''.git'' \<or> marker_below rest)"
| "marker_below ((n, Link d) # rest) = (n = ''.git'' \<or> marker_below rest)"

fun lookup :: "listing \<Rightarrow> string list \<Rightarrow> node option" where
  "lookup cs [] = Some (Dir cs)"
| "lookup cs (n # ns) =
     (case map_of cs n of
        None \<Rightarrow> None
      | Some (Dir cs') \<Rightarrow> lookup cs' ns
      | Some x \<Rightarrow> if ns = [] then Some x else None)"

text \<open>A change of what is at a path; \<open>None\<close> is its removal.\<close>

fun modify_at :: "(node \<Rightarrow> node option) \<Rightarrow> string list \<Rightarrow> listing \<Rightarrow> listing" where
  "modify_at f [] cs = cs"
| "modify_at f [n] cs =
     List.map_filter (\<lambda>c. if fst c = n then map_option (Pair n) (f (snd c)) else Some c) cs"
| "modify_at f (n # m # ns) cs =
     map (\<lambda>c. if fst c = n then (n, case snd c of Dir cs' \<Rightarrow> Dir (modify_at f (m # ns) cs') | x \<Rightarrow> x) else c) cs"

text \<open>
  \<open>shutil.rmtree\<close>: \<open>stuck\<close> answers, for a directory that cannot be removed entirely, the error and what is
  left of it.
\<close>

type_synonym rmtree_errors = "string list \<Rightarrow> (string \<times> listing) option"

definition rmtree :: "rmtree_errors \<Rightarrow> string list \<Rightarrow> listing \<Rightarrow> string option \<times> listing" where
  "rmtree stuck p cs =
     (case stuck p of
        None \<Rightarrow> (None, modify_at (\<lambda>_. None) p cs)
      | Some (msg, left) \<Rightarrow> (Some msg, modify_at (\<lambda>_. Some (Dir left)) p cs))"

fun remove_artifacts :: "rmtree_errors \<Rightarrow> string list list \<Rightarrow> listing \<Rightarrow> (string + unit) \<times> listing" where
  "remove_artifacts stuck [] cs = (Inr (), cs)"
| "remove_artifacts stuck (p # ps) cs =
     (case lookup cs p of
        Some (Link _) \<Rightarrow> remove_artifacts stuck ps cs
      | _ \<Rightarrow> (case rmtree stuck p cs of
                (Some msg, cs') \<Rightarrow> (Inl msg, cs')
              | (None, cs') \<Rightarrow> remove_artifacts stuck ps cs'))"

definition remove_local_artifacts :: "rmtree_errors \<Rightarrow> listing \<Rightarrow> (string + unit) \<times> listing" where
  "remove_local_artifacts stuck cs = remove_artifacts stuck (local_artifacts cs) cs"

text \<open>The best-effort variant passes over a directory that cannot be removed.\<close>

fun strip_artifacts :: "rmtree_errors \<Rightarrow> string list list \<Rightarrow> listing \<Rightarrow> listing" where
  "strip_artifacts stuck [] cs = cs"
| "strip_artifacts stuck (p # ps) cs =
     (case lookup cs p of
        Some (Link _) \<Rightarrow> strip_artifacts stuck ps cs
      | _ \<Rightarrow> strip_artifacts stuck ps (snd (rmtree stuck p cs)))"

subsection \<open>Which directories may be cleaned\<close>

text \<open>Resolved paths are their parts; the path itself is what messages show.\<close>

record cleanup_target =
  ct_path :: string
  ct_name :: string
  ct_symlink :: bool
  ct_resolved :: "string list"
  ct_parent :: "string list"
  ct_repo :: "string list"
  ct_home :: "string list"
  ct_parent_text :: string

definition assert_safe_target :: "cleanup_target \<Rightarrow> string \<Rightarrow> string + unit" where
  "assert_safe_target T expected =
     (if ct_name T \<noteq> expected
      then Inl (''refusing to clean worktree at '' @ ct_path T @ '': directory name does not match expected '' @ expected)
      else if ct_symlink T then Inl (''refusing to clean worktree symlink: '' @ ct_path T)
      else if ct_resolved T = [] \<or> ct_resolved T = ct_home T then Inl (''refusing to clean unsafe worktree path: '' @ ct_path T)
      else if ct_resolved T = ct_repo T then Inl (''refusing to clean repo root as worktree: '' @ ct_path T)
      else if ct_resolved T = ct_parent T \<or> \<not> prefix (ct_parent T) (ct_resolved T)
      then Inl (''refusing to clean worktree outside allowed parent '' @ ct_parent_text T @ '': '' @ ct_path T)
      else Inr ())"

subsection \<open>Removal\<close>

text \<open>
  What is at the path: nothing, or a node. \<open>rm_stuck\<close> answers a directory that cannot be removed,
  \<open>rm_git\<close> is \<open>git worktree remove --force\<close> on what is there, \<open>rm_survives\<close> whether something is at
  the path after the residue was removed.
\<close>

record removal =
  rm_stuck :: rmtree_errors
  rm_git :: "node option \<Rightarrow> git_answer \<times> node option"
  rm_survives :: bool

definition remove_residue :: "removal \<Rightarrow> cleanup_target \<Rightarrow> string \<Rightarrow> node option \<Rightarrow> (string + unit) \<times> node option" where
  "remove_residue R T expected at_path =
     (case assert_safe_target T expected of
        Inl msg \<Rightarrow> (Inl msg, at_path)
      | Inr _ \<Rightarrow>
          (case at_path of
             Some (Dir cs) \<Rightarrow>
               if marker_below cs
               then (Inl (''refusing to remove worktree residue with .git marker: '' @ ct_path T), at_path)
               else (case rm_stuck R [] of
                       Some (msg, left) \<Rightarrow> (Inl msg, Some (Dir left))
                     | None \<Rightarrow> if rm_survives R then (Inl (''failed to remove worktree residue: '' @ ct_path T), at_path)
                               else (Inr (), None))
           | _ \<Rightarrow> (Inl (''refusing to remove non-directory worktree residue: '' @ ct_path T), at_path)))"

definition preclean :: "removal \<Rightarrow> cleanup_target \<Rightarrow> node option \<Rightarrow> (string + unit) \<times> node option" where
  "preclean R T at_path =
     (case at_path of
        None \<Rightarrow> (Inr (), None)
      | Some (Dir cs) \<Rightarrow> (let (res, cs') = remove_local_artifacts (rm_stuck R) cs in (res, Some (Dir cs')))
      | Some (Link d) \<Rightarrow> (Inl (''refusing to remove worktree symlink: '' @ ct_path T), Some (Link d))
      | Some File \<Rightarrow> (Inl (''refusing to remove non-directory worktree: '' @ ct_path T), Some File))"

definition git_worktree_remove :: "removal \<Rightarrow> cleanup_target \<Rightarrow> string \<Rightarrow> node option \<Rightarrow> (string + bool) \<times> node option" where
  "git_worktree_remove R T expected at_path =
     (case assert_safe_target T expected of
        Inl msg \<Rightarrow> (Inl msg, at_path)
      | Inr _ \<Rightarrow>
          (case preclean R T at_path of
             (Inl msg, left) \<Rightarrow> (Inl msg, left)
           | (Inr _, left) \<Rightarrow>
               (case rm_git R left of
                  (GitTimeout, left') \<Rightarrow> (Inr False, left')
                | (GitExit code _ _, left') \<Rightarrow>
                    if code \<noteq> 0 then (Inr False, left')
                    else if left' = None then (Inr True, None)
                    else (case remove_residue R T expected left' of
                            (Inl msg, left'') \<Rightarrow> (Inl msg, left'')
                          | (Inr _, left'') \<Rightarrow> (Inr True, left'')))))"

text \<open>The quarantine: the name in the trash that is free, or an error; what arrives there.\<close>

definition trash_name :: "string set \<Rightarrow> string \<Rightarrow> string \<Rightarrow> string option" where
  "trash_name taken name tid =
     (if name \<notin> taken then Some name
      else if name @ ''-'' @ tid \<notin> taken then Some (name @ ''-'' @ tid)
      else None)"

definition git_quarantine_worktree ::
  "rmtree_errors \<Rightarrow> cleanup_target \<Rightarrow> string \<Rightarrow> string \<Rightarrow> string \<Rightarrow> listing \<Rightarrow> listing \<Rightarrow>
     (string + string) \<times> listing option \<times> listing" where
  "git_quarantine_worktree stuck T expected trash tid cs trash_listing =
     (case assert_safe_target T expected of
        Inl msg \<Rightarrow> (Inl msg, Some cs, trash_listing)
      | Inr _ \<Rightarrow>
          let cs' = strip_artifacts stuck (local_artifacts cs) cs
          in case trash_name (fst ` set trash_listing) (ct_name T) tid of
               None \<Rightarrow> (Inl (''refusing to quarantine over existing trash entry: '' @ trash @ ''/'' @ ct_name T @ ''-'' @ tid),
                        Some cs', trash_listing)
             | Some dest \<Rightarrow> (Inr (trash @ ''/'' @ dest), None, trash_listing @ [(dest, Dir cs')]))"

subsection \<open>What the walk finds\<close>

fun well_named :: "listing \<Rightarrow> bool" where
  "well_named [] = True"
| "well_named ((n, Dir cs) # rest) = (n \<notin> fst ` set rest \<and> well_named cs \<and> well_named rest)"
| "well_named ((n, File) # rest) = (n \<notin> fst ` set rest \<and> well_named rest)"
| "well_named ((n, Link d) # rest) = (n \<notin> fst ` set rest \<and> well_named rest)"

text \<open>
  A directory of a worktree that can be made again: by its name, not inside another one or inside
  \<open>.git\<close>, and with no repository of its own on the way to it.
\<close>

fun regenerable :: "listing \<Rightarrow> string list \<Rightarrow> bool" where
  "regenerable cs [] = False"
| "regenerable cs [n] = (n \<in> set artifact_names \<and> (case map_of cs n of Some x \<Rightarrow> listed_dir x | None \<Rightarrow> False))"
| "regenerable cs (n # m # ns) =
     (n \<noteq> ''.git'' \<and> n \<notin> set artifact_names \<and>
      (case map_of cs n of Some (Dir cs') \<Rightarrow> \<not> has_marker cs' \<and> regenerable cs' (m # ns) | _ \<Rightarrow> False))"

lemma well_named_map: "well_named cs \<Longrightarrow> (n, x) \<in> set cs \<longleftrightarrow> map_of cs n = Some x"
  by (induction cs rule: well_named.induct) (auto dest: map_of_SomeD simp: rev_image_eqI)

lemma own_found: "well_named cs \<Longrightarrow> q \<in> set (own_artifacts path cs) \<longleftrightarrow> (\<exists>n. q = path @ [n] \<and> regenerable cs [n])"
  unfolding own_artifacts_def using well_named_map [of cs] by (fastforce split: option.splits simp: image_iff)

lemma regenerable_Cons:
  "n \<notin> fst ` set rest \<Longrightarrow> regenerable ((n, x) # rest) (k # m # ns) =
     (if k = n then n \<noteq> ''.git'' \<and> n \<notin> set artifact_names \<and>
        (case x of Dir cs' \<Rightarrow> \<not> has_marker cs' \<and> regenerable cs' (m # ns) | _ \<Rightarrow> False)
      else regenerable rest (k # m # ns))"
  by (auto split: node.splits)

lemma no_name: "n \<notin> fst ` set rest \<Longrightarrow> map_of rest n = None"
  by (simp add: map_of_eq_None_iff)

lemma regenerable_skip:
  "n \<notin> fst ` set rest \<Longrightarrow> \<nexists>cs. x = Dir cs \<Longrightarrow> regenerable ((n, x) # rest) (k # m # ns) = regenerable rest (k # m # ns)"
  using no_name [of n rest] by (cases x) auto

lemma below_found:
  "well_named cs \<Longrightarrow> q \<in> set (artifacts_below path cs) \<longleftrightarrow> (\<exists>n m ns. q = path @ n # m # ns \<and> regenerable cs (n # m # ns))"
proof (induction path cs arbitrary: q rule: artifacts_below.induct)
  case (2 path n cs rest)
  have wf: "well_named cs" "well_named rest" and fresh: "n \<notin> fst ` set rest" using 2(3) by simp_all
  have rest: "q \<in> set (artifacts_below path rest) \<longleftrightarrow> (\<exists>k m ns. q = path @ k # m # ns \<and> regenerable rest (k # m # ns))"
    using 2(2) wf(2) by blast
  have gone: "\<not> regenerable rest (n # m # ns)" for m ns using no_name [OF fresh] by simp
  show ?case
  proof (cases "n = ''.git'' \<or> n \<in> set artifact_names \<or> has_marker cs")
    case True
    then have "regenerable ((n, Dir cs) # rest) (k # m # ns) = regenerable rest (k # m # ns)" for k m ns
      using gone [of m ns] regenerable_Cons [OF fresh, of "Dir cs" k m ns] by (cases "k = n") auto
    then show ?thesis using rest True by simp
  next
    case False
    have "q \<in> set (own_artifacts (path @ [n]) cs @ artifacts_below (path @ [n]) cs) \<longleftrightarrow>
        (\<exists>m ns. q = path @ n # m # ns \<and> regenerable cs (m # ns))"
    proof -
      have "q \<in> set (own_artifacts (path @ [n]) cs) \<longleftrightarrow> (\<exists>m. q = path @ n # [m] \<and> regenerable cs [m])"
        using own_found [OF wf(1), of q "path @ [n]"] by simp
      moreover have "q \<in> set (artifacts_below (path @ [n]) cs) \<longleftrightarrow>
          (\<exists>m k ns. q = path @ n # m # k # ns \<and> regenerable cs (m # k # ns))"
        using 2(1) [OF False wf(1), of q] by simp
      moreover have "(\<exists>m ns. q = path @ n # m # ns \<and> regenerable cs (m # ns)) \<longleftrightarrow>
          (\<exists>m. q = path @ n # [m] \<and> regenerable cs [m]) \<or> (\<exists>m k ns. q = path @ n # m # k # ns \<and> regenerable cs (m # k # ns))"
        by (metis list.exhaust)
      ultimately show ?thesis by simp
    qed
    then have found: "q \<in> set (artifacts_below path ((n, Dir cs) # rest)) \<longleftrightarrow>
        (\<exists>m ns. q = path @ n # m # ns \<and> regenerable cs (m # ns)) \<or> (\<exists>k m ns. q = path @ k # m # ns \<and> regenerable rest (k # m # ns))"
      using False rest by (simp del: regenerable.simps) blast
    have both: "regenerable ((n, Dir cs) # rest) (k # m # ns) \<longleftrightarrow>
        (k = n \<and> regenerable cs (m # ns)) \<or> regenerable rest (k # m # ns)" for k m ns
      using False gone [of m ns] regenerable_Cons [OF fresh, of "Dir cs" k m ns] by auto
    show ?thesis unfolding found both by blast
  qed
next
  case (3 path n rest)
  then show ?case using regenerable_skip [of n rest File] by (simp del: regenerable.simps)
next
  case (4 path n d rest)
  then show ?case using regenerable_skip [of n rest "Link d"] by (simp del: regenerable.simps)
qed simp

lemma walk_finds: "well_named cs \<Longrightarrow> q \<in> set (local_artifacts cs) \<longleftrightarrow> regenerable cs q"
proof -
  assume w: "well_named cs"
  have "q \<in> set (local_artifacts cs) \<longleftrightarrow> (\<exists>n. q = [n] \<and> regenerable cs [n]) \<or> (\<exists>n m ns. q = n # m # ns \<and> regenerable cs (n # m # ns))"
    using own_found [OF w, of q "[]"] below_found [OF w, of q "[]"] by (simp add: local_artifacts_def)
  then show ?thesis by (metis list.exhaust regenerable.simps(1))
qed

subsection \<open>What is kept\<close>

lemma map_of_upd:
  "map_of (map (\<lambda>c. if fst c = n then (n, g (snd c)) else c) cs) k = (if k = n then map_option g (map_of cs n) else map_of cs k)"
  by (induction cs) auto

lemma map_of_del:
  "k \<noteq> n \<Longrightarrow> map_of (List.map_filter (\<lambda>c. if fst c = n then map_option (Pair n) (f (snd c)) else Some c) cs) k = map_of cs k"
  by (induction cs) (auto simp: List.map_filter_simps split: option.splits)

lemma modify_elsewhere:
  "\<not> prefix p q \<Longrightarrow> lookup cs q = Some File \<Longrightarrow> lookup (modify_at f p cs) q = Some File"
proof (induction f p cs arbitrary: q rule: modify_at.induct)
  case (2 f n cs)
  then obtain k ns where q: "q = k # ns" "k \<noteq> n" by (cases q) auto
  then show ?case using 2(2) map_of_del [OF q(2), of f cs] by simp
next
  case (3 f n m ns cs)
  then obtain k ks where q: "q = k # ks" by (cases q) auto
  let ?g = "\<lambda>x. case x of Dir cs' \<Rightarrow> Dir (modify_at f (m # ns) cs') | x \<Rightarrow> x"
  have e: "map_of (modify_at f (n # m # ns) cs) k = (if k = n then map_option ?g (map_of cs n) else map_of cs k)"
    using map_of_upd [of n ?g cs k] by simp
  show ?case
  proof (cases "k = n")
    case False
    then show ?thesis using 3(3) q e by (simp del: modify_at.simps)
  next
    case True
    then have np: "\<not> prefix (m # ns) ks" using 3(2) q by simp
    obtain x where x: "map_of cs n = Some x" using 3(3) q True by (cases "map_of cs n") auto
    show ?thesis
    proof (cases x)
      case (Dir cs')
      then have "lookup cs' ks = Some File" using 3(3) q True x by simp
      moreover have "(n, Dir cs') \<in> set cs" using map_of_SomeD [OF x] Dir by simp
      ultimately have "lookup (modify_at f (m # ns) cs') ks = Some File"
        using 3(1) [of "(n, Dir cs')" cs' ks] np by simp
      then show ?thesis using q True e x Dir by (simp del: modify_at.simps)
    qed (use 3(3) q True e x in \<open>simp_all del: modify_at.simps\<close>)
  qed
qed simp

lemma rmtree_elsewhere: "\<not> prefix p q \<Longrightarrow> lookup cs q = Some File \<Longrightarrow> lookup (snd (rmtree stuck p cs)) q = Some File"
  by (auto simp: rmtree_def modify_elsewhere split: option.split prod.split)

lemma removal_elsewhere:
  "\<forall>p \<in> set ps. \<not> prefix p q \<Longrightarrow> lookup cs q = Some File \<Longrightarrow>
     lookup (snd (remove_artifacts stuck ps cs)) q = Some File \<and> lookup (strip_artifacts stuck ps cs) q = Some File"
proof (induction ps arbitrary: cs)
  case (Cons p ps)
  obtain e cs' where r: "rmtree stuck p cs = (e, cs')" by fastforce
  then have k: "lookup cs' q = Some File" using rmtree_elsewhere [of p q cs stuck] Cons.prems by simp
  have "lookup (snd (remove_artifacts stuck ps u)) q = Some File \<and> lookup (strip_artifacts stuck ps u) q = Some File"
    if "lookup u q = Some File" for u
    using Cons.IH [of u] Cons.prems(1) that by simp
  then show ?case
    using Cons.prems(2) r k by (auto split: option.split node.split)
qed simp

text \<open>What is taken out.\<close>

definition apart :: "string list \<Rightarrow> string list \<Rightarrow> bool" where
  "apart p q = (\<not> prefix p q \<and> \<not> prefix q p)"

lemma modify_apart: "apart p q \<Longrightarrow> lookup (modify_at f p cs) q = lookup cs q"
proof (induction f p cs arbitrary: q rule: modify_at.induct)
  case (1 f cs)
  then show ?case by (simp add: apart_def)
next
  case (2 f n cs)
  then obtain k ns where q: "q = k # ns" "k \<noteq> n" by (cases q) (auto simp: apart_def)
  then show ?case using map_of_del [OF q(2), of f cs] by simp
next
  case (3 f n m ns cs)
  then obtain k ks where q: "q = k # ks" by (cases q) (auto simp: apart_def)
  let ?g = "\<lambda>x. case x of Dir cs' \<Rightarrow> Dir (modify_at f (m # ns) cs') | x \<Rightarrow> x"
  have e: "map_of (modify_at f (n # m # ns) cs) k = (if k = n then map_option ?g (map_of cs n) else map_of cs k)"
    using map_of_upd [of n ?g cs k] by simp
  show ?case
  proof (cases "k = n")
    case True
    then have a: "apart (m # ns) ks" using 3(2) q by (simp add: apart_def)
    show ?thesis
    proof (cases "map_of cs n")
      case (Some x)
      show ?thesis
      proof (cases x)
        case (Dir cs')
        then have "(n, Dir cs') \<in> set cs" using map_of_SomeD [OF Some] by simp
        then have "lookup (modify_at f (m # ns) cs') ks = lookup cs' ks" using 3(1) [of "(n, Dir cs')" cs' ks] a by simp
        then show ?thesis using q True e Some Dir by (simp del: modify_at.simps)
      qed (use q True e Some in \<open>simp_all del: modify_at.simps\<close>)
    qed (use q True e in \<open>simp del: modify_at.simps\<close>)
  qed (use q e in \<open>simp del: modify_at.simps\<close>)
qed

lemma map_of_const:
  "map_of (List.map_filter (\<lambda>c. if fst c = n then map_option (Pair n) v else Some c) cs) n = (if map_of cs n = None then None else v)"
  by (induction cs) (auto simp: List.map_filter_simps split: option.splits)

lemma modify_here: "p \<noteq> [] \<Longrightarrow> lookup (modify_at (\<lambda>_. v) p cs) p = (if lookup cs p = None then None else v)"
proof (induction "\<lambda>_ :: node. v" p cs rule: modify_at.induct)
  case (2 n cs)
  have l: "lookup cs [n] = map_of cs n" for cs by (simp split: option.split node.split)
  show ?case unfolding l using map_of_const [of n v cs] by simp
next
  case (3 n m ns cs)
  let ?g = "\<lambda>x. case x of Dir cs' \<Rightarrow> Dir (modify_at (\<lambda>_. v) (m # ns) cs') | x \<Rightarrow> x"
  have e: "map_of (modify_at (\<lambda>_. v) (n # m # ns) cs) n = map_option ?g (map_of cs n)"
    using map_of_upd [of n ?g cs n] by simp
  show ?case
  proof (cases "map_of cs n")
    case (Some x)
    show ?thesis
    proof (cases x)
      case (Dir cs')
      then have "(n, Dir cs') \<in> set cs" using map_of_SomeD [OF Some] by simp
      then have "lookup (modify_at (\<lambda>_. v) (m # ns) cs') (m # ns) = (if lookup cs' (m # ns) = None then None else v)"
        using 3(1) [of "(n, Dir cs')" cs'] by simp
      then show ?thesis using e Some Dir by (simp del: modify_at.simps)
    qed (use e Some in \<open>simp_all del: modify_at.simps\<close>)
  qed (use e in \<open>simp del: modify_at.simps\<close>)
qed simp

definition left_of :: "rmtree_errors \<Rightarrow> string list \<Rightarrow> node option" where
  "left_of stuck p = (case stuck p of None \<Rightarrow> None | Some (_, left) \<Rightarrow> Some (Dir left))"

definition link_at :: "listing \<Rightarrow> string list \<Rightarrow> bool" where
  "link_at cs p = (\<exists>d. lookup cs p = Some (Link d))"

lemma rmtree_here: "p \<noteq> [] \<Longrightarrow> lookup (snd (rmtree stuck p cs)) p = (if lookup cs p = None then None else left_of stuck p)"
  by (simp add: rmtree_def left_of_def modify_here split: option.split prod.split)

lemma rmtree_apart: "apart p q \<Longrightarrow> lookup (snd (rmtree stuck p cs)) q = lookup cs q"
  by (simp add: rmtree_def modify_apart split: option.split prod.split)

lemma strip_step: "strip_artifacts stuck (p # ps) cs =
    strip_artifacts stuck ps (if link_at cs p then cs else snd (rmtree stuck p cs))"
  by (auto simp: link_at_def split: option.split node.split)

lemma left_no_link: "left_of stuck p \<noteq> Some (Link d)"
  by (simp add: left_of_def split: option.split)

lemma strip_at:
  assumes "p \<noteq> []" "\<forall>q \<in> set ps. q = p \<or> apart q p"
  shows "lookup (strip_artifacts stuck ps cs) p =
    (if p \<in> set ps \<and> lookup cs p \<noteq> None \<and> \<not> link_at cs p then left_of stuck p else lookup cs p)"
  using assms(2)
proof (induction ps arbitrary: cs)
  case (Cons q ps)
  let ?cs = "if link_at cs q then cs else snd (rmtree stuck q cs)"
  have IH: "lookup (strip_artifacts stuck ps ?cs) p =
      (if p \<in> set ps \<and> lookup ?cs p \<noteq> None \<and> \<not> link_at ?cs p then left_of stuck p else lookup ?cs p)"
    using Cons.IH [of ?cs] Cons.prems by simp
  show ?case
  proof (cases "q = p")
    case True
    then have "lookup ?cs p = (if link_at cs p \<or> lookup cs p = None then lookup cs p else left_of stuck p)"
      using rmtree_here [OF assms(1), of stuck cs] by simp
    then show ?thesis unfolding strip_step IH using True left_no_link [of stuck p] by (auto simp: link_at_def)
  next
    case False
    then have "lookup ?cs p = lookup cs p" using Cons.prems rmtree_apart [of q p stuck cs] by simp
    then show ?thesis unfolding strip_step IH using False by (simp add: link_at_def del: if_split) auto
  qed
qed simp

lemma remove_is_strip:
  assumes "\<forall>p \<in> set ps. p \<noteq> []" "\<forall>p \<in> set ps. \<forall>q \<in> set ps. q = p \<or> apart q p"
  shows "(fst (remove_artifacts stuck ps cs) = Inr () \<longleftrightarrow> (\<forall>p \<in> set ps. link_at cs p \<or> stuck p = None)) \<and>
    (fst (remove_artifacts stuck ps cs) = Inr () \<longrightarrow> snd (remove_artifacts stuck ps cs) = strip_artifacts stuck ps cs)"
  using assms
proof (induction ps arbitrary: cs)
  case (Cons q ps)
  have ps: "\<forall>p \<in> set ps. p \<noteq> []" "\<forall>p \<in> set ps. \<forall>q \<in> set ps. q = p \<or> apart q p" using Cons.prems by simp_all
  show ?case
  proof (cases "link_at cs q")
    case True
    then have "remove_artifacts stuck (q # ps) cs = remove_artifacts stuck ps cs" by (auto simp: link_at_def)
    moreover have "strip_artifacts stuck (q # ps) cs = strip_artifacts stuck ps cs" unfolding strip_step using True by simp
    ultimately show ?thesis using Cons.IH [OF ps, of cs] True by (simp del: remove_artifacts.simps strip_artifacts.simps)
  next
    case False
    obtain e cs' where r: "rmtree stuck q cs = (e, cs')" by fastforce
    have step: "remove_artifacts stuck (q # ps) cs = (case e of Some msg \<Rightarrow> (Inl msg, cs') | None \<Rightarrow> remove_artifacts stuck ps cs')"
      using False r by (auto simp: link_at_def split: option.split node.split)
    have e: "e = None \<longleftrightarrow> stuck q = None" using r by (auto simp: rmtree_def split: option.splits prod.splits)
    have same: "stuck p = None \<or> link_at cs' p \<longleftrightarrow> stuck p = None \<or> link_at cs p" if "p \<in> set ps" for p
    proof (cases "q = p")
      case True
      then have "lookup cs' p = (if lookup cs p = None then None else left_of stuck p)"
        using rmtree_here [of p stuck cs] Cons.prems(1) r by simp
      then show ?thesis using left_no_link [of stuck p] False True by (auto simp: link_at_def)
    next
      case False
      then have "apart q p" using Cons.prems(2) that by auto
      then show ?thesis using rmtree_apart [of q p stuck cs] r by (simp add: link_at_def)
    qed
    show ?thesis
    proof (cases e)
      case None
      then have n: "fst (remove_artifacts stuck (q # ps) cs) = fst (remove_artifacts stuck ps cs')"
        "snd (remove_artifacts stuck (q # ps) cs) = snd (remove_artifacts stuck ps cs')"
        "strip_artifacts stuck (q # ps) cs = strip_artifacts stuck ps cs'"
        unfolding step strip_step using False r by simp_all
      have "(\<forall>p \<in> set (q # ps). link_at cs p \<or> stuck p = None) \<longleftrightarrow> (\<forall>p \<in> set ps. link_at cs' p \<or> stuck p = None)"
        using same e None by (metis list.set_intros(2) set_ConsD)
      then show ?thesis unfolding n using Cons.IH [OF ps, of cs'] by simp
    next
      case (Some msg)
      then have "stuck q \<noteq> None" using e by simp
      then show ?thesis unfolding step using Some False by simp
    qed
  qed
qed simp

lemma regenerable_found: "regenerable cs p \<Longrightarrow> p \<noteq> [] \<and> lookup cs p \<noteq> None"
  by (induction cs p rule: regenerable.induct) (auto split: option.splits node.splits)

lemma regenerable_maximal: "regenerable cs p \<Longrightarrow> regenerable cs q \<Longrightarrow> prefix p q \<Longrightarrow> p = q"
proof (induction cs p arbitrary: q rule: regenerable.induct)
  case (2 cs n)
  then obtain ns where "q = n # ns" by (cases q) auto
  then show ?case using 2 by (cases ns) auto
next
  case (3 cs n m ns)
  then obtain k ks where "q = n # k # ks" by (cases q; cases "tl q") auto
  moreover from this obtain cs' where "map_of cs n = Some (Dir cs')" "regenerable cs' (m # ns)" "regenerable cs' (k # ks)"
    using 3(2,3) by (auto split: option.splits node.splits)
  moreover have "prefix (m # ns) (k # ks)" using 3(4) \<open>q = n # k # ks\<close> by simp
  ultimately have "m # ns = k # ks" using "3.IH" by metis
  then show ?case using \<open>q = n # k # ks\<close> by simp
qed simp

text \<open>
  C21. Cleaning a worktree before it is removed or quarantined takes exactly the regenerable
  directories: those named as such, outside \<open>.git\<close> and outside any nested repository. Each of them is
  gone afterwards, but for a symbolic link, which stays, and for what could not be removed; the
  cleaning before a removal succeeds exactly when nothing was left that way, the one before a
  quarantine goes on. A file that is in none of them is still there, whatever fails.
\<close>

theorem cleaning_spares_work:
  assumes "well_named cs"
  shows "(\<forall>p. p \<in> set (local_artifacts cs) \<longleftrightarrow> regenerable cs p) \<and>
         (\<forall>q. lookup cs q = Some File \<longrightarrow> (\<forall>p. regenerable cs p \<longrightarrow> \<not> prefix p q) \<longrightarrow>
            lookup (snd (remove_local_artifacts stuck cs)) q = Some File \<and>
            lookup (strip_artifacts stuck (local_artifacts cs) cs) q = Some File) \<and>
         (\<forall>p. regenerable cs p \<longrightarrow>
            lookup (strip_artifacts stuck (local_artifacts cs) cs) p = (if link_at cs p then lookup cs p else left_of stuck p)) \<and>
         (fst (remove_local_artifacts stuck cs) = Inr () \<longleftrightarrow> (\<forall>p. regenerable cs p \<longrightarrow> link_at cs p \<or> stuck p = None)) \<and>
         (fst (remove_local_artifacts stuck cs) = Inr () \<longrightarrow> (\<forall>p. regenerable cs p \<longrightarrow>
            lookup (snd (remove_local_artifacts stuck cs)) p = (if link_at cs p then lookup cs p else None)))"
proof -
  let ?ps = "local_artifacts cs"
  have found: "p \<in> set ?ps \<longleftrightarrow> regenerable cs p" for p using walk_finds [OF assms] .
  have ne: "\<forall>p \<in> set ?ps. p \<noteq> []" using regenerable_found found by blast
  have apart: "\<forall>p \<in> set ?ps. \<forall>q \<in> set ?ps. q = p \<or> apart q p"
    using regenerable_maximal found unfolding apart_def by blast
  have at: "lookup (strip_artifacts stuck ?ps cs) p = (if link_at cs p then lookup cs p else left_of stuck p)"
    if "regenerable cs p" for p
    using strip_at [of p ?ps stuck cs] apart found regenerable_found that by auto
  note rm = remove_is_strip [OF ne apart, of stuck cs]
  show ?thesis
    using found removal_elsewhere [of ?ps] rm at
    by (auto simp: remove_local_artifacts_def left_of_def)
qed

text \<open>
  \<open>git_worktree_remove\<close> touches nothing unless the path is a directory of the expected name
  strictly below the allowed parent that is neither a link, nor the repository, nor a home; it
  answers success only when nothing is left at the path; and a residue in which any \<open>.git\<close> is left
  is refused as it is.
\<close>

theorem removal_is_confined:
  assumes "git_worktree_remove R T expected at_path = (res, left)"
  shows "(left \<noteq> at_path \<or> res = Inr True \<longrightarrow>
            ct_name T = expected \<and> \<not> ct_symlink T \<and> ct_resolved T \<noteq> ct_repo T \<and> ct_resolved T \<noteq> ct_home T \<and>
            strict_prefix (ct_parent T) (ct_resolved T)) \<and>
         (res = Inr True \<longrightarrow> left = None) \<and>
         (\<forall>cs cleaned u out err. assert_safe_target T expected = Inr () \<longrightarrow> preclean R T at_path = (Inr u, cleaned) \<longrightarrow>
            rm_git R cleaned = (GitExit 0 out err, Some (Dir cs)) \<longrightarrow> marker_below cs \<longrightarrow>
            left = Some (Dir cs) \<and> (\<exists>msg. res = Inl msg))"
proof -
  have safe: "ct_name T = expected \<and> \<not> ct_symlink T \<and> ct_resolved T \<noteq> ct_repo T \<and> ct_resolved T \<noteq> ct_home T \<and>
      strict_prefix (ct_parent T) (ct_resolved T)" if "assert_safe_target T expected = Inr ()"
    using that by (auto simp: assert_safe_target_def strict_prefix_def split: if_splits)
  show ?thesis
  proof (cases "assert_safe_target T expected")
    case (Inl msg)
    then show ?thesis using assms by (auto simp: git_worktree_remove_def)
  next
    case (Inr u)
    have gone: "left'' = None" if "remove_residue R T expected x = (Inr v, left'')" for x v left''
      using that by (auto simp: remove_residue_def split: sum.splits option.splits node.splits if_splits prod.splits)
    have "res = Inr True \<longrightarrow> left = None"
      using assms Inr gone
      by (auto simp: git_worktree_remove_def split: prod.splits sum.splits git_answer.splits if_splits)
    moreover have "left = Some (Dir cs) \<and> (\<exists>msg. res = Inl msg)"
      if "preclean R T at_path = (Inr v, cleaned)" "rm_git R cleaned = (GitExit 0 out err, Some (Dir cs))" "marker_below cs"
      for cs cleaned v out err
      using assms Inr that by (auto simp: git_worktree_remove_def remove_residue_def)
    ultimately show ?thesis using safe Inr by auto
  qed
qed

text \<open>
  A quarantine overwrites nothing in the trash, and what arrives there has every file of the worktree
  that is not in a regenerable directory.
\<close>

lemma quarantine_keeps_work:
  assumes "git_quarantine_worktree stuck T expected trash tid cs bin = (Inr dest, left, bin')"
  shows "\<exists>name cs'. name \<notin> fst ` set bin \<and> bin' = bin @ [(name, Dir cs')] \<and> left = None \<and>
           (well_named cs \<longrightarrow> (\<forall>q. lookup cs q = Some File \<longrightarrow> (\<forall>p. regenerable cs p \<longrightarrow> \<not> prefix p q) \<longrightarrow>
              lookup cs' q = Some File))"
proof -
  let ?cs' = "strip_artifacts stuck (local_artifacts cs) cs"
  obtain name where "trash_name (fst ` set bin) (ct_name T) tid = Some name" "bin' = bin @ [(name, Dir ?cs')]" "left = None"
    using assms by (auto simp: git_quarantine_worktree_def Let_def split: sum.splits option.splits)
  moreover from this have "name \<notin> fst ` set bin" by (auto simp: trash_name_def split: if_splits)
  ultimately show ?thesis
    using walk_finds [of cs] removal_elsewhere [of "local_artifacts cs" _ cs stuck] by auto
qed

subsection \<open>Witnesses\<close>

definition demo_tree :: listing where
  "demo_tree =
     [(''src'', Dir [(''a.py'', File), (''build'', Dir [(''o'', File)])]), (''build'', Dir []),
      (''sub'', Dir [(''.git'', File), (''.venv'', Dir [])])]"

theorem cleaning_spares_work_witness:
  "local_artifacts demo_tree = [[''build''], [''src'', ''build'']] \<and>
   lookup (strip_artifacts (\<lambda>p. if p = [''build''] then Some (''busy'', []) else None) (local_artifacts demo_tree) demo_tree)
     [''src'', ''build''] = None \<and>
   lookup (snd (remove_local_artifacts (\<lambda>p. if p = [''build''] then Some (''busy'', []) else None) demo_tree)) [''src'', ''a.py''] =
     Some File"
proof -
  let ?stuck = "\<lambda>p. if p = [''build''] then Some (''busy'', []) else None :: (string \<times> listing) option"
  have "regenerable demo_tree p \<longrightarrow> \<not> prefix p [''src'', ''a.py'']" for p
  proof
    assume r: "regenerable demo_tree p"
    then have "p \<noteq> [] \<and> p \<noteq> [''src''] \<and> p \<noteq> [''src'', ''a.py'']"
      by (auto simp: demo_tree_def artifact_names_def)
    then show "\<not> prefix p [''src'', ''a.py'']" by (auto simp: prefix_Cons)
  qed
  moreover have "well_named demo_tree" "lookup demo_tree [''src'', ''a.py''] = Some File"
    "local_artifacts demo_tree = [[''build''], [''src'', ''build'']]" by code_simp+
  moreover have "regenerable demo_tree [''src'', ''build'']" "lookup demo_tree [''src'', ''build''] = Some (Dir [(''o'', File)])"
    by code_simp+
  moreover from this have "\<not> link_at demo_tree [''src'', ''build'']" by (simp add: link_at_def)
  moreover have "left_of ?stuck [''src'', ''build''] = None" by (simp add: left_of_def)
  moreover note cleaning_spares_work [of demo_tree ?stuck]
  ultimately show ?thesis by metis
qed

definition demo_target :: cleanup_target where
  "demo_target =
     \<lparr>ct_path = ''/wt/b'', ct_name = ''b'', ct_symlink = False, ct_resolved = [''wt'', ''b''], ct_parent = [''wt''],
      ct_repo = [''repo''], ct_home = [''home''], ct_parent_text = ''/wt''\<rparr>"

definition demo_removal :: removal where
  "demo_removal =
     \<lparr>rm_stuck = (\<lambda>_. None), rm_git = (\<lambda>_. (GitExit 0 [] [], Some (Dir [(''.git'', File)]))), rm_survives = False\<rparr>"

theorem removal_is_confined_witness:
  "\<exists>msg. git_worktree_remove demo_removal demo_target ''b'' (Some (Dir demo_tree)) = (Inl msg, Some (Dir [(''.git'', File)]))"
proof -
  obtain res left where g: "git_worktree_remove demo_removal demo_target ''b'' (Some (Dir demo_tree)) = (res, left)" by fastforce
  have "assert_safe_target demo_target ''b'' = Inr ()" "marker_below [(''.git'', File)]" by code_simp+
  moreover obtain cleaned where "preclean demo_removal demo_target (Some (Dir demo_tree)) = (Inr (), cleaned)"
  proof -
    have "fst (preclean demo_removal demo_target (Some (Dir demo_tree))) = Inr ()" by code_simp
    then show thesis using that by (metis prod.collapse)
  qed
  moreover have "rm_git demo_removal cleaned = (GitExit 0 [] [], Some (Dir [(''.git'', File)]))"
    by (simp add: demo_removal_def)
  ultimately have "left = Some (Dir [(''.git'', File)]) \<and> (\<exists>msg. res = Inl msg)"
    using removal_is_confined [OF g] by meson
  then show ?thesis using g by blast
qed

end
