(* ===== verification/Spec2Isabelle.thy ===== *)
theory Spec2Isabelle
  imports Prelude Memo Ndjson Event_Types Verify_Trailer Takeoff_Gate Plans Message_Events Message_Aggregator Message_Projection Runs Thinking_State
    Process Master_Queue Backlog_Loop Trace_Merge Backends Session_World Review Task_Chain Finalize Finalize_Outcome
    Worker_Recovery Master_Recovery Trigger_Watch Triggers Trigger_Laws Account_Pool Account_Relay Account_Laws Worker_Run Memory_Store Worker_Prompt Worker_Lifecycle Lifecycle_Laws Git_Base Git_Worktree
begin

text \<open>
  CharlieBot (\<open>src/src/\<close>) is a server that runs one long-lived master agent per chat session and
  short-lived workers it delegates to. Everything that happened in a session is one append-only
  NDJSON log of chat events; every view is a projection of that log, and every restart
  reconstructs from disk what was going on. This development models the logic in between, in
  the order of the data flow. Paths below are relative to \<open>src/src/\<close>.

  \<^bold>\<open>Theories and code.\<close>
  \<^item> \<open>Prelude\<close>: exceptions as sums, JSON values and dicts, UTF-8 strings, Python string
    operations, times. \<open>Event_Types\<close>: the event names of \<open>core/event_types.py\<close> and the text
    extraction shared by the readers.
  \<^item> \<open>Memo\<close> (\<open>core/memo.py\<close>): bounded LRU memos and memos validated by a stat signature.
  \<^item> \<open>Ndjson\<close> (\<open>core/ndjson.py\<close>): forward, ranged, windowed and from-the-end readers of a log,
    the chunked line counter, and the append that rides out short writes.
  \<^item> \<open>Message_Events\<close>, \<open>Message_Aggregator\<close>, \<open>Message_Projection\<close> (\<open>core/message_events.py\<close>,
    \<open>core/message_aggregator.py\<close>, \<open>core/message_projection.py\<close>, the references of
    \<open>api/message_utils.py\<close>): the stable order of a history, the state machine that folds events
    into messages and stream deltas, the incrementally advanced projection and its pages.
  \<^item> \<open>Verify_Trailer\<close> (\<open>core/verify_trailer.py\<close>): the final report of a verifier and its trailer.
  \<^item> \<open>Takeoff_Gate\<close> (\<open>core/takeoff_gate.py\<close>): what lets a delegation through.
  \<^item> \<open>Plans\<close> (\<open>core/plans.py\<close>): the plan registry's verbs on the raw JSON file, refined to a typed
    registry, and the tolerant read.
  \<^item> \<open>Runs\<close> (\<open>core/runs.py\<close>): what became of a run, judged from \<open>/proc\<close>, the raw log and stat.
  \<^item> \<open>Process\<close> (\<open>core/process.py\<close>, \<open>core/log_once.py\<close>): escalating signals, pre-exec hooks, the
    memory cgroups of sessions.
  \<^item> \<open>Thinking_State\<close>, \<open>Master_Queue\<close> (\<open>core/thinking_state.py\<close>, \<open>agents/master_cc_queue.py\<close>,
    \<open>agents/master_cc_state.py\<close>): the run queue of the master with all interleavings of callers,
    consumers and cancellations as a step relation.
  \<^item> \<open>Backlog_Loop\<close> (\<open>core/backlog_loop.py\<close>): the next action of the improvement loop.
  \<^item> \<open>Trace_Merge\<close> (\<open>core/trace_merge.py\<close>): merging profiler traces of several ranks.
  \<^item> \<open>Finalize_Effects\<close> (\<open>core/finalize_effects.py\<close>, the store and fold of \<open>core/chat_events.py\<close>,
    \<open>core/spawner_events.py\<close>): the judgments over a session's log that make a completion
    repeatable, their cached fold, the worker's event summary. \<open>Backends\<close>
    (\<open>core/spawner_backends.py\<close>, the selection of \<open>core/review.py\<close>): which backend runs what.
  \<^item> \<open>Session_World\<close>: one state for sessions, logs, threads, spawned workers and asked-for master
    turns, and the actions over it, where an action may also be killed at each durable write;
    succession and delivery (\<open>core/sessions.py\<close>), threads (\<open>core/threads.py\<close>), the weekly
    recycling and the wake (\<open>core/master_trigger.py\<close>). \<open>Review\<close>, \<open>Task_Chain\<close>, \<open>Finalize\<close>
    (\<open>core/review.py\<close>, \<open>core/task_chain.py\<close>, \<open>core/spawner_finalize.py\<close>): what a finished worker
    sets in motion. \<open>Finalize_Laws\<close>, \<open>Finalize_Once\<close>, \<open>Finalize_Outcome\<close>: what every completion
    keeps, what happens at most once under any kills and reruns, what happens for certain, and what
    becomes of a review whose reviewer fails.
  \<^item> \<open>Worker_Recovery\<close> (\<open>core/init_worker_recovery.py\<close>): the scan of the threads an earlier server
    started, what recovery does with each (drain, follow, respawn, complete the effects) and the
    quarantine of long failed worktrees. \<open>Master_Recovery\<close> (\<open>core/init_master_recovery.py\<close>): the
    recorded master turns, judged and re-attached to the queue, and the replay of the messages
    nobody answered.
  \<^item> \<open>Trigger_Watch\<close>, \<open>Triggers\<close>, \<open>Trigger_Laws\<close> (\<open>core/triggers.py\<close>): the waits of a delayed
    trigger (local processes, ssh probes, SLURM jobs) and their deadlines; the trigger files,
    creation, cancellation, recovery, firing and the memoised listing; what holds over kills and
    restarts, and that a listing is the directory.
  \<^item> \<open>Account_Pool\<close> (\<open>core/claude_accounts.py\<close>): the rate limit readings of the pooled logins, their
    health, headroom and selection, the move of a transcript. \<open>Account_Relay\<close>
    (\<open>core/claude_relay.py\<close>, \<open>core/claude_compaction.py\<close>, \<open>agents/master_cc_relay.py\<close>): when a process
    is moved to another login, how its transcript is compacted, where a master's turn is placed.
    \<open>Account_Laws\<close>: their properties.
  \<^item> \<open>Worker_Run\<close> (\<open>agents/worker.py\<close>): the processes of a task with the relays between them, the
    events written down, the terminal events, the run taken up after a restart.
  \<^item> \<open>Memory_Store\<close> (\<open>core/memory.py\<close>): the entry grammar, the vocabulary, validation, the load with
    its memo, lint, and the blocks the agents are given. \<open>Worker_Prompt\<close>
    (\<open>core/spawner_prompt.py\<close>, the verifier's contract of \<open>core/spawner_launch.py\<close>): template
    sections, token substitution and the assembled prompt.
  \<^item> \<open>Worker_Lifecycle\<close> (\<open>core/spawner_launch.py\<close>, \<open>core/spawner_lifecycle.py\<close>): the construction of a
    worker, the launch with its one retry of a verifier, the shutdown that cancels it (in the
    finalization it is an end at a durable write), and \<open>resume_worker\<close>. It composes \<open>Worker_Run\<close>, \<open>Worker_Prompt\<close>, the backend resolution, the account pool and
    \<open>Finalize\<close>. \<open>Lifecycle_Laws\<close>: their properties.
  \<^item> \<open>Git_Base\<close>, \<open>Git_Worktree\<close> (\<open>core/git.py\<close>): the matrix by which a requested base becomes the start
    point of a worktree, over a git executable assumed to do what it documents; what is taken out of
    a worktree, which directories may be removed at all, and the quarantine.

  \<^bold>\<open>Conventions.\<close> A function that may raise returns \<open>py_error + 'a\<close>; a module-level dictionary is a
  field of the state record its theory declares; code between two awaits is one step, and so is a save to the chat log, whose
  \<open>await\<close> of the append is taken apart in \<open>Finalize_Effects\<close> only. What is
  not in the repository is a parameter (the JSON and YAML libraries, ISO dates, printing of
  floats and containers, the kernel, git, the agents themselves), and what is relied on about
  it is a hypothesis with a witness that a concrete function satisfies it.

  \<^bold>\<open>Interfaces.\<close> \<open>Takeoff_Gate\<close> states the incremental fold over an append-only log as the locale
  \<open>suffix_fold\<close>, interpreted on the gate's fold; \<open>Thinking_State\<close> states the busy interval as
  \<open>busy_tracker\<close>, interpreted on the module's dictionary and used by the queue; \<open>Finalize_Effects\<close>
  states a fold that keeps up with a log as \<open>log_fold\<close>; \<open>Finalize_Laws\<close> states what a relation
  between worlds has to satisfy for the whole completion to move along it as \<open>act_relation\<close>,
  \<open>completion_base\<close> and \<open>completion_relation\<close>, interpreted for each such relation: the summaries
  of a thread, the steps of a chain, growth, what a completion keeps. \<open>Worker_Run\<close> states the
  relations every step and every event of a run stays in as \<open>run_relation\<close> and \<open>event_relation\<close>,
  interpreted on the processes started and on the task of the worker; \<open>Lifecycle_Laws\<close> states what
  acts that finish no work stay in as \<open>bystander\<close>, an \<open>act_relation\<close>, interpreted on an unchanged
  set of threads and on one where no thread ends.

  \<^bold>\<open>Bounds and fuel.\<close> The escalation loop takes fuel; 26 suffice because each poll after the
  first probe advances the clock by 0.2 s and the grace is 5 s; with the probe that decides these
  are at most 27 probes. The queue's draining bound is nine moves per item. The relay
  loop of a run ends by the relays left of the three a task has.
  Everything else is total: structural recursion, or a measure.

  \<^bold>\<open>Not modelled.\<close> Logging; rendering and the web front end; the HTTP routes, which validate and
  delegate; the agents' transports (\<open>agents/backends\<close>), whose answers are arbitrary here; the
  pydantic schemas beyond the fields used. Of \<open>core/sessions.py\<close>, the listing caches, the search and
  the directory housekeeping, which are file system traversals; of the master's turn
  (\<open>agents/master_cc_run.py\<close>) the process, which is a parameter of the queue and of the wake; the
  token tallies and usage panels, which read the vendors' transcripts and services; the cron
  arithmetic of the scheduler, which is a library's; the offline experiments on the memory store; the
  rendered differences of plans. A worker's run and the finalize chain meet in its exit: the events
  log the finalize chain reads is a parameter, not the log the run of the model writes.
\<close>

end
